(* ===== verification/Flight_Prelude.thy ===== *)
theory Flight_Prelude
  imports "HOL-Library.Word"
begin

text \<open>
  Shared base of the development: the C integer types as words, C's division on signed
  integers, bounds-checked arrays, counted loops over a fallible body, the error numbers
  the sources return, and the bit-level lemmas the component theories share.

  \<^item> \<open>fold_opt body [a..<b] s\<close> is \<open>for (i = a; i < b; i++) body\<close>: the state is threaded
    through the body, and \<open>None\<close> (an access out of range, a failed \<open>assert\<close>, a loop
    that does not end) stops everything.
  \<^item> \<open>arr_get\<close> and \<open>arr_put\<close> are array accesses; out of range they are \<open>None\<close>, as C
    gives such an access no meaning.
  \<^item> \<open>bits_val\<close> reads a list of bits, most significant first, as a number.
\<close>

unbundle bit_operations_syntax

type_synonym u8 = "8 word"
type_synonym u16 = "16 word"
type_synonym u32 = "32 word"
type_synonym u64 = "64 word"
type_synonym i32 = "32 word"
type_synonym i64 = "64 word"

named_theorems flight_bits \<open>the value of a single bit of a word expression\<close>
named_theorems opt_elims \<open>facts that decompose a successful fallible computation\<close>

subsection \<open>Error numbers\<close>

text \<open>
  The error numbers of the C library the firmware is built with. The code returns them
  negated. \<open>ENOTINIT\<close> is the repository's own.
\<close>

definition EIO :: int where "EIO = 5"
definition EAGAIN :: int where "EAGAIN = 11"
definition ENODEV :: int where "ENODEV = 19"
definition EINVAL :: int where "EINVAL = 22"
definition ENOSPC :: int where "ENOSPC = 28"
definition EDOM :: int where "EDOM = 33"
definition ENOTSUP :: int where "ENOTSUP = 134"

lemmas errno_defs = EIO_def EAGAIN_def ENODEV_def EINVAL_def ENOSPC_def EDOM_def ENOTSUP_def

subsection \<open>C integer arithmetic\<close>

definition c_div :: "int \<Rightarrow> int \<Rightarrow> int" where
  "c_div a b = sgn a * sgn b * (\<bar>a\<bar> div \<bar>b\<bar>)"

definition c_mod :: "int \<Rightarrow> int \<Rightarrow> int" where
  "c_mod a b = a - b * c_div a b"

definition sdiv32 :: "i32 \<Rightarrow> i32 \<Rightarrow> i32" where
  "sdiv32 a b = word_of_int (c_div (sint a) (sint b))"

text \<open>Conversions to the integer types; the compiler is told that signed integers wrap.\<close>

definition to_i32 :: "int \<Rightarrow> int" where "to_i32 = signed_take_bit 31"
definition to_u32 :: "int \<Rightarrow> int" where "to_u32 = take_bit 32"
definition to_i64 :: "int \<Rightarrow> int" where "to_i64 = signed_take_bit 63"
definition to_u64 :: "int \<Rightarrow> int" where "to_u64 = take_bit 64"

lemma to_i32_fits: "- 2147483648 \<le> x \<Longrightarrow> x \<le> 2147483647 \<Longrightarrow> to_i32 x = x"
  by (simp add: to_i32_def signed_take_bit_int_eq_self)

lemma c_div_nonneg [simp]: "0 \<le> a \<Longrightarrow> 0 \<le> b \<Longrightarrow> c_div a b = a div b"
  by (cases "a = 0"; cases "b = 0") (simp_all add: c_div_def)

lemma c_mod_nonneg [simp]: "0 \<le> a \<Longrightarrow> 0 \<le> b \<Longrightarrow> c_mod a b = a mod b"
  by (simp add: c_mod_def minus_mult_div_eq_mod)

lemma c_div_mod: "b * c_div a b + c_mod a b = a"
  by (simp add: c_mod_def)

lemma uint_less_unat: "unat (w :: 'a::len word) < n \<Longrightarrow> uint w < int n"
  by (simp only: uint_nat of_nat_less_iff)

lemma sint_eq_unat:
  assumes "unat (w :: 'a::len word) < 2 ^ (LENGTH('a) - 1)"
  shows "sint w = int (unat w)"
proof -
  have "int (unat w) < int (2 ^ (LENGTH('a) - 1))"
    using assms by (simp only: of_nat_less_iff)
  then have "uint w < 2 ^ (LENGTH('a) - Suc 0)" by simp
  moreover have "- (2 ^ (LENGTH('a) - Suc 0)) \<le> uint w"
    by (rule order_trans [of _ 0]) simp_all
  ultimately show ?thesis by (simp add: sint_uint signed_take_bit_int_eq_self)
qed

subsection \<open>Counted loops and arrays\<close>

fun fold_opt :: "('i \<Rightarrow> 's \<Rightarrow> 's option) \<Rightarrow> 'i list \<Rightarrow> 's \<Rightarrow> 's option" where
  "fold_opt f [] s = Some s"
| "fold_opt f (i # is) s = (case f i s of None \<Rightarrow> None | Some s' \<Rightarrow> fold_opt f is s')"

lemma fold_opt_append:
  "fold_opt f (xs @ ys) s = Option.bind (fold_opt f xs s) (fold_opt f ys)"
  by (induction xs arbitrary: s) (auto split: option.splits)

lemma fold_opt_total:
  assumes "\<And>i s. i \<in> set xs \<Longrightarrow> f i s = Some (g i s)"
  shows "fold_opt f xs s = Some (fold g xs s)"
  using assms by (induction xs arbitrary: s) auto

text \<open>A loop invariant indexed by the list still to be processed.\<close>

lemma fold_opt_invariant:
  assumes "P 0 s"
    and "\<And>k s. k < length xs \<Longrightarrow> P k s \<Longrightarrow> \<exists>s'. f (xs ! k) s = Some s' \<and> P (Suc k) s'"
  shows "\<exists>s'. fold_opt f xs s = Some s' \<and> P (length xs) s'"
proof -
  have "\<exists>s'. fold_opt f (take k xs) s = Some s' \<and> P k s'" if "k \<le> length xs" for k
    using that
  proof (induction k)
    case 0
    then show ?case using assms(1) by simp
  next
    case (Suc k)
    then obtain s1 where s1: "fold_opt f (take k xs) s = Some s1" "P k s1" by auto
    from Suc.prems assms(2) [of k s1] s1(2) obtain s2 where
      "f (xs ! k) s1 = Some s2" "P (Suc k) s2" by auto
    with s1 Suc.prems show ?case
      by (auto simp: take_Suc_conv_app_nth fold_opt_append)
  qed
  from this [of "length xs"] show ?thesis by simp
qed

definition arr_get :: "'a list \<Rightarrow> nat \<Rightarrow> 'a option" where
  "arr_get xs i = (if i < length xs then Some (xs ! i) else None)"

definition arr_put :: "'a list \<Rightarrow> nat \<Rightarrow> 'a \<Rightarrow> 'a list option" where
  "arr_put xs i v = (if i < length xs then Some (xs[i := v]) else None)"

lemma arr_get_in [simp]: "i < length xs \<Longrightarrow> arr_get xs i = Some (xs ! i)"
  by (simp add: arr_get_def)

lemma arr_put_in [simp]: "i < length xs \<Longrightarrow> arr_put xs i v = Some (xs[i := v])"
  by (simp add: arr_put_def)

lemma arr_put_length [opt_elims]: "arr_put xs i v = Some ys \<Longrightarrow> length ys = length xs"
  by (auto simp: arr_put_def split: if_splits)

subsection \<open>Bits as lists, most significant first\<close>

fun bits_val :: "bool list \<Rightarrow> nat" where
  "bits_val [] = 0"
| "bits_val (b # bs) = of_bool b * 2 ^ length bs + bits_val bs"

lemma bits_val_append: "bits_val (xs @ ys) = bits_val xs * 2 ^ length ys + bits_val ys"
  by (induction xs) (simp_all add: algebra_simps power_add)

lemma bits_val_snoc [simp]: "bits_val (xs @ [b]) = 2 * bits_val xs + of_bool b"
  by (simp add: bits_val_append)

lemma bits_val_less: "bits_val bs < 2 ^ length bs"
  by (induction bs) auto

definition word_bits :: "nat \<Rightarrow> 'a::len word \<Rightarrow> bool list" where
  "word_bits n w = map (bit w) (rev [0..<n])"

definition bits_word :: "bool list \<Rightarrow> 'a::len word" where
  "bits_word bs = of_nat (bits_val bs)"

lemma length_word_bits [simp]: "length (word_bits n w) = n"
  by (simp add: word_bits_def)

lemma nth_word_bits: "i < n \<Longrightarrow> word_bits n w ! i = bit w (n - 1 - i)"
  by (simp add: word_bits_def rev_nth)

lemma bit_bits_val:
  "bit (bits_val bs) n = (n < length bs \<and> bs ! (length bs - 1 - n))"
proof (induction bs arbitrary: n rule: rev_induct)
  case Nil
  then show ?case by simp
next
  case (snoc b bs)
  show ?case
  proof (cases n)
    case 0
    then show ?thesis by (simp add: bit_0 nth_append)
  next
    case (Suc m)
    have "bit (2 * bits_val bs + of_bool b) (Suc m) = bit (bits_val bs) m"
      by (cases b) (simp_all add: bit_Suc)
    then have "bit (bits_val (bs @ [b])) n = (m < length bs \<and> bs ! (length bs - 1 - m))"
      using snoc.IH [of m] Suc by (simp only: bits_val_snoc)
    with Suc show ?thesis by (auto simp: nth_append)
  qed
qed

lemma bit_bits_word [flight_bits]:
  "bit (bits_word bs :: 'a::len word) n =
     (n < LENGTH('a) \<and> n < length bs \<and> bs ! (length bs - 1 - n))"
  by (simp add: bits_word_def bit_of_nat_iff bit_bits_val)

lemma word_bits_bits_word:
  "length bs = n \<Longrightarrow> n \<le> LENGTH('a) \<Longrightarrow> word_bits n (bits_word bs :: 'a::len word) = bs"
  by (rule nth_equalityI) (auto simp: nth_word_bits bit_bits_word)

lemma bits_word_word_bits:
  "LENGTH('a) \<le> n \<Longrightarrow> bits_word (word_bits n w) = (w :: 'a::len word)"
  by (rule bit_word_eqI) (auto simp: bit_bits_word nth_word_bits)

subsection \<open>Words with no bits from some position on\<close>

definition below_bit :: "nat \<Rightarrow> 'a::len word \<Rightarrow> bool" where
  "below_bit n w \<longleftrightarrow> (\<forall>i\<ge>n. \<not> bit w i)"

lemma below_bit_xor: "below_bit n a \<Longrightarrow> below_bit n b \<Longrightarrow> below_bit n (a XOR b)"
  by (simp add: below_bit_def bit_xor_iff)

lemma below_bit_step: "below_bit n w \<longleftrightarrow> below_bit (Suc n) w \<and> \<not> bit w n"
  unfolding below_bit_def by (metis Suc_leD Suc_leI le_neq_implies_less order_refl)

lemma below_bit_mono: "below_bit m w \<Longrightarrow> m \<le> n \<Longrightarrow> below_bit n w"
  by (auto simp: below_bit_def)

lemma below_bit_unat: "below_bit n (w :: 'a::len word) \<longleftrightarrow> unat w < 2 ^ n"
proof -
  have "below_bit n w \<longleftrightarrow> take_bit n w = w"
    unfolding below_bit_def bit_eq_iff [of "take_bit n w"] bit_take_bit_iff
    using bit_imp_possible_bit [of w] by (meson not_le)
  also have "\<dots> \<longleftrightarrow> take_bit n (unat w) = unat w"
    by (metis unsigned_take_bit_eq word_unat_eq_iff)
  also have "\<dots> \<longleftrightarrow> unat w < 2 ^ n"
    by (simp add: take_bit_nat_eq_self_iff)
  finally show ?thesis .
qed

text \<open>A count below 2 ^ 31 is the same as a signed number.\<close>

lemma sint_count:
  assumes "n < 2 ^ 31"
  shows "sint (of_nat n :: u32) = int n"
proof -
  have "unat (of_nat n :: u32) = n" using assms by (simp only: unat_of_nat take_bit_nat_eq_self len_bit0 len_num1) simp
  then show ?thesis using assms by (subst sint_eq_unat) simp_all
qed

end
