(* ===== verification/Golay.thy ===== *)
theory Golay
  imports Flight_Prelude
begin

text \<open>
  The Golay (23,12,7) code of \<open>lib/f_core/radio/protocols/horus/golay.c\<close>: the syndrome
  computation, the polynomial remainder it implements, and the minimum distance that makes
  the syndromes of all patterns of up to three errors different.

  C \<open>int\<close> and \<open>int32_t\<close> values are 32-bit words compared as signed numbers. The two loops
  of \<open>get_syndrome\<close> may run forever, so they are partial functions whose \<open>None\<close> is not
  returning.
\<close>

subsection \<open>Syndromes\<close>

definition X22 :: i32 where "X22 = 0x00400000"
definition X11 :: i32 where "X11 = 0x00000800"
definition MASK12 :: i32 where "MASK12 = 0xfffff800"
definition GENPOL :: i32 where "GENPOL = 0x00000c75"

text \<open>\<open>while (!(aux & pattern)) aux = aux >> 1;\<close>\<close>

partial_function (option) find_aux :: "i32 \<Rightarrow> i32 \<Rightarrow> i32 option" where
  "find_aux aux pattern =
     (if aux AND pattern \<noteq> 0 then Some aux else find_aux (signed_drop_bit 1 aux) pattern)"

text \<open>\<open>while (pattern & MASK12) { ... }\<close>; \<open>aux\<close> keeps its value between the rounds.\<close>

partial_function (option) syn_loop :: "i32 \<Rightarrow> i32 \<Rightarrow> i32 option" where
  "syn_loop aux pattern =
     (if pattern AND MASK12 = 0 then Some pattern
      else (case find_aux aux pattern of
              None \<Rightarrow> None
            | Some aux' \<Rightarrow> syn_loop aux' (pattern XOR (sdiv32 aux' X11 * GENPOL))))"

definition get_syndrome :: "i32 \<Rightarrow> i32 option" where
  "get_syndrome pattern = (if X11 \<le>s pattern then syn_loop X22 pattern else Some pattern)"

lemmas golay_consts = X22_def X11_def MASK12_def GENPOL_def

text \<open>
  The mathematical remainder: long division by \<open>GENPOL\<close>, one quotient bit at a time.
\<close>

fun red :: "nat \<Rightarrow> i32 \<Rightarrow> i32" where
  "red 0 p = p"
| "red (Suc n) p = red n (if bit p (n + 11) then p XOR push_bit n GENPOL else p)"

abbreviation syn :: "i32 \<Rightarrow> i32" where
  "syn \<equiv> red 12"

lemma bit_GENPOL: "bit GENPOL i \<longleftrightarrow> i \<in> {0, 2, 4, 5, 6, 10, 11}"
proof -
  have "bit GENPOL i \<longleftrightarrow> i \<in> {0, 2, 4, 5, 6, 10, 11}" if "i < 32"
  proof -
    have "\<forall>i \<in> set [0..<32]. bit GENPOL i \<longleftrightarrow> i \<in> {0, 2, 4, 5, 6, 10, 11}"
      by (simp add: GENPOL_def upt_rec)
    with that show ?thesis by simp
  qed
  moreover have "\<not> bit GENPOL i" if "32 \<le> i"
    using that bit_imp_le_length [of GENPOL i] by auto
  ultimately show ?thesis by (cases "i < 32") auto
qed

lemma red_xor: "red n (a XOR b) = red n a XOR red n b"
proof (induction n arbitrary: a b)
  case (Suc n)
  have *: "red n (a XOR b XOR c) = red n a XOR red n b XOR red n c" for a b c
    by (simp add: Suc.IH)
  show ?case
    by (simp add: bit_xor_iff Suc.IH xor.assoc xor.left_commute xor.commute)
qed simp

lemma below_bit_red_step:
  assumes "n \<le> 12" "below_bit (n + 12) p"
  shows "below_bit (n + 11) (if bit p (n + 11) then p XOR push_bit n GENPOL else p)"
proof -
  have "below_bit (n + 12) (push_bit n GENPOL :: i32)" "bit (push_bit n GENPOL :: i32) (n + 11)"
    using assms(1) by (auto simp: below_bit_def bit_push_bit_iff bit_GENPOL)
  with assms show ?thesis
    by (simp add: below_bit_step [of "n + 11"] below_bit_xor bit_xor_iff add.commute)
qed

lemma red_below: "n \<le> 12 \<Longrightarrow> below_bit (n + 11) p \<Longrightarrow> below_bit 11 (red n p)"
proof (induction n arbitrary: p)
  case (Suc n)
  then show ?case
    using Suc.IH [OF _ below_bit_red_step] by (simp add: add.commute)
qed simp

lemma red_small: "below_bit 11 p \<Longrightarrow> red n p = p"
  by (induction n) (simp_all add: below_bit_def)

lemma signed_drop_bit_pow2:
  assumes "Suc m \<le> 30"
  shows "signed_drop_bit 1 (2 ^ Suc m :: i32) = 2 ^ m"
  by (rule bit_word_eqI)
    (use assms in \<open>auto simp: bit_signed_drop_bit_iff bit_exp_iff simp del: power_Suc\<close>)

lemma pow2_and: "2 ^ k AND (p :: 'a::len word) \<noteq> 0 \<longleftrightarrow> bit p k"
  by (subst and.commute) (simp only: and_exp_eq_0_iff_not_bit not_not)

lemma find_aux_top:
  assumes "m \<le> 22" "k \<le> m" "below_bit (Suc k) p" "bit p k"
  shows "find_aux (2 ^ m) p = Some (2 ^ k)"
  using assms
proof (induction m)
  case 0
  with pow2_and [of 0 p] show ?case by (subst find_aux.simps) simp
next
  case (Suc m)
  note bit_and = pow2_and [of "Suc m" p]
  show ?case
  proof (cases "k = Suc m")
    case True
    with bit_and Suc.prems show ?thesis by (subst find_aux.simps) simp
  next
    case False
    then have "\<not> bit p (Suc m)" using Suc.prems by (simp add: below_bit_def)
    with bit_and have "find_aux (2 ^ Suc m) p = find_aux (2 ^ m) p"
      using Suc.prems(1) by (subst find_aux.simps) (simp add: signed_drop_bit_pow2 del: power_Suc One_nat_def)
    with False Suc show ?thesis by (simp del: power_Suc)
  qed
qed

lemma quotient_step:
  assumes "n < 12"
  shows "sdiv32 (2 ^ (n + 11)) X11 * GENPOL = push_bit n GENPOL"
proof -
  have "\<forall>n \<in> set [0..<12]. sdiv32 (2 ^ (n + 11)) X11 * GENPOL = push_bit n GENPOL"
    by (simp add: golay_consts upt_rec sdiv32_def push_bit_eq_mult)
  with assms show ?thesis by (simp del: power_Suc)
qed

lemma and_MASK12_zero: "p AND MASK12 = 0 \<longleftrightarrow> below_bit 11 p"
proof -
  have m: "MASK12 = NOT (mask 11)" by (simp add: MASK12_def mask_eq_exp_minus_1)
  have len: "bit p n \<Longrightarrow> n < 32" for n using bit_imp_le_length [of p n] by simp
  show ?thesis
    using len by (auto simp: m below_bit_def bit_eq_iff bit_simps not_le) (metis not_le)
qed

lemma syn_loop_red:
  assumes "n \<le> 12" "below_bit (n + 11) p" "n + 10 \<le> m" "m \<le> 22"
  shows "syn_loop (2 ^ m) p = Some (red n p)"
  using assms
proof (induction n arbitrary: p m)
  case 0
  then show ?case by (subst syn_loop.simps) (simp add: and_MASK12_zero)
next
  case (Suc n)
  have step: "below_bit (n + 11) (if bit p (n + 11) then p XOR push_bit n GENPOL else p)"
    using Suc.prems by (intro below_bit_red_step) (simp_all add: add.commute)
  show ?case
  proof (cases "bit p (n + 11)")
    case True
    have "find_aux (2 ^ m) p = Some (2 ^ (n + 11))"
      using Suc.prems True by (intro find_aux_top) (simp_all add: add.commute)
    moreover have "p AND MASK12 \<noteq> 0"
      using True le_add2 [of 11 n] by (auto simp only: and_MASK12_zero below_bit_def)
    ultimately show ?thesis
      using True step Suc.prems Suc.IH [of "p XOR push_bit n GENPOL" "n + 11"]
      by (subst syn_loop.simps) (simp add: quotient_step)
  next
    case False
    with step Suc show ?thesis by simp
  qed
qed

lemma get_syndrome_eq:
  assumes "below_bit 23 p"
  shows "get_syndrome p = Some (syn p)"
proof (cases "X11 \<le>s p")
  case True
  moreover have "X22 = 2 ^ 22" by (simp add: X22_def)
  ultimately show ?thesis
    using assms syn_loop_red [of 12 p 22] by (simp add: get_syndrome_def)
next
  case False
  have "sint p = int (unat p)"
    using assms by (intro sint_eq_unat) (simp add: below_bit_unat)
  with False have "int (unat p) < int (2 ^ 11)"
    by (simp add: word_sle_eq X11_def)
  then have "unat p < 2 ^ 11" by (simp only: of_nat_less_iff)
  then have "below_bit 11 p" by (simp only: below_bit_unat)
  with False show ?thesis by (simp add: get_syndrome_def red_small)
qed


lemma red_numeral: "red (numeral k) p =
   red (pred_numeral k) (if bit p (pred_numeral k + 11) then p XOR push_bit (pred_numeral k) GENPOL else p)"
  by (simp add: numeral_eq_Suc)

subsection \<open>Minimum distance\<close>

text \<open>
  A pattern of at most 23 bits is split into its 12 information bits and 11 check bits.
  The syndrome of the information part is the sum of the rows of the generator matrix its
  bits select; \<open>row_check\<close> walks all 4096 sums and finds at least seven ones in each
  nonzero codeword.
\<close>

definition weight :: "i32 \<Rightarrow> nat" where
  "weight w = length (filter (bit w) [0..<23])"

definition gen_row :: "nat \<Rightarrow> bool list" where
  "gen_row i = map (bit (syn (2 ^ (11 + i)))) [0..<11]"

definition xorl :: "bool list \<Rightarrow> bool list \<Rightarrow> bool list" where
  "xorl xs ys = map2 (\<noteq>) xs ys"

definition ones :: "bool list \<Rightarrow> nat" where
  "ones xs = length (filter id xs)"

fun row_check :: "bool list list \<Rightarrow> nat \<Rightarrow> bool list \<Rightarrow> bool" where
  "row_check [] n acc = (n = 0 \<or> 7 \<le> n + ones acc)"
| "row_check (r # rs) n acc =
     (7 \<le> n \<or> (row_check rs n acc \<and> row_check rs (Suc n) (xorl acc r)))"

lemma syn_units:
  "syn 0x800 = 0x475"
  "syn 0x1000 = 0x49f"
  "syn 0x2000 = 0x54b"
  "syn 0x4000 = 0x6e3"
  "syn 0x8000 = 0x1b3"
  "syn 0x10000 = 0x366"
  "syn 0x20000 = 0x6cc"
  "syn 0x40000 = 0x1ed"
  "syn 0x80000 = 0x3da"
  "syn 0x100000 = 0x7b4"
  "syn 0x200000 = 0x31d"
  "syn 0x400000 = 0x63a"
  by (simp_all add: red_numeral GENPOL_def)

definition gen_rows :: "bool list list" where
  "gen_rows = [
    [True, False, True, False, True, True, True, False, False, False, True],
    [True, True, True, True, True, False, False, True, False, False, True],
    [True, True, False, True, False, False, True, False, True, False, True],
    [True, True, False, False, False, True, True, True, False, True, True],
    [True, True, False, False, True, True, False, True, True, False, False],
    [False, True, True, False, False, True, True, False, True, True, False],
    [False, False, True, True, False, False, True, True, False, True, True],
    [True, False, True, True, False, True, True, True, True, False, False],
    [False, True, False, True, True, False, True, True, True, True, False],
    [False, False, True, False, True, True, False, True, True, True, True],
    [True, False, True, True, True, False, False, False, True, True, False],
    [False, True, False, True, True, True, False, False, False, True, True]
  ]"

lemma upt_11: "[0..<11] = [0,1,2,3,4,5,6,7,8,9,10]" by (simp add: upt_rec)

lemma gen_rows: "map gen_row [0..<12] = gen_rows"
  by (simp add: gen_row_def gen_rows_def upt_rec[of _ 12] upt_11 syn_units)

lemma row_check_golay: "row_check gen_rows 0 (replicate 11 False)"
  by code_simp

definition combine :: "(bool list \<times> bool) list \<Rightarrow> bool list \<Rightarrow> bool list" where
  "combine rbs acc = fold (\<lambda>(r, b) acc. if b then xorl acc r else acc) rbs acc"

lemma row_check_sound:
  assumes "row_check rs n acc" "length bs = length rs"
  shows "n + ones bs = 0 \<or> 7 \<le> n + ones bs + ones (combine (zip rs bs) acc)"
  using assms
proof (induction rs n acc arbitrary: bs rule: row_check.induct)
  case (1 n acc)
  then show ?case by (simp add: ones_def combine_def)
next
  case (2 r rs n acc)
  then obtain b cs where bs: "bs = b # cs" "length cs = length rs"
    by (cases bs) auto
  with 2 show ?case
    by (cases b) (force simp: ones_def combine_def)+
qed

definition info_part :: "nat \<Rightarrow> i32 \<Rightarrow> i32" where
  "info_part k p = p AND (mask (11 + k) AND NOT (mask 11))"

lemma bit_info_part: "bit (info_part k p) j \<longleftrightarrow> 11 \<le> j \<and> j < 11 + k \<and> bit p j"
  using bit_imp_possible_bit [of p j] by (auto simp: info_part_def bit_simps)

lemma info_part_Suc:
  "info_part (Suc k) p =
     (if bit p (11 + k) then info_part k p XOR 2 ^ (11 + k) else info_part k p)"
proof -
  have "bit p (11 + k) \<Longrightarrow> 11 + k < 32" using bit_imp_possible_bit [of p "11 + k"] by simp
  then show ?thesis
    by (intro bit_word_eqI, rename_tac n, case_tac "n = 11 + k")
      (auto simp: bit_info_part bit_simps)
qed

lemma xorl_map: "xorl (map f xs) (map g xs) = map (\<lambda>i. f i \<noteq> g i) xs"
  by (induction xs) (simp_all add: xorl_def)

lemma combine_info:
  "combine (zip (map gen_row [0..<k]) (map (\<lambda>i. bit p (11 + i)) [0..<k])) (replicate 11 False) =
     map (bit (syn (info_part k p))) [0..<11]"
proof (induction k)
  case 0
  have "info_part 0 p = 0" by (rule bit_word_eqI) (simp add: bit_info_part)
  then show ?case
    by (simp add: combine_def red_small below_bit_def map_replicate_const)
next
  case (Suc k)
  show ?case
    using Suc by (simp add: combine_def info_part_Suc red_xor gen_row_def xorl_map bit_xor_iff)
qed

lemma weight_split:
  "weight p = ones (map (\<lambda>i. bit p (11 + i)) [0..<12]) + ones (map (bit p) [0..<11])"
proof -
  have "[0..<23] = [0..<11] @ map ((+) 11) [0..<12]"
    by (simp add: upt_rec)
  then show ?thesis
    by (simp add: weight_def ones_def filter_map o_def del: upt_Suc)
qed

lemma xor_zero_iff: "a XOR b = 0 \<longleftrightarrow> a = (b :: 'a::len word)"
  by (auto simp: bit_eq_iff bit_xor_iff)

lemma min_distance:
  assumes "below_bit 23 p" "syn p = 0" "weight p \<le> 6"
  shows "p = 0"
proof -
  define lo where "lo = p AND mask 11"
  have p: "p = lo XOR info_part 12 p"
    using assms(1)
    by (intro bit_word_eqI) (auto simp: lo_def bit_info_part bit_simps below_bit_def not_less)
  have "below_bit 11 lo" by (simp add: below_bit_def lo_def bit_simps)
  moreover have "syn lo XOR syn (info_part 12 p) = 0"
    using arg_cong [OF p, of syn] assms(2) by (simp only: red_xor)
  ultimately have lo_syn: "lo = syn (info_part 12 p)"
    by (simp only: red_small xor_zero_iff)
  have lo: "map (bit (syn (info_part 12 p))) [0..<11] = map (bit p) [0..<11]"
    unfolding lo_syn [symmetric] by (auto simp: lo_def bit_simps)
  let ?bs = "map (\<lambda>i. bit p (11 + i)) [0..<12]"
  have "ones ?bs = 0 \<or> 7 \<le> ones ?bs + ones (combine (zip gen_rows ?bs) (replicate 11 False))"
    using row_check_sound [OF row_check_golay, of ?bs] by (simp add: gen_rows_def)
  moreover have "combine (zip gen_rows ?bs) (replicate 11 False) = map (bit p) [0..<11]"
    using combine_info [of 12 p] lo by (simp only: gen_rows)
  ultimately have "ones ?bs = 0"
    using assms(3) weight_split [of p] by simp
  then have "\<forall>i<12. \<not> bit p (11 + i)"
    by (auto simp: ones_def filter_empty_conv simp del: upt_Suc)
  then have none: "\<not> bit p n" if "11 \<le> n" "n < 23" for n
    using that by (auto dest: spec [of _ "n - 11"])
  then have "info_part 12 p = 0"
    by (intro bit_word_eqI) (simp add: bit_info_part)
  with lo_syn p show ?thesis by (simp add: red_small below_bit_def)
qed

lemma weight_xor: "weight (a XOR b) \<le> weight a + weight b"
proof -
  have "length (filter (\<lambda>i. P i \<noteq> Q i) xs) \<le> length (filter P xs) + length (filter Q xs)"
    for P Q :: "nat \<Rightarrow> bool" and xs
    by (induction xs) auto
  moreover have "bit (a XOR b) = (\<lambda>i. bit a i \<noteq> bit b i)"
    by (simp add: fun_eq_iff bit_xor_iff)
  ultimately show ?thesis by (simp add: weight_def)
qed

text \<open>Different patterns of at most three errors have different syndromes.\<close>

lemma syn_inj:
  assumes "below_bit 23 a" "below_bit 23 b" "weight a \<le> 3" "weight b \<le> 3" "syn a = syn b"
  shows "a = b"
proof -
  have "syn (a XOR b) = 0" using assms(5) by (simp add: red_xor)
  moreover have "weight (a XOR b) \<le> 6" using weight_xor [of a b] assms by simp
  ultimately have "a XOR b = 0"
    using assms min_distance [of "a XOR b"] by (simp add: below_bit_xor)
  then show ?thesis by (simp only: xor_zero_iff)
qed

subsection \<open>Properties\<close>

text \<open>The product of the generator polynomial with the low \<open>n\<close> coefficients of \<open>q\<close>.\<close>

fun gen_mult :: "nat \<Rightarrow> i32 \<Rightarrow> i32" where
  "gen_mult 0 q = 0"
| "gen_mult (Suc n) q = (if bit q n then push_bit n GENPOL else 0) XOR gen_mult n q"

lemma gen_mult_high: "n \<le> m \<Longrightarrow> gen_mult n (q XOR 2 ^ m) = gen_mult n q"
  by (induction n) (auto simp: bit_xor_iff bit_exp_iff)

lemma red_division: "n \<le> 12 \<Longrightarrow> \<exists>q. below_bit n q \<and> p = gen_mult n q XOR red n p"
proof (induction n arbitrary: p)
  case 0
  show ?case by (rule exI [of _ 0]) (simp add: below_bit_def)
next
  case (Suc n)
  let ?p = "if bit p (n + 11) then p XOR push_bit n GENPOL else p"
  obtain q where q: "below_bit n q" "?p = gen_mult n q XOR red n ?p"
    using Suc.IH [of ?p] Suc.prems by auto
  show ?case
  proof (cases "bit p (n + 11)")
    case True
    have "p = push_bit n GENPOL XOR ?p" using True by (simp add: xor.left_commute)
    also have "\<dots> = gen_mult (Suc n) (q XOR 2 ^ n) XOR red (Suc n) p"
      using q True Suc.prems
      by (simp add: gen_mult_high bit_xor_iff bit_exp_iff below_bit_def xor.assoc)
    finally have "p = gen_mult (Suc n) (q XOR 2 ^ n) XOR red (Suc n) p" .
    moreover have "below_bit (Suc n) (q XOR 2 ^ n)"
      using q(1) by (auto simp: below_bit_def bit_xor_iff bit_exp_iff)
    ultimately show ?thesis by blast
  next
    case False
    have "\<not> bit q n" "below_bit (Suc n) q" using q(1) by (simp_all add: below_bit_def)
    with False q show ?thesis by (intro exI [of _ q]) simp
  qed
qed

text \<open>
  \<open>get_syndrome\<close> is polynomial division: for every pattern of at most 23 bits both of its
  loops end, and the result has at most eleven bits and differs from the pattern by a
  multiple of the generator polynomial over GF(2) with a quotient of at most twelve bits.
\<close>

theorem get_syndrome_is_remainder:
  assumes "unat p < 2 ^ 23"
  shows "\<exists>s q. get_syndrome p = Some s \<and> unat s < 2 ^ 11 \<and> unat q < 2 ^ 12 \<and>
           p = gen_mult 12 q XOR s"
proof -
  have p: "below_bit 23 p" using assms by (simp only: below_bit_unat)
  then have "unat (syn p) < 2 ^ 11"
    using red_below [of 12 p] by (simp add: below_bit_unat)
  with p show ?thesis
    using get_syndrome_eq red_division [of 12 p] by (auto simp: below_bit_unat)
qed

theorem get_syndrome_is_remainder_witness:
  "\<exists>s q. get_syndrome 0x7ff800 = Some s \<and> unat s < 2 ^ 11 \<and> 0x7ff800 = gen_mult 12 q XOR s"
  using get_syndrome_is_remainder [of "0x7ff800"] by auto

end
