(* ===== verification/Golay_Codec.thy ===== *)
theory Golay_Codec
  imports Golay
begin

text \<open>
  The tables of \<open>lib/f_core/radio/protocols/horus/golay.c\<close> as \<open>golay23_init\<close> builds them,
  encoding and decoding. The two tables and \<open>inited\<close> are the record \<open>golay_state\<close>;
  \<open>None\<close> is an access outside a table or a failed \<open>assert\<close>.
\<close>

subsection \<open>The tables\<close>

record golay_state =
  inited :: bool
  encoding_table :: "i32 list"
  decoding_table :: "i32 list"

definition golay_bss :: golay_state where
  "golay_bss = \<lparr>inited = False, encoding_table = replicate 4096 0, decoding_table = replicate 2048 0\<rparr>"

text \<open>Indexing with a signed \<open>int\<close>.\<close>

definition tab_get :: "i32 list \<Rightarrow> i32 \<Rightarrow> i32 option" where
  "tab_get xs i = (if i <s 0 then None else arr_get xs (unat i))"

definition tab_put :: "i32 list \<Rightarrow> i32 \<Rightarrow> i32 \<Rightarrow> i32 list option" where
  "tab_put xs i v = (if i <s 0 then None else arr_put xs (unat i) v)"

text \<open>
  \<open>arr2int\<close>: the sum of \<open>1 << (a[i] - 1)\<close>, each shift done one bit at a time. A loop
  \<open>while (temp--)\<close> entered with a negative \<open>temp\<close> does not end before \<open>temp\<close> overflows.
\<close>

fun shift_loop :: "nat \<Rightarrow> i32 \<Rightarrow> i32" where
  "shift_loop 0 mul = mul"
| "shift_loop (Suc temp) mul = shift_loop temp (push_bit 1 mul)"

definition arr2int :: "int list \<Rightarrow> nat \<Rightarrow> i32 option" where
  "arr2int a r = fold_opt
     (\<lambda>i result.
        case arr_get a i of
          None \<Rightarrow> None
        | Some v \<Rightarrow> if v - 1 < 0 then None else Some (result + shift_loop (nat (v - 1)) 1))
     [1..<r + 1] 0"

text \<open>\<open>while (a[j] == n - r + j) j--;\<close> with \<open>j + 1\<close> as the recursion argument.\<close>

fun comb_pos :: "int \<Rightarrow> nat \<Rightarrow> nat \<Rightarrow> int list \<Rightarrow> nat option" where
  "comb_pos n r 0 a = None"
| "comb_pos n r (Suc j) a =
     (case arr_get a j of
        None \<Rightarrow> None
      | Some v \<Rightarrow> if v = n - int r + int j then comb_pos n r j a else Some j)"

definition nextcomb :: "int \<Rightarrow> nat \<Rightarrow> int list \<Rightarrow> int list option" where
  "nextcomb n r a =
     (case arr_get a r of
        None \<Rightarrow> None
      | Some v \<Rightarrow>
          let a = a[r := v + 1] in
          if v + 1 \<le> n then Some a
          else (case comb_pos n r r a of
                  None \<Rightarrow> None
                | Some j \<Rightarrow> fold_opt
                    (\<lambda>i a. case arr_get a j of
                        None \<Rightarrow> None
                      | Some u \<Rightarrow> arr_put a i (u + int i - int j + 1))
                    (rev [j..<r + 1]) a))"

text \<open>\<open>decoding_table[get_syndrome(temp)] = temp;\<close>\<close>

definition store_pattern :: "i32 \<Rightarrow> i32 list \<Rightarrow> i32 list option" where
  "store_pattern temp tab =
     (case get_syndrome temp of None \<Rightarrow> None | Some s \<Rightarrow> tab_put tab s temp)"

text \<open>One round of the loops over the combinations, after the first pattern is stored.\<close>

definition store_comb :: "nat \<Rightarrow> int list \<Rightarrow> i32 list \<Rightarrow> i32 list option" where
  "store_comb r a tab =
     (case arr2int a r of None \<Rightarrow> None | Some temp \<Rightarrow> store_pattern temp tab)"

definition comb_round :: "nat \<Rightarrow> nat \<Rightarrow> int list \<times> i32 list \<Rightarrow> (int list \<times> i32 list) option" where
  "comb_round r i s = (case s of (a, tab) \<Rightarrow>
     case nextcomb 23 r a of
       None \<Rightarrow> None
     | Some a' \<Rightarrow> (case store_comb r a' tab of None \<Rightarrow> None | Some tab' \<Rightarrow> Some (a', tab')))"

definition encoding_round :: "nat \<Rightarrow> i32 list \<Rightarrow> i32 list option" where
  "encoding_round pattern tab =
     (let temp = push_bit 11 (of_nat pattern) in
      case get_syndrome temp of None \<Rightarrow> None | Some s \<Rightarrow> arr_put tab pattern (temp + s))"

definition single_round :: "nat \<Rightarrow> i32 \<times> i32 list \<Rightarrow> (i32 \<times> i32 list) option" where
  "single_round i s = (case s of (temp, tab) \<Rightarrow>
     let temp = temp * 2 in
     case store_pattern temp tab of None \<Rightarrow> None | Some tab' \<Rightarrow> Some (temp, tab'))"

text \<open>
  \<open>golay23_init\<close>; the argument \<open>a\<close> is the uninitialised local array \<open>int a[4]\<close>.
\<close>

definition combos :: "nat \<Rightarrow> nat \<Rightarrow> int list \<times> i32 list \<Rightarrow> (int list \<times> i32 list) option" where
  "combos r count s = (case s of (a, tab) \<Rightarrow>
     case store_comb r a tab of
       None \<Rightarrow> None
     | Some tab' \<Rightarrow> fold_opt (comb_round r) [1..<count] (a, tab'))"

definition golay23_init :: "int list \<Rightarrow> golay_state \<Rightarrow> (int \<times> golay_state) option" where
  "golay23_init a st =
     Option.bind (fold_opt encoding_round [0..<4096] (encoding_table st)) (\<lambda>enc.
     Option.bind (arr_put (decoding_table st) 0 0) (\<lambda>tab.
     Option.bind (arr_put tab 1 1) (\<lambda>tab.
     Option.bind (fold_opt single_round [2..<24] (1, tab)) (\<lambda>(temp, tab).
     Option.bind (combos 2 253 (a[1 := 1, 2 := 2], tab)) (\<lambda>(a, tab).
     Option.bind (combos 3 1771 (a[1 := 1, 2 := 2, 3 := 3], tab)) (\<lambda>(a, tab).
     Some (0, \<lparr>inited = True, encoding_table = enc, decoding_table = tab\<rparr>)))))))"

definition golay23_encode :: "golay_state \<Rightarrow> i32 \<Rightarrow> i32 option" where
  "golay23_encode st data =
     (if \<not> inited st then None
      else if \<not> data \<le>s 0xfff then None
      else tab_get (encoding_table st) data)"

definition golay23_decode :: "golay_state \<Rightarrow> i32 \<Rightarrow> i32 option" where
  "golay23_decode st received =
     (if \<not> inited st then None
      else if \<not> (received <s push_bit 23 1 \<and> 0 \<le>s received) then None
      else (case get_syndrome received of
              None \<Rightarrow> None
            | Some s \<Rightarrow>
                (case tab_get (decoding_table st) s of
                   None \<Rightarrow> None
                 | Some e \<Rightarrow> Some (received XOR e))))"

subsection \<open>Enumeration of the error patterns\<close>

lemma shift_loop_eq: "shift_loop k w = push_bit k w"
  by (induction k arbitrary: w) simp_all

fun next2 :: "int \<times> int \<Rightarrow> int \<times> int" where
  "next2 (i, j) = (if j < 23 then (i, j + 1) else (i + 1, i + 2))"

fun next3 :: "int \<times> int \<times> int \<Rightarrow> int \<times> int \<times> int" where
  "next3 (i, j, k) =
     (if k < 23 then (i, j, k + 1) else if j < 22 then (i, j + 1, j + 2) else (i + 1, i + 2, i + 3))"

text \<open>
  \<open>segment f s xs t\<close>: \<open>xs\<close> is \<open>s, f s, f (f s), ..., t\<close>.
\<close>

fun chain :: "('a \<Rightarrow> 'a) \<Rightarrow> 'a list \<Rightarrow> bool" where
  "chain f [] = True"
| "chain f [x] = True"
| "chain f (x # y # ys) = (f x = y \<and> chain f (y # ys))"

definition segment :: "('a \<Rightarrow> 'a) \<Rightarrow> 'a \<Rightarrow> 'a list \<Rightarrow> 'a \<Rightarrow> bool" where
  "segment f s xs t \<longleftrightarrow> xs \<noteq> [] \<and> hd xs = s \<and> last xs = t \<and> chain f xs"

lemma chain_append: "chain f (xs @ y # ys) \<longleftrightarrow> (xs = [] \<or> f (last xs) = y) \<and> chain f xs \<and> chain f (y # ys)"
  by (induction f xs rule: chain.induct) auto

lemma segment_single: "segment f x [x] x"
  by (simp add: segment_def)

lemma segment_append:
  "segment f s xs t \<Longrightarrow> segment f (f t) ys t' \<Longrightarrow> segment f s (xs @ ys) t'"
  by (cases ys) (auto simp: segment_def chain_append)

lemma segment_concat:
  assumes "a \<le> b" "\<And>m. a \<le> m \<Longrightarrow> m \<le> b \<Longrightarrow> segment f (s m) (B m) (t m)"
    and "\<And>m. a \<le> m \<Longrightarrow> m < b \<Longrightarrow> f (t m) = s (m + 1)"
  shows "segment f (s a) (concat (map B [a..b])) (t b)"
  using assms
proof (induction "nat (b - a)" arbitrary: a)
  case 0
  then show ?case by simp
next
  case (Suc n)
  then have "segment f (s (a + 1)) (concat (map B [a + 1..b])) (t b)" by simp
  with Suc have "segment f (s a) (B a @ concat (map B [a + 1..b])) (t b)"
    by (intro segment_append [of f "s a" "B a" "t a"]) simp_all
  with Suc show ?case by (simp add: upto_rec1)
qed

definition pairs :: "(int \<times> int) list" where
  "pairs = [(i, j). i \<leftarrow> [1..23], j \<leftarrow> [i + 1..23]]"

definition triples :: "(int \<times> int \<times> int) list" where
  "triples = [(i, j, k). i \<leftarrow> [1..23], j \<leftarrow> [i + 1..23], k \<leftarrow> [j + 1..23]]"

lemma pairs_segment: "segment next2 (1, 2) pairs (22, 23)"
proof -
  have row: "segment next2 (i, i + 1) (concat (map (\<lambda>j. [(i, j)]) [i + 1..23])) (i, 23)" if "i \<le> 22" for i
    using that segment_concat [of "i + 1" 23 next2 "\<lambda>j. (i, j)" "\<lambda>j. [(i, j)]" "\<lambda>j. (i, j)"]
    by (simp add: segment_single)
  have "segment next2 (1, 2) (concat (map (\<lambda>i. concat (map (\<lambda>j. [(i, j)]) [i + 1..23])) [1..22])) (22, 23)"
    using segment_concat [of 1 22 next2 "\<lambda>i. (i, i + 1)" _ "\<lambda>i. (i, 23)"] row by simp
  then show ?thesis by (simp add: pairs_def upto_rec2 [of 1 23])
qed

lemma triples_segment: "segment next3 (1, 2, 3) triples (21, 22, 23)"
proof -
  let ?row = "\<lambda>i j. concat (map (\<lambda>k. [(i, j, k)]) [j + 1..23])"
  let ?plane = "\<lambda>i. concat (map (?row i) [i + 1..22])"
  have row: "segment next3 (i, j, j + 1) (?row i j) (i, j, 23)" if "j \<le> 22" for i j
    using that segment_concat [of "j + 1" 23 next3 "\<lambda>k. (i, j, k)" "\<lambda>k. [(i, j, k)]" "\<lambda>k. (i, j, k)"]
    by (simp add: segment_single)
  have plane: "segment next3 (i, i + 1, i + 2) (?plane i) (i, 22, 23)" if "i \<le> 21" for i
    using that segment_concat [of "i + 1" 22 next3 "\<lambda>j. (i, j, j + 1)" "?row i" "\<lambda>j. (i, j, 23)"] row
    by (simp add: add.commute)
  have "segment next3 (1, 2, 3) (concat (map ?plane [1..21])) (21, 22, 23)"
    using segment_concat [of 1 21 next3 "\<lambda>i. (i, i + 1, i + 2)" ?plane "\<lambda>i. (i, 22, 23)"] plane by simp
  moreover have planes: "concat (map (?row i) [i + 1..23]) = ?plane i" if "i \<le> 22" for i
    using that by (simp add: upto_rec2 [of "i + 1" 23])
  have "map (\<lambda>i. concat (map (?row i) [i + 1..23])) [1..22] = map ?plane [1..22]"
    by (rule map_cong [OF refl], rule planes) simp
  then have "concat (map (\<lambda>i. concat (map (?row i) [i + 1..23])) [1..22]) = concat (map ?plane [1..22])"
    by (simp only:)
  then have "triples = concat (map ?plane [1..22])"
    by (simp add: triples_def upto_rec2 [of 1 23])
  ultimately show ?thesis by (simp add: upto_rec2 [of 1 22])
qed

lemma length_pairs: "length pairs = 253"
  by (simp add: pairs_def length_concat o_def) code_simp

lemma length_triples: "length triples = 1771"
  by (simp add: triples_def length_concat o_def) code_simp

lemma comb_pos_step:
  "0 < j \<Longrightarrow> comb_pos n r j a =
     (case arr_get a (j - 1) of
        None \<Rightarrow> None
      | Some v \<Rightarrow> if v = n - int r + int (j - 1) then comb_pos n r (j - 1) a else Some (j - 1))"
  by (cases j) (simp_all only: comb_pos.simps diff_Suc_1)

lemmas nextcomb_eval = nextcomb_def arr_get_def arr_put_def comb_pos_step upt_rec [of _ 4] upt_rec [of _ 3]

lemma nextcomb2:
  assumes "1 \<le> i" "i < j" "j \<le> 23" "(i, j) \<noteq> (22, 23)"
  shows "nextcomb 23 2 [a, i, j, x] = Some (case next2 (i, j) of (i', j') \<Rightarrow> [a, i', j', x])"
proof -
  have "j < 23 \<or> j = 23 \<and> i < 22" using assms by auto
  then show ?thesis by (elim disjE conjE) (simp_all add: nextcomb_eval)
qed

lemma nextcomb3:
  assumes "1 \<le> i" "i < j" "j < k" "k \<le> 23" "(i, j, k) \<noteq> (21, 22, 23)"
  shows "nextcomb 23 3 [a, i, j, k] = Some (case next3 (i, j, k) of (i', j', k') \<Rightarrow> [a, i', j', k'])"
proof -
  have "k < 23 \<or> k = 23 \<and> j < 22 \<or> k = 23 \<and> j = 22 \<and> i < 21" using assms by auto
  then show ?thesis by (elim disjE conjE) (simp_all add: nextcomb_eval)
qed


subsection \<open>Correctness of the tables\<close>

lemma tab_get_eq: "below_bit 11 i \<Longrightarrow> tab_get xs i = arr_get xs (unat i)"
  by (auto simp: tab_get_def word_sless_alt below_bit_unat sint_eq_unat)

lemma tab_put_eq: "below_bit 11 i \<Longrightarrow> tab_put xs i v = arr_put xs (unat i) v"
  by (auto simp: tab_put_def word_sless_alt below_bit_unat sint_eq_unat)

text \<open>A pattern of at most three errors in 23 bits.\<close>

definition correctable :: "i32 \<Rightarrow> bool" where
  "correctable e \<longleftrightarrow> below_bit 23 e \<and> weight e \<le> 3"

lemma syn_below: "below_bit 23 p \<Longrightarrow> below_bit 11 (syn p)"
  by (rule red_below) simp_all

lemma store_pattern_eq:
  "below_bit 23 e \<Longrightarrow> store_pattern e tab = arr_put tab (unat (syn e)) e"
  by (simp add: store_pattern_def get_syndrome_eq tab_put_eq syn_below)

text \<open>Every pattern of \<open>P\<close> is found at its syndrome.\<close>

definition table_has :: "i32 set \<Rightarrow> i32 list \<Rightarrow> bool" where
  "table_has P tab \<longleftrightarrow> length tab = 2048 \<and> (\<forall>e\<in>P. tab ! unat (syn e) = e)"

lemma table_has_mono: "table_has P tab \<Longrightarrow> Q \<subseteq> P \<Longrightarrow> table_has Q tab"
  by (auto simp: table_has_def)

lemma table_has_store:
  assumes "table_has P tab" "Ball P correctable" "correctable e"
  shows "\<exists>tab'. store_pattern e tab = Some tab' \<and> table_has (insert e P) tab'"
proof -
  have "unat (syn e) < 2048"
    using syn_below [of e] assms(3) by (simp add: correctable_def below_bit_unat)
  moreover have "unat (syn e) = unat (syn e') \<Longrightarrow> e = e'" if "e' \<in> P" for e'
    using that assms(2,3) syn_inj by (auto simp: correctable_def word_unat_eq_iff)
  ultimately show ?thesis
    using assms by (auto simp: store_pattern_eq correctable_def table_has_def nth_list_update)
qed

lemma comb_round_eval:
  "nextcomb 23 r a = Some a' \<Longrightarrow> arr2int a' r = Some e \<Longrightarrow> store_pattern e tab = Some tab' \<Longrightarrow>
     comb_round r i (a, tab) = Some (a', tab')"
  by (simp add: comb_round_def store_comb_def)

text \<open>The loop over the combinations, for a successor function and a reading of the array.\<close>

lemma comb_fold:
  assumes "chain nxt (c # cs)" "length ns = length cs" "table_has P tab" "Ball P correctable"
    and "\<And>d. ok d \<Longrightarrow> ok (nxt d) \<Longrightarrow> nextcomb 23 r (arr d) = Some (arr (nxt d))"
    and "\<And>d. ok d \<Longrightarrow> arr2int (arr d) r = Some (pat d) \<and> correctable (pat d)"
    and "\<forall>d\<in>set (c # cs). ok d"
  shows "\<exists>tab'. fold_opt (comb_round r) ns (arr c, tab) = Some (arr (last (c # cs)), tab') \<and>
           table_has (P \<union> pat ` set cs) tab'"
  using assms(1-4,7)
proof (induction cs arbitrary: c ns P tab)
  case (Cons d cs)
  then obtain n ms where ns: "ns = n # ms" "length ms = length cs" by (cases ns) auto
  from Cons.prems assms(5) [of c] assms(6) [of d] obtain tab1 where
    "store_pattern (pat d) tab = Some tab1" "table_has (insert (pat d) P) tab1"
    using table_has_store [of P tab "pat d"] by auto
  moreover from this Cons.prems Cons.IH [of d ms "insert (pat d) P" tab1] assms(6) [of d] ns obtain tab2
    where "fold_opt (comb_round r) ms (arr d, tab1) = Some (arr (last (d # cs)), tab2)"
      "table_has (insert (pat d) P \<union> pat ` set cs) tab2" by auto
  ultimately show ?case
    using Cons.prems assms(5) [of c] assms(6) [of d] ns
    by (auto simp: comb_round_eval insert_commute)
qed simp

lemma combos_table:
  assumes "segment nxt c xs t" "length xs = n" "table_has P tab" "Ball P correctable"
    and "\<And>d. ok d \<Longrightarrow> ok (nxt d) \<Longrightarrow> nextcomb 23 r (arr d) = Some (arr (nxt d))"
    and "\<And>d. ok d \<Longrightarrow> arr2int (arr d) r = Some (pat d) \<and> correctable (pat d)"
    and "\<forall>d\<in>set xs. ok d"
  shows "\<exists>tab'. combos r n (arr c, tab) = Some (arr t, tab') \<and> table_has (P \<union> pat ` set xs) tab'"
proof -
  from assms(1) obtain cs where xs: "xs = c # cs" and t: "last (c # cs) = t" and ch: "chain nxt (c # cs)"
    by (cases xs) (auto simp: segment_def)
  from assms(6) [of c] assms(3,4,7) xs obtain tab1 where
    tab1: "store_pattern (pat c) tab = Some tab1" "table_has (insert (pat c) P) tab1"
    using table_has_store [of P tab "pat c"] by auto
  have "\<exists>tab'. fold_opt (comb_round r) [1..<n] (arr c, tab1) = Some (arr (last (c # cs)), tab') \<and>
          table_has (insert (pat c) P \<union> pat ` set cs) tab'"
    by (rule comb_fold [where ok = ok and nxt = nxt]) (use ch tab1(2) assms xs in auto)
  then show ?thesis
    using tab1 xs t assms(6) [of c] assms(7)
    by (auto simp: combos_def store_comb_def simp del: last.simps)
qed

lemma weight_zero: "weight 0 \<le> 3"
  by (simp add: weight_def)

lemma weight_unit: "weight (2 ^ k) \<le> 1"
proof -
  have "length (filter (\<lambda>i. i = k) [0..<n]) \<le> 1" for n
    by (induction n) (auto simp: filter_empty_conv)
  moreover have "filter (bit (2 ^ k :: i32)) [0..<23] = filter (\<lambda>i. i = k) [0..<23] \<or>
      filter (bit (2 ^ k :: i32)) [0..<23] = []"
    by (cases "k < 23") (auto intro!: filter_cong simp: bit_exp_iff filter_empty_conv)
  ultimately show ?thesis unfolding weight_def by (metis le_zero_eq list.size(3) nat_le_linear)
qed

lemma unit_sum: "i \<noteq> j \<Longrightarrow> 2 ^ i + 2 ^ j = (2 ^ i XOR 2 ^ j :: i32)"
  by (rule disjunctive_add_eq_xor) (auto simp: bit_eq_iff bit_simps)

text \<open>Every correctable pattern is among those the loops store.\<close>

definition pat2 :: "int \<times> int \<Rightarrow> i32" where
  "pat2 = (\<lambda>(i, j). 2 ^ nat (i - 1) + 2 ^ nat (j - 1))"

definition pat3 :: "int \<times> int \<times> int \<Rightarrow> i32" where
  "pat3 = (\<lambda>(i, j, k). 2 ^ nat (i - 1) + 2 ^ nat (j - 1) + 2 ^ nat (k - 1))"

definition ok2 :: "int \<times> int \<Rightarrow> bool" where
  "ok2 = (\<lambda>(i, j). 1 \<le> i \<and> i < j \<and> j \<le> 23)"

definition ok3 :: "int \<times> int \<times> int \<Rightarrow> bool" where
  "ok3 = (\<lambda>(i, j, k). 1 \<le> i \<and> i < j \<and> j < k \<and> k \<le> 23)"

lemma set_pairs: "set pairs = Collect ok2"
  by (auto simp: pairs_def ok2_def image_iff)

lemma set_triples: "set triples = Collect ok3"
  by (auto simp: triples_def ok3_def image_iff)

lemma unit_sum3: "i < j \<Longrightarrow> j < k \<Longrightarrow> 2 ^ i + 2 ^ j + 2 ^ k = (2 ^ i XOR 2 ^ j XOR 2 ^ k :: i32)"
  by (subst disjunctive_add_eq_xor)
    (auto simp: unit_sum xor.assoc intro!: bit_eqI simp: bit_simps)

lemma correctable_unit: "i < 23 \<Longrightarrow> correctable (2 ^ i)"
  using weight_unit [of i] by (auto simp: correctable_def below_bit_def bit_exp_iff)

lemma weight_unit2: "weight (2 ^ i XOR 2 ^ j) \<le> 2"
  using weight_xor [of "2 ^ i" "2 ^ j"] weight_unit [of i] weight_unit [of j] by simp

lemma weight_unit3: "weight (2 ^ i XOR 2 ^ j XOR 2 ^ k) \<le> 3"
  using weight_xor [of "2 ^ i" "2 ^ j XOR 2 ^ k"] weight_unit [of i] weight_unit2 [of j k] by simp

lemma correctable_pat2: "ok2 d \<Longrightarrow> correctable (pat2 d)"
  using order_trans [OF weight_unit2, of 3]
  by (auto simp: ok2_def pat2_def unit_sum correctable_def below_bit_def bit_simps)

lemma correctable_pat3: "ok3 d \<Longrightarrow> correctable (pat3 d)"
  using weight_unit3
  by (auto simp: ok3_def pat3_def unit_sum3 correctable_def below_bit_def bit_simps)

lemma correctable_cases:
  assumes "correctable e"
  shows "e = 0 \<or> (\<exists>i<23. e = 2 ^ i) \<or> e \<in> pat2 ` Collect ok2 \<or> e \<in> pat3 ` Collect ok3"
proof -
  define L where "L = filter (bit e) [0..<23]"
  have bits: "bit e n \<longleftrightarrow> n \<in> set L" for n
    using assms by (auto simp: L_def correctable_def below_bit_def not_less intro: ccontr)
  have sorted: "sorted_wrt (<) L" and lt: "\<forall>n\<in>set L. n < 23"
    unfolding L_def by (simp_all add: sorted_wrt_filter del: upt_Suc)
  have "length L \<le> 3" using assms by (simp add: L_def correctable_def weight_def)
  then have "length L = 0 \<or> length L = Suc 0 \<or> length L = Suc (Suc 0) \<or> length L = Suc (Suc (Suc 0))"
    by linarith
  then consider "L = []" | i where "L = [i]" | i j where "L = [i, j]" | i j k where "L = [i, j, k]"
    unfolding length_Suc_conv by auto
  then show ?thesis
  proof cases
    case 1
    then have "e = 0" by (intro bit_word_eqI) (simp add: bits)
    then show ?thesis by simp
  next
    case 2
    then have "e = 2 ^ i" "i < 23" using lt by (auto intro!: bit_word_eqI simp: bits bit_exp_iff)
    then show ?thesis by blast
  next
    case 3
    then have "e = 2 ^ i XOR 2 ^ j" "i < j" "j < 23"
      using lt sorted by (auto intro!: bit_word_eqI simp: bits bit_simps)
    then have "e = pat2 (int i + 1, int j + 1)" "ok2 (int i + 1, int j + 1)"
      by (simp_all add: pat2_def ok2_def unit_sum)
    then show ?thesis by blast
  next
    case 4
    then have "e = 2 ^ i XOR 2 ^ j XOR 2 ^ k" "i < j" "j < k" "k < 23"
      using lt sorted by (auto intro!: bit_word_eqI simp: bits bit_simps)
    then have "e = pat3 (int i + 1, int j + 1, int k + 1)" "ok3 (int i + 1, int j + 1, int k + 1)"
      by (simp_all add: pat3_def ok3_def unit_sum3)
    then show ?thesis by blast
  qed
qed

lemma arr2int2: "1 \<le> i \<Longrightarrow> 1 \<le> j \<Longrightarrow> arr2int [a, i, j, x] 2 = Some (pat2 (i, j))"
  by (simp add: arr2int_def arr_get_def upt_rec [of _ 3] shift_loop_eq pat2_def)

lemma arr2int3: "1 \<le> i \<Longrightarrow> 1 \<le> j \<Longrightarrow> 1 \<le> k \<Longrightarrow> arr2int [a, i, j, k] 3 = Some (pat3 (i, j, k))"
  by (simp add: arr2int_def arr_get_def upt_rec [of _ 4] shift_loop_eq pat3_def)

lemma step2:
  "ok2 d \<Longrightarrow> ok2 (next2 d) \<Longrightarrow>
     nextcomb 23 2 ((\<lambda>(i, j). [a, i, j, x]) d) = Some ((\<lambda>(i, j). [a, i, j, x]) (next2 d))"
  using nextcomb2 [of "fst d" "snd d" a x] by (cases d) (auto simp: ok2_def split: if_splits)

lemma step3:
  "ok3 d \<Longrightarrow> ok3 (next3 d) \<Longrightarrow>
     nextcomb 23 3 ((\<lambda>(i, j, k). [a, i, j, k]) d) = Some ((\<lambda>(i, j, k). [a, i, j, k]) (next3 d))"
  using nextcomb3 [of "fst d" "fst (snd d)" "snd (snd d)" a]
  by (cases d) (auto simp: ok3_def split: if_splits)

lemma combos2:
  assumes "table_has P tab" "Ball P correctable"
  shows "\<exists>tab'. combos 2 253 ([a, 1, 2, x], tab) = Some ([a, 22, 23, x], tab') \<and>
           table_has (P \<union> pat2 ` Collect ok2) tab'"
proof -
  have pat: "ok2 d \<Longrightarrow> arr2int ((\<lambda>(i, j). [a, i, j, x]) d) 2 = Some (pat2 d) \<and> correctable (pat2 d)" for d
    by (auto simp: correctable_pat2 arr2int2) (auto simp: ok2_def arr2int2)
  show ?thesis
    using combos_table [where nxt = next2 and ok = ok2 and r = 2 and pat = pat2
        and arr = "\<lambda>(i, j). [a, i, j, x]", OF pairs_segment length_pairs assms step2 pat]
    by (simp add: set_pairs)
qed

lemma combos3:
  assumes "table_has P tab" "Ball P correctable"
  shows "\<exists>tab'. combos 3 1771 ([a, 1, 2, 3], tab) = Some ([a, 21, 22, 23], tab') \<and>
           table_has (P \<union> pat3 ` Collect ok3) tab'"
proof -
  have pat: "ok3 d \<Longrightarrow> arr2int ((\<lambda>(i, j, k). [a, i, j, k]) d) 3 = Some (pat3 d) \<and> correctable (pat3 d)" for d
    by (auto simp: correctable_pat3 arr2int3) (auto simp: ok3_def arr2int3)
  show ?thesis
    using combos_table [where nxt = next3 and ok = ok3 and r = 3 and pat = pat3
        and arr = "\<lambda>(i, j, k). [a, i, j, k]", OF triples_segment length_triples assms step3 pat]
    by (simp add: set_triples)
qed

lemma single_round_eval:
  "store_pattern (temp * 2) tab = Some tab' \<Longrightarrow> single_round i (temp, tab) = Some (temp * 2, tab')"
  by (simp add: single_round_def)

lemma singles:
  assumes "table_has P tab" "Ball P correctable" "n \<le> 23" "1 \<le> n"
  shows "\<exists>tab'. fold_opt single_round [2..<n + 1] (1, tab) = Some (2 ^ (n - 1), tab') \<and>
           table_has (P \<union> (\<lambda>i. 2 ^ i) ` {1..<n}) tab'"
  using assms(4,3)
proof (induction n rule: nat_induct_at_least)
  case base
  then show ?case using assms by simp
next
  case (Suc n)
  then obtain tab1 where tab1: "fold_opt single_round [2..<n + 1] (1, tab) = Some (2 ^ (n - 1), tab1)"
    "table_has (P \<union> (\<lambda>i. 2 ^ i) ` {1..<n}) tab1" by auto
  have "Ball (P \<union> (\<lambda>i. 2 ^ i) ` {1..<n}) correctable" "correctable (2 ^ n)"
    using assms(2) Suc.prems by (auto intro: correctable_unit)
  with tab1 table_has_store obtain tab2 where
    "store_pattern (2 ^ n) tab1 = Some tab2" "table_has (insert (2 ^ n) (P \<union> (\<lambda>i. 2 ^ i) ` {1..<n})) tab2"
    by blast
  moreover have "[2..<Suc n + 1] = [2..<n + 1] @ [Suc n]" using Suc.hyps by simp
  moreover have "(2 :: i32) ^ (n - 1) * 2 = 2 ^ n" using Suc.hyps by (cases n) simp_all
  moreover have "{1..<Suc n} = insert n {1..<n}" using Suc.hyps by auto
  ultimately show ?case
    using tab1 by (simp add: fold_opt_append single_round_eval del: upt_Suc)
qed

text \<open>The code word of a data word: the data followed by the eleven check bits.\<close>

definition codeword :: "i32 \<Rightarrow> i32" where
  "codeword d = push_bit 11 d XOR syn (push_bit 11 d)"

lemma below_push: "below_bit 12 d \<Longrightarrow> below_bit 23 (push_bit 11 (d :: i32))"
  by (auto simp: below_bit_def bit_push_bit_iff)

lemma encoding_entry:
  assumes "below_bit 12 d"
  shows "push_bit 11 d + syn (push_bit 11 d) = codeword d"
  unfolding codeword_def
proof (rule disjunctive_add_eq_xor, rule bit_word_eqI)
  fix n
  have "below_bit 11 (syn (push_bit 11 d))" using assms by (intro syn_below below_push)
  then show "bit (push_bit 11 d AND syn (push_bit 11 d)) n = bit 0 n"
    by (auto simp: below_bit_def bit_simps)
qed

lemma encoding_fill:
  assumes "length tab = 4096" "n \<le> 4096"
  shows "fold_opt encoding_round [0..<n] tab = Some (map (\<lambda>i. codeword (of_nat i)) [0..<n] @ drop n tab)"
  using assms(2)
proof (induction n)
  case (Suc n)
  then have "below_bit 12 (of_nat n :: i32)"
    by (simp add: below_bit_unat unat_of_nat take_bit_nat_eq_self)
  with Suc assms show ?case
    by (simp add: fold_opt_append encoding_round_def get_syndrome_eq below_push encoding_entry
        list_update_append Cons_nth_drop_Suc [symmetric])
qed simp

definition tables_ok :: "golay_state \<Rightarrow> bool" where
  "tables_ok st \<longleftrightarrow> inited st \<and>
     encoding_table st = map (\<lambda>i. codeword (of_nat i)) [0..<4096] \<and>
     table_has (Collect correctable) (decoding_table st)"

lemma init_ok:
  assumes "length a = 4" "length (encoding_table st) = 4096" "length (decoding_table st) = 2048"
  shows "\<exists>st'. golay23_init a st = Some (0, st') \<and> tables_ok st'"
proof -
  obtain a0 a1 a2 a3 where a: "a = [a0, a1, a2, a3]"
    using assms(1) by (auto simp: length_Suc_conv numeral_eq_Suc)
  define tab0 where "tab0 = (decoding_table st)[0 := 0, 1 := 1]"
  have "table_has {0, 1} tab0"
    using assms(3) by (simp add: tab0_def table_has_def red_small below_bit_def bit_1_iff)
  moreover have "Ball {0, 1} correctable"
    using correctable_unit [of 0] by (simp add: correctable_def below_bit_def weight_def)
  ultimately obtain tab1 where tab1: "fold_opt single_round [2..<24] (1, tab0) = Some (2 ^ 22, tab1)"
    "table_has ({0, 1} \<union> (\<lambda>i. 2 ^ i) ` {1..<23}) tab1"
    using singles [of "{0, 1}" tab0 23] by auto
  let ?P1 = "{0, 1} \<union> (\<lambda>i. 2 ^ i) ` {1..<23} :: i32 set"
  have P1: "Ball ?P1 correctable"
    using \<open>Ball {0, 1} correctable\<close> by (auto intro: correctable_unit)
  obtain tab2 where tab2: "combos 2 253 ([a0, 1, 2, a3], tab1) = Some ([a0, 22, 23, a3], tab2)"
    "table_has (?P1 \<union> pat2 ` Collect ok2) tab2"
    using combos2 [OF tab1(2) P1] by blast
  have P2: "Ball (?P1 \<union> pat2 ` Collect ok2) correctable"
    using P1 correctable_pat2 by auto
  obtain tab3 where tab3: "combos 3 1771 ([a0, 1, 2, 3], tab2) = Some ([a0, 21, 22, 23], tab3)"
    "table_has (?P1 \<union> pat2 ` Collect ok2 \<union> pat3 ` Collect ok3) tab3"
    using combos3 [OF tab2(2) P2] by blast
  have "e \<in> ?P1 \<union> pat2 ` Collect ok2 \<union> pat3 ` Collect ok3" if "correctable e" for e
  proof -
    have "2 ^ i \<in> ?P1" if "i < 23" for i
      using that by (cases "i = 0") auto
    then show ?thesis using correctable_cases [OF that] by blast
  qed
  then have "table_has (Collect correctable) tab3"
    by (intro table_has_mono [OF tab3(2)]) blast
  moreover have "arr_put (decoding_table st) 0 0 = Some ((decoding_table st)[0 := 0])"
    "arr_put ((decoding_table st)[0 := 0]) 1 1 = Some tab0"
    using assms(3) by (simp_all add: tab0_def)
  ultimately show ?thesis
    using encoding_fill [OF assms(2), of 4096] assms(2) a tab1(1) tab2(1) tab3(1)
    by (simp add: golay23_init_def tables_ok_def del: upt_Suc)
qed

subsection \<open>Encoding and decoding\<close>

lemma tables_ok_enc: "tables_ok st \<Longrightarrow> below_bit 12 d \<Longrightarrow> encoding_table st ! unat d = codeword d"
  by (simp add: tables_ok_def below_bit_unat)

lemma encode_eq:
  assumes "tables_ok st" "below_bit 12 d"
  shows "golay23_encode st d = Some (codeword d)"
proof -
  have "unat d < 4096" using assms(2) by (simp add: below_bit_unat)
  then have "sint d = int (unat d)" by (intro sint_eq_unat) simp
  moreover from \<open>unat d < 4096\<close> have "uint d < 4096" using uint_less_unat [of d 4096] by simp
  ultimately show ?thesis
    using assms tables_ok_enc [OF assms] \<open>unat d < 4096\<close>
    by (simp add: golay23_encode_def tables_ok_def tab_get_def word_sle_eq word_sless_alt)
qed

lemma codeword_below: "below_bit 12 d \<Longrightarrow> below_bit 23 (codeword d)"
  unfolding codeword_def
  by (intro below_bit_xor below_push)
    (simp_all add: below_bit_mono [OF syn_below, of _ 23] below_push)

lemma syn_codeword: "below_bit 12 d \<Longrightarrow> syn (codeword d) = 0"
  by (simp add: codeword_def red_xor red_small syn_below below_push)

lemma codeword_info: "below_bit 12 d \<Longrightarrow> drop_bit 11 (codeword d) = d"
proof -
  assume d: "below_bit 12 d"
  then have "below_bit 11 (syn (push_bit 11 d))" by (intro syn_below below_push)
  with d show ?thesis
    by (intro bit_word_eqI) (auto simp: codeword_def bit_simps below_bit_def intro: ccontr)
qed

text \<open>\<open>golay23_decode\<close> adds the pattern stored at the syndrome.\<close>

lemma decode_eq:
  assumes "tables_ok st" "below_bit 23 r"
  shows "golay23_decode st r = Some (r XOR decoding_table st ! unat (syn r))"
proof -
  have "unat r < 2 ^ 23" using assms(2) by (simp add: below_bit_unat)
  then have "sint r = int (unat r)" by (intro sint_eq_unat) simp
  moreover from \<open>unat r < 2 ^ 23\<close> have "uint r < 8388608" using uint_less_unat [of r "2 ^ 23"] by simp
  moreover have "unat (syn r) < 2048" using syn_below [OF assms(2)] by (simp add: below_bit_unat)
  ultimately show ?thesis
    using assms
    by (simp add: golay23_decode_def tables_ok_def table_has_def get_syndrome_eq tab_get_eq
        syn_below word_sle_eq word_sless_alt)
qed

lemma decode_codeword:
  assumes "tables_ok st" "below_bit 12 d" "correctable e"
  shows "golay23_decode st (codeword d XOR e) = Some (codeword d)"
proof -
  have "below_bit 23 (codeword d XOR e)"
    using assms by (simp add: below_bit_xor codeword_below correctable_def)
  moreover have "syn (codeword d XOR e) = syn e"
    using assms by (simp add: red_xor syn_codeword)
  moreover have "decoding_table st ! unat (syn e) = e"
    using assms by (simp add: tables_ok_def table_has_def)
  ultimately show ?thesis using decode_eq [OF assms(1)] by (simp add: xor.assoc)
qed

text \<open>The code is perfect: the patterns of up to three errors have all 2048 syndromes.\<close>

lemma card_correctable: "card (Collect correctable) = 2048"
proof -
  let ?S = "{A. A \<subseteq> {0..<23} \<and> card A \<le> 3} :: nat set set"
  let ?bits = "\<lambda>e :: i32. {n. bit e n}"
  have weight: "weight e = card (?bits e)" if "below_bit 23 e" for e
  proof -
    have "?bits e = set (filter (bit e) [0..<23])"
      using that by (auto simp: below_bit_def not_less intro: ccontr)
    then show ?thesis
      unfolding weight_def by (metis distinct_card distinct_filter distinct_upt)
  qed
  have "bij_betw ?bits (Collect correctable) ?S"
  proof (rule bij_betwI')
    show "(?bits x = ?bits y) = (x = y)" for x y
      by (auto simp: set_eq_iff intro: bit_word_eqI)
    show "?bits x \<in> ?S" if "x \<in> Collect correctable" for x
      using that weight [of x] by (auto simp: correctable_def below_bit_def not_less intro: ccontr)
    show "\<exists>x\<in>Collect correctable. A = ?bits x" if "A \<in> ?S" for A
    proof -
      let ?x = "horner_sum of_bool 2 (map (\<lambda>i. i \<in> A) [0..<23]) :: i32"
      have "A = ?bits ?x" using that by (auto simp: bit_horner_sum_bit_word_iff)
      moreover have "below_bit 23 ?x" by (auto simp: below_bit_def bit_horner_sum_bit_word_iff)
      ultimately show ?thesis using that weight [of ?x] by (auto simp: correctable_def)
    qed
  qed
  then have "card (Collect correctable) = card ?S" by (rule bij_betw_same_card)
  also have "?S = (\<Union>k\<in>{..3}. {A. A \<subseteq> {0..<23} \<and> card A = k})" by auto
  also have "card \<dots> = (\<Sum>k\<le>3. 23 choose k)"
    by (subst card_UN_disjoint) (auto simp: n_subsets intro: finite_subset [of _ "Pow {0..<23}"])
  also have "\<dots> = 2048" by (simp add: numeral_eq_Suc binomial_Suc_Suc)
  finally show ?thesis .
qed

lemma every_syndrome:
  assumes "below_bit 11 s"
  shows "\<exists>e. correctable e \<and> syn e = s"
proof -
  have inj: "inj_on syn (Collect correctable)"
    by (rule inj_onI) (auto simp: correctable_def intro: syn_inj)
  have sub: "unat ` syn ` Collect correctable \<subseteq> {..<2048}"
    using syn_below by (auto simp: correctable_def below_bit_unat)
  have "card (unat ` syn ` Collect correctable) = 2048"
    using card_image [OF inj] card_correctable
    by (subst card_image) (auto simp: inj_on_def word_unat_eq_iff)
  with sub have "unat ` syn ` Collect correctable = {..<2048}"
    by (intro card_subset_eq) simp_all
  moreover have "unat s < 2048" using assms by (simp add: below_bit_unat)
  ultimately have "unat s \<in> unat ` syn ` Collect correctable" by simp
  then show ?thesis by (auto simp: word_unat_eq_iff)
qed

lemma nearest_codeword:
  assumes "below_bit 23 r"
  shows "\<exists>d e. below_bit 12 d \<and> correctable e \<and> r = codeword d XOR e"
proof -
  obtain e where e: "correctable e" "syn e = syn r"
    using every_syndrome [OF syn_below [OF assms]] by blast
  define c where "c = r XOR e"
  have c: "below_bit 23 c" "syn c = 0"
    using assms e by (simp_all add: c_def correctable_def below_bit_xor red_xor)
  define d where "d = drop_bit 11 c"
  have d: "below_bit 12 d" using c(1) by (auto simp: d_def below_bit_def bit_simps)
  have split: "c = push_bit 11 d XOR (c AND mask 11)"
    by (rule bit_word_eqI) (auto simp: d_def bit_simps)
  have "syn (c AND mask 11) = c AND mask 11"
    by (rule red_small) (simp add: below_bit_def bit_simps)
  then have "syn (push_bit 11 d) = c AND mask 11"
    using arg_cong [OF split, of syn] c(2) by (simp only: red_xor xor_zero_iff eq_commute [of 0])
  with split have "c = codeword d" by (simp only: codeword_def)
  moreover have "r = c XOR e" by (simp add: c_def xor.assoc)
  ultimately have "r = codeword d XOR e" by (simp only:)
  with d e show ?thesis by blast
qed

subsection \<open>Properties\<close>

lemma init_tables:
  "length a = 4 \<Longrightarrow> golay23_init a golay_bss = Some (r, st) \<Longrightarrow> tables_ok st"
  using init_ok [of a golay_bss] by (auto simp: golay_bss_def)

lemma init_runs:
  "length a = 4 \<Longrightarrow> \<exists>st. golay23_init a golay_bss = Some (0, st)"
  using init_ok [of a golay_bss] by (auto simp: golay_bss_def)

text \<open>
  \<open>golay23_init\<close>, run on the zero-initialised tables at boot with any contents of its
  uninitialised local array, comes to its end: every syndrome computation returns, no table
  access is out of range, it returns 0, \<open>inited\<close> is set, the encoding table holds at every
  data word the word followed by its remainder modulo the generator polynomial, and the
  decoding table holds every pattern of at most three errors at the pattern's syndrome.
\<close>

theorem golay23_init_correct:
  assumes "length a = 4"
  shows "\<exists>st. golay23_init a golay_bss = Some (0, st) \<and> inited st \<and>
    (\<forall>d::nat. d < 4096 \<longrightarrow> encoding_table st ! d = push_bit 11 (of_nat d) XOR syn (push_bit 11 (of_nat d))) \<and>
    (\<forall>e. unat e < 2 ^ 23 \<and> weight e \<le> 3 \<longrightarrow> decoding_table st ! unat (syn e) = e)"
proof -
  obtain st where "golay23_init a golay_bss = Some (0, st)" "tables_ok st"
    using init_ok [of a golay_bss] assms by (auto simp: golay_bss_def)
  then show ?thesis
    by (auto simp: tables_ok_def table_has_def correctable_def below_bit_unat codeword_def simp del: upt_Suc)
qed

theorem golay23_init_correct_witness:
  "\<exists>st. golay23_init [7, 0, 0, 0] golay_bss = Some (0, st) \<and> inited st \<and>
    decoding_table st ! unat (syn 0) = 0"
proof -
  have "length [7, 0, 0, 0::int] = 4" by simp
  from golay23_init_correct [OF this] show ?thesis
    by (metis (mono_tags) unat_0 weight_zero zero_le zero_less_numeral zero_less_power)
qed

text \<open>
  C19: Error correction, the purpose of the codec: after \<open>golay23_init\<close>, encoding a data
  word of 12 bits gives a 23-bit code word whose upper bits are the data, and decoding that
  code word with any pattern of at most three flipped bits gives the code word back, all its 23 bits: not
  only the data, which the comment on \<open>golay23_decode\<close> promises.
\<close>

theorem golay23_corrects_three_errors:
  assumes "length a = 4" "golay23_init a golay_bss = Some (r, st)"
    and "unat d < 2 ^ 12" "unat e < 2 ^ 23" "weight e \<le> 3"
  shows "\<exists>c. golay23_encode st d = Some c \<and> unat c < 2 ^ 23 \<and> drop_bit 11 c = d \<and>
           golay23_decode st (c XOR e) = Some c"
proof -
  have d: "below_bit 12 d" using assms by (simp only: below_bit_unat)
  have "correctable e" using assms by (simp add: correctable_def below_bit_unat)
  then show ?thesis
    using encode_eq decode_codeword codeword_info [OF d] codeword_below [OF d] d
      init_tables [OF assms(1,2)] by (metis below_bit_unat)
qed

theorem golay23_corrects_three_errors_witness:
  "\<exists>r st c. golay23_init [0, 0, 0, 0] golay_bss = Some (r, st) \<and> golay23_encode st 0xabc = Some c \<and>
     golay23_decode st (c XOR 0x400101) = Some c"
proof -
  obtain st where st: "golay23_init [0, 0, 0, 0] golay_bss = Some (0, st)"
    using init_runs [of "[0, 0, 0, 0]"] by auto
  have "weight 0x400101 \<le> 3" by (simp add: weight_def upt_rec)
  with golay23_corrects_three_errors [OF _ st, of "0xabc" "0x400101"] st show ?thesis by auto
qed

text \<open>
  The decoder is total on received words and never leaves the code: every 23-bit word
  decodes to a code word of some data word that differs from it in at most three bits. With
  C2 this makes the result the unique nearest code word.
\<close>

theorem golay23_decode_nearest:
  assumes "length a = 4" "golay23_init a golay_bss = Some (r, st)" "unat w < 2 ^ 23"
  shows "\<exists>c d. golay23_decode st w = Some c \<and> unat d < 2 ^ 12 \<and> golay23_encode st d = Some c \<and>
           weight (w XOR c) \<le> 3"
proof -
  have st: "tables_ok st" by (rule init_tables [OF assms(1,2)])
  have "below_bit 23 w" using assms(3) by (simp only: below_bit_unat)
  then obtain d e where "below_bit 12 d" "correctable e" "w = codeword d XOR e"
    using nearest_codeword by blast
  moreover from this have "w XOR codeword d = e" by (simp add: xor.commute xor.left_commute)
  ultimately show ?thesis
    using decode_codeword [OF st] encode_eq [OF st] by (auto simp: below_bit_unat correctable_def)
qed

theorem golay23_decode_nearest_witness:
  "\<exists>r st c. golay23_init [0, 0, 0, 0] golay_bss = Some (r, st) \<and>
     golay23_decode st 0x7fffff = Some c \<and> weight (0x7fffff XOR c) \<le> 3"
proof -
  obtain st where st: "golay23_init [0, 0, 0, 0] golay_bss = Some (0, st)"
    using init_runs [of "[0, 0, 0, 0]"] by auto
  with golay23_decode_nearest [OF _ st, of "0x7fffff"] show ?thesis by auto
qed

end
