(* ===== verification/Horus_Mix.thy ===== *)
theory Horus_Mix
  imports Flight_Prelude
begin

text \<open>
  The interleaver and the scrambler of \<open>lib/f_core/radio/protocols/horus/horus.c\<close>, which
  both work in place on the bits of a buffer, the least significant bit of a byte first.

  A buffer is the list of bytes from the pointer the function gets to the end of the array;
  \<open>None\<close> is an access outside it, or outside the table of primes. Counters and products stay
  far below 2^32, so they are natural numbers; the conversion of the bit count to
  \<open>uint16_t\<close> is written out.
\<close>

subsection \<open>Bits of a buffer\<close>

definition bit_at :: "u8 list \<Rightarrow> nat \<Rightarrow> bool" where
  "bit_at xs k = bit (xs ! (k div 8)) (k mod 8)"

lemma bit_at_ext:
  assumes "length xs = length ys" "\<And>k. k < 8 * length xs \<Longrightarrow> bit_at xs k = bit_at ys k"
  shows "xs = ys"
proof (rule nth_equalityI [OF assms(1)], rule bit_word_eqI)
  fix i n assume "i < length xs" "n < LENGTH(8)"
  then have "bit_at xs (8 * i + n) = bit_at ys (8 * i + n)" by (intro assms(2)) simp
  with \<open>n < LENGTH(8)\<close> show "bit (xs ! i) n = bit (ys ! i) n" by (simp add: bit_at_def)
qed

lemma bit_at_update:
  assumes "k div 8 < length xs"
  shows "bit_at (xs[k div 8 := w]) j = (if j div 8 = k div 8 then bit w (j mod 8) else bit_at xs j)"
  using assms by (simp add: bit_at_def)

lemma div_mod_8_eq: "j div 8 = k div 8 \<Longrightarrow> j mod 8 = k mod 8 \<longleftrightarrow> j = (k::nat)"
  by (metis div_mult_mod_eq)

text \<open>Reading bit \<open>k\<close> as the code does: \<open>(inout[k / 8] >> (k % 8)) & 0x1\<close>.\<close>

definition read_bit :: "u8 list \<Rightarrow> nat \<Rightarrow> i32 option" where
  "read_bit xs k = map_option (\<lambda>x. drop_bit (k mod 8) (ucast x) AND 1) (arr_get xs (k div 8))"

lemma read_bit_eq: "k < 8 * length xs \<Longrightarrow> read_bit xs k = Some (of_bool (bit_at xs k))"
  by (auto simp: read_bit_def bit_at_def bit_simps intro!: bit_word_eqI)

subsection \<open>Interleaver\<close>

definition primes :: "nat list" where
  "primes = [2, 3, 5, 7, 11, 13, 17, 19, 23, 29, 31, 37, 41, 43, 47, 53, 59, 61, 67, 71,
     73, 79, 83, 89, 97, 101, 103, 107, 109, 113, 127, 131, 137, 139, 149, 151, 157, 163, 167, 173,
     179, 181, 191, 193, 197, 199, 211, 223, 227, 229, 233, 239, 241, 251, 257, 263, 269, 271, 277, 281,
     283, 293, 307, 311, 313, 317, 331, 337, 347, 349, 379, 383, 389, 757, 761, 769, 773]"

text \<open>
  \<open>while ((primes[i] < nbits) && (i < imax)) i++;\<close>: the array is read before the bound is
  tested.
\<close>

function prime_scan :: "nat \<Rightarrow> nat \<Rightarrow> nat option" where
  "prime_scan nbits i =
     (case arr_get primes i of
        None \<Rightarrow> None
      | Some p \<Rightarrow> if p < nbits \<and> i < length primes then prime_scan nbits (i + 1) else Some i)"
  by pat_completeness auto
termination by (relation "measure (\<lambda>(nbits, i). length primes - i)") auto

declare prime_scan.simps [simp del]

definition interleave_round ::
  "nat \<Rightarrow> nat \<Rightarrow> bool \<Rightarrow> u8 list \<Rightarrow> nat \<Rightarrow> u8 list \<Rightarrow> u8 list option" where
  "interleave_round nbits b dir inout n out =
     (let i = n; j = b * i mod nbits;
          (i, j) = (if dir then (j, i) else (i, j)) in
      case read_bit inout i of
        None \<Rightarrow> None
      | Some ibit \<Rightarrow>
          (case arr_get out (j div 8) of
             None \<Rightarrow> None
           | Some x \<Rightarrow> arr_put out (j div 8) (ucast (ucast x OR push_bit (j mod 8) ibit))))"

definition interleave :: "u8 list \<Rightarrow> nat \<Rightarrow> bool \<Rightarrow> u8 list option" where
  "interleave inout nbytes dir =
     (let nbits = ((nbytes mod 2 ^ 16) * 8) mod 2 ^ 16;
          out = replicate nbytes (0 :: u8) in
      case prime_scan nbits 1 of
        None \<Rightarrow> None
      | Some i \<Rightarrow>
          (case arr_get primes (i - 1) of
             None \<Rightarrow> None
           | Some b \<Rightarrow>
               (case fold_opt (interleave_round nbits b dir inout) [0..<nbits] out of
                  None \<Rightarrow> None
                | Some out \<Rightarrow>
                    if nbytes \<le> length inout then Some (out @ drop nbytes inout) else None)))"

subsection \<open>Scrambler\<close>

definition scramble_round :: "nat \<Rightarrow> u8 list \<times> u16 \<Rightarrow> (u8 list \<times> u16) option" where
  "scramble_round i s = (case s of (inout, scrambler) \<Rightarrow>
     let scrambler_out = drop_bit 1 (scrambler AND 2) XOR (scrambler AND 1);
         ishift = i mod 8 in
     case read_bit inout i of
       None \<Rightarrow> None
     | Some ibit \<Rightarrow>
         let ibits = ibit XOR ucast scrambler_out;
             mask = push_bit ishift (1 :: i32);
             cleared = inout[i div 8 := ucast (ucast (inout ! (i div 8)) AND NOT mask)];
             inout = cleared[i div 8 := ucast (ucast (cleared ! (i div 8)) OR push_bit ishift ibits)] in
         Some (inout, drop_bit 1 scrambler OR push_bit 14 scrambler_out))"

definition scramble :: "u8 list \<Rightarrow> nat \<Rightarrow> u8 list option" where
  "scramble inout nbytes =
     map_option fst (fold_opt scramble_round [0..<nbytes * 8] (inout, 0x4a80))"

text \<open>The key stream: the feedback bit of the shift register after \<open>n\<close> steps.\<close>

definition lfsr_out :: "u16 \<Rightarrow> bool" where
  "lfsr_out s \<longleftrightarrow> bit s 1 \<noteq> bit s 0"

primrec lfsr :: "nat \<Rightarrow> u16" where
  "lfsr 0 = 0x4a80"
| "lfsr (Suc n) = drop_bit 1 (lfsr n) OR push_bit 14 (of_bool (lfsr_out (lfsr n)))"

lemma scrambler_out_eq: "drop_bit 1 (s AND 2) XOR (s AND 1) = (of_bool (lfsr_out s) :: u16)"
proof (rule bit_word_eqI)
  fix n :: nat
  show "bit (drop_bit 1 (s AND 2) XOR (s AND 1)) n = bit (of_bool (lfsr_out s) :: u16) n"
    by (cases n) (auto simp: bit_simps lfsr_out_def)
qed

lemma scramble_round_eq:
  assumes "i < 8 * length buf"
  shows "\<exists>buf'. scramble_round i (buf, s) =
      Some (buf', drop_bit 1 s OR push_bit 14 (of_bool (lfsr_out s))) \<and> length buf' = length buf \<and>
      (\<forall>k. bit_at buf' k = (if k = i then bit_at buf k \<noteq> lfsr_out s else bit_at buf k))"
proof -
  define x where "x = buf ! (i div 8)"
  define y :: u8 where "y = ucast (ucast (ucast (ucast x AND NOT (push_bit (i mod 8) 1 :: i32)) :: u8) OR
      push_bit (i mod 8) (of_bool (bit_at buf i) XOR of_bool (lfsr_out s) :: i32))"
  have "scramble_round i (buf, s) =
      Some (buf[i div 8 := y], drop_bit 1 s OR push_bit 14 (of_bool (lfsr_out s)))"
    using assms
    by (simp only: scramble_round_def scrambler_out_eq read_bit_eq Let_def split option.case)
      (simp add: y_def x_def)
  moreover have "bit y n = (if n = i mod 8 then bit x n \<noteq> lfsr_out s else bit x n)" if "n < 8" for n
    using that by (auto simp: y_def bit_simps bit_at_def x_def)
  then have "bit_at (buf[i div 8 := y]) k = (if k = i then bit_at buf k \<noteq> lfsr_out s else bit_at buf k)" for k
    using assms div_mod_8_eq [of k i]
    by (auto simp: bit_at_update) (auto simp: bit_at_def x_def)
  ultimately show ?thesis by auto
qed

lemma scramble_loop:
  assumes "n \<le> 8 * length buf"
  shows "\<exists>r. fold_opt scramble_round [0..<n] (buf, lfsr 0) = Some (r, lfsr n) \<and> length r = length buf \<and>
    (\<forall>k. bit_at r k = (if k < n then bit_at buf k \<noteq> lfsr_out (lfsr k) else bit_at buf k))"
  using assms
proof (induction n)
  case (Suc n)
  then obtain r where r: "fold_opt scramble_round [0..<n] (buf, lfsr 0) = Some (r, lfsr n)"
    "length r = length buf"
    "\<forall>k. bit_at r k = (if k < n then bit_at buf k \<noteq> lfsr_out (lfsr k) else bit_at buf k)" by auto
  obtain r' where "scramble_round n (r, lfsr n) = Some (r', lfsr (Suc n))" "length r' = length r"
    "\<forall>k. bit_at r' k = (if k = n then bit_at r k \<noteq> lfsr_out (lfsr n) else bit_at r k)"
    using scramble_round_eq [of n r "lfsr n"] Suc.prems r(2) by auto
  with r show ?case by (auto simp: fold_opt_append less_Suc_eq)
qed simp

lemma scramble_eq:
  assumes "nbytes \<le> length buf"
  shows "\<exists>r. scramble buf nbytes = Some r \<and> length r = length buf \<and>
    (\<forall>k. bit_at r k = (if k < 8 * nbytes then bit_at buf k \<noteq> lfsr_out (lfsr k) else bit_at buf k))"
  using scramble_loop [of "8 * nbytes" buf] assms by (auto simp: scramble_def mult.commute)

lemma scramble_involution:
  assumes "nbytes \<le> length buf" "scramble buf nbytes = Some r"
  shows "scramble r nbytes = Some buf"
proof -
  from assms scramble_eq [of nbytes buf] have r: "length r = length buf"
    "\<forall>k. bit_at r k = (if k < 8 * nbytes then bit_at buf k \<noteq> lfsr_out (lfsr k) else bit_at buf k)"
    by auto
  then obtain q where q: "scramble r nbytes = Some q" "length q = length buf"
    "\<forall>k. bit_at q k = (if k < 8 * nbytes then bit_at r k \<noteq> lfsr_out (lfsr k) else bit_at r k)"
    using scramble_eq [of nbytes r] assms(1) by auto
  have "q = buf" by (rule bit_at_ext) (use q r in auto)
  with q show ?thesis by simp
qed

subsection \<open>The interleaver permutes bits\<close>

lemma interleave_round_eq:
  assumes "i < 8 * length inout" "j < 8 * length out" "(i, j) = (if dir then (b * n mod nbits, n) else (n, b * n mod nbits))"
  shows "\<exists>out'. interleave_round nbits b dir inout n out = Some out' \<and> length out' = length out \<and>
    (\<forall>k. bit_at out' k \<longleftrightarrow> bit_at out k \<or> k = j \<and> bit_at inout i)"
proof -
  define x where "x = out ! (j div 8)"
  define y :: u8 where "y = ucast (ucast x OR push_bit (j mod 8) (of_bool (bit_at inout i) :: i32))"
  have "interleave_round nbits b dir inout n out = Some (out[j div 8 := y])"
    using assms by (auto simp: interleave_round_def Let_def read_bit_eq y_def x_def split: if_splits)
  moreover have "bit y m \<longleftrightarrow> bit x m \<or> m = j mod 8 \<and> bit_at inout i" if "m < 8" for m
    using that by (auto simp: y_def bit_simps)
  then have "bit_at (out[j div 8 := y]) k \<longleftrightarrow> bit_at out k \<or> k = j \<and> bit_at inout i" for k
    using assms(2) div_mod_8_eq [of k j]
    by (auto simp: bit_at_update) (auto simp: bit_at_def x_def)
  ultimately show ?thesis by auto
qed

lemma interleave_loop:
  assumes "nbits = 8 * nbytes" "0 < nbytes" "nbytes \<le> length inout" "m \<le> nbits"
  shows "\<exists>out. fold_opt (interleave_round nbits b dir inout) [0..<m] (replicate nbytes 0) = Some out \<and>
    length out = nbytes \<and>
    (\<forall>k<nbits. bit_at out k \<longleftrightarrow>
       (\<exists>n<m. if dir then k = n \<and> bit_at inout (b * n mod nbits) else k = b * n mod nbits \<and> bit_at inout n))"
  using assms(4)
proof (induction m)
  case 0
  show ?case using assms(1) by (simp add: bit_at_def)
next
  case (Suc m)
  then obtain out where out: "fold_opt (interleave_round nbits b dir inout) [0..<m] (replicate nbytes 0) = Some out"
    "length out = nbytes"
    "\<forall>k<nbits. bit_at out k \<longleftrightarrow>
       (\<exists>n<m. if dir then k = n \<and> bit_at inout (b * n mod nbits) else k = b * n mod nbits \<and> bit_at inout n)"
    by auto
  have lt: "b * m mod nbits < nbits" "b * m mod nbits < 8 * length inout"
    using assms mod_less_divisor [of nbits "b * m"] by linarith+
  obtain out' where "interleave_round nbits b dir inout m out = Some out'" "length out' = nbytes"
    "\<forall>k. bit_at out' k \<longleftrightarrow> bit_at out k \<or>
       (if dir then k = m \<and> bit_at inout (b * m mod nbits) else k = b * m mod nbits \<and> bit_at inout m)"
    using interleave_round_eq [of "if dir then b * m mod nbits else m" inout
        "if dir then m else b * m mod nbits" out dir b m nbits] lt Suc.prems assms out(2)
    by (cases dir) auto
  with out lt(1) Suc.prems show ?case
    by (auto simp: fold_opt_append less_Suc_eq split: if_splits)
qed

text \<open>
  The stride is coprime with the bit count for every size up to 96 bytes. The check runs on
  integers, over the table as a list.
\<close>

fun scan_list :: "int \<Rightarrow> int \<Rightarrow> int list \<Rightarrow> int option" where
  "scan_list nbits q [] = None"
| "scan_list nbits q (p # ps) = (if p < nbits then scan_list nbits p ps else Some q)"

function euclid :: "int \<Rightarrow> int \<Rightarrow> int" where
  "euclid a b = (if b \<le> 0 then a else euclid b (a mod b))"
  by pat_completeness auto
termination by (relation "measure (\<lambda>(a, b). nat b)") auto

declare euclid.simps [simp del]

lemma euclid_gcd: "0 \<le> a \<Longrightarrow> 0 \<le> b \<Longrightarrow> euclid a b = gcd a b"
proof (induction a b rule: euclid.induct)
  case (1 a b)
  then show ?case
    by (subst euclid.simps) (auto simp: gcd_red_int [of a b] not_le)
qed

definition primes_int :: "int list" where
  "primes_int = map int primes"

definition stride_ok :: "int \<Rightarrow> bool" where
  "stride_ok nbits =
     (case scan_list nbits 2 (tl primes_int) of None \<Rightarrow> False | Some b \<Rightarrow> euclid b nbits = 1)"

lemma strides: "list_all (\<lambda>n. stride_ok (8 * n)) [1..96]"
  by code_simp

lemma prime_scan_list:
  assumes "0 < i" "i \<le> length primes"
    and "scan_list (int nbits) (int (primes ! (i - 1))) (map int (drop i primes)) = Some b"
  shows "\<exists>j. prime_scan nbits i = Some j \<and> 0 < j \<and> j \<le> length primes \<and> b = int (primes ! (j - 1))"
  using assms
proof (induction nbits i rule: prime_scan.induct)
  case (1 nbits i)
  show ?case
  proof (cases "i < length primes")
    case True
    then have d: "drop i primes = primes ! i # drop (Suc i) primes" by (simp add: Cons_nth_drop_Suc)
    show ?thesis
    proof (cases "primes ! i < nbits")
      case less: True
      then show ?thesis
        using 1(1) [of "primes ! i"] 1(4) True d by (subst prime_scan.simps) simp
    next
      case False
      then show ?thesis
        using 1(2,4) True d by (subst prime_scan.simps) auto
    qed
  next
    case False
    then show ?thesis using 1(4) by simp
  qed
qed

definition stride_of :: "nat \<Rightarrow> nat" where
  "stride_of n = primes ! (the (prime_scan (8 * n) 1) - 1)"

lemma stride:
  assumes "1 \<le> n" "n \<le> 96"
  shows "coprime (stride_of n) (8 * n) \<and>
    (\<exists>j. prime_scan (8 * n) 1 = Some j \<and> arr_get primes (j - 1) = Some (stride_of n))"
proof -
  have "stride_ok (8 * int n)"
    using strides assms by (simp add: list_all_iff)
  then obtain q where q: "scan_list (int (8 * n)) 2 (tl primes_int) = Some q" "euclid q (8 * int n) = 1"
    by (auto simp: stride_ok_def split: option.splits)
  have p: "tl primes_int = map int (drop 1 primes)" "primes ! (1 - 1) = 2" "1 \<le> length primes"
    by (simp_all add: primes_int_def primes_def)
  obtain j where j: "prime_scan (8 * n) 1 = Some j" "0 < j" "j \<le> length primes" "q = int (primes ! (j - 1))"
    using prime_scan_list [of 1 "8 * n" q] q(1) p by auto
  then have "gcd (int (primes ! (j - 1))) (int (8 * n)) = 1" using q(2) by (simp add: euclid_gcd)
  then have "coprime (primes ! (j - 1)) (8 * n)"
    by (metis coprime_iff_gcd_eq_1 gcd_int_int_eq of_nat_eq_1_iff)
  with j show ?thesis by (auto simp: stride_of_def)
qed

lemma stride_inj:
  assumes "coprime b nbits" "i < nbits" "j < nbits" "b * i mod nbits = b * j mod nbits"
  shows "i = (j :: nat)"
proof -
  have "int (b * i) mod int nbits = int (b * j) mod int nbits"
    using arg_cong [OF assms(4), of int] by (simp only: zmod_int)
  then have "int nbits dvd int (b * i) - int (b * j)" by (simp only: mod_eq_dvd_iff)
  also have "int (b * i) - int (b * j) = int b * (int i - int j)" by (simp add: right_diff_distrib)
  finally have "int nbits dvd int i - int j"
    using assms(1) by (simp add: coprime_dvd_mult_right_iff coprime_commute)
  then have "int i mod int nbits = int j mod int nbits" by (simp only: mod_eq_dvd_iff)
  with assms(2,3) show ?thesis by simp
qed

text \<open>What \<open>interleave\<close> does to a buffer, in both directions.\<close>

lemma interleave_eq:
  assumes "1 \<le> nbytes" "nbytes \<le> 96" "nbytes \<le> length inout"
  shows "\<exists>r. interleave inout nbytes False = Some r \<and> length r = length inout \<and> drop nbytes r = drop nbytes inout \<and>
       (\<forall>k < 8 * nbytes. bit_at r (stride_of nbytes * k mod (8 * nbytes)) = bit_at inout k)" (is ?forth)
    and "\<exists>r. interleave inout nbytes True = Some r \<and> length r = length inout \<and> drop nbytes r = drop nbytes inout \<and>
       (\<forall>k < 8 * nbytes. bit_at r k = bit_at inout (stride_of nbytes * k mod (8 * nbytes)))" (is ?undo)
proof -
  let ?N = "8 * nbytes" and ?b = "stride_of nbytes"
  obtain j where b: "prime_scan ?N 1 = Some j" "arr_get primes (j - 1) = Some ?b" "coprime ?b ?N"
    using stride assms by blast
  have N: "((nbytes mod 2 ^ 16) * 8) mod 2 ^ 16 = ?N" "0 < nbytes" using assms by simp_all
  have at: "bit_at (out @ drop nbytes inout) k = bit_at out k" if "length out = nbytes" "k < ?N" for out k
    using that less_mult_imp_div_less [of k nbytes 8] by (simp add: bit_at_def nth_append mult.commute)
  have lt: "?b * k mod ?N < ?N" for k using N(2) by simp
  note loop = interleave_loop [where nbits = ?N and nbytes = nbytes and m = ?N and b = ?b and inout = inout]
  obtain o0 where o0: "fold_opt (interleave_round ?N ?b False inout) [0..<?N] (replicate nbytes 0) = Some o0"
    "length o0 = nbytes" "\<forall>k<?N. bit_at o0 k \<longleftrightarrow> (\<exists>n<?N. k = ?b * n mod ?N \<and> bit_at inout n)"
    using loop [where dir = False] assms N(2) by auto
  have s0: "bit_at o0 (?b * k mod ?N) = bit_at inout k" if "k < ?N" for k
  proof -
    have "bit_at o0 (?b * k mod ?N) \<longleftrightarrow> (\<exists>n<?N. ?b * k mod ?N = ?b * n mod ?N \<and> bit_at inout n)"
      by (rule mp [OF spec [OF o0(3)] lt])
    also have "\<dots> \<longleftrightarrow> (\<exists>n<?N. k = n \<and> bit_at inout n)"
      using stride_inj [OF b(3) that] by (intro ex_cong1) blast
    finally show ?thesis using that by simp
  qed
  have "interleave inout nbytes False = Some (o0 @ drop nbytes inout)"
    unfolding interleave_def Let_def N(1) using assms(3) by (simp only: b o0(1) option.case if_True)
  then show ?forth using s0 o0(2) assms(3) at lt by simp
  obtain o1 where o1: "fold_opt (interleave_round ?N ?b True inout) [0..<?N] (replicate nbytes 0) = Some o1"
    "length o1 = nbytes" "\<forall>k<?N. bit_at o1 k \<longleftrightarrow> bit_at inout (?b * k mod ?N)"
    using loop [where dir = True] assms N(2) by auto
  have "interleave inout nbytes True = Some (o1 @ drop nbytes inout)"
    unfolding interleave_def Let_def N(1) using assms(3) by (simp only: b o1(1) option.case if_True)
  then show ?undo using o1(2,3) assms(3) at by simp
qed

lemma bit_at_drop: "k < 8 * n \<Longrightarrow> n \<le> length xs \<Longrightarrow> bit_at (take n xs) k = bit_at xs k"
  using less_mult_imp_div_less [of k n 8] by (simp add: bit_at_def mult.commute)

lemma same_prefix:
  assumes "length xs = length ys" "drop n xs = drop n ys" "\<And>k. k < 8 * n \<Longrightarrow> bit_at xs k = bit_at ys k"
    and "n \<le> length xs"
  shows "xs = ys"
proof -
  have "take n xs = take n ys"
    by (rule bit_at_ext) (use assms in \<open>auto simp: bit_at_drop\<close>)
  with assms(2) show ?thesis by (metis append_take_drop_id)
qed

lemma interleave_round_trip:
  assumes "1 \<le> nbytes" "nbytes \<le> 96" "nbytes \<le> length inout"
    and "interleave inout nbytes False = Some r"
  shows "interleave r nbytes True = Some inout"
proof -
  from interleave_eq(1) [OF assms(1-3)] assms(4)
  have r: "length r = length inout" "drop nbytes r = drop nbytes inout"
    "\<forall>k < 8 * nbytes. bit_at r (stride_of nbytes * k mod (8 * nbytes)) = bit_at inout k" by auto
  with interleave_eq(2) [of nbytes r] assms(1-3) obtain q where
    q: "interleave r nbytes True = Some q" "length q = length r" "drop nbytes q = drop nbytes r"
    "\<forall>k < 8 * nbytes. bit_at q k = bit_at r (stride_of nbytes * k mod (8 * nbytes))" by auto
  have "q = inout"
    by (rule same_prefix [of _ _ nbytes]) (use q r assms(3) in auto)
  with q(1) show ?thesis by simp
qed

subsection \<open>Properties\<close>

lemma prime_scan_runs_off:
  "\<forall>k<length primes. primes ! k < nbits \<Longrightarrow> prime_scan nbits i = None"
proof (induction nbits i rule: prime_scan.induct)
  case (1 nbits i)
  then show ?case
    by (subst prime_scan.simps) (auto simp: arr_get_def)
qed

lemma primes_small: "\<forall>k<length primes. primes ! k < 776"
proof -
  have "list_all (\<lambda>p. p < 776) primes" by (simp add: primes_def)
  then show ?thesis by (simp only: list_all_length)
qed

text \<open>
  The search for the stride tests the prime before the index, so for buffers of more
  than 96 bytes, where every listed prime is below the bit count, it reads behind the end of
  the table: the interleaver has no defined result for any such size the bit count can hold.
\<close>

theorem interleave_large_reads_out_of_range:
  assumes "97 \<le> nbytes" "nbytes < 8192"
  shows "interleave buf nbytes dir = None"
proof -
  have "((nbytes mod 2 ^ 16) * 8) mod 2 ^ 16 = 8 * nbytes" using assms by simp
  moreover have "\<forall>k<length primes. primes ! k < 8 * nbytes"
  proof (intro allI impI)
    fix k assume "k < length primes"
    then have "primes ! k < 776" using primes_small by blast
    with assms(1) show "primes ! k < 8 * nbytes" by linarith
  qed
  ultimately show ?thesis
    using prime_scan_runs_off [of "8 * nbytes" 1] by (simp only: interleave_def Let_def option.case)
qed

theorem interleave_large_reads_out_of_range_witness:
  "interleave (replicate 97 0) 97 False = None"
  by (rule interleave_large_reads_out_of_range) simp_all

end
