(* ===== verification/Bit_Stream.thy ===== *)
theory Bit_Stream
  imports Flight_Prelude
begin

text \<open>
  Byte buffers read and written bit by bit, as \<open>lib/f_core/radio/protocols/horus/horus.c\<close>
  does: the first bit of a byte is its most significant one.

  The block that shifts a bit into a byte and stores the byte when it has eight bits stands
  in that file four times, twice for parity bits and twice for output bits; it is \<open>write_bit\<close>
  on the variables of the block. \<open>pack_bits\<close> and \<open>byte_bits\<close> are the abstract view: the
  written bytes are the bits cut into groups of eight.
\<close>

definition byte_bits :: "u8 list \<Rightarrow> bool list" where
  "byte_bits xs = concat (map (word_bits 8) xs)"

definition groups :: "nat \<Rightarrow> 'a list \<Rightarrow> 'a list list" where
  "groups k bs = map (\<lambda>i. take k (drop (k * i) bs)) [0..<length bs div k]"

definition left_over :: "nat \<Rightarrow> 'a list \<Rightarrow> 'a list" where
  "left_over k bs = drop (k * (length bs div k)) bs"

definition full_bytes :: "bool list \<Rightarrow> u8 list" where
  "full_bytes bs = map bits_word (groups 8 bs)"

abbreviation rest_bits :: "bool list \<Rightarrow> bool list" where
  "rest_bits \<equiv> left_over 8"

definition pack_bits :: "bool list \<Rightarrow> u8 list" where
  "pack_bits bs = full_bytes bs @
     (if length bs mod 8 = 0 then []
      else [bits_word (rest_bits bs @ replicate (8 - length bs mod 8) False)])"

lemma length_byte_bits [simp]: "length (byte_bits xs) = 8 * length xs"
  by (induction xs) (simp_all add: byte_bits_def)

lemma byte_bits_Nil [simp]: "byte_bits [] = []"
  by (simp add: byte_bits_def)

lemma byte_bits_append [simp]: "byte_bits (xs @ ys) = byte_bits xs @ byte_bits ys"
  by (simp add: byte_bits_def)

lemma nth_byte_bits:
  "i < 8 * length xs \<Longrightarrow> byte_bits xs ! i = bit (xs ! (i div 8)) (7 - i mod 8)"
proof (induction xs arbitrary: i)
  case (Cons x xs)
  show ?case
  proof (cases "i < 8")
    case True
    then show ?thesis by (simp add: byte_bits_def nth_append nth_word_bits)
  next
    case False
    then obtain j where "i = 8 + j" using le_Suc_ex by (metis not_less)
    moreover have "(8 + j) div 8 = Suc (j div 8)" by simp
    ultimately show ?thesis using Cons by (simp add: byte_bits_def nth_append del: div_add_self1)
  qed
qed simp

lemma length_groups [simp]: "length (groups k bs) = length bs div k"
  by (simp add: groups_def)

lemma length_left_over [simp]: "length (left_over k bs) = length bs mod k"
  by (simp add: left_over_def minus_mult_div_eq_mod)

lemma groups_left_over: "concat (groups k bs) @ left_over k bs = bs"
proof -
  have "concat (map (\<lambda>i. take k (drop (k * i) bs)) [0..<n]) = take (k * n) bs" for n
    by (induction n) (simp_all add: take_add add.commute [of k])
  then show ?thesis by (simp add: groups_def left_over_def)
qed

lemma take_group_snoc:
  assumes "0 < k" "i < length bs div k"
  shows "take k (drop (k * i) (bs @ [b])) = take k (drop (k * i) bs)"
proof -
  have "Suc i * k \<le> length bs"
    using assms by (simp only: Suc_le_eq [symmetric] less_eq_div_iff_mult_less_eq)
  then have "k * i \<le> length bs" "k \<le> length bs - k * i" by (simp_all add: mult.commute)
  then show ?thesis by simp
qed

lemma groups_snoc:
  assumes "0 < k"
  shows "groups k (bs @ [b]) =
     (if (length bs + 1) mod k = 0 then groups k bs @ [left_over k bs @ [b]] else groups k bs)"
proof (cases "(length bs + 1) mod k = 0")
  case True
  then have len: "length (bs @ [b]) div k = Suc (length bs div k)"
    by (simp add: div_Suc)
  have "k * (length bs div k) + k = length bs + 1"
    using True len by (metis add_0_right length_append_singleton mult_Suc_right Suc_eq_plus1
        add.commute mult_div_mod_eq)
  then have last: "take k (drop (k * (length bs div k)) (bs @ [b])) = left_over k bs @ [b]"
    by (simp add: left_over_def)
  have "groups k (bs @ [b]) =
      map (\<lambda>i. take k (drop (k * i) (bs @ [b]))) [0..<length bs div k] @
      [take k (drop (k * (length bs div k)) (bs @ [b]))]"
    unfolding groups_def len by simp
  also have "map (\<lambda>i. take k (drop (k * i) (bs @ [b]))) [0..<length bs div k] = groups k bs"
    unfolding groups_def by (rule map_cong) (simp_all add: take_group_snoc assms del: drop_append take_append)
  finally show ?thesis using True last by simp
next
  case False
  then have len: "length (bs @ [b]) div k = length bs div k" by (simp add: div_Suc)
  show ?thesis
    using False unfolding groups_def len
    by (auto intro!: map_cong simp: take_group_snoc assms simp del: drop_append take_append)
qed

lemma left_over_snoc:
  "left_over k (bs @ [b]) = (if (length bs + 1) mod k = 0 then [] else left_over k bs @ [b])"
proof (cases "(length bs + 1) mod k = 0")
  case True
  then have "k * (length (bs @ [b]) div k) = length (bs @ [b])" by (simp add: dvd_eq_mod_eq_0)
  then show ?thesis using True by (simp add: left_over_def)
next
  case False
  then have "length (bs @ [b]) div k = length bs div k" by (simp add: div_Suc)
  then show ?thesis using False by (simp add: left_over_def)
qed

lemma groups_Nil [simp]: "groups k [] = []" "left_over k [] = []"
  by (simp_all add: groups_def left_over_def)

lemma length_full_bytes [simp]: "length (full_bytes bs) = length bs div 8"
  by (simp add: full_bytes_def)

lemma full_bytes_snoc:
  "full_bytes (bs @ [b]) =
     (if (length bs + 1) mod 8 = 0 then full_bytes bs @ [bits_word (rest_bits bs @ [b])] else full_bytes bs)"
  by (simp add: full_bytes_def groups_snoc)

lemma full_bytes_Nil [simp]: "full_bytes [] = []"
  by (simp add: full_bytes_def)

lemma length_pack_bits: "length (pack_bits bs) = (length bs + 7) div 8"
proof -
  have "(8 * q + r + 7) div 8 = (if r = 0 then q else Suc q)" if "r < 8" for q r :: nat
    using that by auto
  from this [of "length bs mod 8" "length bs div 8"] show ?thesis
    by (simp add: pack_bits_def)
qed

lemma bits_word_snoc:
  "(bits_word (bs @ [b]) :: 'a::len word) = push_bit 1 (bits_word bs) OR of_bool b"
proof -
  have "(bits_word (bs @ [b]) :: 'a word) = push_bit 1 (bits_word bs) + of_bool b"
    by (simp add: bits_word_def push_bit_eq_mult)
  also have "\<dots> = push_bit 1 (bits_word bs) OR of_bool b"
    by (rule disjunctive_add_eq_or, rule bit_word_eqI)
      (simp only: bit_and_iff bit_push_bit_iff bit_of_bool_iff bit_0_eq bot_apply, simp)
  finally show ?thesis .
qed

lemma bits_word_Nil [simp]: "bits_word [] = 0"
  by (simp add: bits_word_def)

lemma ucast_bits_word:
  "LENGTH('b) \<le> LENGTH('a) \<Longrightarrow> ucast (bits_word bs :: 'a::len word) = (bits_word bs :: 'b::len word)"
  by (rule bit_word_eqI) (auto simp: bit_ucast_iff bit_bits_word)

lemma push_bits_word:
  "push_bit k (bits_word bs :: 'a::len word) = bits_word (bs @ replicate k False)"
proof (induction k)
  case (Suc k)
  then have "push_bit (Suc k) (bits_word bs :: 'a word) = push_bit 1 (bits_word (bs @ replicate k False))"
    by (metis One_nat_def plus_1_eq_Suc push_bit_push_bit)
  also have "\<dots> = bits_word ((bs @ replicate k False) @ [False])"
    by (simp only: bits_word_snoc) simp
  finally show ?case by (simp add: replicate_append_same)
qed simp

subsection \<open>Writing bits\<close>

record bit_writer =
  wbuf :: "u8 list"
  wpos :: nat
  wbyte :: i32
  wbits :: nat

text \<open>
  \<open>byte |= bit; n++; if (n % 8) byte <<= 1; else { *pout++ = byte; byte = 0; }\<close>
\<close>

definition write_bit :: "i32 \<Rightarrow> bit_writer \<Rightarrow> bit_writer option" where
  "write_bit b s =
     (let byte = wbyte s OR b; n = wbits s + 1 in
      if n mod 8 \<noteq> 0 then Some (s\<lparr>wbyte := push_bit 1 byte, wbits := n\<rparr>)
      else (case arr_put (wbuf s) (wpos s) (ucast byte) of
              None \<Rightarrow> None
            | Some buf \<Rightarrow> Some \<lparr>wbuf = buf, wpos = wpos s + 1, wbyte = 0, wbits = n\<rparr>))"

text \<open>
  The writer after the bits \<open>Q\<close> have been written behind the bytes \<open>pre\<close> into a buffer
  with room for \<open>cap\<close> more bytes.
\<close>

definition wrote :: "u8 list \<Rightarrow> nat \<Rightarrow> bool list \<Rightarrow> bit_writer \<Rightarrow> bool" where
  "wrote pre cap Q s \<longleftrightarrow>
     wbits s = length Q \<and> wpos s = length pre + length Q div 8 \<and>
     wbyte s = push_bit 1 (bits_word (rest_bits Q)) \<and>
     (\<exists>rest. wbuf s = pre @ full_bytes Q @ rest \<and> length Q div 8 + length rest = cap)"

lemma wrote_Nil: "wrote pre (length rest) [] \<lparr>wbuf = pre @ rest, wpos = length pre, wbyte = 0, wbits = 0\<rparr>"
  by (simp add: wrote_def)

lemma write_bit_wrote:
  assumes "wrote pre cap Q s" "length (Q @ [b]) div 8 \<le> cap"
  shows "\<exists>s'. write_bit (of_bool b) s = Some s' \<and> wrote pre cap (Q @ [b]) s'"
proof -
  have byte: "wbyte s OR of_bool b = bits_word (rest_bits Q @ [b])"
    using assms(1) by (simp add: wrote_def bits_word_snoc)
  show ?thesis
  proof (cases "(length Q + 1) mod 8 = 0")
    case False
    then have "(length Q + 1) div 8 = length Q div 8" by (simp add: div_Suc)
    with False assms byte show ?thesis
      by (simp add: write_bit_def wrote_def Let_def full_bytes_snoc left_over_snoc)
  next
    case True
    then have d: "(length Q + 1) div 8 = Suc (length Q div 8)" by (simp add: div_Suc)
    from assms(1) obtain rest where rest: "wbuf s = pre @ full_bytes Q @ rest"
      "length Q div 8 + length rest = cap" by (auto simp: wrote_def)
    with d assms(2) obtain x rs where x: "rest = x # rs" by (cases rest) auto
    have "ucast (bits_word (rest_bits Q @ [b]) :: i32) = (bits_word (rest_bits Q @ [b]) :: u8)"
      by (simp add: ucast_bits_word)
    with True d x rest assms(1) byte show ?thesis
      by (simp add: write_bit_def wrote_def Let_def full_bytes_snoc left_over_snoc list_update_append)
  qed
qed

lemma write_bits_wrote:
  assumes "wrote pre cap Q s" "length (Q @ bs) div 8 \<le> cap"
    and "\<And>i. i < length bs \<Longrightarrow> f i = of_bool (bs ! i)"
  shows "\<exists>s'. fold_opt (\<lambda>i. write_bit (f i)) [0..<length bs] s = Some s' \<and> wrote pre cap (Q @ bs) s'"
  using assms(2,3)
proof (induction bs rule: rev_induct)
  case Nil
  then show ?case using assms(1) by simp
next
  case (snoc b bs)
  have "length (Q @ bs) div 8 \<le> cap" using snoc.prems(1) by simp
  moreover have "f i = of_bool (bs ! i)" if "i < length bs" for i
    using snoc.prems(2) [of i] that by (simp add: nth_append)
  ultimately obtain s1 where s1: "fold_opt (\<lambda>i. write_bit (f i)) [0..<length bs] s = Some s1"
    "wrote pre cap (Q @ bs) s1" using snoc.IH by blast
  have "f (length bs) = of_bool b" using snoc.prems(2) [of "length bs"] by simp
  with write_bit_wrote [OF s1(2), of b] snoc.prems(1) s1(1) show ?case
    by (auto simp: fold_opt_append)
qed

lemma write_bit_int: "k < 32 \<Longrightarrow> signed_drop_bit k (w :: i32) AND 1 = of_bool (bit w k)"
  by (rule bit_word_eqI, rename_tac n, case_tac n) (auto simp: bit_simps bit_signed_drop_bit_iff)

end
