(* ===== verification/Horus_L2.thy ===== *)
theory Horus_L2
  imports Golay_Codec Horus_Mix Bit_Stream
begin

text \<open>
  The layer-2 packet codec of \<open>lib/f_core/radio/protocols/horus/horus.c\<close>:
  \<open>horus_l2_encode_tx_packet\<close> and \<open>horus_l2_decode_rx_packet\<close>, both with the interleaver and
  the scrambler on, as the library's Kconfig sets them.

  The local variables of a function are a record; \<open>pout\<close>, \<open>paritybyte\<close> and \<open>nparitybits\<close> of
  the encoder, and \<open>pout\<close>, \<open>outbyte\<close> and \<open>noutbits\<close> of the decoder, are the fields of
  \<open>bit_writer\<close>. Buffers are byte lists; \<open>None\<close> is an access outside a buffer or a table, a
  failed \<open>assert\<close>, or a syndrome that does not return.

  The abstract view is \<open>code_groups\<close>: the payload bits in groups of twelve, the last one
  padded as the code pads it, and \<open>parity_bits\<close>, eleven bits per group.
\<close>

subsection \<open>Encoder\<close>

definition uw :: "u8 list" where
  "uw = [0x24, 0x24]"

definition horus_l2_get_num_tx_data_bytes :: "nat \<Rightarrow> nat" where
  "horus_l2_get_num_tx_data_bytes num_payload_data_bytes =
     (let num_payload_data_bits = num_payload_data_bytes * 8;
          num_golay_codewords = num_payload_data_bits div 12;
          num_golay_codewords =
            (if num_payload_data_bits mod 12 \<noteq> 0 then num_golay_codewords + 1 else num_golay_codewords);
          num_tx_data_bits = length uw * 8 + num_payload_data_bits + num_golay_codewords * 11;
          num_tx_data_bytes = num_tx_data_bits div 8 in
      if num_tx_data_bits mod 8 \<noteq> 0 then num_tx_data_bytes + 1 else num_tx_data_bytes)"

definition mem_put :: "u8 list \<Rightarrow> nat \<Rightarrow> u8 list \<Rightarrow> u8 list option" where
  "mem_put dst off src =
     (if off + length src \<le> length dst then Some (take off dst @ src @ drop (off + length src) dst)
      else None)"

text \<open>Applying an in-place routine to the bytes after the unique word.\<close>

definition after_uw :: "(u8 list \<Rightarrow> u8 list option) \<Rightarrow> u8 list \<Rightarrow> u8 list option" where
  "after_uw f buf = map_option ((@) (take (length uw) buf)) (f (drop (length uw) buf))"

record enc_state =
  ingolay :: i32
  ningolay :: nat
  parity :: bit_writer

text \<open>The loop that writes the eleven bits of \<open>golayparity\<close>.\<close>

definition write_parity :: "i32 \<Rightarrow> bit_writer \<Rightarrow> bit_writer option" where
  "write_parity golayparity =
     fold_opt (\<lambda>i. write_bit (signed_drop_bit (10 - i) golayparity AND 1)) [0..<11]"

text \<open>One round of the loop over the payload bits.\<close>

definition enc_round :: "u8 list \<Rightarrow> nat \<Rightarrow> enc_state \<Rightarrow> enc_state option" where
  "enc_round input ninbit s =
     (case arr_get input (ninbit div 8) of
        None \<Rightarrow> None
      | Some byte \<Rightarrow>
          let shift = 7 - ninbit mod 8;
              inbit = signed_drop_bit shift (ucast byte :: i32) AND 1;
              golay = ingolay s OR inbit;
              n = ningolay s + 1 in
          if n mod 12 \<noteq> 0 then Some (s\<lparr>ingolay := push_bit 1 golay, ningolay := n\<rparr>)
          else (case get_syndrome (push_bit 11 golay) of
                  None \<Rightarrow> None
                | Some golayparity \<Rightarrow>
                    (case write_parity golayparity (parity s) of
                       None \<Rightarrow> None
                     | Some w \<Rightarrow> Some \<lparr>ingolay = 0, ningolay = n, parity = w\<rparr>)))"

text \<open>The last, partially filled code word.\<close>

definition enc_last :: "enc_state \<Rightarrow> bit_writer option" where
  "enc_last s =
     (if ningolay s mod 12 \<noteq> 0 then
        (case get_syndrome (push_bit 12 (signed_drop_bit 1 (ingolay s))) of
           None \<Rightarrow> None
         | Some golayparity \<Rightarrow> write_parity golayparity (parity s))
      else Some (parity s))"

text \<open>The last, partially filled parity byte.\<close>

definition enc_flush :: "bit_writer \<Rightarrow> bit_writer option" where
  "enc_flush w =
     (if wbits w mod 8 \<noteq> 0 then
        let byte = push_bit (7 - wbits w mod 8) (wbyte w) in
        (case arr_put (wbuf w) (wpos w) (ucast byte) of
           None \<Rightarrow> None
         | Some buf \<Rightarrow> Some (w\<lparr>wbuf := buf, wpos := wpos w + 1, wbyte := byte\<rparr>))
      else Some w)"

definition horus_l2_encode_tx_packet ::
  "u8 list \<Rightarrow> u8 list \<Rightarrow> nat \<Rightarrow> (nat \<times> u8 list) option" where
  "horus_l2_encode_tx_packet output input n =
     (let num_tx = horus_l2_get_num_tx_data_bytes n in
      if length input < n then None
      else
      Option.bind (mem_put output 0 uw) (\<lambda>out.
      Option.bind (mem_put out (length uw) (take n input)) (\<lambda>out.
      Option.bind (fold_opt (enc_round input) [0..<n * 8]
        \<lparr>ingolay = 0, ningolay = 0,
         parity = \<lparr>wbuf = out, wpos = length uw + n, wbyte = 0, wbits = 0\<rparr>\<rparr>) (\<lambda>s.
      Option.bind (enc_last s) (\<lambda>w.
      Option.bind (enc_flush w) (\<lambda>w.
      if wpos w \<noteq> num_tx then None
      else
      Option.bind (after_uw (\<lambda>b. interleave b (num_tx - 2) False) (wbuf w)) (\<lambda>out.
      Option.bind (after_uw (\<lambda>b. scramble b (num_tx - 2)) out) (\<lambda>out.
      Some (num_tx, out)))))))))"

subsection \<open>Decoder\<close>

record parity_reader =
  pin :: nat
  paritybyte :: i32
  nparitybits :: nat

record dec_state =
  d_ingolay :: i32
  d_ningolay :: nat
  reader :: parity_reader
  payload_out :: bit_writer

text \<open>One round of the two loops that read eleven parity bits behind \<open>acc\<close>.\<close>

definition read_parity_round ::
  "u8 list \<Rightarrow> nat \<Rightarrow> i32 \<times> parity_reader \<Rightarrow> (i32 \<times> parity_reader) option" where
  "read_parity_round rx i s = (case s of (acc, r) \<Rightarrow>
     let shift = 7 - nparitybits r mod 8;
         golayparitybit = signed_drop_bit shift (paritybyte r) AND 1;
         acc = acc OR golayparitybit;
         acc = (if i \<noteq> 10 then push_bit 1 acc else acc);
         n = nparitybits r + 1 in
     if n mod 8 = 0 then
       (case arr_get rx (pin r) of
          None \<Rightarrow> None
        | Some byte \<Rightarrow> Some (acc, \<lparr>pin = pin r + 1, paritybyte = ucast byte, nparitybits = n\<rparr>))
     else Some (acc, r\<lparr>nparitybits := n\<rparr>))"

definition read_parity :: "u8 list \<Rightarrow> i32 \<Rightarrow> parity_reader \<Rightarrow> (i32 \<times> parity_reader) option" where
  "read_parity rx acc r = fold_opt (read_parity_round rx) [0..<11] (acc, r)"

definition dec_round :: "golay_state \<Rightarrow> u8 list \<Rightarrow> nat \<Rightarrow> dec_state \<Rightarrow> dec_state option" where
  "dec_round st rx ninbit s =
     (case arr_get rx (ninbit div 8 + length uw) of
        None \<Rightarrow> None
      | Some byte \<Rightarrow>
          let shift = 7 - ninbit mod 8;
              inbit = signed_drop_bit shift (ucast byte :: i32) AND 1;
              golay = push_bit 1 (d_ingolay s OR inbit);
              n = d_ningolay s + 1 in
          if n mod 12 = 0 then
            (case read_parity rx golay (reader s) of
               None \<Rightarrow> None
             | Some (golay, r) \<Rightarrow>
                 (case golay23_decode st golay of
                    None \<Rightarrow> None
                  | Some c \<Rightarrow>
                      let outdata = signed_drop_bit 11 c in
                      (case fold_opt (\<lambda>i. write_bit (signed_drop_bit (11 - i) outdata AND 1)) [0..<12] (payload_out s) of
                         None \<Rightarrow> None
                       | Some w \<Rightarrow> Some \<lparr>d_ingolay = 0, d_ningolay = n, reader = r, payload_out = w\<rparr>)))
          else Some (s\<lparr>d_ingolay := golay, d_ningolay := n\<rparr>))"

definition dec_last :: "golay_state \<Rightarrow> u8 list \<Rightarrow> nat \<Rightarrow> dec_state \<Rightarrow> bit_writer option" where
  "dec_last st rx num_payload_data_bits s =
     (if d_ningolay s mod 12 \<noteq> 0 then
        (case read_parity rx 0 (reader s) of
           None \<Rightarrow> None
         | Some (golayparity, r) \<Rightarrow>
             let golay = signed_drop_bit 1 (d_ingolay s);
                 codeword = push_bit 12 golay + golayparity in
             (case golay23_decode st codeword of
                None \<Rightarrow> None
              | Some c \<Rightarrow>
                  let outdata = signed_drop_bit 11 c;
                      ntogo = num_payload_data_bits - wbits (payload_out s) in
                  fold_opt (\<lambda>i. write_bit (signed_drop_bit (ntogo - i) outdata AND 1)) [0..<ntogo] (payload_out s)))
      else Some (payload_out s))"

text \<open>The result is the output buffer and the receive buffer, which is unmixed in place.\<close>

definition horus_l2_decode_rx_packet ::
  "golay_state \<Rightarrow> u8 list \<Rightarrow> u8 list \<Rightarrow> nat \<Rightarrow> (u8 list \<times> u8 list) option" where
  "horus_l2_decode_rx_packet st out rx n =
     (let num_tx = horus_l2_get_num_tx_data_bytes n in
      Option.bind (after_uw (\<lambda>b. scramble b (num_tx - 2)) rx) (\<lambda>rx.
      Option.bind (after_uw (\<lambda>b. interleave b (num_tx - 2) True) rx) (\<lambda>rx.
      Option.bind (arr_get rx (length uw + n)) (\<lambda>byte.
      Option.bind (fold_opt (dec_round st rx) [0..<n * 8]
        \<lparr>d_ingolay = 0, d_ningolay = 0,
         reader = \<lparr>pin = length uw + n + 1, paritybyte = ucast byte, nparitybits = 0\<rparr>,
         payload_out = \<lparr>wbuf = out, wpos = 0, wbyte = 0, wbits = 0\<rparr>\<rparr>) (\<lambda>s.
      Option.bind (dec_last st rx (n * 8) s) (\<lambda>w.
      if wpos w = n then Some (wbuf w, rx) else None))))))"

subsection \<open>The abstract code\<close>

definition code_groups :: "bool list \<Rightarrow> bool list list" where
  "code_groups D = groups 12 D @ (if length D mod 12 = 0 then [] else [left_over 12 D @ [False]])"

definition parity_of :: "bool list \<Rightarrow> bool list" where
  "parity_of g = word_bits 11 (syn (push_bit 11 (bits_word g)))"

definition parity_bits :: "bool list \<Rightarrow> bool list" where
  "parity_bits D = concat (map parity_of (code_groups D))"

lemma length_parity_of [simp]: "length (parity_of g) = 11"
  by (simp add: parity_of_def)

lemma length_concat_parity [simp]: "length (concat (map parity_of gs)) = 11 * length gs"
  by (induction gs) simp_all

lemma div_round_up: "0 < k \<Longrightarrow> (t + (k - 1)) div k = (if t mod k \<noteq> 0 then t div k + 1 else t div k)"
  for t k :: nat
proof -
  assume k: "0 < k"
  have "(k * q + r + (k - 1)) div k = (if r = 0 then q else q + 1)" if "r < k" for q r
  proof (cases r)
    case (Suc m)
    then have "k * q + r + (k - 1) = m + k * (q + 1)" using k by simp
    then show ?thesis using Suc that by (simp only: div_mult_self2 [OF less_imp_neq [OF k, symmetric]]) simp
  next
    case 0
    have "(k * q + (k - 1)) div k = q + (k - 1) div k" using k by (simp only: div_mult_self4)
    with 0 k show ?thesis by simp
  qed
  from this [of "t mod k" "t div k"] k show ?thesis by simp
qed

lemma length_code_groups: "length (code_groups D) = (length D + 11) div 12"
  using div_round_up [of 12 "length D"] by (simp add: code_groups_def)

lemma num_tx_eq:
  "horus_l2_get_num_tx_data_bytes n = 2 + n + (11 * ((8 * n + 11) div 12) + 7) div 8"
proof -
  define B where "B = n * 8"
  define c where "c = (B + 11) div 12"
  have c: "(if B mod 12 \<noteq> 0 then B div 12 + 1 else B div 12) = c"
    using div_round_up [of 12 B] by (simp add: c_def)
  define t where "t = 2 * 8 + B + c * 11"
  have "horus_l2_get_num_tx_data_bytes n = (if t mod 8 \<noteq> 0 then t div 8 + 1 else t div 8)"
    by (simp only: horus_l2_get_num_tx_data_bytes_def Let_def B_def [symmetric] c t_def) (simp add: uw_def)
  also have "\<dots> = (t + 7) div 8"
    using div_round_up [of 8 t] by simp
  also have "t + 7 = 8 * (2 + n) + (11 * c + 7)"
    by (simp add: t_def B_def)
  finally show ?thesis by (simp add: c_def B_def mult.commute)
qed

lemma below_bits_word: "length bs \<le> n \<Longrightarrow> below_bit n (bits_word bs :: 'a::len word)"
  by (auto simp: below_bit_def bit_bits_word)

lemma shift_back: "below_bit 30 w \<Longrightarrow> signed_drop_bit 1 (push_bit 1 (w :: i32)) = w"
  by (rule bit_word_eqI)
    (auto simp: bit_signed_drop_bit_iff bit_push_bit_iff below_bit_def simp del: push_bit_Suc)

lemma left_over_less: "length (left_over 12 D) < 12"
  by simp

subsection \<open>Correctness of the encoder\<close>

lemma write_parity_wrote:
  assumes "wrote pre cap Q w" "(length Q + 11) div 8 \<le> cap"
  shows "\<exists>w'. write_parity p w = Some w' \<and> wrote pre cap (Q @ word_bits 11 p) w'"
  unfolding write_parity_def
  using write_bits_wrote [OF assms(1), of "word_bits 11 p" "\<lambda>i. signed_drop_bit (10 - i) p AND 1"]
    assms(2)
  by (simp add: write_bit_int nth_word_bits)

lemma inbit_eq:
  "k < 8 * length xs \<Longrightarrow>
     signed_drop_bit (7 - k mod 8) (ucast (xs ! (k div 8)) :: i32) AND 1 = of_bool (byte_bits xs ! k)"
  by (subst write_bit_int) (auto simp: nth_byte_bits bit_ucast_iff)

text \<open>The state of the loop after the bits \<open>D\<close> of the payload.\<close>

definition enc_inv :: "u8 list \<Rightarrow> nat \<Rightarrow> bool list \<Rightarrow> enc_state \<Rightarrow> bool" where
  "enc_inv pre cap D s \<longleftrightarrow>
     ningolay s = length D \<and> ingolay s = push_bit 1 (bits_word (left_over 12 D)) \<and>
     wrote pre cap (concat (map parity_of (groups 12 D))) (parity s)"

lemma enc_round_inv:
  assumes "enc_inv pre cap D s" "length D < 8 * length input" "byte_bits input ! length D = b"
    and "(11 * (length (D @ [b]) div 12)) div 8 \<le> cap"
  shows "\<exists>s'. enc_round input (length D) s = Some s' \<and> enc_inv pre cap (D @ [b]) s'"
proof -
  have golay: "ingolay s OR of_bool b = bits_word (left_over 12 D @ [b])"
    using assms(1) by (simp add: enc_inv_def bits_word_snoc)
  have byte: "arr_get input (length D div 8) = Some (input ! (length D div 8))"
    using assms(2) by simp
  have n: "ningolay s = length D" using assms(1) by (simp add: enc_inv_def)
  define G :: i32 where "G = bits_word (left_over 12 D @ [b])"
  have step: "enc_round input (length D) s =
      (if (length D + 1) mod 12 \<noteq> 0 then Some (s\<lparr>ingolay := push_bit 1 G, ningolay := length D + 1\<rparr>)
       else (case get_syndrome (push_bit 11 G) of
               None \<Rightarrow> None
             | Some p \<Rightarrow> (case write_parity p (parity s) of
                   None \<Rightarrow> None
                 | Some w \<Rightarrow> Some \<lparr>ingolay = 0, ningolay = length D + 1, parity = w\<rparr>)))"
    unfolding enc_round_def byte option.case Let_def inbit_eq [OF assms(2)] assms(3) golay G_def n
    by (rule refl)
  show ?thesis
  proof (cases "(length D + 1) mod 12 = 0")
    case False
    with assms(1) step show ?thesis
      by (simp add: enc_inv_def groups_snoc left_over_snoc G_def)
  next
    case True
    then have d: "length (D @ [b]) div 12 = Suc (length D div 12)" by (simp add: div_Suc)
    have "below_bit 12 G" unfolding G_def
      by (rule below_bits_word) (use left_over_less [of D] in simp)
    then have "get_syndrome (push_bit 11 G) = Some (syn (push_bit 11 G))"
      by (intro get_syndrome_eq below_push)
    moreover obtain w where "write_parity (syn (push_bit 11 G)) (parity s) = Some w"
      "wrote pre cap (concat (map parity_of (groups 12 D)) @ parity_of (left_over 12 D @ [b])) w"
      using write_parity_wrote [of pre cap "concat (map parity_of (groups 12 D))" "parity s"]
        assms(1,4) d by (auto simp: enc_inv_def parity_of_def G_def algebra_simps)
    ultimately show ?thesis
      using True step by (simp add: enc_inv_def groups_snoc left_over_snoc)
  qed
qed

lemma enc_last_inv:
  assumes "enc_inv pre cap D s" "length (parity_bits D) div 8 \<le> cap"
  shows "\<exists>w. enc_last s = Some w \<and> wrote pre cap (parity_bits D) w"
proof (cases "length D mod 12 = 0")
  case True
  then show ?thesis using assms(1) by (simp add: enc_last_def enc_inv_def parity_bits_def code_groups_def)
next
  case False
  let ?G = "bits_word (left_over 12 D @ [False]) :: i32"
  have "signed_drop_bit 1 (ingolay s) = bits_word (left_over 12 D)"
    using assms(1) left_over_less [of D] shift_back [OF below_bits_word, of "left_over 12 D"]
    by (simp add: enc_inv_def)
  then have "push_bit 12 (signed_drop_bit 1 (ingolay s)) = push_bit 11 ?G"
    by (simp add: push_bits_word replicate_append_same numeral_eq_Suc)
  moreover have "below_bit 12 ?G"
    by (rule below_bits_word) (use left_over_less [of D] in simp)
  ultimately have "get_syndrome (push_bit 12 (signed_drop_bit 1 (ingolay s))) = Some (syn (push_bit 11 ?G))"
    by (simp only: get_syndrome_eq below_push)
  then show ?thesis
    using assms False write_parity_wrote [of pre cap "concat (map parity_of (groups 12 D))" "parity s"
        "syn (push_bit 11 ?G)"]
    by (simp add: enc_last_def enc_inv_def parity_bits_def code_groups_def parity_of_def)
qed

lemma enc_flush_wrote:
  assumes "wrote pre cap Q w" "(length Q + 7) div 8 = cap"
  shows "\<exists>w'. enc_flush w = Some w' \<and> wbuf w' = pre @ pack_bits Q \<and> wpos w' = length pre + cap"
proof (cases "length Q mod 8 = 0")
  case True
  then have "cap = length Q div 8" using assms(2) div_round_up [of 8 "length Q"] by simp
  with True assms show ?thesis
    by (auto simp: enc_flush_def wrote_def pack_bits_def)
next
  case False
  then have cap: "cap = Suc (length Q div 8)" using assms(2) div_round_up [of 8 "length Q"] by simp
  let ?r = "8 - length Q mod 8"
  from assms cap obtain x where w: "wbuf w = pre @ full_bytes Q @ [x]" "wbits w = length Q"
    "wpos w = length pre + length Q div 8" "wbyte w = push_bit 1 (bits_word (rest_bits Q))"
    by (auto simp: wrote_def length_Suc_conv)
  have "?r = 1 + (7 - length Q mod 8)" using mod_less_divisor [of 8 "length Q"] by linarith
  then have "push_bit (7 - wbits w mod 8) (wbyte w) = bits_word (rest_bits Q @ replicate ?r False)"
    by (simp only: w push_bits_word append_assoc replicate_add)
  with w cap False show ?thesis
    by (simp add: enc_flush_def Let_def pack_bits_def list_update_append ucast_bits_word)
qed

lemma enc_loop:
  assumes "wrote pre cap [] w" "n \<le> length input" "m \<le> n * 8" "11 * (n * 8 div 12) div 8 \<le> cap"
  shows "\<exists>s. fold_opt (enc_round input) [0..<m] \<lparr>ingolay = 0, ningolay = 0, parity = w\<rparr> = Some s \<and>
           enc_inv pre cap (take m (byte_bits input)) s"
  using assms(3)
proof (induction m)
  case 0
  then show ?case using assms(1) by (simp add: enc_inv_def)
next
  case (Suc m)
  then obtain s where s: "fold_opt (enc_round input) [0..<m] \<lparr>ingolay = 0, ningolay = 0, parity = w\<rparr> = Some s"
    "enc_inv pre cap (take m (byte_bits input)) s" by auto
  have m: "m < 8 * length input" using Suc.prems assms(2) by simp
  have "Suc m div 12 \<le> n * 8 div 12" using Suc.prems by (rule div_le_mono)
  then have "11 * (Suc m div 12) div 8 \<le> cap" using assms(4) by (meson div_le_mono le_trans mult_le_mono2)
  then obtain s' where "enc_round input m s = Some s'"
    "enc_inv pre cap (take m (byte_bits input) @ [byte_bits input ! m]) s'"
    using enc_round_inv [OF s(2), of input "byte_bits input ! m"] m by auto
  with s(1) m show ?case by (simp add: fold_opt_append take_Suc_conv_app_nth)
qed

text \<open>The packet before it is mixed: unique word, payload, packed parity bits.\<close>

definition plain_body :: "u8 list \<Rightarrow> u8 list" where
  "plain_body payload = payload @ pack_bits (parity_bits (byte_bits payload))"

definition body_bytes :: "nat \<Rightarrow> nat" where
  "body_bytes n = n + (11 * ((8 * n + 11) div 12) + 7) div 8"

lemma num_tx_body: "horus_l2_get_num_tx_data_bytes n = 2 + body_bytes n"
  by (simp add: num_tx_eq body_bytes_def)

lemma length_parity_bits: "length (parity_bits (byte_bits xs)) = 11 * ((8 * length xs + 11) div 12)"
  by (simp add: parity_bits_def length_code_groups)

lemma length_plain_body: "length (plain_body xs) = body_bytes (length xs)"
  by (simp add: plain_body_def length_pack_bits length_parity_bits body_bytes_def)

lemma byte_bits_take: "byte_bits (take n xs) = take (8 * n) (byte_bits xs)"
proof -
  have "take (8 * n) (byte_bits (take n xs @ drop n xs)) = byte_bits (take n xs)"
    unfolding byte_bits_append by (cases "n \<le> length xs") simp_all
  then show ?thesis by simp
qed

lemma encode_body:
  assumes "length outbuf = horus_l2_get_num_tx_data_bytes n" "n \<le> length input"
  shows "\<exists>w. Option.bind (mem_put outbuf 0 uw) (\<lambda>out.
      Option.bind (mem_put out (length uw) (take n input)) (\<lambda>out.
      Option.bind (fold_opt (enc_round input) [0..<n * 8]
        \<lparr>ingolay = 0, ningolay = 0,
         parity = \<lparr>wbuf = out, wpos = length uw + n, wbyte = 0, wbits = 0\<rparr>\<rparr>) (\<lambda>s.
      Option.bind (enc_last s) enc_flush))) = Some w \<and>
    wbuf w = uw @ plain_body (take n input) \<and> wpos w = horus_l2_get_num_tx_data_bytes n"
proof -
  let ?D = "byte_bits (take n input)"
  define cap where "cap = (11 * ((8 * n + 11) div 12) + 7) div 8"
  define rest where "rest = drop (2 + n) outbuf"
  have cap: "length outbuf = 2 + n + cap" "length rest = cap"
    using assms(1) by (simp_all add: num_tx_eq cap_def rest_def)
  have put: "mem_put outbuf 0 uw = Some (uw @ drop 2 outbuf)"
    "mem_put (uw @ drop 2 outbuf) (length uw) (take n input) = Some ((uw @ take n input) @ rest)"
    using cap assms(2) by (simp_all add: mem_put_def uw_def rest_def numeral_2_eq_2)
  have lenD: "length (parity_bits ?D) = 11 * ((8 * n + 11) div 12)"
    using assms(2) by (simp add: length_parity_bits)
  have w0: "wrote (uw @ take n input) cap []
      \<lparr>wbuf = (uw @ take n input) @ rest, wpos = length uw + n, wbyte = 0, wbits = 0\<rparr>"
    using wrote_Nil [of "uw @ take n input" rest] assms(2) cap(2) by simp
  have "11 * (n * 8 div 12) div 8 \<le> cap"
    unfolding cap_def by (intro div_le_mono) (simp add: div_le_mono trans_le_add1)
  from enc_loop [OF w0 assms(2) le_refl this] obtain s where s:
    "fold_opt (enc_round input) [0..<n * 8] \<lparr>ingolay = 0, ningolay = 0, parity =
      \<lparr>wbuf = (uw @ take n input) @ rest, wpos = length uw + n, wbyte = 0, wbits = 0\<rparr>\<rparr> = Some s"
    "enc_inv (uw @ take n input) cap ?D s"
    by (auto simp: byte_bits_take mult.commute)
  have "length (parity_bits ?D) div 8 \<le> cap"
    unfolding lenD cap_def by (intro div_le_mono) simp
  from enc_last_inv [OF s(2) this] obtain w where w: "enc_last s = Some w"
    "wrote (uw @ take n input) cap (parity_bits ?D) w" by blast
  have "(length (parity_bits ?D) + 7) div 8 = cap" by (simp add: lenD cap_def)
  from enc_flush_wrote [OF w(2) this] obtain w' where "enc_flush w = Some w'"
    "wbuf w' = (uw @ take n input) @ pack_bits (parity_bits ?D)"
    "wpos w' = length (uw @ take n input) + cap" by blast
  with put s(1) w(1) assms show ?thesis
    by (simp add: plain_body_def num_tx_eq cap_def uw_def)
qed

subsection \<open>Mixing and unmixing\<close>

definition mix :: "nat \<Rightarrow> u8 list \<Rightarrow> u8 list option" where
  "mix nb body = Option.bind (interleave body nb False) (\<lambda>b. scramble b nb)"

definition unmix :: "nat \<Rightarrow> u8 list \<Rightarrow> u8 list option" where
  "unmix nb body = Option.bind (scramble body nb) (\<lambda>b. interleave b nb True)"

lemma mix_runs:
  assumes "1 \<le> nb" "nb \<le> 96" "nb \<le> length body"
  shows "\<exists>m. mix nb body = Some m \<and> length m = length body \<and> unmix nb m = Some body"
proof -
  obtain b where b: "interleave body nb False = Some b" "length b = length body"
    using interleave_eq(1) [OF assms] by blast
  obtain m where m: "scramble b nb = Some m" "length m = length b"
    using scramble_eq [of nb b] assms(3) b(2) by auto
  have "scramble m nb = Some b" using scramble_involution [OF _ m(1)] assms(3) b(2) by simp
  moreover have "interleave b nb True = Some body" by (rule interleave_round_trip [OF assms b(1)])
  ultimately show ?thesis using b m by (simp add: mix_def unmix_def)
qed

lemma unmix_runs:
  assumes "1 \<le> nb" "nb \<le> 96" "nb \<le> length body"
  shows "\<exists>u. unmix nb body = Some u \<and> length u = length body"
proof -
  obtain b where "scramble body nb = Some b" "length b = length body"
    using scramble_eq [OF assms(3)] by blast
  moreover from this obtain u where "interleave b nb True = Some u" "length u = length b"
    using interleave_eq(2) [of nb b] assms by auto
  ultimately show ?thesis by (simp add: unmix_def)
qed

lemma after_uw_eq: "length u = 2 \<Longrightarrow> after_uw f (u @ body) = map_option ((@) u) (f body)"
  by (simp add: after_uw_def uw_def numeral_2_eq_2)

lemma encode_eq_mix:
  assumes "length outbuf = horus_l2_get_num_tx_data_bytes n" "n \<le> length input"
    and "0 < n" "body_bytes n \<le> 96"
  shows "\<exists>m. mix (body_bytes n) (plain_body (take n input)) = Some m \<and>
    horus_l2_encode_tx_packet outbuf input n = Some (2 + body_bytes n, uw @ m)"
proof -
  let ?B = "plain_body (take n input)"
  have len: "length ?B = body_bytes n" using assms(2) by (simp add: length_plain_body)
  have uw2: "length uw = 2" by (simp add: uw_def)
  have "1 \<le> body_bytes n" using assms(3) by (simp add: body_bytes_def)
  with mix_runs [of "body_bytes n" ?B] assms(4) len obtain m where m: "mix (body_bytes n) ?B = Some m" by auto
  then obtain b where b: "interleave ?B (body_bytes n) False = Some b" "scramble b (body_bytes n) = Some m"
    by (auto simp: mix_def bind_eq_Some_conv)
  have mixed: "after_uw (\<lambda>b. interleave b (body_bytes n) False) (uw @ ?B) = Some (uw @ b)"
    "after_uw (\<lambda>b. scramble b (body_bytes n)) (uw @ b) = Some (uw @ m)"
    using b uw2 by (simp_all add: after_uw_eq)
  from encode_body [OF assms(1,2)] obtain o1 o2 s w0 w where
    "mem_put outbuf 0 uw = Some o1" "mem_put o1 (length uw) (take n input) = Some o2"
    "fold_opt (enc_round input) [0..<n * 8] \<lparr>ingolay = 0, ningolay = 0,
         parity = \<lparr>wbuf = o2, wpos = length uw + n, wbyte = 0, wbits = 0\<rparr>\<rparr> = Some s"
    "enc_last s = Some w0" "enc_flush w0 = Some w" "wbuf w = uw @ ?B"
    "wpos w = horus_l2_get_num_tx_data_bytes n"
    by (auto simp: bind_eq_Some_conv)
  then have "horus_l2_encode_tx_packet outbuf input n = Some (2 + body_bytes n, uw @ m)"
    using assms(2) mixed by (simp add: horus_l2_encode_tx_packet_def num_tx_body)
  with m show ?thesis by blast
qed

subsection \<open>Correctness of the decoder\<close>

lemma bits_word_append:
  "(bits_word (xs @ ys) :: 'a::len word) = push_bit (length ys) (bits_word xs) + bits_word ys"
  by (simp add: bits_word_def bits_val_append push_bit_eq_mult mult.commute)

lemma codeword_bits:
  assumes "length g \<le> 12"
  shows "codeword (bits_word g) = bits_word (g @ parity_of g)"
proof -
  have g: "below_bit 12 (bits_word g :: i32)" using assms by (rule below_bits_word)
  then have "below_bit 11 (syn (push_bit 11 (bits_word g)))" by (intro syn_below below_push)
  then have "bits_word (parity_of g) = syn (push_bit 11 (bits_word g))"
    unfolding parity_of_def
    by (intro bit_word_eqI, rename_tac k, case_tac "k < 11")
      (auto simp: bit_bits_word nth_word_bits below_bit_def)
  with encoding_entry [OF g] show ?thesis by (simp add: bits_word_append)
qed

definition reader_at :: "u8 list \<Rightarrow> nat \<Rightarrow> nat \<Rightarrow> parity_reader \<Rightarrow> bool" where
  "reader_at rx base q r \<longleftrightarrow> base + q div 8 < length rx \<and>
     r = \<lparr>pin = base + q div 8 + 1, paritybyte = ucast (rx ! (base + q div 8)), nparitybits = q\<rparr>"

lemma read_parity_round_eq:
  assumes "reader_at rx base q r" "base + (q + 1) div 8 < length rx"
  shows "\<exists>r'. read_parity_round rx i (acc, r) =
      Some (let acc' = acc OR of_bool (byte_bits (drop base rx) ! q) in
            if i \<noteq> 10 then push_bit 1 acc' else acc', r') \<and> reader_at rx base (q + 1) r'"
proof -
  have q: "q < 8 * length (drop base rx)" using assms(1) by (auto simp: reader_at_def)
  have "base \<le> length rx" using assms(1) by (auto simp: reader_at_def)
  then have bit: "signed_drop_bit (7 - q mod 8) (ucast (rx ! (base + q div 8)) :: i32) AND 1 =
      of_bool (byte_bits (drop base rx) ! q)"
    using inbit_eq [OF q] by simp
  have r: "r = \<lparr>pin = base + q div 8 + 1, paritybyte = ucast (rx ! (base + q div 8)), nparitybits = q\<rparr>"
    using assms(1) by (simp add: reader_at_def)
  show ?thesis
  proof (cases "(q + 1) mod 8 = 0")
    case True
    then have d: "base + (q + 1) div 8 = base + q div 8 + 1" by (simp add: div_Suc)
    have get: "arr_get rx (base + q div 8 + 1) = Some (rx ! (base + q div 8 + 1))"
      by (rule arr_get_in) (use assms(2) d in simp)
    show ?thesis
      unfolding r read_parity_round_def reader_at_def d
      by (simp only: prod.case parity_reader.simps Let_def bit True get option.case if_True)
        (use assms(2) d in simp)
  next
    case False
    then have d: "(q + 1) div 8 = q div 8" by (simp add: div_Suc)
    show ?thesis
      unfolding r read_parity_round_def reader_at_def d
      by (simp only: prod.case parity_reader.simps Let_def bit False if_False)
        (use assms(1) in \<open>simp add: reader_at_def\<close>)
  qed
qed

lemma read_parity_eq:
  assumes "reader_at rx base q r" "base + (q + 11) div 8 < length rx"
    and "acc = push_bit 1 (bits_word g)"
  shows "\<exists>r'. read_parity rx acc r =
      Some (bits_word (g @ take 11 (drop q (byte_bits (drop base rx)))), r') \<and> reader_at rx base (q + 11) r'"
proof -
  let ?P = "byte_bits (drop base rx)"
  have len: "q + 11 \<le> length ?P"
  proof -
    have "(q + 11) div 8 < length rx - base" using assms(2) by linarith
    then show ?thesis by (simp add: div_less_iff_less_mult)
  qed
  define val where "val i = (if i = 11 then bits_word (g @ take 11 (drop q ?P))
      else push_bit 1 (bits_word (g @ take i (drop q ?P))) :: i32)" for i
  have "\<exists>s'. fold_opt (read_parity_round rx) [0..<11] (acc, r) = Some s' \<and>
      (fst s' = val (length [0..<11]) \<and> reader_at rx base (q + length [0..<11]) (snd s'))"
  proof (rule fold_opt_invariant [where P = "\<lambda>k s. fst s = val k \<and> reader_at rx base (q + k) (snd s)"])
    show "fst (acc, r) = val 0 \<and> reader_at rx base (q + 0) (snd (acc, r))"
      using assms by (simp add: val_def)
  next
    fix k s assume k: "k < length [0..<11::nat]" and s: "fst s = val k \<and> reader_at rx base (q + k) (snd s)"
    have "(q + k + 1) div 8 \<le> (q + 11) div 8" using k by (intro div_le_mono) simp
    then have "base + (q + k + 1) div 8 < length rx" using assms(2) by linarith
    from read_parity_round_eq [OF conjunct2 [OF s] this, of k "fst s"] obtain r' where
      r': "read_parity_round rx k s = Some (let acc' = fst s OR of_bool (?P ! (q + k)) in
            if k \<noteq> 10 then push_bit 1 acc' else acc', r')" "reader_at rx base (q + k + 1) r'" by auto
    have "take (Suc k) (drop q ?P) = take k (drop q ?P) @ [?P ! (q + k)]"
      using k len by (simp add: take_Suc_conv_app_nth)
    then have "fst s OR of_bool (?P ! (q + k)) = bits_word (g @ take (Suc k) (drop q ?P))"
      using s k by (simp add: val_def bits_word_snoc flip: append_assoc)
    with r' k show "\<exists>s'. read_parity_round rx ([0..<11] ! k) s = Some s' \<and>
        (fst s' = val (Suc k) \<and> reader_at rx base (q + Suc k) (snd s'))"
      by (simp add: val_def Let_def)
  qed
  then show ?thesis by (auto simp: read_parity_def val_def)
qed

lemma outdata_eq:
  assumes "length g \<le> 12"
  shows "signed_drop_bit 11 (codeword (bits_word g)) = bits_word g"
proof -
  have g: "below_bit 12 (bits_word g :: i32)" using assms by (intro below_bits_word) simp
  then have "signed_drop_bit 11 (codeword (bits_word g)) = drop_bit 11 (codeword (bits_word g))"
    using codeword_below [OF g]
    by (intro bit_word_eqI) (auto simp: bit_signed_drop_bit_iff bit_drop_bit_eq below_bit_def)
  with codeword_info [OF g] show ?thesis by simp
qed

lemma nth_groups: "i < length bs div k \<Longrightarrow> groups k bs ! i = take k (drop (k * i) bs)"
  by (simp add: groups_def)

lemma group_complete:
  assumes "(m + 1) mod k = 0" "m < length bs" "0 < k"
  shows "left_over k (take m bs) @ [bs ! m] = take k (drop (k * (m div k)) bs)"
proof -
  have m: "m = k * (m div k) + (k - 1)"
    using assms(1,3) by (metis Suc_eq_plus1 diff_Suc_1 mod_Suc mult_div_mod_eq nat.distinct(1))
  have "take k (drop (k * (m div k)) bs) = take (k - 1) (drop (k * (m div k)) bs) @ [drop (k * (m div k)) bs ! (k - 1)]"
    using assms(2,3) m take_Suc_conv_app_nth [of "k - 1" "drop (k * (m div k)) bs"] by simp
  moreover have "left_over k (take m bs) = take (k - 1) (drop (k * (m div k)) bs)"
  proof -
    have "m - k * (m div k) = k - 1" by (subst (1) m) (rule add_diff_cancel_left')
    then show ?thesis using assms(2) by (simp add: left_over_def drop_take)
  qed
  ultimately show ?thesis using m assms(2) by simp
qed

text \<open>The received code word of group \<open>i\<close>.\<close>

definition rx_word :: "bool list \<Rightarrow> bool list \<Rightarrow> nat \<Rightarrow> i32" where
  "rx_word RD PB i = bits_word (code_groups RD ! i @ take 11 (drop (11 * i) PB))"

definition dec_inv :: "u8 list \<Rightarrow> nat \<Rightarrow> bool list \<Rightarrow> nat \<Rightarrow> dec_state \<Rightarrow> bool" where
  "dec_inv rx n D m s \<longleftrightarrow>
     d_ningolay s = m \<and>
     d_ingolay s = push_bit 1 (bits_word (left_over 12 (take m (byte_bits (take n (drop 2 rx)))))) \<and>
     reader_at rx (2 + n) (11 * (m div 12)) (reader s) \<and>
     wrote [] n (take (12 * (m div 12)) D) (payload_out s)"

lemma dec_round_inv:
  fixes rx :: "u8 list"
  defines "RD \<equiv> \<lambda>n. byte_bits (take n (drop 2 rx))" and "PB \<equiv> \<lambda>n. byte_bits (drop (2 + n) rx)"
  assumes inv: "dec_inv rx n D m s" and m: "m < 8 * n" and D: "length D = 8 * n"
    and rx: "2 + n + 11 * ((m + 1) div 12) div 8 < length rx"
    and word: "(m + 1) mod 12 = 0 \<Longrightarrow> golay23_decode st (rx_word (RD n) (PB n) (m div 12)) =
      Some (codeword (bits_word (groups 12 D ! (m div 12))))"
  shows "\<exists>s'. dec_round st rx m s = Some s' \<and> dec_inv rx n D (m + 1) s'"
proof -
  have len: "length (take n (drop 2 rx)) = n" using rx by simp
  then have lenRD: "length (RD n) = 8 * n" by (simp add: RD_def)
  have byte: "arr_get rx (m div 8 + length uw) = Some (take n (drop 2 rx) ! (m div 8))"
    using rx m len by (simp add: uw_def less_mult_imp_div_less mult.commute)
  have inb: "signed_drop_bit (7 - m mod 8) (ucast (take n (drop 2 rx) ! (m div 8)) :: i32) AND 1 =
      of_bool (RD n ! m)"
    unfolding RD_def by (rule inbit_eq) (use m len in simp)
  define G :: i32 where "G = bits_word (left_over 12 (take m (RD n)) @ [RD n ! m])"
  have golay: "d_ingolay s OR of_bool (RD n ! m) = G"
    using inv by (simp add: dec_inv_def G_def RD_def bits_word_snoc)
  have dn: "d_ningolay s = m" using inv by (simp add: dec_inv_def)
  have takeSuc: "take (m + 1) (RD n) = take m (RD n) @ [RD n ! m]"
    using m lenRD by (simp add: take_Suc_conv_app_nth)
  have lm: "length (take m (RD n)) = m" using m lenRD by simp
  show ?thesis
  proof (cases "(m + 1) mod 12 = 0")
    case False
    then have d: "(m + 1) div 12 = m div 12" by (simp add: div_Suc)
    have "dec_round st rx m s = Some (s\<lparr>d_ingolay := push_bit 1 G, d_ningolay := m + 1\<rparr>)"
      unfolding dec_round_def byte option.case Let_def inb golay dn using False by (simp only: if_False)
    moreover have "left_over 12 (take (m + 1) (RD n)) = left_over 12 (take m (RD n)) @ [RD n ! m]"
      unfolding takeSuc left_over_snoc lm using False by simp
    ultimately show ?thesis
      using inv d by (simp add: dec_inv_def G_def RD_def)
  next
    case True
    define i where "i = m div 12"
    have d: "(m + 1) div 12 = i + 1" using True by (simp add: div_Suc i_def)
    have i: "i < 8 * n div 12" "i < length (RD n) div 12" "i < length D div 12"
    proof -
      have "(m + 1) div 12 \<le> 8 * n div 12" using m by (intro div_le_mono) simp
      then show "i < 8 * n div 12" "i < length (RD n) div 12" "i < length D div 12"
        using d lenRD D by simp_all
    qed
    have g: "left_over 12 (take m (RD n)) @ [RD n ! m] = groups 12 (RD n) ! i"
      using group_complete [OF True, of "RD n"] m lenRD i(2) by (simp add: nth_groups i_def)
    have cg: "code_groups (RD n) ! i = groups 12 (RD n) ! i"
      using i(2) by (simp add: code_groups_def nth_append)
    have "2 + n + (11 * i + 11) div 8 < length rx" using rx d by simp
    note bound = this
    have rd: "reader_at rx (2 + n) (11 * i) (reader s)" using inv by (simp add: dec_inv_def i_def)
    have Gg: "G = bits_word (groups 12 (RD n) ! i)" by (simp only: G_def g)
    have "rx_word (RD n) (PB n) i = bits_word (groups 12 (RD n) ! i @ take 11 (drop (11 * i) (PB n)))"
      by (simp only: rx_word_def cg)
    with read_parity_eq [OF rd bound refl, of "groups 12 (RD n) ! i"] obtain r where r:
      "read_parity rx (push_bit 1 G) (reader s) = Some (rx_word (RD n) (PB n) i, r)"
      "reader_at rx (2 + n) (11 * i + 11) r"
      unfolding Gg PB_def by metis
    have gD: "length (groups 12 D ! i) = 12" "groups 12 D ! i = take 12 (drop (12 * i) D)"
      using i(3) D by (simp_all add: nth_groups)
    have "12 * i + 12 \<le> length D" using i(3) by (simp add: less_eq_div_iff_mult_less_eq flip: Suc_le_eq)
    have split: "take (12 * (i + 1)) D = take (12 * i) D @ groups 12 D ! i"
      unfolding gD(2) by (simp add: take_add add.commute [of 12])
    have wr: "wrote [] n (take (12 * i) D) (payload_out s)" using inv by (simp add: dec_inv_def i_def)
    have "length (take (12 * i) D @ groups 12 D ! i) div 8 \<le> n"
      using \<open>12 * i + 12 \<le> length D\<close> D gD(1) by simp
    moreover have "signed_drop_bit (11 - k) (bits_word (groups 12 D ! i) :: i32) AND 1 = of_bool (groups 12 D ! i ! k)"
      if "k < length (groups 12 D ! i)" for k
      using that gD(1) by (auto simp: write_bit_int bit_bits_word)
    ultimately obtain w where w: "fold_opt (\<lambda>k. write_bit (signed_drop_bit (11 - k) (bits_word (groups 12 D ! i)) AND 1))
        [0..<12] (payload_out s) = Some w" "wrote [] n (take (12 * (i + 1)) D) w"
      using write_bits_wrote [OF wr, of "groups 12 D ! i"
          "\<lambda>k. signed_drop_bit (11 - k) (bits_word (groups 12 D ! i)) AND 1"]
      unfolding gD(1) split by blast
    have dec: "golay23_decode st (rx_word (RD n) (PB n) i) = Some (codeword (bits_word (groups 12 D ! i)))"
      using word [OF True] by (simp add: i_def)
    have "dec_round st rx m s = Some \<lparr>d_ingolay = 0, d_ningolay = m + 1, reader = r, payload_out = w\<rparr>"
      unfolding dec_round_def byte option.case Let_def inb golay dn
      by (simp only: True simp_thms if_True r(1) option.case prod.case dec outdata_eq [OF eq_refl [OF gD(1)]] w(1))
    moreover have "left_over 12 (take (m + 1) (RD n)) = []"
      unfolding takeSuc left_over_snoc lm using True by simp
    ultimately show ?thesis
      using r(2) w(2) d by (simp add: dec_inv_def RD_def algebra_simps)
  qed
qed

text \<open>All groups decode to the code words of \<open>D\<close>.\<close>

definition all_decode :: "golay_state \<Rightarrow> bool list \<Rightarrow> bool list \<Rightarrow> bool list \<Rightarrow> bool" where
  "all_decode st D RD PB \<longleftrightarrow> (\<forall>i < length (code_groups D).
     golay23_decode st (rx_word RD PB i) = Some (codeword (bits_word (code_groups D ! i))))"

lemma dec_loop:
  fixes rx :: "u8 list"
  assumes "dec_inv rx n D 0 s0" "length D = 8 * n"
    and "2 + n + 11 * length (code_groups D) div 8 < length rx"
    and "all_decode st D (byte_bits (take n (drop 2 rx))) (byte_bits (drop (2 + n) rx))" "m \<le> n * 8"
  shows "\<exists>s. fold_opt (dec_round st rx) [0..<m] s0 = Some s \<and> dec_inv rx n D m s"
  using assms(5)
proof (induction m)
  case 0
  then show ?case using assms(1) by simp
next
  case (Suc m)
  then obtain s where s: "fold_opt (dec_round st rx) [0..<m] s0 = Some s" "dec_inv rx n D m s" by auto
  have m: "m < 8 * n" using Suc.prems by simp
  have le: "(m + 1) div 12 \<le> length D div 12" using m assms(2) by (intro div_le_mono) simp
  moreover have "length D div 12 \<le> length (code_groups D)" by (simp add: code_groups_def)
  ultimately have "11 * ((m + 1) div 12) div 8 \<le> 11 * length (code_groups D) div 8"
    by (intro div_le_mono mult_le_mono2) (rule order_trans)
  then have rx: "2 + n + 11 * ((m + 1) div 12) div 8 < length rx" using assms(3) by linarith
  have word: "golay23_decode st (rx_word (byte_bits (take n (drop 2 rx))) (byte_bits (drop (2 + n) rx)) (m div 12)) =
      Some (codeword (bits_word (groups 12 D ! (m div 12))))" if "(m + 1) mod 12 = 0"
  proof -
    have "m div 12 < length D div 12" using that le by (simp add: div_Suc)
    then have "m div 12 < length (code_groups D)" "code_groups D ! (m div 12) = groups 12 D ! (m div 12)"
      by (simp_all add: code_groups_def nth_append)
    with assms(4) show ?thesis by (simp add: all_decode_def)
  qed
  obtain s' where "dec_round st rx m s = Some s'" "dec_inv rx n D (m + 1) s'"
    using dec_round_inv [OF s(2) m assms(2) rx word] by blast
  with s(1) show ?case by (simp add: fold_opt_append)
qed

lemma byte_bits_drop: "drop (8 * i) (byte_bits xs) = byte_bits (drop i xs)"
proof (cases "i \<le> length xs")
  case True
  have "drop (8 * i) (byte_bits (take i xs @ drop i xs)) = byte_bits (drop i xs)"
    unfolding byte_bits_append using True by simp
  then show ?thesis by simp
qed simp

lemma full_bytes_byte_bits: "full_bytes (byte_bits xs) = xs"
proof (rule nth_equalityI)
  fix i assume "i < length (full_bytes (byte_bits xs))"
  then have i: "i < length xs" by simp
  then have "take 8 (byte_bits (drop i xs)) = word_bits 8 (xs ! i)"
    by (simp add: byte_bits_def flip: Cons_nth_drop_Suc)
  then show "full_bytes (byte_bits xs) ! i = xs ! i"
    using i by (simp add: full_bytes_def nth_groups byte_bits_drop bits_word_word_bits)
qed simp

lemma dec_last_eq:
  fixes rx :: "u8 list"
  defines "RD \<equiv> \<lambda>n. byte_bits (take n (drop 2 rx))" and "PB \<equiv> \<lambda>n. byte_bits (drop (2 + n) rx)"
  assumes inv: "dec_inv rx n D (n * 8) s" and D: "D = byte_bits payload" "length payload = n"
    and rx: "2 + n + 11 * length (code_groups D) div 8 < length rx"
    and dec: "all_decode st D (RD n) (PB n)"
  shows "\<exists>w. dec_last st rx (n * 8) s = Some w \<and> wbuf w = payload \<and> wpos w = n"
proof -
  have fin: "wbuf w = payload \<and> wpos w = n" if "wrote [] n D w" for w
    using that D by (auto simp: wrote_def full_bytes_byte_bits)
  have lenD: "length D = n * 8" using D by simp
  have lenRD: "length (RD n) = n * 8" using rx by (simp add: RD_def)
  have dn: "d_ningolay s = n * 8" using inv by (simp add: dec_inv_def)
  let ?q = "n * 8 div 12"
  show ?thesis
  proof (cases "n * 8 mod 12 = 0")
    case True
    then have "12 * ?q = length D" using lenD by (metis add_0_right mult_div_mod_eq)
    with inv have "wrote [] n D (payload_out s)" by (simp add: dec_inv_def)
    with True fin show ?thesis by (simp add: dec_last_def dn)
  next
    case False
    define lo where "lo = left_over 12 D"
    define lr where "lr = left_over 12 (RD n)"
    have llo: "length lo = n * 8 mod 12" "length lr = n * 8 mod 12" using lenD lenRD by (simp_all add: lo_def lr_def)
    have lo12: "length lo < 12" "length lr < 12" by (simp_all add: lo_def lr_def)
    have cg: "length (code_groups D) = ?q + 1" "code_groups D ! ?q = lo @ [False]"
      "code_groups (RD n) ! ?q = lr @ [False]"
      using False lenD lenRD by (simp_all add: code_groups_def lo_def lr_def nth_append)
    have bound: "2 + n + (11 * ?q + 11) div 8 < length rx" using rx cg(1) by simp
    have rd: "reader_at rx (2 + n) (11 * ?q) (reader s)" using inv by (simp add: dec_inv_def)
    have acc0: "(0 :: i32) = push_bit 1 (bits_word [])" by simp
    obtain r where r: "read_parity rx 0 (reader s) = Some (bits_word (take 11 (drop (11 * ?q) (PB n))), r)"
      using read_parity_eq [OF rd bound acc0] by (auto simp: PB_def)
    have "11 * ?q + 11 \<le> length (PB n)"
    proof -
      have "(11 * ?q + 11) div 8 < length (drop (2 + n) rx)" using bound by simp
      then have "11 * ?q + 11 < length (drop (2 + n) rx) * 8"
        by (subst (asm) div_less_iff_less_mult) simp_all
      then show ?thesis by (simp add: PB_def mult.commute)
    qed
    then have lp: "length (take 11 (drop (11 * ?q) (PB n))) = 11" by simp
    have ing: "signed_drop_bit 1 (d_ingolay s) = bits_word lr"
      using inv lo12(2) lenRD shift_back [OF below_bits_word, of lr]
      by (simp add: dec_inv_def lr_def RD_def mult.commute)
    have "push_bit 12 (bits_word lr :: i32) = push_bit 11 (bits_word (lr @ [False]))"
      by (simp add: push_bits_word replicate_append_same numeral_eq_Suc)
    then have cw: "push_bit 12 (bits_word lr) + bits_word (take 11 (drop (11 * ?q) (PB n))) = rx_word (RD n) (PB n) ?q"
      unfolding rx_word_def cg(3) by (simp only: bits_word_append [of "lr @ [False]"] lp)
    have dec1: "golay23_decode st (rx_word (RD n) (PB n) ?q) = Some (codeword (bits_word (lo @ [False])))"
      using dec cg(1,2) by (simp add: all_decode_def)
    have out: "signed_drop_bit 11 (codeword (bits_word (lo @ [False]))) = bits_word (lo @ [False])"
      by (rule outdata_eq) (use lo12 in simp)
    have split: "take (12 * ?q) D @ lo = D" by (simp add: lo_def left_over_def lenD)
    have wr: "wrote [] n (take (12 * ?q) D) (payload_out s)" using inv by (simp add: dec_inv_def)
    have togo: "n * 8 - wbits (payload_out s) = length lo"
    proof -
      have "12 * ?q \<le> length D" unfolding lenD by (rule times_div_less_eq_dividend)
      then have "wbits (payload_out s) = 12 * ?q" using wr by (simp only: wrote_def length_take min_absorb2)
      then show ?thesis unfolding llo(1) by (simp only: minus_mult_div_eq_mod)
    qed
    have "signed_drop_bit (length lo - k) (bits_word (lo @ [False]) :: i32) AND 1 = of_bool (lo ! k)"
      if "k < length lo" for k
      using that lo12 by (auto simp: write_bit_int bit_bits_word nth_append)
    moreover have "length (take (12 * ?q) D @ lo) div 8 \<le> n" unfolding split lenD by simp
    ultimately obtain w where w: "fold_opt (\<lambda>k. write_bit (signed_drop_bit (length lo - k) (bits_word (lo @ [False])) AND 1))
        [0..<length lo] (payload_out s) = Some w" "wrote [] n D w"
      using write_bits_wrote [OF wr, of lo "\<lambda>k. signed_drop_bit (length lo - k) (bits_word (lo @ [False])) AND 1"]
      unfolding split by blast
    have "dec_last st rx (n * 8) s = Some w"
      unfolding dec_last_def dn Let_def
      by (simp only: False not_False_eq_True if_True r option.case prod.case ing cw dec1 out togo w(1))
    with fin [OF w(2)] show ?thesis by blast
  qed
qed

lemma xor_cancel: "c XOR (r XOR c) = (r :: 'a::len word)"
  by (rule bit_word_eqI) (auto simp: bit_xor_iff)

lemma decode_eq_unmix:
  fixes rx :: "u8 list"
  assumes st: "tables_ok st" and out: "length outbuf = n" "length payload = n" "0 < n" "body_bytes n \<le> 96"
    and rx: "2 + body_bytes n \<le> length rx" "2 + n + 11 * ((8 * n + 11) div 12) div 8 < length rx"
    and u: "unmix (body_bytes n) (drop 2 rx) = Some u"
    and near: "\<And>i. i < (8 * n + 11) div 12 \<Longrightarrow>
      correctable (rx_word (byte_bits (take n u)) (byte_bits (drop n u)) i XOR
        codeword (bits_word (code_groups (byte_bits payload) ! i)))"
  shows "horus_l2_decode_rx_packet st outbuf rx n = Some (payload, take 2 rx @ u)"
proof -
  let ?D = "byte_bits payload" and ?rx = "take 2 rx @ u"
  have uw2: "length uw = 2" by (simp add: uw_def)
  have take2: "length (take 2 rx) = 2" using rx(1) by simp
  have nb: "1 \<le> body_bytes n" using out(3) by (simp add: body_bytes_def)
  have lu: "length u = length (drop 2 rx)"
    using unmix_runs [OF nb out(4), of "drop 2 rx"] rx(1) u by auto
  obtain b where b: "scramble (drop 2 rx) (body_bytes n) = Some b" "interleave b (body_bytes n) True = Some u"
    using u by (auto simp: unmix_def bind_eq_Some_conv)
  have step1: "after_uw (\<lambda>b. scramble b (body_bytes n)) rx = Some (take 2 rx @ b)"
    using after_uw_eq [OF take2, of _ "drop 2 rx"] b(1) by simp
  have step2: "after_uw (\<lambda>b. interleave b (body_bytes n) True) (take 2 rx @ b) = Some ?rx"
    using after_uw_eq [OF take2] b(2) by simp
  have parts: "take n (drop 2 ?rx) = take n u" "drop (2 + n) ?rx = drop n u" "length ?rx = length rx"
    using take2 rx(1) lu by simp_all
  have lcg: "length (code_groups ?D) = (8 * n + 11) div 12" using out(2) by (simp add: length_code_groups)
  have small: "below_bit 12 (bits_word (code_groups ?D ! i) :: i32)" if "i < length (code_groups ?D)" for i
  proof (rule below_bits_word)
    show "length (code_groups ?D ! i) \<le> 12"
      using that left_over_less [of ?D] by (auto simp: code_groups_def nth_append nth_groups split: if_splits)
  qed
  have dec: "all_decode st ?D (byte_bits (take n (drop 2 ?rx))) (byte_bits (drop (2 + n) ?rx))"
    unfolding parts all_decode_def
  proof (intro allI impI)
    fix i assume i: "i < length (code_groups ?D)"
    let ?r = "rx_word (byte_bits (take n u)) (byte_bits (drop n u)) i"
    let ?c = "codeword (bits_word (code_groups ?D ! i))"
    have "golay23_decode st (?c XOR (?r XOR ?c)) = Some ?c"
      by (rule decode_codeword [OF st small [OF i] near]) (use i lcg in simp)
    then show "golay23_decode st ?r = Some ?c" by (simp only: xor_cancel)
  qed
  have bound: "2 + n + 11 * length (code_groups ?D) div 8 < length ?rx"
    unfolding parts lcg by (rule rx(2))
  have start: "2 + n < length ?rx" using bound by linarith
  define s0 where "s0 = \<lparr>d_ingolay = 0, d_ningolay = 0,
         reader = \<lparr>pin = length uw + n + 1, paritybyte = ucast (?rx ! (length uw + n)), nparitybits = 0\<rparr>,
         payload_out = \<lparr>wbuf = outbuf, wpos = 0, wbyte = 0, wbits = 0\<rparr>\<rparr>"
  have "dec_inv ?rx n ?D 0 s0"
    using start wrote_Nil [of "[]" outbuf] out(1) by (simp add: dec_inv_def s0_def reader_at_def uw2)
  then obtain s where s: "fold_opt (dec_round st ?rx) [0..<n * 8] s0 = Some s" "dec_inv ?rx n ?D (n * 8) s"
    using dec_loop [OF _ _ bound dec le_refl] out(2) by (auto simp: mult.commute)
  from dec_last_eq [OF s(2) refl out(2) bound dec] obtain w where
    w: "dec_last st ?rx (n * 8) s = Some w" "wbuf w = payload" "wpos w = n" by blast
  have "arr_get ?rx (length uw + n) = Some (?rx ! (length uw + n))"
    by (rule arr_get_in) (use start uw2 in simp)
  then show ?thesis
    unfolding horus_l2_decode_rx_packet_def Let_def num_tx_body diff_add_inverse
    using s(1) w by (simp add: s0_def step1 step2)
qed

end
