(* ===== verification/Horus.thy ===== *)
theory Horus
  imports Horus_L2
begin

text \<open>
  The Horus v2 interface of \<open>lib/f_core/radio/protocols/horus/horus.c\<close> and \<open>horus.h\<close>: the
  packed packet, its CRC, \<open>horusv2_encode\<close>, \<open>horusv2_decode\<close> and
  \<open>horusv2_checksum_verify\<close>.

  The two \<open>float\<close> fields are their four bytes, which is all these functions use of them. The
  packet is stored with its least significant byte first, as on the ARM and x86 targets.
\<close>

subsection \<open>The packet\<close>

record horus_packet_v2 =
  payload_id :: u16
  counter :: u16
  hours :: u8
  minutes :: u8
  seconds :: u8
  latitude :: u32
  longitude :: u32
  altitude :: u16
  speed :: u8
  sats :: u8
  temp :: u8
  battery_voltage :: u8
  custom_data :: "u8 list"
  checksum :: u16

definition le16 :: "u16 \<Rightarrow> u8 list" where
  "le16 w = [ucast w, ucast (drop_bit 8 w)]"

definition le32 :: "u32 \<Rightarrow> u8 list" where
  "le32 w = [ucast w, ucast (drop_bit 8 w), ucast (drop_bit 16 w), ucast (drop_bit 24 w)]"

definition of_le16 :: "u8 list \<Rightarrow> u16" where
  "of_le16 bs = ucast (bs ! 0) OR push_bit 8 (ucast (bs ! 1))"

definition of_le32 :: "u8 list \<Rightarrow> u32" where
  "of_le32 bs = ucast (bs ! 0) OR push_bit 8 (ucast (bs ! 1)) OR push_bit 16 (ucast (bs ! 2))
     OR push_bit 24 (ucast (bs ! 3))"

text \<open>The bytes of a packet, and the packet at a byte address.\<close>

definition packet_bytes :: "horus_packet_v2 \<Rightarrow> u8 list" where
  "packet_bytes p =
     le16 (payload_id p) @ le16 (counter p) @ [hours p, minutes p, seconds p] @
     le32 (latitude p) @ le32 (longitude p) @ le16 (altitude p) @
     [speed p, sats p, temp p, battery_voltage p] @ custom_data p @ le16 (checksum p)"

definition packet_of_bytes :: "u8 list \<Rightarrow> horus_packet_v2" where
  "packet_of_bytes bs =
     \<lparr>payload_id = of_le16 bs, counter = of_le16 (drop 2 bs),
      hours = bs ! 4, minutes = bs ! 5, seconds = bs ! 6,
      latitude = of_le32 (drop 7 bs), longitude = of_le32 (drop 11 bs), altitude = of_le16 (drop 15 bs),
      speed = bs ! 17, sats = bs ! 18, temp = bs ! 19, battery_voltage = bs ! 20,
      custom_data = take 9 (drop 21 bs), checksum = of_le16 (drop 30 bs)\<rparr>"

definition HORUS_ENCODED_BUFFER_SIZE :: nat where
  "HORUS_ENCODED_BUFFER_SIZE = 65"

definition HORUS_PACKET_SIZE :: nat where
  "HORUS_PACKET_SIZE = 32"

definition packet_ok :: "horus_packet_v2 \<Rightarrow> bool" where
  "packet_ok p \<longleftrightarrow> length (custom_data p) = 9"

lemma of_le16_le16 [simp]: "of_le16 (ucast w # ucast (drop_bit 8 w) # bs) = w"
  by (rule bit_word_eqI) (auto simp: of_le16_def bit_simps)

lemma join_le32:
  "ucast (ucast w :: u8) OR push_bit 8 (ucast (ucast (drop_bit 8 w) :: u8)) OR
     push_bit 16 (ucast (ucast (drop_bit 16 w) :: u8)) OR push_bit 24 (ucast (ucast (drop_bit 24 w) :: u8)) = (w :: u32)"
  (is "?l = w")
proof (rule bit_word_eqI)
  fix n assume "n < LENGTH(32)"
  then have n: "n < 32" by simp
  consider "n < 8" | "n = (n - 8) + 8" "n - 8 < 8" | "n = (n - 16) + 16" "n - 16 < 8"
    | "n = (n - 24) + 24" "n - 24 < 8"
    using n by linarith
  then show "bit ?l n = bit w n"
    using n by cases (auto simp add: bit_or_iff bit_push_bit_iff bit_ucast_iff bit_drop_bit_eq)
qed

lemma of_le32_le32 [simp]:
  "of_le32 (ucast w # ucast (drop_bit 8 w) # ucast (drop_bit 16 w) # ucast (drop_bit 24 w) # bs) = w"
  using join_le32 [of w] by (simp add: of_le32_def)

lemma length_packet_bytes: "packet_ok p \<Longrightarrow> length (packet_bytes p) = HORUS_PACKET_SIZE"
  by (simp add: packet_ok_def packet_bytes_def le16_def le32_def HORUS_PACKET_SIZE_def)

lemma packet_round_trip: "packet_ok p \<Longrightarrow> packet_of_bytes (packet_bytes p) = p"
  by (cases p) (simp add: packet_ok_def packet_bytes_def packet_of_bytes_def le16_def le32_def)

subsection \<open>CRC\<close>

definition crc_round :: "u8 list \<Rightarrow> nat \<Rightarrow> u16 \<Rightarrow> u16 option" where
  "crc_round data i crc =
     (case arr_get data i of
        None \<Rightarrow> None
      | Some byte \<Rightarrow>
          let x = ucast (drop_bit 8 crc) XOR byte;
              x = x XOR drop_bit 4 x in
          Some (push_bit 8 crc XOR push_bit 12 (ucast x) XOR push_bit 5 (ucast x) XOR ucast x))"

definition gen_crc16 :: "u8 list \<Rightarrow> u8 \<Rightarrow> u16 option" where
  "gen_crc16 data len = fold_opt (crc_round data) [0..<unat len] 0xFFFF"

subsection \<open>The interface\<close>

text \<open>\<open>horusv2_encode\<close>: the packet with its checksum, the output buffer and the result.\<close>

definition horusv2_encode :: "horus_packet_v2 \<Rightarrow> u8 list \<Rightarrow> (int \<times> horus_packet_v2 \<times> u8 list) option" where
  "horusv2_encode input output =
     Option.bind (gen_crc16 (packet_bytes input) (of_nat (HORUS_PACKET_SIZE - 2))) (\<lambda>crc.
     let input = input\<lparr>checksum := crc\<rparr> in
     Option.bind (horus_l2_encode_tx_packet output (packet_bytes input) HORUS_PACKET_SIZE) (\<lambda>(num, out).
     Some (0, input, out)))"

definition horusv2_decode :: "golay_state \<Rightarrow> u8 list \<Rightarrow> horus_packet_v2 \<Rightarrow> (horus_packet_v2 \<times> u8 list) option" where
  "horusv2_decode st input packet =
     map_option (map_prod packet_of_bytes id)
       (horus_l2_decode_rx_packet st (packet_bytes packet) input HORUS_PACKET_SIZE)"

definition horusv2_checksum_verify :: "horus_packet_v2 \<Rightarrow> bool option" where
  "horusv2_checksum_verify p =
     map_option (\<lambda>crc. crc = checksum p) (gen_crc16 (packet_bytes p) (of_nat (HORUS_PACKET_SIZE - 2)))"

subsection \<open>The CRC is CRC-16/CCITT\<close>

text \<open>One message bit, most significant first: the polynomial is \<open>x^16 + x^12 + x^5 + 1\<close>.\<close>

definition crc_bit :: "bool \<Rightarrow> u16 \<Rightarrow> u16" where
  "crc_bit b c = (if bit c 15 \<noteq> b then push_bit 1 c XOR 0x1021 else push_bit 1 c)"

definition crc_bits :: "bool list \<Rightarrow> u16 \<Rightarrow> u16" where
  "crc_bits bs c = fold crc_bit bs c"

lemma crc_bit_xor: "crc_bit (a \<noteq> b) (c XOR d) = crc_bit a c XOR crc_bit b d"
  by (rule bit_word_eqI) (auto simp: crc_bit_def bit_simps)

lemma crc_bits_xor:
  "length bs = length cs \<Longrightarrow>
     crc_bits (map2 (\<noteq>) bs cs) (c XOR d) = crc_bits bs c XOR crc_bits cs d"
  by (induction bs cs arbitrary: c d rule: list_induct2) (simp_all add: crc_bits_def crc_bit_xor [simplified])

lemma bit_poly: "bit (0x1021 :: u16) n \<longleftrightarrow> n = 0 \<or> n = 5 \<or> n = 12"
proof -
  have "(0x1021 :: u16) = 2 ^ 0 OR 2 ^ 5 OR 2 ^ 12" by simp
  then show ?thesis by (simp only: bit_or_iff bit_exp_iff possible_bit_word) auto
qed

lemma bit_crc_bit:
  "bit (crc_bit b c) n \<longleftrightarrow>
     n < 16 \<and> ((0 < n \<and> bit c (n - 1)) \<noteq> ((bit c 15 \<noteq> b) \<and> (n = 0 \<or> n = 5 \<or> n = 12)))"
proof -
  have "bit (crc_bit b c) n \<longleftrightarrow>
      (1 \<le> n \<and> n < 16 \<and> bit c (n - 1)) \<noteq> ((bit c 15 \<noteq> b) \<and> bit (0x1021 :: u16) n)"
    by (simp only: crc_bit_def bit_xor_iff bit_push_bit_iff if_split [of "\<lambda>w. bit w n = _"] possible_bit_word
        len_num0 len_num1 len_bit0 len_bit1) auto
  then show ?thesis unfolding bit_poly by auto
qed

definition crc_byte :: "u8 \<Rightarrow> u16 \<Rightarrow> u16" where
  "crc_byte byte crc =
     (let x = ucast (drop_bit 8 crc) XOR byte; x = x XOR drop_bit 4 x in
      push_bit 8 crc XOR push_bit 12 (ucast x) XOR push_bit 5 (ucast x) XOR ucast x)"

lemma bit_crc_byte:
  fixes b :: u8 and c :: u16
  defines "x \<equiv> \<lambda>k. k < 8 \<and> (bit c (8 + k) \<noteq> bit b k)"
  defines "y \<equiv> \<lambda>k. k < 8 \<and> (x k \<noteq> x (4 + k))"
  shows "bit (crc_byte b c) n \<longleftrightarrow> n < 16 \<and>
     (((8 \<le> n \<and> bit c (n - 8)) \<noteq> (12 \<le> n \<and> y (n - 12))) \<noteq> (5 \<le> n \<and> y (n - 5))) \<noteq> y n"
proof -
  define X :: u8 where "X = ucast (drop_bit 8 c) XOR b"
  define Y where "Y = X XOR drop_bit 4 X"
  have X: "bit X k = x k" for k
    using bit_imp_possible_bit [of b k]
    by (cases "k < 8") (auto simp add: X_def x_def bit_xor_iff bit_ucast_iff bit_drop_bit_eq)
  have Y: "bit Y k = y k" for k
    using X by (cases "k < 8") (simp_all add: Y_def y_def x_def bit_xor_iff bit_drop_bit_eq)
  have eq: "crc_byte b c = push_bit 8 c XOR push_bit 12 (ucast Y) XOR push_bit 5 (ucast Y) XOR ucast Y"
    by (simp add: crc_byte_def Let_def X_def Y_def)
  have small: "y k \<Longrightarrow> k < 8" for k by (simp add: y_def)
  show ?thesis
    unfolding eq bit_xor_iff bit_push_bit_iff bit_ucast_iff Y
    using small by auto
qed

lemma word_bits_8:
  "word_bits 8 b = [bit b 7, bit b 6, bit b 5, bit b 4, bit b 3, bit b 2, bit b 1, bit b 0]"
proof -
  have "[0..<8] = [0, 1, 2, 3, 4, 5, 6, 7]" by (simp add: upt_rec)
  then show ?thesis by (simp add: word_bits_def)
qed

lemma crc_byte_bits: "crc_byte b c = crc_bits (word_bits 8 b) c"
proof (rule bit_word_eqI)
  fix n assume "n < LENGTH(16)"
  then have "n \<in> set [0..<16]" by simp
  then have "n \<in> {0, 1, 2, 3, 4, 5, 6, 7} \<union> (\<lambda>k. k + 8) ` {0, 1, 2, 3, 4, 5, 6, 7}"
    by (simp add: upt_rec) presburger
  then show "bit (crc_byte b c) n = bit (crc_bits (word_bits 8 b) c) n"
    unfolding Un_iff image_iff bex_simps insert_iff empty_iff
    by (elim disjE) (simp_all add: bit_crc_byte crc_bits_def word_bits_8 bit_crc_bit, argo+)
qed

lemma crc_round_eq: "i < length data \<Longrightarrow> crc_round data i crc = Some (crc_byte (data ! i) crc)"
  by (simp add: crc_round_def crc_byte_def Let_def)

lemma gen_crc16_loop:
  "n \<le> length data \<Longrightarrow>
     fold_opt (crc_round data) [0..<n] c = Some (crc_bits (byte_bits (take n data)) c)"
proof (induction n)
  case (Suc n)
  then have "byte_bits (take (Suc n) data) = byte_bits (take n data) @ word_bits 8 (data ! n)"
    by (simp add: take_Suc_conv_app_nth byte_bits_def)
  then have "crc_bits (byte_bits (take (Suc n) data)) c =
      crc_byte (data ! n) (crc_bits (byte_bits (take n data)) c)"
    by (simp add: crc_byte_bits crc_bits_def)
  with Suc show ?case by (simp add: fold_opt_append crc_round_eq)
qed (simp add: crc_bits_def)

lemma gen_crc16_eq:
  "unat len \<le> length data \<Longrightarrow> gen_crc16 data len = Some (crc_bits (byte_bits (take (unat len) data)) 0xFFFF)"
  by (simp add: gen_crc16_def gen_crc16_loop)

end
