(* ===== verification/Horus_Channel.thy ===== *)
theory Horus_Channel
  imports Horus
begin

text \<open>
  What a receiver gets back from a Horus v2 packet that was damaged on its way: the code
  words of a received buffer, the position of every code bit in the transmitted packet, and
  the end-to-end properties of \<open>horusv2_encode\<close>, \<open>horusv2_decode\<close> and
  \<open>horusv2_checksum_verify\<close>.
\<close>

subsection \<open>The code words of a buffer\<close>

definition word_bits_of :: "u8 list \<Rightarrow> nat \<Rightarrow> bool list" where
  "word_bits_of u i =
     code_groups (byte_bits (take HORUS_PACKET_SIZE u)) ! i @
     take 11 (drop (11 * i) (byte_bits (drop HORUS_PACKET_SIZE u)))"

text \<open>Code word \<open>i\<close> of an encoded buffer, after descrambling and deinterleaving.\<close>

definition received_word :: "u8 list \<Rightarrow> nat \<Rightarrow> i32" where
  "received_word rx i =
     (case unmix 63 (drop 2 rx) of None \<Rightarrow> 0 | Some u \<Rightarrow> bits_word (word_bits_of u i))"

lemma body_bytes_32: "body_bytes HORUS_PACKET_SIZE = 63"
  by (simp add: body_bytes_def HORUS_PACKET_SIZE_def)

lemma num_tx_32: "horus_l2_get_num_tx_data_bytes HORUS_PACKET_SIZE = HORUS_ENCODED_BUFFER_SIZE"
  by (simp add: num_tx_body body_bytes_32 HORUS_ENCODED_BUFFER_SIZE_def)

lemma nth_concat_11:
  "i < length gs \<Longrightarrow> take 11 (drop (11 * i) (concat (map parity_of gs) @ xs)) = parity_of (gs ! i)"
proof (induction gs arbitrary: i)
  case (Cons g gs)
  then show ?case by (cases i) simp_all
qed simp

lemma byte_bits_full_bytes: "byte_bits (full_bytes bs) @ left_over 8 bs = bs"
proof -
  have "word_bits 8 (bits_word g :: u8) = g" if "g \<in> set (groups 8 bs)" for g
  proof (rule word_bits_bits_word)
    show "length g = 8"
      using that by (auto simp: groups_def min_def)
  qed simp
  then have "byte_bits (full_bytes bs) = concat (groups 8 bs)"
    by (simp add: byte_bits_def full_bytes_def o_def cong: map_cong)
  then show ?thesis using groups_left_over [of 8 bs] by simp
qed

lemma byte_bits_pack_bits: "\<exists>pad. byte_bits (pack_bits bs) = bs @ replicate pad False"
proof (cases "length bs mod 8 = 0")
  case True
  then have "left_over 8 bs = []" by (metis length_0_conv length_left_over)
  then show ?thesis
    using True byte_bits_full_bytes [of bs] by (intro exI [of _ 0]) (simp add: pack_bits_def)
next
  case False
  let ?r = "left_over 8 bs @ replicate (8 - length bs mod 8) False"
  have "length ?r = 8" using mod_less_divisor [of 8 "length bs"] by simp
  then have "byte_bits [bits_word ?r] = ?r" by (simp add: byte_bits_def word_bits_bits_word)
  then have "byte_bits (pack_bits bs) = byte_bits (full_bytes bs) @ ?r"
    using False by (simp add: pack_bits_def)
  then show ?thesis
    using byte_bits_full_bytes [of bs] by (intro exI [of _ "8 - length bs mod 8"]) (metis append_assoc)
qed

lemma sent_word_bits:
  assumes "length B = HORUS_PACKET_SIZE" "i < 22"
  shows "word_bits_of (plain_body B) i =
    code_groups (byte_bits B) ! i @ parity_of (code_groups (byte_bits B) ! i)"
proof -
  have "i < length (code_groups (byte_bits B))"
    using assms by (simp add: length_code_groups HORUS_PACKET_SIZE_def)
  moreover obtain pad where "byte_bits (pack_bits (parity_bits (byte_bits B))) =
      concat (map parity_of (code_groups (byte_bits B))) @ replicate pad False"
    using byte_bits_pack_bits [of "parity_bits (byte_bits B)"] by (auto simp: parity_bits_def)
  moreover have "take HORUS_PACKET_SIZE (plain_body B) = B"
    "drop HORUS_PACKET_SIZE (plain_body B) = pack_bits (parity_bits (byte_bits B))"
    using assms(1) by (simp_all add: plain_body_def)
  ultimately show ?thesis
    by (simp add: word_bits_of_def nth_concat_11 del: drop_append take_append)
qed

lemma length_code_group: "i < length (code_groups D) \<Longrightarrow> length (code_groups D ! i) \<le> 12"
  using left_over_less [of D] by (auto simp: code_groups_def nth_append nth_groups split: if_splits)

subsection \<open>Encoding\<close>

lemma checksum_prefix: "packet_ok p \<Longrightarrow> take 30 (packet_bytes (p\<lparr>checksum := c\<rparr>)) = take 30 (packet_bytes p)"
  by (simp add: packet_ok_def packet_bytes_def le16_def le32_def)

lemma packet_crc:
  "packet_ok p \<Longrightarrow> gen_crc16 (packet_bytes p) (of_nat (HORUS_PACKET_SIZE - 2)) =
     Some (crc_bits (byte_bits (take 30 (packet_bytes p))) 0xFFFF)"
  using gen_crc16_eq [of "of_nat (HORUS_PACKET_SIZE - 2)" "packet_bytes p"]
  by (simp add: length_packet_bytes HORUS_PACKET_SIZE_def)

definition with_checksum :: "horus_packet_v2 \<Rightarrow> horus_packet_v2" where
  "with_checksum p = p\<lparr>checksum := crc_bits (byte_bits (take 30 (packet_bytes p))) 0xFFFF\<rparr>"

lemma with_checksum_ok: "packet_ok p \<Longrightarrow> packet_ok (with_checksum p)"
  by (simp add: packet_ok_def with_checksum_def)

lemma verify_with_checksum:
  assumes "packet_ok p"
  shows "horusv2_checksum_verify (with_checksum p) = Some True"
  using packet_crc [OF with_checksum_ok [OF assms]] checksum_prefix [OF assms]
  by (simp add: horusv2_checksum_verify_def with_checksum_def)

lemma encode_packet:
  assumes "packet_ok p" "length outbuf = HORUS_ENCODED_BUFFER_SIZE"
  shows "\<exists>m. horusv2_encode p outbuf = Some (0, with_checksum p, uw @ m) \<and> length m = 63 \<and>
    unmix 63 m = Some (plain_body (packet_bytes (with_checksum p)))"
proof -
  let ?B = "packet_bytes (with_checksum p)"
  have len: "length ?B = HORUS_PACKET_SIZE" using assms(1) by (simp add: with_checksum_ok length_packet_bytes)
  have lb: "length (plain_body ?B) = 63" by (simp add: length_plain_body len body_bytes_32)
  have pre: "length outbuf = horus_l2_get_num_tx_data_bytes HORUS_PACKET_SIZE" "HORUS_PACKET_SIZE \<le> length ?B"
    "0 < HORUS_PACKET_SIZE" "body_bytes HORUS_PACKET_SIZE \<le> 96"
    using assms(2) len unfolding num_tx_32 body_bytes_32 by (simp_all add: HORUS_PACKET_SIZE_def)
  obtain m where m: "mix (body_bytes HORUS_PACKET_SIZE) (plain_body (take HORUS_PACKET_SIZE ?B)) = Some m"
    "horus_l2_encode_tx_packet outbuf ?B HORUS_PACKET_SIZE = Some (2 + body_bytes HORUS_PACKET_SIZE, uw @ m)"
    using encode_eq_mix [OF pre] by blast
  have "mix 63 (plain_body ?B) = Some m" using m(1) len by (simp add: body_bytes_32)
  with mix_runs [of 63 "plain_body ?B"] lb have "length m = 63" "unmix 63 m = Some (plain_body ?B)" by auto
  with m(2) packet_crc [OF assms(1)] show ?thesis
    by (auto simp: horusv2_encode_def with_checksum_def)
qed

lemma sent_word:
  assumes "packet_ok p" "length outbuf = HORUS_ENCODED_BUFFER_SIZE" "i < 22"
    and "horusv2_encode p outbuf = Some (ret, p', tx)"
  shows "received_word tx i = codeword (bits_word (code_groups (byte_bits (packet_bytes p')) ! i))"
proof -
  obtain m where m: "horusv2_encode p outbuf = Some (0, with_checksum p, uw @ m)" "length m = 63"
    "unmix 63 m = Some (plain_body (packet_bytes (with_checksum p)))"
    using encode_packet assms by blast
  let ?B = "packet_bytes p'"
  have p': "p' = with_checksum p" "tx = uw @ m" using m(1) assms(4) by auto
  have len: "length ?B = HORUS_PACKET_SIZE" using assms(1) by (simp add: p' with_checksum_ok length_packet_bytes)
  have i: "i < length (code_groups (byte_bits ?B))"
    using len assms(3) by (simp add: length_code_groups HORUS_PACKET_SIZE_def)
  have "drop 2 tx = m" by (simp add: p' uw_def)
  then show ?thesis
    using m(3) sent_word_bits [OF len assms(3)] codeword_bits [OF length_code_group [OF i]]
    by (simp add: received_word_def p')
qed

lemma decode_packet:
  assumes st: "tables_ok st" and ok: "packet_ok p" "packet_ok q" and out: "length outbuf = HORUS_ENCODED_BUFFER_SIZE"
    and enc: "horusv2_encode p outbuf = Some (ret, p', tx)" and rx: "length rx = HORUS_ENCODED_BUFFER_SIZE"
    and near: "\<And>i. i < 22 \<Longrightarrow> weight (received_word rx i XOR received_word tx i) \<le> 3"
  shows "\<exists>rx'. horusv2_decode st rx q = Some (p', rx')"
proof -
  let ?B = "packet_bytes p'" and ?n = HORUS_PACKET_SIZE
  obtain m where "horusv2_encode p outbuf = Some (0, with_checksum p, uw @ m)"
    using encode_packet [OF ok(1) out] by blast
  then have p': "p' = with_checksum p" using enc by simp
  then have ok': "packet_ok p'" using ok(1) by (simp add: with_checksum_ok)
  have len: "length ?B = ?n" using ok' by (rule length_packet_bytes)
  obtain u where u: "unmix (body_bytes ?n) (drop 2 rx) = Some u"
    using unmix_runs [of 63 "drop 2 rx"] rx by (auto simp: body_bytes_32 HORUS_ENCODED_BUFFER_SIZE_def)
  have cw: "(8 * ?n + 11) div 12 = 22" by (simp add: HORUS_PACKET_SIZE_def)
  have rxw: "rx_word (byte_bits (take ?n u)) (byte_bits (drop ?n u)) i = received_word rx i" for i
    using u by (simp add: received_word_def body_bytes_32 rx_word_def word_bits_of_def)
  have below: "below_bit 23 (received_word buf i)" if i: "i < 22" and buf: "length buf = 65" for buf i
  proof -
    obtain v where v: "unmix 63 (drop 2 buf) = Some v" "length v = 63"
      using unmix_runs [of 63 "drop 2 buf"] buf by auto
    have "i < length (code_groups (byte_bits (take ?n v)))"
      using v(2) i by (simp add: length_code_groups HORUS_PACKET_SIZE_def)
    from length_code_group [OF this] have "length (word_bits_of v i) \<le> 23"
      by (simp add: word_bits_of_def)
    with v(1) show ?thesis by (simp add: received_word_def below_bits_word)
  qed
  have "horus_l2_decode_rx_packet st (packet_bytes q) rx ?n = Some (?B, take 2 rx @ u)"
  proof (rule decode_eq_unmix [OF st length_packet_bytes [OF ok(2)] len _ _ _ _ u])
    fix i assume "i < (8 * ?n + 11) div 12"
    then have i: "i < 22" by (simp only: cw)
    have tx65: "length tx = 65"
      using encode_packet [OF ok(1) out] enc by (auto simp: uw_def)
    show "correctable (rx_word (byte_bits (take ?n u)) (byte_bits (drop ?n u)) i XOR
        codeword (bits_word (code_groups (byte_bits ?B) ! i)))"
      unfolding rxw sent_word [OF ok(1) out i enc, symmetric] correctable_def
      using near [OF i] below [OF i] rx tx65
      by (simp add: below_bit_xor HORUS_ENCODED_BUFFER_SIZE_def)
  qed (use rx in \<open>simp_all add: body_bytes_32 [unfolded HORUS_PACKET_SIZE_def] body_bytes_32 cw
      HORUS_PACKET_SIZE_def HORUS_ENCODED_BUFFER_SIZE_def\<close>)
  then show ?thesis using packet_round_trip [OF ok'] by (simp add: horusv2_decode_def)
qed

subsection \<open>Where the code bits travel\<close>

text \<open>
  Bit \<open>m\<close> of the plain packet body, counted from the most significant bit of its first byte,
  is bit \<open>lsb_pos m\<close> counted as the interleaver counts, and travels in byte \<open>tx_byte m\<close> of the
  body. \<open>word_pos i\<close> lists the bits of code word \<open>i\<close>. The check finds at most three bits of a
  code word in any two neighbouring bytes.
\<close>

definition lsb_pos :: "int \<Rightarrow> int" where
  "lsb_pos m = 8 * (m div 8) + 7 - m mod 8"

definition tx_byte :: "int \<Rightarrow> int" where
  "tx_byte m = (389 * lsb_pos m mod 504) div 8"

definition word_pos :: "int \<Rightarrow> int list" where
  "word_pos i = [12 * i..min (12 * i + 11) 255] @ [256 + 11 * i..256 + 11 * i + 10]"

fun count_in_pair :: "int \<Rightarrow> int list \<Rightarrow> int" where
  "count_in_pair a [] = 0"
| "count_in_pair a (t # ts) =
     (if t = a then 1 + count_in_pair a ts
      else if t = a + 1 then 1 + count_in_pair a ts else count_in_pair a ts)"

fun pairs_at_most_3 :: "int list \<Rightarrow> int list \<Rightarrow> bool" where
  "pairs_at_most_3 p [] = True"
| "pairs_at_most_3 p (a # as) = (count_in_pair a p \<le> 3 \<and> pairs_at_most_3 p as)"

lemma spread: "list_all (\<lambda>i. pairs_at_most_3 (map tx_byte (word_pos i)) [0..62]) [0..21]"
  by code_simp

lemma pairs_at_most_3: "pairs_at_most_3 p as \<longleftrightarrow> (\<forall>a\<in>set as. count_in_pair a p \<le> 3)"
  by (induction as) auto

lemma stride_63: "stride_of 63 = 389"
proof -
  have scan: "scan_list 504 2 (tl primes_int) = Some 389" by code_simp
  have p: "tl primes_int = map int (drop 1 primes)" "primes ! (1 - 1) = 2" "1 \<le> length primes"
    by (simp_all add: primes_int_def primes_def)
  obtain j where "prime_scan (8 * 63) 1 = Some j" "389 = int (primes ! (j - 1))"
    using prime_scan_list [of 1 "8 * 63" 389] scan p by auto
  then show ?thesis by (simp add: stride_of_def)
qed

lemma byte_bits_bit_at:
  assumes "m < 8 * length xs"
  shows "byte_bits xs ! m = bit_at xs (8 * (m div 8) + (7 - m mod 8))"
proof -
  have "(8 * q + s) div 8 = q \<and> (8 * q + s) mod 8 = s" if "s < 8" for q s :: nat
    using that by simp
  from this [of "7 - m mod 8" "m div 8"]
  have "(8 * (m div 8) + (7 - m mod 8)) div 8 = m div 8" "(8 * (m div 8) + (7 - m mod 8)) mod 8 = 7 - m mod 8"
    by (simp_all only: less_imp_diff_less [of 7 8])
  with assms show ?thesis by (simp only: nth_byte_bits bit_at_def)
qed

lemma unmix_bit:
  assumes "unmix 63 b = Some u" "length b = 63" "m < 504"
  shows "length u = 63 \<and> byte_bits u ! m =
    (bit_at b (389 * (8 * (m div 8) + (7 - m mod 8)) mod 504) \<noteq>
     lfsr_out (lfsr (389 * (8 * (m div 8) + (7 - m mod 8)) mod 504)))"
proof -
  obtain s where s: "scramble b 63 = Some s" "interleave s 63 True = Some u"
    using assms(1) by (auto simp: unmix_def bind_eq_Some_conv)
  from scramble_eq [of 63 b] assms(2) s(1) have sb: "length s = 63"
    "\<And>k. k < 504 \<Longrightarrow> bit_at s k = (bit_at b k \<noteq> lfsr_out (lfsr k))" by auto
  from interleave_eq(2) [of 63 s] sb(1) s(2) have ub: "length u = 63"
    "\<And>k. k < 504 \<Longrightarrow> bit_at u k = bit_at s (389 * k mod 504)" by (auto simp: stride_63)
  let ?k = "8 * (m div 8) + (7 - m mod 8)"
  have "?k < 504" using less_mult_imp_div_less [of m 63 8] assms(3) by simp
  then have "bit_at u ?k = bit_at s (389 * ?k mod 504)" by (rule ub(2))
  moreover have "389 * ?k mod 504 < 504" by simp
  ultimately show ?thesis
    using ub(1) sb(2) [of "389 * ?k mod 504"] byte_bits_bit_at [of m u] assms(3) by simp
qed

lemma map_int_upt: "map int [a..<b] = [int a..int b - 1]"
proof (induction b)
  case (Suc b)
  then show ?case
    by (cases "a \<le> b") (simp_all add: upto_rec2 [of "int a" "int b"])
qed simp

lemma count_in_pair_eq:
  "count_in_pair a ts = int (length (filter (\<lambda>t. t = a \<or> t = a + 1) ts))"
  by (induction ts) auto

lemma weight_bits_word: "length bs < 32 \<Longrightarrow> weight (bits_word bs) \<le> length (filter id bs)"
proof (induction bs)
  case Nil
  then show ?case by (simp add: weight_def)
next
  case (Cons b bs)
  have "bits_word (b # bs) = (if b then 2 ^ length bs else 0) XOR (bits_word bs :: i32)"
    using Cons.prems
    by (intro bit_word_eqI) (auto simp: bit_bits_word bit_xor_iff bit_exp_iff nth_Cons' less_Suc_eq)
  then have "weight (bits_word (b # bs)) \<le> weight (if b then 2 ^ length bs else 0) + weight (bits_word bs)"
    by (simp only: weight_xor)
  also have "weight (if b then 2 ^ length bs else 0) \<le> of_bool b"
    using weight_unit [of "length bs"] by (simp add: weight_def)
  finally show ?case using Cons by auto
qed

lemma bits_word_xor:
  "length xs = length ys \<Longrightarrow> bits_word xs XOR bits_word ys = (bits_word (map2 (\<noteq>) xs ys) :: i32)"
  by (intro bit_word_eqI) (auto simp: bit_bits_word bit_xor_iff)

text \<open>A code word as the list of the body bits at its positions.\<close>

definition pos_nat :: "nat \<Rightarrow> nat list" where
  "pos_nat i = [12 * i..<min (12 * i + 12) 256] @ [256 + 11 * i..<256 + 11 * i + 11]"

lemma pos_nat_int: "map int (pos_nat i) = word_pos (int i)"
  by (simp add: pos_nat_def word_pos_def map_int_upt del: upt_Suc) (simp add: min_def add.commute)

lemma take_drop_upt: "a + k \<le> length xs \<Longrightarrow> take k (drop a xs) = map ((!) xs) [a..<a + k]"
  by (intro nth_equalityI) auto

lemma word_bits_of_eq:
  assumes "length u = 63" "i < 22"
  shows "word_bits_of u i = map ((!) (byte_bits u)) [12 * i..<min (12 * i + 12) 256] @
    (if i = 21 then [False] else []) @ map ((!) (byte_bits u)) [256 + 11 * i..<256 + 11 * i + 11]"
proof -
  let ?D = "byte_bits (take HORUS_PACKET_SIZE u)"
  have D: "?D = take 256 (byte_bits u)" "length ?D = 256"
    using assms(1) by (simp_all add: byte_bits_take HORUS_PACKET_SIZE_def)
  have P: "byte_bits (drop HORUS_PACKET_SIZE u) = drop 256 (byte_bits u)"
    using byte_bits_drop [of HORUS_PACKET_SIZE u] by (simp add: HORUS_PACKET_SIZE_def)
  have len: "length (byte_bits u) = 504" using assms(1) by simp
  have par: "take 11 (drop (11 * i) (drop 256 (byte_bits u))) =
      map ((!) (byte_bits u)) [256 + 11 * i..<256 + 11 * i + 11]"
    using assms(2) len by (simp add: take_drop_upt add.commute del: upt_Suc)
  show ?thesis
  proof (cases "i = 21")
    case True
    have "code_groups ?D ! 21 = left_over 12 ?D @ [False]"
      using D(2) by (simp add: code_groups_def nth_append)
    also have "left_over 12 ?D = drop 252 (take 256 (byte_bits u))"
      using D by (simp add: left_over_def)
    also have "\<dots> = take 4 (drop 252 (byte_bits u))" by (simp add: drop_take)
    also have "\<dots> = map ((!) (byte_bits u)) [252..<256]"
      using len take_drop_upt [of 252 4 "byte_bits u"] by (simp del: upt_Suc)
    finally show ?thesis using True par by (simp add: word_bits_of_def P del: upt_Suc)
  next
    case False
    then have i: "i < 21" using assms(2) by simp
    then have "code_groups ?D ! i = take 12 (drop (12 * i) ?D)"
      using D(2) by (simp add: code_groups_def nth_append nth_groups)
    also have "\<dots> = map ((!) ?D) [12 * i..<12 * i + 12]"
      using D(2) i by (simp add: take_drop_upt del: upt_Suc)
    also have "\<dots> = map ((!) (byte_bits u)) [12 * i..<12 * i + 12]"
      using i by (simp add: D(1) del: upt_Suc)
    finally show ?thesis using i par by (simp add: word_bits_of_def P min_def del: upt_Suc)
  qed
qed

lemma pair_damage:
  assumes "unmix 63 b = Some u" "unmix 63 c = Some v" "length b = 63" "length c = 63"
    and "\<forall>t<63. t \<noteq> a \<and> t \<noteq> a + 1 \<longrightarrow> b ! t = c ! t" "m < 504"
    and "byte_bits u ! m \<noteq> byte_bits v ! m"
  shows "tx_byte (int m) = int a \<or> tx_byte (int m) = int a + 1"
proof -
  define k where "k = 389 * (8 * (m div 8) + (7 - m mod 8)) mod 504"
  have k: "k < 504" by (simp add: k_def)
  have "bit_at b k \<noteq> bit_at c k"
    using unmix_bit [OF assms(1,3,6)] unmix_bit [OF assms(2,4,6)] assms(7)
    unfolding k_def [symmetric] by blast
  then have "b ! (k div 8) \<noteq> c ! (k div 8)" by (auto simp: bit_at_def)
  moreover have "k div 8 < 63" using k less_mult_imp_div_less [of k 63 8] by simp
  ultimately have "k div 8 = a \<or> k div 8 = a + 1" using assms(5) by blast
  moreover have "int (k div 8) = tx_byte (int m)"
  proof -
    have "int (8 * (m div 8) + (7 - m mod 8)) = lsb_pos (int m)"
      by (simp add: lsb_pos_def zdiv_int zmod_int of_nat_diff)
    then show ?thesis by (simp only: k_def tx_byte_def zdiv_int zmod_int of_nat_mult of_nat_numeral)
  qed
  ultimately show ?thesis by auto
qed

lemma filter_zip_map:
  "length (filter (\<lambda>(x, y). x = (\<not> y)) (zip (map f xs) (map g xs))) =
     length (filter (\<lambda>m. f m = (\<not> g m)) xs)"
  by (induction xs) auto

lemma length_filter_mono:
  "(\<And>x. x \<in> set xs \<Longrightarrow> P x \<Longrightarrow> Q x) \<Longrightarrow> length (filter P xs) \<le> length (filter Q xs)"
  by (induction xs) auto

lemma pair_weight:
  assumes u: "unmix 63 b = Some u" "unmix 63 c = Some v" "length b = 63" "length c = 63"
    and same: "\<forall>t<63. t \<noteq> a \<and> t \<noteq> a + 1 \<longrightarrow> b ! t = c ! t" and i: "i < 22" and a: "a \<le> 62"
  shows "weight (bits_word (word_bits_of u i) XOR bits_word (word_bits_of v i)) \<le> 3"
proof -
  have lu: "length u = 63" "length v = 63" using unmix_bit [of _ _ 0] u by auto
  note eq = word_bits_of_eq [OF lu(1) i] word_bits_of_eq [OF lu(2) i]
  have len: "length (word_bits_of u i) = length (word_bits_of v i)" "length (word_bits_of v i) < 32"
    unfolding eq by auto
  let ?d = "\<lambda>m. byte_bits u ! m \<noteq> byte_bits v ! m" and ?p = "\<lambda>t. t = int a \<or> t = int a + 1"
  have "weight (bits_word (word_bits_of u i) XOR bits_word (word_bits_of v i)) \<le>
      length (filter id (map2 (\<noteq>) (word_bits_of u i) (word_bits_of v i)))"
    unfolding bits_word_xor [OF len(1)] using len by (intro weight_bits_word) simp
  also have "\<dots> = length (filter ?d (pos_nat i))"
    unfolding eq pos_nat_def by (simp add: filter_zip_map zip_append del: upt_Suc)
  also have "\<dots> \<le> length (filter (\<lambda>m. ?p (tx_byte (int m))) (pos_nat i))"
  proof (rule length_filter_mono)
    fix m assume "m \<in> set (pos_nat i)" and d: "?d m"
    then have "m < 504" using i by (auto simp: pos_nat_def)
    then show "?p (tx_byte (int m))" using pair_damage [OF u same _ d] by blast
  qed
  also have "\<dots> = length (filter ?p (map tx_byte (word_pos (int i))))"
    unfolding pos_nat_int [symmetric] by (simp add: filter_map o_def)
  also have "\<dots> = nat (count_in_pair (int a) (map tx_byte (word_pos (int i))))"
    by (simp add: count_in_pair_eq)
  also have "\<dots> \<le> 3"
  proof -
    have "int i \<in> set [0..21]" "int a \<in> set [0..62]" using i a by simp_all
    then have "count_in_pair (int a) (map tx_byte (word_pos (int i))) \<le> 3"
      using spread by (simp only: list_all_iff pairs_at_most_3)
    then show ?thesis by simp
  qed
  finally show ?thesis .
qed

lemma burst_near:
  assumes "length tx = HORUS_ENCODED_BUFFER_SIZE" "length rx = HORUS_ENCODED_BUFFER_SIZE"
    and "\<forall>k<65. 2 \<le> k \<and> k \<noteq> a \<and> k \<noteq> a + 1 \<longrightarrow> rx ! k = tx ! k" "i < 22"
  shows "weight (received_word rx i XOR received_word tx i) \<le> 3"
proof -
  have len: "length (drop 2 rx) = 63" "length (drop 2 tx) = 63"
    using assms by (simp_all add: HORUS_ENCODED_BUFFER_SIZE_def)
  obtain u v where uv: "unmix 63 (drop 2 rx) = Some u" "unmix 63 (drop 2 tx) = Some v"
    using unmix_runs [of 63 "drop 2 rx"] unmix_runs [of 63 "drop 2 tx"] len by auto
  have nth: "drop 2 rx ! t = rx ! (t + 2)" "drop 2 tx ! t = tx ! (t + 2)" if "t < 63" for t
    using that len by (simp_all add: add.commute)
  define a' where "a' = (if 2 \<le> a then min (a - 2) 62 else 0)"
  have "\<forall>t<63. t \<noteq> a' \<and> t \<noteq> a' + 1 \<longrightarrow> drop 2 rx ! t = drop 2 tx ! t"
  proof (intro allI impI)
    fix t assume t: "t < 63" "t \<noteq> a' \<and> t \<noteq> a' + 1"
    then have "t + 2 < 65" "2 \<le> t + 2" "t + 2 \<noteq> a" "t + 2 \<noteq> a + 1"
      by (auto simp: a'_def min_def split: if_splits)
    then have "rx ! (t + 2) = tx ! (t + 2)" using assms(3) by blast
    with t(1) nth show "drop 2 rx ! t = drop 2 tx ! t" by simp
  qed
  from pair_weight [OF uv len this assms(4)] show ?thesis
    using uv by (simp add: received_word_def a'_def)
qed

subsection \<open>Properties\<close>

text \<open>
  C17: \<open>horusv2_encode\<close> succeeds on every packet with a nine-byte custom field and a buffer of
  \<open>HORUS_ENCODED_BUFFER_SIZE\<close> bytes: no buffer, table or assertion is violated, the result is
  0, only the checksum of the packet changes, to the CRC-16/CCITT (initial value 0xFFFF) of
  its first thirty bytes, the output has 65 bytes and starts with the unique word, and the
  packet passes \<open>horusv2_checksum_verify\<close>.
\<close>

theorem horusv2_encode_ok:
  assumes "length (custom_data p) = 9" "length outbuf = HORUS_ENCODED_BUFFER_SIZE"
  shows "\<exists>p' tx. horusv2_encode p outbuf = Some (0, p', tx) \<and>
    p' = p\<lparr>checksum := crc_bits (byte_bits (take 30 (packet_bytes p))) 0xFFFF\<rparr> \<and>
    length tx = 65 \<and> take 2 tx = uw \<and> horusv2_checksum_verify p' = Some True"
proof -
  have "packet_ok p" using assms(1) by (simp add: packet_ok_def)
  with encode_packet [OF this assms(2)] verify_with_checksum [OF this] show ?thesis
    by (auto simp: with_checksum_def uw_def)
qed

definition sample_packet :: horus_packet_v2 where
  "sample_packet =
     \<lparr>payload_id = 5, counter = 0, hours = 0, minutes = 0, seconds = 0, latitude = 0, longitude = 0,
      altitude = 12345, speed = 0, sats = 0, temp = 0, battery_voltage = 0,
      custom_data = replicate 9 0, checksum = 0\<rparr>"

lemma sample_ok: "length (custom_data sample_packet) = 9" "packet_ok sample_packet"
  by (simp_all add: sample_packet_def packet_ok_def)

theorem horusv2_encode_ok_witness:
  "\<exists>p' tx. horusv2_encode sample_packet (replicate 65 0) = Some (0, p', tx) \<and> length tx = 65 \<and>
     horusv2_checksum_verify p' = Some True"
  using horusv2_encode_ok [OF sample_ok(1), of "replicate 65 0"]
  by (auto simp: HORUS_ENCODED_BUFFER_SIZE_def)

text \<open>
  C1: End to end: let a packet be encoded, and let a receiver get any buffer of 65 bytes such
  that each of the 22 Golay code words of the packet, read after descrambling and
  deinterleaving, has at most three wrong bits. Then \<open>horusv2_decode\<close>, with the tables of
  \<open>golay23_init\<close>, gives exactly the packet that was encoded, checksum included, and the
  checksum verifies.
\<close>

theorem horusv2_corrects_errors:
  assumes "length a = 4" "golay23_init a golay_bss = Some (r, st)"
    and "length (custom_data p) = 9" "length (custom_data q) = 9"
    and "length outbuf = HORUS_ENCODED_BUFFER_SIZE" "horusv2_encode p outbuf = Some (ret, p', tx)"
    and "length rx = HORUS_ENCODED_BUFFER_SIZE"
    and "\<forall>i<22. weight (received_word rx i XOR received_word tx i) \<le> 3"
  shows "\<exists>rx'. horusv2_decode st rx q = Some (p', rx') \<and> horusv2_checksum_verify p' = Some True"
proof -
  have ok: "packet_ok p" "packet_ok q" using assms by (simp_all add: packet_ok_def)
  from decode_packet [OF init_tables [OF assms(1,2)] ok assms(5,6,7)] assms(8)
  obtain rx' where "horusv2_decode st rx q = Some (p', rx')" by blast
  moreover have "p' = with_checksum p" using encode_packet [OF ok(1) assms(5)] assms(6) by auto
  ultimately show ?thesis using verify_with_checksum [OF ok(1)] by auto
qed

theorem horusv2_corrects_errors_witness:
  "\<exists>r st p' tx rx'. golay23_init [0, 0, 0, 0] golay_bss = Some (r, st) \<and>
     horusv2_encode sample_packet (replicate 65 0) = Some (0, p', tx) \<and>
     horusv2_decode st (tx[20 := tx ! 20 XOR 0xff]) sample_packet = Some (p', rx')"
proof -
  obtain st where st: "golay23_init [0, 0, 0, 0] golay_bss = Some (0, st)"
    using init_runs [of "[0, 0, 0, 0]"] by auto
  have buf: "length (replicate 65 0 :: u8 list) = HORUS_ENCODED_BUFFER_SIZE"
    by (simp add: HORUS_ENCODED_BUFFER_SIZE_def)
  obtain m where m: "horusv2_encode sample_packet (replicate 65 0) = Some (0, with_checksum sample_packet, uw @ m)"
    "length m = 63" using encode_packet [OF sample_ok(2) buf] by blast
  let ?tx = "uw @ m"
  have "length ?tx = HORUS_ENCODED_BUFFER_SIZE" using m(2) by (simp add: uw_def HORUS_ENCODED_BUFFER_SIZE_def)
  then have "\<forall>i<22. weight (received_word (?tx[20 := ?tx ! 20 XOR 0xff]) i XOR received_word ?tx i) \<le> 3"
    by (intro allI impI burst_near [where a = 20]) simp_all
  from horusv2_corrects_errors [OF _ st sample_ok(1) sample_ok(1) buf m(1) _ this]
    \<open>length ?tx = HORUS_ENCODED_BUFFER_SIZE\<close> st m(1)
  show ?thesis by auto
qed

text \<open>
  C2: What the interleaver is for: if the channel damages the received packet only in two
  neighbouring bytes, whatever it makes of them, and possibly in the unique word, then the
  packet is decoded without an error.
\<close>

theorem horusv2_corrects_burst:
  assumes "length a = 4" "golay23_init a golay_bss = Some (r, st)"
    and "length (custom_data p) = 9" "length (custom_data q) = 9"
    and "length outbuf = HORUS_ENCODED_BUFFER_SIZE" "horusv2_encode p outbuf = Some (ret, p', tx)"
    and "length rx = 65" "\<forall>k<65. 2 \<le> k \<and> k \<noteq> b \<and> k \<noteq> b + 1 \<longrightarrow> rx ! k = tx ! k"
  shows "\<exists>rx'. horusv2_decode st rx q = Some (p', rx')"
proof -
  have ok: "packet_ok p" "packet_ok q" using assms by (simp_all add: packet_ok_def)
  have rx: "length rx = HORUS_ENCODED_BUFFER_SIZE" using assms(7) by (simp add: HORUS_ENCODED_BUFFER_SIZE_def)
  have tx: "length tx = HORUS_ENCODED_BUFFER_SIZE"
    using encode_packet [OF ok(1) assms(5)] assms(6) by (auto simp: uw_def HORUS_ENCODED_BUFFER_SIZE_def)
  show ?thesis
    by (rule decode_packet [OF init_tables [OF assms(1,2)] ok assms(5,6) rx burst_near [OF tx rx assms(8)]])
qed

theorem horusv2_corrects_burst_witness:
  "\<exists>r st p' tx rx'. golay23_init [0, 0, 0, 0] golay_bss = Some (r, st) \<and>
     horusv2_encode sample_packet (replicate 65 0) = Some (0, p', tx) \<and>
     horusv2_decode st (tx[0 := 0, 1 := 0, 30 := 0, 31 := 0xff]) sample_packet = Some (p', rx')"
proof -
  obtain st where st: "golay23_init [0, 0, 0, 0] golay_bss = Some (0, st)"
    using init_runs [of "[0, 0, 0, 0]"] by auto
  have buf: "length (replicate 65 0 :: u8 list) = HORUS_ENCODED_BUFFER_SIZE"
    by (simp add: HORUS_ENCODED_BUFFER_SIZE_def)
  obtain m where m: "horusv2_encode sample_packet (replicate 65 0) = Some (0, with_checksum sample_packet, uw @ m)"
    "length m = 63" using encode_packet [OF sample_ok(2) buf] by blast
  let ?tx = "uw @ m"
  have len: "length (?tx[0 := 0, 1 := 0, 30 := 0, 31 := 0xff]) = 65" using m(2) by (simp add: uw_def)
  have "\<forall>k<65. 2 \<le> k \<and> k \<noteq> 30 \<and> k \<noteq> 30 + 1 \<longrightarrow> ?tx[0 := 0, 1 := 0, 30 := 0, 31 := 0xff] ! k = ?tx ! k"
    by auto
  from horusv2_corrects_burst [OF _ st sample_ok(1) sample_ok(1) buf m(1) len this] st m(1)
  show ?thesis by auto
qed

text \<open>
  The receive path undoes the transmit path: for every buffer of 1 to 96 bytes the
  interleaver finds a stride coprime with the bit count and permutes the bits, the scrambler
  is its own inverse, and descrambling and deinterleaving give the buffer back, with no
  access outside the buffer or the table of primes.
\<close>

theorem interleave_scramble_cancel:
  assumes "1 \<le> nbytes" "nbytes \<le> 96" "length buf = nbytes"
  shows "\<exists>i s. interleave buf nbytes False = Some i \<and> scramble i nbytes = Some s \<and>
    scramble s nbytes = Some i \<and> interleave i nbytes True = Some buf"
proof -
  obtain i where i: "interleave buf nbytes False = Some i" "length i = length buf"
    using interleave_eq(1) [of nbytes buf] assms by auto
  obtain s where s: "scramble i nbytes = Some s" using scramble_eq [of nbytes i] assms i by auto
  have "scramble s nbytes = Some i" by (rule scramble_involution [OF _ s]) (use assms i in simp)
  moreover have "interleave i nbytes True = Some buf"
    by (rule interleave_round_trip [OF assms(1,2) _ i(1)]) (use assms in simp)
  ultimately show ?thesis using i s by blast
qed

theorem interleave_scramble_cancel_witness:
  "\<exists>i s. interleave (replicate 63 0xa5) 63 False = Some i \<and> scramble i 63 = Some s \<and>
    scramble s 63 = Some i \<and> interleave i 63 True = Some (replicate 63 0xa5)"
  by (rule interleave_scramble_cancel) simp_all

text \<open>
  C32: \<open>gen_crc16\<close>, which works on a byte at a time with shifts, computes the CRC with polynomial
  x^16 + x^12 + x^5 + 1 and initial value 0xFFFF, taken bit by bit, most significant first,
  for every length it can be given.
\<close>

theorem gen_crc16_is_ccitt:
  assumes "unat len \<le> length data"
  shows "gen_crc16 data len = Some (crc_bits (byte_bits (take (unat len) data)) 0xFFFF)"
  using assms by (rule gen_crc16_eq)

theorem gen_crc16_is_ccitt_witness:
  "gen_crc16 [0x31, 0x32, 0x33] 3 = Some (crc_bits (byte_bits [0x31, 0x32, 0x33]) 0xFFFF)"
  using gen_crc16_is_ccitt [of 3 "[0x31, 0x32, 0x33]"] by simp

end
