(* ===== verification/Bus.thy ===== *)
theory Bus
  imports Flight_Prelude
begin

text \<open>
  The SPI and I2C calls of Zephyr the drivers make. They are not part of the repository: a
  bus is a record of functions, an argument of every driver operation, and \<open>'b\<close> is whatever
  state the bus and the chip behind it have. A call takes the bytes it sends and the number
  of bytes it receives and returns Zephyr's result, the received bytes and the new state.
\<close>

record 'b spi_ops =
  spi_write_dt :: "u8 list \<Rightarrow> 'b \<Rightarrow> int \<times> 'b"
  spi_transceive_dt :: "u8 list \<Rightarrow> nat \<Rightarrow> 'b \<Rightarrow> int \<times> u8 list \<times> 'b"

record 'b i2c_ops =
  i2c_write_dt :: "u8 list \<Rightarrow> 'b \<Rightarrow> int \<times> 'b"
  i2c_read_dt :: "nat \<Rightarrow> 'b \<Rightarrow> int \<times> u8 list \<times> 'b"
  i2c_write_read_dt :: "u8 list \<Rightarrow> nat \<Rightarrow> 'b \<Rightarrow> int \<times> u8 list \<times> 'b"

text \<open>The I2C helpers that name a register: a burst read from it on, and the write of one byte.\<close>

record 'b i2c_reg_ops =
  i2c_burst_read_dt :: "u8 \<Rightarrow> nat \<Rightarrow> 'b \<Rightarrow> int \<times> u8 list \<times> 'b"
  i2c_reg_write_byte_dt :: "u8 \<Rightarrow> u8 \<Rightarrow> 'b \<Rightarrow> int \<times> 'b"

text \<open>Zephyr's big-endian reads of a byte buffer.\<close>

definition sys_get_be16 :: "u8 list \<Rightarrow> u16" where
  "sys_get_be16 bs = push_bit 8 (ucast (bs ! 0)) OR ucast (bs ! 1)"

definition sys_get_be24 :: "u8 list \<Rightarrow> u32" where
  "sys_get_be24 bs = push_bit 16 (ucast (bs ! 0)) OR push_bit 8 (ucast (bs ! 1)) OR ucast (bs ! 2)"

text \<open>Zephyr's big-endian write of a 16-bit value, as the bytes it stores.\<close>

definition sys_put_be16 :: "u16 \<Rightarrow> u8 list" where
  "sys_put_be16 w = [ucast (drop_bit 8 w), ucast w]"

text \<open>
  \<open>struct sensor_value\<close> and the channels and attributes of Zephyr's sensor interface that
  the drivers name.
\<close>

record sensor_value =
  val1 :: int
  val2 :: int

datatype sensor_channel =
    SENSOR_CHAN_ALL | SENSOR_CHAN_AMBIENT_TEMP | SENSOR_CHAN_PRESS | SENSOR_CHAN_CURRENT
  | SENSOR_CHAN_VOLTAGE | SENSOR_CHAN_POWER | SENSOR_CHAN_VSHUNT | SENSOR_CHAN_ACCEL_X
  | SENSOR_CHAN_ACCEL_Y | SENSOR_CHAN_ACCEL_Z | SENSOR_CHAN_ACCEL_XYZ | SENSOR_CHAN_GYRO_X
  | SENSOR_CHAN_GYRO_Y | SENSOR_CHAN_GYRO_Z | SENSOR_CHAN_GYRO_XYZ | SENSOR_CHAN_MAGN_X
  | SENSOR_CHAN_MAGN_Y | SENSOR_CHAN_MAGN_Z | SENSOR_CHAN_MAGN_XYZ | SENSOR_CHAN_HUMIDITY
  | SENSOR_CHAN_OTHER

datatype sensor_attribute = SENSOR_ATTR_OVERSAMPLING | SENSOR_ATTR_OTHER

text \<open>A bus that accepts every write and answers the reads from a script: used in examples only.\<close>

definition scripted_i2c :: "u8 list list i2c_ops" where
  "scripted_i2c =
     \<lparr>i2c_write_dt = (\<lambda>bs b. (0, b)),
      i2c_read_dt = (\<lambda>n b. case b of [] \<Rightarrow> (- EIO, replicate n 0, b) | x # xs \<Rightarrow> (0, x, xs)),
      i2c_write_read_dt = (\<lambda>bs n b. case b of [] \<Rightarrow> (- EIO, replicate n 0, b) | x # xs \<Rightarrow> (0, x, xs))\<rparr>"

end
