(* ===== verification/Mcp356x.thy ===== *)
theory Mcp356x
  imports Bus
begin

text \<open>
  The MCP356x analog-to-digital converter driver, \<open>drivers/adc/mcp356x/mcp356x.c\<close>: register
  access over SPI, channel configuration, initialisation and the read of a sequence of
  channels. \<open>mcp356x_data\<close> is the driver's state; the four \<open>config\<close> fields and \<open>mux\<close> cache
  what was last written to the chip. The bus is a parameter (theory \<open>Bus\<close>).

  \<open>None\<close> is an access outside \<open>channel_map\<close> or the sample buffer. Log output, \<open>printk\<close> and
  \<open>k_usleep\<close> have no effect here.
\<close>

subsection \<open>Registers and configuration\<close>

datatype MCP_Reg =
    MCP_Reg_ADCDATA | MCP_Reg_CONFIG0 | MCP_Reg_CONFIG1 | MCP_Reg_CONFIG2 | MCP_Reg_CONFIG3
  | MCP_Reg_IRQ | MCP_Reg_MUX | MCP_Reg_SCAN | MCP_Reg_TIMER | MCP_Reg_OFFSETCAL
  | MCP_Reg_GAINCAL | MCP_Reg_LOCK | MCP_Reg_CRCCFG

fun reg_addr :: "MCP_Reg \<Rightarrow> u8" where
  "reg_addr MCP_Reg_ADCDATA = 0x0"
| "reg_addr MCP_Reg_CONFIG0 = 0x1"
| "reg_addr MCP_Reg_CONFIG1 = 0x2"
| "reg_addr MCP_Reg_CONFIG2 = 0x3"
| "reg_addr MCP_Reg_CONFIG3 = 0x4"
| "reg_addr MCP_Reg_IRQ = 0x5"
| "reg_addr MCP_Reg_MUX = 0x6"
| "reg_addr MCP_Reg_SCAN = 0x7"
| "reg_addr MCP_Reg_TIMER = 0x8"
| "reg_addr MCP_Reg_OFFSETCAL = 0x9"
| "reg_addr MCP_Reg_GAINCAL = 0xA"
| "reg_addr MCP_Reg_LOCK = 0xD"
| "reg_addr MCP_Reg_CRCCFG = 0xF"

datatype CLK_SEL = CLK_EXTERNAL | CLK_EXTERNAL2 | CLK_INTERNAL_NO_BROADCAST | CLK_INTERNAL

fun clk_code :: "CLK_SEL \<Rightarrow> nat" where
  "clk_code CLK_EXTERNAL = 0"
| "clk_code CLK_EXTERNAL2 = 1"
| "clk_code CLK_INTERNAL_NO_BROADCAST = 2"
| "clk_code CLK_INTERNAL = 3"

datatype PRE = PRE_1 | PRE_2 | PRE_4 | PRE_8

fun pre_code :: "PRE \<Rightarrow> nat" where
  "pre_code PRE_1 = 0"
| "pre_code PRE_2 = 1"
| "pre_code PRE_4 = 2"
| "pre_code PRE_8 = 3"

datatype OSR =
    OSR_32 | OSR_64 | OSR_128 | OSR_256 | OSR_512 | OSR_1024 | OSR_2048 | OSR_4096 | OSR_8192
  | OSR_16384 | OSR_20480 | OSR_24576 | OSR_40960 | OSR_49152 | OSR_81920 | OSR_98304

fun osr_code :: "OSR \<Rightarrow> nat" where
  "osr_code OSR_32 = 0" | "osr_code OSR_64 = 1" | "osr_code OSR_128 = 2" | "osr_code OSR_256 = 3"
| "osr_code OSR_512 = 4" | "osr_code OSR_1024 = 5" | "osr_code OSR_2048 = 6" | "osr_code OSR_4096 = 7"
| "osr_code OSR_8192 = 8" | "osr_code OSR_16384 = 9" | "osr_code OSR_20480 = 10"
| "osr_code OSR_24576 = 11" | "osr_code OSR_40960 = 12" | "osr_code OSR_49152 = 13"
| "osr_code OSR_81920 = 14" | "osr_code OSR_98304 = 15"

record channel_map_entry =
  mux_reg :: u8
  ch_differential :: bool
  gain_bits :: u8
  reference_bits :: u8

record mcp356x_data =
  channel_map :: "channel_map_entry list"
  enabled_channels_bitmap :: u8
  config0 :: u8
  config1 :: u8
  config2 :: u8
  config3 :: u8
  mux :: u8

text \<open>The enum fields hold whatever number the device tree gave.\<close>

record mcp356x_config =
  device_addr :: u8
  osr :: nat
  prescale :: nat
  clock :: nat

definition MAX_CHANNELS :: nat where "MAX_CHANNELS = 8"
definition MAX_INPUT_CHANNEL :: nat where "MAX_INPUT_CHANNEL = 15"

definition sign_extend_24_32 :: "u32 \<Rightarrow> u32" where
  "sign_extend_24_32 x =
     (let bits = 24; m = push_bit (bits - 1) 1 in (x XOR m) - m)"

subsection \<open>Register access\<close>

definition mcp_read_reg_8 ::
  "'b spi_ops \<Rightarrow> mcp356x_config \<Rightarrow> MCP_Reg \<Rightarrow> 'b \<Rightarrow> int \<times> u8 \<times> 'b" where
  "mcp_read_reg_8 spi config reg b =
     (let device_address_mask = push_bit 6 (device_addr config);
          sread_command = device_address_mask OR 0x01;
          command_specifier = push_bit 2 (reg_addr reg) OR sread_command;
          (res, reg8, b) = spi_transceive_dt spi [command_specifier, 0] 2 b in
      (res, reg8 ! 1, b))"

definition mcp_read_reg_24 ::
  "'b spi_ops \<Rightarrow> mcp356x_config \<Rightarrow> MCP_Reg \<Rightarrow> u32 \<Rightarrow> 'b \<Rightarrow> int \<times> u32 \<times> 'b" where
  "mcp_read_reg_24 spi config reg data b =
     (let device_address_mask = push_bit 6 (device_addr config);
          sread_command = device_address_mask OR 0x01;
          command_specifier = push_bit 2 (reg_addr reg) OR sread_command;
          (ret, reg24, b) = spi_transceive_dt spi [command_specifier, 0] 5 b in
      if ret < 0 then (ret, data, b)
      else (0, push_bit 16 (ucast (reg24 ! 1)) OR push_bit 8 (ucast (reg24 ! 2)) OR ucast (reg24 ! 3), b))"

definition mcp_write_reg_8 ::
  "'b spi_ops \<Rightarrow> mcp356x_config \<Rightarrow> MCP_Reg \<Rightarrow> u8 \<Rightarrow> 'b \<Rightarrow> int \<times> 'b" where
  "mcp_write_reg_8 spi config reg data b =
     (let device_address_mask = push_bit 6 (device_addr config);
          write_command = device_address_mask OR 0x02;
          command_specifier = push_bit 2 (reg_addr reg) OR write_command in
      spi_write_dt spi [command_specifier, data] b)"

definition mcp_write_reg_24 ::
  "'b spi_ops \<Rightarrow> mcp356x_config \<Rightarrow> MCP_Reg \<Rightarrow> u32 \<Rightarrow> 'b \<Rightarrow> int \<times> 'b" where
  "mcp_write_reg_24 spi config reg data b =
     (let device_address_mask = push_bit 6 (device_addr config);
          write_command = device_address_mask OR 0x02;
          command_specifier = push_bit 2 (reg_addr reg) OR write_command in
      spi_write_dt spi
        [command_specifier, ucast (drop_bit 16 data AND 0xFF), ucast (drop_bit 8 data AND 0xFF),
         ucast (data AND 0xFF)] b)"

subsection \<open>Channel setup\<close>

datatype adc_gain =
    ADC_GAIN_1_3 | ADC_GAIN_1 | ADC_GAIN_2 | ADC_GAIN_4 | ADC_GAIN_8 | ADC_GAIN_16 | ADC_GAIN_32
  | ADC_GAIN_64 | ADC_GAIN_OTHER

datatype adc_reference = ADC_REF_INTERNAL | ADC_REF_EXTERNAL0 | ADC_REF_OTHER

record adc_channel_cfg =
  gain :: adc_gain
  reference :: adc_reference
  channel_id :: nat
  differential :: bool
  input_positive :: u8
  input_negative :: u8

text \<open>The switch over the gains; \<open>None\<close> is its default branch.\<close>

fun gain_code :: "adc_gain \<Rightarrow> u8 option" where
  "gain_code ADC_GAIN_1_3 = Some 0"
| "gain_code ADC_GAIN_1 = Some 1"
| "gain_code ADC_GAIN_2 = Some 2"
| "gain_code ADC_GAIN_4 = Some 3"
| "gain_code ADC_GAIN_8 = Some 4"
| "gain_code ADC_GAIN_16 = Some 5"
| "gain_code ADC_GAIN_32 = Some 6"
| "gain_code ADC_GAIN_64 = Some 7"
| "gain_code ADC_GAIN_OTHER = None"

fun reference_code :: "adc_reference \<Rightarrow> u8 option" where
  "reference_code ADC_REF_INTERNAL = Some 1"
| "reference_code ADC_REF_EXTERNAL0 = Some 0"
| "reference_code ADC_REF_OTHER = None"

definition mcp356x_channel_setup ::
  "bool \<Rightarrow> mcp356x_data \<Rightarrow> adc_channel_cfg \<Rightarrow> (int \<times> mcp356x_data) option" where
  "mcp356x_channel_setup ready data channel_cfg =
     (if \<not> ready then Some (- ENODEV, data)
      else if channel_id channel_cfg > 8 then Some (- ENODEV, data)
      else
      let mux_vin_p = input_positive channel_cfg;
          mux_vin_m = input_negative channel_cfg;
          muxr = push_bit 4 mux_vin_p OR mux_vin_m in
      case gain_code (gain channel_cfg) of
        None \<Rightarrow> Some (- ENOTSUP, data)
      | Some gbits \<Rightarrow>
          (case reference_code (reference channel_cfg) of
             None \<Rightarrow> Some (- ENOTSUP, data)
           | Some vref_sel_bits \<Rightarrow>
               let entry = \<lparr>mux_reg = muxr, ch_differential = differential channel_cfg,
                            gain_bits = gbits, reference_bits = vref_sel_bits\<rparr> in
               (case arr_put (channel_map data) (channel_id channel_cfg) entry of
                  None \<Rightarrow> None
                | Some m \<Rightarrow> Some (0, data\<lparr>channel_map := m\<rparr>))))"

subsection \<open>Initialisation\<close>

definition mcp356x_init ::
  "'b spi_ops \<Rightarrow> bool \<Rightarrow> mcp356x_config \<Rightarrow> mcp356x_data \<Rightarrow> 'b \<Rightarrow> int \<times> mcp356x_data \<times> 'b" where
  "mcp356x_init spi bus_ready config data b =
     (let data = data\<lparr>enabled_channels_bitmap := 0\<rparr> in
      if \<not> bus_ready then (- ENODEV, data, b)
      else
      let vref_sel_bits = 1 in
      if clock config > 3 then (- ENOTSUP, data, b)
      else
      let clk_sel_bits = of_nat (clock config);
          adc_mode = 0b11;
          data = data\<lparr>config0 := push_bit 7 vref_sel_bits OR push_bit 6 1 OR push_bit 4 clk_sel_bits OR adc_mode\<rparr>;
          (_, b) = mcp_write_reg_8 spi config MCP_Reg_CONFIG0 (config0 data) b;
          osr_bits = of_nat (osr config) in
      if prescale config > 3 then (- ENOTSUP, data, b)
      else
      let prescale_bits = of_nat (prescale config);
          data = data\<lparr>config1 := push_bit 6 prescale_bits OR push_bit 2 osr_bits\<rparr>;
          (_, b) = mcp_write_reg_8 spi config MCP_Reg_CONFIG1 (config1 data) b;
          data = data\<lparr>config2 := push_bit 6 0b10 OR push_bit 3 0 OR push_bit 2 0 OR push_bit 1 1 OR 1\<rparr>;
          (_, b) = mcp_write_reg_8 spi config MCP_Reg_CONFIG2 (config2 data) b;
          data = data\<lparr>config3 := push_bit 6 0b11 OR push_bit 4 0 OR push_bit 3 0 OR push_bit 2 0 OR push_bit 1 0 OR 0\<rparr>;
          (_, b) = mcp_write_reg_8 spi config MCP_Reg_CONFIG3 (config3 data) b;
          (_, b) = mcp_write_reg_8 spi config MCP_Reg_IRQ 0b00110111 b;
          (_, b) = mcp_write_reg_24 spi config MCP_Reg_SCAN 0 b;
          (_, b) = mcp_write_reg_24 spi config MCP_Reg_TIMER 0 b in
      (0, data, b))"

text \<open>\<open>dump_registers\<close> returns the result of the first failing 8-bit read.\<close>

fun dump_8bit :: "'b spi_ops \<Rightarrow> mcp356x_config \<Rightarrow> MCP_Reg list \<Rightarrow> 'b \<Rightarrow> int \<times> 'b" where
  "dump_8bit spi config [] b = (0, b)"
| "dump_8bit spi config (r # rs) b =
     (case mcp_read_reg_8 spi config r b of
        (res, data, b) \<Rightarrow> if res \<noteq> 0 then (res, b) else dump_8bit spi config rs b)"

definition dump_registers :: "'b spi_ops \<Rightarrow> mcp356x_config \<Rightarrow> 'b \<Rightarrow> int \<times> 'b" where
  "dump_registers spi config b =
     (let registers_8bit = [MCP_Reg_CONFIG0, MCP_Reg_CONFIG1, MCP_Reg_CONFIG2, MCP_Reg_CONFIG3,
                            MCP_Reg_IRQ, MCP_Reg_MUX, MCP_Reg_IRQ];
          (_, adcdata, b) = mcp_read_reg_24 spi config MCP_Reg_ADCDATA 0 b;
          (res, b) = dump_8bit spi config (take 6 registers_8bit) b in
      if res \<noteq> 0 then (res, b)
      else let (_, timer, b) = mcp_read_reg_24 spi config MCP_Reg_TIMER 0 b in (0, b))"

subsection \<open>Reading channels\<close>

record adc_sequence =
  options :: bool
  channels :: u32
  buffer_size :: nat

record 'b mcp_run =
  run_data :: mcp356x_data
  sample_array :: "u32 list"
  sample_index :: nat
  run_bus :: 'b

definition popcount :: "u32 \<Rightarrow> nat" where
  "popcount w = length (filter (bit w) [0..<32])"

text \<open>
  The body of the loop for a channel that is selected. \<open>write_changed\<close> is the write inside
  \<open>if (new != data->field) { write; data->field = new; }\<close>; the assignment changes nothing
  when the values agree.
\<close>

definition write_changed ::
  "'b spi_ops \<Rightarrow> mcp356x_config \<Rightarrow> MCP_Reg \<Rightarrow> u8 \<Rightarrow> u8 \<Rightarrow> 'b \<Rightarrow> 'b" where
  "write_changed spi config reg new old b =
     (if new \<noteq> old then snd (mcp_write_reg_8 spi config reg new b) else b)"

definition read_one ::
  "'b spi_ops \<Rightarrow> mcp356x_config \<Rightarrow> nat \<Rightarrow> 'b mcp_run \<Rightarrow> (int \<times> 'b mcp_run) option" where
  "read_one spi config i s =
     (case arr_get (channel_map (run_data s)) i of
        None \<Rightarrow> None
      | Some cfg \<Rightarrow>
          let data = run_data s; b = run_bus s;
              new_config0 = (config0 data AND 0b01111111) OR push_bit 7 1;
              b = write_changed spi config MCP_Reg_CONFIG0 new_config0 (config0 data) b;
              data = data\<lparr>config0 := new_config0\<rparr>;
              new_config2 = (config2 data AND 0b11000111) OR push_bit 3 (gain_bits cfg);
              b = write_changed spi config MCP_Reg_CONFIG2 new_config2 (config2 data) b;
              data = data\<lparr>config2 := new_config2\<rparr>;
              b = write_changed spi config MCP_Reg_MUX (mux_reg cfg) (mux data) b;
              data = data\<lparr>mux := mux_reg cfg\<rparr>;
              (res, val, b) = mcp_read_reg_24 spi config MCP_Reg_ADCDATA 0 b in
          if res \<noteq> 0 then Some (res, s\<lparr>run_data := data, run_bus := b\<rparr>)
          else (case arr_put (sample_array s) (sample_index s) (sign_extend_24_32 val) of
                  None \<Rightarrow> None
                | Some samples \<Rightarrow>
                    Some (0, \<lparr>run_data = data, sample_array = samples,
                              sample_index = sample_index s + 1, run_bus = b\<rparr>)))"

fun read_loop ::
  "'b spi_ops \<Rightarrow> mcp356x_config \<Rightarrow> u32 \<Rightarrow> nat list \<Rightarrow> 'b mcp_run \<Rightarrow> (int \<times> 'b mcp_run) option" where
  "read_loop spi config chans [] s = Some (0, s)"
| "read_loop spi config chans (i # is) s =
     (if drop_bit i chans AND 1 = 0 then read_loop spi config chans is s
      else (case read_one spi config i s of
              None \<Rightarrow> None
            | Some (res, s) \<Rightarrow> if res \<noteq> 0 then Some (res, s) else read_loop spi config chans is s))"

definition mcp356x_read_channel ::
  "'b spi_ops \<Rightarrow> mcp356x_config \<Rightarrow> adc_sequence \<Rightarrow> u32 list \<Rightarrow> mcp356x_data \<Rightarrow> 'b \<Rightarrow>
     (int \<times> 'b mcp_run) option" where
  "mcp356x_read_channel spi config seq buffer data b =
     (let s = \<lparr>run_data = data, sample_array = buffer, sample_index = 0, run_bus = b\<rparr> in
      if options seq then Some (-1, s)
      else if buffer_size seq < 4 * popcount (channels seq) then Some (-1, s)
      else read_loop spi config (channels seq) [0..<MAX_CHANNELS] s)"

subsection \<open>What the chip does\<close>

text \<open>
  The documented behaviour of the converter the read routine relies on: \<open>regs\<close> shows the
  8-bit registers in the state of the bus, \<open>log\<close> the register writes it has seen. A write command for a register succeeds, sets
  it and is one more write, a read of ADCDATA succeeds, writes no register and gives the conversion of the input
  that MUX selects at the gain in CONFIG2.
\<close>

definition small_regs :: "MCP_Reg set" where
  "small_regs = {MCP_Reg_CONFIG0, MCP_Reg_CONFIG1, MCP_Reg_CONFIG2, MCP_Reg_CONFIG3, MCP_Reg_IRQ, MCP_Reg_MUX}"

definition chip_writes ::
  "'b spi_ops \<Rightarrow> u8 \<Rightarrow> ('b \<Rightarrow> MCP_Reg \<Rightarrow> u8) \<Rightarrow> ('b \<Rightarrow> (MCP_Reg \<times> u8) list) \<Rightarrow> bool" where
  "chip_writes spi addr regs log \<longleftrightarrow>
     (\<forall>b v. \<forall>r\<in>small_regs. \<exists>b'. regs b' = (regs b)(r := v) \<and> log b' = log b @ [(r, v)] \<and>
        spi_write_dt spi [push_bit 2 (reg_addr r) OR (push_bit 6 addr OR 0x02), v] b = (0, b'))"

definition chip_reads ::
  "'b spi_ops \<Rightarrow> u8 \<Rightarrow> ('b \<Rightarrow> MCP_Reg \<Rightarrow> u8) \<Rightarrow> ('b \<Rightarrow> (MCP_Reg \<times> u8) list) \<Rightarrow> (u8 \<Rightarrow> u8 \<Rightarrow> u32) \<Rightarrow> bool" where
  "chip_reads spi addr regs log conv \<longleftrightarrow>
     (\<forall>b. \<exists>x0 x4 b'. regs b' = regs b \<and> log b' = log b \<and>
        (let v = conv (regs b MCP_Reg_MUX) (regs b MCP_Reg_CONFIG2 AND 0b00111000) in
         v AND NOT (mask 24) = 0 \<and>
         spi_transceive_dt spi [push_bit 2 (reg_addr MCP_Reg_ADCDATA) OR (push_bit 6 addr OR 0x01), 0] 5 b =
           (0, [x0, ucast (drop_bit 16 v), ucast (drop_bit 8 v), ucast v, x4], b')))"

text \<open>The cache of the driver agrees with the chip.\<close>

definition coherent :: "('b \<Rightarrow> MCP_Reg \<Rightarrow> u8) \<Rightarrow> mcp356x_data \<Rightarrow> 'b \<Rightarrow> bool" where
  "coherent regs data b \<longleftrightarrow>
     regs b MCP_Reg_CONFIG0 = config0 data \<and> regs b MCP_Reg_CONFIG2 = config2 data \<and>
     regs b MCP_Reg_MUX = mux data"

text \<open>Writes that each change the register they go to, and the registers after them.\<close>

fun changing :: "(MCP_Reg \<Rightarrow> u8) \<Rightarrow> (MCP_Reg \<times> u8) list \<Rightarrow> bool" where
  "changing R [] \<longleftrightarrow> True"
| "changing R ((r, v) # ws) \<longleftrightarrow> R r \<noteq> v \<and> changing (R(r := v)) ws"

definition written :: "(MCP_Reg \<times> u8) list \<Rightarrow> (MCP_Reg \<Rightarrow> u8) \<Rightarrow> MCP_Reg \<Rightarrow> u8" where
  "written ws R = fold (\<lambda>(r, v) R. R(r := v)) ws R"

lemma changing_append: "changing R (ws @ vs) \<longleftrightarrow> changing R ws \<and> changing (written ws R) vs"
proof (induction ws arbitrary: R)
  case (Cons w ws)
  obtain r v where "w = (r, v)" by (cases w)
  then show ?case using Cons.IH [of "R(r := v)"] by (simp add: written_def del: fun_upd_apply)
qed (simp add: written_def)

text \<open>Between two states of the bus only CONFIG0, CONFIG2 and MUX were written, each write a change.\<close>

definition only_changes :: "('b \<Rightarrow> MCP_Reg \<Rightarrow> u8) \<Rightarrow> ('b \<Rightarrow> (MCP_Reg \<times> u8) list) \<Rightarrow> 'b \<Rightarrow> 'b \<Rightarrow> bool" where
  "only_changes regs log b b' \<longleftrightarrow>
     (\<exists>ws. log b' = log b @ ws \<and> changing (regs b) ws \<and> regs b' = written ws (regs b) \<and>
        fst ` set ws \<subseteq> {MCP_Reg_CONFIG0, MCP_Reg_CONFIG2, MCP_Reg_MUX})"

lemma only_changes_refl: "regs b' = regs b \<Longrightarrow> log b' = log b \<Longrightarrow> only_changes regs log b b'"
  unfolding only_changes_def by (intro exI [of _ "[]"]) (simp add: written_def)

lemma only_changes_trans:
  assumes "only_changes regs log a b" "only_changes regs log b c"
  shows "only_changes regs log a c"
proof -
  obtain ws vs where "log b = log a @ ws" "changing (regs a) ws" "regs b = written ws (regs a)"
      "fst ` set ws \<subseteq> {MCP_Reg_CONFIG0, MCP_Reg_CONFIG2, MCP_Reg_MUX}"
      "log c = log b @ vs" "changing (regs b) vs" "regs c = written vs (regs b)"
      "fst ` set vs \<subseteq> {MCP_Reg_CONFIG0, MCP_Reg_CONFIG2, MCP_Reg_MUX}"
    using assms unfolding only_changes_def by blast
  then show ?thesis unfolding only_changes_def
    by (intro exI [of _ "ws @ vs"]) (simp add: changing_append written_def image_Un)
qed

lemma chip_write:
  "chip_writes spi (device_addr config) regs log \<Longrightarrow> r \<in> small_regs \<Longrightarrow>
     regs (snd (mcp_write_reg_8 spi config r v b)) = (regs b)(r := v) \<and>
     log (snd (mcp_write_reg_8 spi config r v b)) = log b @ [(r, v)]"
  unfolding chip_writes_def mcp_write_reg_8_def Let_def by (metis snd_conv)

lemma join_24: "(v :: u32) AND NOT (mask 24) = 0 \<Longrightarrow>
  push_bit 16 (ucast (ucast (drop_bit 16 v) :: u8)) OR push_bit 8 (ucast (ucast (drop_bit 8 v) :: u8)) OR
    ucast (ucast v :: u8) = v"
  (is "_ \<Longrightarrow> ?l = v")
proof (rule bit_word_eqI)
  fix n assume v: "v AND NOT (mask 24) = 0" and n: "n < LENGTH(32)"
  have high: "\<not> bit v n" if "24 \<le> n"
    using arg_cong [OF v, of "\<lambda>w. bit w n"] that n by (simp add: bit_simps)
  consider "n < 8" | "n = (n - 8) + 8" "n - 8 < 8" | "n = (n - 16) + 16" "n - 16 < 8" | "24 \<le> n"
    by linarith
  then show "bit ?l n = bit v n"
    using n high by cases (auto simp: bit_or_iff bit_push_bit_iff bit_ucast_iff bit_drop_bit_eq)
qed

lemma chip_read:
  assumes "chip_reads spi (device_addr config) regs log conv"
  shows "\<exists>b'. regs b' = regs b \<and> log b' = log b \<and> mcp_read_reg_24 spi config MCP_Reg_ADCDATA d b =
    (0, conv (regs b MCP_Reg_MUX) (regs b MCP_Reg_CONFIG2 AND 0b00111000), b')"
proof -
  define v where "v = conv (regs b MCP_Reg_MUX) (regs b MCP_Reg_CONFIG2 AND 0b00111000)"
  obtain x0 x4 b' where "regs b' = regs b" "log b' = log b" "v AND NOT (mask 24) = 0"
    "spi_transceive_dt spi [push_bit 2 (reg_addr MCP_Reg_ADCDATA) OR (push_bit 6 (device_addr config) OR 0x01), 0] 5 b =
       (0, [x0, ucast (drop_bit 16 v), ucast (drop_bit 8 v), ucast v, x4], b')"
    using assms unfolding chip_reads_def Let_def v_def by metis
  then show ?thesis
    unfolding v_def [symmetric] using join_24 [of v]
    by (intro exI [of _ b']) (simp add: mcp_read_reg_24_def Let_def)
qed

text \<open>The conversion of a configured channel, extended to 32 bits.\<close>

definition channel_value :: "(u8 \<Rightarrow> u8 \<Rightarrow> u32) \<Rightarrow> channel_map_entry \<Rightarrow> u32" where
  "channel_value conv cfg = sign_extend_24_32 (conv (mux_reg cfg) (push_bit 3 (gain_bits cfg)))"

lemma gain_field:
  assumes "unat g < 8"
  shows "((w :: u8) AND 0b11000111 OR push_bit 3 g) AND 0b00111000 = push_bit 3 g"
proof -
  have "below_bit 3 g" using assms by (simp add: below_bit_unat)
  then have g: "\<not> bit g n" if "3 \<le> n" for n using that by (simp add: below_bit_def)
  show ?thesis
  proof (rule bit_word_eqI)
    fix n assume "n < LENGTH(8)"
    then consider "n = 0" | "n = 1" | "n = 2" | "n = 3" | "n = 4" | "n = 5" | "n = 6" | "n = 7"
      by (simp; linarith)
    then show "bit ((w AND 0b11000111 OR push_bit 3 g) AND 0b00111000) n = bit (push_bit 3 g) n"
      using g by cases (simp_all add: bit_and_iff bit_or_iff bit_push_bit_iff)
  qed
qed

lemma write_changed_regs:
  assumes "chip_writes spi (device_addr config) regs log" "r \<in> {MCP_Reg_CONFIG0, MCP_Reg_CONFIG2, MCP_Reg_MUX}" "regs b r = old"
  shows "regs (write_changed spi config r new old b) = (regs b)(r := new)"
    and "only_changes regs log b (write_changed spi config r new old b)"
proof -
  have r: "r \<in> small_regs" using assms(2) by (auto simp: small_regs_def)
  note w = chip_write [OF assms(1) r, of new b]
  show "regs (write_changed spi config r new old b) = (regs b)(r := new)"
    using assms(3) w by (auto simp: write_changed_def)
  show "only_changes regs log b (write_changed spi config r new old b)"
  proof (cases "new = old")
    case False
    then show ?thesis unfolding only_changes_def
      using assms(2,3) w by (intro exI [of _ "[(r, new)]"]) (auto simp: write_changed_def written_def)
  qed (simp add: write_changed_def only_changes_refl)
qed

lemma read_one_chip:
  assumes wr: "chip_writes spi (device_addr config) regs log" and rd: "chip_reads spi (device_addr config) regs log conv"
    and co: "coherent regs (run_data s) (run_bus s)" and i: "i < length (channel_map (run_data s))"
    and g: "unat (gain_bits (channel_map (run_data s) ! i)) < 8" and room: "sample_index s < length (sample_array s)"
  shows "\<exists>s'. read_one spi config i s = Some (0, s') \<and> coherent regs (run_data s') (run_bus s') \<and>
    only_changes regs log (run_bus s) (run_bus s') \<and>
    channel_map (run_data s') = channel_map (run_data s) \<and> sample_index s' = sample_index s + 1 \<and>
    sample_array s' = (sample_array s)[sample_index s := channel_value conv (channel_map (run_data s) ! i)]"
proof -
  let ?cfg = "channel_map (run_data s) ! i"
  define c0 where "c0 = (config0 (run_data s) AND 0b01111111) OR push_bit 7 1"
  define c2 where "c2 = (config2 (run_data s) AND 0b11000111) OR push_bit 3 (gain_bits ?cfg)"
  define b1 where "b1 = write_changed spi config MCP_Reg_CONFIG0 c0 (config0 (run_data s)) (run_bus s)"
  define b2 where "b2 = write_changed spi config MCP_Reg_CONFIG2 c2 (config2 (run_data s)) b1"
  define b3 where "b3 = write_changed spi config MCP_Reg_MUX (mux_reg ?cfg) (mux (run_data s)) b2"
  define d where "d = (run_data s)\<lparr>config0 := c0, config2 := c2, mux := mux_reg ?cfg\<rparr>"
  note step = write_changed_regs [OF wr]
  have r1: "regs b1 = (regs (run_bus s))(MCP_Reg_CONFIG0 := c0)"
    unfolding b1_def by (rule step(1)) (use co in \<open>simp_all add: coherent_def\<close>)
  have r2: "regs b2 = (regs b1)(MCP_Reg_CONFIG2 := c2)"
    unfolding b2_def by (rule step(1)) (use co r1 in \<open>simp_all add: coherent_def\<close>)
  have r3: "regs b3 = (regs b2)(MCP_Reg_MUX := mux_reg ?cfg)"
    unfolding b3_def by (rule step(1)) (use co r1 r2 in \<open>simp_all add: coherent_def\<close>)
  have w1: "only_changes regs log (run_bus s) b1"
    unfolding b1_def by (rule step(2)) (use co in \<open>simp_all add: coherent_def\<close>)
  have w2: "only_changes regs log b1 b2"
    unfolding b2_def by (rule step(2)) (use co r1 in \<open>simp_all add: coherent_def\<close>)
  have w3: "only_changes regs log b2 b3"
    unfolding b3_def by (rule step(2)) (use co r1 r2 in \<open>simp_all add: coherent_def\<close>)
  have "c2 AND 0b00111000 = push_bit 3 (gain_bits ?cfg)" using gain_field [OF g] by (simp only: c2_def)
  with chip_read [OF rd, of b3 0] r1 r2 r3 obtain b4 where b4: "regs b4 = regs b3" "log b4 = log b3"
    "mcp_read_reg_24 spi config MCP_Reg_ADCDATA 0 b3 = (0, conv (mux_reg ?cfg) (push_bit 3 (gain_bits ?cfg)), b4)"
    by auto
  have cfg: "arr_get (channel_map (run_data s)) i = Some ?cfg" using i by simp
  have store: "arr_put (sample_array s) (sample_index s) v = Some ((sample_array s)[sample_index s := v])" for v
    using room by simp
  have upd: "config2 ((run_data s)\<lparr>config0 := x\<rparr>) = config2 (run_data s)"
    "mux ((run_data s)\<lparr>config0 := x, config2 := y\<rparr>) = mux (run_data s)" for x y
    by simp_all
  have "read_one spi config i s = Some (0, \<lparr>run_data = d,
      sample_array = (sample_array s)[sample_index s := channel_value conv ?cfg],
      sample_index = sample_index s + 1, run_bus = b4\<rparr>)"
    unfolding read_one_def cfg option.case Let_def
    by (simp only: upd c0_def [symmetric] b1_def [symmetric] c2_def [symmetric]
        b2_def [symmetric] b3_def [symmetric] b4(3) prod.case store option.case d_def channel_value_def)
      simp
  moreover have "coherent regs d b4"
    using b4(1) r1 r2 r3 by (simp add: coherent_def d_def)
  moreover have "only_changes regs log (run_bus s) b4"
    by (rule only_changes_trans [OF w1 only_changes_trans [OF w2 only_changes_trans [OF w3 only_changes_refl [OF b4(1,2)]]]])
  ultimately show ?thesis by (auto simp: d_def)
qed

lemma bit_mask_zero: "(drop_bit i w AND 1 = 0) \<longleftrightarrow> \<not> bit (w :: 'a::len word) i"
  by (simp only: and_one_eq bit_iff_odd_drop_bit even_iff_mod_2_eq_zero not_not)

lemma read_loop_chip:
  assumes wr: "chip_writes spi (device_addr config) regs log" and rd: "chip_reads spi (device_addr config) regs log conv"
    and "coherent regs (run_data s) (run_bus s)" "set is \<subseteq> {..<length chmap}"
    and "\<forall>e\<in>set chmap. unat (gain_bits e) < 8" "channel_map (run_data s) = chmap"
    and "sample_index s + length (filter (bit chans) is) \<le> length (sample_array s)"
  shows "\<exists>s'. read_loop spi config chans is s = Some (0, s') \<and> coherent regs (run_data s') (run_bus s') \<and>
    only_changes regs log (run_bus s) (run_bus s') \<and>
    channel_map (run_data s') = chmap \<and>
    sample_array s' = take (sample_index s) (sample_array s) @
      map (\<lambda>i. channel_value conv (chmap ! i)) (filter (bit chans) is) @
      drop (sample_index s + length (filter (bit chans) is)) (sample_array s)"
  using assms(3-)
proof (induction "is" arbitrary: s)
  case (Cons i "is")
  show ?case
  proof (cases "bit chans i")
    case False
    with Cons show ?thesis by (simp add: bit_mask_zero)
  next
    case True
    have i: "i < length (channel_map (run_data s))" using Cons.prems by simp
    have g: "unat (gain_bits (channel_map (run_data s) ! i)) < 8" using Cons.prems i by simp
    have room: "sample_index s < length (sample_array s)" using Cons.prems True by simp
    from read_one_chip [OF wr rd Cons.prems(1) i g room] obtain s1 where s1:
      "read_one spi config i s = Some (0, s1)" "coherent regs (run_data s1) (run_bus s1)" "only_changes regs log (run_bus s) (run_bus s1)"
      "channel_map (run_data s1) = chmap" "sample_index s1 = sample_index s + 1"
      "sample_array s1 = (sample_array s)[sample_index s := channel_value conv (chmap ! i)]"
      using Cons.prems(4) by auto
    have "sample_index s1 + length (filter (bit chans) is) \<le> length (sample_array s1)"
      using Cons.prems(5) True s1(5,6) by simp
    with Cons.IH [of s1] s1 Cons.prems obtain s2 where
      "read_loop spi config chans is s1 = Some (0, s2)" "coherent regs (run_data s2) (run_bus s2)"
      "only_changes regs log (run_bus s1) (run_bus s2)"
      "channel_map (run_data s2) = chmap"
      "sample_array s2 = take (sample_index s1) (sample_array s1) @
        map (\<lambda>i. channel_value conv (chmap ! i)) (filter (bit chans) is) @
        drop (sample_index s1 + length (filter (bit chans) is)) (sample_array s1)" by auto
    with True s1 room only_changes_trans [OF s1(3)] show ?thesis
      by (simp add: bit_mask_zero take_Suc_conv_app_nth)
  qed
qed (simp add: only_changes_refl)

lemma filter_prefix_count: "length (filter (bit w) [0..<MAX_CHANNELS]) \<le> popcount w"
proof -
  have "[0..<32] = [0..<8] @ [8..<32]" by (simp add: upt_add_eq_append [of 0 8 24, simplified])
  then show ?thesis by (simp add: popcount_def MAX_CHANNELS_def del: upt_Suc)
qed

lemma sint_of_int32: "- (2 ^ 31) \<le> k \<Longrightarrow> k < 2 ^ 31 \<Longrightarrow> sint (word_of_int k :: i32) = k"
  by (simp add: signed_of_int signed_take_bit_int_eq_self)

lemma sign_extend_cases:
  assumes "unat x < 2 ^ 24"
  shows "sint (sign_extend_24_32 x) = (if bit x 23 then int (unat x) - 2 ^ 24 else int (unat x))"
proof -
  have m: "sign_extend_24_32 x = (x XOR 2 ^ 23) - 2 ^ 23" by (simp add: sign_extend_24_32_def)
  have x: "x = word_of_int (int (unat x))" by simp
  have disj: "y + 2 ^ 23 = y XOR 2 ^ 23" if "\<not> bit y 23" for y :: u32
    by (rule disjunctive_add_eq_xor) (use that in \<open>simp only: and_exp_eq_0_iff_not_bit not_False_eq_True\<close>)
  show ?thesis
  proof (cases "bit x 23")
    case True
    then have "(x XOR 2 ^ 23) + 2 ^ 23 = x"
      using disj [of "x XOR 2 ^ 23"] by (simp add: bit_simps xor.assoc)
    then have "x XOR 2 ^ 23 = x - 2 ^ 23" by (simp only: eq_diff_eq)
    then have "sign_extend_24_32 x = x - 2 ^ 24" unfolding m by simp
    also have "\<dots> = word_of_int (int (unat x) - 2 ^ 24)" by simp
    finally have w: "sign_extend_24_32 x = word_of_int (int (unat x) - 2 ^ 24)" .
    have "sint (word_of_int (int (unat x) - 2 ^ 24) :: u32) = int (unat x) - 2 ^ 24"
    proof (rule sint_of_int32)
      show "- (2 ^ 31) \<le> int (unat x) - 2 ^ 24" using unsigned_greater_eq [of x] by simp
      show "int (unat x) - 2 ^ 24 < 2 ^ 31" using uint_less_unat [OF assms] by simp
    qed
    with True w show ?thesis by simp
  next
    case False
    then have "sign_extend_24_32 x = (x + 2 ^ 23) - 2 ^ 23" unfolding m by (simp only: disj [OF False])
    then have "sign_extend_24_32 x = x" by simp
    with False assms sint_eq_unat [of x] show ?thesis by simp
  qed
qed

subsection \<open>Properties\<close>

text \<open>
  C39: Reading a sequence: let the chip accept register writes and deliver 24-bit conversions,
  let the driver's cache agree with the chip, and let the buffer have room for the selected
  channels. Then \<open>mcp356x_read_channel\<close> returns 0, and the buffer starts with one sample per
  selected channel, in the order of the channel numbers, each the sign-extended conversion of
  that channel's input at that channel's gain; the rest of the buffer is unchanged, and the
  cache agrees with the chip again. Of the registers only CONFIG0, CONFIG2 and MUX are written, and each write changes
  what the register holds.
\<close>

theorem mcp356x_read_channel_correct:
  assumes "chip_writes spi (device_addr config) regs log" "chip_reads spi (device_addr config) regs log conv"
    and "coherent regs data b" "length (channel_map data) = MAX_CHANNELS"
    and "\<forall>e\<in>set (channel_map data). unat (gain_bits e) < 8"
    and "\<not> options seq" "4 * popcount (channels seq) \<le> buffer_size seq" "buffer_size seq \<le> 4 * length buffer"
  shows "\<exists>s. mcp356x_read_channel spi config seq buffer data b = Some (0, s) \<and>
    (let ids = filter (bit (channels seq)) [0..<MAX_CHANNELS] in
     sample_array s = map (\<lambda>i. channel_value conv (channel_map data ! i)) ids @ drop (length ids) buffer) \<and>
    coherent regs (run_data s) (run_bus s) \<and>
    (\<exists>ws. log (run_bus s) = log b @ ws \<and> changing (regs b) ws \<and>
       fst ` set ws \<subseteq> {MCP_Reg_CONFIG0, MCP_Reg_CONFIG2, MCP_Reg_MUX})"
proof -
  let ?s = "\<lparr>run_data = data, sample_array = buffer, sample_index = 0, run_bus = b\<rparr>"
  have "sample_index ?s + length (filter (bit (channels seq)) [0..<MAX_CHANNELS]) \<le> length (sample_array ?s)"
    using filter_prefix_count [of "channels seq"] assms(7,8) by simp
  with read_loop_chip [OF assms(1,2), of ?s "[0..<MAX_CHANNELS]" "channel_map data" "channels seq"] assms(3-5)
  obtain s where "read_loop spi config (channels seq) [0..<MAX_CHANNELS] ?s = Some (0, s)"
    "coherent regs (run_data s) (run_bus s)" "only_changes regs log b (run_bus s)"
    "sample_array s = map (\<lambda>i. channel_value conv (channel_map data ! i)) (filter (bit (channels seq)) [0..<MAX_CHANNELS]) @
       drop (length (filter (bit (channels seq)) [0..<MAX_CHANNELS])) buffer"
    by (auto simp: lessThan_atLeast0)
  with assms(6,7) show ?thesis by (auto simp: mcp356x_read_channel_def only_changes_def Let_def)
qed

text \<open>A converter for the witness: the registers, and a conversion that shows its input and gain.\<close>

definition demo_conv :: "u8 \<Rightarrow> u8 \<Rightarrow> u32" where
  "demo_conv m g = push_bit 8 (ucast m) OR ucast g"

definition demo_reg :: "u8 \<Rightarrow> MCP_Reg" where
  "demo_reg a =
     (if a = 0x46 then MCP_Reg_CONFIG0 else if a = 0x4A then MCP_Reg_CONFIG1
      else if a = 0x4E then MCP_Reg_CONFIG2 else if a = 0x52 then MCP_Reg_CONFIG3
      else if a = 0x56 then MCP_Reg_IRQ else if a = 0x5A then MCP_Reg_MUX else MCP_Reg_ADCDATA)"

definition demo_spi :: "((MCP_Reg \<Rightarrow> u8) \<times> (MCP_Reg \<times> u8) list) spi_ops" where
  "demo_spi =
     \<lparr>spi_write_dt = (\<lambda>tx (R, ws). (0, R(demo_reg (tx ! 0) := tx ! 1), ws @ [(demo_reg (tx ! 0), tx ! 1)])),
      spi_transceive_dt = (\<lambda>tx n (R, ws).
        let v = demo_conv (R MCP_Reg_MUX) (R MCP_Reg_CONFIG2 AND 0b00111000) in
        (0, [0, ucast (drop_bit 16 v), ucast (drop_bit 8 v), ucast v, 0], R, ws))\<rparr>"

lemma demo_conv_24: "demo_conv m g AND NOT (mask 24) = 0"
  using bit_imp_possible_bit [of m] bit_imp_possible_bit [of g]
  by (intro bit_word_eqI) (fastforce simp: demo_conv_def bit_simps)

lemma demo_chip:
  "chip_writes demo_spi 1 fst snd" "chip_reads demo_spi 1 fst snd demo_conv"
  by (auto simp: chip_writes_def chip_reads_def small_regs_def demo_spi_def demo_reg_def Let_def demo_conv_24)

definition demo_data :: mcp356x_data where
  "demo_data =
     \<lparr>channel_map = replicate 8 \<lparr>mux_reg = 0x23, ch_differential = True, gain_bits = 2, reference_bits = 1\<rparr>,
      enabled_channels_bitmap = 0, config0 = 0, config1 = 0, config2 = 0, config3 = 0, mux = 0\<rparr>"

theorem mcp356x_read_channel_correct_witness:
  "\<exists>s. mcp356x_read_channel demo_spi \<lparr>device_addr = 1, osr = 2, prescale = 0, clock = 3\<rparr>
      \<lparr>options = False, channels = 0b101, buffer_size = 12\<rparr> [7, 7, 7] demo_data (\<lambda>r. 0, []) = Some (0, s) \<and>
    sample_array s = [0x2310, 0x2310, 7]"
proof -
  have ids: "filter (bit (0b101 :: u32)) [0..<8] = [0, 2]" by (simp add: upt_rec)
  have "popcount 0b101 = 2" by (simp add: popcount_def upt_rec)
  with mcp356x_read_channel_correct [of demo_spi "\<lparr>device_addr = 1, osr = 2, prescale = 0, clock = 3\<rparr>" fst snd demo_conv
      demo_data "(\<lambda>r. 0, [])" "\<lparr>options = False, channels = 0b101, buffer_size = 12\<rparr>" "[7, 7, 7]"] demo_chip
  show ?thesis
    by (auto simp: coherent_def demo_data_def MAX_CHANNELS_def ids channel_value_def demo_conv_def sign_extend_24_32_def)
qed

text \<open>
  \<open>sign_extend_24_32\<close> gives the two's complement value of a 24-bit conversion: as a signed
  32-bit number it is the conversion itself when bit 23 is clear, and 2^24 less when it is set.
\<close>

theorem sign_extend_24_32_value:
  assumes "unat x < 2 ^ 24"
  shows "sint (sign_extend_24_32 x) = (if bit x 23 then int (unat x) - 2 ^ 24 else int (unat x))"
  using assms by (rule sign_extend_cases)

theorem sign_extend_24_32_value_witness:
  "sint (sign_extend_24_32 0xFFFFFE) = -2"
  using sign_extend_24_32_value [of "0xFFFFFE"] by simp

text \<open>
  \<open>mcp356x_channel_setup\<close> on a ready device with its eight entries: a channel number above
  8 and an unsupported gain or reference are refused with the right error and leave the driver
  as it was; channels 0 to 7 with a supported gain and reference get exactly their entry, with
  gain bits below 8, and no other entry changes; channel number 8, which the guard lets pass,
  writes behind the end of the channel map.
\<close>

theorem mcp356x_channel_setup_cases:
  assumes "length (channel_map data) = MAX_CHANNELS"
  shows "(channel_id cfg > 8 \<longrightarrow> mcp356x_channel_setup True data cfg = Some (- ENODEV, data)) \<and>
    (channel_id cfg \<le> 8 \<and> (gain_code (gain cfg) = None \<or> reference_code (reference cfg) = None) \<longrightarrow>
      mcp356x_channel_setup True data cfg = Some (- ENOTSUP, data)) \<and>
    (channel_id cfg < 8 \<and> gain_code (gain cfg) = Some g \<and> reference_code (reference cfg) = Some v \<longrightarrow>
      unat g < 8 \<and> mcp356x_channel_setup True data cfg = Some (0, data\<lparr>channel_map := (channel_map data)[channel_id cfg :=
        \<lparr>mux_reg = push_bit 4 (input_positive cfg) OR input_negative cfg, ch_differential = differential cfg,
         gain_bits = g, reference_bits = v\<rparr>]\<rparr>)) \<and>
    (channel_id cfg = 8 \<and> gain_code (gain cfg) = Some g \<and> reference_code (reference cfg) = Some v \<longrightarrow>
      mcp356x_channel_setup True data cfg = None)"
proof -
  have "unat g < 8" if "gain_code (gain cfg) = Some g"
    using that by (cases "gain cfg") auto
  with assms show ?thesis
    by (auto simp: mcp356x_channel_setup_def arr_put_def MAX_CHANNELS_def Let_def split: option.splits)
qed

theorem mcp356x_channel_setup_cases_witness:
  "mcp356x_channel_setup True demo_data
     \<lparr>gain = ADC_GAIN_1, reference = ADC_REF_INTERNAL, channel_id = 8, differential = False,
      input_positive = 0, input_negative = 8\<rparr> = None"
  using mcp356x_channel_setup_cases [of demo_data "\<lparr>gain = ADC_GAIN_1, reference = ADC_REF_INTERNAL,
      channel_id = 8, differential = False, input_positive = 0, input_negative = 8\<rparr>" 1 1]
  by (simp add: demo_data_def MAX_CHANNELS_def)

end
