(* ===== verification/Ms5611.thy ===== *)
theory Ms5611
  imports Bus
begin

text \<open>
  The MS5611 barometer driver, \<open>drivers/sensor/ms5611/ms5611.c\<close>: oversampling settings,
  PROM and its CRC, conversion of the raw readings, initialisation.

  Every operation takes and returns the driver's state \<open>ms5611_data\<close> and the bus. C integers
  are \<open>int\<close> with the conversions at the assignments written out (\<open>to_i32\<close>, \<open>to_u32\<close>,
  \<open>to_u64\<close>); \<open>XOR\<close> on \<open>int\<close> is two's complement, \<open>drop_bit\<close> the arithmetic shift right.
\<close>

subsection \<open>Data\<close>

definition MS5611_CMD_RESET :: u8 where "MS5611_CMD_RESET = 0x1E"
definition MS5611_CMD_ADC_READ :: u8 where "MS5611_CMD_ADC_READ = 0x00"
definition MS5611_PROM_READ_BASE :: u8 where "MS5611_PROM_READ_BASE = 0xA0"
definition MS5611_PROM_SIZE :: nat where "MS5611_PROM_SIZE = 8"
definition MS5611_PROM_CRC_IDX :: nat where "MS5611_PROM_CRC_IDX = MS5611_PROM_SIZE - 1"
definition MS5611_PROM_BYTES :: nat where "MS5611_PROM_BYTES = MS5611_PROM_SIZE * 2"
definition MS5611_OSR_DEFAULT :: int where "MS5611_OSR_DEFAULT = 256"

lemmas ms5611_sizes = MS5611_PROM_SIZE_def MS5611_PROM_CRC_IDX_def MS5611_PROM_BYTES_def

record ms5611_osr_data =
  ratio :: u16
  read_cmd :: u16
  resp_time :: u16

record ms5611_meas_data =
  press :: u32
  temp :: u32

text \<open>The array \<open>osr[2]\<close> is the two fields \<open>osr_pres\<close> and \<open>osr_temp\<close>.\<close>

record ms5611_data =
  prom :: "u16 list"
  osr_pres :: ms5611_osr_data
  osr_temp :: ms5611_osr_data
  meas :: ms5611_meas_data

subsection \<open>Oversampling\<close>

definition ms5611_pressure_osr_set :: "ms5611_data \<Rightarrow> sensor_value \<Rightarrow> int \<times> ms5611_data" where
  "ms5611_pressure_osr_set data val =
     (if val1 val = 256 then (0, data\<lparr>osr_pres := \<lparr>ratio = 256, read_cmd = 0x40, resp_time = 600\<rparr>\<rparr>)
      else if val1 val = 512 then (0, data\<lparr>osr_pres := \<lparr>ratio = 512, read_cmd = 0x42, resp_time = 1170\<rparr>\<rparr>)
      else if val1 val = 1024 then (0, data\<lparr>osr_pres := \<lparr>ratio = 1024, read_cmd = 0x44, resp_time = 2280\<rparr>\<rparr>)
      else if val1 val = 2048 then (0, data\<lparr>osr_pres := \<lparr>ratio = 2048, read_cmd = 0x46, resp_time = 4540\<rparr>\<rparr>)
      else if val1 val = 4096 then (0, data\<lparr>osr_pres := \<lparr>ratio = 4096, read_cmd = 0x48, resp_time = 9040\<rparr>\<rparr>)
      else (- EINVAL, data))"

definition ms5611_temperature_osr_set :: "ms5611_data \<Rightarrow> sensor_value \<Rightarrow> int \<times> ms5611_data" where
  "ms5611_temperature_osr_set data val =
     (if val1 val = 256 then (0, data\<lparr>osr_temp := \<lparr>ratio = 256, read_cmd = 0x50, resp_time = 600\<rparr>\<rparr>)
      else if val1 val = 512 then (0, data\<lparr>osr_temp := \<lparr>ratio = 512, read_cmd = 0x52, resp_time = 1170\<rparr>\<rparr>)
      else if val1 val = 1024 then (0, data\<lparr>osr_temp := \<lparr>ratio = 1024, read_cmd = 0x54, resp_time = 2280\<rparr>\<rparr>)
      else if val1 val = 2048 then (0, data\<lparr>osr_temp := \<lparr>ratio = 2048, read_cmd = 0x56, resp_time = 4540\<rparr>\<rparr>)
      else if val1 val = 4096 then (0, data\<lparr>osr_temp := \<lparr>ratio = 4096, read_cmd = 0x58, resp_time = 9040\<rparr>\<rparr>)
      else (- EINVAL, data))"

definition ms5611_attr_set ::
  "ms5611_data \<Rightarrow> sensor_channel \<Rightarrow> sensor_attribute \<Rightarrow> sensor_value \<Rightarrow> int \<times> ms5611_data" where
  "ms5611_attr_set data chan attr val =
     (if attr \<noteq> SENSOR_ATTR_OVERSAMPLING then (- ENOTSUP, data)
      else if chan = SENSOR_CHAN_AMBIENT_TEMP then ms5611_temperature_osr_set data val
      else if chan = SENSOR_CHAN_PRESS then ms5611_pressure_osr_set data val
      else if chan = SENSOR_CHAN_ALL then
        (case ms5611_pressure_osr_set data val of
           (ret, data) \<Rightarrow> if ret \<noteq> 0 then (ret, data) else ms5611_temperature_osr_set data val)
      else (- ENOTSUP, data))"

subsection \<open>Compensation\<close>

text \<open>
  The arithmetic of \<open>ms5611_fetch_temp_and_press\<close>, in the order of the code: \<open>^\<close> is XOR and
  binds weaker than \<open>*\<close> and \<open>/\<close>, so \<open>5 * (temp - 2000) ^ 2 / 4\<close> is \<open>5 * (temp - 2000)\<close> XOR 0.
\<close>

definition first_temp :: "u16 list \<Rightarrow> int \<Rightarrow> int \<times> int" where
  "first_temp pr raw_temp =
     (let dT = to_i32 (to_u32 (raw_temp - to_u32 (push_bit 8 (uint (pr ! 5)))));
          tc = to_i32 (2000 + drop_bit 23 (dT * uint (pr ! 6))) in
      (dT, tc))"

definition second_order :: "int \<Rightarrow> int \<Rightarrow> int \<times> int \<times> int" where
  "second_order dT tc =
     (if tc < 2000 then
        let t2 = drop_bit 31 (dT XOR 2);
            off2 = c_div (5 * ((tc - 2000) XOR 2)) 2;
            sens2 = (5 * (tc - 2000)) XOR (c_div 2 4) in
        if tc < - 1500 then
          (t2, off2 + ((7 * (tc + 1500)) XOR 2), sens2 + c_div (11 * ((tc + 1500) XOR 2)) 2)
        else (t2, off2, sens2)
      else (0, 0, 0))"

text \<open>A left shift of an \<open>int\<close>: undefined in C when the result does not fit, then \<open>None\<close>.\<close>

definition int_shl :: "nat \<Rightarrow> int \<Rightarrow> int option" where
  "int_shl n x = (if 0 \<le> x \<and> push_bit n x < 2 ^ 31 then Some (push_bit n x) else None)"

text \<open>
  The stored measurement, given the shifted pressure offset; the variable \<open>temp\<close> of the code is \<open>tc\<close>. The other two
  shifts of a PROM word, by 8 and by 15, always fit an \<open>int\<close>, see \<open>prom_shifts_fit\<close> below. The last subtraction is unsigned and
  wraps around for a negative pressure.
\<close>

definition compensated :: "u16 list \<Rightarrow> int \<Rightarrow> int \<Rightarrow> int \<Rightarrow> ms5611_meas_data" where
  "compensated pr raw_temp raw_press offset =
     (let (dT, tc) = first_temp pr raw_temp;
          (t2, off2, sens2) = second_order dT tc;
          tc = to_i32 (tc - t2);
          off = to_u32 offset + drop_bit 7 (uint (pr ! 4) * dT);
          off = off - off2;
          sens = push_bit 15 (uint (pr ! 1)) + drop_bit 8 (uint (pr ! 3) * dT);
          sens = sens - sens2;
          p = to_i32 (drop_bit 15 (to_u64 (drop_bit 21 (to_u64 (raw_press * sens)) - off))) in
      \<lparr>press = word_of_int (c_div p 10), temp = word_of_int tc\<rparr>)"

definition compensate :: "u16 list \<Rightarrow> int \<Rightarrow> int \<Rightarrow> ms5611_meas_data option" where
  "compensate pr raw_temp raw_press =
     (case int_shl 16 (uint (pr ! 2)) of
        None \<Rightarrow> None
      | Some offset \<Rightarrow> Some (compensated pr raw_temp raw_press offset))"

subsection \<open>Measurement\<close>

text \<open>
  One conversion: the command, the request to read (both sleep in between), the three bytes.
  The result is an error or the raw value.
\<close>

definition ms5611_convert :: "'b i2c_ops \<Rightarrow> u16 \<Rightarrow> 'b \<Rightarrow> (int + u32) \<times> 'b" where
  "ms5611_convert i2c cmd b =
     (case i2c_write_dt i2c [ucast cmd] b of
        (ret, b) \<Rightarrow> if ret < 0 then (Inl ret, b)
        else (case i2c_write_dt i2c [MS5611_CMD_ADC_READ] b of
          (ret, b) \<Rightarrow> if ret < 0 then (Inl ret, b)
          else (case i2c_read_dt i2c 3 b of
            (ret, bytes, b) \<Rightarrow> if ret < 0 then (Inl ret, b)
            else let raw = sys_get_be24 bytes in
              if raw = 0 then (Inl (- EIO), b) else (Inr raw, b))))"

text \<open>\<open>None\<close> is the undefined shift.\<close>

definition ms5611_fetch_temp_and_press ::
  "'b i2c_ops \<Rightarrow> ms5611_data \<Rightarrow> 'b \<Rightarrow> (int \<times> ms5611_data \<times> 'b) option" where
  "ms5611_fetch_temp_and_press i2c data b =
     (case ms5611_convert i2c (read_cmd (osr_temp data)) b of
        (Inl ret, b) \<Rightarrow> Some (ret, data, b)
      | (Inr raw_temp, b) \<Rightarrow>
          (case ms5611_convert i2c (read_cmd (osr_pres data)) b of
             (Inl ret, b) \<Rightarrow> Some (ret, data, b)
           | (Inr raw_press, b) \<Rightarrow>
               (case compensate (prom data) (uint raw_temp) (uint raw_press) of
                  None \<Rightarrow> None
                | Some m \<Rightarrow> Some (0, data\<lparr>meas := m\<rparr>, b))))"

text \<open>\<open>__ASSERT_NO_MSG(chan == SENSOR_CHAN_ALL)\<close> is \<open>None\<close> too when it fails.\<close>

definition ms5611_sample_fetch ::
  "'b i2c_ops \<Rightarrow> ms5611_data \<Rightarrow> sensor_channel \<Rightarrow> 'b \<Rightarrow> (int \<times> ms5611_data \<times> 'b) option" where
  "ms5611_sample_fetch i2c data chan b =
     (if chan \<noteq> SENSOR_CHAN_ALL then None
      else (case ms5611_fetch_temp_and_press i2c data b of
              None \<Rightarrow> None
            | Some (ret, data, b) \<Rightarrow> if ret < 0 then Some (ret, data, b) else Some (0, data, b)))"

definition ms5611_channel_get ::
  "ms5611_data \<Rightarrow> sensor_channel \<Rightarrow> sensor_value \<Rightarrow> int \<times> sensor_value" where
  "ms5611_channel_get data chan val =
     (if chan = SENSOR_CHAN_PRESS then
        (0, \<lparr>val1 = to_i32 (uint (press (meas data)) div 100), val2 = uint (press (meas data)) mod 100\<rparr>)
      else if chan = SENSOR_CHAN_AMBIENT_TEMP then
        (0, \<lparr>val1 = to_i32 (uint (temp (meas data)) div 100), val2 = uint (temp (meas data)) mod 100\<rparr>)
      else (- ENOTSUP, val))"

subsection \<open>PROM and CRC\<close>

text \<open>The loop over the PROM words; it stops at the first error.\<close>

fun fetch_prom_loop :: "'b i2c_ops \<Rightarrow> nat list \<Rightarrow> ms5611_data \<Rightarrow> 'b \<Rightarrow> int \<times> ms5611_data \<times> 'b" where
  "fetch_prom_loop i2c [] data b = (0, data, b)"
| "fetch_prom_loop i2c (i # is) data b =
     (let i2c_cmd = MS5611_PROM_READ_BASE OR push_bit 1 (of_nat i) in
      case i2c_write_dt i2c [i2c_cmd] b of
        (ret, b) \<Rightarrow> if ret < 0 then (ret, data, b)
        else (case i2c_read_dt i2c 2 b of
          (ret, bytes, b) \<Rightarrow> if ret < 0 then (ret, data, b)
          else fetch_prom_loop i2c is (data\<lparr>prom := (prom data)[i := sys_get_be16 bytes]\<rparr>) b))"

definition ms5611_fetch_prom :: "'b i2c_ops \<Rightarrow> ms5611_data \<Rightarrow> 'b \<Rightarrow> int \<times> ms5611_data \<times> 'b" where
  "ms5611_fetch_prom i2c = fetch_prom_loop i2c [0..<MS5611_PROM_SIZE]"

primrec crc4_bits :: "nat \<Rightarrow> u32 \<Rightarrow> u32" where
  "crc4_bits 0 n_rem = n_rem"
| "crc4_bits (Suc n_bit) n_rem =
     crc4_bits n_bit (if n_rem AND 0x8000 \<noteq> 0 then push_bit 1 n_rem XOR 0x3000 else push_bit 1 n_rem)"

definition crc4_round :: "u16 list \<Rightarrow> nat \<Rightarrow> u32 \<Rightarrow> u32" where
  "crc4_round pr cnt n_rem =
     (let n_rem = (if cnt mod 2 = 1 then n_rem XOR ucast (ucast (pr ! (cnt div 2) AND 0x00FF) :: u8)
                   else n_rem XOR ucast (ucast (drop_bit 8 (pr ! (cnt div 2))) :: u8)) in
      crc4_bits 8 n_rem)"

text \<open>The CRC word is masked for the computation and restored afterwards.\<close>

definition ms5611_calculate_crc4 :: "ms5611_data \<Rightarrow> u8 \<times> ms5611_data" where
  "ms5611_calculate_crc4 data =
     (let crc_read = prom data ! MS5611_PROM_CRC_IDX;
          data = data\<lparr>prom := (prom data)[MS5611_PROM_CRC_IDX := 0xFF00 AND prom data ! MS5611_PROM_CRC_IDX]\<rparr>;
          n_rem = fold (crc4_round (prom data)) [0..<MS5611_PROM_BYTES] 0;
          n_rem = 0x000F AND drop_bit 12 n_rem;
          data = data\<lparr>prom := (prom data)[MS5611_PROM_CRC_IDX := crc_read]\<rparr> in
      (ucast (n_rem XOR 0x00), data))"

definition ms5611_check_coef_crc :: "'b i2c_ops \<Rightarrow> ms5611_data \<Rightarrow> 'b \<Rightarrow> int \<times> ms5611_data \<times> 'b" where
  "ms5611_check_coef_crc i2c data b =
     (let i2c_cmd = MS5611_PROM_READ_BASE OR push_bit 1 (of_nat MS5611_PROM_CRC_IDX) in
      case i2c_write_dt i2c [i2c_cmd] b of
        (ret, b) \<Rightarrow> if ret < 0 then (ret, data, b)
        else (case i2c_read_dt i2c 2 b of
          (ret, crc_bytes, b) \<Rightarrow> if ret < 0 then (ret, data, b)
          else
          let data = data\<lparr>prom := (prom data)[MS5611_PROM_CRC_IDX := sys_get_be16 crc_bytes]\<rparr>;
              (crc_value, data) = ms5611_calculate_crc4 data in
          if ucast crc_value \<noteq> prom data ! MS5611_PROM_CRC_IDX then (- ENOTSUP, data, b) else (0, data, b)))"

definition ms5611_init :: "'b i2c_ops \<Rightarrow> ms5611_data \<Rightarrow> 'b \<Rightarrow> int \<times> ms5611_data \<times> 'b" where
  "ms5611_init i2c data b =
     (case i2c_write_dt i2c [MS5611_CMD_RESET] b of
        (ret, b) \<Rightarrow> if ret < 0 then (ret, data, b)
        else (case ms5611_fetch_prom i2c data b of
          (ret, data, b) \<Rightarrow> if ret < 0 then (ret, data, b)
          else (case ms5611_check_coef_crc i2c data b of
            (ret, data, b) \<Rightarrow> if ret < 0 then (ret, data, b)
            else
            let osr_config = \<lparr>val1 = MS5611_OSR_DEFAULT, val2 = 0\<rparr>;
                (ret, data) = ms5611_pressure_osr_set data osr_config in
            if ret < 0 then (ret, data, b)
            else let (ret, data) = ms5611_temperature_osr_set data osr_config in
              if ret < 0 then (ret, data, b) else (0, data, b))))"

subsection \<open>Exactness of the arithmetic\<close>

lemma to_i32_id: "- (2 ^ 31) \<le> k \<Longrightarrow> k < 2 ^ 31 \<Longrightarrow> to_i32 k = k"
  by (simp add: to_i32_def signed_take_bit_int_eq_self)

lemma to_i32_to_u32: "to_i32 (to_u32 k) = to_i32 k"
  by (simp add: to_i32_def to_u32_def signed_take_bit_take_bit)

lemma to_u32_id: "0 \<le> k \<Longrightarrow> k < 2 ^ 32 \<Longrightarrow> to_u32 k = k"
  by (simp add: to_u32_def take_bit_int_eq_self)

lemma to_u64_id: "0 \<le> k \<Longrightarrow> k < 2 ^ 64 \<Longrightarrow> to_u64 k = k"
  by (simp add: to_u64_def take_bit_int_eq_self)

lemma wrapped_shift: "to_i32 (drop_bit 15 (to_u64 z)) = to_i32 (drop_bit 15 z)"
  by (simp add: to_i32_def to_u64_def drop_bit_take_bit signed_take_bit_take_bit)

lemma prom_range: "0 \<le> uint (w :: u16)" "uint w < 65536"
  using uint_less_unat [of w "2 ^ 16"] unsigned_less [of w] by simp_all

lemma prom_shifts_fit: "int_shl 8 (uint (w :: u16)) \<noteq> None" "int_shl 15 (uint w) \<noteq> None"
  "int_shl 16 (uint w) = (if uint w < 2 ^ 15 then Some (uint w * 2 ^ 16) else None)"
  using prom_range [of w] by (auto simp: int_shl_def push_bit_eq_mult)

lemma dT_eq:
  assumes "0 \<le> raw_temp" "raw_temp < 2 ^ 24"
  shows "to_i32 (to_u32 (raw_temp - to_u32 (push_bit 8 (uint (w :: u16))))) = raw_temp - 256 * uint w"
proof -
  obtain c where c: "uint w = c" "0 \<le> c" "c < 65536" using prom_range by blast
  have "to_u32 (push_bit 8 c) = 256 * c"
    using c by (subst to_u32_id) (simp_all add: push_bit_eq_mult mult.commute)
  moreover have "to_i32 (raw_temp - 256 * c) = raw_temp - 256 * c"
    using assms c by (intro to_i32_id) simp_all
  ultimately show ?thesis by (simp add: to_i32_to_u32 c)
qed

lemma mult_range:
  fixes a b :: int
  assumes "0 \<le> a" "a < A" "0 \<le> b" "b < B"
  shows "0 \<le> a * b" "a * b < A * B"
  using assms by (simp_all add: mult_strict_mono' mult_nonneg_nonneg)

text \<open>The formulas of the data sheet for temperatures from 20 degrees up, in unbounded integers.\<close>

definition sheet_dT :: "u16 list \<Rightarrow> int \<Rightarrow> int" where
  "sheet_dT pr raw_temp = raw_temp - uint (pr ! 5) * 2 ^ 8"

definition sheet_temp :: "u16 list \<Rightarrow> int \<Rightarrow> int" where
  "sheet_temp pr raw_temp = 2000 + sheet_dT pr raw_temp * uint (pr ! 6) div 2 ^ 23"

definition sheet_press :: "u16 list \<Rightarrow> int \<Rightarrow> int \<Rightarrow> int" where
  "sheet_press pr raw_temp raw_press =
     (let off = uint (pr ! 2) * 2 ^ 16 + uint (pr ! 4) * sheet_dT pr raw_temp div 2 ^ 7;
          sens = uint (pr ! 1) * 2 ^ 15 + uint (pr ! 3) * sheet_dT pr raw_temp div 2 ^ 8 in
      (raw_press * sens div 2 ^ 21 - off) div 2 ^ 15)"

lemma first_temp_eq:
  assumes "0 \<le> raw_temp" "raw_temp < 2 ^ 24"
  shows "first_temp pr raw_temp = (sheet_dT pr raw_temp, sheet_temp pr raw_temp)"
proof -
  let ?d = "sheet_dT pr raw_temp"
  have d: "to_i32 (to_u32 (raw_temp - to_u32 (push_bit 8 (uint (pr ! 5))))) = ?d"
    using dT_eq [OF assms] by (simp add: sheet_dT_def)
  obtain c e where c: "uint (pr ! 5) = c" "0 \<le> c" "c < 65536" and e: "uint (pr ! 6) = e" "0 \<le> e" "e < 65536"
    using prom_range by blast
  have bounds: "- (2 ^ 24) < ?d" "?d < 2 ^ 24" using assms c by (simp_all add: sheet_dT_def)
  have "\<bar>?d * e\<bar> \<le> 2 ^ 24 * 2 ^ 16"
    unfolding abs_mult using bounds e by (intro mult_mono) simp_all
  then have "?d * e \<le> 2 ^ 40" "- (2 ^ 40) \<le> ?d * e" by simp_all
  then have "?d * e div 2 ^ 23 \<le> 2 ^ 40 div 2 ^ 23" "(- (2 ^ 40)) div 2 ^ 23 \<le> ?d * e div 2 ^ 23"
    by (intro zdiv_mono1; simp)+
  then have "to_i32 (2000 + drop_bit 23 (?d * e)) = 2000 + ?d * e div 2 ^ 23"
    unfolding drop_bit_eq_div by (intro to_i32_id) simp_all
  then show ?thesis by (simp add: first_temp_def d Let_def e sheet_temp_def)
qed

lemma second_order_t2:
  fixes dT :: int
  assumes "dT < 0" "- (2 ^ 31) \<le> dT"
  shows "drop_bit 31 (dT XOR 2) = - 1"
proof (rule bit_eqI)
  fix n
  have "drop_bit 31 dT = - 1"
    using assms int_div_pos_eq [of dT "2 ^ 31" "- 1" "dT + 2 ^ 31"] by (simp add: drop_bit_eq_div)
  then have "bit (drop_bit 31 dT) n" by simp
  then have "bit dT (31 + n)" by (simp add: bit_drop_bit_eq)
  then show "bit (drop_bit 31 (dT XOR 2)) n = bit (- 1 :: int) n"
    by (simp add: bit_drop_bit_eq bit_xor_iff bit_simps)
qed

lemma cold_dT:
  assumes "sheet_temp pr raw_temp < 2000"
  shows "sheet_dT pr raw_temp < 0"
proof (rule ccontr)
  assume "\<not> sheet_dT pr raw_temp < 0"
  then have "0 \<le> sheet_dT pr raw_temp * uint (pr ! 6)" by simp
  then have "0 \<le> sheet_dT pr raw_temp * uint (pr ! 6) div 2 ^ 23" by (simp add: pos_imp_zdiv_nonneg_iff)
  with assms show False by (simp add: sheet_temp_def)
qed

lemma warm_compensate:
  assumes "0 \<le> raw_temp" "raw_temp < 2 ^ 24" "0 \<le> raw_press" "raw_press < 2 ^ 24"
    and "0 \<le> sheet_dT pr raw_temp"
  shows "compensated pr raw_temp raw_press (uint (pr ! 2) * 2 ^ 16) =
    \<lparr>press = word_of_int (c_div (sheet_press pr raw_temp raw_press) 10),
     temp = word_of_int (sheet_temp pr raw_temp)\<rparr>"
proof -
  define d where "d = sheet_dT pr raw_temp"
  obtain c1 c2 c3 c4 c5 c6 where c: "uint (pr ! 1) = c1" "uint (pr ! 2) = c2" "uint (pr ! 3) = c3" "uint (pr ! 4) = c4"
    "uint (pr ! 5) = c5" "uint (pr ! 6) = c6" by blast
  have r: "0 \<le> c1" "c1 < 65536" "0 \<le> c2" "c2 < 65536" "0 \<le> c3" "c3 < 65536" "0 \<le> c4" "c4 < 65536"
    "0 \<le> c5" "c5 < 65536" "0 \<le> c6" "c6 < 65536"
    using prom_range c by blast+
  have d: "0 \<le> d" "d < 2 ^ 24"
    using assms r by (simp_all add: d_def sheet_dT_def c)
  have t: "0 \<le> d * c6" "d * c6 < 2 ^ 40"
    using mult_range [of d "2 ^ 24" c6 65536] d r by simp_all
  then have temp: "2000 \<le> sheet_temp pr raw_temp" "sheet_temp pr raw_temp < 2 ^ 18"
  proof -
    have "0 \<le> d * c6 div 2 ^ 23" using t by (simp add: pos_imp_zdiv_nonneg_iff)
    moreover have "d * c6 div 2 ^ 23 \<le> 2 ^ 40 div 2 ^ 23" using t by (intro zdiv_mono1) simp_all
    ultimately show "2000 \<le> sheet_temp pr raw_temp" "sheet_temp pr raw_temp < 2 ^ 18"
      by (simp_all add: sheet_temp_def d_def c)
  qed
  define off where "off = c2 * 2 ^ 16 + c4 * d div 2 ^ 7"
  define sens where "sens = c1 * 2 ^ 15 + c3 * d div 2 ^ 8"
  have m4: "0 \<le> c4 * d" "c4 * d < 2 ^ 40" and m3: "0 \<le> c3 * d" "c3 * d < 2 ^ 40"
    using mult_range [of c4 65536 d "2 ^ 24"] mult_range [of c3 65536 d "2 ^ 24"] d r by simp_all
  have "c4 * d div 2 ^ 7 \<le> 2 ^ 40 div 2 ^ 7" "0 \<le> c4 * d div 2 ^ 7"
    "c3 * d div 2 ^ 8 \<le> 2 ^ 40 div 2 ^ 8" "0 \<le> c3 * d div 2 ^ 8"
    using m3 m4 by (simp_all add: pos_imp_zdiv_nonneg_iff zdiv_mono1)
  then have os: "0 \<le> off" "off < 2 ^ 34" "0 \<le> sens" "sens < 2 ^ 33"
    using r by (simp_all add: off_def sens_def)
  have m: "0 \<le> raw_press * sens" "raw_press * sens < 2 ^ 57"
    using mult_range [of raw_press "2 ^ 24" sens "2 ^ 33"] assms os by simp_all
  have y: "0 \<le> raw_press * sens div 2 ^ 21" "raw_press * sens div 2 ^ 21 \<le> 2 ^ 36"
  proof -
    have "raw_press * sens div 2 ^ 21 \<le> 2 ^ 57 div 2 ^ 21" using m by (intro zdiv_mono1) simp_all
    then show "raw_press * sens div 2 ^ 21 \<le> 2 ^ 36" by simp
    show "0 \<le> raw_press * sens div 2 ^ 21" using m by (simp add: pos_imp_zdiv_nonneg_iff)
  qed
  let ?z = "raw_press * sens div 2 ^ 21 - off"
  have z: "?z div 2 ^ 15 \<le> 2 ^ 36 div 2 ^ 15" "(- (2 ^ 34)) div 2 ^ 15 \<le> ?z div 2 ^ 15"
    using y os by (intro zdiv_mono1; simp)+
  have "to_i32 (drop_bit 15 (to_u64 (drop_bit 21 (to_u64 (raw_press * sens)) - off))) = ?z div 2 ^ 15"
  proof -
    have "to_u64 (raw_press * sens) = raw_press * sens" using m by (intro to_u64_id) simp_all
    moreover have "to_i32 (?z div 2 ^ 15) = ?z div 2 ^ 15" using z by (intro to_i32_id) simp_all
    ultimately show ?thesis unfolding wrapped_shift by (simp only: drop_bit_eq_div)
  qed
  moreover have "to_u32 (c2 * 2 ^ 16) = c2 * 2 ^ 16"
    using r by (subst to_u32_id) simp_all
  moreover have "second_order d (sheet_temp pr raw_temp) = (0, 0, 0)"
    using temp by (simp add: second_order_def)
  moreover have "to_i32 (sheet_temp pr raw_temp) = sheet_temp pr raw_temp"
    using temp by (intro to_i32_id) simp_all
  moreover have "sheet_press pr raw_temp raw_press = ?z div 2 ^ 15"
    by (simp only: sheet_press_def Let_def c off_def sens_def d_def)
  ultimately show ?thesis
    using first_temp_eq [OF assms(1,2), of pr]
    by (simp only: compensated_def Let_def prod.case c diff_zero d_def [symmetric] off_def [symmetric]
        push_bit_eq_mult [of 15] drop_bit_eq_div [of 7] drop_bit_eq_div [of 8] sens_def [symmetric])
qed

lemma uint_word_of_int_u32: "uint (word_of_int k :: u32) = take_bit 32 k"
  by (simp add: unsigned_of_int)

lemma cold_temp:
  assumes "0 \<le> raw_temp" "raw_temp < 2 ^ 24" and cold: "sheet_temp pr raw_temp < 2000"
  shows "uint (temp (compensated pr raw_temp raw_press offset)) = to_u32 (sheet_temp pr raw_temp + 1)"
proof -
  let ?d = "sheet_dT pr raw_temp"
  obtain c5 where c: "uint (pr ! 5) = c5" "0 \<le> c5" "c5 < 65536" using prom_range by blast
  obtain c6 where c6: "uint (pr ! 6) = c6" "0 \<le> c6" "c6 < 65536" using prom_range by blast
  have d: "?d < 0" "- (2 ^ 24) < ?d"
    using cold_dT [OF cold] assms c by (simp_all add: sheet_dT_def)
  have "- (2 ^ 40) \<le> ?d * c6"
  proof -
    have "\<bar>?d * c6\<bar> \<le> 2 ^ 24 * 2 ^ 16" unfolding abs_mult using d c6 by (intro mult_mono) simp_all
    then show ?thesis by simp
  qed
  then have "(- (2 ^ 40)) div 2 ^ 23 \<le> ?d * c6 div 2 ^ 23" by (intro zdiv_mono1) simp_all
  then have low: "- (2 ^ 18) \<le> sheet_temp pr raw_temp" by (simp add: sheet_temp_def c6)
  obtain o2 s2 where t2: "second_order ?d (sheet_temp pr raw_temp) = (- 1, o2, s2)"
  proof -
    have "fst (second_order ?d (sheet_temp pr raw_temp)) = - 1"
      using cold d second_order_t2 [of ?d] by (simp add: second_order_def Let_def)
    then show ?thesis using that by (metis prod.collapse)
  qed
  have "to_i32 (sheet_temp pr raw_temp + 1) = sheet_temp pr raw_temp + 1"
    using cold low by (intro to_i32_id) simp_all
  then show ?thesis
    by (simp add: compensated_def first_temp_eq [OF assms(1,2)] Let_def t2 to_u32_def
        uint_word_of_int_u32 del: of_int_add)
qed

lemma be24_range: "uint (sys_get_be24 bs) < 2 ^ 24"
proof -
  have "unat (sys_get_be24 bs) < 2 ^ 24"
    unfolding sys_get_be24_def
    by (rule iffD1 [OF below_bit_unat]) (auto simp: below_bit_def bit_simps dest!: bit_imp_le_length)
  then show ?thesis using uint_less_unat [of "sys_get_be24 bs" "2 ^ 24"] by simp
qed

lemma convert_range:
  "ms5611_convert i2c cmd b = (Inr raw, b') \<Longrightarrow> 0 \<le> uint raw \<and> uint raw < 2 ^ 24"
  using be24_range
  by (auto simp: ms5611_convert_def Let_def split: prod.splits if_splits)

lemma fetch_ok:
  assumes "ms5611_convert i2c (read_cmd (osr_temp data)) b = (Inr rt, b1)"
    "ms5611_convert i2c (read_cmd (osr_pres data)) b1 = (Inr rp, b2)"
  shows "ms5611_fetch_temp_and_press i2c data b =
    (if uint (prom data ! 2) < 2 ^ 15
     then Some (0, data\<lparr>meas := compensated (prom data) (uint rt) (uint rp) (uint (prom data ! 2) * 2 ^ 16)\<rparr>, b2) else None)"
  using assms by (simp add: ms5611_fetch_temp_and_press_def compensate_def prom_shifts_fit)

subsection \<open>Measurement properties\<close>

text \<open>The temperature the driver stores: the second order correction below 20 degrees is \<open>+ 1\<close>.\<close>

definition stored_temp :: "u16 list \<Rightarrow> int \<Rightarrow> int" where
  "stored_temp pr raw_temp =
     (let t = sheet_temp pr raw_temp in if t < 2000 then t + 1 else t)"

lemma sheet_temp_bounds:
  assumes "0 \<le> raw_temp" "raw_temp < 2 ^ 24"
  shows "- (2 ^ 18) \<le> sheet_temp pr raw_temp \<and> sheet_temp pr raw_temp < 2 ^ 18"
proof -
  let ?d = "sheet_dT pr raw_temp"
  obtain c5 where c: "uint (pr ! 5) = c5" "0 \<le> c5" "c5 < 65536" using prom_range by blast
  obtain c6 where c6: "uint (pr ! 6) = c6" "0 \<le> c6" "c6 < 65536" using prom_range by blast
  have "\<bar>?d * c6\<bar> \<le> 2 ^ 24 * 2 ^ 16"
    unfolding abs_mult using assms c c6 by (intro mult_mono) (simp_all add: sheet_dT_def abs_le_iff)
  then have "(- (2 ^ 40)) div 2 ^ 23 \<le> ?d * c6 div 2 ^ 23" "?d * c6 div 2 ^ 23 \<le> 2 ^ 40 div 2 ^ 23"
    by (intro zdiv_mono1; simp)+
  then show ?thesis by (simp add: sheet_temp_def c6)
qed

lemma warm_temp:
  assumes "0 \<le> raw_temp" "raw_temp < 2 ^ 24" and warm: "\<not> sheet_temp pr raw_temp < 2000"
  shows "uint (temp (compensated pr raw_temp raw_press offset)) = to_u32 (sheet_temp pr raw_temp)"
proof -
  have "second_order (sheet_dT pr raw_temp) (sheet_temp pr raw_temp) = (0, 0, 0)"
    using warm by (simp add: second_order_def)
  moreover have "to_i32 (sheet_temp pr raw_temp) = sheet_temp pr raw_temp"
    using sheet_temp_bounds [OF assms(1,2), of pr] by (intro to_i32_id) auto
  ultimately show ?thesis
    by (simp add: compensated_def first_temp_eq [OF assms(1,2)] Let_def)
      (simp add: to_u32_def uint_word_of_int_u32)
qed

lemma compensate_temp:
  assumes "0 \<le> raw_temp" "raw_temp < 2 ^ 24"
  shows "uint (temp (compensated pr raw_temp raw_press offset)) = stored_temp pr raw_temp mod 2 ^ 32"
  using cold_temp [OF assms] warm_temp [OF assms]
  by (simp add: stored_temp_def Let_def to_u32_def take_bit_eq_mod)

lemma channel_get_temp:
  assumes "uint (temp (meas data)) = T mod 2 ^ 32"
  shows "ms5611_channel_get data SENSOR_CHAN_AMBIENT_TEMP v =
    (0, \<lparr>val1 = T mod 2 ^ 32 div 100, val2 = T mod 2 ^ 32 mod 100\<rparr>)"
proof -
  have "T mod 2 ^ 32 < 2 ^ 32" "0 \<le> T mod 2 ^ 32" by simp_all
  then have "to_i32 (T mod 2 ^ 32 div 100) = T mod 2 ^ 32 div 100"
    by (intro to_i32_id) (auto simp: div_less_dividend intro: order_trans [of _ 0] zdiv_mono1 [THEN order_le_less_trans])
  then show ?thesis by (simp only: ms5611_channel_get_def assms) simp
qed

text \<open>The state of the data sheet's worked example, for the witnesses.\<close>

definition example_data :: ms5611_data where
  "example_data = \<lparr>prom = [0, 40127, 36924, 23317, 23282, 33464, 28312, 0],
     osr_pres = \<lparr>ratio = 256, read_cmd = 0x40, resp_time = 600\<rparr>,
     osr_temp = \<lparr>ratio = 256, read_cmd = 0x50, resp_time = 600\<rparr>,
     meas = \<lparr>press = 0, temp = 0\<rparr>\<rparr>"

lemma example_convert:
  "ms5611_convert scripted_i2c cmd ([0x82, 0xC1, 0x3E] # b) = (Inr 8569150, b)"
  "ms5611_convert scripted_i2c cmd ([0x8A, 0xA2, 0x1A] # b) = (Inr 9085466, b)"
  "ms5611_convert scripted_i2c cmd ([0x60, 0x00, 0x00] # b) = (Inr 6291456, b)"
  by (simp_all add: ms5611_convert_def scripted_i2c_def sys_get_be24_def MS5611_CMD_ADC_READ_def)

text \<open>The same chip with a pressure offset below \<open>2^15\<close>.\<close>

definition low_offset_data :: ms5611_data where
  "low_offset_data = example_data\<lparr>prom := (prom example_data)[2 := 30000]\<rparr>"

text \<open>
  C37: when both conversions succeed, the chip is at or above its reference temperature and the pressure offset of its PROM
  is below \<open>2^15\<close>, the fetch stores exactly the data sheet's temperature and pressure, as unsigned words of 32 bits; for a larger
  offset, that of the data sheet's own example among them, the shift of the offset overflows an \<open>int\<close>, which C leaves
  undefined. Nothing else of the data changes.
\<close>

theorem ms5611_fetch_exact:
  assumes "ms5611_convert i2c (read_cmd (osr_temp data)) b = (Inr rt, b1)"
    and "ms5611_convert i2c (read_cmd (osr_pres data)) b1 = (Inr rp, b2)"
    and "0 \<le> sheet_dT (prom data) (uint rt)"
  shows "ms5611_fetch_temp_and_press i2c data b =
    (if uint (prom data ! 2) < 2 ^ 15
     then Some (0, data\<lparr>meas := \<lparr>press = word_of_int (c_div (sheet_press (prom data) (uint rt) (uint rp)) 10),
                              temp = word_of_int (sheet_temp (prom data) (uint rt))\<rparr>\<rparr>, b2)
     else None)"
  using fetch_ok [OF assms(1,2)] convert_range [OF assms(1)] convert_range [OF assms(2)]
    warm_compensate assms(3) by simp

theorem ms5611_fetch_exact_witness:
  "ms5611_fetch_temp_and_press scripted_i2c low_offset_data [[0x82, 0xC1, 0x3E], [0x8A, 0xA2, 0x1A]] =
    Some (0, low_offset_data\<lparr>meas := \<lparr>press = 11385, temp = 2007\<rparr>\<rparr>, []) \<and>
   ms5611_fetch_temp_and_press scripted_i2c example_data [[0x82, 0xC1, 0x3E], [0x8A, 0xA2, 0x1A]] = None"
proof
  show "ms5611_fetch_temp_and_press scripted_i2c low_offset_data [[0x82, 0xC1, 0x3E], [0x8A, 0xA2, 0x1A]] =
      Some (0, low_offset_data\<lparr>meas := \<lparr>press = 11385, temp = 2007\<rparr>\<rparr>, [])"
    by (subst ms5611_fetch_exact [OF example_convert(1) example_convert(2)])
      (simp_all add: low_offset_data_def example_data_def sheet_dT_def sheet_temp_def sheet_press_def c_div_def)
  show "ms5611_fetch_temp_and_press scripted_i2c example_data [[0x82, 0xC1, 0x3E], [0x8A, 0xA2, 0x1A]] = None"
    by (subst ms5611_fetch_exact [OF example_convert(1) example_convert(2)]) (simp_all add: example_data_def sheet_dT_def)
qed

text \<open>
  The temperature read back after a successful fetch. At or above 20 degrees it is the data
  sheet's; below it is the data sheet's first order value plus one hundredth, because \<open>^\<close> is XOR
  and the second order term is always \<open>-1\<close>; and a negative temperature comes back modulo
  \<open>2^32\<close>, as some 42949672 degrees, because the driver keeps it unsigned.
\<close>

theorem ms5611_temperature_reported:
  assumes "ms5611_convert i2c (read_cmd (osr_temp data)) b = (Inr rt, b1)"
    and "ms5611_convert i2c (read_cmd (osr_pres data)) b1 = (Inr rp, b2)"
    and "ms5611_fetch_temp_and_press i2c data b = Some (ret, data', b')"
    and "ms5611_channel_get data' SENSOR_CHAN_AMBIENT_TEMP v = (ret', v')"
  shows "100 * val1 v' + val2 v' = stored_temp (prom data) (uint rt) mod 2 ^ 32 \<and> ret = 0 \<and> ret' = 0"
proof -
  have "uint (temp (meas data')) = stored_temp (prom data) (uint rt) mod 2 ^ 32" "ret = 0"
    using fetch_ok [OF assms(1,2)] assms(3) compensate_temp convert_range [OF assms(1)] by (auto split: if_splits)
  with assms(4) channel_get_temp [of data' "stored_temp (prom data) (uint rt)" v]
  show ?thesis by (auto simp: mult_div_mod_eq)
qed

theorem ms5611_temperature_reported_witness:
  "\<exists>data' b' v'. ms5611_fetch_temp_and_press scripted_i2c low_offset_data
      [[0x60, 0x00, 0x00], [0x82, 0xC1, 0x3E]] = Some (0, data', b') \<and>
    ms5611_channel_get data' SENSOR_CHAN_AMBIENT_TEMP \<lparr>val1 = 0, val2 = 0\<rparr> = (0, v') \<and>
    stored_temp (prom low_offset_data) 6291456 = - 5679 \<and>
    100 * val1 v' + val2 v' = 4294961617"
proof -
  obtain ret d b' where f: "ms5611_fetch_temp_and_press scripted_i2c low_offset_data
      [[0x60, 0x00, 0x00], [0x82, 0xC1, 0x3E]] = Some (ret, d, b')"
    using fetch_ok [OF example_convert(3) example_convert(1), of low_offset_data] by (simp add: low_offset_data_def example_data_def)
  obtain ret' v' where g: "ms5611_channel_get d SENSOR_CHAN_AMBIENT_TEMP \<lparr>val1 = 0, val2 = 0\<rparr> = (ret', v')"
    by (rule prod.exhaust)
  have t: "stored_temp (prom low_offset_data) 6291456 = - 5679"
    by (simp add: stored_temp_def sheet_temp_def sheet_dT_def low_offset_data_def example_data_def)
  then show ?thesis
    using ms5611_temperature_reported [OF example_convert(3) example_convert(1) f g] f g by simp
qed

subsection \<open>Settings and PROM\<close>

definition pres_settings :: "ms5611_osr_data list" where
  "pres_settings = map (\<lambda>(r, c, t). \<lparr>ratio = r, read_cmd = c, resp_time = t\<rparr>)
     [(256, 0x40, 600), (512, 0x42, 1170), (1024, 0x44, 2280), (2048, 0x46, 4540), (4096, 0x48, 9040)]"

definition temp_settings :: "ms5611_osr_data list" where
  "temp_settings = map (\<lambda>(r, c, t). \<lparr>ratio = r, read_cmd = c, resp_time = t\<rparr>)
     [(256, 0x50, 600), (512, 0x52, 1170), (1024, 0x54, 2280), (2048, 0x56, 4540), (4096, 0x58, 9040)]"

definition osr_ok :: "ms5611_data \<Rightarrow> bool" where
  "osr_ok data \<longleftrightarrow> osr_pres data \<in> set pres_settings \<and> osr_temp data \<in> set temp_settings"

text \<open>Both setters accept the same ratios, so \<open>SENSOR_CHAN_ALL\<close> never fails half way.\<close>

lemma osr_set_agree:
  "fst (ms5611_pressure_osr_set data v) = fst (ms5611_temperature_osr_set data' v)"
  by (simp add: ms5611_pressure_osr_set_def ms5611_temperature_osr_set_def)

lemma osr_set_effect:
  "ms5611_pressure_osr_set data v = (ret, data') \<Longrightarrow>
    (ret \<noteq> 0 \<and> data' = data) \<or> (ret = 0 \<and> (\<exists>q\<in>set pres_settings. data' = data\<lparr>osr_pres := q\<rparr>))"
  "ms5611_temperature_osr_set data v = (ret, data') \<Longrightarrow>
    (ret \<noteq> 0 \<and> data' = data) \<or> (ret = 0 \<and> (\<exists>q\<in>set temp_settings. data' = data\<lparr>osr_temp := q\<rparr>))"
  by (auto simp: ms5611_pressure_osr_set_def ms5611_temperature_osr_set_def pres_settings_def
      temp_settings_def EINVAL_def split: if_splits)

text \<open>
  Setting an attribute keeps the oversampling settings among the ten of the data sheet, leaves
  PROM and measurement alone, and on an error changes nothing, also for both channels at once.
\<close>

theorem ms5611_attr_set_safe:
  assumes "osr_ok data" "ms5611_attr_set data chan attr v = (ret, data')"
  shows "osr_ok data' \<and> prom data' = prom data \<and> meas data' = meas data \<and>
    (ret \<noteq> 0 \<longrightarrow> data' = data)"
proof (cases "attr = SENSOR_ATTR_OVERSAMPLING \<and> chan = SENSOR_CHAN_ALL")
  case True
  obtain r d where p: "ms5611_pressure_osr_set data v = (r, d)" by (rule prod.exhaust)
  obtain r' d' where t: "ms5611_temperature_osr_set d v = (r', d')" by (rule prod.exhaust)
  have "r = r'" using osr_set_agree [of data v d] p t by simp
  then show ?thesis
    using True assms p t osr_set_effect(1) [OF p] osr_set_effect(2) [OF t]
    by (auto simp: ms5611_attr_set_def osr_ok_def split: if_splits)
next
  case False
  then show ?thesis
    using assms osr_set_effect [of data v ret data']
    by (auto simp: ms5611_attr_set_def osr_ok_def split: if_splits)
qed

theorem ms5611_attr_set_safe_witness:
  "osr_ok (snd (ms5611_attr_set example_data SENSOR_CHAN_ALL SENSOR_ATTR_OVERSAMPLING
      \<lparr>val1 = 4096, val2 = 0\<rparr>)) \<and>
   snd (ms5611_attr_set example_data SENSOR_CHAN_ALL SENSOR_ATTR_OVERSAMPLING
      \<lparr>val1 = 300, val2 = 0\<rparr>) = example_data"
proof -
  have ok: "osr_ok example_data"
    by (simp add: osr_ok_def example_data_def pres_settings_def temp_settings_def)
  have "fst (ms5611_attr_set example_data SENSOR_CHAN_ALL SENSOR_ATTR_OVERSAMPLING
      \<lparr>val1 = 300, val2 = 0\<rparr>) \<noteq> 0"
    by (simp add: ms5611_attr_set_def ms5611_pressure_osr_set_def EINVAL_def)
  then show ?thesis
    using ms5611_attr_set_safe [OF ok prod.collapse [symmetric]] by blast
qed

lemma calculate_crc4_restores:
  "snd (ms5611_calculate_crc4 data) = data"
  by (simp add: ms5611_calculate_crc4_def Let_def)

lemma calculate_crc4_result:
  "ms5611_calculate_crc4 data = (crc, data') \<Longrightarrow>
    data' = data \<and> crc = fst (ms5611_calculate_crc4 data')"
  using calculate_crc4_restores [of data] by simp

lemma crc4_small: "unat (fst (ms5611_calculate_crc4 data)) < 16"
proof -
  have f: "(0x000F :: u32) = mask 4" by (simp add: mask_eq_exp_minus_1)
  have "below_bit 4 (ucast (0x000F AND w XOR 0x00) :: u8)" for w :: u32
    unfolding f by (auto simp: below_bit_def bit_simps)
  then have "unat (ucast (0x000F AND w XOR 0x00) :: u8) < 2 ^ 4" for w :: u32
    by (simp only: below_bit_unat)
  then show ?thesis by (simp add: ms5611_calculate_crc4_def Let_def)
qed

lemma unat_ucast_u8_u16: "unat (ucast (w :: u8) :: u16) = unat w"
proof -
  have "unat w < 2 ^ 8" using unsigned_less [where 'a = nat, of w] by simp
  then have "unat w < 2 ^ 16" by simp
  then show ?thesis by (simp add: unsigned_ucast_eq take_bit_nat_eq_self)
qed

lemma check_coef_crc_ok:
  assumes "ms5611_check_coef_crc i2c data b = (ret, data', b')" "\<not> ret < 0"
  shows "ret = 0 \<and> ucast (fst (ms5611_calculate_crc4 data')) = prom data' ! 7 \<and>
    unat (prom data' ! 7) < 16"
proof -
  have eq: "ret = 0 \<and> ucast (fst (ms5611_calculate_crc4 data')) = prom data' ! 7"
    using assms
    by (auto dest!: calculate_crc4_result simp: ms5611_check_coef_crc_def Let_def ms5611_sizes ENOTSUP_def
        split: prod.splits if_splits)
  have "unat (ucast (fst (ms5611_calculate_crc4 data')) :: u16) < 16"
    using crc4_small [of data'] by (simp add: unat_ucast_u8_u16)
  with eq show ?thesis by simp
qed

text \<open>
  An initialisation that succeeds has verified the PROM and set the default oversampling. The
  whole word that holds the CRC must equal the four bit CRC, so a chip whose reserved bits there
  are not all zero is always refused.
\<close>

theorem ms5611_init_ok:
  assumes "ms5611_init i2c data b = (ret, data', b')" "\<not> ret < 0"
  shows "ret = 0 \<and> unat (prom data' ! 7) < 16 \<and>
    ucast (fst (ms5611_calculate_crc4 data')) = prom data' ! 7 \<and>
    osr_pres data' = \<lparr>ratio = 256, read_cmd = 0x40, resp_time = 600\<rparr> \<and>
    osr_temp data' = \<lparr>ratio = 256, read_cmd = 0x50, resp_time = 600\<rparr>"
proof -
  obtain d0 b0 d1 b1 where c: "ms5611_check_coef_crc i2c d0 b0 = (0, d1, b1)"
    and d: "data' = d1\<lparr>osr_pres := \<lparr>ratio = 256, read_cmd = 0x40, resp_time = 600\<rparr>,
       osr_temp := \<lparr>ratio = 256, read_cmd = 0x50, resp_time = 600\<rparr>\<rparr>" "ret = 0"
    using assms check_coef_crc_ok
    by (fastforce simp: ms5611_init_def ms5611_pressure_osr_set_def ms5611_temperature_osr_set_def
        MS5611_OSR_DEFAULT_def split: prod.splits if_splits)
  have "ms5611_calculate_crc4 data' = (fst (ms5611_calculate_crc4 d1), data')"
    using d by (simp add: ms5611_calculate_crc4_def Let_def)
  then show ?thesis using check_coef_crc_ok [OF c] d by simp
qed

text \<open>An erased PROM passes the check: the CRC of zeros is zero.\<close>

definition example_prom :: "u8 list list" where
  "example_prom = replicate 9 [0, 0]"

lemma crc4_bits_zero: "crc4_bits n 0 = 0"
  by (induction n) simp_all

lemma crc4_round_zero: "i < 16 \<Longrightarrow> crc4_round (replicate 8 0) i 0 = 0"
  by (simp add: crc4_round_def Let_def crc4_bits_zero less_mult_imp_div_less)

lemma crc4_fold_zero: "\<forall>i\<in>set is. i < 16 \<Longrightarrow> fold (crc4_round (replicate 8 0)) is 0 = 0"
  by (induction "is") (simp_all add: crc4_round_zero)

lemma crc4_zero:
  assumes "prom data = replicate 8 0"
  shows "ms5611_calculate_crc4 data = (0, data)"
proof -
  have "(replicate 8 (0 :: u16))[7 := 0] = replicate 8 0" by (simp add: eval_nat_numeral)
  then show ?thesis using assms crc4_fold_zero [of "[0..<16]"]
    by (simp add: ms5611_calculate_crc4_def ms5611_sizes)
qed

lemma example_prom_fetch:
  "ms5611_fetch_prom scripted_i2c example_data example_prom =
    (0, example_data\<lparr>prom := replicate 8 0\<rparr>, [[0, 0]])"
  by (simp add: ms5611_fetch_prom_def scripted_i2c_def example_prom_def ms5611_sizes
      upt_rec sys_get_be16_def example_data_def eval_nat_numeral)

lemma example_init: "fst (ms5611_init scripted_i2c example_data example_prom) = 0"
proof -
  have "(replicate 8 (0 :: u16))[7 := 0] = replicate 8 0" by (simp add: eval_nat_numeral)
  moreover have "i2c_write_dt scripted_i2c = (\<lambda>bs b. (0, b))" "i2c_read_dt scripted_i2c 2 [[0, 0]] = (0, [0, 0], [])"
    by (simp_all add: scripted_i2c_def)
  ultimately show ?thesis
    by (simp add: ms5611_init_def example_prom_fetch ms5611_check_coef_crc_def ms5611_sizes
        sys_get_be16_def crc4_zero ms5611_pressure_osr_set_def ms5611_temperature_osr_set_def
        MS5611_OSR_DEFAULT_def)
qed

theorem ms5611_init_ok_witness:
  "\<exists>data' b'. ms5611_init scripted_i2c example_data example_prom = (0, data', b') \<and>
    unat (prom data' ! 7) < 16"
proof -
  obtain ret d b' where f: "ms5611_init scripted_i2c example_data example_prom = (ret, d, b')"
    by (rule prod_cases3)
  then have "\<not> ret < 0" using example_init by simp
  with ms5611_init_ok [OF f] f show ?thesis by simp
qed

end
