(* ===== verification/Ina260.thy ===== *)
theory Ina260
  imports Bus Complex_Main
begin

text \<open>
  The INA260 power monitor driver, \<open>drivers/sensor/ina260/ina260.c\<close> and \<open>ina260.h\<close>: register
  access over I2C, configuration, sampling and the conversion of the raw registers.

  Zephyr's \<open>sensor_value_from_float\<close> is the parameter \<open>from_float\<close>: it gets the exact product of
  register and scale and includes the rounding to \<open>float\<close>.
\<close>

subsection \<open>Registers and settings\<close>

definition INA260_VOLTS_PER_LSB :: rat where "INA260_VOLTS_PER_LSB = 125 / 100000"
definition INA260_AMPS_PER_LSB :: rat where "INA260_AMPS_PER_LSB = 125 / 100000"
definition INA260_WATTS_PER_LSB :: rat where "INA260_WATTS_PER_LSB = 1 / 100"

definition INA260_REG_CONF :: u8 where "INA260_REG_CONF = 0x00"
definition INA260_REG_CURRENT :: u8 where "INA260_REG_CURRENT = 0x01"
definition INA260_REG_V_BUS :: u8 where "INA260_REG_V_BUS = 0x02"
definition INA260_REG_POWER :: u8 where "INA260_REG_POWER = 0x03"

definition INA260_RST :: u16 where "INA260_RST = push_bit 15 1"
definition INA260_CONF_REQUIRED_TOP_BITS :: u16 where "INA260_CONF_REQUIRED_TOP_BITS = 0b0110"

lemmas ina260_regs = INA260_REG_CONF_def INA260_REG_CURRENT_def INA260_REG_V_BUS_def INA260_REG_POWER_def

datatype ina260_mode =
    TRIG_OFF | TRIG_CURRENT | TRIG_VOLTAGE | TRIG_BOTH | CONT_OFF | CONT_CURRENT | CONT_VOLTAGE | CONT_BOTH

primrec mode_code :: "ina260_mode \<Rightarrow> u16" where
  "mode_code TRIG_OFF = 0b000"
| "mode_code TRIG_CURRENT = 0b001"
| "mode_code TRIG_VOLTAGE = 0b010"
| "mode_code TRIG_BOTH = 0b011"
| "mode_code CONT_OFF = 0b100"
| "mode_code CONT_CURRENT = 0b101"
| "mode_code CONT_VOLTAGE = 0b110"
| "mode_code CONT_BOTH = 0b111"

text \<open>The modes are compared as the numbers of the enumeration.\<close>

lemma mode_code_inject: "mode_code m = mode_code m' \<longleftrightarrow> m = m'"
  by (cases m; cases m'; simp)

instantiation ina260_mode :: linorder
begin

definition less_eq_ina260_mode :: "ina260_mode \<Rightarrow> ina260_mode \<Rightarrow> bool" where
  "less_eq_ina260_mode m m' \<longleftrightarrow> mode_code m \<le> mode_code m'"

definition less_ina260_mode :: "ina260_mode \<Rightarrow> ina260_mode \<Rightarrow> bool" where
  "less_ina260_mode m m' \<longleftrightarrow> mode_code m < mode_code m'"

instance
  by standard (auto simp: less_eq_ina260_mode_def less_ina260_mode_def mode_code_inject order_less_le)

end

datatype average_samples =
    AVG_1 | AVG_4 | AVG_16 | AVG_64 | AVG_128 | AVG_256 | AVG_512 | AVG_1024

primrec average_code :: "average_samples \<Rightarrow> u16" where
  "average_code AVG_1 = 0b000"
| "average_code AVG_4 = 0b001"
| "average_code AVG_16 = 0b010"
| "average_code AVG_64 = 0b011"
| "average_code AVG_128 = 0b100"
| "average_code AVG_256 = 0b101"
| "average_code AVG_512 = 0b110"
| "average_code AVG_1024 = 0b111"

datatype conv_time =
    CONV_TIME_140US | CONV_TIME_204US | CONV_TIME_332US | CONV_TIME_588US
  | CONV_TIME_1100US | CONV_TIME_2116US | CONV_TIME_4156US | CONV_TIME_8244US

primrec conv_code :: "conv_time \<Rightarrow> u16" where
  "conv_code CONV_TIME_140US = 0b000"
| "conv_code CONV_TIME_204US = 0b001"
| "conv_code CONV_TIME_332US = 0b010"
| "conv_code CONV_TIME_588US = 0b011"
| "conv_code CONV_TIME_1100US = 0b100"
| "conv_code CONV_TIME_2116US = 0b101"
| "conv_code CONV_TIME_4156US = 0b110"
| "conv_code CONV_TIME_8244US = 0b111"

record ina260_config =
  average :: average_samples
  voltage_conv_time :: conv_time
  current_conv_time :: conv_time
  mode :: ina260_mode

record ina260_data =
  v_bus :: u16
  power :: u16
  current :: u16

subsection \<open>Operations\<close>

definition ina260_reg_read :: "'b i2c_ops \<Rightarrow> u8 \<Rightarrow> u16 \<Rightarrow> 'b \<Rightarrow> int \<times> u16 \<times> 'b" where
  "ina260_reg_read i2c reg_addr reg_data b =
     (case i2c_write_read_dt i2c [reg_addr] 2 b of
        (rc, rx_buf, b) \<Rightarrow> (rc, if rc = 0 then sys_get_be16 rx_buf else reg_data, b))"

definition ina260_reg_write :: "'b i2c_ops \<Rightarrow> u8 \<Rightarrow> u16 \<Rightarrow> 'b \<Rightarrow> int \<times> 'b" where
  "ina260_reg_write i2c addr reg_data b = i2c_write_dt i2c (addr # sys_put_be16 reg_data) b"

text \<open>One \<open>if (chan == ...)\<close> of the fetch: a register is read into a field, or the error is returned.\<close>

definition fetch_reg ::
  "'b i2c_ops \<Rightarrow> bool \<Rightarrow> u8 \<Rightarrow> (u16 \<Rightarrow> ina260_data \<Rightarrow> ina260_data) \<Rightarrow> ina260_data \<Rightarrow> 'b \<Rightarrow>
     int \<times> ina260_data \<times> 'b" where
  "fetch_reg i2c wanted reg upd data b =
     (if wanted then
        (case ina260_reg_read i2c reg 0 b of
           (rc, tmp, b) \<Rightarrow> if rc \<noteq> 0 then (rc, data, b) else (0, upd tmp data, b))
      else (0, data, b))"

definition ina260_sample_fetch ::
  "'b i2c_ops \<Rightarrow> ina260_config \<Rightarrow> sensor_channel \<Rightarrow> ina260_data \<Rightarrow> 'b \<Rightarrow> int \<times> ina260_data \<times> 'b" where
  "ina260_sample_fetch i2c cfg chan data b =
     (if chan \<noteq> SENSOR_CHAN_ALL \<and> chan \<noteq> SENSOR_CHAN_VOLTAGE \<and> chan \<noteq> SENSOR_CHAN_POWER \<and>
         chan \<noteq> SENSOR_CHAN_CURRENT then (- ENOTSUP, data, b)
      else if mode cfg < CONT_OFF then (- ENOTSUP, data, b)
      else
      (case fetch_reg i2c (chan = SENSOR_CHAN_ALL \<or> chan = SENSOR_CHAN_VOLTAGE) INA260_REG_V_BUS
              (\<lambda>tmp d. d\<lparr>v_bus := tmp\<rparr>) data b of
        (rc, data, b) \<Rightarrow> if rc \<noteq> 0 then (rc, data, b) else
      (case fetch_reg i2c (chan = SENSOR_CHAN_ALL \<or> chan = SENSOR_CHAN_POWER) INA260_REG_POWER
              (\<lambda>tmp d. d\<lparr>power := tmp\<rparr>) data b of
        (rc, data, b) \<Rightarrow> if rc \<noteq> 0 then (rc, data, b) else
       fetch_reg i2c (chan = SENSOR_CHAN_ALL \<or> chan = SENSOR_CHAN_CURRENT) INA260_REG_CURRENT
              (\<lambda>tmp d. d\<lparr>current := tmp\<rparr>) data b)))"

definition ina260_channel_get ::
  "(rat \<Rightarrow> int \<times> sensor_value) \<Rightarrow> ina260_data \<Rightarrow> sensor_channel \<Rightarrow> sensor_value \<Rightarrow> int \<times> sensor_value" where
  "ina260_channel_get from_float data chan val =
     (if chan = SENSOR_CHAN_VOLTAGE then from_float (of_int (uint (v_bus data)) * INA260_VOLTS_PER_LSB)
      else if chan = SENSOR_CHAN_CURRENT then from_float (of_int (uint (current data)) * INA260_AMPS_PER_LSB)
      else if chan = SENSOR_CHAN_POWER then from_float (of_int (uint (power data)) * INA260_WATTS_PER_LSB)
      else (- ENOTSUP, val))"

definition conf_reg :: "ina260_config \<Rightarrow> u16" where
  "conf_reg cfg =
     push_bit 12 INA260_CONF_REQUIRED_TOP_BITS OR push_bit 9 (average_code (average cfg)) OR
     push_bit 6 (conv_code (voltage_conv_time cfg)) OR push_bit 3 (conv_code (current_conv_time cfg)) OR
     mode_code (mode cfg)"

definition ina260_init :: "'b i2c_ops \<Rightarrow> bool \<Rightarrow> ina260_config \<Rightarrow> 'b \<Rightarrow> int \<times> 'b" where
  "ina260_init i2c device_is_ready cfg b =
     (if \<not> device_is_ready then (- ENODEV, b)
      else (case ina260_reg_write i2c INA260_REG_CONF INA260_RST b of
        (rc, b) \<Rightarrow> if rc \<noteq> 0 then (rc, b)
        else (case ina260_reg_write i2c INA260_REG_CONF (conf_reg cfg) b of
          (rc, b) \<Rightarrow> if rc \<noteq> 0 then (rc, b) else (0, b))))"

subsection \<open>The configuration register\<close>

lemma codes_below:
  "below_bit 3 (mode_code m)" "below_bit 3 (average_code a)" "below_bit 3 (conv_code c)"
  "below_bit 3 INA260_CONF_REQUIRED_TOP_BITS"
proof -
  show "below_bit 3 (mode_code m)" unfolding below_bit_unat by (cases m) simp_all
  show "below_bit 3 (average_code a)" unfolding below_bit_unat by (cases a) simp_all
  show "below_bit 3 (conv_code c)" unfolding below_bit_unat by (cases c) simp_all
  show "below_bit 3 INA260_CONF_REQUIRED_TOP_BITS"
    unfolding below_bit_unat by (simp add: INA260_CONF_REQUIRED_TOP_BITS_def)
qed

lemma code_bits [simp]:
  "3 \<le> n \<Longrightarrow> \<not> bit (mode_code m) n" "3 \<le> n \<Longrightarrow> \<not> bit (average_code a) n"
  "3 \<le> n \<Longrightarrow> \<not> bit (conv_code c) n" "3 \<le> n \<Longrightarrow> \<not> bit INA260_CONF_REQUIRED_TOP_BITS n"
  using codes_below by (auto simp: below_bit_def)

lemma average_code_inject: "average_code a = average_code a' \<longleftrightarrow> a = a'"
  by (cases a; cases a'; simp)

lemma conv_code_inject: "conv_code c = conv_code c' \<longleftrightarrow> c = c'"
  by (cases c; cases c'; simp)

definition field :: "nat \<Rightarrow> u16 \<Rightarrow> u16" where
  "field n w = take_bit 3 (drop_bit n w)"

lemma conf_reg_bits: "bit (conf_reg cfg) n \<longleftrightarrow> n < 16 \<and>
   (if n < 3 then bit (mode_code (mode cfg)) n
    else if n < 6 then bit (conv_code (current_conv_time cfg)) (n - 3)
    else if n < 9 then bit (conv_code (voltage_conv_time cfg)) (n - 6)
    else if n < 12 then bit (average_code (average cfg)) (n - 9)
    else bit INA260_CONF_REQUIRED_TOP_BITS (n - 12))"
  by (auto simp: conf_reg_def bit_simps dest: bit_imp_le_length)

lemma conf_reg_fields:
  "field 0 (conf_reg cfg) = mode_code (mode cfg)"
  "field 3 (conf_reg cfg) = conv_code (current_conv_time cfg)"
  "field 6 (conf_reg cfg) = conv_code (voltage_conv_time cfg)"
  "field 9 (conf_reg cfg) = average_code (average cfg)"
  by (rule bit_word_eqI; simp add: field_def bit_simps conf_reg_bits; fastforce simp: not_less)+

lemma conf_reg_top: "drop_bit 12 (conf_reg cfg) = INA260_CONF_REQUIRED_TOP_BITS"
proof (rule bit_word_eqI)
  fix n
  show "bit (drop_bit 12 (conf_reg cfg)) n = bit INA260_CONF_REQUIRED_TOP_BITS n"
    by (cases "n < 3") (simp_all add: bit_drop_bit_eq conf_reg_bits)
qed

text \<open>
  The configuration register carries the four settings in their fields and the required top
  bits, so that different settings give different registers.
\<close>

theorem ina260_conf_reg_roundtrip:
  "field 0 (conf_reg cfg) = mode_code (mode cfg) \<and>
   field 3 (conf_reg cfg) = conv_code (current_conv_time cfg) \<and>
   field 6 (conf_reg cfg) = conv_code (voltage_conv_time cfg) \<and>
   field 9 (conf_reg cfg) = average_code (average cfg) \<and>
   drop_bit 12 (conf_reg cfg) = 0b0110 \<and>
   (conf_reg cfg = conf_reg (cfg' :: ina260_config)) = (cfg = cfg')"
proof -
  have "conf_reg cfg = conf_reg cfg' \<Longrightarrow> cfg = cfg'"
    using conf_reg_fields [of cfg] conf_reg_fields [of cfg']
    by (simp add: mode_code_inject average_code_inject conv_code_inject)
  then show ?thesis
    using conf_reg_fields [of cfg] conf_reg_top [of cfg]
    by (auto simp: INA260_CONF_REQUIRED_TOP_BITS_def)
qed

subsection \<open>Sampling\<close>

text \<open>
  A chip with registers \<open>regs\<close> on a bus where the read of register \<open>r\<close> ends with \<open>err r\<close>:
  the documented behaviour of a write-read and of the chip's registers.
\<close>

definition chip_reads :: "'b i2c_ops \<Rightarrow> (u8 \<Rightarrow> int) \<Rightarrow> (u8 \<Rightarrow> u16) \<Rightarrow> bool" where
  "chip_reads i2c err regs \<longleftrightarrow>
     (\<forall>r b. i2c_write_read_dt i2c [r] 2 b = (err r, if err r = 0 then sys_put_be16 (regs r) else [0, 0], b))"

lemma be16_round_trip: "sys_get_be16 (sys_put_be16 w) = w"
  by (rule bit_word_eqI) (auto simp: sys_get_be16_def sys_put_be16_def bit_simps)

lemma fetch_reg_chip:
  assumes "chip_reads i2c err regs"
  shows "fetch_reg i2c wanted r upd data b =
    (if wanted then (err r, if err r = 0 then upd (regs r) data else data, b) else (0, data, b))"
  using assms by (simp add: fetch_reg_def ina260_reg_read_def chip_reads_def be16_round_trip)

text \<open>
  In a continuous mode a fetch of all channels reads bus voltage, power and current in this
  order; the first error ends it and is the result, and exactly the fields read before it are new.
\<close>

theorem ina260_sample_fetch_all:
  assumes "chip_reads i2c err regs" "CONT_OFF \<le> mode cfg"
  shows "ina260_sample_fetch i2c cfg SENSOR_CHAN_ALL data b =
    (if err INA260_REG_V_BUS \<noteq> 0 then (err INA260_REG_V_BUS, data, b)
     else if err INA260_REG_POWER \<noteq> 0 then (err INA260_REG_POWER, data\<lparr>v_bus := regs INA260_REG_V_BUS\<rparr>, b)
     else if err INA260_REG_CURRENT \<noteq> 0 then
       (err INA260_REG_CURRENT, data\<lparr>v_bus := regs INA260_REG_V_BUS, power := regs INA260_REG_POWER\<rparr>, b)
     else (0, \<lparr>v_bus = regs INA260_REG_V_BUS, power = regs INA260_REG_POWER,
               current = regs INA260_REG_CURRENT\<rparr>, b))"
  using assms(2) by (simp add: ina260_sample_fetch_def fetch_reg_chip [OF assms(1)] not_less [symmetric])

definition example_i2c :: "unit i2c_ops" where
  "example_i2c = \<lparr>i2c_write_dt = (\<lambda>bs b. (0, b)), i2c_read_dt = (\<lambda>n b. (0, replicate n 0, b)),
     i2c_write_read_dt = (\<lambda>bs n b. if bs = [1] then (- EIO, [0, 0], b) else (0, sys_put_be16 (ucast (bs ! 0)), b))\<rparr>"

theorem ina260_sample_fetch_all_witness:
  "ina260_sample_fetch example_i2c
      \<lparr>average = AVG_1, voltage_conv_time = CONV_TIME_140US, current_conv_time = CONV_TIME_140US, mode = CONT_BOTH\<rparr>
      SENSOR_CHAN_ALL \<lparr>v_bus = 0, power = 0, current = 0\<rparr> () =
    (- EIO, \<lparr>v_bus = 2, power = 3, current = 0\<rparr>, ())"
proof -
  have "chip_reads example_i2c (\<lambda>r. if r = 1 then - EIO else 0) ucast"
    by (simp add: chip_reads_def example_i2c_def EIO_def)
  then show ?thesis
    by (subst ina260_sample_fetch_all [where err = "\<lambda>r. if r = 1 then - EIO else 0" and regs = ucast])
      (auto simp: ina260_regs less_eq_ina260_mode_def EIO_def)
qed

text \<open>
  The current register of the chip is a two's complement number, but the driver reads it
  as unsigned: a charging current of \<open>k\<close> counts below zero is reported as \<open>65536 + k\<close> counts,
  some 80 amperes in the other direction.
\<close>

theorem ina260_current_unsigned:
  assumes "- (2 ^ 15) \<le> k" "k < 2 ^ 15" "current data = word_of_int k"
  shows "ina260_channel_get from_float data SENSOR_CHAN_CURRENT val =
    from_float (of_int (if k < 0 then 65536 + k else k) * INA260_AMPS_PER_LSB)"
proof -
  have "uint (current data) = k mod 2 ^ 16"
    by (simp only: assms(3) uint_word_of_int) simp
  also have "\<dots> = (if k < 0 then 65536 + k else k)"
    using assms(1,2) mod_pos_pos_trivial [of "k + 65536" 65536] by (simp add: mod_add_self2)
  finally show ?thesis by (simp add: ina260_channel_get_def)
qed

theorem ina260_current_unsigned_witness:
  "ina260_channel_get (\<lambda>q. (0, \<lparr>val1 = \<lfloor>q\<rfloor>, val2 = 0\<rparr>)) \<lparr>v_bus = 0, power = 0, current = 0xFFFF\<rparr>
     SENSOR_CHAN_CURRENT \<lparr>val1 = 0, val2 = 0\<rparr> = (0, \<lparr>val1 = 81, val2 = 0\<rparr>)"
  by (subst ina260_current_unsigned [of "- 1"]) (simp_all add: INA260_AMPS_PER_LSB_def floor_eq_iff)

end
