(* ===== verification/Adxl375.thy ===== *)
theory Adxl375
  imports Bus
begin

text \<open>
  The ADXL375 accelerometer driver: \<open>adxl375.c\<close> over the table of transfer functions of
  \<open>adxl375.h\<close>, and the I2C transfer functions of \<open>adxl375_i2c.c\<close>. The table is the interface
  between the two: the locale \<open>register_access\<close> states what the driver relies on, the I2C
  functions are proved to provide it.
\<close>

subsection \<open>Registers and data\<close>

definition ADXL375_DEVID :: u8 where "ADXL375_DEVID = 0x00"
definition ADXL375_BW_RATE :: u8 where "ADXL375_BW_RATE = 0x2C"
definition ADXL375_POWER_CTL :: u8 where "ADXL375_POWER_CTL = 0x2D"
definition ADXL375_DATA_FORMAT :: u8 where "ADXL375_DATA_FORMAT = 0x31"
definition ADXL375_DATAX0 :: u8 where "ADXL375_DATAX0 = 0x32"

lemmas adxl375_regs = ADXL375_DEVID_def ADXL375_BW_RATE_def ADXL375_POWER_CTL_def
  ADXL375_DATA_FORMAT_def ADXL375_DATAX0_def

definition ADXL375_DEVID_VAL :: u8 where "ADXL375_DEVID_VAL = 0xE5"

text \<open>The macros of the register byte; their result is stored in a \<open>uint8_t\<close>.\<close>

definition ADXL375_READ :: u8 where "ADXL375_READ = 0x01"
definition ADXL375_REG_READ :: "u8 \<Rightarrow> u8" where "ADXL375_REG_READ x = push_bit 1 (x AND 0xFF) OR ADXL375_READ"
definition ADXL375_REG_WRITE :: "u8 \<Rightarrow> u8" where "ADXL375_REG_WRITE x = push_bit 1 (x AND 0xFF)"
definition ADXL375_TO_I2C_REG :: "u8 \<Rightarrow> u8" where "ADXL375_TO_I2C_REG x = drop_bit 1 x"
definition ADXL375_BW_RATE_LOW_POWER_MSK :: u8 where "ADXL375_BW_RATE_LOW_POWER_MSK = push_bit 4 1"

datatype adxl375_op_mode = ADXL375_STANDBY | ADXL375_MEASUREMENT | ADXL375_AUTOSLEEP

primrec op_mode_code :: "adxl375_op_mode \<Rightarrow> u8" where
  "op_mode_code ADXL375_STANDBY = 0x04"
| "op_mode_code ADXL375_MEASUREMENT = 0x08"
| "op_mode_code ADXL375_AUTOSLEEP = 0x24"

datatype adxl375_odr =
    ADXL375_ODR_0_10HZ | ADXL375_ODR_0_20HZ | ADXL375_ODR_0_39HZ | ADXL375_ODR_0_78HZ
  | ADXL375_ODR_1_56HZ | ADXL375_ODR_3_13HZ | ADXL375_ODR_6_25HZ | ADXL375_ODR_12_5HZ
  | ADXL375_ODR_25HZ | ADXL375_ODR_50HZ | ADXL375_ODR_100HZ | ADXL375_ODR_200HZ
  | ADXL375_ODR_400HZ | ADXL375_ODR_800HZ | ADXL375_ODR_1600HZ | ADXL375_ODR_3200HZ

primrec odr_code :: "adxl375_odr \<Rightarrow> u32" where
  "odr_code ADXL375_ODR_0_10HZ = 0" | "odr_code ADXL375_ODR_0_20HZ = 1"
| "odr_code ADXL375_ODR_0_39HZ = 2" | "odr_code ADXL375_ODR_0_78HZ = 3"
| "odr_code ADXL375_ODR_1_56HZ = 4" | "odr_code ADXL375_ODR_3_13HZ = 5"
| "odr_code ADXL375_ODR_6_25HZ = 6" | "odr_code ADXL375_ODR_12_5HZ = 7"
| "odr_code ADXL375_ODR_25HZ = 8" | "odr_code ADXL375_ODR_50HZ = 9"
| "odr_code ADXL375_ODR_100HZ = 10" | "odr_code ADXL375_ODR_200HZ = 11"
| "odr_code ADXL375_ODR_400HZ = 12" | "odr_code ADXL375_ODR_800HZ = 13"
| "odr_code ADXL375_ODR_1600HZ = 14" | "odr_code ADXL375_ODR_3200HZ = 15"

record adxl375_xyz_accel_data =
  acc_x :: u16
  acc_y :: u16
  acc_z :: u16

record 'b adxl375_transfer_function =
  read_reg_multiple :: "u8 \<Rightarrow> nat \<Rightarrow> 'b \<Rightarrow> int \<times> u8 list \<times> 'b"
  write_reg :: "u8 \<Rightarrow> u8 \<Rightarrow> 'b \<Rightarrow> int \<times> 'b"
  read_reg :: "u8 \<Rightarrow> 'b \<Rightarrow> int \<times> u8 \<times> 'b"
  write_reg_mask :: "u8 \<Rightarrow> u32 \<Rightarrow> u8 \<Rightarrow> 'b \<Rightarrow> int \<times> 'b"

record 'b adxl375_data =
  sample :: adxl375_xyz_accel_data
  hw_tf :: "'b adxl375_transfer_function"

record 'b adxl375_dev_config =
  bus_init :: "'b adxl375_data \<Rightarrow> 'b \<Rightarrow> int \<times> 'b adxl375_data \<times> 'b"
  odr :: adxl375_odr
  lp :: bool

subsection \<open>The driver\<close>

definition adxl375_check_id :: "'b adxl375_data \<Rightarrow> 'b \<Rightarrow> int \<times> 'b" where
  "adxl375_check_id data b =
     (case read_reg (hw_tf data) ADXL375_DEVID b of
        (ret, device_id, b) \<Rightarrow>
          if ret \<noteq> 0 then (ret, b)
          else if ADXL375_DEVID_VAL \<noteq> device_id then (- ENODEV, b)
          else (0, b))"

definition adxl375_set_odr_and_lp :: "'b adxl375_data \<Rightarrow> u32 \<Rightarrow> bool \<Rightarrow> 'b \<Rightarrow> int \<times> 'b" where
  "adxl375_set_odr_and_lp data data_rate low_power b =
     (let data_rate = (if low_power then data_rate OR 0x8 else data_rate) in
      write_reg (hw_tf data) ADXL375_BW_RATE (ucast data_rate) b)"

definition adxl375_set_op_mode :: "'b adxl375_data \<Rightarrow> adxl375_op_mode \<Rightarrow> 'b \<Rightarrow> int \<times> 'b" where
  "adxl375_set_op_mode data op_mode b = write_reg (hw_tf data) ADXL375_POWER_CTL (op_mode_code op_mode) b"

definition adxl375_set_data_format :: "'b adxl375_data \<Rightarrow> u8 \<Rightarrow> 'b \<Rightarrow> int \<times> 'b" where
  "adxl375_set_data_format data val b = write_reg (hw_tf data) ADXL375_DATA_FORMAT val b"

definition adxl375_init :: "'b adxl375_dev_config \<Rightarrow> 'b adxl375_data \<Rightarrow> 'b \<Rightarrow> int \<times> 'b adxl375_data \<times> 'b" where
  "adxl375_init cfg data b =
     (case bus_init cfg data b of
        (ret, data, b) \<Rightarrow> if ret < 0 then (ret, data, b)
        else (case adxl375_check_id data b of
          (ret, b) \<Rightarrow> if ret < 0 then (ret, data, b)
          else (case adxl375_set_odr_and_lp data (odr_code (odr cfg)) (lp cfg) b of
            (ret, b) \<Rightarrow> if ret < 0 then (ret, data, b)
            else (case adxl375_set_data_format data 0b00001011 b of
              (ret, b) \<Rightarrow> if ret < 0 then (ret, data, b)
              else (case adxl375_set_op_mode data ADXL375_MEASUREMENT b of
                (ret, b) \<Rightarrow> (ret, data, b))))))"

definition le16_at :: "u8 list \<Rightarrow> nat \<Rightarrow> u16" where
  "le16_at buff i = push_bit 8 (ucast (buff ! (i + 1))) OR ucast (buff ! i)"

text \<open>The sample is stored whatever the result of the transfer.\<close>

definition adxl375_sample_fetch :: "'b adxl375_data \<Rightarrow> 'b \<Rightarrow> int \<times> 'b adxl375_data \<times> 'b" where
  "adxl375_sample_fetch data b =
     (case read_reg_multiple (hw_tf data) ADXL375_DATAX0 6 b of
        (ret, buff, b) \<Rightarrow>
          (ret, data\<lparr>sample := \<lparr>acc_x = le16_at buff 0, acc_y = le16_at buff 2, acc_z = le16_at buff 4\<rparr>\<rparr>, b))"

text \<open>
  The conversion multiplies by \<open>SENSOR_G\<close> (9806650) and by 0.049, so a sample \<open>s\<close> is
  \<open>48052585 * s / 100\<close>. The doubles of the code are replaced by the exact value: it is never
  within \<open>10^-7\<close> of a multiple of a million unless it is zero, far above the rounding error, so
  the truncated quotient is the same. The cast to \<open>int16_t\<close> is undefined in C
  when the truncated value is out of range: then the result is \<open>None\<close>.
\<close>

definition adxl375_accel_convert :: "u16 \<Rightarrow> sensor_value option" where
  "adxl375_accel_convert sample_val =
     (let scaled = 48052585 * sint sample_val;
          whole = c_div scaled 100 in
      if - (2 ^ 15) \<le> whole \<and> whole < 2 ^ 15
      then Some \<lparr>val1 = c_div scaled 100000000, val2 = c_mod whole 1000000\<rparr>
      else None)"

definition adxl375_channel_get ::
  "'b adxl375_data \<Rightarrow> sensor_channel \<Rightarrow> (int \<times> sensor_value list) option" where
  "adxl375_channel_get data chan =
     (let conv = (\<lambda>s. adxl375_accel_convert s) in
      if chan = SENSOR_CHAN_ACCEL_X then map_option (\<lambda>v. (0, [v])) (conv (acc_x (sample data)))
      else if chan = SENSOR_CHAN_ACCEL_Y then map_option (\<lambda>v. (0, [v])) (conv (acc_y (sample data)))
      else if chan = SENSOR_CHAN_ACCEL_Z then map_option (\<lambda>v. (0, [v])) (conv (acc_z (sample data)))
      else if chan = SENSOR_CHAN_ACCEL_XYZ then
        Option.bind (conv (acc_x (sample data))) (\<lambda>x.
        Option.bind (conv (acc_y (sample data))) (\<lambda>y.
        Option.bind (conv (acc_z (sample data))) (\<lambda>z. Some (0, [x, y, z]))))
      else Some (- ENOTSUP, []))"

subsection \<open>The I2C transfer functions\<close>

definition adxl375_bus_access ::
  "'b i2c_reg_ops \<Rightarrow> u8 \<Rightarrow> u8 list \<Rightarrow> nat \<Rightarrow> 'b \<Rightarrow> int \<times> u8 list \<times> 'b" where
  "adxl375_bus_access i2c reg data len b =
     (if reg AND ADXL375_READ \<noteq> 0 then i2c_burst_read_dt i2c (ADXL375_TO_I2C_REG reg) len b
      else if len \<noteq> 1 then (- EINVAL, data, b)
      else (case i2c_reg_write_byte_dt i2c (ADXL375_TO_I2C_REG reg) (data ! 0) b of
              (ret, b) \<Rightarrow> (ret, data, b)))"

definition adxl375_i2c_reg_read :: "'b i2c_reg_ops \<Rightarrow> u8 \<Rightarrow> 'b \<Rightarrow> int \<times> u8 \<times> 'b" where
  "adxl375_i2c_reg_read i2c reg_addr b =
     (case adxl375_bus_access i2c (ADXL375_REG_READ reg_addr) [0] 1 b of (ret, buf, b) \<Rightarrow> (ret, buf ! 0, b))"

definition adxl375_i2c_reg_read_multiple :: "'b i2c_reg_ops \<Rightarrow> u8 \<Rightarrow> nat \<Rightarrow> 'b \<Rightarrow> int \<times> u8 list \<times> 'b" where
  "adxl375_i2c_reg_read_multiple i2c reg_addr cnt b =
     adxl375_bus_access i2c (ADXL375_REG_READ reg_addr) (replicate cnt 0) cnt b"

definition adxl375_i2c_reg_write :: "'b i2c_reg_ops \<Rightarrow> u8 \<Rightarrow> u8 \<Rightarrow> 'b \<Rightarrow> int \<times> 'b" where
  "adxl375_i2c_reg_write i2c reg_addr reg_data b =
     (case adxl375_bus_access i2c (ADXL375_REG_WRITE reg_addr) [reg_data] 1 b of (ret, _, b) \<Rightarrow> (ret, b))"

definition adxl375_i2c_reg_write_mask :: "'b i2c_reg_ops \<Rightarrow> u8 \<Rightarrow> u32 \<Rightarrow> u8 \<Rightarrow> 'b \<Rightarrow> int \<times> 'b" where
  "adxl375_i2c_reg_write_mask i2c reg_addr mask_val data b =
     (case adxl375_i2c_reg_read i2c reg_addr b of
        (ret, tmp, b) \<Rightarrow>
          if ret \<noteq> 0 then (ret, b)
          else let tmp = tmp AND ucast (NOT mask_val);
                   tmp = tmp OR data in
               adxl375_i2c_reg_write i2c reg_addr tmp b)"

definition adxl375_i2c_transfer_fn :: "'b i2c_reg_ops \<Rightarrow> 'b adxl375_transfer_function" where
  "adxl375_i2c_transfer_fn i2c =
     \<lparr>read_reg_multiple = adxl375_i2c_reg_read_multiple i2c, write_reg = adxl375_i2c_reg_write i2c,
      read_reg = adxl375_i2c_reg_read i2c, write_reg_mask = adxl375_i2c_reg_write_mask i2c\<rparr>"

definition adxl375_i2c_init ::
  "'b i2c_reg_ops \<Rightarrow> bool \<Rightarrow> 'b adxl375_data \<Rightarrow> 'b \<Rightarrow> int \<times> 'b adxl375_data \<times> 'b" where
  "adxl375_i2c_init i2c device_is_ready data b =
     (let data = data\<lparr>hw_tf := adxl375_i2c_transfer_fn i2c\<rparr> in
      if \<not> device_is_ready then (- ENODEV, data, b) else (0, data, b))"

subsection \<open>The interface between driver and bus\<close>

text \<open>What the driver relies on: the functions read and write the registers \<open>regs\<close> of the chip.\<close>

locale register_access =
  fixes tf :: "'b adxl375_transfer_function"
    and regs :: "'b \<Rightarrow> u8 \<Rightarrow> u8"
  assumes read_multiple: "r < 128 \<Longrightarrow>
      \<exists>b'. read_reg_multiple tf r n b = (0, map (\<lambda>i. regs b (r + of_nat i)) [0..<n], b') \<and> regs b' = regs b"
    and read_one: "r < 128 \<Longrightarrow> \<exists>b'. read_reg tf r b = (0, regs b r, b') \<and> regs b' = regs b"
    and write_one: "r < 128 \<Longrightarrow> \<exists>b'. write_reg tf r v b = (0, b') \<and> regs b' = (regs b)(r := v)"
    and write_mask: "r < 128 \<Longrightarrow>
      \<exists>b'. write_reg_mask tf r m v b = (0, b') \<and> regs b' = (regs b)(r := regs b r AND ucast (NOT m) OR v)"
begin

lemma check_id:
  "hw_tf data = tf \<Longrightarrow>
    \<exists>b'. adxl375_check_id data b = (if regs b ADXL375_DEVID = ADXL375_DEVID_VAL then 0 else - ENODEV, b') \<and>
      regs b' = regs b"
  using read_one [of ADXL375_DEVID b] by (auto simp: adxl375_check_id_def adxl375_regs)

lemma sample_fetch:
  "hw_tf data = tf \<Longrightarrow>
    \<exists>b'. adxl375_sample_fetch data b =
      (0, data\<lparr>sample := \<lparr>acc_x = push_bit 8 (ucast (regs b 0x33)) OR ucast (regs b 0x32),
                        acc_y = push_bit 8 (ucast (regs b 0x35)) OR ucast (regs b 0x34),
                        acc_z = push_bit 8 (ucast (regs b 0x37)) OR ucast (regs b 0x36)\<rparr>\<rparr>, b') \<and>
      regs b' = regs b"
  using read_multiple [of ADXL375_DATAX0 6 b]
  by (auto simp: adxl375_sample_fetch_def adxl375_regs le16_at_def)

lemma configure:
  assumes "hw_tf data = tf"
  shows "\<exists>b1 b2 b3. adxl375_set_odr_and_lp data rate low b = (0, b1) \<and>
      adxl375_set_data_format data fmt b1 = (0, b2) \<and> adxl375_set_op_mode data mode b2 = (0, b3) \<and>
      regs b3 = (regs b)(ADXL375_BW_RATE := ucast (if low then rate OR 8 else rate),
                         ADXL375_DATA_FORMAT := fmt, ADXL375_POWER_CTL := op_mode_code mode)"
proof -
  obtain b1 where 1: "write_reg tf ADXL375_BW_RATE (ucast (if low then rate OR 8 else rate)) b = (0, b1)"
    "regs b1 = (regs b)(ADXL375_BW_RATE := ucast (if low then rate OR 8 else rate))"
    using write_one [of ADXL375_BW_RATE] by (auto simp: adxl375_regs)
  obtain b2 where 2: "write_reg tf ADXL375_DATA_FORMAT fmt b1 = (0, b2)"
    "regs b2 = (regs b1)(ADXL375_DATA_FORMAT := fmt)"
    using write_one [of ADXL375_DATA_FORMAT] by (auto simp: adxl375_regs)
  obtain b3 where 3: "write_reg tf ADXL375_POWER_CTL (op_mode_code mode) b2 = (0, b3)"
    "regs b3 = (regs b2)(ADXL375_POWER_CTL := op_mode_code mode)"
    using write_one [of ADXL375_POWER_CTL] by (auto simp: adxl375_regs)
  show ?thesis
    using 1 2 3 assms
    by (auto simp: adxl375_set_odr_and_lp_def adxl375_set_data_format_def adxl375_set_op_mode_def)
qed

lemma init:
  assumes "bus_init cfg data b = (0, data', b0)" "regs b0 = regs b" "hw_tf data' = tf"
  shows "\<exists>b'. adxl375_init cfg data b =
      (if regs b ADXL375_DEVID = ADXL375_DEVID_VAL then 0 else - ENODEV, data', b') \<and>
    regs b' = (if regs b ADXL375_DEVID = ADXL375_DEVID_VAL then
       (regs b)(ADXL375_BW_RATE := ucast (if lp cfg then odr_code (odr cfg) OR 8 else odr_code (odr cfg)),
                ADXL375_DATA_FORMAT := 0x0B, ADXL375_POWER_CTL := 0x08) else regs b)"
proof -
  obtain b1 where 1: "adxl375_check_id data' b0 =
      (if regs b ADXL375_DEVID = ADXL375_DEVID_VAL then 0 else - ENODEV, b1)" "regs b1 = regs b"
    using check_id [OF assms(3), of b0] assms(2) by auto
  obtain b2 b3 b4 where 2: "adxl375_set_odr_and_lp data' (odr_code (odr cfg)) (lp cfg) b1 = (0, b2)"
    "adxl375_set_data_format data' 0b00001011 b2 = (0, b3)"
    "adxl375_set_op_mode data' ADXL375_MEASUREMENT b3 = (0, b4)"
    "regs b4 = (regs b1)(ADXL375_BW_RATE := ucast (if lp cfg then odr_code (odr cfg) OR 8 else odr_code (odr cfg)),
                ADXL375_DATA_FORMAT := 0x0B, ADXL375_POWER_CTL := 0x08)"
    using configure [OF assms(3), of "odr_code (odr cfg)" "lp cfg" b1 "0x0B" ADXL375_MEASUREMENT] by auto
  show ?thesis
    using assms(1) 1 2 by (cases "regs b ADXL375_DEVID = ADXL375_DEVID_VAL")
      (auto simp: adxl375_init_def ENODEV_def)
qed

end

text \<open>A chip on an I2C bus: documented behaviour of the bus and of the register addressing.\<close>

definition i2c_chip :: "'b i2c_reg_ops \<Rightarrow> ('b \<Rightarrow> u8 \<Rightarrow> u8) \<Rightarrow> bool" where
  "i2c_chip i2c regs \<longleftrightarrow>
     (\<forall>r n b. \<exists>b'. i2c_burst_read_dt i2c r n b = (0, map (\<lambda>i. regs b (r + of_nat i)) [0..<n], b') \<and>
        regs b' = regs b) \<and>
     (\<forall>r v b. \<exists>b'. i2c_reg_write_byte_dt i2c r v b = (0, b') \<and> regs b' = (regs b)(r := v))"

lemma register_byte:
  assumes "(r :: u8) < 128"
  shows "ADXL375_REG_READ r AND ADXL375_READ \<noteq> 0" "ADXL375_TO_I2C_REG (ADXL375_REG_READ r) = r"
    "ADXL375_REG_WRITE r AND ADXL375_READ = 0" "ADXL375_TO_I2C_REG (ADXL375_REG_WRITE r) = r"
proof -
  have "unat r < 2 ^ 7" using assms by (simp add: word_less_nat_alt)
  then have *: "n < 7" if "bit r n" for n
    using that below_bit_unat [of 7 r] by (auto simp: below_bit_def not_less [symmetric])
  have one: "bit (1 :: u8) n \<longleftrightarrow> n = 0" for n by (auto simp: bit_1_iff)
  show "ADXL375_REG_READ r AND ADXL375_READ \<noteq> 0"
  proof
    assume "ADXL375_REG_READ r AND ADXL375_READ = 0"
    then have "bit (ADXL375_REG_READ r AND ADXL375_READ) 0 = bit (0 :: u8) 0" by simp
    then show False by (simp add: ADXL375_REG_READ_def ADXL375_READ_def bit_simps)
  qed
  have "(0xFF :: u8) = - 1" by simp
  then have ff: "r AND 0xFF = r" by (simp only: and.right_neutral)
  show "ADXL375_TO_I2C_REG (ADXL375_REG_READ r) = r"
    by (rule bit_word_eqI)
      (use * in \<open>auto simp: ADXL375_TO_I2C_REG_def ADXL375_REG_READ_def ADXL375_READ_def ff bit_simps one simp del: push_bit_Suc\<close>)
  show "ADXL375_REG_WRITE r AND ADXL375_READ = 0"
    by (rule bit_word_eqI) (auto simp: ADXL375_REG_WRITE_def ADXL375_READ_def bit_simps one simp del: push_bit_Suc)
  show "ADXL375_TO_I2C_REG (ADXL375_REG_WRITE r) = r"
    by (rule bit_word_eqI)
      (use * in \<open>auto simp: ADXL375_TO_I2C_REG_def ADXL375_REG_WRITE_def ff bit_simps simp del: push_bit_Suc\<close>)
qed

lemma i2c_provides:
  assumes "i2c_chip i2c regs"
  shows "register_access (adxl375_i2c_transfer_fn i2c) regs"
proof -
  have rd: "\<exists>b'. adxl375_i2c_reg_read i2c r b = (0, regs b r, b') \<and> regs b' = regs b" if "r < 128" for r b
  proof -
    obtain b' where "i2c_burst_read_dt i2c r 1 b = (0, map (\<lambda>i. regs b (r + of_nat i)) [0..<1], b')" "regs b' = regs b"
      using assms unfolding i2c_chip_def by blast
    then show ?thesis
      using register_byte [OF that] by (simp add: adxl375_i2c_reg_read_def adxl375_bus_access_def)
  qed
  have wr: "\<exists>b'. adxl375_i2c_reg_write i2c r v b = (0, b') \<and> regs b' = (regs b)(r := v)" if "r < 128" for r v b
  proof -
    obtain b' where "i2c_reg_write_byte_dt i2c r v b = (0, b')" "regs b' = (regs b)(r := v)"
      using assms unfolding i2c_chip_def by blast
    then show ?thesis
      using register_byte [OF that] by (simp add: adxl375_i2c_reg_write_def adxl375_bus_access_def)
  qed
  show ?thesis
  proof
    fix r :: u8 and n b assume r: "r < 128"
    obtain b' where "i2c_burst_read_dt i2c r n b = (0, map (\<lambda>i. regs b (r + of_nat i)) [0..<n], b')" "regs b' = regs b"
      using assms unfolding i2c_chip_def by blast
    then show "\<exists>b'. read_reg_multiple (adxl375_i2c_transfer_fn i2c) r n b =
        (0, map (\<lambda>i. regs b (r + of_nat i)) [0..<n], b') \<and> regs b' = regs b"
      using register_byte [OF r]
      by (simp add: adxl375_i2c_transfer_fn_def adxl375_i2c_reg_read_multiple_def adxl375_bus_access_def)
  next
    fix r :: u8 and b assume "r < 128"
    then show "\<exists>b'. read_reg (adxl375_i2c_transfer_fn i2c) r b = (0, regs b r, b') \<and> regs b' = regs b"
      using rd by (simp add: adxl375_i2c_transfer_fn_def)
  next
    fix r v :: u8 and b assume "r < 128"
    then show "\<exists>b'. write_reg (adxl375_i2c_transfer_fn i2c) r v b = (0, b') \<and> regs b' = (regs b)(r := v)"
      using wr by (simp add: adxl375_i2c_transfer_fn_def)
  next
    fix r v :: u8 and m :: u32 and b assume r: "r < 128"
    obtain b1 where 1: "adxl375_i2c_reg_read i2c r b = (0, regs b r, b1)" "regs b1 = regs b"
      using rd [OF r] by blast
    obtain b2 where "adxl375_i2c_reg_write i2c r (regs b r AND ucast (NOT m) OR v) b1 = (0, b2)"
      "regs b2 = (regs b1)(r := regs b r AND ucast (NOT m) OR v)"
      using wr [OF r] by blast
    with 1 show "\<exists>b'. write_reg_mask (adxl375_i2c_transfer_fn i2c) r m v b = (0, b') \<and>
        regs b' = (regs b)(r := regs b r AND ucast (NOT m) OR v)"
      by (simp add: adxl375_i2c_transfer_fn_def adxl375_i2c_reg_write_mask_def Let_def)
  qed
qed

text \<open>
  A chip that is nothing but its registers, on an I2C bus. The transfer functions of the driver
  on it are an instance of the interface.
\<close>

definition register_file :: "(u8 \<Rightarrow> u8) i2c_reg_ops" where
  "register_file =
     \<lparr>i2c_burst_read_dt = (\<lambda>r n b. (0, map (\<lambda>i. b (r + of_nat i)) [0..<n], b)),
      i2c_reg_write_byte_dt = (\<lambda>r v b. (0, b(r := v)))\<rparr>"

lemma register_file_chip: "i2c_chip register_file (\<lambda>b. b)"
  by (simp add: i2c_chip_def register_file_def)

interpretation on_i2c: register_access "adxl375_i2c_transfer_fn register_file" "\<lambda>b. b"
  by (rule i2c_provides [OF register_file_chip])

lemma i2c_init_ready: "adxl375_i2c_init i2c True data b = (0, data\<lparr>hw_tf := adxl375_i2c_transfer_fn i2c\<rparr>, b)"
  by (simp add: adxl375_i2c_init_def)

text \<open>
  On a working I2C bus the initialisation succeeds exactly when the chip has the identity of an
  ADXL375; it then has set rate, data format and measurement mode and no other register. With
  another chip it ends with \<open>-ENODEV\<close> and has written nothing.
\<close>

theorem adxl375_init_configures:
  assumes "i2c_chip i2c regs" "bus_init cfg = adxl375_i2c_init i2c True"
  shows "\<exists>b'. adxl375_init cfg data b =
      (if regs b ADXL375_DEVID = ADXL375_DEVID_VAL then 0 else - ENODEV,
       data\<lparr>hw_tf := adxl375_i2c_transfer_fn i2c\<rparr>, b') \<and>
    regs b' = (if regs b ADXL375_DEVID = ADXL375_DEVID_VAL then
       (regs b)(ADXL375_BW_RATE := ucast (if lp cfg then odr_code (odr cfg) OR 8 else odr_code (odr cfg)),
                ADXL375_DATA_FORMAT := 0x0B, ADXL375_POWER_CTL := 0x08) else regs b)"
  by (rule register_access.init [OF i2c_provides [OF assms(1)]]) (simp_all add: assms(2) i2c_init_ready)

definition example_cfg :: "bool \<Rightarrow> (u8 \<Rightarrow> u8) adxl375_dev_config" where
  "example_cfg low = \<lparr>bus_init = adxl375_i2c_init register_file True, odr = ADXL375_ODR_3200HZ, lp = low\<rparr>"

theorem adxl375_init_configures_witness:
  "\<forall>data :: (u8 \<Rightarrow> u8) adxl375_data. fst (adxl375_init (example_cfg False) data (\<lambda>r. 0xE5)) = 0 \<and>
    fst (adxl375_init (example_cfg False) data (\<lambda>r. 0)) = - ENODEV"
proof
  fix data :: "(u8 \<Rightarrow> u8) adxl375_data"
  have "bus_init (example_cfg False) = adxl375_i2c_init register_file True" by (simp add: example_cfg_def)
  note init = adxl375_init_configures [OF register_file_chip this, of data]
  show "fst (adxl375_init (example_cfg False) data (\<lambda>r. 0xE5)) = 0 \<and>
    fst (adxl375_init (example_cfg False) data (\<lambda>r. 0)) = - ENODEV"
    using init [of "\<lambda>r. 0xE5"] init [of "\<lambda>r. 0"] by (auto simp: ADXL375_DEVID_VAL_def)
qed

text \<open>
  Asking for low power never sets the low power bit of the rate register: the code sets bit 3,
  which belongs to the rate, where the header names bit 4.
\<close>

theorem adxl375_low_power_not_set:
  assumes "i2c_chip i2c regs" "bus_init cfg = adxl375_i2c_init i2c True"
    and "adxl375_init cfg data b = (0, data', b')"
  shows "regs b' ADXL375_BW_RATE AND ADXL375_BW_RATE_LOW_POWER_MSK = 0 \<and>
    (lp cfg \<longrightarrow> regs b' ADXL375_BW_RATE AND 8 = 8)"
proof -
  have "regs b' ADXL375_BW_RATE = ucast (if lp cfg then odr_code (odr cfg) OR 8 else odr_code (odr cfg))"
    using register_access.init [OF i2c_provides [OF assms(1)], of cfg data b _ b] assms(2,3)
    by (auto simp: i2c_init_ready adxl375_regs ENODEV_def split: if_splits)
  then show ?thesis
    by (cases "odr cfg") (simp_all add: ADXL375_BW_RATE_LOW_POWER_MSK_def)
qed

theorem adxl375_low_power_not_set_witness:
  "\<forall>data :: (u8 \<Rightarrow> u8) adxl375_data.
     snd (snd (adxl375_init (example_cfg True) data (\<lambda>r. 0xE5))) ADXL375_BW_RATE AND ADXL375_BW_RATE_LOW_POWER_MSK = 0"
proof
  fix data :: "(u8 \<Rightarrow> u8) adxl375_data"
  have cfg: "bus_init (example_cfg True) = adxl375_i2c_init register_file True" by (simp add: example_cfg_def)
  obtain d b where r: "adxl375_init (example_cfg True) data (\<lambda>r. 0xE5) = (0, d, b)"
    using on_i2c.init [of "example_cfg True" data "\<lambda>r. 0xE5" _ "\<lambda>r. 0xE5"] cfg
    by (auto simp: i2c_init_ready ADXL375_DEVID_VAL_def)
  show "snd (snd (adxl375_init (example_cfg True) data (\<lambda>r. 0xE5))) ADXL375_BW_RATE AND ADXL375_BW_RATE_LOW_POWER_MSK = 0"
    using adxl375_low_power_not_set [OF register_file_chip cfg r] r by simp
qed

text \<open>
  The conversion of a sample is defined in C for zero only: every other sample leads to a
  cast to \<open>int16_t\<close> that is out of range.
\<close>

theorem adxl375_convert_only_zero:
  "adxl375_channel_get data SENSOR_CHAN_ACCEL_XYZ =
    (if acc_x (sample data) = 0 \<and> acc_y (sample data) = 0 \<and> acc_z (sample data) = 0
     then Some (0, replicate 3 \<lparr>val1 = 0, val2 = 0\<rparr>) else None)"
proof -
  have "adxl375_accel_convert s = (if s = 0 then Some \<lparr>val1 = 0, val2 = 0\<rparr> else None)" for s
  proof (cases "s = 0")
    case False
    then have "sint s \<noteq> 0" using signed_eq_0_iff by blast
    then have "48052585 * sint s \<le> - 48052585 \<or> 48052585 \<le> 48052585 * sint s" by linarith
    then have "c_div (48052585 * sint s) 100 < - (2 ^ 15) \<or> 2 ^ 15 \<le> c_div (48052585 * sint s) 100"
      by (auto simp: c_div_def)
    then show ?thesis using False by (auto simp: adxl375_accel_convert_def Let_def)
  qed (simp add: adxl375_accel_convert_def c_div_def c_mod_def)
  then show ?thesis
    by (simp add: adxl375_channel_get_def eval_nat_numeral split: Option.bind_splits)
qed

end
