(* ===== verification/Openrocket.thy ===== *)
theory Openrocket
  imports Bus Complex_Main
begin

text \<open>
  The simulated sensors, \<open>drivers/sensor/openrocket\<close>: they replay a recorded flight, the array
  \<open>or_packets\<close>, at the time since boot. The scalars \<open>or_scalar_t\<close> are exact rationals: the
  comparisons are those of the code, the interpolation leaves the rounding of float or double out.
  \<open>None\<close> is a read past the array or a failed \<open>assert\<close>.
\<close>

subsection \<open>Time, interpolation, noise\<close>

record or_common_params =
  broken :: bool
  sampling_period_us :: u32
  lag_time_us :: u32

record or_data_t =
  time_s :: rat
  vert_accel :: rat
  lat_accel :: rat
  roll :: rat
  pitch :: rat
  yaw :: rat
  temperature :: rat
  pressure :: rat
  latitude :: rat
  longitude :: rat
  velocity :: rat
  altitude :: rat
  bearing :: rat
  magn_x :: rat
  magn_y :: rat
  magn_z :: rat

definition or_lerp :: "rat \<Rightarrow> rat \<Rightarrow> rat \<Rightarrow> rat option" where
  "or_lerp a b t = (if 0 \<le> t \<and> t \<le> 1 then Some (a * (1 - t) + b * t) else None)"

text \<open>\<open>now\<close> is the uptime in microseconds, \<open>before_launch\<close> is \<open>CONFIG_OPENROCKET_MS_BEFORE_LAUNCH\<close>.\<close>

definition or_get_time :: "int \<Rightarrow> int \<Rightarrow> or_common_params \<Rightarrow> rat" where
  "or_get_time before_launch now cfg =
     (let us = now;
          us = (if sampling_period_us cfg \<noteq> 0
                then c_div us (uint (sampling_period_us cfg)) * uint (sampling_period_us cfg) else us);
          us = us - uint (lag_time_us cfg);
          us = us - before_launch * 1000 in
      of_int us / 1000000)"

text \<open>The noise: \<open>to_float\<close> is the conversion of an integer to \<open>float\<close>.\<close>

definition or_random :: "bool \<Rightarrow> (int \<Rightarrow> rat) \<Rightarrow> u32 \<Rightarrow> rat \<Rightarrow> rat \<times> u32" where
  "or_random noise to_float rand_state magnitude =
     (if noise then
        let r32 = (rand_state * 1103515245 + 12345) AND 0xFFFFFFFF;
            rscalar = to_float (sint r32) / to_float 0x7FFFFFFF in
        (rscalar * magnitude, r32)
      else (0, rand_state))"

function find_from :: "or_data_t list \<Rightarrow> rat \<Rightarrow> nat \<Rightarrow> (nat \<times> nat \<times> rat) option" where
  "find_from packets or_time i =
     (case arr_get packets (i + 1) of
        None \<Rightarrow> None
      | Some next_packet \<Rightarrow>
          if or_time > time_s next_packet then
            if i \<ge> length packets - 2 then Some (length packets, length packets, 0)
            else find_from packets or_time (i + 1)
          else
            let lo = time_s (packets ! i); hi = time_s (packets ! (i + 1)) in
            Some (i, i + 1, (or_time - lo) / (hi - lo)))"
  by pat_completeness auto

termination
  by (relation "measure (\<lambda>(packets, _, i). length packets - i)") auto

definition or_find_bounding_packets ::
  "or_data_t list \<Rightarrow> nat \<Rightarrow> rat \<Rightarrow> (nat \<times> nat \<times> rat) option" where
  "or_find_bounding_packets packets last_lower_idx or_time =
     (case arr_get packets 0 of
        None \<Rightarrow> None
      | Some first_packet \<Rightarrow>
          if or_time < time_s first_packet then Some (0, 0, 0)
          else find_from packets or_time last_lower_idx)"

text \<open>\<open>pad_packet\<close> and \<open>landed_packet\<close> after \<open>init_openrocket\<close>.\<close>

definition or_get_presim :: "or_data_t list \<Rightarrow> or_data_t option" where
  "or_get_presim packets = arr_get packets 0"

definition or_get_postsim :: "or_data_t list \<Rightarrow> or_data_t option" where
  "or_get_postsim packets = arr_get packets (length packets - 1)"

text \<open>
  The part the sensors share: find the packets around the time and take the first, the last or
  what \<open>lerp\<close> makes of the two in between.
\<close>

definition or_packet_at ::
  "(or_data_t \<Rightarrow> or_data_t \<Rightarrow> rat \<Rightarrow> or_data_t option) \<Rightarrow> or_data_t list \<Rightarrow> nat \<Rightarrow> rat \<Rightarrow> or_data_t option" where
  "or_packet_at lerp packets last_lower_index time =
     (case or_find_bounding_packets packets last_lower_index time of
        None \<Rightarrow> None
      | Some (lo, hi, mix) \<Rightarrow>
          if hi = 0 then or_get_presim packets
          else if lo = length packets then or_get_postsim packets
          else Option.bind (arr_get packets lo) (\<lambda>lo_data.
               Option.bind (arr_get packets hi) (\<lambda>hi_data. lerp lo_data hi_data mix)))"

subsection \<open>Where a time lies among the packets\<close>

definition recording :: "or_data_t list \<Rightarrow> bool" where
  "recording packets \<longleftrightarrow> 2 \<le> length packets \<and> sorted_wrt (<) (map time_s packets)"

lemma recording_less:
  "recording packets \<Longrightarrow> i < j \<Longrightarrow> j < length packets \<Longrightarrow> time_s (packets ! i) < time_s (packets ! j)"
  by (auto simp: recording_def sorted_wrt_iff_nth_less)

lemma recording_ends:
  assumes "recording packets"
  shows "packets \<noteq> []" "hd packets = packets ! 0" "last packets = packets ! (length packets - 1)"
    "0 < length packets - 1"
proof -
  show "packets \<noteq> []" "0 < length packets - 1" using assms by (auto simp: recording_def)
  then show "hd packets = packets ! 0" "last packets = packets ! (length packets - 1)"
    by (simp_all add: hd_conv_nth last_conv_nth)
qed

declare find_from.simps [simp del]

lemma find_from_spec:
  assumes "recording packets" "i + 1 < length packets" "time_s (packets ! i) \<le> t"
  shows "\<exists>lo hi mix. find_from packets t i = Some (lo, hi, mix) \<and>
    (if t \<le> time_s (last packets)
     then i \<le> lo \<and> hi = lo + 1 \<and> hi < length packets \<and> time_s (packets ! lo) \<le> t \<and> t \<le> time_s (packets ! hi) \<and>
       mix = (t - time_s (packets ! lo)) / (time_s (packets ! hi) - time_s (packets ! lo))
     else lo = length packets \<and> hi = length packets \<and> mix = 0)"
  using assms
proof (induction packets t i rule: find_from.induct)
  case (1 packets t i)
  have last: "last packets = packets ! (length packets - 1)"
    using "1.prems" by (intro last_conv_nth) auto
  show ?case
  proof (cases "t > time_s (packets ! (i + 1))")
    case True
    show ?thesis
    proof (cases "i \<ge> length packets - 2")
      case at_end: True
      from at_end "1.prems" have "i + 1 = length packets - 1" by linarith
      with True last have "\<not> t \<le> time_s (last packets)" by simp
      then show ?thesis
        using True at_end "1.prems" by (subst find_from.simps) (simp add: arr_get_in)
    next
      case False
      have "\<exists>lo hi mix. find_from packets t (i + 1) = Some (lo, hi, mix) \<and>
        (if t \<le> time_s (last packets)
         then i + 1 \<le> lo \<and> hi = lo + 1 \<and> hi < length packets \<and> time_s (packets ! lo) \<le> t \<and> t \<le> time_s (packets ! hi) \<and>
           mix = (t - time_s (packets ! lo)) / (time_s (packets ! hi) - time_s (packets ! lo))
         else lo = length packets \<and> hi = length packets \<and> mix = 0)"
        using 1 True False by (intro 1(1)) (auto simp: arr_get_in)
      moreover have "find_from packets t i = find_from packets t (i + 1)"
        using True False "1.prems" by (subst find_from.simps) (simp add: arr_get_in)
      ultimately show ?thesis by (auto split: if_splits)
    qed
  next
    case False
    have "time_s (packets ! (i + 1)) \<le> time_s (packets ! (length packets - 1))"
    proof (cases "i + 1 = length packets - 1")
      case False
      then have "i + 1 < length packets - 1" "length packets - 1 < length packets" using "1.prems"(2) by linarith+
      then show ?thesis using recording_less [OF "1.prems"(1)] by (blast intro: less_imp_le)
    qed simp
    then have "time_s (packets ! (i + 1)) \<le> time_s (last packets)" using last by simp
    then show ?thesis
      using False "1.prems" by (subst find_from.simps) (simp add: arr_get_in Let_def)
  qed
qed

lemma find_spec:
  assumes "recording packets"
  shows "or_find_bounding_packets packets 0 t =
      (if t < time_s (hd packets) then Some (0, 0, 0)
       else if time_s (last packets) < t then Some (length packets, length packets, 0)
       else find_from packets t 0)"
    "time_s (hd packets) \<le> t \<Longrightarrow> t \<le> time_s (last packets) \<Longrightarrow>
      \<exists>lo. find_from packets t 0 = Some (lo, lo + 1,
          (t - time_s (packets ! lo)) / (time_s (packets ! (lo + 1)) - time_s (packets ! lo))) \<and>
        lo + 1 < length packets \<and> time_s (packets ! lo) \<le> t \<and> t \<le> time_s (packets ! (lo + 1))"
proof -
  have n: "0 < length packets" "0 + 1 < length packets" and hd: "hd packets = packets ! 0"
    using recording_ends [OF assms] by auto
  show "or_find_bounding_packets packets 0 t =
      (if t < time_s (hd packets) then Some (0, 0, 0)
       else if time_s (last packets) < t then Some (length packets, length packets, 0)
       else find_from packets t 0)"
    using find_from_spec [OF assms n(2), of t] n hd by (auto simp: or_find_bounding_packets_def)
  show "time_s (hd packets) \<le> t \<Longrightarrow> t \<le> time_s (last packets) \<Longrightarrow>
      \<exists>lo. find_from packets t 0 = Some (lo, lo + 1,
          (t - time_s (packets ! lo)) / (time_s (packets ! (lo + 1)) - time_s (packets ! lo))) \<and>
        lo + 1 < length packets \<and> time_s (packets ! lo) \<le> t \<and> t \<le> time_s (packets ! (lo + 1))"
    using find_from_spec [OF assms n(2), of t] hd by auto
qed

lemma mix_range:
  fixes lo hi t :: rat
  assumes "lo < hi" "lo \<le> t" "t \<le> hi"
  shows "0 \<le> (t - lo) / (hi - lo)" "(t - lo) / (hi - lo) \<le> 1"
  using assms by (simp_all add: divide_le_eq)

lemma lerp_between:
  fixes a b t :: rat
  assumes "0 \<le> t" "t \<le> 1"
  shows "min a b \<le> a * (1 - t) + b * t" "a * (1 - t) + b * t \<le> max a b"
proof -
  have "min a b * (1 - t) + min a b * t \<le> a * (1 - t) + b * t"
    "a * (1 - t) + b * t \<le> max a b * (1 - t) + max a b * t"
    using assms by (intro add_mono mult_right_mono; simp)+
  moreover have "c * (1 - t) + c * t = c" for c :: rat by (simp add: algebra_simps)
  ultimately show "min a b \<le> a * (1 - t) + b * t" "a * (1 - t) + b * t \<le> max a b" by simp_all
qed

subsection \<open>What the sensors share\<close>

text \<open>
  A sensor interpolates some of the fields of the packets, \<open>fields\<close>, with \<open>or_lerp\<close>.
\<close>

locale or_sensor =
  fixes lerp :: "or_data_t \<Rightarrow> or_data_t \<Rightarrow> rat \<Rightarrow> or_data_t option"
    and fields :: "(or_data_t \<Rightarrow> rat) set"
  assumes lerp_fields: "0 \<le> t \<Longrightarrow> t \<le> 1 \<Longrightarrow>
    \<exists>d. lerp lo hi t = Some d \<and> (\<forall>f\<in>fields. f d = f lo * (1 - t) + f hi * t)"
begin

text \<open>The packet for a time: always there, and every field within the values around the time.\<close>

lemma packet_at:
  assumes rec: "recording packets"
  shows "\<exists>d. or_packet_at lerp packets 0 t = Some d \<and>
    (\<exists>i j. i < length packets \<and> j < length packets \<and>
       (\<forall>f\<in>fields. min (f (packets ! i)) (f (packets ! j)) \<le> f d \<and> f d \<le> max (f (packets ! i)) (f (packets ! j))) \<and>
       (time_s (hd packets) \<le> t \<and> t \<le> time_s (last packets) \<longrightarrow>
          j = i + 1 \<and> time_s (packets ! i) \<le> t \<and> t \<le> time_s (packets ! j)))"
proof -
  have n: "0 < length packets" "length packets - 1 < length packets"
    using rec by (auto simp: recording_def)
  consider "t < time_s (hd packets)" | "time_s (last packets) < t"
    | "time_s (hd packets) \<le> t" "t \<le> time_s (last packets)" by linarith
  then show ?thesis
  proof cases
    case 1
    then have "or_packet_at lerp packets 0 t = Some (packets ! 0)"
      using n by (simp add: or_packet_at_def find_spec [OF rec] or_get_presim_def)
    then show ?thesis using 1 n by (intro exI [of _ "packets ! 0"] conjI exI [of _ 0]) auto
  next
    case 2
    have "\<not> t < time_s (hd packets)"
      using 2 recording_less [OF rec, of 0 "length packets - 1"] recording_ends [OF rec] by auto
    then have "or_packet_at lerp packets 0 t = Some (packets ! (length packets - 1))"
      using 2 n by (simp add: or_packet_at_def find_spec [OF rec] or_get_postsim_def)
    then show ?thesis using 2 n
      by (intro exI [of _ "packets ! (length packets - 1)"] conjI exI [of _ "length packets - 1"]) auto
  next
    case 3
    then obtain lo where lo: "find_from packets t 0 = Some (lo, lo + 1,
          (t - time_s (packets ! lo)) / (time_s (packets ! (lo + 1)) - time_s (packets ! lo)))"
        "lo + 1 < length packets" "time_s (packets ! lo) \<le> t" "t \<le> time_s (packets ! (lo + 1))"
      using find_spec(2) [OF rec] by blast
    define mix where "mix = (t - time_s (packets ! lo)) / (time_s (packets ! (lo + 1)) - time_s (packets ! lo))"
    have "time_s (packets ! lo) < time_s (packets ! (lo + 1))" using recording_less [OF rec] lo(2) by simp
    then have m: "0 \<le> mix" "mix \<le> 1" using mix_range lo(3,4) by (simp_all add: mix_def)
    then obtain d where d: "lerp (packets ! lo) (packets ! (lo + 1)) mix = Some d"
        "\<forall>f\<in>fields. f d = f (packets ! lo) * (1 - mix) + f (packets ! (lo + 1)) * mix"
      using lerp_fields by blast
    have "or_packet_at lerp packets 0 t = Some d"
      using 3 lo(1,2) d(1) by (simp add: or_packet_at_def find_spec(1) [OF rec] mix_def)
    then show ?thesis using d(2) lo(2-4) lerp_between [OF m]
      by (intro exI [of _ d] conjI exI [of _ lo] exI [of _ "lo + 1"]) auto
  qed
qed

end

end
