(* ===== verification/Openrocket_Sensors.thy ===== *)
theory Openrocket_Sensors
  imports Openrocket "HOL-Library.Monad_Syntax"
begin

text \<open>
  The four simulated sensors: \<open>imu/openrocket_imu.c\<close>, \<open>barometer/openrocket_barom.c\<close>,
  \<open>magnetometer/openrocket_magnetometer.c\<close> and \<open>gnss/openrocket_gnss.c\<close>. \<open>env\<close> holds what they
  read from outside: the recording, the configured delay and noise, the conversion to \<open>float\<close>
  and what is on the stack in an uninitialised packet. \<open>now\<close> is the uptime in microseconds.
\<close>

record or_env =
  or_packets :: "or_data_t list"
  before_launch :: int
  noise_on :: bool
  to_float :: "int \<Rightarrow> rat"
  uninit :: or_data_t

definition or_random_add :: "or_env \<Rightarrow> rat \<Rightarrow> rat \<Rightarrow> u32 \<Rightarrow> rat \<times> u32" where
  "or_random_add env v magnitude st =
     (case or_random (noise_on env) (to_float env) st magnitude of (r, st) \<Rightarrow> (v + r, st))"

subsection \<open>Barometer\<close>

record or_barom_config =
  bar_cfg :: or_common_params
  temp_noise_scale :: rat
  press_noise_scale :: rat

record or_barom_data =
  bar_last :: nat
  bar_rand :: u32
  bar_pressure :: rat
  bar_temperature :: rat

definition barom_lerp :: "or_data_t \<Rightarrow> or_data_t \<Rightarrow> or_data_t \<Rightarrow> rat \<Rightarrow> or_data_t option" where
  "barom_lerp d lo_data hi_data mix = do {
     p \<leftarrow> or_lerp (pressure lo_data) (pressure hi_data) mix;
     t \<leftarrow> or_lerp (temperature lo_data) (temperature hi_data) mix;
     Some (d\<lparr>pressure := p, temperature := t\<rparr>) }"

definition or_barom_sample_fetch ::
  "or_env \<Rightarrow> or_barom_config \<Rightarrow> int \<Rightarrow> sensor_channel \<Rightarrow> or_barom_data \<Rightarrow> (int \<times> or_barom_data) option" where
  "or_barom_sample_fetch env cfg now chan data =
     (if broken (bar_cfg cfg) then Some (- ENODEV, data)
      else if chan \<noteq> SENSOR_CHAN_ALL \<and> chan \<noteq> SENSOR_CHAN_AMBIENT_TEMP \<and> chan \<noteq> SENSOR_CHAN_PRESS
      then Some (- ENOTSUP, data)
      else do {
        d \<leftarrow> or_packet_at (barom_lerp (uninit env)) (or_packets env) (bar_last data)
               (or_get_time (before_launch env) now (bar_cfg cfg));
        let (p, st) = or_random_add env (pressure d) (press_noise_scale cfg) (bar_rand data);
        let (t, st) = or_random_add env (temperature d) (temp_noise_scale cfg) st;
        Some (0, data\<lparr>bar_rand := st, bar_pressure := p, bar_temperature := t\<rparr>) })"

definition or_barom_channel_get ::
  "(rat \<Rightarrow> sensor_value) \<Rightarrow> or_barom_config \<Rightarrow> or_barom_data \<Rightarrow> sensor_channel \<Rightarrow> sensor_value \<Rightarrow>
     int \<times> sensor_value" where
  "or_barom_channel_get from_scalar cfg data chan val =
     (if broken (bar_cfg cfg) then (- ENODEV, val)
      else if chan \<noteq> SENSOR_CHAN_PRESS \<and> chan \<noteq> SENSOR_CHAN_AMBIENT_TEMP then (- ENOTSUP, val)
      else if chan = SENSOR_CHAN_PRESS then (0, from_scalar (bar_pressure data))
      else (0, from_scalar (bar_temperature data)))"

definition or_barom_init :: "or_barom_config \<Rightarrow> or_barom_data \<Rightarrow> int \<times> or_barom_data" where
  "or_barom_init cfg data =
     (if broken (bar_cfg cfg) then (- ENODEV, data) else (0, data\<lparr>bar_last := 0\<rparr>))"

subsection \<open>Magnetometer\<close>

record or_magnetometer_config =
  mag_cfg :: or_common_params
  mag_noise :: rat

record or_magnetometer_data =
  mag_last :: nat
  mag_rand :: u32
  mag_x :: rat
  mag_y :: rat
  mag_z :: rat

definition magn_lerp :: "or_data_t \<Rightarrow> or_data_t \<Rightarrow> or_data_t \<Rightarrow> rat \<Rightarrow> or_data_t option" where
  "magn_lerp d lo_data hi_data mix = do {
     x \<leftarrow> or_lerp (magn_x lo_data) (magn_x hi_data) mix;
     y \<leftarrow> or_lerp (magn_y lo_data) (magn_y hi_data) mix;
     z \<leftarrow> or_lerp (magn_z lo_data) (magn_z hi_data) mix;
     Some (d\<lparr>magn_x := x, magn_y := y, magn_z := z\<rparr>) }"

definition or_magn_sample_fetch ::
  "or_env \<Rightarrow> or_magnetometer_config \<Rightarrow> int \<Rightarrow> sensor_channel \<Rightarrow> or_magnetometer_data \<Rightarrow>
     (int \<times> or_magnetometer_data) option" where
  "or_magn_sample_fetch env cfg now chan data =
     (if broken (mag_cfg cfg) then Some (- ENODEV, data)
      else if chan \<noteq> SENSOR_CHAN_ALL \<and> chan \<noteq> SENSOR_CHAN_MAGN_X \<and> chan \<noteq> SENSOR_CHAN_MAGN_Y \<and>
              chan \<noteq> SENSOR_CHAN_MAGN_Z \<and> chan \<noteq> SENSOR_CHAN_MAGN_XYZ then Some (- ENOTSUP, data)
      else do {
        d \<leftarrow> or_packet_at (magn_lerp (uninit env)) (or_packets env) (mag_last data)
               (or_get_time (before_launch env) now (mag_cfg cfg));
        let (x, st) = or_random_add env (magn_x d) (mag_noise cfg) (mag_rand data);
        let (y, st) = or_random_add env (magn_y d) (mag_noise cfg) st;
        let (z, st) = or_random_add env (magn_z d) (mag_noise cfg) st;
        Some (0, data\<lparr>mag_rand := st, mag_x := x, mag_y := y, mag_z := z\<rparr>) })"

definition or_magn_channel_get ::
  "(rat \<Rightarrow> sensor_value) \<Rightarrow> or_magnetometer_config \<Rightarrow> or_magnetometer_data \<Rightarrow> sensor_channel \<Rightarrow>
     int \<times> sensor_value list" where
  "or_magn_channel_get from_scalar cfg data chan =
     (if broken (mag_cfg cfg) then (- ENODEV, [])
      else (case chan of
        SENSOR_CHAN_MAGN_X \<Rightarrow> (0, [from_scalar (mag_x data)])
      | SENSOR_CHAN_MAGN_Y \<Rightarrow> (0, [from_scalar (mag_y data)])
      | SENSOR_CHAN_MAGN_Z \<Rightarrow> (0, [from_scalar (mag_z data)])
      | SENSOR_CHAN_MAGN_XYZ \<Rightarrow> (0, [from_scalar (mag_x data), from_scalar (mag_y data), from_scalar (mag_z data)])
      | _ \<Rightarrow> (- ENOTSUP, [])))"

definition or_magn_init :: "or_magnetometer_config \<Rightarrow> or_magnetometer_data \<Rightarrow> int \<times> or_magnetometer_data" where
  "or_magn_init cfg data =
     (if broken (mag_cfg cfg) then (- ENODEV, data) else (0, data\<lparr>mag_last := 0\<rparr>))"

subsection \<open>Inertial unit\<close>

datatype or_axis = OPENROCKET_AXIS_X | OPENROCKET_AXIS_Y | OPENROCKET_AXIS_Z

record or_imu_config =
  imu_cfg :: or_common_params
  vertical_axis :: or_axis
  vertical_axis_invert :: bool
  lateral_axis :: or_axis
  roll_axis :: or_axis
  pitch_axis :: or_axis
  yaw_axis :: or_axis
  roll_axis_invert :: bool
  pitch_axis_invert :: bool
  yaw_axis_invert :: bool
  accel_noise :: rat
  gyro_noise :: rat

record or_imu_data =
  imu_last :: nat
  imu_rand :: u32
  accel_x :: rat
  accel_y :: rat
  accel_z :: rat
  gyro_x :: rat
  gyro_y :: rat
  gyro_z :: rat

text \<open>The three functions for the axes of each kind have the same text up to the axis.\<close>

definition map_accel :: "or_axis \<Rightarrow> rat \<Rightarrow> rat \<Rightarrow> or_imu_config \<Rightarrow> rat" where
  "map_accel ax vert lat cfg =
     (if vertical_axis cfg = ax then (if vertical_axis_invert cfg then vert else - vert)
      else if lateral_axis cfg = ax then lat
      else 0)"

definition map_ax :: "rat \<Rightarrow> rat \<Rightarrow> or_imu_config \<Rightarrow> rat" where "map_ax = map_accel OPENROCKET_AXIS_X"
definition map_ay :: "rat \<Rightarrow> rat \<Rightarrow> or_imu_config \<Rightarrow> rat" where "map_ay = map_accel OPENROCKET_AXIS_Y"
definition map_az :: "rat \<Rightarrow> rat \<Rightarrow> or_imu_config \<Rightarrow> rat" where "map_az = map_accel OPENROCKET_AXIS_Z"

definition invert :: "rat \<Rightarrow> bool \<Rightarrow> rat" where
  "invert v do_invert = (if do_invert then - v else v)"

definition map_gyro :: "or_axis \<Rightarrow> rat \<Rightarrow> rat \<Rightarrow> rat \<Rightarrow> or_imu_config \<Rightarrow> rat" where
  "map_gyro ax r p y cfg =
     (if roll_axis cfg = ax then invert r (roll_axis_invert cfg)
      else if pitch_axis cfg = ax then invert p (pitch_axis_invert cfg)
      else if yaw_axis cfg = ax then invert y (pitch_axis_invert cfg)
      else 0)"

definition map_gx :: "rat \<Rightarrow> rat \<Rightarrow> rat \<Rightarrow> or_imu_config \<Rightarrow> rat" where "map_gx = map_gyro OPENROCKET_AXIS_X"
definition map_gy :: "rat \<Rightarrow> rat \<Rightarrow> rat \<Rightarrow> or_imu_config \<Rightarrow> rat" where "map_gy = map_gyro OPENROCKET_AXIS_Y"
definition map_gz :: "rat \<Rightarrow> rat \<Rightarrow> rat \<Rightarrow> or_imu_config \<Rightarrow> rat" where "map_gz = map_gyro OPENROCKET_AXIS_Z"

definition map_or_to_sensor :: "or_data_t \<Rightarrow> or_imu_config \<Rightarrow> or_imu_data \<Rightarrow> or_imu_data" where
  "map_or_to_sensor d cfg out =
     out\<lparr>accel_x := map_ax (vert_accel d) (lat_accel d) cfg,
         accel_y := map_ay (vert_accel d) (lat_accel d) cfg,
         accel_z := map_az (vert_accel d) (lat_accel d) cfg,
         gyro_x := map_gx (roll d) (pitch d) (yaw d) cfg,
         gyro_y := map_gy (roll d) (pitch d) (yaw d) cfg,
         gyro_z := map_gz (roll d) (pitch d) (yaw d) cfg\<rparr>"

definition imu_lerp :: "or_data_t \<Rightarrow> or_data_t \<Rightarrow> or_data_t \<Rightarrow> rat \<Rightarrow> or_data_t option" where
  "imu_lerp d lo_data hi_data mix = do {
     va \<leftarrow> or_lerp (vert_accel lo_data) (vert_accel hi_data) mix;
     la \<leftarrow> or_lerp (lat_accel lo_data) (lat_accel hi_data) mix;
     r \<leftarrow> or_lerp (roll lo_data) (roll hi_data) mix;
     p \<leftarrow> or_lerp (pitch lo_data) (pitch hi_data) mix;
     y \<leftarrow> or_lerp (yaw lo_data) (yaw hi_data) mix;
     Some (d\<lparr>vert_accel := va, lat_accel := la, roll := r, pitch := p, yaw := y\<rparr>) }"

definition imu_channels :: "sensor_channel list" where
  "imu_channels = [SENSOR_CHAN_ALL, SENSOR_CHAN_ACCEL_X, SENSOR_CHAN_ACCEL_Y, SENSOR_CHAN_ACCEL_Z,
     SENSOR_CHAN_ACCEL_XYZ, SENSOR_CHAN_GYRO_X, SENSOR_CHAN_GYRO_Y, SENSOR_CHAN_GYRO_Z, SENSOR_CHAN_GYRO_XYZ]"

definition or_imu_sample_fetch ::
  "or_env \<Rightarrow> or_imu_config \<Rightarrow> int \<Rightarrow> sensor_channel \<Rightarrow> or_imu_data \<Rightarrow> (int \<times> or_imu_data) option" where
  "or_imu_sample_fetch env cfg now chan data =
     (if broken (imu_cfg cfg) then Some (- ENODEV, data)
      else if chan \<notin> set imu_channels then Some (- ENOTSUP, data)
      else do {
        d \<leftarrow> or_packet_at (imu_lerp (uninit env)) (or_packets env) (imu_last data)
               (or_get_time (before_launch env) now (imu_cfg cfg));
        let (va, st) = or_random_add env (vert_accel d) (accel_noise cfg) (imu_rand data);
        let (la, st) = or_random_add env (lat_accel d) (accel_noise cfg) st;
        let (r, st) = or_random_add env (roll d) (gyro_noise cfg) st;
        let (p, st) = or_random_add env (pitch d) (gyro_noise cfg) st;
        let (y, st) = or_random_add env (yaw d) (gyro_noise cfg) st;
        Some (0, map_or_to_sensor
          (d\<lparr>vert_accel := va, lat_accel := la, roll := r, pitch := p, yaw := y\<rparr>) cfg (data\<lparr>imu_rand := st\<rparr>)) })"

definition or_imu_channel_get ::
  "(rat \<Rightarrow> sensor_value) \<Rightarrow> or_imu_config \<Rightarrow> or_imu_data \<Rightarrow> sensor_channel \<Rightarrow> int \<times> sensor_value list" where
  "or_imu_channel_get from_scalar cfg data chan =
     (if broken (imu_cfg cfg) then (- ENODEV, [])
      else (case chan of
        SENSOR_CHAN_ACCEL_X \<Rightarrow> (0, [from_scalar (accel_x data)])
      | SENSOR_CHAN_ACCEL_Y \<Rightarrow> (0, [from_scalar (accel_y data)])
      | SENSOR_CHAN_ACCEL_Z \<Rightarrow> (0, [from_scalar (accel_z data)])
      | SENSOR_CHAN_ACCEL_XYZ \<Rightarrow> (0, map from_scalar [accel_x data, accel_y data, accel_z data])
      | SENSOR_CHAN_GYRO_X \<Rightarrow> (0, [from_scalar (gyro_x data)])
      | SENSOR_CHAN_GYRO_Y \<Rightarrow> (0, [from_scalar (gyro_y data)])
      | SENSOR_CHAN_GYRO_Z \<Rightarrow> (0, [from_scalar (gyro_z data)])
      | SENSOR_CHAN_GYRO_XYZ \<Rightarrow> (0, map from_scalar [gyro_x data, gyro_y data, gyro_z data])
      | _ \<Rightarrow> (- ENOTSUP, [])))"

definition or_imu_init :: "or_imu_config \<Rightarrow> or_imu_data \<Rightarrow> int \<times> or_imu_data" where
  "or_imu_init cfg data =
     (if broken (imu_cfg cfg) then (- ENODEV, data) else (0, data\<lparr>imu_last := 0\<rparr>))"

subsection \<open>GNSS\<close>

text \<open>
  The receiver's thread: what it does once when it starts and one turn of its endless loop.
  The clock \<open>rtc\<close> is a parameter; a turn publishes a message or, without the time, nothing.
  A conversion of a scalar that does not fit its target is undefined in C: \<open>None\<close>.
\<close>

record rtc_time =
  tm_sec :: int
  tm_min :: int
  tm_hour :: int
  tm_mday :: int
  tm_mon :: int
  tm_year :: int
  tm_nsec :: int

record 'r rtc_ops =
  rtc_get_time :: "'r \<Rightarrow> int \<times> rtc_time"
  rtc_set_time :: "rtc_time \<Rightarrow> 'r \<Rightarrow> int \<times> 'r"

record gnss_data =
  nav_latitude :: int
  nav_longitude :: int
  nav_bearing :: int
  nav_speed :: int
  nav_altitude :: int
  utc_century_year :: u8
  utc_month :: u8
  utc_month_day :: u8
  utc_hour :: u8
  utc_minute :: u8
  utc_millisecond :: u16

record or_gnss_data =
  gnss_last :: nat

definition or_gnss_init :: "or_common_params \<Rightarrow> or_gnss_data \<Rightarrow> int \<times> or_gnss_data" where
  "or_gnss_init cfg data = (if broken cfg then (- ENODEV, data) else (0, data\<lparr>gnss_last := 0\<rparr>))"

definition launch_day :: rtc_time where
  "launch_day = \<lparr>tm_sec = 47, tm_min = 34, tm_hour = 7, tm_mday = 26, tm_mon = 5, tm_year = 122, tm_nsec = 0\<rparr>"

text \<open>\<open>ENODATA\<close> is 61 in Zephyr. The result of setting the clock is only logged.\<close>

definition or_gnss_start :: "'r rtc_ops \<Rightarrow> or_common_params \<Rightarrow> 'r \<Rightarrow> bool \<times> 'r" where
  "or_gnss_start rtc cfg r =
     (if broken cfg then (False, r)
      else (True, if fst (rtc_get_time rtc r) = - 61 then snd (rtc_set_time rtc launch_day r) else r))"

definition c_trunc :: "rat \<Rightarrow> int" where
  "c_trunc q = (if 0 \<le> q then \<lfloor>q\<rfloor> else \<lceil>q\<rceil>)"

definition to_range :: "int \<Rightarrow> int \<Rightarrow> rat \<Rightarrow> int option" where
  "to_range lo hi q = (if lo \<le> c_trunc q \<and> c_trunc q < hi then Some (c_trunc q) else None)"

definition fmod :: "rat \<Rightarrow> rat \<Rightarrow> rat" where
  "fmod a b = a - b * of_int (c_trunc (a / b))"

definition gnss_lerp :: "or_data_t \<Rightarrow> or_data_t \<Rightarrow> or_data_t \<Rightarrow> rat \<Rightarrow> or_data_t option" where
  "gnss_lerp d lo_data hi_data mix = do {
     la \<leftarrow> or_lerp (latitude lo_data) (latitude hi_data) mix;
     lo \<leftarrow> or_lerp (longitude lo_data) (longitude hi_data) mix;
     al \<leftarrow> or_lerp (altitude lo_data) (altitude hi_data) mix;
     ve \<leftarrow> or_lerp (velocity lo_data) (velocity hi_data) mix;
     be \<leftarrow> or_lerp (bearing lo_data) (bearing hi_data) mix;
     Some (d\<lparr>latitude := la, longitude := lo, altitude := al, velocity := ve, bearing := be\<rparr>) }"

definition or_gnss_round ::
  "or_env \<Rightarrow> or_common_params \<Rightarrow> 'r rtc_ops \<Rightarrow> int \<Rightarrow> or_gnss_data \<Rightarrow> 'r \<Rightarrow> gnss_data list option" where
  "or_gnss_round env cfg rtc now data r = do {
     d \<leftarrow> or_packet_at (gnss_lerp (uninit env)) (or_packets env) (gnss_last data)
            (or_get_time (before_launch env) now cfg);
     let (err, rtime) = rtc_get_time rtc r;
     if err \<noteq> 0 then Some []
     else do {
       la \<leftarrow> to_range (- (2 ^ 63)) (2 ^ 63) (latitude d * 10 ^ 9);
       lo \<leftarrow> to_range (- (2 ^ 63)) (2 ^ 63) (longitude d * 10 ^ 9);
       be \<leftarrow> to_range 0 (2 ^ 32) (fmod (bearing d) 360 * 10 ^ 3);
       sp \<leftarrow> to_range 0 (2 ^ 32) (velocity d * 1000);
       al \<leftarrow> to_range (- (2 ^ 31)) (2 ^ 31) (altitude d * 1000);
       Some [\<lparr>nav_latitude = la, nav_longitude = lo, nav_bearing = be, nav_speed = sp, nav_altitude = al,
         utc_century_year = word_of_int (c_mod (tm_year rtime) 100), utc_month = word_of_int (tm_mon rtime + 1),
         utc_month_day = word_of_int (tm_mday rtime), utc_hour = word_of_int (tm_hour rtime),
         utc_minute = word_of_int (tm_min rtime),
         utc_millisecond = word_of_int (tm_sec rtime * 1000 + c_div (tm_nsec rtime) 1000000)\<rparr>] } }"

subsection \<open>The sensors share one contract\<close>

lemma or_lerp_some: "0 \<le> t \<Longrightarrow> t \<le> 1 \<Longrightarrow> or_lerp a b t = Some (a * (1 - t) + b * t)"
  by (simp add: or_lerp_def)

interpretation barom: or_sensor "barom_lerp d" "{pressure, temperature}"
  by unfold_locales (simp add: barom_lerp_def or_lerp_some)

interpretation magn: or_sensor "magn_lerp d" "{magn_x, magn_y, magn_z}"
  by unfold_locales (simp add: magn_lerp_def or_lerp_some)

interpretation imu: or_sensor "imu_lerp d" "{vert_accel, lat_accel, roll, pitch, yaw}"
  by unfold_locales (simp add: imu_lerp_def or_lerp_some)

interpretation gnss: or_sensor "gnss_lerp d" "{latitude, longitude, altitude, velocity, bearing}"
  by unfold_locales (simp add: gnss_lerp_def or_lerp_some)

subsection \<open>Properties\<close>

text \<open>
  C40: the search of the packets around a time. Before the recording it gives the indices 0 and 0,
  after it the number of packets twice, and in between two neighbours around the time with a mix
  in [0, 1], so that the assertion of the interpolation holds; nothing is read out of range.
\<close>

theorem or_find_bounding_packets_correct:
  assumes "recording packets"
  shows "\<exists>lo hi mix. or_find_bounding_packets packets 0 t = Some (lo, hi, mix) \<and>
    0 \<le> mix \<and> mix \<le> 1 \<and>
    (if t < time_s (hd packets) then lo = 0 \<and> hi = 0
     else if time_s (last packets) < t then lo = length packets \<and> hi = length packets
     else hi = lo + 1 \<and> hi < length packets \<and> time_s (packets ! lo) \<le> t \<and> t \<le> time_s (packets ! hi) \<and>
       time_s (packets ! lo) * (1 - mix) + time_s (packets ! hi) * mix = t)"
proof (cases "time_s (hd packets) \<le> t \<and> t \<le> time_s (last packets)")
  case True
  then obtain lo where lo: "find_from packets t 0 = Some (lo, lo + 1,
        (t - time_s (packets ! lo)) / (time_s (packets ! (lo + 1)) - time_s (packets ! lo)))"
      "lo + 1 < length packets" "time_s (packets ! lo) \<le> t" "t \<le> time_s (packets ! (lo + 1))"
    using find_spec(2) [OF assms] by blast
  have less: "time_s (packets ! lo) < time_s (packets ! (lo + 1))"
    using recording_less [OF assms] lo(2) by simp
  have "a * (1 - (t - a) / (b - a)) + b * ((t - a) / (b - a)) = t" if "a < b" for a b :: rat
  proof -
    have "a * (1 - m) + b * m = a + (b - a) * m" for m :: rat by (simp add: algebra_simps)
    then have "a * (1 - (t - a) / (b - a)) + b * ((t - a) / (b - a)) = a + (b - a) * ((t - a) / (b - a))" .
    then show ?thesis using that by (simp only:) simp
  qed
  then show ?thesis
    using True lo less mix_range [OF less lo(3,4)] by (simp add: find_spec(1) [OF assms])
next
  case False
  then show ?thesis by (auto simp: find_spec(1) [OF assms])
qed

definition flat :: or_data_t where
  "flat = \<lparr>time_s = 0, vert_accel = 0, lat_accel = 0, roll = 0, pitch = 0, yaw = 0, temperature = 0,
     pressure = 0, latitude = 0, longitude = 0, velocity = 0, altitude = 0, bearing = 0,
     magn_x = 0, magn_y = 0, magn_z = 0\<rparr>"

definition example_packets :: "or_data_t list" where
  "example_packets = [flat\<lparr>pressure := 100\<rparr>, flat\<lparr>time_s := 1, pressure := 90\<rparr>, flat\<lparr>time_s := 3, pressure := 70\<rparr>]"

lemma example_recording: "recording example_packets"
  by (simp add: recording_def example_packets_def flat_def)

theorem or_find_bounding_packets_correct_witness:
  "\<exists>lo mix. or_find_bounding_packets example_packets 0 2 = Some (lo, lo + 1, mix) \<and> mix \<le> 1 \<and> lo < 2"
  using or_find_bounding_packets_correct [OF example_recording, of 2]
  by (auto simp: example_packets_def flat_def)

text \<open>
  Without noise, a fetch of a working barometer succeeds at every time and stores a pressure
  and a temperature that lie between those of two recorded packets; during the recording these
  are the two packets around the sensor's time.
\<close>

theorem or_barom_sample_fetch_bounds:
  assumes "recording (or_packets env)" "\<not> broken (bar_cfg cfg)" "\<not> noise_on env" "bar_last data = 0"
    and "chan = SENSOR_CHAN_ALL \<or> chan = SENSOR_CHAN_PRESS \<or> chan = SENSOR_CHAN_AMBIENT_TEMP"
  shows "\<exists>data' a b. or_barom_sample_fetch env cfg now chan data = Some (0, data') \<and> bar_last data' = 0 \<and>
    a \<in> set (or_packets env) \<and> b \<in> set (or_packets env) \<and>
    min (pressure a) (pressure b) \<le> bar_pressure data' \<and> bar_pressure data' \<le> max (pressure a) (pressure b) \<and>
    min (temperature a) (temperature b) \<le> bar_temperature data' \<and>
    bar_temperature data' \<le> max (temperature a) (temperature b) \<and>
    (let t = or_get_time (before_launch env) now (bar_cfg cfg) in
     time_s (hd (or_packets env)) \<le> t \<and> t \<le> time_s (last (or_packets env)) \<longrightarrow> time_s a \<le> t \<and> t \<le> time_s b)"
proof -
  let ?t = "or_get_time (before_launch env) now (bar_cfg cfg)"
  obtain d i j where d: "or_packet_at (barom_lerp (uninit env)) (or_packets env) 0 ?t = Some d"
      "i < length (or_packets env)" "j < length (or_packets env)"
      "\<forall>f\<in>{pressure, temperature}. min (f (or_packets env ! i)) (f (or_packets env ! j)) \<le> f d \<and>
         f d \<le> max (f (or_packets env ! i)) (f (or_packets env ! j))"
      "time_s (hd (or_packets env)) \<le> ?t \<and> ?t \<le> time_s (last (or_packets env)) \<longrightarrow>
        time_s (or_packets env ! i) \<le> ?t \<and> ?t \<le> time_s (or_packets env ! j)"
    using barom.packet_at [OF assms(1), of "uninit env" ?t] by blast
  have "or_barom_sample_fetch env cfg now chan data =
      Some (0, data\<lparr>bar_rand := bar_rand data, bar_pressure := pressure d, bar_temperature := temperature d\<rparr>)"
    using assms(2-5) d(1) by (auto simp: or_barom_sample_fetch_def or_random_add_def or_random_def)
  then show ?thesis
    using d(2-5) assms(4)
    by (intro exI [of _ "or_packets env ! i"] exI [of _ "or_packets env ! j"] exI conjI) (assumption | simp add: Let_def)+
qed

definition example_env :: or_env where
  "example_env = \<lparr>or_packets = example_packets, before_launch = 0, noise_on = False, to_float = of_int, uninit = flat\<rparr>"

definition example_params :: or_common_params where
  "example_params = \<lparr>broken = False, sampling_period_us = 1000, lag_time_us = 0\<rparr>"

theorem or_barom_sample_fetch_bounds_witness:
  "\<exists>data'. or_barom_sample_fetch example_env
      \<lparr>bar_cfg = example_params, temp_noise_scale = 0, press_noise_scale = 0\<rparr> 2000000 SENSOR_CHAN_ALL
      \<lparr>bar_last = 0, bar_rand = 0, bar_pressure = 0, bar_temperature = 0\<rparr> = Some (0, data') \<and>
    70 \<le> bar_pressure data' \<and> bar_pressure data' \<le> 100"
proof -
  let ?cfg = "\<lparr>bar_cfg = example_params, temp_noise_scale = 0, press_noise_scale = 0\<rparr>"
  let ?data = "\<lparr>bar_last = 0, bar_rand = 0, bar_pressure = 0, bar_temperature = 0\<rparr> :: or_barom_data"
  obtain data' a b where
    "or_barom_sample_fetch example_env ?cfg 2000000 SENSOR_CHAN_ALL ?data = Some (0, data')"
    "a \<in> set example_packets" "b \<in> set example_packets"
    "min (pressure a) (pressure b) \<le> bar_pressure data'" "bar_pressure data' \<le> max (pressure a) (pressure b)"
    using or_barom_sample_fetch_bounds [of example_env ?cfg ?data SENSOR_CHAN_ALL 2000000] example_recording
    by (auto simp: example_env_def example_params_def)
  then show ?thesis by (auto simp: example_packets_def)
qed

text \<open>
  With three different axes for roll, pitch and yaw the rates appear on those axes, inverted
  as configured for roll and pitch; but yaw is inverted when \<open>pitch_axis_invert\<close> says so,
  and \<open>yaw_axis_invert\<close> has no effect. The length of the vector is kept.
\<close>

definition gyro_on :: "or_axis \<Rightarrow> or_imu_data \<Rightarrow> rat" where
  "gyro_on ax data = (case ax of OPENROCKET_AXIS_X \<Rightarrow> gyro_x data | OPENROCKET_AXIS_Y \<Rightarrow> gyro_y data
     | OPENROCKET_AXIS_Z \<Rightarrow> gyro_z data)"

theorem or_imu_gyro_mapping:
  assumes "roll_axis cfg \<noteq> pitch_axis cfg" "roll_axis cfg \<noteq> yaw_axis cfg" "pitch_axis cfg \<noteq> yaw_axis cfg"
    and "data' = map_or_to_sensor d cfg data"
  shows "gyro_on (roll_axis cfg) data' = invert (roll d) (roll_axis_invert cfg) \<and>
    gyro_on (pitch_axis cfg) data' = invert (pitch d) (pitch_axis_invert cfg) \<and>
    gyro_on (yaw_axis cfg) data' = invert (yaw d) (pitch_axis_invert cfg) \<and>
    (gyro_x data')\<^sup>2 + (gyro_y data')\<^sup>2 + (gyro_z data')\<^sup>2 = (roll d)\<^sup>2 + (pitch d)\<^sup>2 + (yaw d)\<^sup>2"
  using assms
  by (cases "roll_axis cfg"; cases "pitch_axis cfg"; cases "yaw_axis cfg")
    (simp_all add: gyro_on_def map_or_to_sensor_def map_gx_def map_gy_def map_gz_def map_gyro_def invert_def)

theorem or_imu_gyro_mapping_witness:
  "\<forall>data. gyro_z (map_or_to_sensor (flat\<lparr>yaw := 2\<rparr>)
     \<lparr>imu_cfg = example_params, vertical_axis = OPENROCKET_AXIS_X, vertical_axis_invert = False,
      lateral_axis = OPENROCKET_AXIS_Y, roll_axis = OPENROCKET_AXIS_X, pitch_axis = OPENROCKET_AXIS_Y,
      yaw_axis = OPENROCKET_AXIS_Z, roll_axis_invert = False, pitch_axis_invert = False,
      yaw_axis_invert = True, accel_noise = 0, gyro_noise = 0\<rparr> data) = 2"
proof
  fix data
  let ?cfg = "\<lparr>imu_cfg = example_params, vertical_axis = OPENROCKET_AXIS_X, vertical_axis_invert = False,
      lateral_axis = OPENROCKET_AXIS_Y, roll_axis = OPENROCKET_AXIS_X, pitch_axis = OPENROCKET_AXIS_Y,
      yaw_axis = OPENROCKET_AXIS_Z, roll_axis_invert = False, pitch_axis_invert = False,
      yaw_axis_invert = True, accel_noise = 0, gyro_noise = 0\<rparr> :: or_imu_config"
  show "gyro_z (map_or_to_sensor (flat\<lparr>yaw := 2\<rparr>) ?cfg data) = 2"
    using or_imu_gyro_mapping [of ?cfg "map_or_to_sensor (flat\<lparr>yaw := 2\<rparr>) ?cfg data" "flat\<lparr>yaw := 2\<rparr>" data]
    by (simp add: gyro_on_def invert_def)
qed

end
