(* ===== verification/Flight_Utils.thy ===== *)
theory Flight_Utils
  imports Flight_Prelude Complex_Main
begin

text \<open>
  The header-only utilities of the flight software under \<open>include/f_core/utils\<close>:
  \<open>CCircularBuffer\<close>, \<open>CRollingSum\<close>, \<open>CMovingAverage\<close>, \<open>FindSlope\<close> and \<open>CDebouncer\<close>.
  Template parameters are type parameters. The rolling sum, the samples of a fit and \<open>FindSlope\<close> only use the operations
  of the scalar type and assume no law of them, so they stand for \<open>float\<close> and \<open>double\<close> too; lemmas that need laws say
  which type class they are about. \<open>size_t\<close> has 32 bits on the targets.
\<close>

subsection \<open>Circular buffer\<close>

record 'a cbuf =
  oldest_index :: nat
  underlying :: "'a list"

definition cbuf_new :: "nat \<Rightarrow> 'a \<Rightarrow> 'a cbuf" where
  "cbuf_new len initial_value = \<lparr>oldest_index = 0, underlying = replicate len initial_value\<rparr>"

definition cbuf_Fill :: "'a \<Rightarrow> 'a cbuf \<Rightarrow> 'a cbuf" where
  "cbuf_Fill v b = b\<lparr>underlying := replicate (length (underlying b)) v\<rparr>"

definition cbuf_Size :: "'a cbuf \<Rightarrow> nat" where
  "cbuf_Size b = length (underlying b)"

definition cbuf_AddSample :: "'a \<Rightarrow> 'a cbuf \<Rightarrow> 'a cbuf option" where
  "cbuf_AddSample v b =
     (case arr_put (underlying b) (oldest_index b) v of
        None \<Rightarrow> None
      | Some u \<Rightarrow> Some \<lparr>oldest_index = (oldest_index b + 1) mod cbuf_Size b, underlying = u\<rparr>)"

definition cbuf_OldestSample :: "'a cbuf \<Rightarrow> 'a option" where
  "cbuf_OldestSample b = arr_get (underlying b) (oldest_index b)"

text \<open>The index is a \<open>size_t\<close>: subtracting one from zero wraps, and it is never below zero.\<close>

definition cbuf_NewestSample :: "'a cbuf \<Rightarrow> 'a option" where
  "cbuf_NewestSample b =
     (let newset_index = (word_of_nat (oldest_index b) :: u32) - 1;
          newset_index = (if newset_index < 0 then newset_index + word_of_nat (cbuf_Size b) else newset_index) in
      arr_get (underlying b) (unat newset_index))"

text \<open>The sum of the two indices is a \<open>size_t\<close> and wraps around as well.\<close>

definition cbuf_at :: "'a cbuf \<Rightarrow> nat \<Rightarrow> 'a option" where
  "cbuf_at b index =
     (let real_index = (oldest_index b + index) mod 2 ^ 32;
          real_index = real_index mod cbuf_Size b in
      arr_get (underlying b) real_index)"

text \<open>What the buffer stands for: its samples from the oldest to the newest.\<close>

definition cbuf_ok :: "'a cbuf \<Rightarrow> bool" where
  "cbuf_ok b \<longleftrightarrow> oldest_index b < length (underlying b)"

definition window :: "'a cbuf \<Rightarrow> 'a list" where
  "window b = rotate (oldest_index b) (underlying b)"

lemma length_window [simp]: "length (window b) = length (underlying b)"
  by (simp add: window_def)

lemma window_nth: "i < length (underlying b) \<Longrightarrow>
    window b ! i = underlying b ! ((oldest_index b + i) mod length (underlying b))"
  by (simp add: window_def nth_rotate add.commute)

lemma cbuf_new_ok: "0 < len \<Longrightarrow> cbuf_ok (cbuf_new len v) \<and> window (cbuf_new len v) = replicate len v"
  by (simp add: cbuf_ok_def cbuf_new_def window_def)

lemma cbuf_Fill_ok:
  assumes "cbuf_ok b"
  shows "cbuf_ok (cbuf_Fill v b) \<and> window (cbuf_Fill v b) = replicate (cbuf_Size b) v"
proof -
  have "(oldest_index b + i) mod length (underlying b) < length (underlying b)" for i
    using assms by (intro mod_less_divisor) (auto simp: cbuf_ok_def)
  then have "window (cbuf_Fill v b) = replicate (cbuf_Size b) v"
    by (intro nth_equalityI) (simp_all add: window_nth cbuf_Fill_def cbuf_Size_def)
  then show ?thesis using assms by (simp add: cbuf_ok_def cbuf_Fill_def)
qed

lemma cbuf_AddSample_ok:
  assumes "cbuf_ok b"
  shows "\<exists>b'. cbuf_AddSample v b = Some b' \<and> cbuf_ok b' \<and> window b' = tl (window b) @ [v] \<and>
    length (underlying b') = length (underlying b)"
proof -
  define n where "n = length (underlying b)"
  define k where "k = oldest_index b"
  have k: "k < n" using assms by (simp add: cbuf_ok_def n_def k_def)
  define b' where "b' = \<lparr>oldest_index = (k + 1) mod n, underlying = (underlying b)[k := v]\<rparr>"
  have add: "cbuf_AddSample v b = Some b'"
    using k by (simp add: cbuf_AddSample_def b'_def cbuf_Size_def n_def k_def)
  have "(k + 1) mod n < n" using k by (intro mod_less_divisor) simp
  then have ok: "cbuf_ok b'" by (simp add: cbuf_ok_def b'_def n_def)
  have "window b' = tl (window b) @ [v]"
  proof (rule nth_equalityI)
    show "length (window b') = length (tl (window b) @ [v])" using k by (simp add: b'_def n_def)
    fix i assume "i < length (window b')"
    then have i: "i < n" by (simp add: b'_def n_def)
    have idx: "((k + 1) mod n + i) mod n = (k + (i + 1)) mod n"
      using mod_add_left_eq [of "k + 1" n i] by (simp add: add_ac)
    have "window b' ! i = (underlying b)[k := v] ! ((k + (i + 1)) mod n)"
      using i idx by (subst window_nth) (simp_all add: b'_def n_def)
    also have "\<dots> = (tl (window b) @ [v]) ! i"
    proof (cases "i + 1 < n")
      case True
      then have "(k + (i + 1)) mod n \<noteq> k"
        using k mod_if [of "k + (i + 1)" n] by (cases "k + (i + 1) < n") auto
      moreover have "i < length (tl (window b))" using True by (simp add: n_def)
      ultimately show ?thesis using True
        by (simp add: nth_append nth_tl window_nth n_def k_def)
    next
      case False
      then have "i + 1 = n" using i by simp
      then have "(k + (i + 1)) mod n = k" using k by simp
      moreover have "\<not> i < length (tl (window b))" using \<open>i + 1 = n\<close> by (simp add: n_def)
      ultimately show ?thesis using k \<open>i + 1 = n\<close>
        by (simp add: nth_append n_def)
    qed
    finally show "window b' ! i = (tl (window b) @ [v]) ! i" .
  qed
  then show ?thesis using add ok by (auto simp: b'_def)
qed

lemma cbuf_OldestSample_ok:
  assumes "cbuf_ok b"
  shows "cbuf_OldestSample b = Some (hd (window b))"
proof -
  have n: "0 < length (underlying b)" using assms by (auto simp: cbuf_ok_def)
  then have "hd (window b) = window b ! 0" by (intro hd_conv_nth) (auto simp: window_def)
  also have "\<dots> = underlying b ! oldest_index b" using n assms by (simp add: window_nth cbuf_ok_def)
  finally show ?thesis using assms by (simp add: cbuf_OldestSample_def cbuf_ok_def)
qed

lemma cbuf_at_ok:
  assumes "cbuf_ok b" "i + cbuf_Size b \<le> 2 ^ 32"
  shows "cbuf_at b i = Some (window b ! (i mod cbuf_Size b))"
proof -
  have n: "0 < cbuf_Size b" "oldest_index b < cbuf_Size b" using assms(1) by (auto simp: cbuf_ok_def cbuf_Size_def)
  then have "(oldest_index b + i) mod 2 ^ 32 = oldest_index b + i" using assms(2) by simp
  then show ?thesis using n by (simp add: cbuf_at_def cbuf_Size_def window_nth mod_add_right_eq)
qed

lemma cbuf_NewestSample_cases:
  assumes "cbuf_ok b" "length (underlying b) < 2 ^ 32"
  shows "cbuf_NewestSample b = (if oldest_index b = 0 then None else Some (last (window b)))"
proof (cases "oldest_index b = 0")
  case True
  then show ?thesis using assms by (simp add: cbuf_NewestSample_def arr_get_def Let_def unsigned_minus_1_eq_mask mask_eq_exp_minus_1)
next
  case False
  define k where "k = oldest_index b"
  have k: "0 < k" "k < length (underlying b)" "k < 2 ^ 32"
    using False assms by (auto simp: cbuf_ok_def k_def)
  obtain j where j: "k = Suc j" using k(1) by (cases k) auto
  then have "unat ((word_of_nat k :: u32) - 1) = k - 1"
    using k(3) by (simp add: unat_of_nat take_bit_nat_eq_self)
  moreover have "last (window b) = underlying b ! (k - 1)"
  proof -
    have "window b \<noteq> []" using k(2) by (metis length_greater_0_conv length_window less_trans k(1))
    then have "last (window b) = window b ! (length (underlying b) - 1)" by (simp add: last_conv_nth)
    also have "\<dots> = underlying b ! ((k + (length (underlying b) - 1)) mod length (underlying b))"
      using k by (subst window_nth) (simp_all add: k_def)
    also have "(k + (length (underlying b) - 1)) mod length (underlying b) = k - 1"
      using k by (simp add: mod_if)
    finally show ?thesis .
  qed
  ultimately show ?thesis
    using k by (simp add: cbuf_NewestSample_def k_def [symmetric])
qed

subsection \<open>A window of samples as an interface\<close>

text \<open>What the sums rely on: adding a sample drops the oldest one.\<close>

locale sliding_window =
  fixes add :: "'a \<Rightarrow> 's \<Rightarrow> 's option"
    and oldest :: "'s \<Rightarrow> 'a option"
    and contents :: "'s \<Rightarrow> 'a list"
    and ok :: "'s \<Rightarrow> bool"
  assumes nonempty: "ok s \<Longrightarrow> contents s \<noteq> []"
    and add_contents: "ok s \<Longrightarrow> \<exists>s'. add v s = Some s' \<and> ok s' \<and> contents s' = tl (contents s) @ [v]"
    and oldest_contents: "ok s \<Longrightarrow> oldest s = Some (hd (contents s))"
begin

lemma add_many:
  "ok s \<Longrightarrow> \<exists>s'. fold_opt add xs s = Some s' \<and> ok s' \<and> contents s' = drop (length xs) (contents s @ xs)"
proof (induction xs arbitrary: s)
  case (Cons x xs)
  obtain s1 where s1: "add x s = Some s1" "ok s1" "contents s1 = tl (contents s) @ [x]"
    using add_contents [OF Cons.prems] by blast
  obtain s2 where s2: "fold_opt add xs s1 = Some s2" "ok s2" "contents s2 = drop (length xs) (contents s1 @ xs)"
    using Cons.IH [OF s1(2)] by blast
  have "drop (length (x # xs)) (contents s @ x # xs) = drop (length xs) (contents s1 @ xs)"
    using nonempty [OF Cons.prems] s1(3) by (cases "contents s") simp_all
  then show ?case using s1 s2 by auto
qed simp

end

locale summed_window = sliding_window add oldest contents ok
  for add :: "'a::ab_group_add \<Rightarrow> 's \<Rightarrow> 's option" and oldest contents ok
begin

lemma sum_step:
  assumes "ok s" "add v s = Some s'" "oldest s = Some x"
  shows "sum_list (contents s') = sum_list (contents s) - x + v"
proof -
  have "contents s' = tl (contents s) @ [v]" "x = hd (contents s)"
    using add_contents [OF assms(1), of v] oldest_contents [OF assms(1)] assms(2,3) by auto
  moreover have "sum_list (contents s) = hd (contents s) + sum_list (tl (contents s))"
    using nonempty [OF assms(1)] by (cases "contents s") auto
  ultimately show ?thesis by simp
qed

end

interpretation ring: sliding_window cbuf_AddSample cbuf_OldestSample window cbuf_ok
proof
  fix b :: "'a cbuf" and v assume ok: "cbuf_ok b"
  then show "window b \<noteq> []" by (auto simp: cbuf_ok_def window_def)
  show "\<exists>b'. cbuf_AddSample v b = Some b' \<and> cbuf_ok b' \<and> window b' = tl (window b) @ [v]"
    using cbuf_AddSample_ok [OF ok] by blast
  show "cbuf_OldestSample b = Some (hd (window b))" by (rule cbuf_OldestSample_ok [OF ok])
qed

interpretation ring_sum: summed_window cbuf_AddSample cbuf_OldestSample window cbuf_ok ..

subsection \<open>Rolling sum and moving average\<close>

record 'a rolling_sum =
  total :: 'a
  buf :: "'a cbuf"

definition rs_Fill :: "'a::plus \<Rightarrow> 'a rolling_sum \<Rightarrow> 'a rolling_sum option" where
  "rs_Fill start rs =
     (let b = cbuf_Fill start (buf rs) in
      case cbuf_OldestSample b of
        None \<Rightarrow> None
      | Some t \<Rightarrow>
          (case fold_opt (\<lambda>i t. map_option (\<lambda>x. t + x) (cbuf_at b i)) [1..<cbuf_Size b] t of
             None \<Rightarrow> None
           | Some t \<Rightarrow> Some \<lparr>total = t, buf = b\<rparr>))"

definition rs_new :: "nat \<Rightarrow> 'a::{plus,zero} \<Rightarrow> 'a rolling_sum option" where
  "rs_new len start = rs_Fill start \<lparr>total = 0, buf = cbuf_new len start\<rparr>"

definition rs_Feed :: "'a::{plus,minus} \<Rightarrow> 'a rolling_sum \<Rightarrow> 'a rolling_sum option" where
  "rs_Feed new_value rs =
     (case cbuf_OldestSample (buf rs) of
        None \<Rightarrow> None
      | Some oldest \<Rightarrow>
          let t = total rs - oldest; t = t + new_value in
          map_option (\<lambda>b. \<lparr>total = t, buf = b\<rparr>) (cbuf_AddSample new_value (buf rs)))"

definition rs_Sum :: "'a rolling_sum \<Rightarrow> 'a" where
  "rs_Sum rs = total rs"

definition ma_Avg :: "nat \<Rightarrow> 'a::field rolling_sum \<Rightarrow> 'a" where
  "ma_Avg len rs = rs_Sum rs / of_nat len"

text \<open>The invariant: the total is the sum of the window.\<close>

definition rs_ok :: "'a::ab_group_add rolling_sum \<Rightarrow> bool" where
  "rs_ok rs \<longleftrightarrow> cbuf_ok (buf rs) \<and> total rs = sum_list (window (buf rs))"

lemma sum_loop:
  "(\<forall>i\<in>set is. f i = Some (g i)) \<Longrightarrow>
    fold_opt (\<lambda>i t. map_option (\<lambda>x. t + x) (f i)) is t = Some (t + sum_list (map g is) :: 'a::ab_group_add)"
  by (induction "is" arbitrary: t) (auto simp: add.assoc)

lemma rs_Fill_ok:
  assumes "cbuf_ok (buf rs)"
  shows "\<exists>rs'. rs_Fill v rs = Some rs' \<and> rs_ok rs' \<and> window (buf rs') = replicate (cbuf_Size (buf rs)) v"
proof -
  define b where "b = cbuf_Fill v (buf rs)"
  define n where "n = cbuf_Size (buf rs)"
  have b: "cbuf_ok b" "window b = replicate n v" "cbuf_Size b = n"
    using cbuf_Fill_ok [OF assms] by (simp_all add: b_def n_def) (simp add: cbuf_Fill_def cbuf_Size_def)
  have n: "0 < n" using assms by (auto simp: cbuf_ok_def n_def cbuf_Size_def)
  have "underlying b = replicate n v" by (simp add: b_def n_def cbuf_Fill_def cbuf_Size_def)
  then have at: "\<forall>i\<in>set [1..<n]. cbuf_at b i = Some v" using n b(3) by (simp add: cbuf_at_def Let_def)
  have "fold_opt (\<lambda>i t. map_option (\<lambda>x. t + x) (cbuf_at b i)) [1..<n] v = Some (v + sum_list (map (\<lambda>_. v) [1..<n]))"
    by (rule sum_loop [OF at])
  moreover have "v + sum_list (map (\<lambda>_. v) [1..<n]) = sum_list (window b)"
  proof -
    have "map (\<lambda>_. v) [1..<n] = replicate (n - 1) v" by (simp only: map_replicate_const length_upt)
    then show ?thesis using n b(2) by (cases n) simp_all
  qed
  moreover have "cbuf_OldestSample b = Some v" using cbuf_OldestSample_ok [OF b(1)] b(2) n by (cases n) auto
  ultimately show ?thesis
    using b by (simp add: rs_Fill_def b_def [symmetric] rs_ok_def Let_def n_def [symmetric])
qed

lemma rs_Feed_ok:
  assumes "rs_ok rs"
  shows "\<exists>rs'. rs_Feed v rs = Some rs' \<and> rs_ok rs' \<and> window (buf rs') = tl (window (buf rs)) @ [v]"
proof -
  have ok: "cbuf_ok (buf rs)" "total rs = sum_list (window (buf rs))" using assms by (simp_all add: rs_ok_def)
  obtain b' where b': "cbuf_AddSample v (buf rs) = Some b'" "cbuf_ok b'" "window b' = tl (window (buf rs)) @ [v]"
    using ring.add_contents [OF ok(1)] by blast
  have old: "cbuf_OldestSample (buf rs) = Some (hd (window (buf rs)))" by (rule ring.oldest_contents [OF ok(1)])
  have "sum_list (window b') = total rs - hd (window (buf rs)) + v"
    using ring_sum.sum_step [OF ok(1) b'(1) old] ok(2) by simp
  then show ?thesis using b' old by (simp add: rs_Feed_def rs_ok_def Let_def)
qed

text \<open>Rolling sums are again a window, now with the sum kept along.\<close>

interpretation rolling: sliding_window rs_Feed "\<lambda>rs. cbuf_OldestSample (buf rs)" "\<lambda>rs. window (buf rs)" rs_ok
proof
  fix rs :: "'a::ab_group_add rolling_sum" and v assume ok: "rs_ok rs"
  then have b: "cbuf_ok (buf rs)" by (simp add: rs_ok_def)
  show "window (buf rs) \<noteq> []" by (rule ring.nonempty [OF b])
  show "\<exists>rs'. rs_Feed v rs = Some rs' \<and> rs_ok rs' \<and> window (buf rs') = tl (window (buf rs)) @ [v]"
    by (rule rs_Feed_ok [OF ok])
  show "cbuf_OldestSample (buf rs) = Some (hd (window (buf rs)))" by (rule ring.oldest_contents [OF b])
qed

subsection \<open>Slope of a linear fit\<close>

datatype 'a LinearFitSample = LinearFitSample (lx: 'a) (ly: 'a) (lxx: 'a) (lxy: 'a)

definition fit_sample :: "'a::times \<Rightarrow> 'a \<Rightarrow> 'a LinearFitSample" where
  "fit_sample x y = LinearFitSample x y (x * x) (x * y)"

text \<open>The sums and differences of samples are componentwise; where those of the scalars are a group, so are they.\<close>

instantiation LinearFitSample :: (zero) zero
begin

definition zero_LinearFitSample :: "'a LinearFitSample" where
  "zero_LinearFitSample = LinearFitSample 0 0 0 0"

instance ..

end

instantiation LinearFitSample :: (plus) plus
begin

definition plus_LinearFitSample :: "'a LinearFitSample \<Rightarrow> 'a LinearFitSample \<Rightarrow> 'a LinearFitSample" where
  "plus_LinearFitSample s t = LinearFitSample (lx s + lx t) (ly s + ly t) (lxx s + lxx t) (lxy s + lxy t)"

instance ..

end

instantiation LinearFitSample :: (minus) minus
begin

definition minus_LinearFitSample :: "'a LinearFitSample \<Rightarrow> 'a LinearFitSample \<Rightarrow> 'a LinearFitSample" where
  "minus_LinearFitSample s t = LinearFitSample (lx s - lx t) (ly s - ly t) (lxx s - lxx t) (lxy s - lxy t)"

instance ..

end

instantiation LinearFitSample :: (ab_group_add) ab_group_add
begin

definition uminus_LinearFitSample :: "'a LinearFitSample \<Rightarrow> 'a LinearFitSample" where
  "uminus_LinearFitSample s = LinearFitSample (- lx s) (- ly s) (- lxx s) (- lxy s)"

instance
  by standard (simp_all add: zero_LinearFitSample_def plus_LinearFitSample_def minus_LinearFitSample_def
      uminus_LinearFitSample_def add.assoc add.commute)

end

text \<open>A \<open>size_t\<close> in arithmetic with the scalar type is converted to it: exact for the window sizes in use.\<close>

fun of_size :: "nat \<Rightarrow> 'a::{zero,one,plus}" where
  "of_size 0 = 0"
| "of_size (Suc n) = of_size n + 1"

lemma of_size_field [simp]: "of_size n = (of_nat n :: 'a::linordered_field)"
  by (induction n) (simp_all add: add.commute)

text \<open>
  \<open>None\<close> is the result \<open>false\<close>, when the division would be by zero. With rounded operations the
  denominator of points at one abscissa need not be 0.
\<close>

definition FindSlope :: "nat \<Rightarrow> 'a::{zero,one,plus,minus,times,inverse} LinearFitSample rolling_sum \<Rightarrow> 'a option" where
  "FindSlope n data =
     (let E = rs_Sum data;
          denom = of_size n * lxx E - lx E * lx E in
      if denom = 0 then None
      else Some ((of_size n * lxy E - lx E * ly E) / denom))"

lemma lx_sum: "lx (sum_list ss) = sum_list (map lx ss)" "ly (sum_list ss) = sum_list (map ly ss)"
  "lxx (sum_list ss) = sum_list (map lxx ss)" "lxy (sum_list ss) = sum_list (map lxy ss)"
  by (induction ss) (simp_all add: zero_LinearFitSample_def plus_LinearFitSample_def)

text \<open>The denominator is half the sum of the squared differences of all pairs.\<close>

lemma pair_sum:
  fixes xs :: "'a::linordered_field list"
  shows "(\<Sum>x\<leftarrow>xs. \<Sum>y\<leftarrow>xs. (x - y) * (x - y)) =
    2 * (of_nat (length xs) * (\<Sum>x\<leftarrow>xs. x * x) - sum_list xs * sum_list xs)"
proof -
  have inner: "(\<Sum>y\<leftarrow>ys. (x - y) * (x - y)) =
      of_nat (length ys) * (x * x) - 2 * x * sum_list ys + (\<Sum>y\<leftarrow>ys. y * y)" for x :: 'a and ys
    by (induction ys) (simp_all add: algebra_simps)
  have outer: "(\<Sum>x\<leftarrow>zs. n * (x * x) - 2 * x * s + q) =
      n * (\<Sum>x\<leftarrow>zs. x * x) - 2 * s * sum_list zs + of_nat (length zs) * q" for n s q :: 'a and zs
    by (induction zs) (simp_all add: algebra_simps)
  show ?thesis by (simp only: inner outer) (simp add: algebra_simps)
qed

lemma denom_zero:
  fixes xs :: "'a::linordered_field list"
  shows "of_nat (length xs) * (\<Sum>x\<leftarrow>xs. x * x) - sum_list xs * sum_list xs = 0 \<longleftrightarrow>
    (\<forall>x\<in>set xs. \<forall>y\<in>set xs. x = y)"
proof -
  have zero: "(\<Sum>x\<leftarrow>zs. f x) = 0 \<longleftrightarrow> (\<forall>x\<in>set zs. f x = 0)" if "\<And>x. 0 \<le> f x" for f :: "'a \<Rightarrow> 'a" and zs
    using sum_list_nonneg_eq_0_iff [of "map f zs"] that by auto
  have "(\<Sum>y\<leftarrow>xs. (x - y) * (x - y)) \<ge> 0" for x by (intro sum_list_nonneg) auto
  then have "(\<Sum>x\<leftarrow>xs. \<Sum>y\<leftarrow>xs. (x - y) * (x - y)) = 0 \<longleftrightarrow> (\<forall>x\<in>set xs. \<forall>y\<in>set xs. x = y)"
    by (simp add: zero)
  then show ?thesis unfolding pair_sum by simp
qed

subsection \<open>Debouncer\<close>

datatype ThresholdDirection = Over | Under

record 'a debouncer =
  duration :: u32
  target_value :: 'a
  firstTimePassed :: u32
  lastTimePassed :: u32

definition NOT_PASSED :: u32 where "NOT_PASSED = NOT 0"

definition db_new :: "u32 \<Rightarrow> 'a \<Rightarrow> 'a debouncer" where
  "db_new dur tgt = \<lparr>duration = dur, target_value = tgt, firstTimePassed = NOT_PASSED, lastTimePassed = NOT_PASSED\<rparr>"

definition passesOne :: "ThresholdDirection \<Rightarrow> 'a::linorder debouncer \<Rightarrow> 'a \<Rightarrow> bool" where
  "passesOne direction db new_value =
     (case direction of Over \<Rightarrow> new_value > target_value db | Under \<Rightarrow> new_value < target_value db)"

definition db_Feed :: "ThresholdDirection \<Rightarrow> u32 \<Rightarrow> 'a::linorder \<Rightarrow> 'a debouncer \<Rightarrow> 'a debouncer" where
  "db_Feed direction t new_value db =
     (if passesOne direction db new_value then
        let db = db\<lparr>lastTimePassed := t\<rparr> in
        if firstTimePassed db = NOT_PASSED then db\<lparr>firstTimePassed := t\<rparr> else db
      else db\<lparr>firstTimePassed := NOT_PASSED, lastTimePassed := NOT_PASSED\<rparr>)"

definition db_Passed :: "'a debouncer \<Rightarrow> bool" where
  "db_Passed db =
     (if firstTimePassed db = NOT_PASSED \<or> lastTimePassed db = NOT_PASSED then False
      else lastTimePassed db - firstTimePassed db > duration db)"

definition db_run :: "ThresholdDirection \<Rightarrow> (u32 \<times> 'a::linorder) list \<Rightarrow> 'a debouncer \<Rightarrow> 'a debouncer" where
  "db_run direction samples db = fold (\<lambda>(t, v). db_Feed direction t v) samples db"

text \<open>The samples at the end that pass the threshold without a break.\<close>

definition over_since :: "('a \<Rightarrow> bool) \<Rightarrow> (u32 \<times> 'a) list \<Rightarrow> (u32 \<times> 'a) list" where
  "over_since p samples = rev (takeWhile (\<lambda>(t, v). p v) (rev samples))"

lemma over_since_snoc:
  "over_since p (samples @ [(t, v)]) = (if p v then over_since p samples @ [(t, v)] else [])"
  by (simp add: over_since_def)

lemma set_over_since: "set (over_since p samples) \<subseteq> set samples"
  by (auto simp: over_since_def dest: set_takeWhileD)

lemma db_run_state:
  assumes "\<forall>(t, v)\<in>set samples. t \<noteq> NOT_PASSED"
  shows "db_run direction samples (db_new dur tgt) =
    \<lparr>duration = dur, target_value = tgt,
     firstTimePassed = (case over_since (passesOne direction (db_new dur tgt)) samples of [] \<Rightarrow> NOT_PASSED | x # _ \<Rightarrow> fst x),
     lastTimePassed = (case over_since (passesOne direction (db_new dur tgt)) samples of [] \<Rightarrow> NOT_PASSED
                       | x # xs \<Rightarrow> fst (last (x # xs)))\<rparr>"
  using assms
proof (induction samples rule: rev_induct)
  case Nil
  then show ?case by (simp add: db_run_def over_since_def db_new_def)
next
  case (snoc s samples)
  obtain t v where s: "s = (t, v)" by (cases s)
  let ?r = "over_since (passesOne direction (db_new dur tgt)) samples"
  have IH: "db_run direction samples (db_new dur tgt) =
    \<lparr>duration = dur, target_value = tgt, firstTimePassed = (case ?r of [] \<Rightarrow> NOT_PASSED | x # _ \<Rightarrow> fst x),
     lastTimePassed = (case ?r of [] \<Rightarrow> NOT_PASSED | x # xs \<Rightarrow> fst (last (x # xs)))\<rparr>"
    using snoc by simp
  have ne: "fst x \<noteq> NOT_PASSED" if "?r = x # xs" for x xs
    using that set_over_since [of "passesOne direction (db_new dur tgt)" samples] snoc.prems by fastforce
  have p: "passesOne direction \<lparr>duration = dur, target_value = tgt, firstTimePassed = a, lastTimePassed = b\<rparr> v =
      passesOne direction (db_new dur tgt) v" for a b
    by (simp add: passesOne_def db_new_def split: ThresholdDirection.split)
  have "db_run direction (samples @ [s]) (db_new dur tgt) = db_Feed direction t v (db_run direction samples (db_new dur tgt))"
    by (simp add: db_run_def s)
  then show ?case
    using ne by (cases ?r) (simp_all add: IH s over_since_snoc db_Feed_def p Let_def)
qed

subsection \<open>Properties\<close>

text \<open>
  C30: a circular buffer of \<open>n\<close> samples after any number of additions holds the last \<open>n\<close> values,
  its initial value included; the subscript counts from the oldest one and wraps around, up to the index
  \<open>2^32 - n\<close>: beyond it the sum of the indices may exceed \<open>size_t\<close>.
\<close>

theorem circular_buffer_holds_last:
  assumes "0 < n"
  shows "\<exists>b. fold_opt cbuf_AddSample xs (cbuf_new n v) = Some b \<and>
    window b = drop (length xs) (replicate n v @ xs) \<and>
    (\<forall>i. i + n \<le> 2 ^ 32 \<longrightarrow> cbuf_at b i = Some (drop (length xs) (replicate n v @ xs) ! (i mod n))) \<and>
    cbuf_OldestSample b = Some (hd (drop (length xs) (replicate n v @ xs)))"
proof -
  obtain b where b: "fold_opt cbuf_AddSample xs (cbuf_new n v) = Some b" "cbuf_ok b"
      "window b = drop (length xs) (window (cbuf_new n v) @ xs)"
    using ring.add_many [of "cbuf_new n v" xs] cbuf_new_ok [OF assms, of v] by blast
  have w: "window b = drop (length xs) (replicate n v @ xs)"
    using b(3) cbuf_new_ok [OF assms, of v] by (simp only:)
  have "length (window b) = n" by (simp add: w)
  then have n: "cbuf_Size b = n" by (simp add: cbuf_Size_def)
  show ?thesis
    using b(1) w cbuf_at_ok [OF b(2), unfolded n w] cbuf_OldestSample_ok [OF b(2), unfolded w]
    by (intro exI [of _ b]) (simp del: drop_append)
qed

theorem circular_buffer_holds_last_witness:
  "\<exists>b. fold_opt cbuf_AddSample [1, 2, 3, 4] (cbuf_new 3 (0 :: nat)) = Some b \<and> window b = [2, 3, 4]"
proof -
  have "replicate 3 (0 :: nat) = [0, 0, 0]" by (simp add: numeral_3_eq_3)
  then show ?thesis using circular_buffer_holds_last [of 3 "[1, 2, 3, 4]" "0 :: nat"] by auto
qed

text \<open>
  \<open>NewestSample\<close> is the newest sample, except right after construction and after every
  full round of additions: then it reads far past the array.
\<close>

theorem circular_buffer_newest:
  assumes "0 < n" "n < 2 ^ 32"
  shows "\<exists>b. fold_opt cbuf_AddSample xs (cbuf_new n v) = Some b \<and>
    cbuf_NewestSample b = (if length xs mod n = 0 then None else Some (last xs))"
proof -
  have idx: "\<exists>b. fold_opt cbuf_AddSample xs (cbuf_new n v) = Some b \<and> oldest_index b = length xs mod n \<and>
      length (underlying b) = n \<and> cbuf_ok b" for xs
  proof (induction xs rule: rev_induct)
    case Nil
    then show ?case using assms cbuf_new_ok by (auto simp: cbuf_new_def cbuf_ok_def)
  next
    case (snoc x xs)
    then obtain b where b: "fold_opt cbuf_AddSample xs (cbuf_new n v) = Some b" "oldest_index b = length xs mod n"
      "length (underlying b) = n" "cbuf_ok b" by blast
    have "\<exists>b'. cbuf_AddSample x b = Some b' \<and> oldest_index b' = (length xs + 1) mod n \<and> length (underlying b') = n"
      using assms b by (simp add: cbuf_AddSample_def cbuf_Size_def mod_Suc_eq)
    then show ?case using b cbuf_AddSample_ok [OF b(4), of x] by (auto simp: fold_opt_append)
  qed
  obtain b where b: "fold_opt cbuf_AddSample xs (cbuf_new n v) = Some b" "oldest_index b = length xs mod n"
    "length (underlying b) = n" "cbuf_ok b" using idx by blast
  have "window b = drop (length xs) (replicate n v @ xs)"
    using ring.add_many [of "cbuf_new n v" xs] cbuf_new_ok [OF assms(1), of v] b(1) by auto
  then have "last (window b) = last (replicate n v @ xs)" using assms by (simp only:) (intro last_drop, simp)
  then have "xs \<noteq> [] \<Longrightarrow> last (window b) = last xs" by simp
  moreover have "length xs mod n \<noteq> 0 \<Longrightarrow> xs \<noteq> []" by auto
  ultimately show ?thesis using b(1,2,3) assms cbuf_NewestSample_cases [OF b(4)] by (intro exI [of _ b]) simp
qed

theorem circular_buffer_newest_witness:
  "\<exists>b. fold_opt cbuf_AddSample [1, 2, 3] (cbuf_new 3 (0 :: nat)) = Some b \<and> cbuf_NewestSample b = None"
  using circular_buffer_newest [of 3 "[1, 2, 3]" "0 :: nat"] by simp

text \<open>
  A rolling sum is at every moment the sum of the last \<open>n\<close> values, in any abelian group: in
  exact arithmetic and for machine integers that wrap.
\<close>

theorem rolling_sum_correct:
  fixes start :: "'a::ab_group_add"
  assumes "0 < n"
  shows "\<exists>rs rs'. rs_new n start = Some rs \<and> fold_opt rs_Feed xs rs = Some rs' \<and>
    rs_Sum rs' = sum_list (drop (length xs) (replicate n start @ xs))"
proof -
  obtain rs where rs: "rs_new n start = Some rs" "rs_ok rs" "window (buf rs) = replicate n start"
    using rs_Fill_ok [of "\<lparr>total = 0, buf = cbuf_new n start\<rparr>" start] cbuf_new_ok [OF assms, of start]
    by (auto simp: rs_new_def cbuf_Size_def cbuf_new_def)
  then obtain rs' where "fold_opt rs_Feed xs rs = Some rs'" "rs_ok rs'"
      "window (buf rs') = drop (length xs) (window (buf rs) @ xs)"
    using rolling.add_many [OF rs(2)] by blast
  then show ?thesis using rs by (auto simp: rs_Sum_def rs_ok_def)
qed

theorem rolling_sum_correct_witness:
  "\<exists>rs rs'. rs_new 2 (1 :: int) = Some rs \<and> fold_opt rs_Feed [5, 7, 8] rs = Some rs' \<and> rs_Sum rs' = 15"
proof -
  have "replicate 2 (1 :: int) = [1, 1]" by (simp add: numeral_2_eq_2)
  then show ?thesis using rolling_sum_correct [of 2 "1 :: int" "[5, 7, 8]"] by simp
qed

text \<open>
  In exact arithmetic the slope of a window of points fails exactly when all have the same abscissa, and for points
  on a line, not all at the same abscissa, it is the slope of the line. With \<open>double\<close> neither is so: rounding
  leaves points at one abscissa a small denominator.
\<close>

theorem FindSlope_correct:
  fixes pts :: "('a::linordered_field \<times> 'a) list"
  assumes "rs_ok rs" "window (buf rs) = map (\<lambda>(x, y). fit_sample x y) pts" "n = cbuf_Size (buf rs)"
  shows "(FindSlope n rs = None \<longleftrightarrow> (\<forall>p\<in>set pts. \<forall>q\<in>set pts. fst p = fst q)) \<and>
    ((\<forall>(x, y)\<in>set pts. y = a * x + b) \<and> FindSlope n rs \<noteq> None \<longrightarrow> FindSlope n rs = Some a)"
proof -
  have n: "n = length pts"
    using assms(2,3) length_window [of "buf rs"] by (simp add: cbuf_Size_def)
  have E: "rs_Sum rs = sum_list (map (\<lambda>(x, y). fit_sample x y) pts)"
    using assms(1,2) by (simp add: rs_Sum_def rs_ok_def)
  let ?xs = "map fst pts"
  have parts: "lx (rs_Sum rs) = sum_list ?xs" "lxx (rs_Sum rs) = (\<Sum>x\<leftarrow>?xs. x * x)"
    "ly (rs_Sum rs) = sum_list (map snd pts)" "lxy (rs_Sum rs) = (\<Sum>p\<leftarrow>pts. fst p * snd p)"
    unfolding E lx_sum by (simp_all add: fit_sample_def o_def case_prod_beta)
  let ?d = "of_nat (length pts) * (\<Sum>x\<leftarrow>?xs. x * x) - sum_list ?xs * sum_list ?xs"
  have zero: "?d = 0 \<longleftrightarrow> (\<forall>p\<in>set pts. \<forall>q\<in>set pts. fst p = fst q)"
    using denom_zero [of ?xs] by simp
  have num: "of_nat (length pts) * (\<Sum>p\<leftarrow>pts. fst p * snd p) - sum_list ?xs * sum_list (map snd pts) = a * ?d"
    if "\<forall>(x, y)\<in>set pts. y = a * x + b"
  proof -
    have "(\<Sum>p\<leftarrow>pts. fst p * snd p) = a * (\<Sum>x\<leftarrow>?xs. x * x) + b * sum_list ?xs"
      "sum_list (map snd pts) = a * sum_list ?xs + b * of_nat (length pts)"
      using that by (induction pts) (auto simp: algebra_simps)
    then show ?thesis by (simp add: algebra_simps)
  qed
  define d where "d = ?d"
  define nu where "nu = of_nat (length pts) * (\<Sum>p\<leftarrow>pts. fst p * snd p) - sum_list ?xs * sum_list (map snd pts)"
  have eq: "FindSlope n rs = (if d = 0 then None else Some (nu / d))"
    by (simp only: FindSlope_def Let_def parts n d_def nu_def of_size_field)
  have nu: "(\<forall>(x, y)\<in>set pts. y = a * x + b) \<Longrightarrow> nu = a * d"
    unfolding d_def nu_def by (rule num)
  show ?thesis unfolding zero [folded d_def, symmetric] eq using nu by (cases "d = 0") simp_all
qed

definition example_fit :: "rat LinearFitSample rolling_sum" where
  "example_fit = \<lparr>total = LinearFitSample 1 4 1 3,
     buf = \<lparr>oldest_index = 0, underlying = [fit_sample 0 1, fit_sample 1 3]\<rparr>\<rparr>"

theorem FindSlope_correct_witness: "FindSlope 2 example_fit = Some 2"
proof -
  have "rs_ok example_fit"
    by (simp add: rs_ok_def example_fit_def cbuf_ok_def window_def fit_sample_def plus_LinearFitSample_def
        zero_LinearFitSample_def)
  moreover have "window (buf example_fit) = map (\<lambda>(x, y). fit_sample x y) [(0, 1), (1, 3)]"
    by (simp add: example_fit_def window_def)
  moreover have "2 = cbuf_Size (buf example_fit)" by (simp add: example_fit_def cbuf_Size_def)
  ultimately show ?thesis
    using FindSlope_correct [of example_fit "[(0, 1), (1, 3)]" 2 2 1] by simp
qed

text \<open>
  C33: a debouncer has passed exactly when the samples at the end that pass the threshold without a
  break span more than its duration, in time modulo \<open>2^32\<close>; no sample may carry the time
  \<open>2^32 - 1\<close>, which stands for not passed.
\<close>

theorem debouncer_correct:
  assumes "\<forall>(t, v)\<in>set samples. t \<noteq> NOT_PASSED"
  shows "db_Passed (db_run direction samples (db_new dur tgt)) \<longleftrightarrow>
    (let run = over_since (\<lambda>v. case direction of Over \<Rightarrow> v > tgt | Under \<Rightarrow> v < tgt) samples in
     run \<noteq> [] \<and> fst (last run) - fst (hd run) > dur)"
proof -
  let ?p = "\<lambda>v. case direction of Over \<Rightarrow> v > tgt | Under \<Rightarrow> v < tgt"
  have p: "passesOne direction (db_new dur tgt) = ?p"
    by (simp add: passesOne_def db_new_def fun_eq_iff split: ThresholdDirection.split)
  have ne: "\<forall>s\<in>set (over_since ?p samples). fst s \<noteq> NOT_PASSED"
    using set_over_since [of ?p samples] assms by fastforce
  show ?thesis
  proof (cases "over_since ?p samples")
    case Nil
    then show ?thesis by (simp add: db_run_state [OF assms] p db_Passed_def)
  next
    case (Cons s ss)
    have "fst s \<noteq> NOT_PASSED" "fst (last (s # ss)) \<noteq> NOT_PASSED"
      using ne Cons last_in_set [of "s # ss"] by auto
    then show ?thesis by (simp add: db_run_state [OF assms] p db_Passed_def Cons)
  qed
qed

theorem debouncer_correct_witness:
  "db_Passed (db_run Over [(10, 1), (20, 5), (30, 6), (41, 7)] (db_new 20 (3 :: int)))"
proof -
  have "over_since (\<lambda>v. case Over of Over \<Rightarrow> v > 3 | Under \<Rightarrow> v < 3) [(10, 1), (20, 5), (30, 6), (41, 7 :: int)] =
      [(20, 5), (30, 6), (41, 7)]"
    by (simp add: over_since_def)
  then show ?thesis
    using debouncer_correct [of "[(10, 1), (20, 5), (30, 6), (41, 7)]" Over 20 "3 :: int"]
    by (simp add: NOT_PASSED_def)
qed

end
