(* ===== verification/Flight_Log.thy ===== *)
theory Flight_Log
  imports Flight_Prelude
begin

text \<open>
  The flight log, \<open>lib/f_core/os/flight_log.cpp\<close>, over Zephyr's file calls. These calls are
  parameters: a record of functions on \<open>'f\<close>, the open file and the file system behind it.
  What \<open>snprintf\<close> prints for the formats the program uses is written out.
\<close>

subsection \<open>Files\<close>

record ('c, 'f) fs_ops =
  fs_open :: "string \<Rightarrow> u8 \<Rightarrow> 'f \<Rightarrow> int \<times> 'f"
  fs_close :: "'f \<Rightarrow> int \<times> 'f"
  fs_write :: "'c list \<Rightarrow> 'f \<Rightarrow> int \<times> 'f"
  fs_read :: "nat \<Rightarrow> 'f \<Rightarrow> int \<times> 'c list \<times> 'f"
  fs_seek :: "int \<Rightarrow> 'f \<Rightarrow> int \<times> 'f"
  fs_tell :: "'f \<Rightarrow> int"
  fs_sync :: "'f \<Rightarrow> int \<times> 'f"
  fs_stat :: "string \<Rightarrow> 'f \<Rightarrow> int \<times> int"

definition FS_O_READ :: u8 where "FS_O_READ = 0x01"
definition FS_O_WRITE :: u8 where "FS_O_WRITE = 0x02"
definition FS_O_CREATE :: u8 where "FS_O_CREATE = 0x10"
definition FS_O_APPEND :: u8 where "FS_O_APPEND = 0x20"

subsection \<open>Printing\<close>

function dec :: "nat \<Rightarrow> string" where
  "dec n = (if n < 10 then [char_of (48 + n)] else dec (n div 10) @ [char_of (48 + n mod 10)])"
  by pat_completeness auto

termination
  by (relation "measure id") auto

declare dec.simps [simp del]

definition show_int :: "int \<Rightarrow> string" where
  "show_int k = (if k < 0 then ''-'' @ dec (nat (- k)) else dec (nat k))"

definition pad_left :: "nat \<Rightarrow> string \<Rightarrow> string" where
  "pad_left n s = replicate (n - length s) (CHR '' '') @ s"

definition pad_right :: "nat \<Rightarrow> string \<Rightarrow> string" where
  "pad_right n s = s @ replicate (n - length s) (CHR '' '')"

text \<open>
  A zeroed buffer of \<open>size\<close> bytes after \<open>snprintf\<close> of \<open>s\<close>, and what a call
  reads from a buffer it is given the length \<open>n\<close> for: \<open>None\<close> if that is past its end.
\<close>

definition snprintf_buf :: "nat \<Rightarrow> string \<Rightarrow> string" where
  "snprintf_buf sz s = take (sz - 1) s @ replicate (sz - length (take (sz - 1) s)) (CHR 0x00)"

definition from_buf :: "string \<Rightarrow> nat \<Rightarrow> string option" where
  "from_buf b n = (if n \<le> length b then Some (take n b) else None)"

subsection \<open>The log\<close>

definition writeTimestamp :: "(char, 'f) fs_ops \<Rightarrow> int \<Rightarrow> 'f \<Rightarrow> (int \<times> 'f) option" where
  "writeTimestamp fs timestamp f =
     (let s = pad_left 9 (show_int timestamp) @ '': '' in
      case from_buf (snprintf_buf 12 s) (length s) of
        None \<Rightarrow> None
      | Some bytes \<Rightarrow> Some (fs_write fs bytes f))"

text \<open>\<open>Write(timestamp, msg, str_len)\<close>: timestamp, message and newline, until one fails.\<close>

definition fl_Write :: "(char, 'f) fs_ops \<Rightarrow> int \<Rightarrow> string \<Rightarrow> nat \<Rightarrow> 'f \<Rightarrow> (int \<times> 'f) option" where
  "fl_Write fs timestamp msg str_len f =
     (case writeTimestamp fs timestamp f of
        None \<Rightarrow> None
      | Some (ret, f) \<Rightarrow>
          if ret < 0 then Some (ret, f)
          else
          (case from_buf msg str_len of
             None \<Rightarrow> None
           | Some bytes \<Rightarrow>
               (case fs_write fs bytes f of
                  (ret, f) \<Rightarrow>
                    if ret < 0 then Some (ret, f)
                    else (case fs_write fs [CHR 0x0A] f of
                            (ret, f) \<Rightarrow> if ret < 0 then Some (ret, f) else Some (0, f)))))"

text \<open>
  \<open>Write(timestamp, msg)\<close> and \<open>Write(msg)\<close>, for a zero terminated message: both use the
  uptime \<open>now\<close>, whatever timestamp they are given.
\<close>

definition fl_Write_at :: "(char, 'f) fs_ops \<Rightarrow> int \<Rightarrow> int \<Rightarrow> string \<Rightarrow> 'f \<Rightarrow> (int \<times> 'f) option" where
  "fl_Write_at fs now timestamp msg f = (let str_len = length msg in fl_Write fs now msg str_len f)"

definition fl_Write_msg :: "(char, 'f) fs_ops \<Rightarrow> int \<Rightarrow> string \<Rightarrow> 'f \<Rightarrow> (int \<times> 'f) option" where
  "fl_Write_msg fs now msg f = fl_Write_at fs now now msg f"

definition fl_open :: "(char, 'f) fs_ops \<Rightarrow> int \<Rightarrow> string \<Rightarrow> int \<Rightarrow> 'f \<Rightarrow> 'f option" where
  "fl_open fs now filename timestamp f =
     (case fs_open fs filename (FS_O_CREATE OR FS_O_APPEND) f of
        (err, f) \<Rightarrow>
          if err < 0 then Some f
          else map_option snd (fl_Write_msg fs now ''flight log opened'' f))"

definition fl_Sync :: "(char, 'f) fs_ops \<Rightarrow> 'f \<Rightarrow> int \<times> 'f" where "fl_Sync fs f = fs_sync fs f"
definition fl_Close :: "(char, 'f) fs_ops \<Rightarrow> 'f \<Rightarrow> int \<times> 'f" where "fl_Close fs f = fs_close fs f"

subsection \<open>Length of a printed number\<close>

lemma length_dec: "0 < k \<Longrightarrow> length (dec n) \<le> k \<longleftrightarrow> n < 10 ^ k"
proof (induction n arbitrary: k rule: dec.induct)
  case (1 n)
  show ?case
  proof (cases "n < 10")
    case True
    have "(10 :: nat) ^ 1 \<le> 10 ^ k" using "1.prems" by (intro power_increasing) simp_all
    then show ?thesis using True "1.prems" by (simp add: dec.simps [of n])
  next
    case False
    obtain j where j: "k = Suc j" using "1.prems" by (cases k) auto
    show ?thesis
    proof (cases "j = 0")
      case True
      have "dec (n div 10) \<noteq> []" by (subst dec.simps) simp
      then show ?thesis using False j True by (simp add: dec.simps [of n])
    next
      case jpos: False
      have "length (dec n) \<le> k \<longleftrightarrow> length (dec (n div 10)) \<le> j"
        using False j by (simp add: dec.simps [of n])
      also have "\<dots> \<longleftrightarrow> n div 10 < 10 ^ j" using 1 False jpos by simp
      also have "\<dots> \<longleftrightarrow> n < 10 ^ k" by (simp add: j div_less_iff_less_mult mult.commute)
      finally show ?thesis .
    qed
  qed
qed

lemma length_timestamp:
  "0 \<le> t \<Longrightarrow> t < 10 ^ 10 \<Longrightarrow> length (pad_left 9 (show_int t) @ '': '') = (if t < 10 ^ 9 then 11 else 12)"
proof -
  assume t: "0 \<le> t" "t < 10 ^ 10"
  have "length (dec (nat t)) \<le> 10" using length_dec [of 10 "nat t"] t by (simp add: nat_less_iff)
  moreover have "length (dec (nat t)) \<le> 9 \<longleftrightarrow> t < 10 ^ 9" using length_dec [of 9 "nat t"] t by (simp add: nat_less_iff)
  ultimately show ?thesis using t by (auto simp: pad_left_def show_int_def)
qed

lemma timestamp_bytes:
  assumes "0 \<le> t" "t < 10 ^ 10"
  shows "writeTimestamp fs t f = Some (fs_write fs
    (if t < 10 ^ 9 then pad_left 9 (show_int t) @ '': '' else show_int t @ [CHR '':'', CHR 0x00]) f)"
proof -
  let ?s = "pad_left 9 (show_int t) @ '': ''"
  have len: "length ?s = (if t < 10 ^ 9 then 11 else 12)" by (rule length_timestamp [OF assms])
  show ?thesis
  proof (cases "t < 10 ^ 9")
    case True
    then have "from_buf (snprintf_buf 12 ?s) (length ?s) = Some ?s"
      using len by (simp add: from_buf_def snprintf_buf_def)
    then show ?thesis using True by (simp add: writeTimestamp_def Let_def)
  next
    case False
    then have l: "length (show_int t) = 10" "pad_left 9 (show_int t) = show_int t"
      using len by (auto simp: pad_left_def)
    then have "from_buf (snprintf_buf 12 ?s) (length ?s) = Some (show_int t @ [CHR '':'', CHR 0x00])"
      by (simp add: from_buf_def snprintf_buf_def)
    then show ?thesis using False by (simp add: writeTimestamp_def Let_def)
  qed
qed

text \<open>From \<open>10^10\<close> milliseconds on the write reads past the buffer.\<close>

lemma timestamp_overflow:
  assumes "10 ^ 10 \<le> t"
  shows "writeTimestamp fs t f = None"
proof -
  have "\<not> length (dec (nat t)) \<le> 10" using length_dec [of 10 "nat t"] assms by (simp add: nat_less_iff)
  then have "12 < length (pad_left 9 (show_int t) @ '': '')" using assms by (simp add: pad_left_def show_int_def)
  then show ?thesis by (simp add: writeTimestamp_def Let_def from_buf_def snprintf_buf_def)
qed

subsection \<open>A line of the log\<close>

text \<open>Documented behaviour of a file that is open for appending and has room.\<close>

definition appends :: "(char, 'f) fs_ops \<Rightarrow> ('f \<Rightarrow> string) \<Rightarrow> bool" where
  "appends fs text_of \<longleftrightarrow>
     (\<forall>bytes f. fst (fs_write fs bytes f) = int (length bytes) \<and>
                text_of (snd (fs_write fs bytes f)) = text_of f @ bytes)"

lemma append_write:
  assumes "appends fs text_of"
  obtains f' where "fs_write fs bytes f = (int (length bytes), f')" "text_of f' = text_of f @ bytes"
  using assms prod.collapse [of "fs_write fs bytes f"] unfolding appends_def by metis

lemma fl_Write_appends:
  assumes "appends fs text_of" "0 \<le> t" "t < 10 ^ 10" "n \<le> length msg"
  shows "\<exists>f'. fl_Write fs t msg n f = Some (0, f') \<and>
    text_of f' = text_of f @ (if t < 10 ^ 9 then pad_left 9 (show_int t) @ '': '' else show_int t @ [CHR '':'', CHR 0x00]) @
      take n msg @ [CHR 0x0A]"
proof -
  let ?ts = "if t < 10 ^ 9 then pad_left 9 (show_int t) @ '': '' else show_int t @ [CHR '':'', CHR 0x00]"
  obtain f1 where 1: "fs_write fs ?ts f = (int (length ?ts), f1)" "text_of f1 = text_of f @ ?ts"
    by (rule append_write [OF assms(1)])
  obtain f2 where 2: "fs_write fs (take n msg) f1 = (int (length (take n msg)), f2)" "text_of f2 = text_of f1 @ take n msg"
    by (rule append_write [OF assms(1)])
  obtain f3 where 3: "fs_write fs [CHR 0x0A] f2 = (int (length [CHR 0x0A]), f3)" "text_of f3 = text_of f2 @ [CHR 0x0A]"
    by (rule append_write [OF assms(1)])
  have "writeTimestamp fs t f = Some (int (length ?ts), f1)" using timestamp_bytes [OF assms(2,3), of fs f] 1 by simp
  then show ?thesis using 1 2 3 assms(4) by (simp add: fl_Write_def from_buf_def)
qed

text \<open>
  C38: a write to the log appends one line: the uptime in nine digits, a colon, a space, the
  message and a newline, for uptimes below \<open>10^9\<close> ms. From then on the space is a zero byte, and
  from \<open>10^10\<close> ms on the write reads past the buffer of the timestamp.
\<close>

theorem flight_log_line:
  assumes "appends fs text_of" "0 \<le> now"
  shows "if now < 10 ^ 10 then
      \<exists>f'. fl_Write_msg fs now msg f = Some (0, f') \<and>
        text_of f' = text_of f @ (if now < 10 ^ 9 then pad_left 9 (show_int now) @ '': ''
                                  else show_int now @ [CHR '':'', CHR 0x00]) @ msg @ [CHR 0x0A]
    else fl_Write_msg fs now msg f = None"
  using fl_Write_appends [OF assms, of "length msg" msg f] timestamp_overflow [of now fs f]
  by (simp add: fl_Write_msg_def fl_Write_at_def fl_Write_def)

text \<open>A file in memory that only grows, for the witnesses.\<close>

definition memory_log :: "(char, string) fs_ops" where
  "memory_log = \<lparr>fs_open = \<lambda>_ _ f. (0, f), fs_close = \<lambda>f. (0, f),
     fs_write = \<lambda>bytes f. (int (length bytes), f @ bytes), fs_read = \<lambda>n f. (0, [], f), fs_seek = \<lambda>_ f. (0, f),
     fs_tell = \<lambda>f. int (length f), fs_sync = \<lambda>f. (0, f), fs_stat = \<lambda>_ f. (0, int (length f))\<rparr>"

lemma memory_log_appends: "appends memory_log (\<lambda>f. f)"
  by (simp add: appends_def memory_log_def)

theorem flight_log_line_witness:
  "fl_Write_msg memory_log 1234 ''Boost'' [] = Some (0, ''     1234: Boost'' @ [CHR 0x0A]) \<and>
   fl_Write_msg memory_log (10 ^ 10) ''Boost'' [] = None"
proof -
  have "show_int 1234 = ''1234''" by (simp add: show_int_def dec.simps char_of_def bit_simps)
  moreover have "replicate 5 (CHR '' '') = ''     ''" by (simp add: eval_nat_numeral)
  ultimately show ?thesis
    using flight_log_line [OF memory_log_appends, of 1234 "''Boost''" "[]"]
      flight_log_line [OF memory_log_appends, of "10 ^ 10" "''Boost''" "[]"]
    by (auto simp: pad_left_def)
qed

end
