(* ===== verification/Phase_Controller.thy ===== *)
theory Phase_Controller
  imports Flight_Log "HOL-Library.Monad_Syntax"
begin

text \<open>
  \<open>CPhaseController\<close>, \<open>include/f_core/flight/c_phase_controller.h\<close>: the sources submit events,
  decision functions confirm them, confirmed events are posted and start timers, timers submit
  events of their own. Events and sources are the numbers of their enumerations.

  A submission is one step of the model; it is called from threads and from timer callbacks and
  takes no lock, so what is shown here is the behaviour without interrupted submissions.
  \<open>None\<close> is an access past an array or buffer.
\<close>

subsection \<open>State\<close>

text \<open>\<open>te_time\<close> is in milliseconds; it is handed to \<open>k_timer_start\<close>.\<close>

record TimerEvent =
  te_start :: nat
  te_event :: nat
  te_time :: int
  te_source :: nat

text \<open>What does not change after construction; the log is \<open>None\<close> for a null pointer.\<close>

record 'f pc_config =
  sourceNames :: "string list"
  eventNames :: "string list"
  timerEvents :: "TimerEvent list"
  deciders :: "(bool list \<Rightarrow> bool) list"
  flight_log :: "(char, 'f) fs_ops option"

text \<open>\<open>timers\<close> tells which of the kernel timers run, \<open>log_file\<close> is the file of the log.\<close>

record 'f pc_state =
  sourceStates :: "bool list list"
  eventStates :: "bool list"
  osEvents :: u32
  timers :: "bool list"
  log_file :: 'f

subsection \<open>Operations\<close>

definition pc_new :: "'f pc_config \<Rightarrow> int \<Rightarrow> 'f \<Rightarrow> 'f pc_state option" where
  "pc_new cfg now f =
     (let st = \<lparr>sourceStates = replicate (length (eventNames cfg)) (replicate (length (sourceNames cfg)) False),
                eventStates = replicate (length (eventNames cfg)) False, osEvents = 0,
                timers = replicate (length (timerEvents cfg)) False, log_file = f\<rparr> in
      case flight_log cfg of
        None \<Rightarrow> Some st
      | Some fs \<Rightarrow> map_option (\<lambda>(_, f). st\<lparr>log_file := f\<rparr>) (fl_Write_msg fs now ''CPhaseController initialized'' f))"

definition log_line :: "'f pc_config \<Rightarrow> int \<Rightarrow> string \<Rightarrow> 'f \<Rightarrow> (int \<times> 'f) option" where
  "log_line cfg now s f =
     (case flight_log cfg of
        None \<Rightarrow> Some (0, f)
      | Some fs \<Rightarrow> let string_buf = snprintf_buf 64 s; num_wrote = length s in
          fl_Write fs now string_buf num_wrote f)"

definition LogSourceEvent :: "'f pc_config \<Rightarrow> int \<Rightarrow> nat \<Rightarrow> nat \<Rightarrow> 'f \<Rightarrow> (int \<times> 'f) option" where
  "LogSourceEvent cfg now event source f = do {
     ev \<leftarrow> arr_get (eventNames cfg) event;
     src \<leftarrow> arr_get (sourceNames cfg) source;
     log_line cfg now (pad_right 10 ev @ '' from '' @ src) f }"

definition LogEventConfirmed :: "'f pc_config \<Rightarrow> int \<Rightarrow> nat \<Rightarrow> bool \<Rightarrow> 'f \<Rightarrow> (int \<times> 'f) option" where
  "LogEventConfirmed cfg now event currentState f = do {
     ev \<leftarrow> arr_get (eventNames cfg) event;
     log_line cfg now (pad_right 10 ev @ '' confirmed'' @
       (if currentState then '' but already happened. Not dispatching'' else [])) f }"

definition start_timers :: "'f pc_config \<Rightarrow> nat \<Rightarrow> bool list \<Rightarrow> bool list" where
  "start_timers cfg event ts = map (\<lambda>(te, running). running \<or> te_start te = event) (zip (timerEvents cfg) ts)"

definition dispatch :: "'f pc_config \<Rightarrow> nat \<Rightarrow> 'f pc_state \<Rightarrow> 'f pc_state" where
  "dispatch cfg event st =
     st\<lparr>eventStates := (eventStates st)[event := True],
        osEvents := osEvents st OR push_bit event 1,
        timers := start_timers cfg event (timers st)\<rparr>"

definition SubmitEvent ::
  "'f pc_config \<Rightarrow> int \<times> int \<Rightarrow> nat \<Rightarrow> nat \<Rightarrow> 'f pc_state \<Rightarrow> 'f pc_state option" where
  "SubmitEvent cfg now source event st = do {
     row \<leftarrow> arr_get (sourceStates st) event;
     row \<leftarrow> arr_put row source True;
     rows \<leftarrow> arr_put (sourceStates st) event row;
     let st = st\<lparr>sourceStates := rows\<rparr>;
     decide \<leftarrow> arr_get (deciders cfg) event;
     if decide row then do {
       last_state \<leftarrow> arr_get (eventStates st) event;
       let st = (if \<not> last_state then dispatch cfg event st else st);
       (_, f) \<leftarrow> LogSourceEvent cfg (fst now) event source (log_file st);
       (_, f) \<leftarrow> LogEventConfirmed cfg (snd now) event last_state f;
       Some (st\<lparr>log_file := f\<rparr>)
     } else do {
       (_, f) \<leftarrow> LogSourceEvent cfg (fst now) event source (log_file st);
       Some (st\<lparr>log_file := f\<rparr>)
     } }"

text \<open>A submission under a condition, as the threads that watch the sensors write it.\<close>

definition submit_if :: "bool \<Rightarrow> 'f pc_config \<Rightarrow> int \<times> int \<Rightarrow> nat \<Rightarrow> nat \<Rightarrow> 'f pc_state \<Rightarrow> 'f pc_state option" where
  "submit_if cond cfg now source event st = (if cond then SubmitEvent cfg now source event st else Some st)"

definition HasEventOccured :: "nat \<Rightarrow> 'f pc_state \<Rightarrow> bool option" where
  "HasEventOccured event st = arr_get (eventStates st) event"

text \<open>\<open>k_event_wait\<close> gets the pending events and the mask and returns those that came in time.\<close>

definition WaitUntilEvent :: "(u32 \<Rightarrow> u32 \<Rightarrow> u32) \<Rightarrow> nat \<Rightarrow> 'f pc_state \<Rightarrow> bool" where
  "WaitUntilEvent k_event_wait event st =
     (let event_bit = push_bit event 1; event_that_happened = k_event_wait (osEvents st) event_bit in
      event_that_happened \<noteq> 0)"

text \<open>The callback of a timer that expires; the timers have no period and stop.\<close>

definition timer_expiry_cb :: "'f pc_config \<Rightarrow> int \<times> int \<Rightarrow> nat \<Rightarrow> 'f pc_state \<Rightarrow> 'f pc_state option" where
  "timer_expiry_cb cfg now i st = do {
     te \<leftarrow> arr_get (timerEvents cfg) i;
     SubmitEvent cfg now (te_source te) (te_event te) (st\<lparr>timers := (timers st)[i := False]\<rparr>) }"

subsection \<open>Steps\<close>

inductive pc_step :: "'f pc_config \<Rightarrow> 'f pc_state \<Rightarrow> 'f pc_state \<Rightarrow> bool" for cfg where
  submit: "event < length (eventNames cfg) \<Longrightarrow> source < length (sourceNames cfg) \<Longrightarrow>
     SubmitEvent cfg now source event st = Some st' \<Longrightarrow> pc_step cfg st st'"
| expire: "i < length (timers st) \<Longrightarrow> timers st ! i \<Longrightarrow>
     timer_expiry_cb cfg now i st = Some st' \<Longrightarrow> pc_step cfg st st'"

inductive pc_reachable :: "'f pc_config \<Rightarrow> 'f pc_state \<Rightarrow> bool" for cfg where
  start: "pc_new cfg now f = Some st \<Longrightarrow> pc_reachable cfg st"
| steps: "pc_reachable cfg st \<Longrightarrow> pc_step cfg st st' \<Longrightarrow> pc_reachable cfg st'"


subsection \<open>Invariant\<close>

definition pc_wf :: "'f pc_config \<Rightarrow> bool" where
  "pc_wf cfg \<longleftrightarrow>
     length (deciders cfg) = length (eventNames cfg) \<and> length (eventNames cfg) \<le> 32 \<and>
     (\<forall>te\<in>set (timerEvents cfg). te_start te < length (eventNames cfg) \<and> te_event te < length (eventNames cfg) \<and>
        te_source te < length (sourceNames cfg))"

text \<open>More sources in favour never turn a decision around.\<close>

definition monotone_deciders :: "'f pc_config \<Rightarrow> bool" where
  "monotone_deciders cfg \<longleftrightarrow>
     (\<forall>d\<in>set (deciders cfg). \<forall>row s. s < length row \<longrightarrow> d row \<longrightarrow> d (row[s := True]))"

definition pc_shape :: "'f pc_config \<Rightarrow> 'f pc_state \<Rightarrow> bool" where
  "pc_shape cfg st \<longleftrightarrow>
     length (sourceStates st) = length (eventNames cfg) \<and>
     (\<forall>e < length (eventNames cfg). length (sourceStates st ! e) = length (sourceNames cfg)) \<and>
     length (eventStates st) = length (eventNames cfg) \<and> length (timers st) = length (timerEvents cfg)"

definition confirmed :: "'f pc_config \<Rightarrow> 'f pc_state \<Rightarrow> bool" where
  "confirmed cfg st \<longleftrightarrow>
     (\<forall>e < length (eventNames cfg).
        (eventStates st ! e \<longleftrightarrow> (deciders cfg ! e) (sourceStates st ! e) \<and> True \<in> set (sourceStates st ! e)) \<and>
        (eventStates st ! e \<longleftrightarrow> bit (osEvents st) e))"

text \<open>A timer runs only after its start event, and after it, it runs or has submitted its event.\<close>

definition timers_served :: "'f pc_config \<Rightarrow> 'f pc_state \<Rightarrow> bool" where
  "timers_served cfg st \<longleftrightarrow>
     (\<forall>i < length (timerEvents cfg).
        let te = timerEvents cfg ! i in
        (timers st ! i \<longrightarrow> eventStates st ! te_start te) \<and>
        (eventStates st ! te_start te \<longrightarrow> timers st ! i \<or> sourceStates st ! te_event te ! te_source te))"

lemmas pc_inv_defs = pc_shape_def confirmed_def timers_served_def

text \<open>What a submission does, up to the log.\<close>

definition submitted :: "'f pc_config \<Rightarrow> nat \<Rightarrow> nat \<Rightarrow> 'f pc_state \<Rightarrow> 'f pc_state" where
  "submitted cfg source event st =
     (let row = (sourceStates st ! event)[source := True];
          st = st\<lparr>sourceStates := (sourceStates st)[event := row]\<rparr> in
      if (deciders cfg ! event) row \<and> \<not> eventStates st ! event then dispatch cfg event st else st)"

lemma SubmitEvent_effect:
  assumes "pc_shape cfg st" "event < length (eventNames cfg)" "source < length (sourceNames cfg)"
    "length (deciders cfg) = length (eventNames cfg)" "SubmitEvent cfg now source event st = Some st'"
  shows "\<exists>f. st' = submitted cfg source event st\<lparr>log_file := f\<rparr>"
  using assms
  by (auto simp: SubmitEvent_def submitted_def pc_shape_def Let_def dispatch_def split: if_splits Option.bind_splits)

lemma length_start_timers [simp]:
  "length ts = length (timerEvents cfg) \<Longrightarrow> length (start_timers cfg e ts) = length (timerEvents cfg)"
  by (simp add: start_timers_def)

lemma nth_start_timers [simp]:
  "length ts = length (timerEvents cfg) \<Longrightarrow> i < length (timerEvents cfg) \<Longrightarrow>
    start_timers cfg e ts ! i \<longleftrightarrow> ts ! i \<or> te_start (timerEvents cfg ! i) = e"
  by (simp add: start_timers_def)

lemma submitted_shape:
  assumes "pc_shape cfg st" "event < length (eventNames cfg)"
  shows "pc_shape cfg (submitted cfg source event st)"
proof -
  have "length ((sourceStates st)[event := (sourceStates st ! event)[source := True]] ! e) = length (sourceNames cfg)"
    if "e < length (eventNames cfg)" for e
    using assms that by (cases "e = event") (simp_all add: pc_shape_def)
  then show ?thesis using assms(1) by (simp add: pc_shape_def submitted_def dispatch_def Let_def)
qed

lemma log_file_irrelevant [simp]:
  "pc_shape cfg (st\<lparr>log_file := f\<rparr>) = pc_shape cfg st" "confirmed cfg (st\<lparr>log_file := f\<rparr>) = confirmed cfg st"
  "timers_served cfg (st\<lparr>log_file := f\<rparr>) = timers_served cfg st"
  by (simp_all add: pc_inv_defs)

lemma confirmed_timers: "confirmed cfg (st\<lparr>timers := ts\<rparr>) = confirmed cfg st"
  by (simp add: confirmed_def)

lemma bit_or_push:
  "e < 32 \<Longrightarrow> e' < 32 \<Longrightarrow> bit ((w :: u32) OR 2 ^ e) e' \<longleftrightarrow> bit w e' \<or> e' = e"
  by (auto simp: bit_or_iff bit_exp_iff)

lemma True_in_update: "s < length row \<Longrightarrow> True \<in> set (row[s := True])"
  using set_update_memI by fastforce

lemma submitted_confirmed:
  assumes wf: "pc_wf cfg" and mono: "monotone_deciders cfg" and shape: "pc_shape cfg st"
    and e: "event < length (eventNames cfg)" and s: "source < length (sourceNames cfg)" and inv: "confirmed cfg st"
  shows "confirmed cfg (submitted cfg source event st)"
  unfolding confirmed_def
proof (intro allI impI)
  fix e' assume e': "e' < length (eventNames cfg)"
  let ?row = "(sourceStates st ! event)[source := True]"
  have len: "event < length (sourceStates st)" "source < length (sourceStates st ! event)"
    "event < length (eventStates st)"
    using shape e s by (auto simp: pc_shape_def)
  have b: "event < 32" "e' < 32" using wf e e' by (auto simp: pc_wf_def)
  have "deciders cfg ! event \<in> set (deciders cfg)" using wf e by (auto simp: pc_wf_def)
  then have up: "(deciders cfg ! event) (sourceStates st ! event) \<Longrightarrow> (deciders cfg ! event) ?row"
    using mono len by (auto simp: monotone_deciders_def)
  have T: "True \<in> set ?row" by (rule True_in_update [OF len(2)])
  show "(eventStates (submitted cfg source event st) ! e' \<longleftrightarrow>
      (deciders cfg ! e') (sourceStates (submitted cfg source event st) ! e') \<and>
      True \<in> set (sourceStates (submitted cfg source event st) ! e')) \<and>
    (eventStates (submitted cfg source event st) ! e' \<longleftrightarrow> bit (osEvents (submitted cfg source event st)) e')"
  proof (cases "e' = event")
    case True
    have now: "eventStates st ! event \<longleftrightarrow> (deciders cfg ! event) (sourceStates st ! event) \<and> True \<in> set (sourceStates st ! event)"
      "eventStates st ! event \<longleftrightarrow> bit (osEvents st) event"
      using inv e by (auto simp: confirmed_def)
    show ?thesis using True len b up T now
      by (cases "(deciders cfg ! event) ?row"; cases "eventStates st ! event")
        (simp_all add: submitted_def dispatch_def Let_def bit_or_push)
  next
    case False
    have "eventStates st ! e' \<longleftrightarrow> (deciders cfg ! e') (sourceStates st ! e') \<and> True \<in> set (sourceStates st ! e')"
      "eventStates st ! e' \<longleftrightarrow> bit (osEvents st) e'"
      using inv e' by (auto simp: confirmed_def)
    then show ?thesis using False len b
      by (cases "(deciders cfg ! event) ?row"; cases "eventStates st ! event")
        (simp_all add: submitted_def dispatch_def Let_def bit_or_push)
  qed
qed

lemma submitted_source:
  assumes "pc_shape cfg st" "event < length (eventNames cfg)" "source < length (sourceNames cfg)"
    and "e' < length (eventNames cfg)" "s' < length (sourceNames cfg)"
  shows "sourceStates (submitted cfg source event st) ! e' ! s' \<longleftrightarrow>
    sourceStates st ! e' ! s' \<or> e' = event \<and> s' = source"
  using assms by (auto simp: submitted_def pc_shape_def dispatch_def Let_def nth_list_update)

lemma submitted_event:
  assumes "pc_shape cfg st" "event < length (eventNames cfg)" "e' < length (eventNames cfg)"
  shows "eventStates (submitted cfg source event st) ! e' \<longleftrightarrow> eventStates st ! e' \<or>
    e' = event \<and> (deciders cfg ! event) ((sourceStates st ! event)[source := True])"
  using assms by (auto simp: submitted_def pc_shape_def dispatch_def Let_def nth_list_update)

lemma submitted_timer:
  assumes "pc_shape cfg st" "event < length (eventNames cfg)" "i < length (timerEvents cfg)"
  shows "timers (submitted cfg source event st) ! i \<longleftrightarrow> timers st ! i \<or>
    te_start (timerEvents cfg ! i) = event \<and> \<not> eventStates st ! event \<and>
    (deciders cfg ! event) ((sourceStates st ! event)[source := True])"
  using assms by (auto simp: submitted_def pc_shape_def dispatch_def Let_def)

lemma submitted_timers:
  assumes wf: "pc_wf cfg" and shape: "pc_shape cfg st"
    and e: "event < length (eventNames cfg)" and s: "source < length (sourceNames cfg)" and inv: "timers_served cfg st"
  shows "timers_served cfg (submitted cfg source event st)"
  unfolding timers_served_def Let_def
proof (intro allI impI)
  fix i assume i: "i < length (timerEvents cfg)"
  let ?te = "timerEvents cfg ! i"
  have te: "te_start ?te < length (eventNames cfg)" "te_event ?te < length (eventNames cfg)" "te_source ?te < length (sourceNames cfg)"
    using wf i by (auto simp: pc_wf_def)
  have "timers st ! i \<longrightarrow> eventStates st ! te_start ?te"
    "eventStates st ! te_start ?te \<longrightarrow> timers st ! i \<or> sourceStates st ! te_event ?te ! te_source ?te"
    using inv i by (simp_all add: timers_served_def Let_def)
  then show "(timers (submitted cfg source event st) ! i \<longrightarrow> eventStates (submitted cfg source event st) ! te_start ?te) \<and>
      (eventStates (submitted cfg source event st) ! te_start ?te \<longrightarrow>
        timers (submitted cfg source event st) ! i \<or> sourceStates (submitted cfg source event st) ! te_event ?te ! te_source ?te)"
    using submitted_event [OF shape e te(1)] submitted_timer [OF shape e i] submitted_source [OF shape e s te(2,3)]
    by auto
qed

text \<open>The expiry of a timer: it stops and submits its event.\<close>

lemma expire_effect:
  assumes "pc_wf cfg" "pc_shape cfg st" "i < length (timerEvents cfg)" "timer_expiry_cb cfg now i st = Some st'"
  shows "\<exists>f. st' = submitted cfg (te_source (timerEvents cfg ! i)) (te_event (timerEvents cfg ! i))
      (st\<lparr>timers := (timers st)[i := False]\<rparr>)\<lparr>log_file := f\<rparr>"
proof (rule SubmitEvent_effect)
  have te: "timerEvents cfg ! i \<in> set (timerEvents cfg)" using assms(3) by simp
  then show "te_event (timerEvents cfg ! i) < length (eventNames cfg)"
    "te_source (timerEvents cfg ! i) < length (sourceNames cfg)" "length (deciders cfg) = length (eventNames cfg)"
    using assms(1) by (auto simp: pc_wf_def)
  show "pc_shape cfg (st\<lparr>timers := (timers st)[i := False]\<rparr>)" using assms(2) by (simp add: pc_shape_def)
  show "SubmitEvent cfg now (te_source (timerEvents cfg ! i)) (te_event (timerEvents cfg ! i))
      (st\<lparr>timers := (timers st)[i := False]\<rparr>) = Some st'"
    using assms(3,4) by (simp add: timer_expiry_cb_def)
qed

lemma expired_timers:
  assumes wf: "pc_wf cfg" and shape: "pc_shape cfg st" and i: "i < length (timerEvents cfg)"
    and inv: "timers_served cfg st" and run: "timers st ! i"
  shows "timers_served cfg (submitted cfg (te_source (timerEvents cfg ! i)) (te_event (timerEvents cfg ! i))
      (st\<lparr>timers := (timers st)[i := False]\<rparr>))"
  unfolding timers_served_def Let_def
proof (intro allI impI)
  let ?st = "st\<lparr>timers := (timers st)[i := False]\<rparr>" and ?ti = "timerEvents cfg ! i"
  let ?out = "submitted cfg (te_source ?ti) (te_event ?ti) ?st"
  have shape': "pc_shape cfg ?st" using shape by (simp add: pc_shape_def)
  have ti: "te_event ?ti < length (eventNames cfg)" "te_source ?ti < length (sourceNames cfg)"
    using wf i by (auto simp: pc_wf_def)
  fix j assume j: "j < length (timerEvents cfg)"
  let ?te = "timerEvents cfg ! j"
  have te: "te_start ?te < length (eventNames cfg)" "te_event ?te < length (eventNames cfg)" "te_source ?te < length (sourceNames cfg)"
    using wf j by (auto simp: pc_wf_def)
  have old: "timers st ! j \<longrightarrow> eventStates st ! te_start ?te"
    "eventStates st ! te_start ?te \<longrightarrow> timers st ! j \<or> sourceStates st ! te_event ?te ! te_source ?te"
    using inv j by (simp_all add: timers_served_def Let_def)
  have ts: "timers ?st ! j \<longleftrightarrow> timers st ! j \<and> j \<noteq> i" using shape i by (auto simp: pc_shape_def nth_list_update)
  show "(timers ?out ! j \<longrightarrow> eventStates ?out ! te_start ?te) \<and>
      (eventStates ?out ! te_start ?te \<longrightarrow> timers ?out ! j \<or> sourceStates ?out ! te_event ?te ! te_source ?te)"
    using old ts submitted_event [OF shape' ti(1) te(1), of "te_source ?ti"]
      submitted_timer [OF shape' ti(1) j, of "te_source ?ti"] submitted_source [OF shape' ti te(2,3)]
    by auto
qed

definition pc_inv :: "'f pc_config \<Rightarrow> 'f pc_state \<Rightarrow> bool" where
  "pc_inv cfg st \<longleftrightarrow> pc_shape cfg st \<and> confirmed cfg st \<and> timers_served cfg st"

lemma pc_inv_init: "pc_new cfg now f = Some st \<Longrightarrow> pc_wf cfg \<Longrightarrow> pc_inv cfg st"
  by (auto simp: pc_new_def pc_inv_def pc_inv_defs pc_wf_def Let_def split: option.splits)

lemma pc_inv_step:
  assumes wf: "pc_wf cfg" and mono: "monotone_deciders cfg" and inv: "pc_inv cfg st" and step: "pc_step cfg st st'"
  shows "pc_inv cfg st'"
  using step
proof (cases rule: pc_step.cases)
  case (submit event source now)
  then obtain f where "st' = submitted cfg source event st\<lparr>log_file := f\<rparr>"
    using SubmitEvent_effect inv wf by (metis pc_inv_def pc_wf_def)
  then show ?thesis
    using inv submitted_confirmed [OF wf mono _ submit(1,2)] submitted_timers [OF wf _ submit(1,2)] submit(1)
    by (simp add: pc_inv_def submitted_shape)
next
  case (expire i now)
  have i: "i < length (timerEvents cfg)" using expire inv by (simp add: pc_inv_def pc_shape_def)
  then have te: "te_event (timerEvents cfg ! i) < length (eventNames cfg)" "te_source (timerEvents cfg ! i) < length (sourceNames cfg)"
    using wf by (auto simp: pc_wf_def)
  obtain f where st': "st' = submitted cfg (te_source (timerEvents cfg ! i)) (te_event (timerEvents cfg ! i))
      (st\<lparr>timers := (timers st)[i := False]\<rparr>)\<lparr>log_file := f\<rparr>"
    using expire_effect [OF wf _ i expire(3)] inv unfolding pc_inv_def by blast
  have "pc_shape cfg (st\<lparr>timers := (timers st)[i := False]\<rparr>)" "confirmed cfg (st\<lparr>timers := (timers st)[i := False]\<rparr>)"
    using inv by (simp_all add: pc_inv_def confirmed_timers) (simp add: pc_shape_def)
  then show ?thesis
    using st' inv te submitted_confirmed [OF wf mono] expired_timers [OF wf _ i] expire(2)
    by (simp add: pc_inv_def submitted_shape)
qed

lemma pc_reachable_inv:
  "pc_reachable cfg st \<Longrightarrow> pc_wf cfg \<Longrightarrow> monotone_deciders cfg \<Longrightarrow> pc_inv cfg st"
  by (induction rule: pc_reachable.induct) (auto intro: pc_inv_init pc_inv_step)

lemma log_line_total:
  assumes "0 \<le> now" "now < 10 ^ 10" "length s \<le> 64"
  shows "\<exists>r. log_line cfg now s f = Some r"
proof (cases "flight_log cfg")
  case (Some fs)
  have "length s \<le> length (snprintf_buf 64 s)" using assms(3) by (simp add: snprintf_buf_def)
  then show ?thesis using Some timestamp_bytes [OF assms(1,2), of fs f]
    by (auto simp: log_line_def Let_def fl_Write_def from_buf_def split: prod.splits)
qed (simp add: log_line_def)

text \<open>The lines of the log fit their buffer of 64 bytes.\<close>

definition names_fit :: "'f pc_config \<Rightarrow> bool" where
  "names_fit cfg \<longleftrightarrow>
     (\<forall>e\<in>set (eventNames cfg). length e \<le> 16 \<and> (\<forall>s\<in>set (sourceNames cfg). max 10 (length e) + 6 + length s \<le> 64))"

lemma SubmitEvent_total:
  assumes wf: "pc_wf cfg" and fit: "names_fit cfg" and shape: "pc_shape cfg st"
    and e: "event < length (eventNames cfg)" and s: "source < length (sourceNames cfg)"
    and t: "0 \<le> fst now" "fst now < 10 ^ 10" "0 \<le> snd now" "snd now < 10 ^ 10"
  shows "\<exists>st'. SubmitEvent cfg now source event st = Some st'"
proof -
  have "eventNames cfg ! event \<in> set (eventNames cfg)" "sourceNames cfg ! source \<in> set (sourceNames cfg)"
    using e s by simp_all
  then have "length (eventNames cfg ! event) \<le> 16"
    "max 10 (length (eventNames cfg ! event)) + 6 + length (sourceNames cfg ! source) \<le> 64"
    using fit by (auto simp: names_fit_def)
  then have l1: "length (pad_right 10 (eventNames cfg ! event) @ '' from '' @ sourceNames cfg ! source) \<le> 64"
    and l2: "length (pad_right 10 (eventNames cfg ! event) @ '' confirmed'' @
        (if b then '' but already happened. Not dispatching'' else [])) \<le> 64" for b
    by (auto simp: pad_right_def max_def split: if_splits)
  have src: "\<exists>r. LogSourceEvent cfg (fst now) event source f = Some r" for f
    unfolding LogSourceEvent_def arr_get_in [OF e] arr_get_in [OF s] Option.bind_lunit by (rule log_line_total [OF t(1,2) l1])
  have con: "\<exists>r. LogEventConfirmed cfg (snd now) event b f = Some r" for f b
    unfolding LogEventConfirmed_def arr_get_in [OF e] Option.bind_lunit by (rule log_line_total [OF t(3,4) l2])
  have "length (deciders cfg) = length (eventNames cfg)" using wf by (simp add: pc_wf_def)
  moreover have "\<exists>r. LogSourceEvent cfg (fst now) event source f \<bind> h = r" for f h by simp
  ultimately show ?thesis
    using shape e s src con
    by (auto simp: SubmitEvent_def pc_shape_def Let_def split: Option.bind_splits)
      (metis option.distinct(1))+
qed

subsection \<open>Properties\<close>

text \<open>A controller with a boost event from one sensor and a landing event from a timer.\<close>

definition example_config :: "string pc_config" where
  "example_config = \<lparr>sourceNames = [''Imu'', ''Timer''], eventNames = [''Boost'', ''Ground''],
     timerEvents = [\<lparr>te_start = 0, te_event = 1, te_time = 1000, te_source = 1\<rparr>],
     deciders = [\<lambda>row. row ! 0, \<lambda>row. row ! 1], flight_log = Some memory_log\<rparr>"

lemma example_config_ok: "pc_wf example_config" "monotone_deciders example_config"
  by (auto simp: pc_wf_def monotone_deciders_def example_config_def nth_list_update)

lemma flight_log_ready: "\<exists>r. fl_Write_msg memory_log 0 ''CPhaseController initialized'' [] = Some r"
  using timestamp_bytes [of 0 memory_log "[]"]
  by (auto simp: fl_Write_msg_def fl_Write_at_def fl_Write_def from_buf_def memory_log_def)

lemma example_reachable: "\<exists>st. pc_reachable example_config st \<and> eventStates st = [True, False]"
proof -
  obtain st where st: "pc_new example_config 0 [] = Some st"
    using flight_log_ready by (auto simp: pc_new_def example_config_def Let_def)
  have shape: "pc_shape example_config st" using pc_inv_init [OF st example_config_ok(1)] by (simp add: pc_inv_def)
  have fit: "names_fit example_config" by (simp add: names_fit_def example_config_def)
  have ev: "eventStates st = [False, False]" "sourceStates st = [[False, False], [False, False]]"
    using st by (auto simp: pc_new_def example_config_def Let_def eval_nat_numeral split: option.splits)
  obtain st' where st': "SubmitEvent example_config (0, 0) 0 0 st = Some st'"
    using SubmitEvent_total [OF example_config_ok(1) fit shape, of 0 0 "(0, 0)"] by (auto simp: example_config_def)
  obtain f where "st' = submitted example_config 0 0 st\<lparr>log_file := f\<rparr>"
    using SubmitEvent_effect [OF shape _ _ _ st'] by (auto simp: example_config_def)
  then have "eventStates st' = [True, False]"
    using ev by (simp add: submitted_def example_config_def dispatch_def Let_def)
  moreover have "pc_step example_config st st'"
    using st' by (intro pc_step.submit) (simp_all add: example_config_def)
  ultimately show ?thesis using pc_reachable.start [OF st] pc_reachable.steps by blast
qed

text \<open>
  C8: in every reachable state of a controller whose decisions are monotone, an event has occurred
  exactly when its decision function confirms the votes of its sources and at least one source
  has voted, and exactly then a wait for it returns at once.
\<close>

theorem pc_events_confirmed:
  assumes "pc_reachable cfg st" "pc_wf cfg" "monotone_deciders cfg" "event < length (eventNames cfg)"
  shows "HasEventOccured event st =
      Some ((deciders cfg ! event) (sourceStates st ! event) \<and> True \<in> set (sourceStates st ! event)) \<and>
    (WaitUntilEvent (\<lambda>events mask. events AND mask) event st \<longleftrightarrow> HasEventOccured event st = Some True)"
proof -
  have inv: "pc_shape cfg st" "confirmed cfg st" using pc_reachable_inv [OF assms(1-3)] by (simp_all add: pc_inv_def)
  have w: "w AND 2 ^ event = 0 \<longleftrightarrow> \<not> bit w event" for w :: u32
    by (rule and_exp_eq_0_iff_not_bit)
  show ?thesis
    using inv assms(4) by (auto simp: HasEventOccured_def WaitUntilEvent_def Let_def w pc_shape_def confirmed_def)
qed

theorem pc_events_confirmed_witness:
  "\<exists>st. pc_reachable example_config st \<and> HasEventOccured 0 st = Some (sourceStates st ! 0 ! 0 \<and> True \<in> set (sourceStates st ! 0)) \<and>
    eventStates st ! 0"
proof -
  obtain st where st: "pc_reachable example_config st" "eventStates st = [True, False]" using example_reachable by blast
  show ?thesis
    using pc_events_confirmed [OF st(1) example_config_ok, of 0] st
    by (intro exI [of _ st]) (simp add: example_config_def)
qed

text \<open>
  C9: no timer is lost. In every reachable state a timer runs only when its start event has
  occurred, and once it has occurred the timer runs or has submitted its event.
\<close>

theorem pc_timers_not_lost:
  assumes "pc_reachable cfg st" "pc_wf cfg" "monotone_deciders cfg" "i < length (timerEvents cfg)"
  shows "(timers st ! i \<longrightarrow> eventStates st ! te_start (timerEvents cfg ! i)) \<and>
    (eventStates st ! te_start (timerEvents cfg ! i) \<longrightarrow>
      timers st ! i \<or> sourceStates st ! te_event (timerEvents cfg ! i) ! te_source (timerEvents cfg ! i))"
  using pc_reachable_inv [OF assms(1-3)] assms(4) by (simp add: pc_inv_def timers_served_def Let_def)

theorem pc_timers_not_lost_witness:
  "\<exists>st. pc_reachable example_config st \<and> (timers st ! 0 \<or> sourceStates st ! 1 ! 1)"
proof -
  obtain st where st: "pc_reachable example_config st" "eventStates st = [True, False]" using example_reachable by blast
  show ?thesis
    using pc_timers_not_lost [OF st(1) example_config_ok, of 0] st
    by (intro exI [of _ st]) (simp add: example_config_def)
qed

text \<open>
  C10: a step never takes an event back, and it starts a timer only in the step that confirms
  the start event for the first time: an event is dispatched at most once.
\<close>

theorem pc_dispatch_once:
  assumes "pc_reachable cfg st" "pc_wf cfg" "monotone_deciders cfg" "pc_step cfg st st'"
  shows "(\<forall>e < length (eventNames cfg). eventStates st ! e \<longrightarrow> eventStates st' ! e) \<and>
    (\<forall>i < length (timerEvents cfg). timers st' ! i \<and> \<not> timers st ! i \<longrightarrow>
       \<not> eventStates st ! te_start (timerEvents cfg ! i) \<and> eventStates st' ! te_start (timerEvents cfg ! i))"
proof -
  have inv: "pc_shape cfg st" using pc_reachable_inv [OF assms(1-3)] by (simp add: pc_inv_def)
  show ?thesis
    using assms(4)
  proof (cases rule: pc_step.cases)
    case (submit event source now)
    obtain f where "st' = submitted cfg source event st\<lparr>log_file := f\<rparr>"
      using SubmitEvent_effect [OF inv submit(1,2) _ submit(3)] assms(2) by (auto simp: pc_wf_def)
    then show ?thesis
      using submitted_event [OF inv submit(1)] submitted_timer [OF inv submit(1)] assms(2) by (auto simp: pc_wf_def)
  next
    case (expire i now)
    let ?te = "timerEvents cfg ! i" and ?st = "st\<lparr>timers := (timers st)[i := False]\<rparr>"
    have i: "i < length (timerEvents cfg)" using expire inv by (simp add: pc_shape_def)
    then have te: "te_event ?te < length (eventNames cfg)" using assms(2) by (auto simp: pc_wf_def)
    have shape: "pc_shape cfg ?st" using inv by (simp add: pc_shape_def)
    obtain f where "st' = submitted cfg (te_source ?te) (te_event ?te) ?st\<lparr>log_file := f\<rparr>"
      using expire_effect [OF assms(2) inv i expire(3)] by blast
    moreover have "timers ?st ! j \<longrightarrow> timers st ! j" for j
      using inv i by (cases "j = i") (auto simp: pc_shape_def)
    ultimately show ?thesis
      using submitted_event [OF shape te] submitted_timer [OF shape te] assms(2) by (auto simp: pc_wf_def)
  qed
qed

theorem pc_dispatch_once_witness:
  "\<exists>st st'. pc_reachable example_config st \<and> pc_step example_config st st' \<and> eventStates st' ! 0"
proof -
  obtain st where st: "pc_reachable example_config st" "eventStates st = [True, False]" using example_reachable by blast
  have shape: "pc_shape example_config st" using pc_reachable_inv [OF st(1) example_config_ok] by (simp add: pc_inv_def)
  obtain st' where "SubmitEvent example_config (0, 0) 0 0 st = Some st'"
    using SubmitEvent_total [OF example_config_ok(1) _ shape, of 0 0 "(0, 0)"] by (auto simp: example_config_def names_fit_def)
  then have step: "pc_step example_config st st'" by (intro pc_step.submit) (simp_all add: example_config_def)
  have "0 < length (eventNames example_config)" by (simp add: example_config_def)
  then have "eventStates st' ! 0" using pc_dispatch_once [OF st(1) example_config_ok step] st(2) by simp
  then show ?thesis using st(1) step by blast
qed

text \<open>
  A submission never reads or writes past an array or buffer, the log lines included, when the
  names of events have at most 16 characters, the lines with the names of the sources fit in 64
  and the uptime is below \<open>10^10\<close> ms.
\<close>

theorem pc_submit_in_bounds:
  assumes "pc_reachable cfg st" "pc_wf cfg" "monotone_deciders cfg" "names_fit cfg"
    and "event < length (eventNames cfg)" "source < length (sourceNames cfg)"
    and "0 \<le> fst now" "fst now < 10 ^ 10" "0 \<le> snd now" "snd now < 10 ^ 10"
  shows "SubmitEvent cfg now source event st \<noteq> None"
  using pc_reachable_inv [OF assms(1-3)] SubmitEvent_total [OF assms(2,4) _ assms(5-)]
  by (auto simp: pc_inv_def)

theorem pc_submit_in_bounds_witness:
  "\<exists>st. pc_reachable example_config st \<and> SubmitEvent example_config (5, 6) 1 1 st \<noteq> None"
proof -
  obtain st where st: "pc_reachable example_config st" using example_reachable by blast
  show ?thesis
    using pc_submit_in_bounds [OF st example_config_ok, of 1 1 "(5, 6)"] st
    by (intro exI [of _ st]) (simp add: example_config_def names_fit_def)
qed

end
