(* ===== verification/Detection_Handler.thy ===== *)
theory Detection_Handler
  imports Flight_Utils Phase_Controller
begin

text \<open>
  The flight phases of the sensor module: the configuration of the phase controller in
  \<open>sensor_module/include/flight.hpp\<close> and \<open>CDetectionHandler\<close>, which feeds the sensors through
  debouncers and velocity fits and submits boost, noseover and landing. Scalars are an ordered
  field; \<open>pow\<close> of \<open>math.h\<close> is a parameter.
\<close>

subsection \<open>Configuration\<close>

text \<open>The enumerations \<open>Events\<close> and \<open>Sources\<close>.\<close>

definition Boost :: nat where "Boost = 0"
definition NoseoverLockout :: nat where "NoseoverLockout = 1"
definition Noseover :: nat where "Noseover = 2"
definition GroundHit :: nat where "GroundHit = 3"

lemmas events = Boost_def NoseoverLockout_def Noseover_def GroundHit_def

definition LowGImu :: nat where "LowGImu = 0"
definition HighGImu :: nat where "HighGImu = 1"
definition BaromBMP :: nat where "BaromBMP = 2"
definition BaromMS5611 :: nat where "BaromMS5611 = 3"
definition NoseoverLockoutTimer :: nat where "NoseoverLockoutTimer = 4"
definition FullFlightTimer :: nat where "FullFlightTimer = 5"

lemmas sources = LowGImu_def HighGImu_def BaromBMP_def BaromMS5611_def NoseoverLockoutTimer_def FullFlightTimer_def

text \<open>The array has three elements and two initialisers: the third timer is all zero.\<close>

definition timer_events :: "TimerEvent list" where
  "timer_events =
     [\<lparr>te_start = Boost, te_event = NoseoverLockout, te_time = 15000, te_source = NoseoverLockoutTimer\<rparr>,
      \<lparr>te_start = Boost, te_event = GroundHit, te_time = 350000, te_source = FullFlightTimer\<rparr>,
      \<lparr>te_start = 0, te_event = 0, te_time = 0, te_source = 0\<rparr>]"

definition flight_deciders :: "(bool list \<Rightarrow> bool) list" where
  "flight_deciders =
     [\<lambda>states. states ! LowGImu \<or> states ! HighGImu \<or> states ! BaromBMP \<or> states ! BaromMS5611,
      \<lambda>states. states ! NoseoverLockoutTimer,
      \<lambda>states. states ! BaromBMP \<or> states ! BaromMS5611,
      \<lambda>states. states ! BaromBMP \<or> states ! BaromMS5611 \<or> states ! FullFlightTimer]"

definition flight_config :: "(char, 'f) fs_ops option \<Rightarrow> 'f pc_config" where
  "flight_config lg =
     \<lparr>sourceNames = [''LowGIMU (LSM6DSL)'', ''HighGIMU (ADXL375)'', ''BaromBMP388'', ''BaromMS5611'',
        ''Noseover Lockout'', ''Full Flight Timer''],
      eventNames = [''Boost'', ''NoseoverLockout'', ''Noseover'', ''GroundHit''],
      timerEvents = timer_events, deciders = flight_deciders, flight_log = lg\<rparr>"

definition boostThresholdMPerS2 :: "'a::linordered_field" where "boostThresholdMPerS2 = 5 * (98 / 10)"
definition boostTimeThreshold :: u32 where "boostTimeThreshold = 250"
definition noseoverVelocityThreshold :: "'a::linordered_field" where "noseoverVelocityThreshold = 10"
definition noseoverTimeThreshold :: u32 where "noseoverTimeThreshold = 250"
definition groundVelocityThreshold :: "'a::linordered_field" where "groundVelocityThreshold = 10"
definition groundTimeThreshold :: u32 where "groundTimeThreshold = 10000"

subsection \<open>The handler\<close>

record 'a sensor_frame =
  imu_acceleration :: "'a \<times> 'a \<times> 'a"
  acceleration :: "'a \<times> 'a \<times> 'a"
  primary_pressure :: 'a
  secondary_pressure :: 'a

record sensor_workings =
  primaryAccOk :: bool
  secondaryAccOk :: bool
  primaryBarometerOk :: bool
  secondaryBarometerOk :: bool

record 'a detection_handler =
  primaryImuBoostSquaredDetector :: "'a debouncer"
  secondaryImuBoostSquaredDetector :: "'a debouncer"
  primaryBaromVelocityFinder :: "'a LinearFitSample rolling_sum"
  secondaryBaromVelocityFinder :: "'a LinearFitSample rolling_sum"
  primaryBaromNoseoverDetector :: "'a debouncer"
  secondaryBaromNoseoverDetector :: "'a debouncer"
  primaryBaromGroundDetector :: "'a debouncer"
  secondaryBaromGroundDetector :: "'a debouncer"
  boost_detected_time :: u64

definition BAROM_VELOCITY_FINDER_WINDOW_SIZE :: nat where "BAROM_VELOCITY_FINDER_WINDOW_SIZE = 10"
definition BOOST_NOT_YET_HAPPENED :: u64 where "BOOST_NOT_YET_HAPPENED = NOT 0"

definition detection_new :: "'a::linordered_field detection_handler option" where
  "detection_new = do {
     v \<leftarrow> rs_new BAROM_VELOCITY_FINDER_WINDOW_SIZE (fit_sample 0 0);
     Some \<lparr>primaryImuBoostSquaredDetector = db_new boostTimeThreshold (boostThresholdMPerS2 * boostThresholdMPerS2),
       secondaryImuBoostSquaredDetector = db_new boostTimeThreshold (boostThresholdMPerS2 * boostThresholdMPerS2),
       primaryBaromVelocityFinder = v, secondaryBaromVelocityFinder = v,
       primaryBaromNoseoverDetector = db_new noseoverTimeThreshold noseoverVelocityThreshold,
       secondaryBaromNoseoverDetector = db_new noseoverTimeThreshold noseoverVelocityThreshold,
       primaryBaromGroundDetector = db_new groundTimeThreshold groundVelocityThreshold,
       secondaryBaromGroundDetector = db_new groundTimeThreshold groundVelocityThreshold,
       boost_detected_time = BOOST_NOT_YET_HAPPENED\<rparr> }"

definition asl_from_pressure :: "('a \<Rightarrow> 'a \<Rightarrow> 'a) \<Rightarrow> 'a::linordered_field \<Rightarrow> 'a" where
  "asl_from_pressure pow P_sta_kpa =
     (let P_sta_mbar = P_sta_kpa * 10 in
      (1 - pow (P_sta_mbar / (101325 / 100)) (190284 / 1000000)) * (14536645 / 100))"

definition mag_squared :: "'a::linordered_field \<times> 'a \<times> 'a \<Rightarrow> 'a" where
  "mag_squared v = (case v of (x, y, z) \<Rightarrow> x * x + y * y + z * z)"

text \<open>
  The handlers work on themselves and the controller. \<open>clk\<close> gives the uptimes the log reads in
  the first and in the second submission.
\<close>

definition HandleBoost ::
  "'f pc_config \<Rightarrow> (nat \<Rightarrow> int \<times> int) \<Rightarrow> u64 \<Rightarrow> 'a::linordered_field sensor_frame \<Rightarrow> sensor_workings \<Rightarrow>
     'a detection_handler \<times> 'f pc_state \<Rightarrow> ('a detection_handler \<times> 'f pc_state) option" where
  "HandleBoost cfg clk timestamp data ok hs =
     (case hs of (h, st) \<Rightarrow>
      let h = h\<lparr>primaryImuBoostSquaredDetector :=
                  db_Feed Over (ucast timestamp) (mag_squared (imu_acceleration data)) (primaryImuBoostSquaredDetector h),
                secondaryImuBoostSquaredDetector :=
                  db_Feed Over (ucast timestamp) (mag_squared (acceleration data)) (secondaryImuBoostSquaredDetector h)\<rparr>
      in do {
        st \<leftarrow> submit_if (db_Passed (primaryImuBoostSquaredDetector h) \<and> primaryAccOk ok) cfg (clk 0) HighGImu Boost st;
        st \<leftarrow> submit_if (db_Passed (secondaryImuBoostSquaredDetector h) \<and> secondaryAccOk ok) cfg (clk 1) LowGImu Boost st;
        boost \<leftarrow> HasEventOccured Boost st;
        Some (if boost \<and> boost_detected_time h = BOOST_NOT_YET_HAPPENED
              then h\<lparr>boost_detected_time := timestamp\<rparr> else h, st) })"

definition feed_slope ::
  "('a::linordered_field \<Rightarrow> 'a) \<Rightarrow> u32 \<Rightarrow> 'a LinearFitSample rolling_sum \<Rightarrow> 'a debouncer \<Rightarrow> 'a debouncer" where
  "feed_slope f t_plus_ms finder db =
     (case FindSlope BAROM_VELOCITY_FINDER_WINDOW_SIZE finder of
        None \<Rightarrow> db | Some velocity \<Rightarrow> db_Feed Under t_plus_ms (f velocity) db)"

definition HandleNoseover ::
  "'f pc_config \<Rightarrow> (nat \<Rightarrow> int \<times> int) \<Rightarrow> u32 \<Rightarrow> sensor_workings \<Rightarrow>
     'a::linordered_field detection_handler \<times> 'f pc_state \<Rightarrow> ('a detection_handler \<times> 'f pc_state) option" where
  "HandleNoseover cfg clk t_plus_ms ok hs =
     (case hs of (h, st) \<Rightarrow>
      let h = h\<lparr>primaryBaromNoseoverDetector :=
                  feed_slope (\<lambda>v. v) t_plus_ms (primaryBaromVelocityFinder h) (primaryBaromNoseoverDetector h),
                secondaryBaromNoseoverDetector :=
                  feed_slope (\<lambda>v. v) t_plus_ms (secondaryBaromVelocityFinder h) (secondaryBaromNoseoverDetector h)\<rparr>
      in do {
        lockout \<leftarrow> HasEventOccured NoseoverLockout st;
        st \<leftarrow> submit_if (db_Passed (primaryBaromNoseoverDetector h) \<and> lockout \<and> primaryBarometerOk ok)
               cfg (clk 0) BaromMS5611 Noseover st;
        lockout \<leftarrow> HasEventOccured NoseoverLockout st;
        st \<leftarrow> submit_if (db_Passed (secondaryBaromNoseoverDetector h) \<and> lockout \<and> secondaryBarometerOk ok)
               cfg (clk 1) BaromBMP Noseover st;
        Some (h, st) })"

definition HandleGround ::
  "'f pc_config \<Rightarrow> (nat \<Rightarrow> int \<times> int) \<Rightarrow> u32 \<Rightarrow> sensor_workings \<Rightarrow>
     'a::linordered_field detection_handler \<times> 'f pc_state \<Rightarrow> ('a detection_handler \<times> 'f pc_state) option" where
  "HandleGround cfg clk t_plus_ms ok hs =
     (case hs of (h, st) \<Rightarrow>
      let h = h\<lparr>primaryBaromGroundDetector :=
                  feed_slope abs t_plus_ms (primaryBaromVelocityFinder h) (primaryBaromGroundDetector h),
                secondaryBaromGroundDetector :=
                  feed_slope abs t_plus_ms (secondaryBaromVelocityFinder h) (secondaryBaromGroundDetector h)\<rparr>
      in do {
        st \<leftarrow> submit_if (db_Passed (primaryBaromGroundDetector h) \<and> primaryBarometerOk ok)
               cfg (clk 0) BaromMS5611 GroundHit st;
        st \<leftarrow> submit_if (db_Passed (secondaryBaromGroundDetector h) \<and> secondaryBarometerOk ok)
               cfg (clk 1) BaromBMP GroundHit st;
        Some (h, st) })"

text \<open>\<open>HandleData\<close> once boost has happened.\<close>

definition HandleAfterBoost ::
  "'f pc_config \<Rightarrow> (nat \<Rightarrow> nat \<Rightarrow> int \<times> int) \<Rightarrow> u64 \<Rightarrow> sensor_workings \<Rightarrow>
     'a::linordered_field detection_handler \<times> 'f pc_state \<Rightarrow> ('a detection_handler \<times> 'f pc_state) option" where
  "HandleAfterBoost cfg clk timestamp ok hs =
     (case hs of (h, st) \<Rightarrow>
      let t_plus_ms = ucast (timestamp - boost_detected_time h - ucast boostTimeThreshold) in do {
        noseover \<leftarrow> HasEventOccured Noseover st;
        (h, st) \<leftarrow> (if \<not> noseover then HandleNoseover cfg (clk 1) t_plus_ms ok (h, st) else Some (h, st));
        noseover \<leftarrow> HasEventOccured Noseover st;
        ground \<leftarrow> HasEventOccured GroundHit st;
        if noseover \<and> \<not> ground then HandleGround cfg (clk 2) t_plus_ms ok (h, st) else Some (h, st) })"

definition HandleData ::
  "('a \<Rightarrow> 'a \<Rightarrow> 'a) \<Rightarrow> 'f pc_config \<Rightarrow> (nat \<Rightarrow> nat \<Rightarrow> int \<times> int) \<Rightarrow> u64 \<Rightarrow> 'a::linordered_field sensor_frame \<Rightarrow>
     sensor_workings \<Rightarrow> 'a detection_handler \<times> 'f pc_state \<Rightarrow> ('a detection_handler \<times> 'f pc_state) option" where
  "HandleData pow cfg clk timestamp data ok hs =
     (case hs of (h, st) \<Rightarrow>
      let t_seconds = of_int (uint timestamp) / 1000 in do {
        p \<leftarrow> rs_Feed (fit_sample t_seconds (asl_from_pressure pow (primary_pressure data))) (primaryBaromVelocityFinder h);
        s \<leftarrow> rs_Feed (fit_sample t_seconds (asl_from_pressure pow (secondary_pressure data))) (secondaryBaromVelocityFinder h);
        let h = h\<lparr>primaryBaromVelocityFinder := p, secondaryBaromVelocityFinder := s\<rparr>;
        boost \<leftarrow> HasEventOccured Boost st;
        (h, st) \<leftarrow> (if \<not> boost then HandleBoost cfg (clk 0) timestamp data ok (h, st) else Some (h, st));
        boost \<leftarrow> HasEventOccured Boost st;
        if \<not> boost then Some (h, st) else HandleAfterBoost cfg clk timestamp ok (h, st) })"

definition ContinueCollecting :: "'f pc_state \<Rightarrow> bool option" where
  "ContinueCollecting st = map_option Not (HasEventOccured GroundHit st)"

text \<open>
  A flight: the sensing thread hands in data, the timers of the controller expire in between.
\<close>

inductive flight ::
  "('a \<Rightarrow> 'a \<Rightarrow> 'a) \<Rightarrow> (char, 'f) fs_ops option \<Rightarrow> 'a::linordered_field detection_handler \<times> 'f pc_state \<Rightarrow> bool"
  for pow lg where
  power_on: "detection_new = Some h \<Longrightarrow> pc_new (flight_config lg) now f = Some st \<Longrightarrow> flight pow lg (h, st)"
| sensed: "flight pow lg hs \<Longrightarrow> timestamp \<noteq> BOOST_NOT_YET_HAPPENED \<Longrightarrow>
     HandleData pow (flight_config lg) clk timestamp data ok hs = Some hs' \<Longrightarrow> flight pow lg hs'"
| timer: "flight pow lg (h, st) \<Longrightarrow> i < length (timers st) \<Longrightarrow> timers st ! i \<Longrightarrow>
     timer_expiry_cb (flight_config lg) clk i st = Some st' \<Longrightarrow> flight pow lg (h, st')"

subsection \<open>The phases come in order\<close>

lemma flight_config_ok: "pc_wf (flight_config lg)" "monotone_deciders (flight_config lg)" "names_fit (flight_config lg)"
proof -
  show "pc_wf (flight_config lg)" by (simp add: pc_wf_def flight_config_def flight_deciders_def timer_events_def events sources)
  show "monotone_deciders (flight_config lg)"
    by (auto simp: monotone_deciders_def flight_config_def flight_deciders_def sources nth_list_update)
  show "names_fit (flight_config lg)" by (simp add: names_fit_def flight_config_def)
qed

lemma flight_config_sizes [simp]:
  "length (eventNames (flight_config lg)) = 4" "length (sourceNames (flight_config lg)) = 6"
  "length (timerEvents (flight_config lg)) = 3" "length (deciders (flight_config lg)) = 4"
  by (simp_all add: flight_config_def timer_events_def flight_deciders_def)

definition phases_ordered :: "'f pc_state \<Rightarrow> bool" where
  "phases_ordered st \<longleftrightarrow>
     (eventStates st ! NoseoverLockout \<longrightarrow> eventStates st ! Boost) \<and>
     (eventStates st ! Noseover \<longrightarrow> eventStates st ! NoseoverLockout) \<and>
     (eventStates st ! GroundHit \<longrightarrow> eventStates st ! Boost) \<and>
     (sourceStates st ! GroundHit ! BaromBMP \<or> sourceStates st ! GroundHit ! BaromMS5611 \<longrightarrow> eventStates st ! Noseover)"

text \<open>The submissions the program makes, with what holds when it makes them.\<close>

definition allowed :: "'f pc_state \<Rightarrow> nat \<Rightarrow> nat \<Rightarrow> bool" where
  "allowed st source event \<longleftrightarrow> source < 6 \<and>
     (event = Boost \<or>
      event = NoseoverLockout \<and> eventStates st ! Boost \<or>
      event = Noseover \<and> eventStates st ! NoseoverLockout \<or>
      event = GroundHit \<and> (source = FullFlightTimer \<and> eventStates st ! Boost \<or>
        (source = BaromBMP \<or> source = BaromMS5611) \<and> eventStates st ! Noseover))"

lemma phases_submitted:
  assumes "pc_shape (flight_config lg) st" "phases_ordered st" "allowed st source event"
  shows "phases_ordered (submitted (flight_config lg) source event st)"
proof -
  have e: "event < length (eventNames (flight_config lg))" and s: "source < length (sourceNames (flight_config lg))"
    using assms(3) by (auto simp: allowed_def events)
  have ev: "eventStates (submitted (flight_config lg) source event st) ! e' \<longrightarrow> eventStates st ! e' \<or> e' = event" if "e' < 4" for e'
    using submitted_event [OF assms(1) e, of e'] that by auto
  have mono: "eventStates st ! e' \<longrightarrow> eventStates (submitted (flight_config lg) source event st) ! e'" if "e' < 4" for e'
    using submitted_event [OF assms(1) e, of e'] that by auto
  have src: "sourceStates (submitted (flight_config lg) source event st) ! 3 ! s' \<longleftrightarrow>
      sourceStates st ! 3 ! s' \<or> 3 = event \<and> s' = source" if "s' < 6" for s'
    using submitted_source [OF assms(1) e s, of 3 s'] that by simp
  have al: "event = 1 \<Longrightarrow> eventStates st ! 0" "event = 2 \<Longrightarrow> eventStates st ! 1"
    "event = 3 \<Longrightarrow> source = 5 \<and> eventStates st ! 0 \<or> (source = 2 \<or> source = 3) \<and> eventStates st ! 2"
    using assms(3) by (auto simp: allowed_def events sources)
  have old: "eventStates st ! 1 \<longrightarrow> eventStates st ! 0" "eventStates st ! 2 \<longrightarrow> eventStates st ! 1"
    "eventStates st ! 3 \<longrightarrow> eventStates st ! 0" "sourceStates st ! 3 ! 2 \<or> sourceStates st ! 3 ! 3 \<longrightarrow> eventStates st ! 2"
    using assms(2) by (simp_all add: phases_ordered_def events sources)
  let ?st = "submitted (flight_config lg) source event st"
  have "eventStates ?st ! 1 \<longrightarrow> eventStates ?st ! 0" using ev [of 1] mono [of 0] al(1) old(1) by auto
  moreover have "eventStates ?st ! 2 \<longrightarrow> eventStates ?st ! 1" using ev [of 2] mono [of 1] al(2) old(2) by auto
  moreover have "eventStates ?st ! 3 \<longrightarrow> eventStates ?st ! 0" using ev [of 3] mono [of 0] al(3) old(1-3) by auto
  moreover have "sourceStates ?st ! 3 ! 2 \<or> sourceStates ?st ! 3 ! 3 \<longrightarrow> eventStates ?st ! 2"
    using src [of 2] src [of 3] mono [of 2] al(3) old(4) by auto
  ultimately show ?thesis by (simp add: phases_ordered_def events sources)
qed

definition flight_inv :: "(char, 'f) fs_ops option \<Rightarrow> 'f pc_state \<Rightarrow> bool" where
  "flight_inv lg st \<longleftrightarrow> pc_inv (flight_config lg) st \<and> phases_ordered st"

lemma SubmitEvent_flight:
  assumes inv: "flight_inv lg st" and al: "allowed st source event"
    and sub: "SubmitEvent (flight_config lg) now source event st = Some st'"
  shows "flight_inv lg st' \<and> (\<forall>e<4. eventStates st ! e \<longrightarrow> eventStates st' ! e)"
proof -
  have shape: "pc_shape (flight_config lg) st" using inv by (simp add: flight_inv_def pc_inv_def)
  have e: "event < length (eventNames (flight_config lg))" and s: "source < length (sourceNames (flight_config lg))"
    using al by (auto simp: allowed_def events)
  obtain f where st': "st' = submitted (flight_config lg) source event st\<lparr>log_file := f\<rparr>"
    using SubmitEvent_effect [OF shape e s _ sub] by auto
  have "pc_inv (flight_config lg) st'"
    using pc_inv_step [OF flight_config_ok(1,2) _ pc_step.submit [OF e s sub]] inv by (simp add: flight_inv_def)
  moreover have "phases_ordered st'"
    using phases_submitted [OF shape _ al] inv st' by (simp add: flight_inv_def phases_ordered_def)
  moreover have "\<forall>e<4. eventStates st ! e \<longrightarrow> eventStates st' ! e"
    using submitted_event [OF shape e] st' by simp
  ultimately show ?thesis by (simp add: flight_inv_def)
qed

lemma submit_if_flight:
  assumes "flight_inv lg st" "cond \<Longrightarrow> allowed st source event" "submit_if cond (flight_config lg) now source event st = Some st'"
  shows "flight_inv lg st' \<and> (\<forall>e<4. eventStates st ! e \<longrightarrow> eventStates st' ! e)"
  using SubmitEvent_flight [OF assms(1)] assms by (auto simp: submit_if_def split: if_splits)

lemma HasEventOccured_flight:
  "flight_inv lg st \<Longrightarrow> e < 4 \<Longrightarrow> HasEventOccured e st = Some (eventStates st ! e)"
  by (simp add: HasEventOccured_def flight_inv_def pc_inv_def pc_shape_def)

text \<open>The handler knows the time of boost exactly after boost.\<close>

definition state_ok :: "(char, 'f) fs_ops option \<Rightarrow> 'a detection_handler \<times> 'f pc_state \<Rightarrow> bool" where
  "state_ok lg hs \<longleftrightarrow> flight_inv lg (snd hs) \<and>
     (boost_detected_time (fst hs) \<noteq> BOOST_NOT_YET_HAPPENED \<longleftrightarrow> eventStates (snd hs) ! Boost)"

lemma HandleBoost_ok:
  assumes "HandleBoost (flight_config lg) clk timestamp data ok (h, st) = Some (h', st')" "state_ok lg (h, st)"
    "timestamp \<noteq> BOOST_NOT_YET_HAPPENED"
  shows "state_ok lg (h', st')"
proof -
  obtain c1 c2 st1 where 1: "submit_if c1 (flight_config lg) (clk 0) HighGImu Boost st = Some st1"
    and 2: "submit_if c2 (flight_config lg) (clk 1) LowGImu Boost st1 = Some st'"
    and h': "boost_detected_time h' = (if eventStates st' ! Boost \<and> boost_detected_time h = BOOST_NOT_YET_HAPPENED
      then timestamp else boost_detected_time h)"
    using assms(1) by (auto simp: HandleBoost_def Let_def HasEventOccured_def arr_get_def split: Option.bind_splits if_splits)
  have inv: "flight_inv lg st" "boost_detected_time h \<noteq> BOOST_NOT_YET_HAPPENED \<longleftrightarrow> eventStates st ! Boost"
    using assms(2) by (simp_all add: state_ok_def)
  have i1: "flight_inv lg st1 \<and> (\<forall>e<4. eventStates st ! e \<longrightarrow> eventStates st1 ! e)"
    by (rule submit_if_flight [OF inv(1) _ 1]) (simp add: allowed_def sources)
  have i2: "flight_inv lg st' \<and> (\<forall>e<4. eventStates st1 ! e \<longrightarrow> eventStates st' ! e)"
    by (rule submit_if_flight [OF _ _ 2]) (use i1 in \<open>simp_all add: allowed_def sources\<close>)
  have "eventStates st ! Boost \<longrightarrow> eventStates st' ! Boost" using i1 i2 by (simp add: events)
  then show ?thesis using inv(2) h' assms(3) i2 by (auto simp: state_ok_def)
qed

lemma HandleNoseover_ok:
  assumes "HandleNoseover (flight_config lg) clk t ok (h, st) = Some (h', st')" "flight_inv lg st"
  shows "flight_inv lg st' \<and> (\<forall>e<4. eventStates st ! e \<longrightarrow> eventStates st' ! e) \<and>
    boost_detected_time h' = boost_detected_time h"
proof -
  obtain c1 c2 st1 where 1: "submit_if c1 (flight_config lg) (clk 0) BaromMS5611 Noseover st = Some st1"
      "c1 \<longrightarrow> eventStates st ! NoseoverLockout"
    and 2: "submit_if c2 (flight_config lg) (clk 1) BaromBMP Noseover st1 = Some st'" "c2 \<longrightarrow> eventStates st1 ! NoseoverLockout"
    and h': "boost_detected_time h' = boost_detected_time h"
    using assms(1) by (auto simp: HandleNoseover_def Let_def HasEventOccured_def arr_get_def
        split: Option.bind_splits if_splits)
  have i1: "flight_inv lg st1 \<and> (\<forall>e<4. eventStates st ! e \<longrightarrow> eventStates st1 ! e)"
    by (rule submit_if_flight [OF assms(2) _ 1(1)]) (use 1(2) in \<open>simp add: allowed_def sources\<close>)
  have i2: "flight_inv lg st' \<and> (\<forall>e<4. eventStates st1 ! e \<longrightarrow> eventStates st' ! e)"
    by (rule submit_if_flight [OF _ _ 2(1)]) (use i1 2(2) in \<open>simp_all add: allowed_def sources\<close>)
  show ?thesis using i1 i2 h' by simp
qed

lemma HandleGround_ok:
  assumes "HandleGround (flight_config lg) clk t ok (h, st) = Some (h', st')" "flight_inv lg st" "eventStates st ! Noseover"
  shows "flight_inv lg st' \<and> (\<forall>e<4. eventStates st ! e \<longrightarrow> eventStates st' ! e) \<and>
    boost_detected_time h' = boost_detected_time h"
proof -
  obtain c1 c2 st1 where 1: "submit_if c1 (flight_config lg) (clk 0) BaromMS5611 GroundHit st = Some st1"
    and 2: "submit_if c2 (flight_config lg) (clk 1) BaromBMP GroundHit st1 = Some st'"
    and h': "boost_detected_time h' = boost_detected_time h"
    using assms(1) by (auto simp: HandleGround_def Let_def split: Option.bind_splits if_splits)
  have i1: "flight_inv lg st1 \<and> (\<forall>e<4. eventStates st ! e \<longrightarrow> eventStates st1 ! e)"
    by (rule submit_if_flight [OF assms(2) _ 1]) (simp add: allowed_def sources assms(3))
  then have n1: "eventStates st1 ! Noseover" using assms(3) by (simp add: events)
  have i2: "flight_inv lg st' \<and> (\<forall>e<4. eventStates st1 ! e \<longrightarrow> eventStates st' ! e)"
    by (rule submit_if_flight [OF _ _ 2]) (use i1 n1 in \<open>simp_all add: allowed_def sources\<close>)
  show ?thesis using i1 i2 h' by simp
qed

lemma HandleAfterBoost_ok:
  assumes run: "HandleAfterBoost (flight_config lg) clk timestamp ok (h, st) = Some (h', st')"
    and inv: "flight_inv lg st"
  shows "flight_inv lg st' \<and> (\<forall>e<4. eventStates st ! e \<longrightarrow> eventStates st' ! e) \<and>
    boost_detected_time h' = boost_detected_time h"
proof -
  let ?t = "ucast (timestamp - boost_detected_time h - ucast boostTimeThreshold) :: u32"
  have n4: "Noseover < 4" "GroundHit < 4" by (simp_all add: events)
  obtain h2 st2 where n: "(if \<not> eventStates st ! Noseover then HandleNoseover (flight_config lg) (clk 1) ?t ok (h, st)
        else Some (h, st)) = Some (h2, st2)"
    and rest: "(HasEventOccured Noseover st2 \<bind> (\<lambda>noseover. HasEventOccured GroundHit st2 \<bind> (\<lambda>ground.
        if noseover \<and> \<not> ground then HandleGround (flight_config lg) (clk 2) ?t ok (h2, st2) else Some (h2, st2)))) = Some (h', st')"
    using run HasEventOccured_flight [OF inv n4(1)]
    by (fastforce simp: HandleAfterBoost_def Let_def bind_eq_Some_conv)
  have i2: "flight_inv lg st2 \<and> (\<forall>e<4. eventStates st ! e \<longrightarrow> eventStates st2 ! e) \<and> boost_detected_time h2 = boost_detected_time h"
    using n HandleNoseover_ok [of lg "clk 1" ?t ok h st h2 st2] inv by (auto split: if_splits)
  have g: "(if eventStates st2 ! Noseover \<and> \<not> eventStates st2 ! GroundHit
      then HandleGround (flight_config lg) (clk 2) ?t ok (h2, st2) else Some (h2, st2)) = Some (h', st')"
    using rest i2 HasEventOccured_flight [of lg st2, OF _ n4(1)] HasEventOccured_flight [of lg st2, OF _ n4(2)] by simp
  then show ?thesis
    using HandleGround_ok [of lg "clk 2" ?t ok h2 st2 h' st'] i2 by (auto split: if_splits)
qed

lemma HandleData_ok:
  assumes run: "HandleData pow (flight_config lg) clk timestamp data ok (h, st) = Some (h', st')" and "state_ok lg (h, st)"
    and t: "timestamp \<noteq> BOOST_NOT_YET_HAPPENED"
  shows "state_ok lg (h', st')"
proof -
  have inv: "flight_inv lg st" using assms(2) by (simp add: state_ok_def)
  have b4: "Boost < 4" by (simp add: events)
  let ?t = "of_int (uint timestamp) / 1000"
  obtain p where p: "rs_Feed (fit_sample ?t (asl_from_pressure pow (primary_pressure data))) (primaryBaromVelocityFinder h) = Some p"
    using run by (cases "rs_Feed (fit_sample ?t (asl_from_pressure pow (primary_pressure data))) (primaryBaromVelocityFinder h)")
      (simp_all add: HandleData_def Let_def)
  obtain s where s: "rs_Feed (fit_sample ?t (asl_from_pressure pow (secondary_pressure data))) (secondaryBaromVelocityFinder h) = Some s"
    using run p by (cases "rs_Feed (fit_sample ?t (asl_from_pressure pow (secondary_pressure data))) (secondaryBaromVelocityFinder h)")
      (simp_all add: HandleData_def Let_def)
  define h0 where "h0 = h\<lparr>primaryBaromVelocityFinder := p, secondaryBaromVelocityFinder := s\<rparr>"
  have h0: "boost_detected_time h0 = boost_detected_time h" by (simp add: h0_def)
  define hb where "hb = (if \<not> eventStates st ! Boost then HandleBoost (flight_config lg) (clk 0) timestamp data ok (h0, st)
                         else Some (h0, st))"
  have "hb \<bind> (\<lambda>(h1, st1). HasEventOccured Boost st1 \<bind> (\<lambda>boost.
        if \<not> boost then Some (h1, st1) else HandleAfterBoost (flight_config lg) clk timestamp ok (h1, st1))) = Some (h', st')"
    using run p s HasEventOccured_flight [OF inv b4]
    by (cases "eventStates st ! Boost") (simp_all add: HandleData_def Let_def hb_def h0_def)
  then obtain h1 st1 where boost: "hb = Some (h1, st1)"
    and rest: "HasEventOccured Boost st1 \<bind> (\<lambda>boost.
        if \<not> boost then Some (h1, st1) else HandleAfterBoost (flight_config lg) clk timestamp ok (h1, st1)) = Some (h', st')"
    by (cases hb) auto
  have ok1: "state_ok lg (h1, st1)"
    using boost HandleBoost_ok [OF _ _ t, of lg "clk 0" data ok h0 st h1 st1] assms(2) h0
    by (auto simp: state_ok_def hb_def split: if_splits)
  then have i1: "flight_inv lg st1" by (simp add: state_ok_def)
  show ?thesis
  proof (cases "eventStates st1 ! Boost")
    case False
    then show ?thesis using rest ok1 HasEventOccured_flight [OF i1 b4] by simp
  next
    case True
    then have "HandleAfterBoost (flight_config lg) clk timestamp ok (h1, st1) = Some (h', st')"
      using rest HasEventOccured_flight [OF i1 b4] by simp
    from HandleAfterBoost_ok [OF this i1] ok1 True b4 show ?thesis by (simp add: state_ok_def)
  qed
qed

lemma timer_ok:
  assumes "state_ok lg (h, st)" "i < length (timers st)" "timers st ! i"
    and cb: "timer_expiry_cb (flight_config lg) clk i st = Some st'"
  shows "state_ok lg (h, st')"
proof -
  let ?cfg = "flight_config lg :: 'a pc_config" and ?st = "st\<lparr>timers := (timers st)[i := False]\<rparr>"
  let ?te = "timer_events ! i"
  have inv: "pc_inv ?cfg st" "phases_ordered st" using assms(1) by (simp_all add: state_ok_def flight_inv_def)
  then have shape: "pc_shape ?cfg st" "pc_shape ?cfg ?st" by (simp_all add: pc_inv_def pc_shape_def)
  have i: "i < 3" "i < length (timerEvents ?cfg)" using assms(2) shape by (simp_all add: pc_shape_def)
  have cfg: "timerEvents ?cfg = timer_events" by (simp add: flight_config_def)
  have cases: "i = 0 \<or> i = 1 \<or> i = 2" using i(1) by linarith
  then have start: "te_start ?te = Boost" by (elim disjE) (simp_all add: timer_events_def events)
  have boost: "eventStates st ! Boost"
  proof -
    have "timers_served ?cfg st" using inv(1) by (simp add: pc_inv_def)
    then have "timers st ! i \<longrightarrow> eventStates st ! te_start (timerEvents ?cfg ! i)"
      using i(2) by (simp add: timers_served_def Let_def del: flight_config_sizes)
    then show ?thesis using assms(3) start cfg by simp
  qed
  have al: "allowed ?st (te_source ?te) (te_event ?te)"
    using cases boost by (elim disjE) (simp_all add: allowed_def timer_events_def events sources)
  obtain f where st': "st' = submitted ?cfg (te_source ?te) (te_event ?te) ?st\<lparr>log_file := f\<rparr>"
    using expire_effect [OF flight_config_ok(1) shape(1) i(2) cb] cfg by auto
  have "phases_ordered ?st" using inv(2) by (simp add: phases_ordered_def)
  then have "phases_ordered st'" using phases_submitted [OF shape(2) _ al] st' by (simp add: phases_ordered_def)
  moreover have "pc_inv ?cfg st'"
    using pc_inv_step [OF flight_config_ok(1,2) inv(1) pc_step.expire [OF assms(2,3) cb]] .
  moreover have "te_event ?te < length (eventNames ?cfg)" using al by (auto simp: allowed_def events)
  then have "eventStates st' ! Boost"
    using submitted_event [OF shape(2), of "te_event ?te" Boost] boost st' by (simp add: events)
  ultimately show ?thesis using assms(1) boost by (simp add: state_ok_def flight_inv_def)
qed

lemma flight_state_ok: "flight pow lg hs \<Longrightarrow> state_ok lg hs"
proof (induction rule: flight.induct)
  case (power_on h now f st)
  have "pc_inv (flight_config lg) st" by (rule pc_inv_init [OF power_on(2) flight_config_ok(1)])
  moreover have "eventStates st = [False, False, False, False]" "sourceStates st = replicate 4 (replicate 6 False)"
    using power_on(2) by (auto simp: pc_new_def Let_def eval_nat_numeral split: option.splits)
  moreover have "boost_detected_time h = BOOST_NOT_YET_HAPPENED"
    using power_on(1) by (auto simp: detection_new_def split: Option.bind_splits)
  ultimately show ?case by (simp add: state_ok_def flight_inv_def phases_ordered_def events sources)
next
  case (sensed hs timestamp clk data ok hs')
  then show ?case using HandleData_ok by (cases hs; cases hs') blast
next
  case (timer h st i clk st')
  then show ?case using timer_ok by blast
qed


subsection \<open>The handler always finishes\<close>

definition finders_ok :: "'a::linordered_field detection_handler \<Rightarrow> bool" where
  "finders_ok h \<longleftrightarrow> rs_ok (primaryBaromVelocityFinder h) \<and> rs_ok (secondaryBaromVelocityFinder h)"

text \<open>The log prints up to ten digits of the uptime.\<close>

definition clocks_ok :: "(nat \<Rightarrow> int \<times> int) \<Rightarrow> bool" where
  "clocks_ok clk \<longleftrightarrow> (\<forall>k. 0 \<le> fst (clk k) \<and> fst (clk k) < 10 ^ 10 \<and> 0 \<le> snd (clk k) \<and> snd (clk k) < 10 ^ 10)"

lemma bind_total: "\<exists>x. m = Some x \<and> P x \<Longrightarrow> (\<And>x. P x \<Longrightarrow> f x \<noteq> None) \<Longrightarrow> m \<bind> f \<noteq> None"
  by auto

lemma submit_if_total:
  assumes "flight_inv lg st" "cond \<Longrightarrow> allowed st source event" "clocks_ok clk"
  shows "\<exists>st'. submit_if cond (flight_config lg) (clk k) source event st = Some st' \<and>
    (flight_inv lg st' \<and> (\<forall>e<4. eventStates st ! e \<longrightarrow> eventStates st' ! e))"
proof -
  have "\<exists>st'. submit_if cond (flight_config lg) (clk k) source event st = Some st'"
  proof (cases cond)
    case True
    then have al: "allowed st source event" by (rule assms(2))
    have "event < 4" "source < 6" using al by (auto simp: allowed_def events)
    then show ?thesis
      using SubmitEvent_total [OF flight_config_ok(1,3), where st = st and event = event and source = source and now = "clk k"]
        assms(1,3) True
      by (simp add: submit_if_def flight_inv_def pc_inv_def clocks_ok_def)
  qed (simp add: submit_if_def)
  then show ?thesis using submit_if_flight [OF assms(1) assms(2)] by blast
qed

lemma HandleBoost_total:
  fixes st :: "'f pc_state"
  assumes "flight_inv lg st" "clocks_ok clk"
  shows "HandleBoost (flight_config lg) clk timestamp data ok (h, st) \<noteq> None"
proof -
  have al: "allowed s HighGImu Boost" "allowed s LowGImu Boost" for s :: "'f pc_state"
    by (simp_all add: allowed_def sources)
  have b4: "Boost < 4" by (simp add: events)
  show ?thesis
    unfolding HandleBoost_def Let_def prod.case
    by (rule bind_total [OF submit_if_total [OF assms(1) _ assms(2)]], simp add: al,
        rule bind_total [OF submit_if_total [OF _ _ assms(2)]]) (auto simp: al HasEventOccured_flight [OF _ b4])
qed

lemma HandleNoseover_total:
  fixes st :: "'f pc_state"
  assumes "flight_inv lg st" "clocks_ok clk"
  shows "HandleNoseover (flight_config lg) clk t ok (h, st) \<noteq> None"
proof -
  have al: "allowed s BaromMS5611 Noseover" "allowed s BaromBMP Noseover" if "eventStates s ! NoseoverLockout" for s :: "'f pc_state"
    using that by (simp_all add: allowed_def sources)
  have e: "HasEventOccured NoseoverLockout s = Some (eventStates s ! NoseoverLockout)" if "flight_inv lg s" for s :: "'f pc_state"
    using HasEventOccured_flight [OF that] by (simp add: events)
  show ?thesis
    unfolding HandleNoseover_def Let_def prod.case e [OF assms(1)] Option.bind_lunit
    by (rule bind_total [OF submit_if_total [OF assms(1) _ assms(2)]], simp add: al, simp only: e Option.bind_lunit,
        rule bind_total [OF submit_if_total [OF _ _ assms(2)]]) (auto simp: al)
qed

lemma HandleGround_total:
  fixes st :: "'f pc_state"
  assumes "flight_inv lg st" "clocks_ok clk" "eventStates st ! Noseover"
  shows "HandleGround (flight_config lg) clk t ok (h, st) \<noteq> None"
proof -
  have al: "allowed s BaromMS5611 GroundHit" "allowed s BaromBMP GroundHit" if "eventStates s ! Noseover" for s :: "'f pc_state"
    using that by (simp_all add: allowed_def sources)
  have n4: "Noseover < 4" by (simp add: events)
  show ?thesis
    unfolding HandleGround_def Let_def prod.case
    by (rule bind_total [OF submit_if_total [OF assms(1) _ assms(2)]], simp add: al assms(3),
        rule bind_total [OF submit_if_total [OF _ _ assms(2)]]) (use assms(3) n4 in \<open>auto simp: al\<close>)
qed

lemma HandleAfterBoost_total:
  fixes st :: "'f pc_state"
  assumes "flight_inv lg st" "\<And>k. clocks_ok (clk k)"
  shows "HandleAfterBoost (flight_config lg) clk timestamp ok (h, st) \<noteq> None"
proof -
  let ?t = "ucast (timestamp - boost_detected_time h - ucast boostTimeThreshold) :: u32"
  let ?n = "if \<not> eventStates st ! Noseover then HandleNoseover (flight_config lg) (clk 1) ?t ok (h, st) else Some (h, st)"
  have e: "HasEventOccured Noseover s = Some (eventStates s ! Noseover)" "HasEventOccured GroundHit s = Some (eventStates s ! GroundHit)"
    if "flight_inv lg s" for s :: "'f pc_state"
    using HasEventOccured_flight [OF that] by (simp_all add: events)
  have n: "\<exists>hs. ?n = Some hs \<and> flight_inv lg (snd hs)"
    using HandleNoseover_ok [of lg "clk 1" ?t ok h st] assms(1) HandleNoseover_total [OF assms(1) assms(2) [of 1], of ?t ok h]
    by (auto split: prod.splits)
  show ?thesis
    unfolding HandleAfterBoost_def Let_def prod.case e [OF assms(1)] Option.bind_lunit
    by (rule bind_total [OF n]) (use HandleGround_total [OF _ assms(2)] e in \<open>auto split: prod.splits\<close>)
qed

lemma HandleData_total:
  fixes st :: "'f pc_state"
  assumes "state_ok lg (h, st)" "finders_ok h" "\<And>k. clocks_ok (clk k)" "timestamp \<noteq> BOOST_NOT_YET_HAPPENED"
  shows "HandleData pow (flight_config lg) clk timestamp data ok (h, st) \<noteq> None"
proof -
  have e: "HasEventOccured Boost s = Some (eventStates s ! Boost)" if "flight_inv lg s" for s :: "'f pc_state"
    using HasEventOccured_flight [OF that] by (simp add: events)
  have inv: "flight_inv lg st" using assms(1) by (simp add: state_ok_def)
  obtain p where p: "rs_Feed (fit_sample (of_int (uint timestamp) / 1000) (asl_from_pressure pow (primary_pressure data)))
      (primaryBaromVelocityFinder h) = Some p"
    using rs_Feed_ok assms(2) by (metis finders_ok_def)
  obtain s where s: "rs_Feed (fit_sample (of_int (uint timestamp) / 1000) (asl_from_pressure pow (secondary_pressure data)))
      (secondaryBaromVelocityFinder h) = Some s"
    using rs_Feed_ok assms(2) by (metis finders_ok_def)
  let ?h = "h\<lparr>primaryBaromVelocityFinder := p, secondaryBaromVelocityFinder := s\<rparr>"
  have "state_ok lg (?h, st)" using assms(1) by (simp add: state_ok_def)
  then have b: "\<exists>hs. (if \<not> eventStates st ! Boost then HandleBoost (flight_config lg) (clk 0) timestamp data ok (?h, st)
      else Some (?h, st)) = Some hs \<and> flight_inv lg (snd hs)"
    using HandleBoost_total [OF inv assms(3) [of 0], of timestamp data ok ?h]
      HandleBoost_ok [of lg "clk 0" timestamp data ok ?h st, OF _ _ assms(4)] inv
    by (auto simp: state_ok_def)
  show ?thesis
    unfolding HandleData_def Let_def prod.case p s Option.bind_lunit e [OF inv]
    by (rule bind_total [OF b]) (use HandleAfterBoost_total [OF _ assms(3)] e in \<open>auto split: prod.splits\<close>)
qed

lemma finders_unchanged:
  "HandleBoost cfg c timestamp data ok (h, st) = Some (h', st') \<Longrightarrow> finders_ok h' = finders_ok h"
  "HandleNoseover cfg c t ok (h, st) = Some (h', st') \<Longrightarrow> finders_ok h' = finders_ok h"
  "HandleGround cfg c t ok (h, st) = Some (h', st') \<Longrightarrow> finders_ok h' = finders_ok h"
  by (auto simp: finders_ok_def HandleBoost_def HandleNoseover_def HandleGround_def Let_def split: Option.bind_splits if_splits)

lemma HandleAfterBoost_finders:
  "HandleAfterBoost cfg clk timestamp ok (h, st) = Some (h', st') \<Longrightarrow> finders_ok h' = finders_ok h"
  by (auto simp: HandleAfterBoost_def Let_def dest!: finders_unchanged(2,3) split: Option.bind_splits if_splits prod.splits)

lemma HandleData_finders:
  assumes "HandleData pow cfg clk timestamp data ok (h, st) = Some (h', st')" "finders_ok h"
  shows "finders_ok h'"
proof -
  obtain p s where "rs_ok p" "rs_ok s"
    "rs_Feed (fit_sample (of_int (uint timestamp) / 1000) (asl_from_pressure pow (primary_pressure data)))
      (primaryBaromVelocityFinder h) = Some p"
    "rs_Feed (fit_sample (of_int (uint timestamp) / 1000) (asl_from_pressure pow (secondary_pressure data)))
      (secondaryBaromVelocityFinder h) = Some s"
    using rs_Feed_ok assms(2) by (metis finders_ok_def)
  then have "finders_ok (h\<lparr>primaryBaromVelocityFinder := p, secondaryBaromVelocityFinder := s\<rparr>)" "finders_ok h' = 
     finders_ok (h\<lparr>primaryBaromVelocityFinder := p, secondaryBaromVelocityFinder := s\<rparr>)"
    using assms(1)
    by (auto simp: HandleData_def Let_def finders_ok_def [of "h\<lparr>primaryBaromVelocityFinder := p, secondaryBaromVelocityFinder := s\<rparr>"]
        dest!: finders_unchanged(1) HandleAfterBoost_finders split: Option.bind_splits if_splits prod.splits)
  then show ?thesis by simp
qed

lemma detection_new_finders: "\<exists>h :: 'a::linordered_field detection_handler. detection_new = Some h \<and> finders_ok h"
proof -
  let ?v = "fit_sample 0 0 :: 'a LinearFitSample"
  obtain v :: "'a LinearFitSample rolling_sum" where "rs_new 10 ?v = Some v" "rs_ok v"
    using rs_Fill_ok [of "\<lparr>total = 0, buf = cbuf_new 10 ?v\<rparr>" ?v] cbuf_new_ok [of 10 ?v]
    unfolding rs_new_def by fastforce
  then show ?thesis by (simp add: detection_new_def BAROM_VELOCITY_FINDER_WINDOW_SIZE_def finders_ok_def)
qed

lemma flight_finders_ok:
  fixes hs :: "'a::linordered_field detection_handler \<times> 'f pc_state"
  shows "flight pow lg hs \<Longrightarrow> finders_ok (fst hs)"
proof (induction rule: flight.induct)
  case (power_on h now f st)
  obtain h' :: "'a detection_handler" where h': "detection_new = Some h'" "finders_ok h'" using detection_new_finders by blast
  have "Some h' = Some h" by (rule trans [OF sym [OF h'(1)] power_on(1)])
  then show ?case using h'(2) by simp
next
  case (sensed hs timestamp clk data ok hs')
  obtain h st h' st' where "hs = (h, st)" "hs' = (h', st')" by (cases hs; cases hs')
  then show ?case using HandleData_finders [of pow "flight_config lg" clk timestamp data ok h st h' st'] sensed by simp
qed simp

lemma HandleBoost_inv:
  assumes "HandleBoost (flight_config lg) clk timestamp data ok (h, st) = Some (h', st')" "flight_inv lg st"
  shows "flight_inv lg st'"
proof -
  obtain c1 c2 st1 where 1: "submit_if c1 (flight_config lg) (clk 0) HighGImu Boost st = Some st1"
    and 2: "submit_if c2 (flight_config lg) (clk 1) LowGImu Boost st1 = Some st'"
    using assms(1) by (auto simp: HandleBoost_def Let_def split: Option.bind_splits if_splits)
  have "flight_inv lg st1" using submit_if_flight [OF assms(2) _ 1] by (simp add: allowed_def sources)
  then show ?thesis using submit_if_flight [OF _ _ 2] by (simp add: allowed_def sources)
qed

text \<open>A vote of an accelerometer for boost makes it occur, and nothing else does in \<open>HandleBoost\<close>.\<close>

lemma submit_boost:
  assumes "submit_if c (flight_config lg) now source Boost st = Some st'" "flight_inv lg st" "source = HighGImu \<or> source = LowGImu"
  shows "eventStates st' ! Boost \<longleftrightarrow> eventStates st ! Boost \<or> c"
proof (cases c)
  case True
  have shape: "pc_shape (flight_config lg) st" using assms(2) by (simp add: flight_inv_def pc_inv_def)
  have "Boost < 4" "source < 6" using assms(3) by (auto simp: events sources)
  moreover have "SubmitEvent (flight_config lg) now source Boost st = Some st'" using assms(1) True by (simp add: submit_if_def)
  ultimately obtain f where "st' = submitted (flight_config lg) source Boost st\<lparr>log_file := f\<rparr>"
    using SubmitEvent_effect [OF shape] by fastforce
  moreover have "length (sourceStates st ! 0) = 6" using shape by (simp add: pc_shape_def)
  then have "(deciders (flight_config lg) ! Boost) ((sourceStates st ! Boost)[source := True])"
    using assms(3) by (auto simp: flight_config_def flight_deciders_def events sources)
  ultimately show ?thesis using submitted_event [OF shape, of Boost Boost source] True by (simp add: events)
qed (use assms(1) in \<open>simp add: submit_if_def\<close>)

lemma HandleBoost_exact:
  assumes "HandleBoost (flight_config lg) clk timestamp data ok (h, st) = Some (h', st')" "flight_inv lg st"
    and "d1 = db_Feed Over (ucast timestamp) (mag_squared (imu_acceleration data)) (primaryImuBoostSquaredDetector h)"
    and "d2 = db_Feed Over (ucast timestamp) (mag_squared (acceleration data)) (secondaryImuBoostSquaredDetector h)"
  shows "primaryImuBoostSquaredDetector h' = d1 \<and> secondaryImuBoostSquaredDetector h' = d2 \<and>
    (eventStates st' ! Boost \<longleftrightarrow> eventStates st ! Boost \<or> primaryAccOk ok \<and> db_Passed d1 \<or> secondaryAccOk ok \<and> db_Passed d2)"
proof -
  obtain st1 where 1: "submit_if (db_Passed d1 \<and> primaryAccOk ok) (flight_config lg) (clk 0) HighGImu Boost st = Some st1"
    and 2: "submit_if (db_Passed d2 \<and> secondaryAccOk ok) (flight_config lg) (clk 1) LowGImu Boost st1 = Some st'"
    and h': "primaryImuBoostSquaredDetector h' = d1" "secondaryImuBoostSquaredDetector h' = d2"
    using assms by (auto simp: HandleBoost_def Let_def split: Option.bind_splits if_splits)
  have i1: "flight_inv lg st1" using submit_if_flight [OF assms(2) _ 1] by (simp add: allowed_def sources)
  show ?thesis using submit_boost [OF 1 assms(2)] submit_boost [OF 2 i1] h' by auto
qed

lemma HandleData_keeps:
  assumes run: "HandleData pow (flight_config lg) clk timestamp data ok (h, st) = Some (h', st')" and inv: "flight_inv lg st"
    and b: "eventStates st ! Boost"
  shows "eventStates st' ! Boost"
proof -
  have b4: "Boost < 4" by (simp add: events)
  obtain h0 where "HandleAfterBoost (flight_config lg) clk timestamp ok (h0, st) = Some (h', st')"
    using run HasEventOccured_flight [OF inv b4] b by (auto simp: HandleData_def Let_def bind_eq_Some_conv)
  then show ?thesis using HandleAfterBoost_ok [OF _ inv] b b4 by blast
qed

definition boost_detectors :: "'a detection_handler \<Rightarrow> 'a debouncer \<times> 'a debouncer" where
  "boost_detectors h = (primaryImuBoostSquaredDetector h, secondaryImuBoostSquaredDetector h)"

lemma HandleNoseover_detector: "HandleNoseover cfg c t ok (h, st) = Some (h', st') \<Longrightarrow> boost_detectors h' = boost_detectors h"
  by (auto simp: HandleNoseover_def boost_detectors_def Let_def split: Option.bind_splits if_splits)

lemma HandleGround_detector: "HandleGround cfg c t ok (h, st) = Some (h', st') \<Longrightarrow> boost_detectors h' = boost_detectors h"
  by (auto simp: HandleGround_def boost_detectors_def Let_def split: Option.bind_splits if_splits)

lemma HandleAfterBoost_detector: "HandleAfterBoost cfg clk timestamp ok (h, st) = Some (h', st') \<Longrightarrow> boost_detectors h' = boost_detectors h"
  by (auto simp: HandleAfterBoost_def Let_def dest!: HandleNoseover_detector HandleGround_detector
      split: Option.bind_splits if_splits prod.splits)

text \<open>The two debouncers of the accelerometers with a reading.\<close>

definition fed_detectors :: "u64 \<Rightarrow> 'a::linordered_field sensor_frame \<Rightarrow> 'a detection_handler \<Rightarrow> 'a debouncer \<times> 'a debouncer" where
  "fed_detectors timestamp data h =
     (db_Feed Over (ucast timestamp) (mag_squared (imu_acceleration data)) (primaryImuBoostSquaredDetector h),
      db_Feed Over (ucast timestamp) (mag_squared (acceleration data)) (secondaryImuBoostSquaredDetector h))"

text \<open>A reading before boost.\<close>

lemma HandleData_exact:
  assumes run: "HandleData pow (flight_config lg) clk timestamp data ok (h, st) = Some (h', st')" and "flight_inv lg st"
    and "\<not> eventStates st ! Boost" and d: "fed_detectors timestamp data h = (d1, d2)"
  shows "boost_detectors h' = (d1, d2) \<and>
    (eventStates st' ! Boost \<longleftrightarrow> primaryAccOk ok \<and> db_Passed d1 \<or> secondaryAccOk ok \<and> db_Passed d2)"
proof -
  have b4: "Boost < 4" by (simp add: events)
  obtain h0 h1 st1 where boost: "HandleBoost (flight_config lg) (clk 0) timestamp data ok (h0, st) = Some (h1, st1)"
    and h0: "primaryImuBoostSquaredDetector h0 = primaryImuBoostSquaredDetector h"
      "secondaryImuBoostSquaredDetector h0 = secondaryImuBoostSquaredDetector h"
    and rest: "HasEventOccured Boost st1 \<bind> (\<lambda>boost. if \<not> boost then Some (h1, st1)
      else HandleAfterBoost (flight_config lg) clk timestamp ok (h1, st1)) = Some (h', st')"
    using run HasEventOccured_flight [OF assms(2) b4] assms(3)
    by (auto simp: HandleData_def Let_def bind_eq_Some_conv)
  have d1: "boost_detectors h1 = (d1, d2) \<and>
      (eventStates st1 ! Boost \<longleftrightarrow> primaryAccOk ok \<and> db_Passed d1 \<or> secondaryAccOk ok \<and> db_Passed d2)"
    using HandleBoost_exact [OF boost assms(2) refl refl] d h0 assms(3) by (simp add: fed_detectors_def boost_detectors_def)
  have i1: "flight_inv lg st1" using boost assms(2) HandleBoost_inv by blast
  show ?thesis
  proof (cases "eventStates st1 ! Boost")
    case True
    then have run2: "HandleAfterBoost (flight_config lg) clk timestamp ok (h1, st1) = Some (h', st')"
      using rest HasEventOccured_flight [OF i1 b4] by simp
    then show ?thesis using HandleAfterBoost_detector [OF run2] HandleAfterBoost_ok [OF run2 i1] d1 True b4 by simp
  next
    case False
    then have "h' = h1 \<and> st' = st1" using rest HasEventOccured_flight [OF i1 b4] by simp
    then show ?thesis using d1 by simp
  qed
qed

text \<open>A reading after boost leaves the debouncers alone.\<close>

lemma HandleData_after:
  assumes run: "HandleData pow (flight_config lg) clk timestamp data ok (h, st) = Some (h', st')" and inv: "flight_inv lg st"
    and b: "eventStates st ! Boost"
  shows "boost_detectors h' = boost_detectors h \<and> eventStates st' ! Boost"
proof -
  have b4: "Boost < 4" by (simp add: events)
  obtain h0 where "HandleAfterBoost (flight_config lg) clk timestamp ok (h0, st) = Some (h', st')" "boost_detectors h0 = boost_detectors h"
    using run HasEventOccured_flight [OF inv b4] b by (auto simp: HandleData_def Let_def bind_eq_Some_conv boost_detectors_def)
  then show ?thesis using HandleAfterBoost_detector HandleData_keeps [OF run inv b] by metis
qed

subsection \<open>Properties\<close>

text \<open>Two readings 300 ms apart, with 100 m/s/s on the first sensor.\<close>

definition example_frame :: "rat sensor_frame" where
  "example_frame = \<lparr>imu_acceleration = (100, 0, 0), acceleration = (0, 0, 0), primary_pressure = 1, secondary_pressure = 1\<rparr>"

definition example_workings :: sensor_workings where
  "example_workings = \<lparr>primaryAccOk = True, secondaryAccOk = True, primaryBarometerOk = True, secondaryBarometerOk = True\<rparr>"

abbreviation example_sense :: "u64 \<Rightarrow> rat detection_handler \<times> unit pc_state \<Rightarrow> (rat detection_handler \<times> unit pc_state) option" where
  "example_sense t \<equiv> HandleData (\<lambda>x y. x) (flight_config None) (\<lambda>_ _. (0, 0)) t example_frame example_workings"

lemma example_first:
  "\<exists>h st. flight (\<lambda>x y. x) None (h :: rat detection_handler, st :: unit pc_state) \<and>
    (eventStates st ! Boost \<or> primaryImuBoostSquaredDetector h = db_Feed Over 1000 10000 (db_new 250 2401))"
proof -
  obtain h :: "rat detection_handler" where h: "detection_new = Some h" using detection_new_finders by blast
  then have d: "primaryImuBoostSquaredDetector h = db_new 250 2401"
    by (auto simp: detection_new_def boostThresholdMPerS2_def boostTimeThreshold_def split: Option.bind_splits)
  obtain st :: "unit pc_state" where st: "pc_new (flight_config None) 0 () = Some st" by (simp add: pc_new_def flight_config_def)
  have "eventStates st = [False, False, False, False]"
    using st by (auto simp: pc_new_def flight_config_def Let_def eval_nat_numeral)
  then have nb: "\<not> eventStates st ! Boost" by (simp add: events)
  have fl: "flight (\<lambda>x y. x) None (h, st)" by (rule flight.power_on [OF h st])
  have ok: "state_ok None (h, st)" "finders_ok h" using flight_state_ok [OF fl] flight_finders_ok [OF fl] by simp_all
  have t: "(1000 :: u64) \<noteq> BOOST_NOT_YET_HAPPENED" by (simp add: BOOST_NOT_YET_HAPPENED_def)
  obtain h' st' where run: "example_sense 1000 (h, st) = Some (h', st')"
    using HandleData_total [OF ok, of "\<lambda>_ _. (0, 0)" 1000 "\<lambda>x y. x" example_frame example_workings] t
    by (auto simp: clocks_ok_def)
  have "primaryImuBoostSquaredDetector h' = db_Feed Over 1000 10000 (db_new 250 2401)"
    using HandleData_exact [OF run _ nb] ok(1) d
    by (simp add: state_ok_def example_frame_def mag_squared_def fed_detectors_def boost_detectors_def)
  then show ?thesis using flight.sensed [OF fl t run] by blast
qed

lemma example_boost:
  "\<exists>h st. flight (\<lambda>x y. x) None (h :: rat detection_handler, st :: unit pc_state) \<and> eventStates st ! Boost"
proof -
  obtain h :: "rat detection_handler" and st :: "unit pc_state" where fl: "flight (\<lambda>x y. x) None (h, st)"
    and d: "eventStates st ! Boost \<or> primaryImuBoostSquaredDetector h = db_Feed Over 1000 10000 (db_new 250 2401)"
    using example_first by blast
  show ?thesis
  proof (cases "eventStates st ! Boost")
    case False
    have ok: "state_ok None (h, st)" "finders_ok h" using flight_state_ok [OF fl] flight_finders_ok [OF fl] by simp_all
    have t: "(1300 :: u64) \<noteq> BOOST_NOT_YET_HAPPENED" by (simp add: BOOST_NOT_YET_HAPPENED_def)
    obtain h' st' where run: "example_sense 1300 (h, st) = Some (h', st')"
      using HandleData_total [OF ok, of "\<lambda>_ _. (0, 0)" 1300 "\<lambda>x y. x" example_frame example_workings] t
      by (auto simp: clocks_ok_def)
    have "db_Passed (db_Feed Over 1300 10000 (db_Feed Over 1000 10000 (db_new 250 (2401 :: rat))))"
      by (simp add: db_Feed_def db_Passed_def db_new_def passesOne_def NOT_PASSED_def Let_def)
    then have "eventStates st' ! Boost"
      using HandleData_exact [OF run _ False] ok(1) d False
      by (simp add: state_ok_def example_workings_def example_frame_def mag_squared_def fed_detectors_def)
    then show ?thesis using flight.sensed [OF fl t run] by blast
  qed (use fl in blast)
qed

text \<open>
  C3: in every state of a flight, whatever the sensors read and whenever the timers expire, the
  phases come in order: the lockout ends only after boost, noseover is seen only after the lockout
  and so after boost, landing only after boost, a barometer votes for landing only after
  noseover, and the time of boost is known exactly when boost has been seen.
\<close>

theorem flight_phases_in_order:
  assumes "flight pow lg (h, st)"
  shows "(HasEventOccured Noseover st = Some True \<longrightarrow> HasEventOccured NoseoverLockout st = Some True) \<and>
    (HasEventOccured NoseoverLockout st = Some True \<longrightarrow> HasEventOccured Boost st = Some True) \<and>
    (ContinueCollecting st = Some False \<longrightarrow> HasEventOccured Boost st = Some True) \<and>
    (sourceStates st ! GroundHit ! BaromBMP \<or> sourceStates st ! GroundHit ! BaromMS5611 \<longrightarrow>
       HasEventOccured Noseover st = Some True) \<and>
    (boost_detected_time h \<noteq> BOOST_NOT_YET_HAPPENED \<longleftrightarrow> HasEventOccured Boost st = Some True)"
proof -
  have ok: "flight_inv lg st" "phases_ordered st" "boost_detected_time h \<noteq> BOOST_NOT_YET_HAPPENED \<longleftrightarrow> eventStates st ! Boost"
    using flight_state_ok [OF assms] by (simp_all add: state_ok_def flight_inv_def)
  have e: "HasEventOccured Boost st = Some (eventStates st ! Boost)" "HasEventOccured Noseover st = Some (eventStates st ! Noseover)"
    "HasEventOccured NoseoverLockout st = Some (eventStates st ! NoseoverLockout)"
    "HasEventOccured GroundHit st = Some (eventStates st ! GroundHit)"
    using HasEventOccured_flight [OF ok(1)] by (simp_all add: events)
  show ?thesis using ok(2,3) unfolding e ContinueCollecting_def phases_ordered_def by auto
qed

theorem flight_phases_in_order_witness:
  "\<exists>h st. flight (\<lambda>x y. x) None (h :: rat detection_handler, st :: unit pc_state) \<and> HasEventOccured Boost st = Some True \<and>
    boost_detected_time h \<noteq> BOOST_NOT_YET_HAPPENED"
proof -
  obtain h :: "rat detection_handler" and st :: "unit pc_state" where
    fl: "flight (\<lambda>x y. x) None (h, st)" "eventStates st ! Boost" using example_boost by blast
  have "flight_inv None st" using flight_state_ok [OF fl(1)] by (simp add: state_ok_def)
  then have "HasEventOccured Boost st = Some True" using HasEventOccured_flight [of None st Boost] fl(2) by (simp add: events)
  then show ?thesis using flight_phases_in_order [OF fl(1)] fl(1) by blast
qed

text \<open>
  C6: in every state of a flight the handler finishes every reading without an access past an array
  or a buffer, while the uptimes the log prints are below \<open>10^10\<close> ms and the reading is not stamped \<open>2^64 - 1\<close>, which stands for no boost yet.
  After it boost has occurred exactly when it had before, or the debouncer of one of the two accelerometers passes with the
  reading while that accelerometer works. Before boost both debouncers are fed, afterwards neither is.
\<close>

theorem flight_readings_handled:
  assumes "flight pow lg (h, st)" "\<And>k. clocks_ok (clk k)" "timestamp \<noteq> BOOST_NOT_YET_HAPPENED"
  shows "\<exists>h' st'. HandleData pow (flight_config lg) clk timestamp data ok (h, st) = Some (h', st') \<and>
    (case fed_detectors timestamp data h of (d1, d2) \<Rightarrow>
       HasEventOccured Boost st' = Some (HasEventOccured Boost st = Some True \<or>
         primaryAccOk ok \<and> db_Passed d1 \<or> secondaryAccOk ok \<and> db_Passed d2) \<and>
       boost_detectors h' = (if HasEventOccured Boost st = Some True then boost_detectors h else (d1, d2)))"
proof -
  have ok: "state_ok lg (h, st)" "finders_ok h" using flight_state_ok [OF assms(1)] flight_finders_ok [OF assms(1)] by simp_all
  have "HandleData pow (flight_config lg) clk timestamp data ok (h, st) \<noteq> None" by (rule HandleData_total [OF ok assms(2,3)])
  then obtain h' st' where run: "HandleData pow (flight_config lg) clk timestamp data ok (h, st) = Some (h', st')" by auto
  have inv: "flight_inv lg st" "flight_inv lg st'"
    using ok(1) HandleData_ok [OF run ok(1) assms(3)] by (simp_all add: state_ok_def)
  obtain d1 d2 where d: "fed_detectors timestamp data h = (d1, d2)" by fastforce
  have e: "HasEventOccured Boost st = Some (eventStates st ! Boost)" "HasEventOccured Boost st' = Some (eventStates st' ! Boost)"
    using HasEventOccured_flight [OF inv(1), of Boost] HasEventOccured_flight [OF inv(2), of Boost] by (simp_all add: events)
  show ?thesis
  proof (cases "eventStates st ! Boost")
    case True
    then show ?thesis using run HandleData_after [OF run inv(1) True] d e by auto
  next
    case False
    then show ?thesis using run HandleData_exact [OF run inv(1) False d] d e by auto
  qed
qed

theorem flight_readings_handled_witness:
  "\<exists>h st h' st'. flight (\<lambda>x y. x) None (h :: rat detection_handler, st :: unit pc_state) \<and>
    example_sense 1300 (h, st) = Some (h', st') \<and> HasEventOccured Boost st' = Some True"
proof -
  obtain h :: "rat detection_handler" and st :: "unit pc_state" where fl: "flight (\<lambda>x y. x) None (h, st)"
    and d: "eventStates st ! Boost \<or> primaryImuBoostSquaredDetector h = db_Feed Over 1000 10000 (db_new 250 2401)"
    using example_first by blast
  have e: "HasEventOccured Boost st = Some (eventStates st ! Boost)"
    using flight_state_ok [OF fl] HasEventOccured_flight [of None st Boost] by (simp add: state_ok_def events)
  have "db_Passed (db_Feed Over 1300 10000 (db_Feed Over 1000 10000 (db_new 250 (2401 :: rat))))"
    by (simp add: db_Feed_def db_Passed_def db_new_def passesOne_def NOT_PASSED_def Let_def)
  then have "eventStates st ! Boost \<or> db_Passed (fst (fed_detectors 1300 example_frame h))"
    using d by (auto simp: fed_detectors_def example_frame_def mag_squared_def)
  then have "\<exists>h' st'. example_sense 1300 (h, st) = Some (h', st') \<and> HasEventOccured Boost st' = Some True"
    using flight_readings_handled [OF fl, of "\<lambda>_ _. (0, 0)" 1300 example_frame example_workings] e
    by (cases "fed_detectors 1300 example_frame h") (auto simp: clocks_ok_def BOOST_NOT_YET_HAPPENED_def example_workings_def)
  then show ?thesis using fl by blast
qed

text \<open>
  The configuration declares three timers and initialises two. In every state of a flight after
  boost the third one runs or has voted for boost in the name of the low-g sensor, whatever that
  sensor read.
\<close>

theorem flight_third_timer_votes:
  assumes "flight pow lg (h, st)" "HasEventOccured Boost st = Some True"
  shows "timers st ! 2 \<or> sourceStates st ! Boost ! LowGImu"
proof -
  have "flight_inv lg st" using flight_state_ok [OF assms(1)] by (simp add: state_ok_def)
  then have "timers_served (flight_config lg) st" "eventStates st ! Boost"
    using assms(2) HasEventOccured_flight [of lg st Boost] by (simp_all add: flight_inv_def pc_inv_def events)
  then show ?thesis by (auto simp: timers_served_def flight_config_def timer_events_def events sources Let_def dest: spec [of _ 2])
qed

theorem flight_third_timer_votes_witness:
  "\<exists>h st. flight (\<lambda>x y. x) None (h :: rat detection_handler, st :: unit pc_state) \<and> (timers st ! 2 \<or> sourceStates st ! Boost ! LowGImu)"
proof -
  obtain h :: "rat detection_handler" and st :: "unit pc_state" where
    fl: "flight (\<lambda>x y. x) None (h, st)" "eventStates st ! Boost" using example_boost by blast
  have "flight_inv None st" using flight_state_ok [OF fl(1)] by (simp add: state_ok_def)
  then have "HasEventOccured Boost st = Some True" using HasEventOccured_flight [of None st Boost] fl(2) by (simp add: events)
  then show ?thesis using flight_third_timer_votes [OF fl(1)] fl(1) by blast
qed

end
