(* ===== verification/Udp_Socket.thy ===== *)
theory Udp_Socket
  imports Flight_Prelude
begin

text \<open>
  \<open>CUdpSocket\<close>, \<open>lib/f_core/net/transport/c_udp_socket.cpp\<close>, as it is built for the boards. The
  socket calls of Zephyr are parameters: a record of functions on \<open>'n\<close>, the network and the
  sockets. The destination of a transmission is a static local variable of the method, so one
  variable for all sockets of the program, initialised by the first call.
\<close>

text \<open>
  \<open>zsock_getfl\<close> and \<open>zsock_setfl\<close> are the two uses of \<open>fcntl\<close>. Every datagram is sent to the
  broadcast address and a port. A receive gives the result, the bytes and \<open>sin_port\<close> of the sender.
\<close>

record 'n net_ops =
  zsock_socket :: "'n \<Rightarrow> int \<times> 'n"
  zsock_bind :: "int \<Rightarrow> u16 \<Rightarrow> 'n \<Rightarrow> int \<times> 'n"
  zsock_close :: "int \<Rightarrow> 'n \<Rightarrow> 'n"
  zsock_getfl :: "int \<Rightarrow> 'n \<Rightarrow> int \<times> 'n"
  zsock_setfl :: "int \<Rightarrow> u32 \<Rightarrow> 'n \<Rightarrow> int \<times> 'n"
  zsock_sendto :: "int \<Rightarrow> u8 list \<Rightarrow> u16 \<Rightarrow> 'n \<Rightarrow> int \<times> 'n"
  zsock_recvfrom :: "int \<Rightarrow> nat \<Rightarrow> 'n \<Rightarrow> int \<times> u8 list \<times> u16 \<times> 'n"
  zsock_set_timeo :: "int \<Rightarrow> bool \<Rightarrow> int \<Rightarrow> 'n \<Rightarrow> int \<times> 'n"
  errno :: "'n \<Rightarrow> int"
  k_uptime_get_32 :: "'n \<Rightarrow> u32"
  k_msleep :: "int \<Rightarrow> 'n \<Rightarrow> 'n"
  O_NONBLOCK :: u32

definition EWOULDBLOCK :: int where "EWOULDBLOCK = EAGAIN"

record udp_socket =
  sock :: int
  dstPort :: int

record 'n udp_world =
  sync_addr :: "u16 option"
  async_addr :: "u16 option"
  net :: 'n

definition udp_new :: "'n net_ops \<Rightarrow> bool \<Rightarrow> u16 \<Rightarrow> u16 \<Rightarrow> 'n udp_world \<Rightarrow> udp_socket \<times> 'n udp_world" where
  "udp_new ops ip_initialized srcPort dst w =
     (if \<not> ip_initialized then (\<lparr>sock = -1, dstPort = uint dst\<rparr>, w)
      else case zsock_socket ops (net w) of
        (s, n) \<Rightarrow>
          if s < 0 then (\<lparr>sock = s, dstPort = uint dst\<rparr>, w\<lparr>net := n\<rparr>)
          else
            let (err, n) = zsock_bind ops s srcPort n;
                n = (if err < 0 then zsock_close ops s n else n);
                uptime = k_uptime_get_32 ops n;
                n = (if uptime < 2000 then k_msleep ops (2000 - uint uptime) n else n)
            in (\<lparr>sock = s, dstPort = uint dst\<rparr>, w\<lparr>net := n\<rparr>))"

definition udp_close :: "'n net_ops \<Rightarrow> udp_socket \<Rightarrow> 'n udp_world \<Rightarrow> 'n udp_world" where
  "udp_close ops u w = w\<lparr>net := zsock_close ops (sock u) (net w)\<rparr>"

definition SetDstPort :: "int \<Rightarrow> udp_socket \<Rightarrow> udp_socket" where
  "SetDstPort port u = u\<lparr>dstPort := port\<rparr>"

definition TransmitSynchronous :: "'n net_ops \<Rightarrow> udp_socket \<Rightarrow> u8 list \<Rightarrow> 'n udp_world \<Rightarrow> int \<times> 'n udp_world" where
  "TransmitSynchronous ops u data w =
     (let addr = (case sync_addr w of None \<Rightarrow> word_of_int (dstPort u) | Some addr \<Rightarrow> addr);
          (ret, n) = zsock_sendto ops (sock u) data addr (net w)
      in (ret, w\<lparr>sync_addr := Some addr, net := n\<rparr>))"

definition ReceiveSynchronous :: "'n net_ops \<Rightarrow> udp_socket \<Rightarrow> nat \<Rightarrow> 'n udp_world \<Rightarrow> int \<times> u8 list \<times> u16 \<times> 'n udp_world" where
  "ReceiveSynchronous ops u len w =
     (case zsock_recvfrom ops (sock u) len (net w) of (ret, bytes, port, n) \<Rightarrow> (ret, bytes, port, w\<lparr>net := n\<rparr>))"

text \<open>Make the socket non-blocking if it is not.\<close>

definition set_nonblock :: "'n net_ops \<Rightarrow> udp_socket \<Rightarrow> 'n \<Rightarrow> bool \<times> 'n" where
  "set_nonblock ops u n =
     (case zsock_getfl ops (sock u) n of
        (flags, n) \<Rightarrow>
          if flags < 0 then (False, n)
          else if word_of_int flags AND O_NONBLOCK ops = 0 then
            (case zsock_setfl ops (sock u) (word_of_int flags OR O_NONBLOCK ops) n of (err, n) \<Rightarrow> (\<not> err < 0, n))
          else (True, n))"

definition TransmitAsynchronous :: "'n net_ops \<Rightarrow> udp_socket \<Rightarrow> u8 list \<Rightarrow> 'n udp_world \<Rightarrow> int \<times> 'n udp_world" where
  "TransmitAsynchronous ops u data w =
     (let addr = (case async_addr w of None \<Rightarrow> word_of_int (dstPort u) | Some addr \<Rightarrow> addr);
          w = w\<lparr>async_addr := Some addr\<rparr>;
          (nonblock, n) = set_nonblock ops u (net w)
      in if \<not> nonblock then (-1, w\<lparr>net := n\<rparr>)
         else case zsock_sendto ops (sock u) data addr n of (ret, n) \<Rightarrow> (ret, w\<lparr>net := n\<rparr>))"

definition ReceiveAsynchronous :: "'n net_ops \<Rightarrow> udp_socket \<Rightarrow> nat \<Rightarrow> 'n udp_world \<Rightarrow> int \<times> u8 list \<times> u16 \<times> 'n udp_world" where
  "ReceiveAsynchronous ops u len w =
     (case set_nonblock ops u (net w) of
        (nonblock, n) \<Rightarrow>
          if \<not> nonblock then (-1, [], 0, w\<lparr>net := n\<rparr>)
          else case zsock_recvfrom ops (sock u) len n of
            (ret, bytes, port, n) \<Rightarrow>
              if ret < 0 then
                if errno ops n = EWOULDBLOCK \<or> errno ops n = EAGAIN then (0, [], port, w\<lparr>net := n\<rparr>)
                else (-1, [], port, w\<lparr>net := n\<rparr>)
              else (ret, bytes, port, w\<lparr>net := n\<rparr>))"

definition SetTxTimeout :: "'n net_ops \<Rightarrow> udp_socket \<Rightarrow> int \<Rightarrow> 'n udp_world \<Rightarrow> int \<times> 'n udp_world" where
  "SetTxTimeout ops u timeoutMillis w =
     (case zsock_set_timeo ops (sock u) True timeoutMillis (net w) of (ret, n) \<Rightarrow> (ret, w\<lparr>net := n\<rparr>))"

definition SetRxTimeout :: "'n net_ops \<Rightarrow> udp_socket \<Rightarrow> int \<Rightarrow> 'n udp_world \<Rightarrow> int \<times> 'n udp_world" where
  "SetRxTimeout ops u timeoutMillis w =
     (case zsock_set_timeo ops (sock u) False timeoutMillis (net w) of (ret, n) \<Rightarrow> (ret, w\<lparr>net := n\<rparr>))"

subsection \<open>One destination for all\<close>

text \<open>The transmissions of a program, in order, from any sockets, with their results.\<close>

fun transmit_all :: "'n net_ops \<Rightarrow> (udp_socket \<times> u8 list) list \<Rightarrow> 'n udp_world \<Rightarrow> int list \<times> 'n udp_world" where
  "transmit_all ops [] w = ([], w)"
| "transmit_all ops ((u, data) # calls) w =
     (case TransmitAsynchronous ops u data w of
        (r, w) \<Rightarrow> case transmit_all ops calls w of (rs, w) \<Rightarrow> (r # rs, w))"

lemma TransmitAsynchronous_addr:
  assumes "TransmitAsynchronous ops u data w = (r, w')"
  shows "async_addr w' = Some (case async_addr w of None \<Rightarrow> word_of_int (dstPort u) | Some addr \<Rightarrow> addr)"
  using assms by (auto simp: TransmitAsynchronous_def Let_def split: prod.splits if_splits)

lemma sock_SetDstPort: "sock (SetDstPort port u) = sock u"
  by (simp add: SetDstPort_def)

lemma TransmitAsynchronous_ignores_port:
  assumes "async_addr w = Some a"
  shows "TransmitAsynchronous ops (SetDstPort port u) data w = TransmitAsynchronous ops u data w"
  unfolding TransmitAsynchronous_def set_nonblock_def assms option.case sock_SetDstPort by (rule refl)

lemma transmit_all_ignores_ports:
  "async_addr w = Some a \<Longrightarrow>
    transmit_all ops (map (\<lambda>(u, data). (SetDstPort port u, data)) calls) w = transmit_all ops calls w \<and>
    async_addr (snd (transmit_all ops calls w)) = Some a"
proof (induction ops calls w rule: transmit_all.induct)
  case (2 ops u data calls w)
  obtain r w' where t: "TransmitAsynchronous ops u data w = (r, w')" by fastforce
  then have "async_addr w' = Some a" using TransmitAsynchronous_addr [OF t] "2.prems" by simp
  from "2.IH" [OF t [symmetric] this] show ?case
    using t TransmitAsynchronous_ignores_port [OF "2.prems"] by (auto split: prod.splits)
qed simp

text \<open>
  All asynchronous transmissions of the program go where the first one went: whatever sockets
  make them and whatever destination ports these were given or set to later, the program behaves
  as if all had the port of the first.
\<close>

theorem udp_destination_fixed:
  assumes "async_addr w = None"
  shows "transmit_all ops ((u, data) # calls) w =
      transmit_all ops ((u, data) # map (\<lambda>(v, d). (SetDstPort (dstPort u) v, d)) calls) w \<and>
    async_addr (snd (transmit_all ops ((u, data) # calls) w)) = Some (word_of_int (dstPort u))"
proof -
  obtain r w' where t: "TransmitAsynchronous ops u data w = (r, w')" by fastforce
  then have "async_addr w' = Some (word_of_int (dstPort u))" using TransmitAsynchronous_addr [OF t] assms by simp
  then show ?thesis using t transmit_all_ignores_ports [of w' _ ops "dstPort u" calls] by (auto split: prod.splits)
qed

text \<open>A network that records what is sent, to which port, for the witness.\<close>

definition recording_net :: "(u8 list \<times> u16) list net_ops" where
  "recording_net = \<lparr>zsock_socket = \<lambda>n. (3, n), zsock_bind = \<lambda>_ _ n. (0, n), zsock_close = \<lambda>_ n. n,
     zsock_getfl = \<lambda>_ n. (0, n), zsock_setfl = \<lambda>_ _ n. (0, n),
     zsock_sendto = \<lambda>_ data port n. (int (length data), n @ [(data, port)]),
     zsock_recvfrom = \<lambda>_ _ n. (-1, [], 0, n), zsock_set_timeo = \<lambda>_ _ _ n. (0, n), errno = \<lambda>_. EAGAIN,
     k_uptime_get_32 = \<lambda>_. 5000, k_msleep = \<lambda>_ n. n, O_NONBLOCK = 0x4000\<rparr>"

theorem udp_destination_fixed_witness:
  "async_addr (snd (transmit_all recording_net [(\<lparr>sock = 3, dstPort = 10\<rparr>, [1]), (\<lparr>sock = 4, dstPort = 20\<rparr>, [2])]
      \<lparr>sync_addr = None, async_addr = None, net = []\<rparr>)) = Some 10 \<and>
   net (snd (transmit_all recording_net [(\<lparr>sock = 3, dstPort = 10\<rparr>, [1]), (\<lparr>sock = 4, dstPort = 20\<rparr>, [2])]
      \<lparr>sync_addr = None, async_addr = None, net = []\<rparr>)) = [([1], 10), ([2], 10)]"
  using udp_destination_fixed [of "\<lparr>sync_addr = None, async_addr = None, net = []\<rparr>" recording_net "\<lparr>sock = 3, dstPort = 10\<rparr>" "[1]"
      "[(\<lparr>sock = 4, dstPort = 20\<rparr>, [2])]"]
  by (simp add: TransmitAsynchronous_def set_nonblock_def recording_net_def Let_def)

end
