(* ===== verification/Hash_Map.thy ===== *)
theory Hash_Map
  imports Flight_Prelude "HOL-Library.AList"
begin

text \<open>
  \<open>CHashMap\<close>, \<open>include/f_core/utils/c_hashmap.h\<close>, a wrapper of \<open>std::unordered_map\<close> that counts
  its entries itself. The map of the standard library is an association list; the order of
  its keys is the order of an iteration, which the standard leaves open. \<open>None\<close> is \<open>k_oops\<close>, which ends the thread.
\<close>

record ('k, 'v) hashmap =
  entries :: "('k \<times> 'v) list"
  hm_size :: u32
  maxSizeReachedAtStartup :: u32

definition hm_new :: "('k, 'v) hashmap" where
  "hm_new = \<lparr>entries = [], hm_size = 0, maxSizeReachedAtStartup = 0\<rparr>"

definition hm_Contains :: "'k \<Rightarrow> ('k, 'v) hashmap \<Rightarrow> bool" where
  "hm_Contains key m = (map_of (entries m) key \<noteq> None)"

definition hm_Insert :: "bool \<Rightarrow> 'k \<Rightarrow> 'v \<Rightarrow> ('k, 'v) hashmap \<Rightarrow> (bool \<times> ('k, 'v) hashmap) option" where
  "hm_Insert isMainThreadCurrent key v m =
     (if \<not> isMainThreadCurrent \<and> \<not> hm_Contains key m \<and> hm_size m > maxSizeReachedAtStartup m then None
      else
        let sz = hm_size m + 1;
            m = m\<lparr>hm_size := sz\<rparr>;
            m = (if sz > maxSizeReachedAtStartup m then m\<lparr>maxSizeReachedAtStartup := sz\<rparr> else m)
        in Some (if hm_Contains key m then (False, m) else (True, m\<lparr>entries := (key, v) # entries m\<rparr>)))"

definition hm_Set :: "'k \<Rightarrow> 'v \<Rightarrow> ('k, 'v) hashmap \<Rightarrow> bool \<times> ('k, 'v) hashmap" where
  "hm_Set key v m = (if hm_Contains key m then (True, m\<lparr>entries := AList.update key v (entries m)\<rparr>) else (False, m))"

definition hm_Remove :: "'k \<Rightarrow> ('k, 'v) hashmap \<Rightarrow> bool \<times> ('k, 'v) hashmap" where
  "hm_Remove key m = (hm_Contains key m, m\<lparr>hm_size := hm_size m - 1, entries := AList.delete key (entries m)\<rparr>)"

definition hm_Get :: "'k \<Rightarrow> ('k, 'v) hashmap \<Rightarrow> 'v option" where
  "hm_Get key m = map_of (entries m) key"

definition hm_Size :: "('k, 'v) hashmap \<Rightarrow> u32" where
  "hm_Size m = hm_size m"

text \<open>\<open>map[key] = v\<close> through the reference of the indexing operator.\<close>

definition hm_index_put :: "'k \<Rightarrow> 'v \<Rightarrow> ('k, 'v) hashmap \<Rightarrow> ('k, 'v) hashmap option" where
  "hm_index_put key v m =
     (if \<not> hm_Contains key m then None else Some (m\<lparr>entries := AList.update key v (entries m)\<rparr>))"

definition hm_keys :: "('k, 'v) hashmap \<Rightarrow> 'k list" where
  "hm_keys m = map fst (entries m)"

subsection \<open>Refinement of a map\<close>

definition hm_ok :: "('k, 'v) hashmap \<Rightarrow> bool" where
  "hm_ok m \<longleftrightarrow> distinct (hm_keys m) \<and> hm_size m = of_nat (length (entries m)) \<and> length (entries m) < 2 ^ 32 \<and>
     hm_size m \<le> maxSizeReachedAtStartup m"

definition hm_abs :: "('k, 'v) hashmap \<Rightarrow> 'k \<rightharpoonup> 'v" where
  "hm_abs m = map_of (entries m)"

lemma hm_Contains_iff: "hm_Contains key m \<longleftrightarrow> key \<in> dom (hm_abs m)" "hm_Contains key m \<longleftrightarrow> key \<in> set (hm_keys m)"
  by (simp_all only: hm_Contains_def hm_abs_def hm_keys_def dom_map_of_conv_image_fst set_map map_of_eq_None_iff not_not)

lemma hm_ok_new: "hm_ok hm_new" "hm_abs hm_new = Map.empty"
  by (simp_all add: hm_ok_def hm_new_def hm_keys_def hm_abs_def)

lemma hm_update_ok:
  assumes "hm_ok m" "hm_Contains key m"
  shows "hm_ok (m\<lparr>entries := AList.update key v (entries m)\<rparr>)"
    "hm_abs (m\<lparr>entries := AList.update key v (entries m)\<rparr>) = (hm_abs m)(key \<mapsto> v)"
    "hm_keys (m\<lparr>entries := AList.update key v (entries m)\<rparr>) = hm_keys m"
proof -
  have "key \<in> fst ` set (entries m)" using assms(2) hm_Contains_iff(2) [of key m] by (simp add: hm_keys_def)
  then have k: "map fst (AList.update key v (entries m)) = map fst (entries m)" by (simp add: update_keys)
  have l: "length (AList.update key v (entries m)) = length (entries m)" using arg_cong [OF k, of length] by simp
  show "hm_ok (m\<lparr>entries := AList.update key v (entries m)\<rparr>)"
    using assms(1) k l by (cases m) (auto simp: hm_ok_def hm_keys_def)
  show "hm_abs (m\<lparr>entries := AList.update key v (entries m)\<rparr>) = (hm_abs m)(key \<mapsto> v)" by (simp add: hm_abs_def update_conv')
  show "hm_keys (m\<lparr>entries := AList.update key v (entries m)\<rparr>) = hm_keys m" using k by (simp add: hm_keys_def)
qed

text \<open>Operations from any threads, with the thread of an insertion.\<close>

datatype ('k, 'v) hm_op = HInsert bool 'k 'v | HSet 'k 'v | HRemove 'k

fun hm_do :: "('k, 'v) hm_op list \<Rightarrow> ('k, 'v) hashmap \<Rightarrow> ('k, 'v) hashmap option" where
  "hm_do [] m = Some m"
| "hm_do (HInsert main k v # ops) m = Option.bind (hm_Insert main k v m) (\<lambda>(_, m). hm_do ops m)"
| "hm_do (HSet k v # ops) m = hm_do ops (snd (hm_Set k v m))"
| "hm_do (HRemove k # ops) m = hm_do ops (snd (hm_Remove k m))"

text \<open>
  The same on a map and a count, which goes up with every insertion and down with every removal; \<open>None\<close> when a
  removal finds the count 0.
\<close>

fun map_do :: "('k, 'v) hm_op list \<Rightarrow> ('k \<rightharpoonup> 'v) \<Rightarrow> nat \<Rightarrow> (('k \<rightharpoonup> 'v) \<times> nat) option" where
  "map_do [] f n = Some (f, n)"
| "map_do (HInsert main k v # ops) f n = map_do ops (if k \<in> dom f then f else f(k \<mapsto> v)) (n + 1)"
| "map_do (HSet k v # ops) f n = map_do ops (if k \<in> dom f then f(k \<mapsto> v) else f) n"
| "map_do (HRemove k # ops) f n = (if n = 0 then None else map_do ops (f(k := None)) (n - 1))"

text \<open>No key is inserted while present and none removed while absent.\<close>

fun orderly :: "('k, 'v) hm_op list \<Rightarrow> 'k set \<Rightarrow> bool" where
  "orderly [] K \<longleftrightarrow> True"
| "orderly (HInsert main k v # ops) K \<longleftrightarrow> k \<notin> K \<and> orderly ops (insert k K)"
| "orderly (HSet k v # ops) K \<longleftrightarrow> orderly ops K"
| "orderly (HRemove k # ops) K \<longleftrightarrow> k \<in> K \<and> orderly ops (K - {k})"

lemma orderly_count:
  "map_do ops f n = Some (f', n') \<Longrightarrow> orderly ops (dom f) \<Longrightarrow> finite (dom f) \<Longrightarrow> n = card (dom f) \<Longrightarrow> n' = card (dom f')"
proof (induction ops arbitrary: f n)
  case (Cons x ops)
  show ?case
  proof (cases x)
    case (HInsert main k v)
    have "dom (f(k \<mapsto> v)) = insert k (dom f)" by auto
    then show ?thesis using HInsert Cons.prems Cons.IH [of "f(k \<mapsto> v)" "n + 1"] by (simp del: fun_upd_apply)
  next
    case (HSet k v)
    have "k \<in> dom f \<Longrightarrow> dom (f(k \<mapsto> v)) = dom f" by (simp add: insert_absorb)
    then show ?thesis using HSet Cons.prems Cons.IH [of f n] Cons.IH [of "f(k \<mapsto> v)" n] by (cases "k \<in> dom f") (simp_all del: fun_upd_apply)
  next
    case (HRemove k)
    have "dom (f(k := None)) = dom f - {k}" by auto
    then show ?thesis using HRemove Cons.prems Cons.IH [of "f(k := None)" "n - 1"] by (simp split: if_splits del: fun_upd_apply)
  qed
qed simp

text \<open>The map holds \<open>f\<close>, its count is \<open>n\<close>, and the recorded maximum is at most \<open>L\<close>.\<close>

definition hm_holds :: "('k \<rightharpoonup> 'v) \<Rightarrow> nat \<Rightarrow> nat \<Rightarrow> ('k, 'v) hashmap \<Rightarrow> bool" where
  "hm_holds f n L m \<longleftrightarrow> hm_abs m = f \<and> hm_size m = of_nat n \<and> n \<le> unat (maxSizeReachedAtStartup m) \<and> unat (maxSizeReachedAtStartup m) \<le> L"

lemma hm_holds_new: "hm_holds Map.empty 0 0 hm_new"
  by (simp add: hm_holds_def hm_new_def hm_abs_def)

lemma hm_size_unat: "hm_holds f n L m \<Longrightarrow> unat (hm_size m) = n"
proof -
  assume m: "hm_holds f n L m"
  have "unat (maxSizeReachedAtStartup m) < 2 ^ 32" by (rule order_less_le_trans [OF unsigned_less]) simp
  then have "n < 2 ^ 32" using m by (simp add: hm_holds_def)
  then show ?thesis using m by (simp add: hm_holds_def unat_of_nat take_bit_nat_eq_self)
qed

lemma hm_Insert_holds:
  assumes m: "hm_holds f n L m" and L: "L + 1 < 2 ^ 32"
  shows "\<exists>m'. hm_Insert main key v m = Some (key \<notin> dom f, m') \<and> hm_holds (if key \<in> dom f then f else f(key \<mapsto> v)) (n + 1) (L + 1) m'"
proof -
  let ?sz = "hm_size m + 1"
  let ?mx = "if ?sz > maxSizeReachedAtStartup m then ?sz else maxSizeReachedAtStartup m"
  have n: "unat (hm_size m) = n" by (rule hm_size_unat [OF m])
  have b: "n \<le> unat (maxSizeReachedAtStartup m)" "unat (maxSizeReachedAtStartup m) \<le> L" using m by (simp_all add: hm_holds_def)
  have sz: "unat ?sz = n + 1" using n b L by (simp add: unat_word_ariths(1))
  have guard: "\<not> hm_size m > maxSizeReachedAtStartup m" using n b by (simp add: word_less_nat_alt)
  have mx: "n + 1 \<le> unat ?mx" "unat ?mx \<le> L + 1" using sz b by (auto simp: word_less_nat_alt)
  have c: "hm_Contains key m \<longleftrightarrow> key \<in> dom f" using m by (simp add: hm_holds_def hm_Contains_iff(1))
  define m1 where "m1 = m\<lparr>hm_size := ?sz, maxSizeReachedAtStartup := ?mx\<rparr>"
  have "hm_Insert main key v m = Some (if key \<in> dom f then (False, m1) else (True, m1\<lparr>entries := (key, v) # entries m1\<rparr>))"
    using guard c by (simp add: hm_Insert_def Let_def m1_def hm_Contains_def) auto
  moreover have "hm_holds f (n + 1) (L + 1) m1" "hm_holds (f(key \<mapsto> v)) (n + 1) (L + 1) (m1\<lparr>entries := (key, v) # entries m1\<rparr>)"
    using m mx by (simp_all add: hm_holds_def m1_def hm_abs_def)
  ultimately show ?thesis by simp
qed

lemma hm_Set_holds:
  assumes "hm_holds f n L m"
  shows "hm_holds (if key \<in> dom f then f(key \<mapsto> v) else f) n L (snd (hm_Set key v m))"
  using assms hm_Contains_iff(1) [of key m] by (auto simp: hm_Set_def hm_holds_def hm_abs_def update_conv')

lemma hm_Remove_holds:
  assumes "hm_holds f n L m" "n \<noteq> 0"
  shows "hm_holds (f(key := None)) (n - 1) L (snd (hm_Remove key m))"
  using assms by (cases n) (auto simp: hm_Remove_def hm_holds_def hm_abs_def delete_conv')

lemma hm_do_refines:
  "map_do ops f n = Some (f', n') \<Longrightarrow> hm_holds f n L m \<Longrightarrow> L + length ops < 2 ^ 32 \<Longrightarrow>
    \<exists>m'. hm_do ops m = Some m' \<and> hm_holds f' n' (L + length ops) m'"
proof (induction ops arbitrary: f n L m)
  case (Cons x ops)
  have more: "hm_holds g k (L + length ops) m' \<Longrightarrow> hm_holds g k (L + length (x # ops)) m'" for g k m'
    by (simp add: hm_holds_def)
  show ?case
  proof (cases x)
    case (HInsert main k v)
    let ?f = "if k \<in> dom f then f else f(k \<mapsto> v)"
    obtain m1 where m1: "hm_Insert main k v m = Some (k \<notin> dom f, m1)" "hm_holds ?f (n + 1) (L + 1) m1"
      using hm_Insert_holds [OF Cons.prems(2)] Cons.prems(3) by fastforce
    have "map_do ops ?f (n + 1) = Some (f', n')" using Cons.prems(1) HInsert by simp
    from Cons.IH [OF this m1(2)] show ?thesis using Cons.prems(3) m1(1) HInsert by simp
  next
    case (HSet k v)
    let ?f = "if k \<in> dom f then f(k \<mapsto> v) else f"
    have "map_do ops ?f n = Some (f', n')" using Cons.prems(1) HSet by simp
    from Cons.IH [OF this hm_Set_holds [OF Cons.prems(2)]] show ?thesis using Cons.prems(3) HSet more by auto
  next
    case (HRemove k)
    have n: "n \<noteq> 0" "map_do ops (f(k := None)) (n - 1) = Some (f', n')" using Cons.prems(1) HRemove by (simp_all split: if_splits)
    from Cons.IH [OF n(2) hm_Remove_holds [OF Cons.prems(2) n(1)]] show ?thesis using Cons.prems(3) HRemove more by auto
  qed
qed simp

lemma hm_do_append: "hm_do (ops @ ops') m = Option.bind (hm_do ops m) (hm_do ops')"
proof (induction ops arbitrary: m)
  case (Cons x ops)
  then show ?case by (cases x) (auto split: bind_splits)
qed simp

text \<open>A removal at count 0 wraps the count past the recorded maximum: then new keys are for the main thread only.\<close>

lemma hm_wrapped_blocks:
  assumes m: "hm_holds f 0 L m" and L: "L + 1 < 2 ^ 32" and k: "k' \<notin> dom (f(k := None))"
  shows "hm_do [HRemove k, HInsert False k' v] m = None"
proof -
  let ?m = "snd (hm_Remove k m)"
  have "hm_size ?m = - 1" "maxSizeReachedAtStartup ?m = maxSizeReachedAtStartup m" using m by (simp_all add: hm_Remove_def hm_holds_def)
  moreover have "unat (maxSizeReachedAtStartup m) < unat (- 1 :: u32)"
    using m L by (simp add: hm_holds_def unsigned_minus_1_eq_mask mask_eq_exp_minus_1)
  ultimately have "hm_size ?m > maxSizeReachedAtStartup ?m" by (simp add: word_less_nat_alt)
  moreover have "hm_abs ?m = f(k := None)" using m by (simp add: hm_holds_def hm_Remove_def hm_abs_def delete_conv')
  then have "\<not> hm_Contains k' ?m" using k hm_Contains_iff(1) [of k' ?m] by simp
  ultimately show ?thesis by (simp add: hm_Insert_def)
qed

subsection \<open>Properties\<close>

text \<open>
  C29: the hash map refines a partial map, as long as no removal finds its count at 0: any fewer than \<open>2^32 - 1\<close> operations
  from any threads return, no insertion is blocked, and lookups give what the operations mean. Its size is the
  number of insertions less that of removals, which is the number of keys when no key is inserted while
  present or removed while absent. A removal at count 0 makes the next insertion of a new key from
  a thread other than main fail (\<open>k_oops\<close>).
\<close>

theorem hashmap_refines_map:
  assumes "map_do ops Map.empty 0 = Some (f, n)" "length ops + 1 < 2 ^ 32"
  shows "\<exists>m. hm_do ops hm_new = Some m \<and> (\<forall>k. hm_Get k m = f k) \<and> (\<forall>k. hm_Contains k m \<longleftrightarrow> k \<in> dom f) \<and>
    hm_Size m = of_nat n \<and> (orderly ops {} \<longrightarrow> n = card (dom f)) \<and>
    (\<forall>k k' v. n = 0 \<and> k' \<notin> dom (f(k := None)) \<longrightarrow> hm_do (ops @ [HRemove k, HInsert False k' v]) hm_new = None)"
proof -
  obtain m where m: "hm_do ops hm_new = Some m" "hm_holds f n (length ops) m"
    using hm_do_refines [OF assms(1) hm_holds_new] assms(2) by auto
  have "hm_abs m = f" "hm_Size m = of_nat n" using m(2) by (simp_all add: hm_holds_def hm_Size_def)
  moreover have "orderly ops {} \<longrightarrow> n = card (dom f)" using orderly_count [OF assms(1)] by simp
  moreover have "hm_do (ops @ [HRemove k, HInsert False k' v]) hm_new = None" if "n = 0" "k' \<notin> dom (f(k := None))" for k k' v
    using hm_wrapped_blocks [OF _ assms(2) that(2)] m that(1) by (simp only: hm_do_append bind.simps)
  ultimately show ?thesis using m(1) hm_Contains_iff(1) [of _ m] by (auto simp: hm_Get_def hm_abs_def)
qed

theorem hashmap_refines_map_witness:
  "(\<exists>m. hm_do [HInsert False 1 ''a'', HInsert False 2 ''b'', HSet 1 ''c'', HRemove 2] hm_new = Some m \<and>
     hm_Get (1 :: nat) m = Some ''c'' \<and> hm_Size m = 1) \<and>
   hm_do [HInsert False (1 :: nat) ''a'', HRemove 2, HRemove 1, HInsert False 3 ''c''] hm_new = None"
proof
  show "\<exists>m. hm_do [HInsert False 1 ''a'', HInsert False 2 ''b'', HSet 1 ''c'', HRemove 2] hm_new = Some m \<and>
      hm_Get (1 :: nat) m = Some ''c'' \<and> hm_Size m = 1"
    using hashmap_refines_map [of "[HInsert False 1 ''a'', HInsert False 2 ''b'', HSet 1 ''c'', HRemove 2]" "[1 :: nat \<mapsto> ''c'']" 1]
    by (auto simp: fun_upd_twist)
  show "hm_do [HInsert False (1 :: nat) ''a'', HRemove 2, HRemove 1, HInsert False 3 ''c''] hm_new = None"
    using hashmap_refines_map [of "[HInsert False (1 :: nat) ''a'', HRemove 2]" "[1 \<mapsto> ''a'']" 0] by auto
qed

end
