(* ===== verification/Radio_Module.thy ===== *)
theory Radio_Module
  imports Udp_Socket Hash_Map
begin

text \<open>
  The radio module, \<open>app/backplane/radio_module\<close>: the state machine of pad, flight and landed
  (\<open>include/f_core/c_pad_flight_landing_state_machine.h\<close>), the LoRa modem
  (\<open>lib/f_core/radio/c_lora.cpp\<close>), the tenants that transmit and receive over LoRa and the
  updater that is told of alerts. Both tenants run one after the other in one task. The driver
  calls for the modem and the pins are parameters on \<open>'h\<close>. \<open>None\<close> is \<open>k_oops\<close> or an access past
  a buffer.
\<close>

subsection \<open>The state machine\<close>

datatype State = PAD | FLIGHT | LANDED | GROUND

record state_machine =
  state :: State
  boostDetected :: bool
  landingDetected :: bool
  isGroundModule :: bool

definition sm_new :: state_machine where
  "sm_new = \<lparr>state = PAD, boostDetected = False, landingDetected = False, isGroundModule = False\<rparr>"

text \<open>\<open>Clock\<close>: which handler runs, and the machine after it.\<close>

definition Clock :: "state_machine \<Rightarrow> State \<times> state_machine" where
  "Clock sm =
     (let sm = (if isGroundModule sm then sm\<lparr>state := GROUND\<rparr> else sm) in
      (state sm,
       case state sm of
         PAD \<Rightarrow> if boostDetected sm then sm\<lparr>state := FLIGHT\<rparr> else sm
       | FLIGHT \<Rightarrow> if landingDetected sm then sm\<lparr>state := LANDED\<rparr> else sm
       | LANDED \<Rightarrow> sm
       | GROUND \<Rightarrow> sm))"

text \<open>What the tenants set before the clock; the two build variants of the module.\<close>

definition sm_inputs :: "bool \<Rightarrow> bool \<Rightarrow> bool \<Rightarrow> state_machine \<Rightarrow> state_machine" where
  "sm_inputs receiver boost landing sm =
     (if receiver then sm\<lparr>isGroundModule := True\<rparr>
      else sm\<lparr>boostDetected := boost, landingDetected := landing\<rparr>)"

subsection \<open>The modem\<close>

record 'h radio_ops =
  lora_config :: "bool \<Rightarrow> 'h \<Rightarrow> int \<times> 'h"
  lora_send :: "u8 list \<Rightarrow> 'h \<Rightarrow> int \<times> 'h"
  lora_recv :: "nat \<Rightarrow> 'h \<Rightarrow> int \<times> u8 list \<times> 'h"
  gpio_pin_set :: "nat \<Rightarrow> int \<Rightarrow> 'h \<Rightarrow> int \<times> 'h"
  gpio_pin_get :: "nat \<Rightarrow> 'h \<Rightarrow> int"

text \<open>Of the configuration only the direction ever changes.\<close>

record 'h lora =
  lora_tx :: bool
  hw :: 'h

definition lora_new :: "'h radio_ops \<Rightarrow> 'h \<Rightarrow> 'h lora" where
  "lora_new ops h = \<lparr>lora_tx = False, hw = snd (lora_config ops False h)\<rparr>"

definition setTxRx :: "'h radio_ops \<Rightarrow> bool \<Rightarrow> 'h lora \<Rightarrow> int \<times> 'h lora" where
  "setTxRx ops isTransmit l =
     (if isTransmit = lora_tx l then (0, l)
      else case lora_config ops isTransmit (hw l) of (ret, h) \<Rightarrow> (ret, \<lparr>lora_tx = isTransmit, hw = h\<rparr>))"

definition lora_TransmitSynchronous :: "'h radio_ops \<Rightarrow> u8 list \<Rightarrow> 'h lora \<Rightarrow> int \<times> 'h lora" where
  "lora_TransmitSynchronous ops data l =
     (case setTxRx ops True l of
        (ret, l) \<Rightarrow>
          if ret \<noteq> 0 then (ret, l) else case lora_send ops data (hw l) of (ret, h) \<Rightarrow> (ret, l\<lparr>hw := h\<rparr>))"

definition lora_ReceiveSynchronous :: "'h radio_ops \<Rightarrow> nat \<Rightarrow> 'h lora \<Rightarrow> int \<times> u8 list \<times> 'h lora" where
  "lora_ReceiveSynchronous ops len l =
     (case setTxRx ops False l of
        (ret, l) \<Rightarrow>
          if ret \<noteq> 0 then (ret, [], l)
          else case lora_recv ops len (hw l) of (ret, bytes, h) \<Rightarrow> (ret, bytes, l\<lparr>hw := h\<rparr>))"

subsection \<open>The transmitting tenant\<close>

text \<open>A packet for LoRa; \<open>rb_data\<close> has 254 bytes. The ports of the network are generated from a table.\<close>

record RadioBroadcastData =
  rb_port :: u16
  rb_size :: u8
  rb_data :: "u8 list"

definition no_data :: RadioBroadcastData where
  "no_data = \<lparr>rb_port = 0, rb_size = 0, rb_data = replicate 254 0\<rparr>"

record ports =
  POWER_MODULE_INA_DATA_PORT :: u16
  RADIO_MODULE_GNSS_DATA_PORT :: u16
  SENSOR_MODULE_TELEMETRY_PORT :: u16
  RADIO_MODULE_COMMAND_PORT :: u16
  RADIO_MODULE_COMMAND_RESPONSE_PORT :: u16
  RADIO_MODULE_DATA_REQUEST_PORT :: u16

record 'h transmit_tenant =
  tx_sm :: state_machine
  lora :: "'h lora"
  portDataMap :: "(u16, RadioBroadcastData) hashmap"
  padDataRequestedMap :: "(u16, bool) hashmap"

definition insert_all :: "'k list \<Rightarrow> 'v \<Rightarrow> ('k, 'v) hashmap \<Rightarrow> (bool \<times> ('k, 'v) hashmap) option" where
  "insert_all ks v m =
     foldl (\<lambda>r k. Option.bind r (\<lambda>(success, m). map_option (\<lambda>(b, m). (success \<and> b, m)) (hm_Insert True k v m))) (Some (True, m)) ks"

definition listened :: "ports \<Rightarrow> u16 list" where
  "listened ps = [POWER_MODULE_INA_DATA_PORT ps, RADIO_MODULE_GNSS_DATA_PORT ps, SENSOR_MODULE_TELEMETRY_PORT ps]"

definition tx_Startup :: "ports \<Rightarrow> 'h transmit_tenant \<Rightarrow> 'h transmit_tenant option" where
  "tx_Startup ps t =
     Option.bind (insert_all (listened ps) no_data (portDataMap t)) (\<lambda>(s1, pm).
     Option.bind (insert_all (listened ps) False (padDataRequestedMap t)) (\<lambda>(s2, rm).
       if \<not> (s1 \<and> s2) then None else Some (t\<lparr>portDataMap := pm, padDataRequestedMap := rm\<rparr>)))"

definition transmit :: "'h radio_ops \<Rightarrow> RadioBroadcastData \<Rightarrow> 'h lora \<Rightarrow> 'h lora option" where
  "transmit ops data l =
     (let sz = unat (rb_size data) in
      if sz > 256 - 2 then None
      else if sz = 0 then Some l
      else
        let txData = [ucast (rb_port data), ucast (drop_bit 8 (rb_port data))] @ take sz (rb_data data)
        in Some (snd (lora_TransmitSynchronous ops txData l)))"

text \<open>\<open>rx\<close> is what the queue of packets gives, if anything, within the timeout.\<close>

definition serve_request :: "'h radio_ops \<Rightarrow> u16 \<Rightarrow> 'h transmit_tenant \<Rightarrow> 'h transmit_tenant option" where
  "serve_request ops port t =
     (if hm_Get port (padDataRequestedMap t) = Some True then
        let data = (case hm_Get port (portDataMap t) of None \<Rightarrow> no_data | Some d \<Rightarrow> d) in
        if port = 0 then Some t
        else Option.bind (transmit ops data (lora t)) (\<lambda>l.
          map_option (\<lambda>m. t\<lparr>lora := l, padDataRequestedMap := m\<rparr>) (hm_index_put port False (padDataRequestedMap t)))
      else Some t)"

definition tx_PadRun :: "'h radio_ops \<Rightarrow> RadioBroadcastData option \<Rightarrow> 'h transmit_tenant \<Rightarrow> 'h transmit_tenant option" where
  "tx_PadRun ops rx t =
     (let rxData = (case rx of None \<Rightarrow> no_data | Some d \<Rightarrow> d);
          t = t\<lparr>portDataMap := snd (hm_Set (rb_port rxData) rxData (portDataMap t))\<rparr>
      in fold_opt (serve_request ops) (hm_keys (padDataRequestedMap t)) t)"

definition tx_send :: "'h radio_ops \<Rightarrow> RadioBroadcastData \<Rightarrow> 'h transmit_tenant \<Rightarrow> 'h transmit_tenant option" where
  "tx_send ops data t = map_option (\<lambda>l. t\<lparr>lora := l\<rparr>) (transmit ops data (lora t))"

definition tx_FlightRun :: "'h radio_ops \<Rightarrow> RadioBroadcastData option \<Rightarrow> 'h transmit_tenant \<Rightarrow> 'h transmit_tenant option" where
  "tx_FlightRun ops rx t = (case rx of None \<Rightarrow> Some t | Some d \<Rightarrow> tx_send ops d t)"

definition tx_LandedRun ::
  "ports \<Rightarrow> 'h radio_ops \<Rightarrow> RadioBroadcastData option \<Rightarrow> 'h transmit_tenant \<Rightarrow> 'h transmit_tenant option" where
  "tx_LandedRun ps ops rx t =
     (case rx of None \<Rightarrow> Some t | Some d \<Rightarrow> if rb_port d = RADIO_MODULE_GNSS_DATA_PORT ps then tx_send ops d t else Some t)"

definition tx_GroundRun :: "'h radio_ops \<Rightarrow> RadioBroadcastData option \<Rightarrow> 'h transmit_tenant \<Rightarrow> 'h transmit_tenant option" where
  "tx_GroundRun ops rx t = (case rx of None \<Rightarrow> Some t | Some d \<Rightarrow> tx_send ops d t)"

text \<open>One turn; the handler runs before the state changes.\<close>

definition tx_Run ::
  "ports \<Rightarrow> 'h radio_ops \<Rightarrow> bool \<Rightarrow> bool \<Rightarrow> bool \<Rightarrow> RadioBroadcastData option \<Rightarrow> 'h transmit_tenant \<Rightarrow> 'h transmit_tenant option" where
  "tx_Run ps ops receiver boost landing rx t =
     (case Clock (sm_inputs receiver boost landing (tx_sm t)) of
        (s, sm) \<Rightarrow>
          map_option (\<lambda>t. t\<lparr>tx_sm := sm\<rparr>)
            (case s of PAD \<Rightarrow> tx_PadRun ops rx t | FLIGHT \<Rightarrow> tx_FlightRun ops rx t
                     | LANDED \<Rightarrow> tx_LandedRun ps ops rx t | GROUND \<Rightarrow> tx_GroundRun ops rx t))"


subsection \<open>The receiving tenant\<close>

text \<open>\<open>shutoff_running\<close> is the flag of the timer that turns the cameras off.\<close>

record receive_tenant =
  rx_sm :: state_machine
  udp :: udp_socket
  shutoff_running :: bool
  camerasTurnedOff :: bool

text \<open>The port is \<open>None\<close> where \<open>*port\<close> is left alone; the buffer has 255 bytes.\<close>

definition rx_receive :: "'h radio_ops \<Rightarrow> 'h transmit_tenant \<Rightarrow> int \<times> u8 list \<times> u16 option \<times> 'h transmit_tenant" where
  "rx_receive ops t =
     (case lora_ReceiveSynchronous ops 255 (lora t) of
        (sz, bytes, l) \<Rightarrow>
          let buffer = take 255 (bytes @ replicate 255 0) in
          if sz \<le> 0 then (sz, buffer, None, t\<lparr>lora := l\<rparr>)
          else (sz, buffer, Some (push_bit 8 (ucast (buffer ! 1)) OR ucast (buffer ! 0)), t\<lparr>lora := l\<rparr>))"

definition set_pins :: "'h radio_ops \<Rightarrow> (nat \<Rightarrow> bool) \<Rightarrow> 'h \<Rightarrow> 'h" where
  "set_pins ops on h = fold (\<lambda>i h. snd (gpio_pin_set ops i (if on i then 1 else 0) h)) [0..<4] h"

definition pin_status :: "'h radio_ops \<Rightarrow> 'h \<Rightarrow> u8" where
  "pin_status ops h =
     word_of_int (gpio_pin_get ops 0 h) OR push_bit 1 (word_of_int (gpio_pin_get ops 1 h)) OR
     push_bit 2 (word_of_int (gpio_pin_get ops 2 h)) OR push_bit 3 (word_of_int (gpio_pin_get ops 3 h))"

definition rx_command ::
  "ports \<Rightarrow> 'h radio_ops \<Rightarrow> int \<Rightarrow> u8 list \<Rightarrow> 'h transmit_tenant \<Rightarrow> 'h transmit_tenant option" where
  "rx_command ps ops rxSize buffer t =
     (let h = set_pins ops (bit (buffer ! 2)) (hw (lora t));
          t = t\<lparr>lora := (lora t)\<lparr>hw := h\<rparr>\<rparr>;
          pinStatus = no_data\<lparr>rb_port := RADIO_MODULE_COMMAND_RESPONSE_PORT ps, rb_size := word_of_int rxSize,
                              rb_data := (rb_data no_data)[0 := pin_status ops h]\<rparr>
      in tx_send ops pinStatus t)"

definition request_port :: "u8 list \<Rightarrow> nat \<Rightarrow> 'h transmit_tenant \<Rightarrow> 'h transmit_tenant option" where
  "request_port buffer i t =
     Option.bind (arr_get buffer i) (\<lambda>hi. Option.bind (arr_get buffer (i + 1)) (\<lambda>lo.
       map_option (\<lambda>m. t\<lparr>padDataRequestedMap := m\<rparr>)
         (hm_index_put (push_bit 8 (ucast hi) OR ucast lo) True (padDataRequestedMap t))))"

definition rx_data_request :: "int \<Rightarrow> u8 list \<Rightarrow> 'h transmit_tenant \<Rightarrow> 'h transmit_tenant option" where
  "rx_data_request rxSize buffer t = fold_opt (request_port buffer) (map (\<lambda>j. 2 + 2 * j) [0..<nat (rxSize - 1) div 2]) t"

definition forward ::
  "'n net_ops \<Rightarrow> u16 \<Rightarrow> u8 list \<Rightarrow> receive_tenant \<times> 'n udp_world \<Rightarrow> receive_tenant \<times> 'n udp_world" where
  "forward nops port data rw =
     (case rw of (r, w) \<Rightarrow>
      let r = r\<lparr>udp := SetDstPort (uint port) (udp r)\<rparr> in (r, snd (TransmitAsynchronous nops (udp r) data w)))"

definition rx_PadRun ::
  "ports \<Rightarrow> 'h radio_ops \<Rightarrow> 'n net_ops \<Rightarrow> 'h transmit_tenant \<times> receive_tenant \<times> 'n udp_world \<Rightarrow>
     ('h transmit_tenant \<times> receive_tenant \<times> 'n udp_world) option" where
  "rx_PadRun ps ops nops trw =
     (case trw of (t, r, w) \<Rightarrow>
      case rx_receive ops t of
        (rxSize, buffer, port, t) \<Rightarrow>
          case port of
            None \<Rightarrow> Some (t, r, w)
          | Some port \<Rightarrow>
              if rxSize > 2 then
                if port = RADIO_MODULE_COMMAND_PORT ps then
                  map_option (\<lambda>t. (t, r, w)) (rx_command ps ops rxSize buffer t)
                else if port = RADIO_MODULE_DATA_REQUEST_PORT ps then
                  map_option (\<lambda>t. (t, r, w)) (rx_data_request rxSize buffer t)
                else Some (t, forward nops port (take (nat (rxSize - 2)) (drop 2 buffer)) (r, w))
              else Some (t, r, w))"

definition rx_LandedRun :: "receive_tenant \<Rightarrow> receive_tenant" where
  "rx_LandedRun r =
     (let r = (if \<not> shutoff_running r \<and> \<not> camerasTurnedOff r then r\<lparr>shutoff_running := True\<rparr> else r) in
      if shutoff_running r \<and> camerasTurnedOff r then r\<lparr>shutoff_running := False\<rparr> else r)"

definition rx_GroundRun ::
  "'h radio_ops \<Rightarrow> 'n net_ops \<Rightarrow> 'h transmit_tenant \<times> receive_tenant \<times> 'n udp_world \<Rightarrow>
     'h transmit_tenant \<times> receive_tenant \<times> 'n udp_world" where
  "rx_GroundRun ops nops trw =
     (case trw of (t, r, w) \<Rightarrow>
      case rx_receive ops t of
        (rxSize, buffer, port, t) \<Rightarrow>
          case port of None \<Rightarrow> (t, r, w) | Some port \<Rightarrow> (t, forward nops port (take (nat rxSize) buffer) (r, w)))"

definition rx_Run ::
  "ports \<Rightarrow> 'h radio_ops \<Rightarrow> 'n net_ops \<Rightarrow> bool \<Rightarrow> bool \<Rightarrow> bool \<Rightarrow> 'h transmit_tenant \<times> receive_tenant \<times> 'n udp_world \<Rightarrow>
     ('h transmit_tenant \<times> receive_tenant \<times> 'n udp_world) option" where
  "rx_Run ps ops nops receiver boost landing trw =
     (case trw of (t, r, w) \<Rightarrow>
      case Clock (sm_inputs receiver boost landing (rx_sm r)) of
        (s, sm) \<Rightarrow>
          map_option (\<lambda>(t, r, w). (t, r\<lparr>rx_sm := sm\<rparr>, w))
            (case s of PAD \<Rightarrow> rx_PadRun ps ops nops (t, r, w) | FLIGHT \<Rightarrow> Some (t, r, w)
                     | LANDED \<Rightarrow> Some (t, rx_LandedRun r, w) | GROUND \<Rightarrow> Some (rx_GroundRun ops nops (t, r, w))))"

text \<open>The timer expires: the four pins go off.\<close>

definition shutoffTimerExpirationFn :: "'h radio_ops \<Rightarrow> 'h transmit_tenant \<times> receive_tenant \<Rightarrow> 'h transmit_tenant \<times> receive_tenant" where
  "shutoffTimerExpirationFn ops tr =
     (case tr of (t, r) \<Rightarrow>
      (t\<lparr>lora := (lora t)\<lparr>hw := set_pins ops (\<lambda>_. False) (hw (lora t))\<rparr>\<rparr>, r\<lparr>camerasTurnedOff := True\<rparr>))"

subsection \<open>Alerts\<close>

definition MAGIC_BYTE_SIGNATURE :: "u8 list" where "MAGIC_BYTE_SIGNATURE = [0x4C, 0x41, 0x55, 0x4E, 0x43, 0x48]"
definition ALERT_PACKET_SIZE :: nat where "ALERT_PACKET_SIZE = 8"
definition BOOST :: u16 where "BOOST = 0x62"
definition LANDED_ALERT :: u16 where "LANDED_ALERT = 0x6C"

text \<open>\<open>CUdpAlertTenant::Run\<close>: the alert handed to the observers, if any.\<close>

definition alert_Run :: "'n net_ops \<Rightarrow> udp_socket \<Rightarrow> 'n udp_world \<Rightarrow> u16 option \<times> 'n udp_world" where
  "alert_Run nops u w =
     (case ReceiveAsynchronous nops u ALERT_PACKET_SIZE w of
        (ret, bytes, port, w) \<Rightarrow>
          let buff = take ALERT_PACKET_SIZE (bytes @ replicate ALERT_PACKET_SIZE 0) in
          if ret > 0 \<and> take 6 buff = MAGIC_BYTE_SIGNATURE then (Some (ucast (buff ! 6)), w) else (None, w))"

text \<open>
  The globals of the state machine header are static, so every source file has its own: the
  updater sets one pair, each tenant reads another.
\<close>

record ('h, 'n) radio_module =
  tt :: "'h transmit_tenant"
  rt :: receive_tenant
  world :: "'n udp_world"
  updater_globals :: "bool \<times> bool"
  transmit_globals :: "bool \<times> bool"
  receive_globals :: "bool \<times> bool"

definition updater_Notify :: "u16 \<Rightarrow> ('h, 'n) radio_module \<Rightarrow> ('h, 'n) radio_module" where
  "updater_Notify alert s =
     (if alert = BOOST then s\<lparr>updater_globals := (True, snd (updater_globals s))\<rparr>
      else if alert = LANDED_ALERT then s\<lparr>updater_globals := (fst (updater_globals s), True)\<rparr>
      else s)"

definition radio_start ::
  "ports \<Rightarrow> 'h radio_ops \<Rightarrow> 'h \<Rightarrow> udp_socket \<Rightarrow> 'n udp_world \<Rightarrow> ('h, 'n) radio_module option" where
  "radio_start ps ops h u w =
     map_option (\<lambda>t. \<lparr>tt = t,
         rt = \<lparr>rx_sm = sm_new, udp = u, shutoff_running = False, camerasTurnedOff = False\<rparr>, world = w,
         updater_globals = (False, False), transmit_globals = (False, False), receive_globals = (False, False)\<rparr>)
       (tx_Startup ps \<lparr>tx_sm = sm_new, lora = lora_new ops h, portDataMap = hm_new, padDataRequestedMap = hm_new\<rparr>)"

inductive radio_step ::
  "ports \<Rightarrow> 'h radio_ops \<Rightarrow> 'n net_ops \<Rightarrow> bool \<Rightarrow> ('h, 'n) radio_module \<Rightarrow> ('h, 'n) radio_module \<Rightarrow> bool"
  for ps ops nops receiver where
  transmit_turn: "tx_Run ps ops receiver (fst (transmit_globals s)) (snd (transmit_globals s)) rx (tt s) = Some t \<Longrightarrow>
     radio_step ps ops nops receiver s (s\<lparr>tt := t\<rparr>)"
| receive_turn: "rx_Run ps ops nops receiver (fst (receive_globals s)) (snd (receive_globals s)) (tt s, rt s, world s) = Some (t, r, w) \<Longrightarrow>
     radio_step ps ops nops receiver s (s\<lparr>tt := t, rt := r, world := w\<rparr>)"
| alert_turn: "alert_Run nops u (world s) = (Some alert, w) \<Longrightarrow>
     radio_step ps ops nops receiver s (updater_Notify alert (s\<lparr>world := w\<rparr>))"
| shutoff: "shutoff_running (rt s) \<Longrightarrow> shutoffTimerExpirationFn ops (tt s, rt s) = (t, r) \<Longrightarrow>
     radio_step ps ops nops receiver s (s\<lparr>tt := t, rt := r\<rparr>)"

inductive radio_reachable ::
  "ports \<Rightarrow> 'h radio_ops \<Rightarrow> 'n net_ops \<Rightarrow> bool \<Rightarrow> ('h, 'n) radio_module \<Rightarrow> bool" for ps ops nops receiver where
  start: "radio_start ps ops h u w = Some s \<Longrightarrow> radio_reachable ps ops nops receiver s"
| steps: "radio_reachable ps ops nops receiver s \<Longrightarrow> radio_step ps ops nops receiver s s' \<Longrightarrow>
     radio_reachable ps ops nops receiver s'"


subsection \<open>The tenants stay on the pad\<close>

lemma tx_send_sm: "tx_send ops d t = Some t' \<Longrightarrow> tx_sm t' = tx_sm t"
  by (auto simp: tx_send_def)

lemma rx_receive_sm: "rx_receive ops t = (a, b, c, t') \<Longrightarrow> tx_sm t' = tx_sm t"
  by (auto simp: rx_receive_def Let_def split: prod.splits if_splits)

lemma rx_data_request_sm:
  assumes "rx_data_request n buffer t = Some t'"
  shows "tx_sm t' = tx_sm t"
proof -
  have "fold_opt (request_port buffer) is t = Some t' \<Longrightarrow> tx_sm t' = tx_sm t" for "is"
    by (induction "is" arbitrary: t) (auto simp: request_port_def arr_get_def split: option.splits if_splits)
  then show ?thesis using assms by (simp add: rx_data_request_def)
qed

lemma rx_PadRun_sm: "rx_PadRun ps ops nops (t, r, w) = Some (t', r', w') \<Longrightarrow> tx_sm t' = tx_sm t"
  by (auto simp: rx_PadRun_def rx_command_def Let_def dest!: rx_receive_sm rx_data_request_sm tx_send_sm
      split: prod.splits option.splits if_splits)

definition on_pad :: "state_machine \<Rightarrow> bool" where
  "on_pad sm \<longleftrightarrow> state sm = PAD \<and> \<not> isGroundModule sm"

lemma on_pad_Clock: "on_pad sm \<Longrightarrow> Clock (sm_inputs False False landing sm) = (PAD, sm\<lparr>boostDetected := False, landingDetected := landing\<rparr>)"
  by (simp add: on_pad_def Clock_def sm_inputs_def Let_def)

definition module_on_pad :: "('h, 'n) radio_module \<Rightarrow> bool" where
  "module_on_pad s \<longleftrightarrow> on_pad (tx_sm (tt s)) \<and> on_pad (rx_sm (rt s)) \<and>
     transmit_globals s = (False, False) \<and> receive_globals s = (False, False)"

lemma module_on_pad_start: "radio_start ps ops h u w = Some s \<Longrightarrow> module_on_pad s"
  by (auto simp: radio_start_def tx_Startup_def module_on_pad_def on_pad_def sm_new_def split: Option.bind_splits if_splits)

lemma module_on_pad_step:
  assumes "radio_step ps ops nops False s s'" "module_on_pad s"
  shows "module_on_pad s'"
  using assms(1)
proof (cases rule: radio_step.cases)
  case (transmit_turn rx t)
  have "tx_sm t = (tx_sm (tt s))\<lparr>boostDetected := False, landingDetected := False\<rparr>"
    using transmit_turn(2) assms(2) on_pad_Clock [of "tx_sm (tt s)"] by (auto simp: module_on_pad_def tx_Run_def)
  then show ?thesis using transmit_turn(1) assms(2) by (simp add: module_on_pad_def on_pad_def)
next
  case (receive_turn t r w)
  obtain t1 r1 w1 where 1: "rx_PadRun ps ops nops (tt s, rt s, world s) = Some (t1, r1, w1)" "t = t1"
    "r = r1\<lparr>rx_sm := (rx_sm (rt s))\<lparr>boostDetected := False, landingDetected := False\<rparr>\<rparr>"
    using receive_turn(2) assms(2) on_pad_Clock [of "rx_sm (rt s)"] by (auto simp: module_on_pad_def rx_Run_def)
  then show ?thesis using receive_turn(1) assms(2) rx_PadRun_sm [OF 1(1)] by (simp add: module_on_pad_def on_pad_def)
next
  case (alert_turn u alert w)
  then show ?thesis using assms(2) by (auto simp: module_on_pad_def updater_Notify_def)
next
  case (shutoff t r)
  then show ?thesis using assms(2) by (auto simp: module_on_pad_def shutoffTimerExpirationFn_def)
qed

lemma radio_reachable_on_pad: "radio_reachable ps ops nops False s \<Longrightarrow> module_on_pad s"
  by (induction rule: radio_reachable.induct) (auto intro: module_on_pad_start module_on_pad_step)

subsection \<open>Requests and commands\<close>

definition packet :: "RadioBroadcastData \<Rightarrow> u8 list" where
  "packet d = [ucast (rb_port d), ucast (drop_bit 8 (rb_port d))] @ take (unat (rb_size d)) (rb_data d)"

text \<open>A modem that works and sends what it is given.\<close>

definition modem_sends :: "'h radio_ops \<Rightarrow> ('h \<Rightarrow> u8 list list) \<Rightarrow> bool" where
  "modem_sends ops sent \<longleftrightarrow>
     (\<forall>b h. fst (lora_config ops b h) = 0 \<and> sent (snd (lora_config ops b h)) = sent h) \<and>
     (\<forall>data h. sent (snd (lora_send ops data h)) = sent h @ [data])"

lemma lora_sends:
  assumes "modem_sends ops sent"
  shows "sent (hw (snd (lora_TransmitSynchronous ops data l))) = sent (hw l) @ [data]"
proof -
  obtain ret l1 where 1: "setTxRx ops True l = (ret, l1)" by fastforce
  then have "ret = 0" "sent (hw l1) = sent (hw l)"
    using assms by (auto simp: setTxRx_def modem_sends_def split: if_splits prod.splits) (metis fst_conv snd_conv)+
  then show ?thesis using 1 assms by (auto simp: lora_TransmitSynchronous_def modem_sends_def split: prod.splits)
      (metis snd_conv)
qed

lemma transmit_sends:
  assumes "modem_sends ops sent" "unat (rb_size d) \<le> 254"
  shows "\<exists>l'. transmit ops d l = Some l' \<and> sent (hw l') = sent (hw l) @ (if rb_size d = 0 then [] else [packet d])"
  using lora_sends [OF assms(1), of "packet d" l] assms(2)
  by (auto simp: transmit_def packet_def Let_def unat_eq_0)

text \<open>The latest data of a port, empty when there is none.\<close>

definition latest :: "u16 \<Rightarrow> 'h transmit_tenant \<Rightarrow> RadioBroadcastData" where
  "latest port t = (case hm_Get port (portDataMap t) of None \<Rightarrow> no_data | Some d \<Rightarrow> d)"

definition answers :: "'h transmit_tenant \<Rightarrow> u16 list \<Rightarrow> u8 list list" where
  "answers t keys = concat (map (\<lambda>p. if hm_Get p (padDataRequestedMap t) = Some True \<and> p \<noteq> 0 \<and> rb_size (latest p t) \<noteq> 0
     then [packet (latest p t)] else []) keys)"

lemma serve_request_sends:
  assumes "modem_sends ops sent" "\<forall>p. unat (rb_size (latest p t)) \<le> 254" "hm_ok (padDataRequestedMap t)"
  shows "\<exists>t'. serve_request ops p t = Some t' \<and> portDataMap t' = portDataMap t \<and> hm_ok (padDataRequestedMap t') \<and>
    (\<forall>q. hm_Get q (padDataRequestedMap t') = (if q = p \<and> p \<noteq> 0 \<and> hm_Get p (padDataRequestedMap t) = Some True then Some False
       else hm_Get q (padDataRequestedMap t))) \<and>
    sent (hw (lora t')) = sent (hw (lora t)) @ answers t [p]"
proof (cases "hm_Get p (padDataRequestedMap t) = Some True \<and> p \<noteq> 0")
  case True
  obtain l' where l': "transmit ops (latest p t) (lora t) = Some l'"
    "sent (hw l') = sent (hw (lora t)) @ (if rb_size (latest p t) = 0 then [] else [packet (latest p t)])"
    using transmit_sends [OF assms(1) spec [OF assms(2), of p], of "lora t"] by blast
  have c: "hm_Contains p (padDataRequestedMap t)" using True by (simp add: hm_Contains_def hm_Get_def)
  let ?m = "(padDataRequestedMap t)\<lparr>entries := AList.update p False (entries (padDataRequestedMap t))\<rparr>"
  have m: "hm_ok ?m" "hm_abs ?m = (hm_abs (padDataRequestedMap t))(p \<mapsto> False)"
    using hm_update_ok [OF assms(3) c, of False] by blast+
  have "serve_request ops p t = Some (t\<lparr>lora := l', padDataRequestedMap := ?m\<rparr>)"
    using True l'(1) c by (simp add: serve_request_def latest_def hm_index_put_def Let_def)
  moreover have "hm_Get q ?m = (if q = p then Some False else hm_Get q (padDataRequestedMap t))" for q
    using fun_cong [OF m(2), of q] by (simp add: hm_Get_def hm_abs_def)
  ultimately show ?thesis using True l'(2) m(1) by (auto simp: answers_def)
next
  case False
  then have "serve_request ops p t = Some t" by (auto simp: serve_request_def Let_def)
  then show ?thesis using False assms(3) by (auto simp: answers_def)
qed

lemma serve_all_sends:
  assumes "modem_sends ops sent" "\<forall>p. unat (rb_size (latest p t)) \<le> 254" "hm_ok (padDataRequestedMap t)" "distinct keys"
  shows "\<exists>t'. fold_opt (serve_request ops) keys t = Some t' \<and> portDataMap t' = portDataMap t \<and>
    (\<forall>q. hm_Get q (padDataRequestedMap t') = (if q \<in> set keys \<and> q \<noteq> 0 \<and> hm_Get q (padDataRequestedMap t) = Some True then Some False
       else hm_Get q (padDataRequestedMap t))) \<and>
    sent (hw (lora t')) = sent (hw (lora t)) @ answers t keys"
  using assms(2-4)
proof (induction keys arbitrary: t)
  case Nil
  then show ?case by (simp add: answers_def)
next
  case (Cons p keys)
  obtain t1 where 1: "serve_request ops p t = Some t1" "portDataMap t1 = portDataMap t" "hm_ok (padDataRequestedMap t1)"
    "\<forall>q. hm_Get q (padDataRequestedMap t1) = (if q = p \<and> p \<noteq> 0 \<and> hm_Get p (padDataRequestedMap t) = Some True then Some False
       else hm_Get q (padDataRequestedMap t))"
    "sent (hw (lora t1)) = sent (hw (lora t)) @ answers t [p]"
    using serve_request_sends [OF assms(1) Cons.prems(1,2), of p] by blast
  have l: "latest q t1 = latest q t" for q using 1(2) by (simp add: latest_def)
  have "answers t1 keys = answers t keys"
    unfolding answers_def l using Cons.prems(3) 1(4) by (intro arg_cong [where f = concat] map_cong) auto
  moreover have "answers t (p # keys) = answers t [p] @ answers t keys" by (simp add: answers_def)
  moreover obtain t2 where "fold_opt (serve_request ops) keys t1 = Some t2" "portDataMap t2 = portDataMap t1"
    "\<forall>q. hm_Get q (padDataRequestedMap t2) = (if q \<in> set keys \<and> q \<noteq> 0 \<and> hm_Get q (padDataRequestedMap t1) = Some True then Some False
       else hm_Get q (padDataRequestedMap t1))"
    "sent (hw (lora t2)) = sent (hw (lora t1)) @ answers t1 keys"
    using Cons.IH [of t1] Cons.prems 1(3) l by auto
  ultimately show ?case using 1 by auto
qed


subsection \<open>Properties\<close>

text \<open>A modem, pins and a network in memory: what was sent and the next packet, the pins.\<close>

definition example_radio :: "(u8 list list \<times> u8 list \<times> (nat \<Rightarrow> bool)) radio_ops" where
  "example_radio = \<lparr>lora_config = \<lambda>_ h. (0, h), lora_send = \<lambda>data h. (0, fst h @ [data], snd h),
     lora_recv = \<lambda>_ h. (int (length (fst (snd h))), fst (snd h), h),
     gpio_pin_set = \<lambda>i v h. (0, fst h, fst (snd h), (snd (snd h))(i := v \<noteq> 0)),
     gpio_pin_get = \<lambda>i h. if snd (snd h) i then 1 else 0\<rparr>"

definition alert_net :: "u8 list net_ops" where
  "alert_net = \<lparr>zsock_socket = \<lambda>n. (3, n), zsock_bind = \<lambda>_ _ n. (0, n), zsock_close = \<lambda>_ n. n,
     zsock_getfl = \<lambda>_ n. (0, n), zsock_setfl = \<lambda>_ _ n. (0, n), zsock_sendto = \<lambda>_ data _ n. (int (length data), n),
     zsock_recvfrom = \<lambda>_ _ n. (int (length n), n, 0, n), zsock_set_timeo = \<lambda>_ _ _ n. (0, n), errno = \<lambda>_. EAGAIN,
     k_uptime_get_32 = \<lambda>_. 5000, k_msleep = \<lambda>_ n. n, O_NONBLOCK = 0x4000\<rparr>"

definition example_ports :: ports where
  "example_ports = \<lparr>POWER_MODULE_INA_DATA_PORT = 10, RADIO_MODULE_GNSS_DATA_PORT = 11, SENSOR_MODULE_TELEMETRY_PORT = 12,
     RADIO_MODULE_COMMAND_PORT = 13, RADIO_MODULE_COMMAND_RESPONSE_PORT = 14, RADIO_MODULE_DATA_REQUEST_PORT = 15\<rparr>"

text \<open>
  C11: the flight build of the radio module never leaves the pad state. The flags of boost and
  landing are static variables of a header, so the copies the updater sets on an alert are not
  the copies the tenants read: in every reachable state, alerts received or not, both tenants
  are on the pad.
\<close>

theorem radio_module_stays_on_pad:
  assumes "radio_reachable ps ops nops False s"
  shows "state (tx_sm (tt s)) = PAD \<and> state (rx_sm (rt s)) = PAD"
  using radio_reachable_on_pad [OF assms] by (simp add: module_on_pad_def on_pad_def)

theorem radio_module_stays_on_pad_witness:
  "\<exists>s. radio_reachable example_ports example_radio alert_net False s \<and> fst (updater_globals s) \<and>
    state (tx_sm (tt s)) = PAD \<and> state (rx_sm (rt s)) = PAD"
proof -
  let ?u = "\<lparr>sock = 3, dstPort = 9\<rparr>" and ?w = "\<lparr>sync_addr = None, async_addr = None, net = MAGIC_BYTE_SIGNATURE @ [0x62, 0]\<rparr>"
  obtain s where s: "radio_start example_ports example_radio ([], [], \<lambda>_. False) ?u ?w = Some s" "world s = ?w"
    by (simp add: radio_start_def tx_Startup_def insert_all_def listened_def example_ports_def hm_Insert_def hm_new_def
        hm_Contains_def Let_def)
  have "alert_Run alert_net ?u ?w = (Some BOOST, ?w)"
    by (simp add: alert_Run_def ReceiveAsynchronous_def set_nonblock_def alert_net_def MAGIC_BYTE_SIGNATURE_def
        ALERT_PACKET_SIZE_def BOOST_def)
  then have "radio_step example_ports example_radio alert_net False s (updater_Notify BOOST (s\<lparr>world := ?w\<rparr>))"
    using radio_step.alert_turn [of alert_net ?u s BOOST ?w] s(2) by simp
  then have r: "radio_reachable example_ports example_radio alert_net False (updater_Notify BOOST (s\<lparr>world := ?w\<rparr>))"
    using radio_reachable.start [OF s(1)] radio_reachable.steps by blast
  moreover have "fst (updater_globals (updater_Notify BOOST (s\<lparr>world := ?w\<rparr>)))" by (simp add: updater_Notify_def)
  ultimately show ?thesis using radio_module_stays_on_pad [OF r] by blast
qed

text \<open>
  C26: on the pad one turn of the transmitter answers all requests that are set: it sends, in the
  order of the map, one packet with the latest data of every requested port that has data, the
  data just taken from the queue included, and no request stays set.
\<close>

theorem pad_requests_answered:
  assumes "modem_sends ops sent" "hm_ok (padDataRequestedMap t)"
    and "t0 = t\<lparr>portDataMap := snd (hm_Set (rb_port d) d (portDataMap t))\<rparr>"
    and "\<forall>p. unat (rb_size (latest p t0)) \<le> 254" "0 \<notin> set (hm_keys (padDataRequestedMap t))"
  shows "\<exists>t'. tx_PadRun ops (Some d) t = Some t' \<and>
    sent (hw (lora t')) = sent (hw (lora t)) @ answers t0 (hm_keys (padDataRequestedMap t)) \<and>
    (\<forall>q. hm_Get q (padDataRequestedMap t') \<noteq> Some True)"
proof -
  let ?keys = "hm_keys (padDataRequestedMap t)"
  have t0: "padDataRequestedMap t0 = padDataRequestedMap t" "lora t0 = lora t" using assms(3) by simp_all
  have k: "distinct ?keys" "hm_ok (padDataRequestedMap t0)" using assms(2) t0 by (auto simp: hm_ok_def)
  obtain t' where t': "fold_opt (serve_request ops) ?keys t0 = Some t'" "sent (hw (lora t')) = sent (hw (lora t0)) @ answers t0 ?keys"
    "\<forall>q. hm_Get q (padDataRequestedMap t') = (if q \<in> set ?keys \<and> q \<noteq> 0 \<and> hm_Get q (padDataRequestedMap t0) = Some True then Some False
       else hm_Get q (padDataRequestedMap t0))"
    using serve_all_sends [OF assms(1,4) k(2,1)] by blast
  have "q \<in> set ?keys" if "hm_Get q (padDataRequestedMap t0) = Some True" for q
    using that hm_Contains_iff(2) [of q "padDataRequestedMap t"] t0(1) by (simp add: hm_Get_def hm_Contains_def)
  then have "hm_Get q (padDataRequestedMap t') \<noteq> Some True" for q using t'(3) assms(5) by (metis option.inject)
  moreover have "tx_PadRun ops (Some d) t = Some t'" using t'(1) assms(3) t0(1) by (simp add: tx_PadRun_def Let_def)
  ultimately show ?thesis using t'(2) t0(2) by auto
qed

text \<open>
  A command sets the four pins to the low bits of its third byte, and the response, sent at
  once to the response port with the size of the command, reports the pins.
\<close>

theorem lora_command_sets_pins:
  assumes "modem_sends ops sent" "2 < rxSize" "rxSize \<le> 254" "length buffer = 255"
    and pins: "\<And>i v h. pins (snd (gpio_pin_set ops i v h)) = (pins h)(i := v \<noteq> 0)" "\<And>i h. gpio_pin_get ops i h = (if pins h i then 1 else 0)"
    and "\<And>i v h. sent (snd (gpio_pin_set ops i v h)) = sent h"
  shows "\<exists>t'. rx_command ps ops rxSize buffer t = Some t' \<and>
    sent (hw (lora t')) = sent (hw (lora t)) @
      [[ucast (RADIO_MODULE_COMMAND_RESPONSE_PORT ps), ucast (drop_bit 8 (RADIO_MODULE_COMMAND_RESPONSE_PORT ps)),
        take_bit 4 (buffer ! 2)] @ replicate (nat rxSize - 1) 0]"
proof -
  define h where "h = set_pins ops (bit (buffer ! 2)) (hw (lora t))"
  have four: "[0..<4] = [0, 1, 2, 3 :: nat]" by (simp add: upt_rec)
  have p: "pins h i = (if i < 4 then bit (buffer ! 2) i else pins (hw (lora t)) i)" for i
    by (auto simp: h_def set_pins_def four pins(1) eval_nat_numeral less_Suc_eq)
  have "sent h = sent (hw (lora t))" by (simp add: h_def set_pins_def four assms(7))
  moreover have "pin_status ops h = take_bit 4 (buffer ! 2)"
    by (rule bit_word_eqI) (auto simp: pin_status_def pins(2) p bit_simps eval_nat_numeral less_Suc_eq)
  moreover define d where "d = no_data\<lparr>rb_port := RADIO_MODULE_COMMAND_RESPONSE_PORT ps, rb_size := word_of_int rxSize,
      rb_data := (rb_data no_data)[0 := pin_status ops h]\<rparr>"
  have n: "unat (word_of_int rxSize :: u8) = nat rxSize" proof -
    have k: "rxSize = int (nat rxSize)" "nat rxSize < 2 ^ 8" using assms(2,3) by simp_all
    have "(word_of_int (int (nat rxSize)) :: u8) = of_nat (nat rxSize)" by simp
    then show ?thesis using k(2) unfolding k(1) [symmetric] by (simp add: unat_of_nat take_bit_nat_eq_self)
  qed
  have "take (nat rxSize) ((replicate 254 0)[0 := pin_status ops h]) = pin_status ops h # replicate (nat rxSize - 1) 0"
  proof -
    have "(replicate (Suc 253) (0 :: u8))[0 := pin_status ops h] = pin_status ops h # replicate 253 0" by (simp only: replicate_Suc list_update_code)
    moreover have "(254 :: nat) = Suc 253" by simp
    ultimately have r: "(replicate 254 (0 :: u8))[0 := pin_status ops h] = pin_status ops h # replicate 253 0" by (simp only:)
    obtain k where k: "nat rxSize = Suc k" "k \<le> 253" using assms(2,3) by (cases "nat rxSize") auto
    show ?thesis unfolding r k(1) take_Suc_Cons take_replicate min_absorb1 [OF k(2)] diff_Suc_1 by (rule refl)
  qed
  then have pk: "packet d = [ucast (RADIO_MODULE_COMMAND_RESPONSE_PORT ps), ucast (drop_bit 8 (RADIO_MODULE_COMMAND_RESPONSE_PORT ps)),
      pin_status ops h] @ replicate (nat rxSize - 1) 0"
    by (simp add: packet_def d_def no_data_def n)
  have "rb_size d \<noteq> 0" "unat (rb_size d) \<le> 254" using n assms(2,3) by (auto simp: d_def)
  then obtain l' where "transmit ops d ((lora t)\<lparr>hw := h\<rparr>) = Some l'" "sent (hw l') = sent h @ [packet d]"
    using transmit_sends [OF assms(1), of d "(lora t)\<lparr>hw := h\<rparr>"] by auto
  ultimately show ?thesis using pk by (simp add: rx_command_def tx_send_def Let_def d_def h_def)
qed


theorem lora_command_sets_pins_witness:
  "\<exists>t'. rx_command example_ports example_radio 3 ([13, 0, 0xF5] @ replicate 252 0)
      \<lparr>tx_sm = sm_new, lora = \<lparr>lora_tx = False, hw = ([], [], \<lambda>_. False)\<rparr>, portDataMap = hm_new, padDataRequestedMap = hm_new\<rparr> = Some t' \<and>
    fst (hw (lora t')) = [[14, 0, 5, 0, 0]]"
proof -
  have m: "modem_sends example_radio fst" by (simp add: modem_sends_def example_radio_def)
  have "take_bit 4 (0xF5 :: u8) = 5" by simp
  moreover have "replicate 2 (0 :: u8) = [0, 0]" by (simp add: numeral_2_eq_2)
  ultimately show ?thesis
    using lora_command_sets_pins [OF m, of 3 "[13, 0, 0xF5] @ replicate 252 0" "\<lambda>h. snd (snd h)" example_ports
        "\<lparr>tx_sm = sm_new, lora = \<lparr>lora_tx = False, hw = ([], [], \<lambda>_. False)\<rparr>, portDataMap = hm_new, padDataRequestedMap = hm_new\<rparr>"]
    by (simp add: example_radio_def example_ports_def)
qed

text \<open>The ports a data request names, high byte first.\<close>

definition requested :: "int \<Rightarrow> u8 list \<Rightarrow> u16 list" where
  "requested rxSize buffer =
     map (\<lambda>j. push_bit 8 (ucast (buffer ! (2 + 2 * j))) OR ucast (buffer ! (3 + 2 * j))) [0..<nat (rxSize - 1) div 2]"

lemma request_ports:
  assumes "length buffer = 255" "hm_ok (padDataRequestedMap t)"
    and "key = (\<lambda>j. push_bit 8 (ucast (buffer ! (2 + 2 * j))) OR ucast (buffer ! (3 + 2 * j)))" "\<forall>j\<in>set js. 3 + 2 * j < 255"
  shows "case fold_opt (request_port buffer) (map (\<lambda>j. 2 + 2 * j) js) t of
      None \<Rightarrow> \<exists>j\<in>set js. \<not> hm_Contains (key j) (padDataRequestedMap t)
    | Some t' \<Rightarrow> (\<forall>j\<in>set js. hm_Contains (key j) (padDataRequestedMap t)) \<and>
        (\<forall>q. hm_Get q (padDataRequestedMap t') = (if q \<in> key ` set js then Some True else hm_Get q (padDataRequestedMap t)))"
  using assms(2,4)
proof (induction js arbitrary: t)
  case (Cons j js)
  let ?m = "padDataRequestedMap t"
  have one: "request_port buffer (2 + 2 * j) t = map_option (\<lambda>m. t\<lparr>padDataRequestedMap := m\<rparr>) (hm_index_put (key j) True ?m)"
    using Cons.prems(2) assms(1,3) by (simp add: request_port_def numeral_3_eq_3)
  show ?case
  proof (cases "hm_Contains (key j) ?m")
    case True
    let ?m' = "?m\<lparr>entries := AList.update (key j) True (entries ?m)\<rparr>" and ?t = "t\<lparr>padDataRequestedMap :=
      ?m\<lparr>entries := AList.update (key j) True (entries ?m)\<rparr>\<rparr>"
    note up = hm_update_ok [OF Cons.prems(1) True, of True]
    have c: "hm_Contains q ?m' \<longleftrightarrow> hm_Contains q ?m" for q using hm_Contains_iff(2) [of q ?m'] hm_Contains_iff(2) [of q ?m] up(3) by simp
    have g: "hm_Get q ?m' = (if q = key j then Some True else hm_Get q ?m)" for q
      using fun_cong [OF up(2), of q] by (simp add: hm_Get_def hm_abs_def)
    have "request_port buffer (2 + 2 * j) t = Some ?t" using one True by (simp add: hm_index_put_def)
    moreover have "padDataRequestedMap ?t = ?m'" by simp
    ultimately show ?thesis using Cons.IH [of ?t] up(1) c g Cons.prems(2) True by (auto split: option.splits)
  next
    case False
    then show ?thesis using one by (simp add: hm_index_put_def)
  qed
qed simp

text \<open>
  C28: a data request of up to 254 bytes sets the flags of exactly the ports it names, when the
  map has them all; a single other port in a received packet ends the thread of the radio.
\<close>

theorem data_request_outcome:
  assumes "length buffer = 255" "hm_ok (padDataRequestedMap t)" "2 < rxSize" "rxSize \<le> 254"
  shows "case rx_data_request rxSize buffer t of
      None \<Rightarrow> \<exists>q\<in>set (requested rxSize buffer). \<not> hm_Contains q (padDataRequestedMap t)
    | Some t' \<Rightarrow> (\<forall>q\<in>set (requested rxSize buffer). hm_Contains q (padDataRequestedMap t)) \<and>
        (\<forall>q. hm_Get q (padDataRequestedMap t') =
           (if q \<in> set (requested rxSize buffer) then Some True else hm_Get q (padDataRequestedMap t)))"
proof -
  have "nat (rxSize - 1) div 2 \<le> 126" using assms(4) by simp
  then have "\<forall>j\<in>set [0..<nat (rxSize - 1) div 2]. 3 + 2 * j < 255" by auto
  from request_ports [OF assms(1,2) refl this] show ?thesis
    unfolding rx_data_request_def requested_def by (auto simp: image_iff split: option.splits)
qed

theorem data_request_outcome_witness:
  "rx_data_request 4 ([15, 0, 0, 99] @ replicate 251 0)
      \<lparr>tx_sm = sm_new, lora = \<lparr>lora_tx = False, hw = ()\<rparr>, portDataMap = hm_new, padDataRequestedMap = hm_new\<rparr> = None"
proof -
  let ?t = "\<lparr>tx_sm = sm_new, lora = \<lparr>lora_tx = False, hw = ()\<rparr>, portDataMap = hm_new, padDataRequestedMap = hm_new\<rparr>"
  have r: "requested 4 ([15, 0, 0, 99] @ replicate 251 0) = [99]" by (simp add: requested_def numeral_3_eq_3)
  have "\<not> hm_Contains q (hm_new :: (u16, bool) hashmap)" for q by (simp add: hm_Contains_def hm_new_def)
  then show ?thesis using data_request_outcome [of "[15, 0, 0, 99] @ replicate 251 0" ?t 4] r
    by (cases "rx_data_request 4 ([15, 0, 0, 99] @ replicate 251 0) ?t") (simp_all add: hm_ok_new(1))
qed

theorem pad_requests_answered_witness:
  "\<exists>t'. tx_PadRun example_radio (Some \<lparr>rb_port = 10, rb_size = 2, rb_data = [7, 8]\<rparr>)
      \<lparr>tx_sm = sm_new, lora = \<lparr>lora_tx = False, hw = ([], [], \<lambda>_. False)\<rparr>,
        portDataMap = \<lparr>entries = [(10, no_data), (11, no_data)], hm_size = 2, maxSizeReachedAtStartup = 2\<rparr>,
        padDataRequestedMap = \<lparr>entries = [(10, True), (11, True)], hm_size = 2, maxSizeReachedAtStartup = 2\<rparr>\<rparr> = Some t' \<and>
    fst (hw (lora t')) = [[10, 0, 7, 8]]"
proof -
  let ?t = "\<lparr>tx_sm = sm_new, lora = \<lparr>lora_tx = False, hw = ([] :: u8 list list, [] :: u8 list, \<lambda>_ :: nat. False)\<rparr>,
        portDataMap = \<lparr>entries = [(10, no_data), (11, no_data)], hm_size = 2, maxSizeReachedAtStartup = 2\<rparr>,
        padDataRequestedMap = \<lparr>entries = [(10, True), (11, True)], hm_size = 2, maxSizeReachedAtStartup = 2\<rparr>\<rparr>"
  let ?d = "\<lparr>rb_port = 10, rb_size = 2, rb_data = [7, 8]\<rparr>"
  let ?after = "?t\<lparr>portDataMap := snd (hm_Set (rb_port ?d) ?d (portDataMap ?t))\<rparr>"
  have m: "modem_sends example_radio fst" by (simp add: modem_sends_def example_radio_def)
  have sz: "rb_size no_data = 0" by (simp add: no_data_def)
  have l: "latest p ?after = (if p = 10 then ?d else no_data)" for p
    by (simp add: latest_def hm_Set_def hm_Get_def hm_Contains_def)
  have s: "\<forall>p. unat (rb_size (latest p ?after)) \<le> 254" unfolding l using sz by simp
  have "answers ?after (hm_keys (padDataRequestedMap ?t)) = [[10, 0, 7, 8]]"
    unfolding answers_def l using sz by (simp add: hm_keys_def hm_Get_def packet_def)
  moreover have ok: "hm_ok (padDataRequestedMap ?t)" by (simp add: hm_ok_def hm_keys_def)
  moreover have "0 \<notin> set (hm_keys (padDataRequestedMap ?t))" by (simp add: hm_keys_def)
  ultimately show ?thesis using pad_requests_answered [where t = ?t and d = ?d, OF m ok refl s] by (auto)
qed

end
