(* ===== verification/Message_Port.thy ===== *)
theory Message_Port
  imports Flight_Prelude
begin

text \<open>
  Message ports (\<open>include/f_core/messaging\<close>). \<open>CMessagePort\<close> is an abstract class: a record of its
  three operations on the state \<open>'q\<close> of a queue. \<open>CMsgqMessagePort\<close> implements it with a message
  queue of Zephyr, whose calls are parameters. A queue copies as many bytes as its own message
  size says, whatever the type of the port: an object is its bytes here. \<open>None\<close> is a call that
  does not return, or an access past the object.
\<close>

definition ENOMSG :: int where "ENOMSG = 35"

datatype timeout = K_NO_WAIT | K_FOREVER | K_MSEC nat

record ('m, 'q) CMessagePort =
  Send :: "'m \<Rightarrow> timeout \<Rightarrow> 'q \<Rightarrow> (int \<times> 'q) option"
  Receive :: "'m \<Rightarrow> timeout \<Rightarrow> 'q \<Rightarrow> (int \<times> 'm \<times> 'q) option"
  Clear :: "'q \<Rightarrow> 'q"

text \<open>\<open>k_msgq_get\<close> gives its result and the bytes it wrote.\<close>

record 'q msgq_ops =
  msg_size :: nat
  k_msgq_put :: "u8 list \<Rightarrow> timeout \<Rightarrow> 'q \<Rightarrow> (int \<times> 'q) option"
  k_msgq_get :: "timeout \<Rightarrow> 'q \<Rightarrow> (int \<times> u8 list \<times> 'q) option"
  k_msgq_purge :: "'q \<Rightarrow> 'q"
  k_msgq_cleanup :: "'q \<Rightarrow> 'q"

definition msgq_Send :: "'q msgq_ops \<Rightarrow> ('m \<Rightarrow> u8 list) \<Rightarrow> 'm \<Rightarrow> timeout \<Rightarrow> 'q \<Rightarrow> (int \<times> 'q) option" where
  "msgq_Send ops to_bytes m t q =
     (let object = to_bytes m in
      if msg_size ops > length object then None else k_msgq_put ops (take (msg_size ops) object) t q)"

definition msgq_Receive ::
  "'q msgq_ops \<Rightarrow> ('m \<Rightarrow> u8 list) \<Rightarrow> (u8 list \<Rightarrow> 'm) \<Rightarrow> 'm \<Rightarrow> timeout \<Rightarrow> 'q \<Rightarrow> (int \<times> 'm \<times> 'q) option" where
  "msgq_Receive ops to_bytes of_bytes m t q =
     (let object = to_bytes m in
      if msg_size ops > length object then None
      else map_option (\<lambda>(ret, bytes, q). (ret, of_bytes (bytes @ drop (length bytes) object), q)) (k_msgq_get ops t q))"

definition CMsgqMessagePort :: "'q msgq_ops \<Rightarrow> ('m \<Rightarrow> u8 list) \<Rightarrow> (u8 list \<Rightarrow> 'm) \<Rightarrow> ('m, 'q) CMessagePort" where
  "CMsgqMessagePort ops to_bytes of_bytes =
     \<lparr>Send = msgq_Send ops to_bytes, Receive = msgq_Receive ops to_bytes of_bytes, Clear = k_msgq_purge ops\<rparr>"

definition msgq_destroy :: "'q msgq_ops \<Rightarrow> 'q \<Rightarrow> 'q" where
  "msgq_destroy ops q = k_msgq_cleanup ops (k_msgq_purge ops q)"

subsection \<open>The contract of a port\<close>

text \<open>
  What a client relies on: a port keeps up to \<open>capacity\<close> messages in order, refuses one more with
  \<open>ENOMSG\<close> at once, and gives them back to an object that starts as \<open>zero\<close>. \<open>kept\<close> is what the
  receiver sees of a message.
\<close>

locale message_port =
  fixes port :: "('m, 'q) CMessagePort"
    and queued :: "'q \<Rightarrow> 'm list"
    and capacity :: nat
    and zero :: 'm
    and kept :: "'m \<Rightarrow> 'm"
  assumes send_room: "length (queued q) < capacity \<Longrightarrow> \<exists>q'. Send port m t q = Some (0, q') \<and> queued q' = queued q @ [kept m]"
    and send_full: "capacity \<le> length (queued q) \<Longrightarrow> Send port m K_NO_WAIT q = Some (- ENOMSG, q)"
    and receive_first: "queued q = m # ms \<Longrightarrow> \<exists>q'. Receive port zero t q = Some (0, m, q') \<and> queued q' = ms"
    and receive_empty: "queued q = [] \<Longrightarrow> t \<noteq> K_FOREVER \<Longrightarrow> \<exists>ret. ret < 0 \<and> Receive port zero t q = Some (ret, zero, q)"
    and receive_waits: "queued q = [] \<Longrightarrow> Receive port zero K_FOREVER q = None"
    and clear_empties: "queued (Clear port q) = []"
begin

lemma send_no_wait:
  "\<exists>ret q'. Send port m K_NO_WAIT q = Some (ret, q') \<and>
    (if length (queued q) < capacity then ret = 0 \<and> queued q' = queued q @ [kept m] else ret = - ENOMSG \<and> q' = q)"
  using send_room [of q m K_NO_WAIT] send_full [of q m] by (cases "length (queued q) < capacity") auto

lemma send_bounded:
  assumes "Send port m K_NO_WAIT q = Some (ret, q')" "length (queued q) \<le> capacity"
  shows "length (queued q') \<le> capacity \<and> set (queued q') \<subseteq> insert (kept m) (set (queued q))"
  using send_no_wait [of m q] assms by (auto split: if_splits)

lemma receive_no_wait:
  assumes "t \<noteq> K_FOREVER"
  shows "\<exists>ret m q'. Receive port zero t q = Some (ret, m, q') \<and>
    (case queued q of [] \<Rightarrow> ret < 0 \<and> m = zero \<and> q' = q | m' # ms \<Rightarrow> ret = 0 \<and> m = m' \<and> queued q' = ms)"
  using receive_first [of q _ _ t] receive_empty [of q t] assms by (cases "queued q") auto

end

text \<open>A port that refuses after a wait as well: whatever the timeout, a full queue that nobody serves is left as it is.\<close>

locale waiting_port = message_port port queued capacity zero kept
  for port :: "('m, 'q) CMessagePort" and queued :: "'q \<Rightarrow> 'm list" and capacity :: nat and zero :: 'm and kept :: "'m \<Rightarrow> 'm" +
  assumes send_refused: "capacity \<le> length (queued q) \<Longrightarrow> Send port m t q = Some (ret, q') \<Longrightarrow> ret < 0 \<and> q' = q"
begin

lemma send_any:
  "case Send port m t q of
     None \<Rightarrow> True
   | Some (ret, q') \<Rightarrow>
       if length (queued q) < capacity then ret = 0 \<and> queued q' = queued q @ [kept m] else ret < 0 \<and> q' = q"
  using send_room [of q m t] send_refused [of q m t] by (cases "length (queued q) < capacity") (auto split: option.split)

end

subsection \<open>Zephyr's queue\<close>

text \<open>
  The documented behaviour of \<open>k_msgq\<close>: a ring of \<open>cap\<close> messages of \<open>sz\<close> bytes. The list holds the
  messages; waiting with another thread that serves the queue is left to the caller, so a wait
  for ever on a queue that stays as it is does not return.
\<close>

definition kernel_queue :: "nat \<Rightarrow> nat \<Rightarrow> u8 list list msgq_ops" where
  "kernel_queue cap sz =
     \<lparr>msg_size = sz,
      k_msgq_put = \<lambda>bytes t q.
        if length q < cap then Some (0, q @ [bytes])
        else (case t of K_NO_WAIT \<Rightarrow> Some (- ENOMSG, q) | K_FOREVER \<Rightarrow> None | K_MSEC _ \<Rightarrow> Some (- EAGAIN, q)),
      k_msgq_get = \<lambda>t q.
        (case q of
           m # ms \<Rightarrow> Some (0, m, ms)
         | [] \<Rightarrow> (case t of K_NO_WAIT \<Rightarrow> Some (- ENOMSG, [], q) | K_FOREVER \<Rightarrow> None | K_MSEC _ \<Rightarrow> Some (- EAGAIN, [], q))),
      k_msgq_purge = \<lambda>q. [], k_msgq_cleanup = \<lambda>q. q\<rparr>"

text \<open>A port on a queue with messages of at most the size of its objects keeps the contract.\<close>

definition seen :: "('m \<Rightarrow> u8 list) \<Rightarrow> (u8 list \<Rightarrow> 'm) \<Rightarrow> 'm \<Rightarrow> u8 list \<Rightarrow> 'm" where
  "seen to_bytes of_bytes zero bytes = of_bytes (bytes @ drop (length bytes) (to_bytes zero))"

lemma kernel_queue_port:
  assumes "\<And>m. sz \<le> length (to_bytes m)" "of_bytes (to_bytes zero) = zero"
  shows "message_port (CMsgqMessagePort (kernel_queue cap sz) to_bytes of_bytes) (map (seen to_bytes of_bytes zero)) cap zero
    (\<lambda>m. seen to_bytes of_bytes zero (take sz (to_bytes m)))"
proof
  fix q :: "u8 list list" and m :: 'a and ms t
  have fits: "\<not> sz > length (to_bytes m)" for m using assms(1) [of m] by simp
  show "\<exists>q'. Send (CMsgqMessagePort (kernel_queue cap sz) to_bytes of_bytes) m t q = Some (0, q') \<and>
      map (seen to_bytes of_bytes zero) q' = map (seen to_bytes of_bytes zero) q @ [seen to_bytes of_bytes zero (take sz (to_bytes m))]"
    if "length (map (seen to_bytes of_bytes zero) q) < cap"
    using that fits by (simp add: CMsgqMessagePort_def msgq_Send_def kernel_queue_def Let_def)
  show "Send (CMsgqMessagePort (kernel_queue cap sz) to_bytes of_bytes) m K_NO_WAIT q = Some (- ENOMSG, q)"
    if "cap \<le> length (map (seen to_bytes of_bytes zero) q)"
    using that fits by (simp add: CMsgqMessagePort_def msgq_Send_def kernel_queue_def Let_def)
  show "\<exists>q'. Receive (CMsgqMessagePort (kernel_queue cap sz) to_bytes of_bytes) zero t q = Some (0, m, q') \<and>
      map (seen to_bytes of_bytes zero) q' = ms"
    if "map (seen to_bytes of_bytes zero) q = m # ms"
    using that fits by (auto simp: CMsgqMessagePort_def msgq_Receive_def kernel_queue_def Let_def seen_def)
  show "\<exists>ret. ret < 0 \<and> Receive (CMsgqMessagePort (kernel_queue cap sz) to_bytes of_bytes) zero t q = Some (ret, zero, q)"
    if "map (seen to_bytes of_bytes zero) q = []" "t \<noteq> K_FOREVER"
    using that fits assms(2)
    by (cases t) (auto simp: CMsgqMessagePort_def msgq_Receive_def kernel_queue_def Let_def ENOMSG_def EAGAIN_def)
  show "Receive (CMsgqMessagePort (kernel_queue cap sz) to_bytes of_bytes) zero K_FOREVER q = None"
    if "map (seen to_bytes of_bytes zero) q = []"
    using that fits by (simp add: CMsgqMessagePort_def msgq_Receive_def kernel_queue_def Let_def)
  show "map (seen to_bytes of_bytes zero) (Clear (CMsgqMessagePort (kernel_queue cap sz) to_bytes of_bytes) q) = []"
    by (simp add: CMsgqMessagePort_def kernel_queue_def)
qed

lemma kernel_queue_waiting:
  assumes "\<And>m. sz \<le> length (to_bytes m)" "of_bytes (to_bytes zero) = zero"
  shows "waiting_port (CMsgqMessagePort (kernel_queue cap sz) to_bytes of_bytes) (map (seen to_bytes of_bytes zero)) cap zero
    (\<lambda>m. seen to_bytes of_bytes zero (take sz (to_bytes m)))"
proof (rule waiting_port.intro [OF kernel_queue_port waiting_port_axioms.intro])
  fix q q' :: "u8 list list" and m :: 'a and t ret
  have fits: "\<not> sz > length (to_bytes m)" using assms(1) [of m] by simp
  show "ret < 0 \<and> q' = q"
    if "cap \<le> length (map (seen to_bytes of_bytes zero) q)"
      "Send (CMsgqMessagePort (kernel_queue cap sz) to_bytes of_bytes) m t q = Some (ret, q')"
    using that fits
    by (cases t) (auto simp: CMsgqMessagePort_def msgq_Send_def kernel_queue_def Let_def ENOMSG_def EAGAIN_def)
qed (use assms in auto)

end
