(* ===== verification/Gnss_Tenant.thy ===== *)
theory Gnss_Tenant
  imports Radio_Module Message_Port
begin

text \<open>
  The timer of the library (\<open>include/f_core/utils/c_soft_timer.h\<close>), the conversion of positions
  (\<open>lib/f_core/utils/n_gnss_utils.cpp\<close>) and the tenant that publishes them
  (\<open>app/backplane/radio_module/src/c_gnss_tenant.cpp\<close>). The kernel's timer is a parameter on \<open>'t\<close>;
  a float is an element of a field with \<open>float_bytes\<close>, its four bytes.
\<close>

subsection \<open>The timer\<close>

record ('t, 'u) timer_ops =
  k_timer_start :: "int \<Rightarrow> int \<Rightarrow> 't \<Rightarrow> 't"
  k_timer_stop :: "'t \<Rightarrow> 't"
  k_timer_status_get :: "'t \<Rightarrow> nat \<times> 't"
  k_timer_status_sync :: "'t \<Rightarrow> 't option"
  k_timer_remaining_ticks :: "'t \<Rightarrow> i64"
  k_timer_remaining_get :: "'t \<Rightarrow> u32"
  k_timer_user_data_set :: "'u \<Rightarrow> 't \<Rightarrow> 't"
  k_timer_user_data_get :: "'t \<Rightarrow> 'u"

record 't CSoftTimer =
  timer :: 't
  running :: bool

definition timer_new :: "'t \<Rightarrow> 't CSoftTimer" where
  "timer_new t = \<lparr>timer = t, running = False\<rparr>"

definition StartTimer :: "('t, 'u) timer_ops \<Rightarrow> int \<Rightarrow> 't CSoftTimer \<Rightarrow> 't CSoftTimer" where
  "StartTimer tops millis s = \<lparr>timer = k_timer_start tops millis millis (timer s), running = True\<rparr>"

definition StopTimer :: "('t, 'u) timer_ops \<Rightarrow> 't CSoftTimer \<Rightarrow> 't CSoftTimer" where
  "StopTimer tops s = \<lparr>timer = k_timer_stop tops (timer s), running = False\<rparr>"

definition BlockUntilExpired :: "('t, 'u) timer_ops \<Rightarrow> 't CSoftTimer \<Rightarrow> 't CSoftTimer option" where
  "BlockUntilExpired tops s = map_option (\<lambda>t. s\<lparr>timer := t\<rparr>) (k_timer_status_sync tops (timer s))"

definition GetRemainingTicks :: "('t, 'u) timer_ops \<Rightarrow> 't CSoftTimer \<Rightarrow> i64" where
  "GetRemainingTicks tops s = k_timer_remaining_ticks tops (timer s)"

definition GetRemainingMillis :: "('t, 'u) timer_ops \<Rightarrow> 't CSoftTimer \<Rightarrow> u32" where
  "GetRemainingMillis tops s = k_timer_remaining_get tops (timer s)"

definition IsExpired :: "('t, 'u) timer_ops \<Rightarrow> 't CSoftTimer \<Rightarrow> bool \<times> 't CSoftTimer" where
  "IsExpired tops s = (case k_timer_status_get tops (timer s) of (n, t) \<Rightarrow> (n \<noteq> 0, s\<lparr>timer := t\<rparr>))"

definition GetExpiredCountSinceLastRead :: "('t, 'u) timer_ops \<Rightarrow> 't CSoftTimer \<Rightarrow> nat \<times> 't CSoftTimer" where
  "GetExpiredCountSinceLastRead tops s = (case k_timer_status_get tops (timer s) of (n, t) \<Rightarrow> (n, s\<lparr>timer := t\<rparr>))"

definition SetUserData :: "('t, 'u) timer_ops \<Rightarrow> 'u \<Rightarrow> 't CSoftTimer \<Rightarrow> 't CSoftTimer" where
  "SetUserData tops u s = s\<lparr>timer := k_timer_user_data_set tops u (timer s)\<rparr>"

definition GetUserData :: "('t, 'u) timer_ops \<Rightarrow> 't CSoftTimer \<Rightarrow> 'u" where
  "GetUserData tops s = k_timer_user_data_get tops (timer s)"

text \<open>The documented status of a kernel timer: reading it gives the expiries since the last reading.\<close>

definition counts_expiries :: "('t, 'u) timer_ops \<Rightarrow> ('t \<Rightarrow> nat) \<Rightarrow> bool" where
  "counts_expiries tops expired \<longleftrightarrow>
     (\<forall>t. fst (k_timer_status_get tops t) = expired t \<and> expired (snd (k_timer_status_get tops t)) = 0) \<and>
     (\<forall>d p t. expired (k_timer_start tops d p t) = 0)"

lemma IsExpired_counts:
  "counts_expiries tops expired \<Longrightarrow> IsExpired tops s = (b, s') \<Longrightarrow> b = (expired (timer s) \<noteq> 0) \<and> expired (timer s') = 0"
  by (cases "k_timer_status_get tops (timer s)") (auto simp: IsExpired_def counts_expiries_def dest: spec [of _ "timer s"])

subsection \<open>Positions\<close>

record 'a GnssCoordinates =
  gc_latitude :: 'a
  gc_longitude :: 'a
  gc_altitude :: 'a

record GnssTime =
  gt_time :: u32
  gt_date :: u32

record GnssInfo =
  satelliteId :: u8
  elevation :: u8
  azimuth :: u16
  snr :: u8

record 'a GnssData =
  gd_coordinates :: "'a GnssCoordinates"
  gd_time :: GnssTime
  gd_info :: GnssInfo

record 'a GnssLoggingData =
  systemTime :: u32
  gnssData :: "'a GnssData"

text \<open>Zephyr's fix: latitude and longitude in billionths of a degree, altitude in millimetres.\<close>

record navigation_data =
  nav_latitude :: i64
  nav_longitude :: i64
  nav_altitude :: i32

definition PopulateGnssNavigationData :: "navigation_data \<Rightarrow> 'a::field GnssCoordinates \<Rightarrow> 'a GnssCoordinates" where
  "PopulateGnssNavigationData data c =
     c\<lparr>gc_latitude := of_int (sint (nav_latitude data)) / 1000000000,
       gc_longitude := of_int (sint (nav_longitude data)) / 1000000000,
       gc_altitude := of_int (sint (nav_altitude data)) / 1000\<rparr>"

definition PopulateGnssStruct :: "navigation_data \<Rightarrow> 'a::field GnssData \<Rightarrow> 'a GnssData" where
  "PopulateGnssStruct data g = g\<lparr>gd_coordinates := PopulateGnssNavigationData data (gd_coordinates g)\<rparr>"

subsection \<open>The tenant\<close>

text \<open>The static variables of the file.\<close>

record 'a gnss_globals =
  gnssLogData :: "'a GnssLoggingData"
  coordinates :: "'a GnssCoordinates"
  gnssUpdated :: bool

definition gnss_zero :: "'a::field gnss_globals" where
  "gnss_zero =
     (let c = \<lparr>gc_latitude = 0, gc_longitude = 0, gc_altitude = 0\<rparr> in
      \<lparr>gnssLogData = \<lparr>systemTime = 0, gnssData = \<lparr>gd_coordinates = c, gd_time = \<lparr>gt_time = 0, gt_date = 0\<rparr>,
         gd_info = \<lparr>satelliteId = 0, elevation = 0, azimuth = 0, snr = 0\<rparr>\<rparr>\<rparr>, coordinates = c, gnssUpdated = False\<rparr>)"

definition gnssCallback :: "i64 \<Rightarrow> navigation_data \<Rightarrow> 'a::field gnss_globals \<Rightarrow> 'a gnss_globals" where
  "gnssCallback uptime data g =
     (let logd = \<lparr>systemTime = ucast uptime, gnssData = PopulateGnssStruct data (gnssData (gnssLogData g))\<rparr> in
      \<lparr>gnssLogData = logd, coordinates = gd_coordinates (gnssData logd), gnssUpdated = True\<rparr>)"

definition gnss_Startup :: "('t, 'u) timer_ops \<Rightarrow> 't CSoftTimer \<Rightarrow> 't CSoftTimer" where
  "gnss_Startup tops s = StartTimer tops 5000 s"

definition coordinate_bytes :: "('a \<Rightarrow> u8 list) \<Rightarrow> 'a GnssCoordinates \<Rightarrow> u8 list" where
  "coordinate_bytes float_bytes c = float_bytes (gc_latitude c) @ float_bytes (gc_longitude c) @ float_bytes (gc_altitude c)"

definition gnss_packet :: "('a \<Rightarrow> u8 list) \<Rightarrow> ports \<Rightarrow> 'a GnssCoordinates \<Rightarrow> RadioBroadcastData" where
  "gnss_packet float_bytes ps c =
     \<lparr>rb_port = RADIO_MODULE_GNSS_DATA_PORT ps, rb_size = 13,
      rb_data = take 254 (coordinate_bytes float_bytes c @ [1] @ replicate 254 0)\<rparr>"

text \<open>
  The body of \<open>Run\<close> for a new fix, and the last assignment, which a callback may precede. The
  queues are the one to the transmitter and the one to the data logger.
\<close>

definition gnss_publish ::
  "('a \<Rightarrow> u8 list) \<Rightarrow> ports \<Rightarrow> ('t, 'u) timer_ops \<Rightarrow> (RadioBroadcastData, 'q) CMessagePort \<Rightarrow>
     ('a GnssLoggingData, 'l) CMessagePort \<Rightarrow> 'a gnss_globals \<Rightarrow> 't CSoftTimer \<times> 'q \<times> 'l \<Rightarrow> ('t CSoftTimer \<times> 'q \<times> 'l) option" where
  "gnss_publish float_bytes ps tops loraTransmitPort dataLoggingPort g st =
     (case st of (s, q, l) \<Rightarrow>
      case Send dataLoggingPort (gnssLogData g) K_NO_WAIT l of
        None \<Rightarrow> None
      | Some (_, l) \<Rightarrow>
          case IsExpired tops s of
            (expired, s) \<Rightarrow>
              if expired then
                map_option (\<lambda>(_, q). (s, q, l)) (Send loraTransmitPort (gnss_packet float_bytes ps (coordinates g)) K_NO_WAIT q)
              else Some (s, q, l))"

definition gnss_finish :: "'a gnss_globals \<Rightarrow> 'a gnss_globals" where
  "gnss_finish g = g\<lparr>gnssUpdated := False\<rparr>"

definition gnss_Run ::
  "('a \<Rightarrow> u8 list) \<Rightarrow> ports \<Rightarrow> ('t, 'u) timer_ops \<Rightarrow> (RadioBroadcastData, 'q) CMessagePort \<Rightarrow>
     ('a GnssLoggingData, 'l) CMessagePort \<Rightarrow> 'a gnss_globals \<times> 't CSoftTimer \<times> 'q \<times> 'l \<Rightarrow>
     ('a gnss_globals \<times> 't CSoftTimer \<times> 'q \<times> 'l) option" where
  "gnss_Run float_bytes ps tops loraTransmitPort dataLoggingPort gst =
     (case gst of (g, st) \<Rightarrow>
      if gnssUpdated g then
        map_option (\<lambda>st. (gnss_finish g, st)) (gnss_publish float_bytes ps tops loraTransmitPort dataLoggingPort g st)
      else Some (g, st))"

text \<open>The callback leaves both copies of the position equal, and a turn keeps them so.\<close>

definition gnss_ok :: "'a gnss_globals \<Rightarrow> bool" where
  "gnss_ok g \<longleftrightarrow> coordinates g = gd_coordinates (gnssData (gnssLogData g))"

lemma gnss_ok_intros [intro, simp]:
  "gnss_ok gnss_zero" "gnss_ok (gnssCallback uptime data g)" "gnss_ok g \<Longrightarrow> gnss_ok (gnss_finish g)"
  by (simp_all add: gnss_ok_def gnss_zero_def gnssCallback_def gnss_finish_def Let_def)

text \<open>A fix that arrives before the last assignment is never published: the flag is taken back with the old one.\<close>

lemma gnss_fix_lost:
  "gnss_Run float_bytes ps tops p l (gnss_finish (gnssCallback uptime data g), st) =
     Some (gnss_finish (gnssCallback uptime data g), st)"
  by (simp add: gnss_Run_def gnss_finish_def)

end
