(* ===== verification/Radio_System.thy ===== *)
theory Radio_System
  imports Gnss_Tenant Complex_Main
begin

text \<open>
  The radio module as a whole (\<open>app/backplane/radio_module\<close>): the queue of packets between the
  tenants, the listeners on the backplane's network
  (\<open>c_udp_listener_tenant.cpp\<close>), the position tenant and the transmitter that reads the queue.
\<close>

subsection \<open>Packets in a queue\<close>

text \<open>The bytes of a \<open>RadioBroadcastData\<close>: the port, the size, 254 bytes of data and one of padding.\<close>

definition rb_bytes :: "RadioBroadcastData \<Rightarrow> u8 list" where
  "rb_bytes d = [ucast (rb_port d), ucast (drop_bit 8 (rb_port d)), rb_size d] @ take 254 (rb_data d @ replicate 254 0) @ [0]"

definition rb_of_bytes :: "u8 list \<Rightarrow> RadioBroadcastData" where
  "rb_of_bytes bs = \<lparr>rb_port = push_bit 8 (ucast (bs ! 1)) OR ucast (bs ! 0), rb_size = bs ! 2, rb_data = take 254 (drop 3 bs)\<rparr>"

lemma length_rb_bytes: "length (rb_bytes d) = 258"
  by (simp add: rb_bytes_def)

lemma word_of_bytes: "push_bit 8 (ucast (ucast (drop_bit 8 p) :: u8)) OR ucast (ucast p :: u8) = (p :: u16)"
proof (rule bit_word_eqI)
  fix n assume n: "n < LENGTH(16)"
  show "bit (push_bit 8 (ucast (ucast (drop_bit 8 p) :: u8)) OR ucast (ucast p :: u8) :: u16) n = bit p n"
  proof (cases "n < 8")
    case False
    then have "8 + (n - 8) = n" by simp
    then show ?thesis using n False by (auto simp: bit_simps)
  qed (use n in \<open>simp add: bit_simps\<close>)
qed

definition sized :: "RadioBroadcastData \<Rightarrow> bool" where
  "sized d \<longleftrightarrow> length (rb_data d) = 254"

lemma rb_data_bytes: "sized d \<Longrightarrow> rb_bytes d = [ucast (rb_port d), ucast (drop_bit 8 (rb_port d)), rb_size d] @ rb_data d @ [0]"
  by (simp add: rb_bytes_def sized_def)

lemma rb_of_bytes_split:
  "length data = 254 \<Longrightarrow> rb_of_bytes ([ucast p, ucast (drop_bit 8 p), n] @ data @ rest) = \<lparr>rb_port = p, rb_size = n, rb_data = data\<rparr>"
  by (simp add: rb_of_bytes_def word_of_bytes numeral_2_eq_2 numeral_3_eq_3)

lemma rb_round: "sized d \<Longrightarrow> rb_of_bytes (rb_bytes d) = d"
  by (simp only: rb_data_bytes rb_of_bytes_split [OF iffD1 [OF sized_def]]) simp

lemma sized_no_data: "sized no_data"
  by (simp add: sized_def no_data_def)

text \<open>The ports of the two builds: the flight build's queue has the size of a packet, the receiver's 256 bytes.\<close>

definition broadcast_port :: "nat \<Rightarrow> (RadioBroadcastData, u8 list list) CMessagePort" where
  "broadcast_port sz = CMsgqMessagePort (kernel_queue 10 sz) rb_bytes rb_of_bytes"

definition broadcast_queued :: "u8 list list \<Rightarrow> RadioBroadcastData list" where
  "broadcast_queued = map (seen rb_bytes rb_of_bytes no_data)"

definition through_queue :: "nat \<Rightarrow> RadioBroadcastData \<Rightarrow> RadioBroadcastData" where
  "through_queue sz d = seen rb_bytes rb_of_bytes no_data (take sz (rb_bytes d))"

lemma broadcast_port_contract:
  "sz \<le> 258 \<Longrightarrow> message_port (broadcast_port sz) broadcast_queued 10 no_data (through_queue sz)"
  unfolding broadcast_port_def broadcast_queued_def through_queue_def [abs_def]
  by (rule kernel_queue_port) (simp_all add: length_rb_bytes rb_round [OF sized_no_data])

interpretation flight_queue: message_port "broadcast_port 258" broadcast_queued 10 no_data "through_queue 258"
  by (rule broadcast_port_contract) simp

interpretation flight_queue_waiting: waiting_port "broadcast_port 258" broadcast_queued 10 no_data "through_queue 258"
  unfolding broadcast_port_def broadcast_queued_def through_queue_def [abs_def]
  by (rule kernel_queue_waiting) (simp_all add: length_rb_bytes rb_round [OF sized_no_data])

interpretation receiver_queue: message_port "broadcast_port 256" broadcast_queued 10 no_data "through_queue 256"
  by (rule broadcast_port_contract) simp

lemma through_flight_queue: "sized d \<Longrightarrow> through_queue 258 d = d"
  by (simp add: through_queue_def seen_def length_rb_bytes rb_round)

lemma through_receiver_queue: "sized d \<Longrightarrow> through_queue 256 d = d\<lparr>rb_data := (rb_data d)[253 := 0]\<rparr>"
proof -
  assume d: "sized d"
  let ?h = "[ucast (rb_port d), ucast (drop_bit 8 (rb_port d)), rb_size d]"
  have l: "length (rb_data d) = 254" using d by (simp add: sized_def)
  have t: "take 256 (rb_bytes d) = ?h @ take 253 (rb_data d)" using l by (simp add: rb_data_bytes [OF d])
  have n: "drop 256 (rb_bytes no_data) = [0, 0]"
    unfolding rb_data_bytes [OF sized_no_data] by (simp add: no_data_def)
  have "length (take 256 (rb_bytes d)) = 256" by (simp add: length_rb_bytes)
  then have "through_queue 256 d = rb_of_bytes (?h @ (take 253 (rb_data d) @ [0]) @ [0])"
    unfolding through_queue_def seen_def n by (simp only: n) (simp add: t)
  also have "\<dots> = \<lparr>rb_port = rb_port d, rb_size = rb_size d, rb_data = take 253 (rb_data d) @ [0]\<rparr>"
    by (rule rb_of_bytes_split) (simp add: l)
  also have "take 253 (rb_data d) @ [0] = (rb_data d)[253 := 0]" using l by (simp add: upd_conv_take_nth_drop)
  finally show ?thesis by simp
qed

subsection \<open>Listeners and the transmitter's queue\<close>

record listener =
  listen_udp :: udp_socket
  listenPort :: u16

definition listener_PostStartup :: "'n net_ops \<Rightarrow> listener \<Rightarrow> 'n udp_world \<Rightarrow> 'n udp_world" where
  "listener_PostStartup nops u w = snd (SetRxTimeout nops (listen_udp u) 10 w)"

definition listener_packet :: "u16 \<Rightarrow> int \<Rightarrow> u8 list \<Rightarrow> RadioBroadcastData" where
  "listener_packet port rcvResult bytes =
     \<lparr>rb_port = port, rb_size = word_of_int rcvResult, rb_data = take 254 (bytes @ replicate 254 0)\<rparr>"

text \<open>A full queue is emptied, and the packet just received is dropped with it.\<close>

definition listener_Run ::
  "'n net_ops \<Rightarrow> (RadioBroadcastData, 'q) CMessagePort \<Rightarrow> listener \<Rightarrow> 'n udp_world \<times> 'q \<Rightarrow> ('n udp_world \<times> 'q) option" where
  "listener_Run nops port u wq =
     (case wq of (w, q) \<Rightarrow>
      case ReceiveAsynchronous nops (listen_udp u) 254 w of
        (rcvResult, bytes, _, w) \<Rightarrow>
          if rcvResult \<le> 0 then Some (w, q)
          else map_option (\<lambda>(ret, q). (w, if ret = - ENOMSG then Clear port q else q))
            (Send port (listener_packet (listenPort u) rcvResult bytes) K_NO_WAIT q))"

definition readTransmitQueue :: "(RadioBroadcastData, 'q) CMessagePort \<Rightarrow> 'q \<Rightarrow> (RadioBroadcastData option \<times> 'q) option" where
  "readTransmitQueue port q =
     map_option (\<lambda>(ret, d, q). (if ret < 0 then None else Some d, q)) (Receive port no_data (K_MSEC 10) q)"

text \<open>Every handler of the transmitter starts with one reading of the queue.\<close>

definition transmit_turn_of ::
  "ports \<Rightarrow> 'h radio_ops \<Rightarrow> (RadioBroadcastData, 'q) CMessagePort \<Rightarrow> bool \<Rightarrow> bool \<Rightarrow> bool \<Rightarrow> 'h transmit_tenant \<times> 'q \<Rightarrow>
     ('h transmit_tenant \<times> 'q) option" where
  "transmit_turn_of ps ops port receiver boost landing tq =
     (case tq of (t, q) \<Rightarrow>
      case readTransmitQueue port q of
        None \<Rightarrow> None
      | Some (rx, q) \<Rightarrow> map_option (\<lambda>t. (t, q)) (tx_Run ps ops receiver boost landing rx t))"

subsection \<open>The flight build as a system\<close>

text \<open>
  The transmitter, the receiver, the alert tenant and the timer of the cameras as before, with the
  queue they share with the two listeners and the position tenant. Fixes arrive and the kernel's
  timer and the data logger's queue change at any time between turns.
\<close>

record ('a, 't, 'h, 'n, 'q, 'l) radio_system =
  module :: "('h, 'n) radio_module"
  gnss :: "'a gnss_globals"
  transmitTimer :: "'t CSoftTimer"
  loraQueue :: 'q
  logQueue :: 'l

definition system_start ::
  "ports \<Rightarrow> 'h radio_ops \<Rightarrow> ('t, 'u) timer_ops \<Rightarrow> 'h \<Rightarrow> udp_socket \<Rightarrow> 'n udp_world \<Rightarrow> 't \<Rightarrow> 'q \<Rightarrow> 'l \<Rightarrow>
     ('a::field, 't, 'h, 'n, 'q, 'l) radio_system option" where
  "system_start ps ops tops h u w t q l =
     map_option (\<lambda>m. \<lparr>module = m, gnss = gnss_zero, transmitTimer = gnss_Startup tops (timer_new t), loraQueue = q, logQueue = l\<rparr>)
       (radio_start ps ops h u w)"

inductive system_step ::
  "('a::field \<Rightarrow> u8 list) \<Rightarrow> ports \<Rightarrow> 'h radio_ops \<Rightarrow> 'n net_ops \<Rightarrow> ('t, 'u) timer_ops \<Rightarrow> (RadioBroadcastData, 'q) CMessagePort \<Rightarrow>
     ('a GnssLoggingData, 'l) CMessagePort \<Rightarrow> ('a, 't, 'h, 'n, 'q, 'l) radio_system \<Rightarrow> ('a, 't, 'h, 'n, 'q, 'l) radio_system \<Rightarrow> bool"
  for float_bytes ps ops nops tops port lport where
  transmitted: "transmit_turn_of ps ops port False (fst (transmit_globals (module s))) (snd (transmit_globals (module s)))
      (tt (module s), loraQueue s) = Some (t, q) \<Longrightarrow>
    system_step float_bytes ps ops nops tops port lport s (s\<lparr>module := (module s)\<lparr>tt := t\<rparr>, loraQueue := q\<rparr>)"
| received: "rx_Run ps ops nops False (fst (receive_globals (module s))) (snd (receive_globals (module s)))
      (tt (module s), rt (module s), world (module s)) = Some (t, r, w) \<Longrightarrow>
    system_step float_bytes ps ops nops tops port lport s (s\<lparr>module := (module s)\<lparr>tt := t, rt := r, world := w\<rparr>\<rparr>)"
| alerted: "alert_Run nops u (world (module s)) = (alert, w) \<Longrightarrow>
    system_step float_bytes ps ops nops tops port lport s
      (s\<lparr>module := (case alert of None \<Rightarrow> (module s)\<lparr>world := w\<rparr> | Some a \<Rightarrow> updater_Notify a ((module s)\<lparr>world := w\<rparr>))\<rparr>)"
| shut_off: "shutoff_running (rt (module s)) \<Longrightarrow> shutoffTimerExpirationFn ops (tt (module s), rt (module s)) = (t, r) \<Longrightarrow>
    system_step float_bytes ps ops nops tops port lport s (s\<lparr>module := (module s)\<lparr>tt := t, rt := r\<rparr>\<rparr>)"
| listened: "listener_Run nops port u (world (module s), loraQueue s) = Some (w, q) \<Longrightarrow>
    system_step float_bytes ps ops nops tops port lport s (s\<lparr>module := (module s)\<lparr>world := w\<rparr>, loraQueue := q\<rparr>)"
| fixed: "system_step float_bytes ps ops nops tops port lport s (s\<lparr>gnss := gnssCallback uptime data (gnss s)\<rparr>)"
| published: "gnss_Run float_bytes ps tops port lport (gnss s, transmitTimer s, loraQueue s, logQueue s) = Some (g, tm, q, l) \<Longrightarrow>
    system_step float_bytes ps ops nops tops port lport s
      (s\<lparr>gnss := g, transmitTimer := tm, loraQueue := q, logQueue := l\<rparr>)"
| time_passed: "system_step float_bytes ps ops nops tops port lport s (s\<lparr>transmitTimer := (transmitTimer s)\<lparr>timer := t\<rparr>\<rparr>)"
| logged: "system_step float_bytes ps ops nops tops port lport s (s\<lparr>logQueue := l\<rparr>)"

inductive system_reachable ::
  "('a::field \<Rightarrow> u8 list) \<Rightarrow> ports \<Rightarrow> 'h radio_ops \<Rightarrow> 'n net_ops \<Rightarrow> ('t, 'u) timer_ops \<Rightarrow> (RadioBroadcastData, 'q) CMessagePort \<Rightarrow>
     ('a GnssLoggingData, 'l) CMessagePort \<Rightarrow> ('q \<Rightarrow> RadioBroadcastData list) \<Rightarrow> ('a, 't, 'h, 'n, 'q, 'l) radio_system \<Rightarrow> bool"
  for float_bytes ps ops nops tops port lport queued where
  start: "system_start ps ops tops h u w t q l = Some s \<Longrightarrow> queued q = [] \<Longrightarrow>
    system_reachable float_bytes ps ops nops tops port lport queued s"
| steps: "system_reachable float_bytes ps ops nops tops port lport queued s \<Longrightarrow>
    system_step float_bytes ps ops nops tops port lport s s' \<Longrightarrow>
    system_reachable float_bytes ps ops nops tops port lport queued s'"

subsection \<open>Only packets that fit are transmitted\<close>

definition fits :: "RadioBroadcastData \<Rightarrow> bool" where
  "fits d \<longleftrightarrow> sized d \<and> unat (rb_size d) \<le> 254"

definition tx_fits :: "'h transmit_tenant \<Rightarrow> bool" where
  "tx_fits t \<longleftrightarrow> (\<forall>k d. hm_Get k (portDataMap t) = Some d \<longrightarrow> fits d)"

lemma fits_no_data [simp]: "fits no_data"
  by (simp add: fits_def sized_no_data) (simp add: no_data_def)

lemma fits_gnss_packet: "fits (gnss_packet float_bytes ps c)"
  by (simp add: fits_def sized_def gnss_packet_def)

lemma fits_listener_packet: "0 < rcv \<Longrightarrow> rcv \<le> 254 \<Longrightarrow> fits (listener_packet port rcv bytes)"
  by (auto simp: fits_def sized_def listener_packet_def unsigned_of_int take_bit_int_eq_self)

lemma hm_Set_Get: "hm_Get k (snd (hm_Set key v m)) = (if k = key \<and> hm_Contains key m then Some v else hm_Get k m)"
  by (simp add: hm_Set_def hm_Get_def update_conv')

lemma hm_index_put_keys: "hm_index_put key v m = Some m' \<Longrightarrow> hm_keys m' = hm_keys m"
proof -
  assume "hm_index_put key v m = Some m'"
  then have "key \<in> fst ` set (entries m)" "m' = m\<lparr>entries := AList.update key v (entries m)\<rparr>"
    using hm_Contains_iff(2) [of key m] by (auto simp: hm_index_put_def hm_keys_def split: if_splits)
  then show ?thesis by (simp add: hm_keys_def update_keys)
qed

lemma transmit_total: "fits d \<Longrightarrow> transmit ops d l \<noteq> None"
  by (simp add: transmit_def fits_def Let_def)

lemma tx_send_total: "fits d \<Longrightarrow> \<exists>l. tx_send ops d t = Some (t\<lparr>lora := l\<rparr>)"
  using transmit_total [of d ops "lora t"] by (auto simp: tx_send_def)

lemma serve_request_total:
  assumes "tx_fits t" "p \<in> set (hm_keys (padDataRequestedMap t))"
  shows "\<exists>t'. serve_request ops p t = Some t' \<and> portDataMap t' = portDataMap t \<and>
    hm_keys (padDataRequestedMap t') = hm_keys (padDataRequestedMap t)"
proof -
  have "fits (case hm_Get p (portDataMap t) of None \<Rightarrow> no_data | Some d \<Rightarrow> d)"
    using assms(1) by (auto simp: tx_fits_def split: option.splits)
  then obtain l where l: "transmit ops (case hm_Get p (portDataMap t) of None \<Rightarrow> no_data | Some d \<Rightarrow> d) (lora t) = Some l"
    using transmit_total by blast
  have "hm_Contains p (padDataRequestedMap t)" using assms(2) hm_Contains_iff(2) [of p "padDataRequestedMap t"] by simp
  then obtain m where m: "hm_index_put p False (padDataRequestedMap t) = Some m" by (simp add: hm_index_put_def)
  show ?thesis using l m hm_index_put_keys [OF m] by (auto simp: serve_request_def Let_def)
qed

lemma serve_all_total:
  "tx_fits t \<Longrightarrow> set ps \<subseteq> set (hm_keys (padDataRequestedMap t)) \<Longrightarrow>
    \<exists>t'. fold_opt (serve_request ops) ps t = Some t' \<and> portDataMap t' = portDataMap t"
proof (induction ps arbitrary: t)
  case (Cons p ps)
  obtain t1 where 1: "serve_request ops p t = Some t1" "portDataMap t1 = portDataMap t"
    "hm_keys (padDataRequestedMap t1) = hm_keys (padDataRequestedMap t)"
    using serve_request_total [of t p ops] Cons.prems by auto
  then show ?case using Cons.IH [of t1] Cons.prems by (simp add: tx_fits_def)
qed simp

lemma tx_fits_Set: "tx_fits t \<Longrightarrow> fits d \<Longrightarrow> tx_fits (t\<lparr>portDataMap := snd (hm_Set k d (portDataMap t))\<rparr>)"
  by (auto simp: tx_fits_def hm_Set_Get split: if_splits)

text \<open>A turn with a packet that fits never stops the system, and keeps it so.\<close>

lemma tx_Run_total:
  assumes "tx_fits t" "\<And>d. rx = Some d \<Longrightarrow> fits d"
  shows "\<exists>t'. tx_Run ps ops receiver boost landing rx t = Some t' \<and> tx_fits t'"
proof -
  have f: "fits (case rx of None \<Rightarrow> no_data | Some d \<Rightarrow> d)" using assms(2) by (auto split: option.splits)
  have pad: "\<exists>t'. tx_PadRun ops rx t = Some t' \<and> tx_fits t'"
    using serve_all_total [OF tx_fits_Set [OF assms(1) f], of "hm_keys (padDataRequestedMap t)"] tx_fits_Set [OF assms(1) f]
    by (fastforce simp: tx_PadRun_def Let_def tx_fits_def)
  have send: "\<exists>t'. tx_send ops d t = Some t' \<and> tx_fits t'" if "rx = Some d" for d
    using tx_send_total [OF assms(2) [OF that], of ops t] assms(1) by (auto simp: tx_fits_def)
  have flight: "\<exists>t'. tx_FlightRun ops rx t = Some t' \<and> tx_fits t'" "\<exists>t'. tx_LandedRun ps ops rx t = Some t' \<and> tx_fits t'"
      "\<exists>t'. tx_GroundRun ops rx t = Some t' \<and> tx_fits t'"
    using send assms(1) by (auto simp: tx_FlightRun_def tx_LandedRun_def tx_GroundRun_def split: option.splits)
  obtain s sm where c: "Clock (sm_inputs receiver boost landing (tx_sm t)) = (s, sm)" by fastforce
  have "\<exists>t'. (case s of PAD \<Rightarrow> tx_PadRun ops rx t | FLIGHT \<Rightarrow> tx_FlightRun ops rx t
      | LANDED \<Rightarrow> tx_LandedRun ps ops rx t | GROUND \<Rightarrow> tx_GroundRun ops rx t) = Some t' \<and> tx_fits t'"
    using pad flight by (cases s) simp_all
  then show ?thesis unfolding tx_Run_def c by (auto simp: tx_fits_def)
qed

subsection \<open>The system keeps it\<close>

text \<open>What the receiver does to the transmitter's maps.\<close>

lemma rx_receive_maps: "rx_receive ops t = (a, b, c, t') \<Longrightarrow> portDataMap t' = portDataMap t"
  by (auto simp: rx_receive_def Let_def split: prod.splits if_splits)

lemma request_ports_maps: "fold_opt (request_port buffer) is t = Some t' \<Longrightarrow> portDataMap t' = portDataMap t"
  by (induction "is" arbitrary: t) (auto simp: request_port_def arr_get_def split: option.splits if_splits)

lemma rx_Run_maps:
  assumes "rx_Run ps ops nops receiver boost landing (t, r, w) = Some (t', r', w')"
  shows "portDataMap t' = portDataMap t"
  using assms
  by (auto simp: rx_Run_def rx_PadRun_def rx_GroundRun_def rx_command_def rx_data_request_def forward_def tx_send_def Let_def
      dest!: rx_receive_maps request_ports_maps split: prod.splits option.splits if_splits State.splits)

definition system_fits :: "('q \<Rightarrow> RadioBroadcastData list) \<Rightarrow> ('a, 't, 'h, 'n, 'q, 'l) radio_system \<Rightarrow> bool" where
  "system_fits queued s \<longleftrightarrow> tx_fits (tt (module s)) \<and> (\<forall>d\<in>set (queued (loraQueue s)). fits d) \<and> length (queued (loraQueue s)) \<le> 10"

lemma hm_Insert_values:
  "hm_Insert main k v m = Some (b, m') \<Longrightarrow> \<forall>k d. hm_Get k m = Some d \<longrightarrow> d = v \<Longrightarrow> \<forall>k d. hm_Get k m' = Some d \<longrightarrow> d = v"
  by (auto simp: hm_Insert_def hm_Get_def Let_def split: if_splits)

lemma insert_all_values:
  "insert_all ks v m = Some (b, m') \<Longrightarrow> \<forall>k d. hm_Get k m = Some d \<longrightarrow> d = v \<Longrightarrow> hm_Get k m' = Some d \<Longrightarrow> d = v"
proof (induction ks arbitrary: b m' k d rule: rev_induct)
  case (snoc j ks)
  obtain b1 m1 b2 where "insert_all ks v m = Some (b1, m1)" "hm_Insert True j v m1 = Some (b2, m')"
    using snoc.prems(1) by (auto simp: insert_all_def split: Option.bind_splits)
  then show ?case using snoc.IH snoc.prems(2,3) hm_Insert_values by metis
qed (simp add: insert_all_def)

lemma radio_start_fits: "radio_start ps ops h u w = Some m \<Longrightarrow> tx_fits (tt m)"
proof -
  assume m: "radio_start ps ops h u w = Some m"
  obtain b pm where "insert_all (listened ps) no_data hm_new = Some (b, pm)" "portDataMap (tt m) = pm"
    using m by (auto simp: radio_start_def tx_Startup_def split: Option.bind_splits if_splits)
  then show ?thesis using insert_all_values [of "listened ps" no_data hm_new b pm]
    by (fastforce simp: tx_fits_def hm_Get_def hm_new_def)
qed

text \<open>\<open>recvfrom\<close> never gives more bytes than it is asked for.\<close>

definition recv_bounded :: "'n net_ops \<Rightarrow> bool" where
  "recv_bounded nops \<longleftrightarrow> (\<forall>s len n. fst (zsock_recvfrom nops s len n) \<le> int len)"

context message_port
begin

lemma send_all:
  assumes "Send port m K_NO_WAIT q = Some (ret, q')" "\<forall>d\<in>set (queued q). P d" "P (kept m)" "length (queued q) \<le> capacity"
  shows "(\<forall>d\<in>set (queued q'). P d) \<and> length (queued q') \<le> capacity"
  using send_bounded [OF assms(1,4)] assms(2,3) by auto

end

lemma listener_Run_fits:
  assumes "message_port port queued 10 no_data (through_queue 258)" "recv_bounded nops"
    and "listener_Run nops port u (w, q) = Some (w', q')" "\<forall>d\<in>set (queued q). fits d" "length (queued q) \<le> 10"
  shows "(\<forall>d\<in>set (queued q'). fits d) \<and> length (queued q') \<le> 10"
proof -
  obtain rcv bytes p w1 where r: "ReceiveAsynchronous nops (listen_udp u) 254 w = (rcv, bytes, p, w1)" by (metis prod_cases4)
  show ?thesis
  proof (cases "rcv \<le> 0")
    case True
    then show ?thesis using assms(3-5) r by (simp add: listener_Run_def)
  next
    case False
    obtain nb n1 where n1: "set_nonblock nops (listen_udp u) (net w) = (nb, n1)" by fastforce
    obtain ret1 bs1 p1 n2 where n2: "zsock_recvfrom nops (sock (listen_udp u)) 254 n1 = (ret1, bs1, p1, n2)" by (metis prod_cases4)
    have "ret1 \<le> 254" using assms(2) n2 unfolding recv_bounded_def by (metis fst_conv of_nat_numeral)
    then have "rcv \<le> 254" using r n1 n2 False by (auto simp: ReceiveAsynchronous_def split: if_splits)
    then have f: "fits (listener_packet (listenPort u) rcv bytes)" using fits_listener_packet False by simp
    obtain ret q1 where q1: "Send port (listener_packet (listenPort u) rcv bytes) K_NO_WAIT q = Some (ret, q1)"
        "q' = (if ret = - ENOMSG then Clear port q1 else q1)"
      using assms(3) r False by (auto simp: listener_Run_def)
    have "fits (through_queue 258 (listener_packet (listenPort u) rcv bytes))" using f by (simp add: fits_def through_flight_queue)
    from message_port.send_all [OF assms(1) q1(1) assms(4) this assms(5)] show ?thesis
      using q1(2) message_port.clear_empties [OF assms(1), of q1] by simp
  qed
qed

lemma gnss_Run_fits:
  assumes "message_port port queued 10 no_data (through_queue 258)"
    and "gnss_Run float_bytes ps tops port lport (g, tm, q, l) = Some (g', tm', q', l')"
    and "\<forall>d\<in>set (queued q). fits d" "length (queued q) \<le> 10"
  shows "(\<forall>d\<in>set (queued q'). fits d) \<and> length (queued q') \<le> 10"
proof -
  have f: "fits (through_queue 258 (gnss_packet float_bytes ps c))" for c
    using fits_gnss_packet [of float_bytes ps c] by (simp add: fits_def through_flight_queue)
  have "q' = q \<or> (\<exists>c ret. Send port (gnss_packet float_bytes ps c) K_NO_WAIT q = Some (ret, q'))"
    using assms(2) by (auto simp: gnss_Run_def gnss_publish_def split: if_splits option.splits prod.splits)
  then show ?thesis using message_port.send_all [OF assms(1) _ assms(3) f assms(4)] assms(3,4) by metis
qed

lemma readTransmitQueue_fits:
  assumes "message_port port queued 10 no_data (through_queue 258)"
    and "\<forall>d\<in>set (queued q). fits d" "length (queued q) \<le> 10"
  shows "\<exists>rx q'. readTransmitQueue port q = Some (rx, q') \<and> (\<forall>d. rx = Some d \<longrightarrow> fits d) \<and>
    (\<forall>d\<in>set (queued q'). fits d) \<and> length (queued q') \<le> 10"
proof -
  obtain ret m q' where r: "Receive port no_data (K_MSEC 10) q = Some (ret, m, q')"
      "case queued q of [] \<Rightarrow> ret < 0 \<and> m = no_data \<and> q' = q | m' # ms \<Rightarrow> ret = 0 \<and> m = m' \<and> queued q' = ms"
    using message_port.receive_no_wait [OF assms(1), of "K_MSEC 10" q] by auto
  then have "readTransmitQueue port q = Some (if ret < 0 then None else Some m, q')" by (simp add: readTransmitQueue_def)
  moreover have "\<forall>d. (if ret < 0 then None else Some m) = Some d \<longrightarrow> fits d" "\<forall>d\<in>set (queued q'). fits d" "length (queued q') \<le> 10"
    using r(2) assms(2,3) by (auto split: list.splits)
  ultimately show ?thesis by blast
qed

lemma transmit_turn_total:
  assumes "message_port port queued 10 no_data (through_queue 258)" "system_fits queued s"
  shows "\<exists>t q. transmit_turn_of ps ops port receiver boost landing (tt (module s), loraQueue s) = Some (t, q) \<and>
    system_fits queued (s\<lparr>module := (module s)\<lparr>tt := t\<rparr>, loraQueue := q\<rparr>)"
proof -
  obtain rx q where q: "readTransmitQueue port (loraQueue s) = Some (rx, q)" "\<forall>d. rx = Some d \<longrightarrow> fits d"
      "\<forall>d\<in>set (queued q). fits d" "length (queued q) \<le> 10"
    using readTransmitQueue_fits [OF assms(1)] assms(2) unfolding system_fits_def by blast
  obtain t where "tx_Run ps ops receiver boost landing rx (tt (module s)) = Some t" "tx_fits t"
    using tx_Run_total [of "tt (module s)" rx ps ops receiver boost landing] q(2) assms(2) by (auto simp: system_fits_def)
  then show ?thesis using q by (simp add: transmit_turn_of_def system_fits_def)
qed

lemma system_fits_step:
  assumes "message_port port queued 10 no_data (through_queue 258)" "recv_bounded nops"
    and "system_step float_bytes ps ops nops tops port lport s s'" "system_fits queued s"
  shows "system_fits queued s'"
  using assms(3)
proof (cases rule: system_step.cases)
  case (transmitted t q)
  then show ?thesis using transmit_turn_total [OF assms(1,4)] by (metis option.inject prod.inject)
next
  case (received t r w)
  then show ?thesis using assms(4) rx_Run_maps [OF received(2)] by (simp add: system_fits_def tx_fits_def)
next
  case (alerted u alert w)
  then show ?thesis using assms(4) by (auto simp: system_fits_def updater_Notify_def split: option.splits)
next
  case (shut_off t r)
  then show ?thesis using assms(4) by (auto simp: system_fits_def shutoffTimerExpirationFn_def tx_fits_def)
next
  case (listened u w q)
  then show ?thesis using listener_Run_fits [OF assms(1,2) listened(2)] assms(4) by (simp add: system_fits_def)
next
  case (published g tm q l)
  then show ?thesis using gnss_Run_fits [OF assms(1) published(2)] assms(4) by (simp add: system_fits_def)
qed (use assms(4) in \<open>simp_all add: system_fits_def\<close>)

lemma system_reachable_fits:
  assumes "message_port port queued 10 no_data (through_queue 258)" "recv_bounded nops"
    and "system_reachable float_bytes ps ops nops tops port lport queued s"
  shows "system_fits queued s"
  using assms(3)
proof (induction rule: system_reachable.induct)
  case (start h u w t q l s)
  then show ?case by (auto simp: system_start_def system_fits_def dest: radio_start_fits)
next
  case (steps s s')
  then show ?case using system_fits_step [OF assms(1,2)] by blast
qed

subsection \<open>Properties\<close>

text \<open>
  C12: in every reachable state of the flight build, whatever the network, the modem and the
  alerts did, the transmitter's next turn returns: the packets of the listeners and of the position
  tenant fit into a packet of the modem, so the check that stops the system never fires, no
  request names a port that the map lacks, and the queue keeps to its ten packets.
\<close>

theorem radio_transmitter_never_stops:
  assumes "message_port port queued 10 no_data (through_queue 258)" "recv_bounded nops"
    and "system_reachable float_bytes ps ops nops tops port lport queued s"
  shows "\<exists>t q. transmit_turn_of ps ops port False boost landing (tt (module s), loraQueue s) = Some (t, q) \<and>
    length (queued q) \<le> 10"
  using transmit_turn_total [OF assms(1) system_reachable_fits [OF assms]] by (fastforce simp: system_fits_def)

text \<open>A network that holds the next datagram, and a timer that counts, for the witnesses.\<close>

definition datagram_net :: "u8 list net_ops" where
  "datagram_net = alert_net\<lparr>zsock_recvfrom := \<lambda>_ len n. (int (length (take len n)), take len n, 0, n)\<rparr>"

definition counting_timer :: "(nat, unit) timer_ops" where
  "counting_timer = \<lparr>k_timer_start = \<lambda>_ _ _. 0, k_timer_stop = id, k_timer_status_get = \<lambda>t. (t, 0), k_timer_status_sync = Some,
     k_timer_remaining_ticks = \<lambda>_. 0, k_timer_remaining_get = \<lambda>_. 0, k_timer_user_data_set = \<lambda>_ t. t, k_timer_user_data_get = \<lambda>_. ()\<rparr>"

theorem radio_transmitter_never_stops_witness:
  "\<exists>s t q. system_reachable (\<lambda>_ :: rat. [0, 0, 0, 0]) example_ports example_radio datagram_net counting_timer (broadcast_port 258)
      \<lparr>Send = \<lambda>_ _ l. Some (0, l), Receive = \<lambda>m _ l. Some (0, m, l), Clear = id\<rparr> broadcast_queued
      (s :: (rat, nat, u8 list list \<times> u8 list \<times> (nat \<Rightarrow> bool), u8 list, u8 list list, unit) radio_system) \<and>
    length (loraQueue s) = 1 \<and>
    transmit_turn_of example_ports example_radio (broadcast_port 258) False False False (tt (module s), loraQueue s) = Some (t, q)"
proof -
  let ?u = "\<lparr>sock = 3, dstPort = 12\<rparr>" and ?w = "\<lparr>sync_addr = None, async_addr = None, net = [7, 8 :: u8]\<rparr>"
  let ?lp = "\<lparr>Send = \<lambda>_ _ l. Some (0, l), Receive = \<lambda>m _ l. Some (0, m, l), Clear = id\<rparr> :: (rat GnssLoggingData, unit) CMessagePort"
  obtain m where m: "radio_start example_ports example_radio ([], [], \<lambda>_. False) ?u ?w = Some m" "world m = ?w"
    by (simp add: radio_start_def tx_Startup_def insert_all_def listened_def example_ports_def hm_Insert_def hm_new_def
        hm_Contains_def Let_def)
  let ?s = "\<lparr>module = m, gnss = gnss_zero, transmitTimer = gnss_Startup counting_timer (timer_new 0), loraQueue = [], logQueue = ()\<rparr>
    :: (rat, nat, u8 list list \<times> u8 list \<times> (nat \<Rightarrow> bool), u8 list, u8 list list, unit) radio_system"
  let ?q = "[rb_bytes (listener_packet 12 2 [7, 8])]"
  have s: "system_reachable (\<lambda>_. [0, 0, 0, 0]) example_ports example_radio datagram_net counting_timer (broadcast_port 258) ?lp broadcast_queued ?s"
    by (rule system_reachable.start [of _ _ _ "([], [], \<lambda>_. False)" ?u ?w 0 "[]" "()"])
      (simp_all add: system_start_def m(1) broadcast_queued_def)
  have "ReceiveAsynchronous datagram_net ?u 254 ?w = (2, [7, 8], 0, ?w)"
    by (simp add: ReceiveAsynchronous_def set_nonblock_def datagram_net_def alert_net_def)
  then have "listener_Run datagram_net (broadcast_port 258) \<lparr>listen_udp = ?u, listenPort = 12\<rparr> (world (module ?s), loraQueue ?s) = Some (?w, ?q)"
    by (simp add: m(2) listener_Run_def broadcast_port_def CMsgqMessagePort_def msgq_Send_def kernel_queue_def length_rb_bytes ENOMSG_def)
  from system_reachable.steps [OF s system_step.listened [OF this]]
  have r: "system_reachable (\<lambda>_. [0, 0, 0, 0]) example_ports example_radio datagram_net counting_timer (broadcast_port 258) ?lp broadcast_queued
      (?s\<lparr>module := (module ?s)\<lparr>world := ?w\<rparr>, loraQueue := ?q\<rparr>)" .
  have "recv_bounded datagram_net" by (simp add: recv_bounded_def datagram_net_def alert_net_def)
  from radio_transmitter_never_stops [OF flight_queue.message_port_axioms this r, of False False] r show ?thesis by fastforce
qed

text \<open>
  C27: the ground station forwards a datagram of its network over LoRa as the number of its port and
  its bytes, in one turn of the listener and one of the transmitter. A datagram of the greatest
  size, 254 bytes, loses its last byte: the queue of this build is declared with messages of 256
  bytes where a packet has 258.
\<close>

theorem ground_station_forwards:
  assumes "modem_sends ops sent" "message_port port queued 10 no_data (through_queue 256)" "queued q = []"
    and "ReceiveAsynchronous nops (listen_udp u) 254 w = (int (length bytes), bytes, from, w')" "bytes \<noteq> []" "length bytes \<le> 254"
  shows "\<exists>q1 t' q2. listener_Run nops port u (w, q) = Some (w', q1) \<and>
    transmit_turn_of ps ops port True boost landing (t, q1) = Some (t', q2) \<and> queued q2 = [] \<and>
    sent (hw (lora t')) = sent (hw (lora t)) @
      [[ucast (listenPort u), ucast (drop_bit 8 (listenPort u))] @ (if length bytes = 254 then bytes[253 := 0] else bytes)]"
proof -
  let ?d = "listener_packet (listenPort u) (int (length bytes)) bytes"
  let ?k = "?d\<lparr>rb_data := (rb_data ?d)[253 := 0]\<rparr>"
  have n: "unat (rb_size ?d) = length bytes" using assms(6)
    by (simp add: listener_packet_def unat_of_nat take_bit_nat_eq_self)
  have sz: "sized ?d" using assms(6) by (simp add: sized_def listener_packet_def)
  obtain q1 where q1: "Send port ?d K_NO_WAIT q = Some (0, q1)" "queued q1 = [?k]"
    using message_port.send_room [OF assms(2), of q ?d K_NO_WAIT] assms(3) through_receiver_queue [OF sz] by auto
  then have l: "listener_Run nops port u (w, q) = Some (w', q1)" using assms(4,5) by (simp add: listener_Run_def ENOMSG_def)
  obtain q2 where q2: "readTransmitQueue port q1 = Some (Some ?k, q2)" "queued q2 = []"
    using message_port.receive_first [OF assms(2) q1(2), of "K_MSEC 10"] by (auto simp: readTransmitQueue_def)
  have "rb_size ?k \<noteq> 0" "unat (rb_size ?k) \<le> 254" using n assms(5,6) by auto
  then obtain l' where l': "transmit ops ?k (lora t) = Some l'" "sent (hw l') = sent (hw (lora t)) @ [packet ?k]"
    using transmit_sends [OF assms(1), of ?k "lora t"] by auto
  have "take (length bytes) ((take 254 (bytes @ replicate 254 0))[253 := 0]) = (if length bytes = 254 then bytes[253 := 0] else bytes)"
    using assms(6) by (auto simp: take_update_swap list_update_beyond)
  then have "packet ?k = [ucast (listenPort u), ucast (drop_bit 8 (listenPort u))] @ (if length bytes = 254 then bytes[253 := 0] else bytes)"
    using n by (simp add: packet_def) (simp add: listener_packet_def)
  then show ?thesis using l q2 l'
    by (simp add: transmit_turn_of_def tx_Run_def Clock_def sm_inputs_def tx_GroundRun_def tx_send_def Let_def)
qed

theorem ground_station_forwards_witness:
  "\<exists>q1 t' q2. listener_Run datagram_net (broadcast_port 256) \<lparr>listen_udp = \<lparr>sock = 3, dstPort = 13\<rparr>, listenPort = 13\<rparr>
      (\<lparr>sync_addr = None, async_addr = None, net = replicate 254 9\<rparr>, []) =
        Some (\<lparr>sync_addr = None, async_addr = None, net = replicate 254 9\<rparr>, q1) \<and>
    transmit_turn_of example_ports example_radio (broadcast_port 256) True False False
      (\<lparr>tx_sm = sm_new, lora = \<lparr>lora_tx = False, hw = ([], [], \<lambda>_. False)\<rparr>, portDataMap = hm_new, padDataRequestedMap = hm_new\<rparr>, q1) =
        Some (t', q2) \<and>
    fst (hw (lora t')) = [[13, 0] @ replicate 253 9 @ [0]]"
proof -
  let ?w = "\<lparr>sync_addr = None, async_addr = None, net = replicate 254 (9 :: u8)\<rparr>" and ?u = "\<lparr>sock = 3, dstPort = 13\<rparr>"
  have m: "modem_sends example_radio fst" by (simp add: modem_sends_def example_radio_def)
  have r: "ReceiveAsynchronous datagram_net ?u 254 ?w = (254, replicate 254 9, 0, ?w)"
    by (simp add: ReceiveAsynchronous_def set_nonblock_def datagram_net_def alert_net_def)
  have c: "(replicate 254 (9 :: u8))[253 := 0] = replicate 253 9 @ [0]"
    using upd_conv_take_nth_drop [of 253 "replicate 254 (9 :: u8)" 0] by simp
  show ?thesis
    using ground_station_forwards [OF m receiver_queue.message_port_axioms, of "[]" datagram_net "\<lparr>listen_udp = ?u, listenPort = 13\<rparr>" ?w
        "replicate 254 9" 0 ?w example_ports False False
        "\<lparr>tx_sm = sm_new, lora = \<lparr>lora_tx = False, hw = ([], [], \<lambda>_. False)\<rparr>, portDataMap = hm_new, padDataRequestedMap = hm_new\<rparr>"] r c
    by (fastforce simp: broadcast_queued_def)
qed

text \<open>
  A turn of the position tenant after a fix gives the data logger the fix with its time if the
  log's queue has room, and gives the transmitter its position, with the mark of an update, if the
  timer expired since it was last read and the queue has room. It takes back both marks: the next turn
  does nothing.
\<close>

theorem gnss_fix_published:
  assumes "message_port port queued 10 no_data (through_queue 258)" "message_port lport logqueue cap zero id"
    and "counts_expiries tops expired" "g' = gnssCallback uptime data g"
  shows "\<exists>tm' q' l'. gnss_Run float_bytes ps tops port lport (g', tm, q, l) = Some (gnss_finish g', tm', q', l') \<and>
    expired (timer tm') = 0 \<and>
    logqueue l' = logqueue l @ (if length (logqueue l) < cap then [gnssLogData g'] else []) \<and>
    queued q' = queued q @ (if 0 < expired (timer tm) \<and> length (queued q) < 10
      then [gnss_packet float_bytes ps (PopulateGnssNavigationData data (gd_coordinates (gnssData (gnssLogData g))))] else []) \<and>
    gnss_Run float_bytes ps tops port lport (gnss_finish g', tm', q', l') = Some (gnss_finish g', tm', q', l')"
proof -
  let ?p = "gnss_packet float_bytes ps (coordinates g')"
  obtain r1 l' where l': "Send lport (gnssLogData g') K_NO_WAIT l = Some (r1, l')"
      "logqueue l' = logqueue l @ (if length (logqueue l) < cap then [gnssLogData g'] else [])"
    using message_port.send_no_wait [OF assms(2), of "gnssLogData g'" l] by (auto split: if_splits)
  have k: "through_queue 258 ?p = ?p" using fits_gnss_packet [of float_bytes ps "coordinates g'"] by (simp add: fits_def through_flight_queue)
  obtain r2 q' where q': "Send port ?p K_NO_WAIT q = Some (r2, q')"
      "queued q' = queued q @ (if length (queued q) < 10 then [?p] else [])"
    using message_port.send_no_wait [OF assms(1), of ?p q] k by (auto split: if_splits)
  obtain b tm' where tm': "IsExpired tops tm = (b, tm')" by fastforce
  note e = IsExpired_counts [OF assms(3) tm']
  have c: "coordinates g' = PopulateGnssNavigationData data (gd_coordinates (gnssData (gnssLogData g)))" "gnssUpdated g'"
    using assms(4) by (simp_all add: gnssCallback_def PopulateGnssStruct_def Let_def)
  have "gnss_Run float_bytes ps tops port lport (g', tm, q, l) = Some (gnss_finish g', tm', if b then q' else q, l')"
    using c(2) l'(1) q'(1) tm' by (simp add: gnss_Run_def gnss_publish_def)
  moreover have "gnss_Run float_bytes ps tops port lport (gnss_finish g', st) = Some (gnss_finish g', st)" for st
    by (simp add: gnss_Run_def gnss_finish_def)
  ultimately show ?thesis using l'(2) q'(2) e c(1) by (cases b) auto
qed

text \<open>A port on a list, for the witness.\<close>

definition list_port :: "nat \<Rightarrow> 'm \<Rightarrow> ('m, 'm list) CMessagePort" where
  "list_port cap zero = \<lparr>Send = \<lambda>m t q. if length q < cap then Some (0, q @ [m]) else if t = K_FOREVER then None else Some (- ENOMSG, q),
     Receive = \<lambda>_ t q. (case q of m # ms \<Rightarrow> Some (0, m, ms) | [] \<Rightarrow> if t = K_FOREVER then None else Some (- ENOMSG, zero, [])),
     Clear = \<lambda>_. []\<rparr>"

lemma list_port_contract: "message_port (list_port cap zero) id cap zero id"
  by unfold_locales (auto simp: list_port_def ENOMSG_def)

theorem gnss_fix_published_witness:
  "\<exists>tm' q' l'. gnss_Run (\<lambda>_ :: rat. [0, 0, 0, 0]) example_ports counting_timer (broadcast_port 258)
      (list_port 10 (gnssLogData gnss_zero)) (gnssCallback 7 \<lparr>nav_latitude = 5, nav_longitude = 6, nav_altitude = 7\<rparr> gnss_zero,
        \<lparr>timer = 1, running = True\<rparr>, [], []) =
      Some (gnss_finish (gnssCallback 7 \<lparr>nav_latitude = 5, nav_longitude = 6, nav_altitude = 7\<rparr> gnss_zero), tm', q', l') \<and>
    length (broadcast_queued q') = 1 \<and> length l' = 1"
proof -
  have "counts_expiries counting_timer id" by (simp add: counts_expiries_def counting_timer_def)
  from gnss_fix_published [OF flight_queue.message_port_axioms list_port_contract [of 10 "gnssLogData gnss_zero"] this refl,
      where uptime = 7 and data = "\<lparr>nav_latitude = 5, nav_longitude = 6, nav_altitude = 7\<rparr>" and g = gnss_zero
        and float_bytes = "\<lambda>_ :: rat. [0, 0, 0, 0]" and ps = example_ports and tm = "\<lparr>timer = 1, running = True\<rparr>"
        and q = "[]" and l = "[]"]
  show ?thesis by (fastforce simp: broadcast_queued_def)
qed

end
