(* ===== verification/Sensing.thy ===== *)
theory Sensing
  imports Detection_Handler Bus
begin

text \<open>
  The sensor classes of \<open>lib/f_core/device/sensor\<close>, the sensing tenants of the sensor module and
  of the power module and the choice of the name of the flight log. The sensor calls of Zephyr
  are parameters on \<open>'h\<close>; a device is a number. \<open>None\<close> is \<open>k_oops\<close>.
\<close>

subsection \<open>Sensor classes\<close>

text \<open>
  A channel of three axes writes three values; a driver may write them and fail. \<open>sensor_channel_get\<close>
  gives its result and the values it wrote.
\<close>

record 'h sensor_api =
  device_is_ready :: "nat \<Rightarrow> bool"
  sensor_sample_fetch :: "nat \<Rightarrow> 'h \<Rightarrow> int \<times> 'h"
  sensor_channel_get :: "nat \<Rightarrow> sensor_channel \<Rightarrow> 'h \<Rightarrow> int \<times> sensor_value list \<times> 'h"
  sensor_attr_set :: "nat \<Rightarrow> sensor_channel \<Rightarrow> sensor_value \<Rightarrow> 'h \<Rightarrow> int \<times> 'h"

record CSensorDevice =
  dev :: nat
  isInitialized :: bool

definition sensor_device_new :: "'h sensor_api \<Rightarrow> nat \<Rightarrow> CSensorDevice" where
  "sensor_device_new api d = \<lparr>dev = d, isInitialized = device_is_ready api d\<rparr>"

definition base_UpdateSensorValue :: "'h sensor_api \<Rightarrow> CSensorDevice \<Rightarrow> 'h \<Rightarrow> bool \<times> 'h" where
  "base_UpdateSensorValue api s h =
     (if isInitialized s then (case sensor_sample_fetch api (dev s) h of (r, h) \<Rightarrow> (r = 0, h)) else (False, h))"

definition Configure :: "'h sensor_api \<Rightarrow> sensor_channel \<Rightarrow> sensor_value \<Rightarrow> CSensorDevice \<Rightarrow> 'h \<Rightarrow> int \<times> 'h" where
  "Configure api channel v s h = sensor_attr_set api (dev s) channel v h"

text \<open>Accelerometers, gyroscopes and magnetometers: the values are an array of three.\<close>

record vector_sensor = CSensorDevice +
  axes :: "sensor_value \<times> sensor_value \<times> sensor_value"

definition write_axes :: "sensor_value list \<Rightarrow> vector_sensor \<Rightarrow> vector_sensor" where
  "write_axes vs s = (case vs of [x, y, z] \<Rightarrow> s\<lparr>axes := (x, y, z)\<rparr> | _ \<Rightarrow> s)"

definition vector_UpdateSensorValue ::
  "'h sensor_api \<Rightarrow> sensor_channel \<Rightarrow> vector_sensor \<Rightarrow> 'h \<Rightarrow> bool \<times> vector_sensor \<times> 'h" where
  "vector_UpdateSensorValue api chan s h =
     (case base_UpdateSensorValue api (CSensorDevice.truncate s) h of
        (ok, h) \<Rightarrow>
          if ok then case sensor_channel_get api (dev s) chan h of (r, vs, h) \<Rightarrow> (r = 0, write_axes vs s, h)
          else (False, s, h))"

definition vector_GetSensorValue ::
  "sensor_channel \<times> sensor_channel \<times> sensor_channel \<Rightarrow> sensor_channel \<Rightarrow> vector_sensor \<Rightarrow> sensor_value option" where
  "vector_GetSensorValue chans chan s =
     (case chans of (cx, cy, cz) \<Rightarrow> case axes s of (x, y, z) \<Rightarrow>
        if chan = cx then Some x else if chan = cy then Some y else if chan = cz then Some z else None)"

definition accel_chans :: "sensor_channel \<times> sensor_channel \<times> sensor_channel" where
  "accel_chans = (SENSOR_CHAN_ACCEL_X, SENSOR_CHAN_ACCEL_Y, SENSOR_CHAN_ACCEL_Z)"
definition gyro_chans :: "sensor_channel \<times> sensor_channel \<times> sensor_channel" where
  "gyro_chans = (SENSOR_CHAN_GYRO_X, SENSOR_CHAN_GYRO_Y, SENSOR_CHAN_GYRO_Z)"
definition magn_chans :: "sensor_channel \<times> sensor_channel \<times> sensor_channel" where
  "magn_chans = (SENSOR_CHAN_MAGN_X, SENSOR_CHAN_MAGN_Y, SENSOR_CHAN_MAGN_Z)"

record CBarometer = CSensorDevice +
  pressure :: sensor_value
  temperature :: sensor_value

text \<open>A driver that writes nothing leaves the zero the variable was initialised with.\<close>

definition zero_value :: sensor_value where "zero_value = \<lparr>val1 = 0, val2 = 0\<rparr>"

definition get_one :: "'h sensor_api \<Rightarrow> nat \<Rightarrow> sensor_channel \<Rightarrow> 'h \<Rightarrow> int \<times> sensor_value \<times> 'h" where
  "get_one api d chan h =
     (case sensor_channel_get api d chan h of (r, vs, h) \<Rightarrow> (r, case vs of [] \<Rightarrow> zero_value | v # _ \<Rightarrow> v, h))"

definition barometer_UpdateSensorValue :: "'h sensor_api \<Rightarrow> CBarometer \<Rightarrow> 'h \<Rightarrow> bool \<times> CBarometer \<times> 'h" where
  "barometer_UpdateSensorValue api s h =
     (case base_UpdateSensorValue api (CSensorDevice.truncate s) h of
        (ok, h) \<Rightarrow>
          if \<not> ok then (False, s, h)
          else case get_one api (dev s) SENSOR_CHAN_PRESS h of
            (r, p, h) \<Rightarrow>
              if r < 0 then (False, s, h)
              else case get_one api (dev s) SENSOR_CHAN_AMBIENT_TEMP h of
                (r, t, h) \<Rightarrow> if r < 0 then (False, s, h) else (True, s\<lparr>pressure := p, temperature := t\<rparr>, h))"

definition barometer_GetSensorValue :: "sensor_channel \<Rightarrow> CBarometer \<Rightarrow> sensor_value option" where
  "barometer_GetSensorValue chan s =
     (if chan = SENSOR_CHAN_PRESS then Some (pressure s)
      else if chan = SENSOR_CHAN_AMBIENT_TEMP then Some (temperature s) else None)"

record CTemperatureSensor = CSensorDevice +
  thermo_value :: sensor_value

definition thermometer_UpdateSensorValue :: "'h sensor_api \<Rightarrow> CTemperatureSensor \<Rightarrow> 'h \<Rightarrow> bool \<times> CTemperatureSensor \<times> 'h" where
  "thermometer_UpdateSensorValue api s h =
     (case base_UpdateSensorValue api (CSensorDevice.truncate s) h of
        (ok, h) \<Rightarrow>
          if \<not> ok then (False, s, h)
          else case sensor_channel_get api (dev s) SENSOR_CHAN_AMBIENT_TEMP h of
            (r, vs, h) \<Rightarrow> (r = 0, case vs of [] \<Rightarrow> s | v # _ \<Rightarrow> s\<lparr>thermo_value := v\<rparr>, h))"

definition thermometer_GetSensorValue :: "sensor_channel \<Rightarrow> CTemperatureSensor \<Rightarrow> sensor_value option" where
  "thermometer_GetSensorValue chan s = (if chan = SENSOR_CHAN_AMBIENT_TEMP then Some (thermo_value s) else None)"

record CShunt = CSensorDevice +
  voltage :: sensor_value
  current :: sensor_value
  power :: sensor_value

definition shunt_UpdateSensorValue :: "'h sensor_api \<Rightarrow> CShunt \<Rightarrow> 'h \<Rightarrow> bool \<times> CShunt \<times> 'h" where
  "shunt_UpdateSensorValue api s h =
     (case base_UpdateSensorValue api (CSensorDevice.truncate s) h of
        (ok, h) \<Rightarrow>
          if \<not> ok then (False, s, h)
          else case get_one api (dev s) SENSOR_CHAN_VOLTAGE h of
            (r, v, h) \<Rightarrow>
              if r < 0 then (False, s, h)
              else case get_one api (dev s) SENSOR_CHAN_CURRENT h of
                (r, c, h) \<Rightarrow>
                  if r < 0 then (False, s, h)
                  else case get_one api (dev s) SENSOR_CHAN_POWER h of
                    (r, p, h) \<Rightarrow>
                      if r < 0 then (False, s, h) else (True, s\<lparr>voltage := v, current := c, power := p\<rparr>, h))"

definition shunt_GetSensorValue :: "sensor_channel \<Rightarrow> CShunt \<Rightarrow> sensor_value option" where
  "shunt_GetSensorValue chan s =
     (if chan = SENSOR_CHAN_VOLTAGE then Some (voltage s) else if chan = SENSOR_CHAN_CURRENT then Some (current s)
      else if chan = SENSOR_CHAN_POWER then Some (power s) else None)"

subsection \<open>The sensing tenant of the sensor module\<close>

record 'a SensorData = "'a sensor_frame" +
  imu_gyroscope :: "'a \<times> 'a \<times> 'a"
  magnetometer :: "'a \<times> 'a \<times> 'a"
  primary_temperature :: 'a
  secondary_temperature :: 'a
  thermo_temperature :: 'a

record sensors =
  imuAccelerometer :: vector_sensor
  imuGyroscope :: vector_sensor
  primaryBarometer :: CBarometer
  secondaryBarometer :: CBarometer
  accelerometer :: vector_sensor
  thermometer :: CTemperatureSensor
  magnetometer_dev :: vector_sensor

definition float_axes ::
  "(sensor_value \<Rightarrow> 'a) \<Rightarrow> sensor_channel \<times> sensor_channel \<times> sensor_channel \<Rightarrow> vector_sensor \<Rightarrow> ('a \<times> 'a \<times> 'a) option" where
  "float_axes to_float chans s =
     (case chans of (cx, cy, cz) \<Rightarrow> do {
        x \<leftarrow> vector_GetSensorValue chans cx s;
        y \<leftarrow> vector_GetSensorValue chans cy s;
        z \<leftarrow> vector_GetSensorValue chans cz s;
        Some (to_float x, to_float y, to_float z) })"

text \<open>All sensors are read, also when one fails: a failed sensor keeps its last value.\<close>

definition update_sensors :: "'h sensor_api \<Rightarrow> sensors \<Rightarrow> 'h \<Rightarrow> sensor_workings \<times> sensors \<times> 'h" where
  "update_sensors api ss h =
     (let (_, g, h) = vector_UpdateSensorValue api SENSOR_CHAN_GYRO_XYZ (imuGyroscope ss) h;
          (imu_ok, i, h) = vector_UpdateSensorValue api SENSOR_CHAN_ACCEL_XYZ (imuAccelerometer ss) h;
          (p_ok, p, h) = barometer_UpdateSensorValue api (primaryBarometer ss) h;
          (s_ok, s, h) = barometer_UpdateSensorValue api (secondaryBarometer ss) h;
          (a_ok, a, h) = vector_UpdateSensorValue api SENSOR_CHAN_ACCEL_XYZ (accelerometer ss) h;
          (_, t, h) = thermometer_UpdateSensorValue api (thermometer ss) h;
          (_, m, h) = vector_UpdateSensorValue api SENSOR_CHAN_MAGN_XYZ (magnetometer_dev ss) h
      in (\<lparr>primaryAccOk = imu_ok, secondaryAccOk = a_ok, primaryBarometerOk = p_ok, secondaryBarometerOk = s_ok\<rparr>,
          \<lparr>imuAccelerometer = i, imuGyroscope = g, primaryBarometer = p, secondaryBarometer = s, accelerometer = a,
           thermometer = t, magnetometer_dev = m\<rparr>, h))"

definition collect :: "(sensor_value \<Rightarrow> 'a) \<Rightarrow> sensors \<Rightarrow> 'a SensorData option" where
  "collect to_float ss = do {
     acc \<leftarrow> float_axes to_float accel_chans (accelerometer ss);
     imu \<leftarrow> float_axes to_float accel_chans (imuAccelerometer ss);
     gyro \<leftarrow> float_axes to_float gyro_chans (imuGyroscope ss);
     mag \<leftarrow> float_axes to_float magn_chans (magnetometer_dev ss);
     pp \<leftarrow> barometer_GetSensorValue SENSOR_CHAN_PRESS (primaryBarometer ss);
     pt \<leftarrow> barometer_GetSensorValue SENSOR_CHAN_AMBIENT_TEMP (primaryBarometer ss);
     sp \<leftarrow> barometer_GetSensorValue SENSOR_CHAN_PRESS (secondaryBarometer ss);
     st \<leftarrow> barometer_GetSensorValue SENSOR_CHAN_AMBIENT_TEMP (secondaryBarometer ss);
     t \<leftarrow> thermometer_GetSensorValue SENSOR_CHAN_AMBIENT_TEMP (thermometer ss);
     Some \<lparr>imu_acceleration = imu, acceleration = acc, primary_pressure = to_float pp, secondary_pressure = to_float sp,
       imu_gyroscope = gyro, magnetometer = mag, primary_temperature = to_float pt, secondary_temperature = to_float st,
       thermo_temperature = to_float t\<rparr> }"

text \<open>The data given to the queues, if any, is the last component of the result.\<close>

definition sensing_Run ::
  "'h sensor_api \<Rightarrow> (sensor_value \<Rightarrow> 'a) \<Rightarrow> ('a \<Rightarrow> 'a \<Rightarrow> 'a) \<Rightarrow> 'f pc_config \<Rightarrow> (nat \<Rightarrow> nat \<Rightarrow> int \<times> int) \<Rightarrow> u64 \<Rightarrow>
     sensors \<times> 'h \<Rightarrow> 'a::linordered_field detection_handler \<times> 'f pc_state \<Rightarrow>
     ((sensors \<times> 'h) \<times> ('a detection_handler \<times> 'f pc_state) \<times> 'a SensorData option) option" where
  "sensing_Run api to_float pow cfg clk uptime sh hs = do {
     continue \<leftarrow> ContinueCollecting (snd hs);
     if \<not> continue then Some (sh, hs, None)
     else case update_sensors api (fst sh) (snd sh) of
       (sensor_states, ss, h) \<Rightarrow> do {
         data \<leftarrow> collect to_float ss;
         hs \<leftarrow> HandleData pow cfg clk uptime (sensor_frame.truncate data) sensor_states hs;
         Some ((ss, h), hs, Some data) } }"


text \<open>\<open>Startup\<close>: both parts of the inertial unit at 104 Hz; a failure is only logged.\<close>

definition sensing_Startup :: "'h sensor_api \<Rightarrow> sensors \<Rightarrow> 'h \<Rightarrow> 'h" where
  "sensing_Startup api ss h =
     (let imuOdr = \<lparr>val1 = 104, val2 = 0\<rparr>;
          h = snd (Configure api SENSOR_CHAN_ACCEL_XYZ imuOdr (CSensorDevice.truncate (imuAccelerometer ss)) h)
      in snd (Configure api SENSOR_CHAN_GYRO_XYZ imuOdr (CSensorDevice.truncate (imuGyroscope ss)) h))"

subsection \<open>The sensing tenant of the power module\<close>

record 'a rail =
  Voltage :: 'a
  Current :: 'a
  Power :: 'a

record 'a PowerData =
  RailBattery :: "'a rail"
  Rail3v3 :: "'a rail"
  Rail5v0 :: "'a rail"

definition read_rail :: "(sensor_value \<Rightarrow> 'a) \<Rightarrow> CShunt \<Rightarrow> 'a rail option" where
  "read_rail to_float s = do {
     c \<leftarrow> shunt_GetSensorValue SENSOR_CHAN_CURRENT s;
     v \<leftarrow> shunt_GetSensorValue SENSOR_CHAN_VOLTAGE s;
     p \<leftarrow> shunt_GetSensorValue SENSOR_CHAN_POWER s;
     Some \<lparr>Voltage = to_float v, Current = to_float c, Power = to_float p\<rparr> }"

text \<open>
  The shunts are local objects without initial values: \<open>batt\<close>, \<open>s3v3\<close> and \<open>s5v0\<close> are what
  the stack held. The battery shunt is updated and never read.
\<close>

definition power_data :: "(sensor_value \<Rightarrow> 'a::field) \<Rightarrow> 'h sensor_api \<Rightarrow> CShunt \<times> CShunt \<times> CShunt \<Rightarrow> 'h \<Rightarrow> ('a PowerData \<times> 'h) option" where
  "power_data to_float api shunts h =
     (case shunts of (batt, s3v3, s5v0) \<Rightarrow>
      let (_, batt, h) = shunt_UpdateSensorValue api batt h;
          (_, s3v3, h) = shunt_UpdateSensorValue api s3v3 h;
          (_, s5v0, h) = shunt_UpdateSensorValue api s5v0 h
      in do {
        r3 \<leftarrow> read_rail to_float s3v3;
        r5 \<leftarrow> read_rail to_float s5v0;
        Some (\<lparr>RailBattery = \<lparr>Voltage = 12, Current = 0, Power = 0\<rparr>, Rail3v3 = r3, Rail5v0 = r5\<rparr>, h) })"

text \<open>One turn: what is broadcast, and what is logged if logging is on.\<close>

definition power_Run ::
  "(sensor_value \<Rightarrow> 'a::field) \<Rightarrow> 'h sensor_api \<Rightarrow> bool \<Rightarrow> CShunt \<times> CShunt \<times> CShunt \<Rightarrow> 'h \<Rightarrow>
     ('a PowerData \<times> 'a PowerData option \<times> 'h) option" where
  "power_Run to_float api logData shunts h =
     map_option (\<lambda>(data, h). (data, if logData then Some data else None, h)) (power_data to_float api shunts h)"

definition power_Notify :: "u16 \<Rightarrow> bool \<Rightarrow> bool" where
  "power_Notify alert logData = (if alert = 0x62 then True else if alert = 0x6C then False else logData)"

subsection \<open>The name of the flight log\<close>

definition ENOENT :: int where "ENOENT = 2"

text \<open>\<open>%02d\<close>\<close>

definition two_digits :: "nat \<Rightarrow> string" where
  "two_digits i = (if i < 10 then ''0'' @ dec i else dec i)"

definition log_name :: "nat \<Rightarrow> string" where
  "log_name i = ''/lfs/flight_log'' @ two_digits i @ ''.txt''"

fun find_log_path :: "(char, 'f) fs_ops \<Rightarrow> 'f \<Rightarrow> string \<Rightarrow> nat list \<Rightarrow> string" where
  "find_log_path fs f path [] = path"
| "find_log_path fs f path (i # is) =
     (let path = log_name i; ret = fst (fs_stat fs path f) in
      if ret = - ENOENT then path else if ret \<noteq> 0 then path else find_log_path fs f path is)"

definition generateFlightLogPath :: "(char, 'f) fs_ops \<Rightarrow> 'f \<Rightarrow> string" where
  "generateFlightLogPath fs f = find_log_path fs f [] [0..<100]"

text \<open>
  The log gets the first name for which the file system does not report an existing file, and
  the last of the hundred names when all exist.
\<close>

lemma find_log_path_first:
  "find_log_path fs f path is = (case List.find (\<lambda>i. fst (fs_stat fs (log_name i) f) \<noteq> 0) is of
      Some i \<Rightarrow> log_name i | None \<Rightarrow> if is = [] then path else log_name (last is))"
  by (induction "is" arbitrary: path) (auto simp: Let_def ENOENT_def split: option.splits)

lemma flight_log_name_first:
  "generateFlightLogPath fs f =
     log_name (case List.find (\<lambda>i. fst (fs_stat fs (log_name i) f) \<noteq> 0) [0..<100] of Some k \<Rightarrow> k | None \<Rightarrow> 99)"
  by (simp add: generateFlightLogPath_def find_log_path_first split: option.splits)

subsection \<open>Properties\<close>

lemma float_axes_total:
  "chans \<in> {accel_chans, gyro_chans, magn_chans} \<Longrightarrow> \<exists>v. float_axes to_float chans s = Some v"
  by (cases "axes s")
    (auto simp: float_axes_def vector_GetSensorValue_def accel_chans_def gyro_chans_def magn_chans_def)

lemma collect_total: "\<exists>data. collect to_float ss = Some data"
proof -
  obtain a b c d where "float_axes to_float accel_chans (accelerometer ss) = Some a"
    "float_axes to_float accel_chans (imuAccelerometer ss) = Some b" "float_axes to_float gyro_chans (imuGyroscope ss) = Some c"
    "float_axes to_float magn_chans (magnetometer_dev ss) = Some d"
    using float_axes_total by (metis insertI1 insertI2)
  then show ?thesis by (simp add: collect_def barometer_GetSensorValue_def thermometer_GetSensorValue_def)
qed

text \<open>
  What a turn should show of the sensors. A device that works all the time gives the same values on a channel whenever it is asked;
  a sensor fails when its device was not ready at the start or no fetch succeeds.
\<close>

definition gives :: "'h sensor_api \<Rightarrow> nat \<Rightarrow> sensor_channel \<Rightarrow> sensor_value list \<Rightarrow> bool" where
  "gives api d chan vs \<longleftrightarrow>
     (\<forall>h. fst (sensor_sample_fetch api d h) = 0) \<and> (\<forall>h. \<exists>h'. sensor_channel_get api d chan h = (0, vs, h'))"

definition fails :: "'h sensor_api \<Rightarrow> 'x CSensorDevice_scheme \<Rightarrow> bool" where
  "fails api s \<longleftrightarrow> \<not> isInitialized s \<or> (\<forall>h. fst (sensor_sample_fetch api (dev s) h) \<noteq> 0)"

definition float3 :: "(sensor_value \<Rightarrow> 'a) \<Rightarrow> sensor_value \<times> sensor_value \<times> sensor_value \<Rightarrow> 'a \<times> 'a \<times> 'a" where
  "float3 to_float v = (case v of (x, y, z) \<Rightarrow> (to_float x, to_float y, to_float z))"

text \<open>A field and a flag show the sensor: its values and true when it works, its last values and false when it fails.\<close>

definition shows_vector :: "'h sensor_api \<Rightarrow> (sensor_value \<Rightarrow> 'a) \<Rightarrow> sensor_channel \<Rightarrow> vector_sensor \<Rightarrow> bool \<Rightarrow> 'a \<times> 'a \<times> 'a \<Rightarrow> bool" where
  "shows_vector api to_float chan s flag field \<longleftrightarrow>
     (\<forall>x y z. isInitialized s \<and> gives api (dev s) chan [x, y, z] \<longrightarrow> flag \<and> field = float3 to_float (x, y, z)) \<and>
     (fails api s \<longrightarrow> \<not> flag \<and> field = float3 to_float (axes s))"

definition shows_barometer :: "'h sensor_api \<Rightarrow> (sensor_value \<Rightarrow> 'a) \<Rightarrow> CBarometer \<Rightarrow> bool \<Rightarrow> 'a \<Rightarrow> 'a \<Rightarrow> bool" where
  "shows_barometer api to_float s flag p t \<longleftrightarrow>
     (\<forall>vp vt. isInitialized s \<and> gives api (dev s) SENSOR_CHAN_PRESS [vp] \<and> gives api (dev s) SENSOR_CHAN_AMBIENT_TEMP [vt] \<longrightarrow>
        flag \<and> p = to_float vp \<and> t = to_float vt) \<and>
     (fails api s \<longrightarrow> \<not> flag \<and> p = to_float (pressure s) \<and> t = to_float (temperature s))"

definition shows_thermometer :: "'h sensor_api \<Rightarrow> (sensor_value \<Rightarrow> 'a) \<Rightarrow> CTemperatureSensor \<Rightarrow> 'a \<Rightarrow> bool" where
  "shows_thermometer api to_float s t \<longleftrightarrow>
     (\<forall>v. isInitialized s \<and> gives api (dev s) SENSOR_CHAN_AMBIENT_TEMP [v] \<longrightarrow> t = to_float v) \<and>
     (fails api s \<longrightarrow> t = to_float (thermo_value s))"

definition shows_sensors :: "'h sensor_api \<Rightarrow> (sensor_value \<Rightarrow> 'a) \<Rightarrow> sensors \<Rightarrow> sensor_workings \<Rightarrow> 'a SensorData \<Rightarrow> bool" where
  "shows_sensors api to_float ss ok data \<longleftrightarrow>
     shows_vector api to_float SENSOR_CHAN_ACCEL_XYZ (imuAccelerometer ss) (primaryAccOk ok) (imu_acceleration data) \<and>
     shows_vector api to_float SENSOR_CHAN_ACCEL_XYZ (accelerometer ss) (secondaryAccOk ok) (acceleration data) \<and>
     (\<exists>flag. shows_vector api to_float SENSOR_CHAN_GYRO_XYZ (imuGyroscope ss) flag (imu_gyroscope data)) \<and>
     (\<exists>flag. shows_vector api to_float SENSOR_CHAN_MAGN_XYZ (magnetometer_dev ss) flag (magnetometer data)) \<and>
     shows_barometer api to_float (primaryBarometer ss) (primaryBarometerOk ok) (primary_pressure data) (primary_temperature data) \<and>
     shows_barometer api to_float (secondaryBarometer ss) (secondaryBarometerOk ok) (secondary_pressure data) (secondary_temperature data) \<and>
     shows_thermometer api to_float (thermometer ss) (thermo_temperature data)"

text \<open>The devices behind the sensors.\<close>

definition devices :: "sensors \<Rightarrow> (nat \<times> bool) list" where
  "devices ss =
     [(dev (imuAccelerometer ss), isInitialized (imuAccelerometer ss)), (dev (imuGyroscope ss), isInitialized (imuGyroscope ss)),
      (dev (primaryBarometer ss), isInitialized (primaryBarometer ss)), (dev (secondaryBarometer ss), isInitialized (secondaryBarometer ss)),
      (dev (accelerometer ss), isInitialized (accelerometer ss)), (dev (thermometer ss), isInitialized (thermometer ss)),
      (dev (magnetometer_dev ss), isInitialized (magnetometer_dev ss))]"

lemma gives_get: "gives api d chan vs \<Longrightarrow> sensor_channel_get api d chan h = (r, vs', h') \<Longrightarrow> r = 0 \<and> vs' = vs"
  by (auto simp: gives_def) (metis fst_conv snd_conv)+

lemma vector_shows:
  assumes "vector_UpdateSensorValue api chan s h = (ok, s', h')"
  shows "shows_vector api to_float chan s ok (float3 to_float (axes s')) \<and> dev s' = dev s \<and> isInitialized s' = isInitialized s"
proof -
  have w: "dev (write_axes vs s) = dev s \<and> isInitialized (write_axes vs s) = isInitialized s" for vs
    by (auto simp: write_axes_def split: list.split)
  show ?thesis
  proof (cases "isInitialized s \<and> fst (sensor_sample_fetch api (dev s) h) = 0")
    case True
    obtain h1 where f: "sensor_sample_fetch api (dev s) h = (0, h1)" using True by (cases "sensor_sample_fetch api (dev s) h") auto
    obtain r vs h2 where g: "sensor_channel_get api (dev s) chan h1 = (r, vs, h2)" by (metis prod_cases3)
    have "ok = (r = 0)" "s' = write_axes vs s"
      using assms True f g by (simp_all add: vector_UpdateSensorValue_def base_UpdateSensorValue_def CSensorDevice.truncate_def)
    moreover have "\<not> fails api s" using True by (auto simp: fails_def)
    ultimately show ?thesis using gives_get [OF _ g] w by (auto simp: shows_vector_def write_axes_def)
  next
    case False
    then have "\<not> ok \<and> s' = s"
      using assms by (auto simp: vector_UpdateSensorValue_def base_UpdateSensorValue_def CSensorDevice.truncate_def split: prod.splits if_splits)
    then show ?thesis using False by (auto simp: shows_vector_def gives_def)
  qed
qed

lemma barometer_shows:
  assumes "barometer_UpdateSensorValue api s h = (ok, s', h')"
  shows "shows_barometer api to_float s ok (to_float (pressure s')) (to_float (temperature s')) \<and>
    dev s' = dev s \<and> isInitialized s' = isInitialized s"
proof (cases "isInitialized s \<and> fst (sensor_sample_fetch api (dev s) h) = 0")
  case True
  obtain h1 where f: "sensor_sample_fetch api (dev s) h = (0, h1)" using True by (cases "sensor_sample_fetch api (dev s) h") auto
  obtain r1 vs1 h2 where g: "sensor_channel_get api (dev s) SENSOR_CHAN_PRESS h1 = (r1, vs1, h2)" by (metis prod_cases3)
  obtain r2 vs2 h3 where g2: "sensor_channel_get api (dev s) SENSOR_CHAN_AMBIENT_TEMP h2 = (r2, vs2, h3)" by (metis prod_cases3)
  have "\<not> fails api s" using True by (auto simp: fails_def)
  then show ?thesis using assms True f g g2 gives_get [OF _ g] gives_get [OF _ g2]
    by (auto simp: barometer_UpdateSensorValue_def base_UpdateSensorValue_def CSensorDevice.truncate_def get_one_def shows_barometer_def
        split: if_splits)
next
  case False
  then have "\<not> ok \<and> s' = s"
    using assms by (auto simp: barometer_UpdateSensorValue_def base_UpdateSensorValue_def CSensorDevice.truncate_def split: prod.splits if_splits)
  then show ?thesis using False by (auto simp: shows_barometer_def gives_def)
qed

lemma thermometer_shows:
  assumes "thermometer_UpdateSensorValue api s h = (ok, s', h')"
  shows "shows_thermometer api to_float s (to_float (thermo_value s')) \<and> dev s' = dev s \<and> isInitialized s' = isInitialized s"
proof (cases "isInitialized s \<and> fst (sensor_sample_fetch api (dev s) h) = 0")
  case True
  obtain h1 where f: "sensor_sample_fetch api (dev s) h = (0, h1)" using True by (cases "sensor_sample_fetch api (dev s) h") auto
  obtain r vs h2 where g: "sensor_channel_get api (dev s) SENSOR_CHAN_AMBIENT_TEMP h1 = (r, vs, h2)" by (metis prod_cases3)
  have "\<not> fails api s" using True by (auto simp: fails_def)
  moreover have "s' = (case vs of [] \<Rightarrow> s | v # _ \<Rightarrow> s\<lparr>thermo_value := v\<rparr>)"
    using assms True f g by (simp add: thermometer_UpdateSensorValue_def base_UpdateSensorValue_def CSensorDevice.truncate_def)
  moreover have "gives api (dev s) SENSOR_CHAN_AMBIENT_TEMP [v] \<Longrightarrow> vs = [v]" for v using gives_get [OF _ g] by auto
  ultimately show ?thesis by (auto simp: shows_thermometer_def split: list.split)
next
  case False
  then have "s' = s"
    using assms by (auto simp: thermometer_UpdateSensorValue_def base_UpdateSensorValue_def CSensorDevice.truncate_def split: prod.splits if_splits)
  then show ?thesis using False by (auto simp: shows_thermometer_def gives_def)
qed

lemma float_axes_float3:
  "chans \<in> {accel_chans, gyro_chans, magn_chans} \<Longrightarrow> float_axes to_float chans s = Some (float3 to_float (axes s))"
  by (cases "axes s")
    (auto simp: float_axes_def vector_GetSensorValue_def accel_chans_def gyro_chans_def magn_chans_def float3_def)

lemma update_collect_shows:
  assumes "update_sensors api ss h = (ok, ss', h')" "collect to_float ss' = Some data"
  shows "shows_sensors api to_float ss ok data \<and> devices ss' = devices ss"
proof -
  obtain g_ok g h1 where 1: "vector_UpdateSensorValue api SENSOR_CHAN_GYRO_XYZ (imuGyroscope ss) h = (g_ok, g, h1)" by (metis prod_cases3)
  obtain i_ok i h2 where 2: "vector_UpdateSensorValue api SENSOR_CHAN_ACCEL_XYZ (imuAccelerometer ss) h1 = (i_ok, i, h2)" by (metis prod_cases3)
  obtain p_ok p h3 where 3: "barometer_UpdateSensorValue api (primaryBarometer ss) h2 = (p_ok, p, h3)" by (metis prod_cases3)
  obtain s_ok s h4 where 4: "barometer_UpdateSensorValue api (secondaryBarometer ss) h3 = (s_ok, s, h4)" by (metis prod_cases3)
  obtain a_ok a h5 where 5: "vector_UpdateSensorValue api SENSOR_CHAN_ACCEL_XYZ (accelerometer ss) h4 = (a_ok, a, h5)" by (metis prod_cases3)
  obtain t_ok t h6 where 6: "thermometer_UpdateSensorValue api (thermometer ss) h5 = (t_ok, t, h6)" by (metis prod_cases3)
  obtain m_ok m h7 where 7: "vector_UpdateSensorValue api SENSOR_CHAN_MAGN_XYZ (magnetometer_dev ss) h6 = (m_ok, m, h7)" by (metis prod_cases3)
  have ok: "ok = \<lparr>primaryAccOk = i_ok, secondaryAccOk = a_ok, primaryBarometerOk = p_ok, secondaryBarometerOk = s_ok\<rparr>"
    "ss' = \<lparr>imuAccelerometer = i, imuGyroscope = g, primaryBarometer = p, secondaryBarometer = s, accelerometer = a,
       thermometer = t, magnetometer_dev = m\<rparr>"
    using assms(1) by (simp_all add: update_sensors_def Let_def 1 2 3 4 5 6 7)
  have data: "data = \<lparr>imu_acceleration = float3 to_float (axes i), acceleration = float3 to_float (axes a), primary_pressure = to_float (pressure p),
      secondary_pressure = to_float (pressure s), imu_gyroscope = float3 to_float (axes g), magnetometer = float3 to_float (axes m),
      primary_temperature = to_float (temperature p), secondary_temperature = to_float (temperature s), thermo_temperature = to_float (thermo_value t)\<rparr>"
    using assms(2) by (simp add: ok(2) collect_def float_axes_float3 barometer_GetSensorValue_def thermometer_GetSensorValue_def)
  note v = vector_shows [OF 1, of to_float] vector_shows [OF 2, of to_float] vector_shows [OF 5, of to_float] vector_shows [OF 7, of to_float]
    barometer_shows [OF 3, of to_float] barometer_shows [OF 4, of to_float] thermometer_shows [OF 6, of to_float]
  have "shows_sensors api to_float ss ok data" using v unfolding shows_sensors_def data ok(1) by simp blast
  moreover have "devices ss' = devices ss" using v by (simp add: devices_def ok(2))
  ultimately show ?thesis by blast
qed

text \<open>
  C7: in every state of a flight a turn of the sensing tenant finishes, whatever the sensors
  return, while the uptimes the log prints are below \<open>10^10\<close> ms and the uptime is not \<open>2^64 - 1\<close>. Before landing it reads all sensors: every field of the data and
  every flag given to the detection shows the sensor it is named after, the values of one that works throughout with the flag set, the
  last values of one that always fails with the flag clear; exactly this data goes to the detection with the uptime, and the same data to the queues. After
  landing it changes nothing, reads no sensor and sends nothing.
\<close>

theorem sensing_run_is_flight_step:
  fixes st :: "'f pc_state"
  assumes "flight pow lg (h, st)" "\<And>k. clocks_ok (clk k)" "uptime \<noteq> BOOST_NOT_YET_HAPPENED"
  shows "\<exists>sh' h' st' out. sensing_Run api to_float pow (flight_config lg) clk uptime sh (h, st) = Some (sh', (h', st'), out) \<and>
    flight pow lg (h', st') \<and>
    (if HasEventOccured GroundHit st = Some True then (sh', h', st', out) = (sh, h, st, None)
     else \<exists>ok data. out = Some data \<and> shows_sensors api to_float (fst sh) ok data \<and>
       HandleData pow (flight_config lg) clk uptime (sensor_frame.truncate data) ok (h, st) = Some (h', st') \<and>
       collect to_float (fst sh') = Some data \<and> devices (fst sh') = devices (fst sh))"
proof -
  have ok: "state_ok lg (h, st)" "finders_ok h" using flight_state_ok [OF assms(1)] flight_finders_ok [OF assms(1)] by simp_all
  then have g: "HasEventOccured GroundHit st = Some (eventStates st ! GroundHit)"
    using HasEventOccured_flight [of lg st GroundHit] by (simp add: state_ok_def events)
  show ?thesis
  proof (cases "eventStates st ! GroundHit")
    case True
    then show ?thesis using g assms(1) by (auto simp: sensing_Run_def ContinueCollecting_def)
  next
    case False
    obtain ok' ss hw where u: "update_sensors api (fst sh) (snd sh) = (ok', ss, hw)" by (metis prod_cases3)
    obtain data where d: "collect to_float ss = Some data" using collect_total by blast
    have "HandleData pow (flight_config lg) clk uptime (sensor_frame.truncate data) ok' (h, st) \<noteq> None"
      by (rule HandleData_total [OF ok assms(2,3)])
    then obtain h' st' where run: "HandleData pow (flight_config lg) clk uptime (sensor_frame.truncate data) ok' (h, st) = Some (h', st')"
      by auto
    have fl: "flight pow lg (h', st')" by (rule flight.sensed [OF assms(1,3) run])
    have "sensing_Run api to_float pow (flight_config lg) clk uptime sh (h, st) = Some ((ss, hw), (h', st'), Some data)"
      using False g u d run by (simp add: sensing_Run_def ContinueCollecting_def)
    then show ?thesis using False g fl d run update_collect_shows [OF u d] by fastforce
  qed
qed

text \<open>For the witness, the first accelerometer works and gives three values, all other devices fail.\<close>

definition example_api :: "unit sensor_api" where
  "example_api = \<lparr>device_is_ready = \<lambda>_. True, sensor_sample_fetch = \<lambda>d n. (if d = 1 then 0 else -5, n),
     sensor_channel_get = \<lambda>_ _ n. (0, [\<lparr>val1 = 7, val2 = 0\<rparr>, \<lparr>val1 = 8, val2 = 0\<rparr>, \<lparr>val1 = 9, val2 = 0\<rparr>], n),
     sensor_attr_set = \<lambda>_ _ _ n. (0, n)\<rparr>"

definition example_sensors :: sensors where
  "example_sensors =
     \<lparr>imuAccelerometer = \<lparr>dev = 1, isInitialized = True, axes = (zero_value, zero_value, zero_value)\<rparr>,
      imuGyroscope = \<lparr>dev = 1, isInitialized = True, axes = (zero_value, zero_value, zero_value)\<rparr>,
      primaryBarometer = \<lparr>dev = 2, isInitialized = True, pressure = \<lparr>val1 = 101, val2 = 0\<rparr>, temperature = zero_value\<rparr>,
      secondaryBarometer = \<lparr>dev = 3, isInitialized = True, pressure = zero_value, temperature = zero_value\<rparr>,
      accelerometer = \<lparr>dev = 4, isInitialized = True, axes = (zero_value, zero_value, zero_value)\<rparr>,
      thermometer = \<lparr>dev = 5, isInitialized = True, thermo_value = zero_value\<rparr>,
      magnetometer_dev = \<lparr>dev = 6, isInitialized = True, axes = (zero_value, zero_value, zero_value)\<rparr>\<rparr>"

theorem sensing_run_is_flight_step_witness:
  "\<exists>h :: rat detection_handler. \<exists>st :: unit pc_state. \<exists>sh' h' st' data.
    flight (\<lambda>x y. x) None (h, st) \<and> HasEventOccured GroundHit st \<noteq> Some True \<and>
    sensing_Run example_api (\<lambda>v. of_int (val1 v)) (\<lambda>x y. x) (flight_config None) (\<lambda>_ _. (0, 0)) 1000 (example_sensors, ()) (h, st) =
      Some (sh', (h', st'), Some data) \<and> flight (\<lambda>x y. x) None (h', st') \<and>
    imu_acceleration data = (7, 8, 9) \<and> acceleration data = (0, 0, 0) \<and> primary_pressure data = 101"
proof -
  obtain h :: "rat detection_handler" where h: "detection_new = Some h" using detection_new_finders by blast
  obtain st :: "unit pc_state" where st: "pc_new (flight_config None) 0 () = Some st" by (simp add: pc_new_def flight_config_def)
  have fl: "flight (\<lambda>x y. x) None (h, st)" by (rule flight.power_on [OF h st])
  have "eventStates st = [False, False, False, False]"
    using st by (auto simp: pc_new_def flight_config_def Let_def eval_nat_numeral)
  then have air: "HasEventOccured GroundHit st \<noteq> Some True" by (simp add: HasEventOccured_def arr_get_def events)
  have c: "clocks_ok (\<lambda>_. (0, 0))" "(1000 :: u64) \<noteq> BOOST_NOT_YET_HAPPENED" by (simp_all add: clocks_ok_def BOOST_NOT_YET_HAPPENED_def)
  obtain sh' h' st' ok data where run: "sensing_Run example_api (\<lambda>v. of_int (val1 v)) (\<lambda>x y. x) (flight_config None) (\<lambda>_ _. (0, 0)) 1000
        (example_sensors, ()) (h, st) = Some (sh', (h', st'), Some data)" "flight (\<lambda>x y. x) None (h', st')"
      "shows_sensors example_api (\<lambda>v. of_int (val1 v)) example_sensors ok data"
    using sensing_run_is_flight_step [OF fl, of "\<lambda>_ _. (0, 0)" 1000 example_api "\<lambda>v. of_int (val1 v)" "(example_sensors, ())"] c air
    by auto
  have "gives example_api 1 SENSOR_CHAN_ACCEL_XYZ [\<lparr>val1 = 7, val2 = 0\<rparr>, \<lparr>val1 = 8, val2 = 0\<rparr>, \<lparr>val1 = 9, val2 = 0\<rparr>]"
    by (simp add: gives_def example_api_def)
  moreover have "fails example_api (accelerometer example_sensors)" "fails example_api (primaryBarometer example_sensors)"
    by (simp_all add: fails_def example_api_def example_sensors_def)
  ultimately have "imu_acceleration data = (7, 8, 9)" "acceleration data = (0, 0, 0)" "primary_pressure data = 101"
    using run(3) unfolding shows_sensors_def shows_vector_def shows_barometer_def
    by (auto simp: example_sensors_def float3_def zero_value_def)
  then show ?thesis using fl air run(1,2) by blast
qed

end
