(* ===== verification/File_Store.thy ===== *)
theory File_Store
  imports Flight_Log
begin

text \<open>
  \<open>CFile\<close> (\<open>lib/f_core/os/c_file.cpp\<close>) and the data logger (\<open>lib/f_core/os/c_datalogger.cpp\<close>,
  \<open>include/f_core/os/c_datalogger.h\<close>) over the file calls of Zephyr.
\<close>

subsection \<open>\<open>CFile\<close>\<close>

record 'f cfile =
  cf_file :: 'f
  cf_path :: string
  cf_flags :: u32
  initStatus :: int

definition cf_open :: "('c, 'f) fs_ops \<Rightarrow> string \<Rightarrow> u32 \<Rightarrow> 'f \<Rightarrow> 'f cfile" where
  "cf_open fs path flags f =
     (case fs_open fs path (ucast flags) f of
        (status, f) \<Rightarrow> \<lparr>cf_file = f, cf_path = path, cf_flags = flags, initStatus = status\<rparr>)"

definition cf_close :: "('c, 'f) fs_ops \<Rightarrow> 'f cfile \<Rightarrow> 'f" where
  "cf_close fs c = (if initStatus c = 0 then snd (fs_close fs (cf_file c)) else cf_file c)"

definition GetFileSize :: "('c, 'f) fs_ops \<Rightarrow> 'f cfile \<Rightarrow> int" where
  "GetFileSize fs c = (case fs_stat fs (cf_path c) (cf_file c) of (err, entry_size) \<Rightarrow> if err < 0 then 0 else entry_size)"

text \<open>A read gives the result and the bytes at the start of the buffer.\<close>

definition cf_Read :: "('c, 'f) fs_ops \<Rightarrow> nat \<Rightarrow> int \<Rightarrow> 'f cfile \<Rightarrow> int \<times> 'c list \<times> 'f cfile" where
  "cf_Read fs len offset c =
     (if initStatus c < 0 then (-1, [], c)
      else if cf_flags c AND ucast FS_O_READ = 0 then (-1, [], c)
      else
        let (err, f) = (if offset > 0 then fs_seek fs offset (cf_file c) else (0, cf_file c)) in
        if offset > 0 \<and> err < 0 then (-1, [], c\<lparr>cf_file := f\<rparr>)
        else case fs_read fs len f of (ret, bytes, f) \<Rightarrow> (ret, bytes, c\<lparr>cf_file := f\<rparr>))"

definition cf_Write :: "('c, 'f) fs_ops \<Rightarrow> 'c list \<Rightarrow> 'f cfile \<Rightarrow> int \<times> 'f cfile" where
  "cf_Write fs bytes c =
     (if initStatus c < 0 then (-1, c)
      else if cf_flags c AND ucast FS_O_WRITE = 0 then (-1, c)
      else case fs_write fs bytes (cf_file c) of (ret, f) \<Rightarrow> (ret, c\<lparr>cf_file := f\<rparr>))"

subsection \<open>The data logger\<close>

datatype LogMode = Growing | Circular | FixedSize

record 'f datalogger =
  dl_file :: 'f
  dl_mode :: LogMode
  num_packets :: nat


text \<open>An error of \<open>fs_open\<close> is logged only.\<close>

definition dl_open :: "('c, 'f) fs_ops \<Rightarrow> string \<Rightarrow> LogMode \<Rightarrow> nat \<Rightarrow> 'f \<Rightarrow> 'f datalogger" where
  "dl_open fs filename mode n f =
     \<lparr>dl_file = snd (fs_open fs filename (FS_O_WRITE OR FS_O_CREATE) f), dl_mode = mode, num_packets = n\<rparr>"

definition dl_put :: "('c, 'f) fs_ops \<Rightarrow> 'c list \<Rightarrow> 'f datalogger \<Rightarrow> int \<times> 'f datalogger" where
  "dl_put fs packet dl = (case fs_write fs packet (dl_file dl) of (ret, f) \<Rightarrow> (ret, dl\<lparr>dl_file := f\<rparr>))"

definition dl_write :: "('c, 'f) fs_ops \<Rightarrow> 'c list \<Rightarrow> 'f datalogger \<Rightarrow> int \<times> 'f datalogger" where
  "dl_write fs packet dl =
     (if dl_mode dl = Growing then dl_put fs packet dl
      else
        let offset = fs_tell fs (dl_file dl) in
        if offset < 0 then (offset, dl)
        else
          let index = nat offset div length packet in
          case dl_mode dl of
            FixedSize \<Rightarrow> if index < num_packets dl then dl_put fs packet dl else (ENOSPC, dl)
          | _ \<Rightarrow>
              let dl = (if index \<ge> num_packets dl then dl\<lparr>dl_file := snd (fs_seek fs 0 (dl_file dl))\<rparr> else dl) in
              dl_put fs packet dl)"

definition dl_close :: "('c, 'f) fs_ops \<Rightarrow> 'f datalogger \<Rightarrow> int \<times> 'f datalogger" where
  "dl_close fs dl = (case fs_close fs (dl_file dl) of (ret, f) \<Rightarrow> (ret, dl\<lparr>dl_file := f\<rparr>))"

subsection \<open>Files with a position\<close>

text \<open>What a write does to the bytes of a file.\<close>

definition overwrite :: "nat \<Rightarrow> 'c list \<Rightarrow> 'c list \<Rightarrow> 'c list" where
  "overwrite pos bytes c = take pos c @ bytes @ drop (pos + length bytes) c"

text \<open>
  Documented behaviour of a file that is open for writing, on a file system with room, while the
  position is not past the end.
\<close>

definition behaves_as_file :: "('c, 'f) fs_ops \<Rightarrow> ('f \<Rightarrow> 'c list) \<Rightarrow> ('f \<Rightarrow> nat) \<Rightarrow> bool" where
  "behaves_as_file fs content pos \<longleftrightarrow>
     (\<forall>f. fs_tell fs f = int (pos f)) \<and>
     (\<forall>bytes f. pos f \<le> length (content f) \<longrightarrow>
        fst (fs_write fs bytes f) = int (length bytes) \<and>
        content (snd (fs_write fs bytes f)) = overwrite (pos f) bytes (content f) \<and>
        pos (snd (fs_write fs bytes f)) = pos f + length bytes) \<and>
     (\<forall>f. content (snd (fs_seek fs 0 f)) = content f \<and> pos (snd (fs_seek fs 0 f)) = 0)"

text \<open>A run of writes, with the results.\<close>

fun dl_run :: "('c, 'f) fs_ops \<Rightarrow> 'c list list \<Rightarrow> 'f datalogger \<Rightarrow> int list \<times> 'f datalogger" where
  "dl_run fs [] dl = ([], dl)"
| "dl_run fs (p # ps) dl =
     (case dl_write fs p dl of (r, dl) \<Rightarrow> case dl_run fs ps dl of (rs, dl) \<Rightarrow> (r # rs, dl))"

text \<open>
  What the three modes promise to keep: all packets, the first \<open>n\<close>, or in slot \<open>i\<close> of a ring of
  \<open>n\<close> the last packet whose number is \<open>i\<close> modulo \<open>n\<close>.
\<close>

definition last_in_slot :: "nat \<Rightarrow> 'p list \<Rightarrow> nat \<Rightarrow> 'p" where
  "last_in_slot n ps i = ps ! (i + n * ((length ps - 1 - i) div n))"

definition kept :: "LogMode \<Rightarrow> nat \<Rightarrow> 'p list \<Rightarrow> 'p list" where
  "kept mode n ps =
     (case mode of Growing \<Rightarrow> ps | FixedSize \<Rightarrow> take n ps | Circular \<Rightarrow> map (last_in_slot n ps) [0..<min n (length ps)])"

lemma dl_put_file:
  assumes "behaves_as_file fs content pos" "pos (dl_file dl) \<le> length (content (dl_file dl))"
  shows "\<exists>dl'. dl_put fs packet dl = (int (length packet), dl') \<and> dl_mode dl' = dl_mode dl \<and> num_packets dl' = num_packets dl \<and>
    content (dl_file dl') = overwrite (pos (dl_file dl)) packet (content (dl_file dl)) \<and>
    pos (dl_file dl') = pos (dl_file dl) + length packet"
proof -
  obtain r f where w: "fs_write fs packet (dl_file dl) = (r, f)" by fastforce
  then have "r = int (length packet)" "content f = overwrite (pos (dl_file dl)) packet (content (dl_file dl))"
      "pos f = pos (dl_file dl) + length packet"
    using assms unfolding behaves_as_file_def by (metis fst_conv snd_conv)+
  then show ?thesis using w by (simp add: dl_put_def)
qed

lemma overwrite_slot:
  assumes "\<forall>s\<in>set ss. length s = sz" "k \<le> length ss" "length p = sz"
  shows "overwrite (sz * k) p (concat ss) = concat (if k < length ss then ss[k := p] else ss @ [p])"
proof -
  have "length (concat (take k ss)) = sz * k" if "k \<le> length ss" for k
    using that assms(1) by (induction k) (auto simp: take_Suc_conv_app_nth)
  note len = this [OF assms(2)]
  have split: "concat ss = concat (take k ss) @ concat (drop k ss)"
    by (metis append_take_drop_id concat_append)
  show ?thesis
  proof (cases "k < length ss")
    case True
    then have "concat (drop k ss) = ss ! k @ concat (drop (Suc k) ss)" by (simp add: Cons_nth_drop_Suc [symmetric])
    moreover have "length (ss ! k) = sz" using assms(1) True by simp
    ultimately show ?thesis using len split True assms(3) by (simp add: overwrite_def upd_conv_take_nth_drop)
  next
    case False
    then show ?thesis using len assms(2) by (simp add: overwrite_def)
  qed
qed

lemma last_in_slot_snoc:
  assumes "i < n" "i < length ps"
  shows "last_in_slot n (ps @ [p]) i = (if length ps mod n = i then p else last_in_slot n ps i)"
proof -
  let ?m = "length ps"
  show ?thesis
  proof (cases "?m mod n = i")
    case True
    then have "?m = i + n * (?m div n)" using mod_mult_div_eq [of ?m n] by simp
    then have "i + n * ((?m - i) div n) = ?m" using assms(1) by (metis add_diff_cancel_left' less_nat_zero_code nonzero_mult_div_cancel_left)
    then show ?thesis using True by (simp add: last_in_slot_def)
  next
    case False
    define d where "d = ?m - i"
    have d: "0 < d" "d mod n \<noteq> 0"
    proof -
      show "0 < d" using assms(2) by (simp add: d_def)
      show "d mod n \<noteq> 0"
      proof
        assume "d mod n = 0"
        then have "d = n * (d div n)" using mod_mult_div_eq [of d n] by simp
        then have "?m = i + n * (d div n)" using assms(2) by (simp add: d_def)
        then have "?m mod n = (i + n * (d div n)) mod n" by (rule arg_cong)
        then show False using False assms(1) by simp
      qed
    qed
    have "(d - 1) div n = d div n"
      using d by (metis Suc_diff_1 div_Suc)
    moreover have "n * ((d - 1) div n) \<le> d - 1" by simp
    then have "i + n * ((d - 1) div n) < ?m" using d(1) assms(2) unfolding d_def by linarith
    ultimately show ?thesis using False by (simp add: last_in_slot_def d_def nth_append diff_commute)
  qed
qed

lemma kept_snoc:
  assumes "0 < n"
  shows "kept Circular n (ps @ [p]) = (if length ps < n then kept Circular n ps @ [p] else (kept Circular n ps)[length ps mod n := p])"
proof (cases "length ps < n")
  case True
  have "last_in_slot n (ps @ [p]) i = last_in_slot n ps i" if "i < length ps" for i
    using last_in_slot_snoc [of i n ps p] that True by simp
  moreover have "last_in_slot n (ps @ [p]) (length ps) = p" by (simp add: last_in_slot_def)
  ultimately show ?thesis using True by (simp add: kept_def)
next
  case False
  show ?thesis
  proof (rule nth_equalityI)
    fix i assume "i < length (kept Circular n (ps @ [p]))"
    then have "i < n" using False by (simp add: kept_def)
    then show "kept Circular n (ps @ [p]) ! i =
        (if length ps < n then kept Circular n ps @ [p] else (kept Circular n ps)[length ps mod n := p]) ! i"
      using last_in_slot_snoc [of i n ps p] False by (auto simp: kept_def nth_list_update)
  qed (use False in \<open>simp add: kept_def\<close>)
qed

lemma length_kept: "length (kept mode n ps) = (if mode = Growing then length ps else min n (length ps))"
  by (cases mode) (auto simp: kept_def)

lemma set_kept: "set (kept mode n ps) \<subseteq> set ps"
proof -
  have "last_in_slot n ps i \<in> set ps" if "i < length ps" for i
  proof -
    have "n * ((length ps - 1 - i) div n) \<le> length ps - 1 - i" by simp
    then have "i + n * ((length ps - 1 - i) div n) < length ps" using that by linarith
    then show ?thesis by (simp add: last_in_slot_def)
  qed
  then show ?thesis by (cases mode) (auto simp: kept_def dest: in_set_takeD)
qed


text \<open>Where the next write goes to.\<close>

definition next_pos :: "LogMode \<Rightarrow> nat \<Rightarrow> nat \<Rightarrow> nat" where
  "next_pos mode n m =
     (case mode of Growing \<Rightarrow> m | FixedSize \<Rightarrow> min n m | Circular \<Rightarrow> if m = 0 then 0 else Suc ((m - 1) mod n))"

definition dl_holds :: "('f \<Rightarrow> 'c list) \<Rightarrow> ('f \<Rightarrow> nat) \<Rightarrow> nat \<Rightarrow> 'c list list \<Rightarrow> 'f datalogger \<Rightarrow> bool" where
  "dl_holds content pos sz ps dl \<longleftrightarrow>
     content (dl_file dl) = concat (kept (dl_mode dl) (num_packets dl) ps) \<and>
     pos (dl_file dl) = sz * next_pos (dl_mode dl) (num_packets dl) (length ps)"

definition dl_result :: "LogMode \<Rightarrow> nat \<Rightarrow> nat \<Rightarrow> nat \<Rightarrow> int" where
  "dl_result mode n sz m = (if mode = FixedSize \<and> n \<le> m then ENOSPC else int sz)"

lemma next_pos_circular: "0 < n \<Longrightarrow> next_pos Circular n (Suc m) = Suc (m mod n)"
  by (simp add: next_pos_def)

lemma circular_slot:
  assumes "0 < n"
  shows "m mod n = (if n \<le> next_pos Circular n m then 0 else next_pos Circular n m)"
proof (cases m)
  case (Suc j)
  have "j mod n < n" using assms by simp
  then show ?thesis unfolding Suc next_pos_circular [OF assms] by (auto simp: mod_Suc)
qed (use assms in \<open>simp add: next_pos_def\<close>)

lemma next_pos_le: "0 < n \<Longrightarrow> next_pos mode n m \<le> (if mode = Growing then m else min n m)"
proof (cases mode)
  case Circular
  assume n: "0 < n"
  have "Suc ((m - 1) mod n) \<le> n" "(m - 1) mod n \<le> m - 1" using n by (simp_all add: Suc_leI)
  moreover have "Suc ((m - 1) mod n) \<le> m" if "0 < m" using \<open>(m - 1) mod n \<le> m - 1\<close> that by linarith
  ultimately show ?thesis using Circular by (auto simp: next_pos_def)
qed (simp_all add: next_pos_def)

lemma dl_put_slot:
  assumes fs: "behaves_as_file fs content pos" and ss: "\<forall>s\<in>set ss. length s = sz" "length p = sz" "k \<le> length ss"
    and dl: "content (dl_file dl) = concat ss" "pos (dl_file dl) = sz * k"
  shows "\<exists>dl'. dl_put fs p dl = (int sz, dl') \<and> dl_mode dl' = dl_mode dl \<and> num_packets dl' = num_packets dl \<and>
    content (dl_file dl') = concat (if k < length ss then ss[k := p] else ss @ [p]) \<and> pos (dl_file dl') = sz * Suc k"
proof -
  have "length (concat ss) = sz * length ss" using ss(1) by (induction ss) auto
  then have "pos (dl_file dl) \<le> length (content (dl_file dl))" using dl ss(3) by simp
  from dl_put_file [OF fs this] show ?thesis using overwrite_slot [OF ss(1,3,2)] dl ss(2) by fastforce
qed

lemma dl_write_step:
  assumes fs: "behaves_as_file fs content pos" and n: "dl_mode dl = Growing \<or> 0 < num_packets dl" and sz: "0 < sz"
    and ps: "\<forall>s\<in>set (ps @ [p]). length s = sz" and inv: "dl_holds content pos sz ps dl"
  shows "\<exists>dl'. dl_write fs p dl = (dl_result (dl_mode dl) (num_packets dl) sz (length ps), dl') \<and>
    dl_mode dl' = dl_mode dl \<and> num_packets dl' = num_packets dl \<and> dl_holds content pos sz (ps @ [p]) dl'"
proof -
  let ?n = "num_packets dl" and ?m = "length ps" and ?ss = "kept (dl_mode dl) (num_packets dl) ps"
  have p: "length p = sz" and lens: "\<forall>s\<in>set ?ss. length s = sz" using ps set_kept [of "dl_mode dl" "num_packets dl" ps] by auto
  have c: "content (dl_file dl) = concat ?ss" and at: "pos (dl_file dl) = sz * next_pos (dl_mode dl) ?n ?m"
    using inv by (simp_all add: dl_holds_def)
  have tell: "fs_tell fs (dl_file dl) = int (pos (dl_file dl))" using fs by (simp add: behaves_as_file_def)
  have "nat (fs_tell fs (dl_file dl)) = sz * next_pos (dl_mode dl) ?n ?m" using tell at by linarith
  then have idx: "nat (fs_tell fs (dl_file dl)) div length p = next_pos (dl_mode dl) ?n ?m" using sz p by simp
  have nn: "\<not> fs_tell fs (dl_file dl) < 0" using tell by simp
  note put = dl_put_slot [OF fs]
  show ?thesis
  proof (cases "dl_mode dl")
    case Growing
    have "dl_write fs p dl = dl_put fs p dl" using Growing by (simp add: dl_write_def)
    then show ?thesis using put [OF lens p _ c at] Growing
      by (auto simp: next_pos_def kept_def dl_holds_def dl_result_def)
  next
    case FixedSize
    show ?thesis
    proof (cases "?m < ?n")
      case True
      then have "dl_write fs p dl = dl_put fs p dl"
        using FixedSize nn idx by (simp add: dl_write_def Let_def next_pos_def)
      then show ?thesis using put [OF lens p _ c at] FixedSize True
        by (auto simp: next_pos_def kept_def dl_holds_def dl_result_def)
    next
      case False
      then have "dl_write fs p dl = (ENOSPC, dl)"
        using FixedSize nn idx by (simp add: dl_write_def Let_def next_pos_def)
      then show ?thesis using FixedSize False inv by (auto simp: next_pos_def kept_def dl_holds_def dl_result_def)
    qed
  next
    case Circular
    then have n: "0 < ?n" using assms(2) by simp
    let ?k = "?m mod ?n"
    let ?dl = "if ?n \<le> next_pos Circular ?n ?m then dl\<lparr>dl_file := snd (fs_seek fs 0 (dl_file dl))\<rparr> else dl"
    have w: "dl_write fs p dl = dl_put fs p ?dl" using Circular nn idx by (auto simp: dl_write_def Let_def)
    have seek: "content (snd (fs_seek fs 0 f)) = content f" "pos (snd (fs_seek fs 0 f)) = 0" for f
      using fs by (simp_all add: behaves_as_file_def)
    note k = circular_slot [OF n, of ?m]
    have d: "content (dl_file ?dl) = concat ?ss" "pos (dl_file ?dl) = sz * ?k" "dl_mode ?dl = Circular" "num_packets ?dl = ?n"
      using c at Circular seek k by simp_all
    have le: "?k \<le> length ?ss" "?k < length ?ss \<longleftrightarrow> ?n \<le> ?m"
      using n Circular mod_less_divisor [OF n, of ?m] by (cases "?m < ?n"; simp add: length_kept)+
    obtain dl' where "dl_put fs p ?dl = (int sz, dl')" "dl_mode dl' = Circular" "num_packets dl' = ?n"
      "content (dl_file dl') = concat (if ?k < length ?ss then ?ss[?k := p] else ?ss @ [p])" "pos (dl_file dl') = sz * Suc ?k"
      using put [OF lens p le(1) d(1,2)] d(3,4) by auto
    then show ?thesis
      using w le(2) Circular kept_snoc [OF n, of ps p] n
      by (auto simp: dl_holds_def dl_result_def next_pos_def)
  qed
qed


lemma dl_run_append:
  "dl_run fs (ps @ qs) dl =
     (case dl_run fs ps dl of (rs, dl) \<Rightarrow> case dl_run fs qs dl of (rs', dl) \<Rightarrow> (rs @ rs', dl))"
  by (induction ps arbitrary: dl) (simp_all split: prod.splits)

lemma dl_run_holds:
  assumes fs: "behaves_as_file fs content pos" and n: "dl_mode dl = Growing \<or> 0 < num_packets dl" and sz: "0 < sz"
    and empty: "content (dl_file dl) = []" "pos (dl_file dl) = 0" and ps: "\<forall>p\<in>set ps. length p = sz"
  shows "\<exists>dl'. dl_run fs ps dl = (map (dl_result (dl_mode dl) (num_packets dl) sz) [0..<length ps], dl') \<and>
    dl_mode dl' = dl_mode dl \<and> num_packets dl' = num_packets dl \<and> dl_holds content pos sz ps dl'"
  using ps
proof (induction ps rule: rev_induct)
  case Nil
  show ?case using empty by (cases "dl_mode dl") (auto simp: dl_holds_def kept_def next_pos_def)
next
  case (snoc p ps)
  then obtain dl1 where 1: "dl_run fs ps dl = (map (dl_result (dl_mode dl) (num_packets dl) sz) [0..<length ps], dl1)"
    "dl_mode dl1 = dl_mode dl" "num_packets dl1 = num_packets dl" "dl_holds content pos sz ps dl1" by auto
  have n1: "dl_mode dl1 = Growing \<or> 0 < num_packets dl1" using n 1(2,3) by simp
  obtain dl2 where "dl_write fs p dl1 = (dl_result (dl_mode dl1) (num_packets dl1) sz (length ps), dl2)"
    "dl_mode dl2 = dl_mode dl1" "num_packets dl2 = num_packets dl1" "dl_holds content pos sz (ps @ [p]) dl2"
    using dl_write_step [OF fs n1 sz snoc.prems 1(4)] by blast
  then show ?case using 1 by (simp add: dl_run_append)
qed

subsection \<open>Properties\<close>

text \<open>
  C20: writing packets of one size to a new file, the logger keeps what its mode promises: every
  packet when growing, the first \<open>n\<close> for a fixed size, and for a circular log in slot \<open>i\<close> the
  last packet whose number is \<open>i\<close> modulo \<open>n\<close>, so the last \<open>n\<close> packets. Each write returns the size
  of the packet, except the surplus ones of a fixed size: these get a positive \<open>ENOSPC\<close>.
\<close>

theorem datalogger_keeps:
  assumes "behaves_as_file fs content pos" "mode = Growing \<or> 0 < n" "0 < sz" "\<forall>p\<in>set ps. length p = sz"
    and "dl = dl_open fs filename mode n f" "content (dl_file dl) = []" "pos (dl_file dl) = 0"
  shows "\<exists>dl'. dl_run fs ps dl = (map (dl_result mode n sz) [0..<length ps], dl') \<and>
    content (dl_file dl') = concat (kept mode n ps)"
  using dl_run_holds [OF assms(1) _ assms(3,6,7,4)] assms(2,5) by (force simp: dl_open_def dl_holds_def)

text \<open>A file in memory with its position, for the witnesses.\<close>

definition memory_file :: "(nat, nat list \<times> nat) fs_ops" where
  "memory_file = \<lparr>fs_open = \<lambda>_ _ f. (0, f), fs_close = \<lambda>f. (0, f),
     fs_write = \<lambda>bytes f. (int (length bytes), overwrite (snd f) bytes (fst f), snd f + length bytes),
     fs_read = \<lambda>n f. (int (min n (length (fst f) - snd f)), take n (drop (snd f) (fst f)), fst f, snd f + min n (length (fst f) - snd f)),
     fs_seek = \<lambda>k f. (0, fst f, nat k), fs_tell = \<lambda>f. int (snd f), fs_sync = \<lambda>f. (0, f),
     fs_stat = \<lambda>_ f. (0, int (length (fst f)))\<rparr>"

lemma memory_file_ok: "behaves_as_file memory_file fst snd"
  by (simp add: behaves_as_file_def memory_file_def)

theorem datalogger_keeps_witness:
  "\<exists>dl'. dl_run memory_file [[1, 1], [2, 2], [3, 3]] (dl_open memory_file ''log'' Circular 2 ([], 0)) = ([2, 2, 2], dl') \<and>
    fst (dl_file dl') = [3, 3, 2, 2]"
proof -
  have "kept Circular 2 [[1, 1], [2, 2], [3, 3 :: nat]] = [[3, 3], [2, 2]]"
    by (simp add: kept_def last_in_slot_def numeral_2_eq_2)
  moreover have "map (dl_result Circular 2 2) [0..<length [[1, 1], [2, 2], [3, 3 :: nat]]] = [2, 2, 2]"
    by (simp add: dl_result_def)
  ultimately show ?thesis
    using datalogger_keeps [OF memory_file_ok, of Circular 2 2 "[[1, 1], [2, 2], [3, 3]]" _ "''log''" "([], 0)"]
    by (simp add: dl_open_def memory_file_def)
qed

end
