(* ===== verification/Tftp_Server.thy ===== *)
theory Tftp_Server
  imports Udp_Socket File_Store
begin

text \<open>
  The TFTP server, \<open>lib/f_core/net/application/c_tftp_server_tenant.cpp\<close>: one turn answers one
  read request, block by block over a socket of its own. \<open>None\<close> is a turn that does not return or
  that reads past a buffer.
\<close>

subsection \<open>Waiting for an acknowledgement\<close>

definition ACK :: u16 where "ACK = 4"
definition DATA :: u16 where "DATA = 3"
definition RRQ :: u16 where "RRQ = 1"

definition be16 :: "u8 \<Rightarrow> u8 \<Rightarrow> u16" where
  "be16 hi lo = push_bit 8 (ucast hi) OR ucast lo"

definition hi8 :: "u16 \<Rightarrow> u8" where "hi8 w = ucast (drop_bit 8 w)"
definition lo8 :: "u16 \<Rightarrow> u8" where "lo8 w = ucast (w AND 0xFF)"

text \<open>The buffer of four bytes is zero where nothing was received.\<close>

definition ack_buffer :: "u8 list \<Rightarrow> u8 list" where
  "ack_buffer bytes = take 4 (bytes @ replicate 4 0)"

partial_function (option) wait_loop ::
  "'n net_ops \<Rightarrow> udp_socket \<Rightarrow> u16 \<Rightarrow> nat \<Rightarrow> 'n udp_world \<Rightarrow> (int \<times> 'n udp_world) option" where
  "wait_loop ops dataSock blockNum retries w =
     (if retries < 5 then
        (case ReceiveAsynchronous ops dataSock 4 w of
           (ret, bytes, port, w) \<Rightarrow>
             if ret < 0 then
               if errno ops (net w) = EWOULDBLOCK \<or> errno ops (net w) = EAGAIN then
                 wait_loop ops dataSock blockNum (retries + 1) (w\<lparr>net := k_msleep ops 100 (net w)\<rparr>)
               else Some (errno ops (net w), w)
             else if ret = 4 then
               (let ack = ack_buffer bytes;
                    receivedOpcode = be16 (ack ! 0) (ack ! 1);
                    receivedBlockNum = be16 (ack ! 2) (ack ! 3)
                in if receivedOpcode = ACK \<and> receivedBlockNum = blockNum then Some (0, w) else Some (-1, w))
             else wait_loop ops dataSock blockNum retries w)
      else Some (-1, w))"

definition waitForAck :: "'n net_ops \<Rightarrow> udp_socket \<Rightarrow> u16 \<Rightarrow> 'n udp_world \<Rightarrow> (int \<times> 'n udp_world) option" where
  "waitForAck ops dataSock blockNum w = wait_loop ops dataSock blockNum 0 w"

subsection \<open>Read requests\<close>

text \<open>\<open>strcmp\<close> of the rest of a buffer with a constant, and the string at a place of a buffer.\<close>

fun strcmp_eq :: "u8 list \<Rightarrow> u8 list \<Rightarrow> bool option" where
  "strcmp_eq [] cs = None"
| "strcmp_eq (b # bs) [] = Some (b = 0)"
| "strcmp_eq (b # bs) (c # cs) = (if b = c then strcmp_eq bs cs else Some False)"

definition c_string :: "u8 list \<Rightarrow> u8 list option" where
  "c_string bs = (if 0 \<in> set bs then Some (takeWhile (\<lambda>b. b \<noteq> 0) bs) else None)"

definition strnlen :: "u8 list \<Rightarrow> nat \<Rightarrow> nat" where
  "strnlen bs n = length (takeWhile (\<lambda>b. b \<noteq> 0) (take n bs))"

datatype TftpMode = NETASCII | OCTET | MAIL | UNDEFINED_TFTP_MODE

text \<open>The strings of the modes, as bytes.\<close>

definition netascii_bytes :: "u8 list" where "netascii_bytes = [0x6E, 0x65, 0x74, 0x61, 0x73, 0x63, 0x69, 0x69]"
definition octet_bytes :: "u8 list" where "octet_bytes = [0x6F, 0x63, 0x74, 0x65, 0x74]"
definition mail_bytes :: "u8 list" where "mail_bytes = [0x6D, 0x61, 0x69, 0x6C]"
definition tree_bytes :: "u8 list" where "tree_bytes = [0x74, 0x72, 0x65, 0x65]"

fun find_mode :: "u8 list \<Rightarrow> (u8 list \<times> TftpMode) list \<Rightarrow> TftpMode option" where
  "find_mode modeStr [] = Some UNDEFINED_TFTP_MODE"
| "find_mode modeStr ((s, m) # ms) =
     (case strcmp_eq modeStr s of
        None \<Rightarrow> None
      | Some True \<Rightarrow> Some m
      | Some False \<Rightarrow> find_mode modeStr ms)"

definition request_mode :: "u8 list \<Rightarrow> TftpMode option" where
  "request_mode modeStr = find_mode modeStr [(netascii_bytes, NETASCII), (octet_bytes, OCTET), (mail_bytes, MAIL)]"

text \<open>The data of a request: the file name starts after the opcode, the mode after its zero byte.\<close>

definition maxFilenameLen :: nat where "maxFilenameLen = 512 - 8 + 4"

definition header :: "u16 \<Rightarrow> u8 list" where
  "header blockNumber = [hi8 DATA, lo8 DATA, hi8 blockNumber, lo8 blockNumber]"

text \<open>\<open>Send block\<close>: the response buffer has 516 bytes, \<open>readLen + 4\<close> of them are sent.\<close>

definition send_block ::
  "'n net_ops \<Rightarrow> udp_socket \<Rightarrow> u16 \<Rightarrow> u8 list \<Rightarrow> u32 \<Rightarrow> 'n udp_world \<Rightarrow> 'n udp_world option" where
  "send_block ops dataSock blockNumber bytes readLen w =
     (let response = take 516 (header blockNumber @ bytes @ replicate 512 0); len = unat (readLen + 4) in
      if len \<le> length response then Some (snd (TransmitAsynchronous ops dataSock (take len response) w)) else None)"

partial_function (option) block_loop ::
  "(u8, 'f) fs_ops \<Rightarrow> 'n net_ops \<Rightarrow> udp_socket \<Rightarrow> int \<Rightarrow> u16 \<Rightarrow> int \<Rightarrow> 'f cfile \<Rightarrow> 'n udp_world \<Rightarrow>
     (u16 option \<times> 'f cfile \<times> 'n udp_world) option" where
  "block_loop fs ops dataSock fileSize blockNumber offset c w =
     (if offset < fileSize then
        (case cf_Read fs 512 offset c of
           (ret, bytes, c) \<Rightarrow>
             let readLen = word_of_int ret :: u32 in
             if readLen = 0 then Some (None, c, w)
             else Option.bind (send_block ops dataSock blockNumber bytes readLen w) (\<lambda>w.
               Option.bind (waitForAck ops dataSock blockNumber w) (\<lambda>(err, w).
                 if err \<noteq> 0 then Some (None, c, w)
                 else block_loop fs ops dataSock fileSize (blockNumber + 1)
                        (sint (word_of_int offset + readLen :: u32)) c w)))
      else Some (Some blockNumber, c, w))"

text \<open>The final empty block after a file of a multiple of 512 bytes.\<close>

definition final_block ::
  "'n net_ops \<Rightarrow> udp_socket \<Rightarrow> int \<Rightarrow> u16 \<Rightarrow> 'n udp_world \<Rightarrow> 'n udp_world option" where
  "final_block ops dataSock fileSize blockNumber w =
     (if fileSize mod 512 = 0 then
        map_option snd (waitForAck ops dataSock blockNumber (snd (TransmitAsynchronous ops dataSock (header blockNumber) w)))
      else Some w)"

text \<open>\<open>generateTree\<close> writes a constant file and fails.\<close>

definition lfs_tree :: string where "lfs_tree = ''/lfs/tree''"

definition generateTree :: "(u8, 'f) fs_ops \<Rightarrow> 'f \<Rightarrow> int \<times> 'f" where
  "generateTree fs f =
     (let c = cf_open fs lfs_tree (ucast (FS_O_WRITE OR FS_O_CREATE)) f;
          (r, c) = cf_Write fs [0x72, 0x65, 0x65, 0x65] c
      in (-1, cf_close fs c))"

text \<open>The transfer of an open file to the port of the client.\<close>

definition transfer ::
  "(u8, 'f) fs_ops \<Rightarrow> 'n net_ops \<Rightarrow> bool \<Rightarrow> u16 \<Rightarrow> 'f cfile \<Rightarrow> 'n udp_world \<Rightarrow> ('f cfile \<times> 'n udp_world) option" where
  "transfer fs ops ip_initialized clientPort c w =
     (let fileSize = sint (word_of_int (GetFileSize fs c) :: u32) in
      if fileSize < 0 then Some (c, w)
      else
        let (dataSock, w) = udp_new ops ip_initialized 0 clientPort w in
        Option.bind (block_loop fs ops dataSock fileSize 1 0 c w) (\<lambda>(blockNumber, c, w).
          case blockNumber of
            None \<Rightarrow> Some (c, udp_close ops dataSock w)
          | Some blockNumber \<Rightarrow>
              map_option (\<lambda>w. (c, udp_close ops dataSock w)) (final_block ops dataSock fileSize blockNumber w)))"

definition handleReadRequest ::
  "(u8, 'f) fs_ops \<Rightarrow> 'n net_ops \<Rightarrow> bool \<Rightarrow> u16 \<Rightarrow> u8 list \<Rightarrow> 'f \<times> 'n udp_world \<Rightarrow> ('f \<times> 'n udp_world) option" where
  "handleReadRequest fs ops ip_initialized sin_port packet fw =
     (case fw of (f, w) \<Rightarrow>
      let filename = drop 2 packet;
          filenameLen = strnlen filename maxFilenameLen;
          modeStr = drop (2 + filenameLen + 1) packet
      in if take 4 filename = tree_bytes then Some (snd (generateTree fs f), w)
         else Option.bind (request_mode modeStr) (\<lambda>mode.
           if mode \<noteq> OCTET then Some (f, w)
           else Option.bind (c_string filename) (\<lambda>name.
             let c = cf_open fs (map (\<lambda>b. char_of (unat b)) name) (ucast FS_O_READ) f in
             if initStatus c < 0 then Some (cf_close fs c, w)
             else
               let clientPort = drop_bit 8 sin_port OR push_bit 8 sin_port in
               map_option (\<lambda>(c, w). (cf_close fs c, w)) (transfer fs ops ip_initialized clientPort c w))))"

definition tftp_Run ::
  "(u8, 'f) fs_ops \<Rightarrow> 'n net_ops \<Rightarrow> bool \<Rightarrow> udp_socket \<Rightarrow> 'f \<times> 'n udp_world \<Rightarrow> ('f \<times> 'n udp_world) option" where
  "tftp_Run fs ops ip_initialized control fw =
     (case fw of (f, w) \<Rightarrow>
      case ReceiveAsynchronous ops control 512 w of
        (rxLen, bytes, sin_port, w) \<Rightarrow>
          if rxLen = 0 \<or> rxLen < 0 then Some (f, w)
          else
            let packet = take 512 (bytes @ replicate 512 0);
                opcode = be16 (packet ! 0) (packet ! 1)
            in if opcode = RRQ then handleReadRequest fs ops ip_initialized sin_port packet (f, w) else Some (f, w))"


subsection \<open>A silent client\<close>

text \<open>A socket that works and has nothing to receive, now and later.\<close>

definition silent :: "'n net_ops \<Rightarrow> udp_socket \<Rightarrow> bool" where
  "silent ops u \<longleftrightarrow>
     (\<forall>n. fst (set_nonblock ops u n)) \<and>
     (\<forall>n. case zsock_recvfrom ops (sock u) 4 n of (ret, bytes, port, n') \<Rightarrow> ret < 0 \<and> errno ops n' = EAGAIN)"

lemma silent_receive:
  assumes "silent ops u"
  shows "\<exists>port w'. ReceiveAsynchronous ops u 4 w = (0, [], port, w')"
proof -
  obtain nb n where nb: "set_nonblock ops u (net w) = (nb, n)" by fastforce
  obtain ret bytes port n' where r: "zsock_recvfrom ops (sock u) 4 n = (ret, bytes, port, n')" by (metis prod_cases4)
  have "nb" using assms nb by (metis fst_conv silent_def)
  moreover have "ret < 0 \<and> errno ops n' = EAGAIN" using assms r unfolding silent_def by (metis (mono_tags, lifting) case_prod_conv)
  ultimately show ?thesis using nb r by (simp add: ReceiveAsynchronous_def)
qed

lemma wait_loop_silent:
  assumes "silent ops u"
  shows "wait_loop ops u b 0 w = None"
proof (rule ccontr)
  have "silent ops u \<longrightarrow> 5 \<le> k" if major: "wait_loop ops u b k w = Some y" for k w y
  proof (rule wait_loop.raw_induct [of "\<lambda>ops u b k w y. silent ops u \<longrightarrow> 5 \<le> k", OF _ major], intro impI, rule ccontr)
    fix loop and ops :: "'a net_ops" and u b w y and k :: nat
    assume IH: "\<And>ops u b k w y. loop ops u b k w = Some y \<Longrightarrow> silent ops u \<longrightarrow> 5 \<le> k"
      and body: "(if k < 5 then
        (case ReceiveAsynchronous ops u 4 w of
           (ret, bytes, port, w) \<Rightarrow>
             if ret < 0 then
               if errno ops (net w) = EWOULDBLOCK \<or> errno ops (net w) = EAGAIN then
                 loop ops u b (k + 1) (w\<lparr>net := k_msleep ops 100 (net w)\<rparr>)
               else Some (errno ops (net w), w)
             else if ret = 4 then
               (let ack = ack_buffer bytes;
                    receivedOpcode = be16 (ack ! 0) (ack ! 1);
                    receivedBlockNum = be16 (ack ! 2) (ack ! 3)
                in if receivedOpcode = ACK \<and> receivedBlockNum = b then Some (0, w) else Some (-1, w))
             else loop ops u b k w)
      else Some (-1, w)) = Some y"
      and s: "silent ops u" and k: "\<not> 5 \<le> k"
    obtain port w' where "ReceiveAsynchronous ops u 4 w = (0, [], port, w')" using silent_receive [OF s] by blast
    then have "loop ops u b k w' = Some y" using body k by simp
    then show False using IH s k by blast
  qed
  moreover assume "wait_loop ops u b 0 w \<noteq> None"
  ultimately show False using assms by (metis not_Some_eq not_one_le_zero le_zero_eq numeral_eq_Suc zero_neq_numeral)
qed

subsection \<open>A client that acknowledges\<close>

text \<open>The acknowledgement of block \<open>b\<close> arrives, after any number of looks at an empty socket.\<close>

inductive acked :: "'n net_ops \<Rightarrow> udp_socket \<Rightarrow> u16 \<Rightarrow> 'n \<Rightarrow> 'n \<Rightarrow> bool" for ops u b where
  now: "set_nonblock ops u n = (True, n1) \<Longrightarrow> zsock_recvfrom ops (sock u) 4 n1 = (4, [hi8 ACK, lo8 ACK, hi8 b, lo8 b], port, n') \<Longrightarrow>
     acked ops u b n n'"
| later: "set_nonblock ops u n = (True, n1) \<Longrightarrow> zsock_recvfrom ops (sock u) 4 n1 = (ret, bytes, port, n2) \<Longrightarrow> ret < 0 \<Longrightarrow>
     errno ops n2 = EAGAIN \<Longrightarrow> acked ops u b n2 n' \<Longrightarrow> acked ops u b n n'"

lemma be16_parts [simp]: "be16 (hi8 w) (lo8 w) = w"
proof -
  have "(0xFF :: u16) = mask 8" by (simp add: mask_eq_exp_minus_1)
  then have "lo8 w = ucast (w AND mask 8)" for w by (simp only: lo8_def)
  then show ?thesis by (intro bit_word_eqI) (auto simp: be16_def hi8_def bit_simps)
qed

lemma wait_loop_acked:
  "acked ops u b n n' \<Longrightarrow> k < 5 \<Longrightarrow> wait_loop ops u b k (w\<lparr>net := n\<rparr>) = Some (0, w\<lparr>net := n'\<rparr>)"
proof (induction rule: acked.induct)
  case (now n n1 port n')
  then have "ReceiveAsynchronous ops u 4 (w\<lparr>net := n\<rparr>) = (4, [hi8 ACK, lo8 ACK, hi8 b, lo8 b], port, w\<lparr>net := n'\<rparr>)"
    by (simp add: ReceiveAsynchronous_def)
  then show ?case using now.prems by (subst wait_loop.simps) (simp add: ack_buffer_def Let_def)
next
  case (later n n1 ret bytes port n2 n')
  then have "ReceiveAsynchronous ops u 4 (w\<lparr>net := n\<rparr>) = (0, [], port, w\<lparr>net := n2\<rparr>)"
    by (simp add: ReceiveAsynchronous_def)
  then show ?case using later by (subst wait_loop.simps) simp
qed

text \<open>
  The client at a port: what is sent to it from socket \<open>s\<close> arrives, recorded in \<open>sent\<close>, and it
  acknowledges the number in the block.
\<close>

definition client_acks :: "'n net_ops \<Rightarrow> int \<Rightarrow> u16 \<Rightarrow> ('n \<Rightarrow> u8 list list) \<Rightarrow> bool" where
  "client_acks ops s port sent \<longleftrightarrow>
     (\<forall>u n data. sock u = s \<longrightarrow> (\<exists>n1 r n2 n3. set_nonblock ops u n = (True, n1) \<and>
        zsock_sendto ops s data port n1 = (r, n2) \<and> acked ops u (be16 (data ! 2) (data ! 3)) n2 n3 \<and>
        sent n3 = sent n @ [data]))"

text \<open>Opening and closing a socket and sleeping work and send nothing.\<close>

definition sockets_ok :: "'n net_ops \<Rightarrow> int \<Rightarrow> ('n \<Rightarrow> u8 list list) \<Rightarrow> bool" where
  "sockets_ok ops s sent \<longleftrightarrow> 0 \<le> s \<and>
     (\<forall>n. fst (zsock_socket ops n) = s \<and> sent (snd (zsock_socket ops n)) = sent n) \<and>
     (\<forall>port n. 0 \<le> fst (zsock_bind ops s port n) \<and> sent (snd (zsock_bind ops s port n)) = sent n) \<and>
     (\<forall>n. sent (zsock_close ops s n) = sent n) \<and> (\<forall>ms n. sent (k_msleep ops ms n) = sent n)"

text \<open>
  Documented behaviour of a file system whose files nobody changes meanwhile: \<open>files\<close> are the contents by path, \<open>opened\<close> and
  \<open>pos\<close> the content of the open file and the position in it. Opening an existing file for reading succeeds, opening
  another one fails.
\<close>

definition serves_file :: "(u8, 'f) fs_ops \<Rightarrow> (string \<rightharpoonup> u8 list) \<Rightarrow> ('f \<Rightarrow> u8 list) \<Rightarrow> ('f \<Rightarrow> nat) \<Rightarrow> bool" where
  "serves_file fs files opened pos \<longleftrightarrow>
     (\<forall>path f. case files path of
        None \<Rightarrow> fst (fs_open fs path FS_O_READ f) < 0 \<and> fst (fs_stat fs path f) < 0
      | Some content \<Rightarrow> (\<exists>f'. fs_open fs path FS_O_READ f = (0, f') \<and> opened f' = content \<and> pos f' = 0) \<and>
          fs_stat fs path f = (0, int (length content))) \<and>
     (\<forall>k f. k \<le> length (opened f) \<longrightarrow> (\<exists>r f'. fs_seek fs (int k) f = (r, f') \<and> 0 \<le> r \<and> opened f' = opened f \<and> pos f' = k)) \<and>
     (\<forall>len f. let bytes = take len (drop (pos f) (opened f)) in
        \<exists>f'. fs_read fs len f = (int (length bytes), bytes, f') \<and> opened f' = opened f \<and> pos f' = pos f + length bytes)"

lemma serves_file_parts:
  assumes "serves_file fs files opened pos"
  shows "case files path of
        None \<Rightarrow> fst (fs_open fs path FS_O_READ f) < 0 \<and> fst (fs_stat fs path f) < 0
      | Some content \<Rightarrow> (\<exists>f'. fs_open fs path FS_O_READ f = (0, f') \<and> opened f' = content \<and> pos f' = 0) \<and>
          fs_stat fs path f = (0, int (length content))"
    and "k \<le> length (opened f) \<Longrightarrow> \<exists>r f'. fs_seek fs (int k) f = (r, f') \<and> 0 \<le> r \<and> opened f' = opened f \<and> pos f' = k"
    and "\<exists>f'. fs_read fs len f = (int (length (take len (drop (pos f) (opened f)))), take len (drop (pos f) (opened f)), f') \<and>
        opened f' = opened f"
proof -
  note a = assms [unfolded serves_file_def Let_def]
  show "case files path of
        None \<Rightarrow> fst (fs_open fs path FS_O_READ f) < 0 \<and> fst (fs_stat fs path f) < 0
      | Some content \<Rightarrow> (\<exists>f'. fs_open fs path FS_O_READ f = (0, f') \<and> opened f' = content \<and> pos f' = 0) \<and>
          fs_stat fs path f = (0, int (length content))" by (rule conjunct1 [OF a, THEN spec, THEN spec])
  show "k \<le> length (opened f) \<Longrightarrow> \<exists>r f'. fs_seek fs (int k) f = (r, f') \<and> 0 \<le> r \<and> opened f' = opened f \<and> pos f' = k"
    using conjunct1 [OF conjunct2 [OF a]] by blast
  show "\<exists>f'. fs_read fs len f = (int (length (take len (drop (pos f) (opened f)))), take len (drop (pos f) (opened f)), f') \<and>
      opened f' = opened f" using conjunct2 [OF conjunct2 [OF a]] by blast
qed

lemma serves_file_open:
  assumes "serves_file fs files opened pos" "files path = Some content"
  shows "\<exists>f'. fs_open fs path FS_O_READ f = (0, f') \<and> opened f' = content \<and> pos f' = 0"
    and "fs_stat fs path f = (0, int (length content))"
  using serves_file_parts(1) [OF assms(1), of path f] assms(2) by simp_all

lemma serves_file_absent:
  assumes "serves_file fs files opened pos" "files path = None"
  shows "fst (fs_open fs path FS_O_READ f) < 0"
  using serves_file_parts(1) [OF assms(1), of path f] assms(2) by simp

lemma read_flag: "(ucast (ucast FS_O_READ :: u32) :: u8) = FS_O_READ"
  by (simp add: FS_O_READ_def)

text \<open>A file that \<open>CFile\<close> has opened for reading.\<close>

definition reads_file :: "(string \<rightharpoonup> u8 list) \<Rightarrow> ('f \<Rightarrow> u8 list) \<Rightarrow> u8 list \<Rightarrow> 'f cfile \<Rightarrow> bool" where
  "reads_file files opened content c \<longleftrightarrow>
     initStatus c = 0 \<and> cf_flags c = ucast FS_O_READ \<and> files (cf_path c) = Some content \<and> opened (cf_file c) = content"

lemma cf_open_reads:
  assumes "serves_file fs files opened pos" "files path = Some content"
  shows "reads_file files opened content (cf_open fs path (ucast FS_O_READ) f) \<and> pos (cf_file (cf_open fs path (ucast FS_O_READ) f)) = 0"
  using serves_file_open(1) [OF assms, of f] assms(2) by (auto simp: reads_file_def cf_open_def read_flag)

text \<open>The packets of a file: blocks of 512 bytes and a shorter last one, maybe empty.\<close>

definition data_packet :: "u8 list \<Rightarrow> nat \<Rightarrow> u8 list" where
  "data_packet content j = header (of_nat (Suc j)) @ take 512 (drop (512 * j) content)"

definition data_packets :: "u8 list \<Rightarrow> u8 list list" where
  "data_packets content = map (data_packet content) [0..<length content div 512 + 1]"

lemma cf_Read_block:
  assumes "serves_file fs files opened pos" "reads_file files opened content c" "off \<le> length content" "off = 0 \<longrightarrow> pos (cf_file c) = 0"
  shows "\<exists>f. cf_Read fs 512 (int off) c = (int (length (take 512 (drop off content))), take 512 (drop off content), c\<lparr>cf_file := f\<rparr>) \<and>
    reads_file files opened content (c\<lparr>cf_file := f\<rparr>)"
proof -
  have c: "initStatus c = 0" "cf_flags c AND ucast FS_O_READ \<noteq> 0" "opened (cf_file c) = content"
    using assms(2) by (simp_all add: reads_file_def FS_O_READ_def)
  obtain r g where g: "fs_seek fs (int off) (cf_file c) = (r, g)" "0 \<le> r" "opened g = content" "pos g = off"
    using serves_file_parts(2) [OF assms(1), of off "cf_file c"] assms(3) c(3) by auto
  define h where "h = (if 0 < off then g else cf_file c)"
  have h: "opened h = content" "pos h = off" using g c(3) assms(4) by (auto simp: h_def)
  obtain f where f: "fs_read fs 512 h = (int (length (take 512 (drop off content))), take 512 (drop off content), f)" "opened f = content"
    using serves_file_parts(3) [OF assms(1), of 512 h] h by auto
  have "reads_file files opened content (c\<lparr>cf_file := f\<rparr>)" using assms(2) f(2) by (simp add: reads_file_def)
  then show ?thesis using c f(1) g(1,2) by (auto simp: cf_Read_def h_def)
qed

lemma block_length:
  assumes "0 < m" "m \<le> 512"
  shows "(word_of_int (int m) :: u32) \<noteq> 0" "unat (word_of_int (int m) + 4 :: u32) = m + 4"
proof -
  have "(word_of_int (int m) :: u32) = of_nat m" by simp
  moreover have "unat (of_nat m :: u32) = m" using assms(2) by (simp add: unat_of_nat take_bit_nat_eq_self)
  ultimately show "(word_of_int (int m) :: u32) \<noteq> 0" "unat (word_of_int (int m) + 4 :: u32) = m + 4"
    using assms by (auto simp: unat_word_ariths)
qed

lemma next_offset:
  assumes "off + m < 2 ^ 31"
  shows "sint (word_of_int (int off) + word_of_int (int m) :: u32) = int (off + m)"
proof -
  have "int (off + m) < 2 ^ 31" using assms by (metis of_nat_less_iff of_nat_numeral of_nat_power)
  then have "sint (word_of_int (int (off + m)) :: u32) = int (off + m)"
    by (simp only: sint_sbintrunc' signed_of_int) (rule signed_take_bit_int_eq_self, simp_all)
  then show ?thesis by simp
qed

lemma send_acked:
  assumes "client_acks ops s port sent" "sock u = s" "async_addr w = None \<and> word_of_int (dstPort u) = port \<or> async_addr w = Some port"
  shows "\<exists>w' n. snd (TransmitAsynchronous ops u (header b @ bytes) w) = w' \<and> waitForAck ops u b w' = Some (0, w'\<lparr>net := n\<rparr>) \<and>
    async_addr w' = Some port \<and> sent n = sent (net w) @ [header b @ bytes]"
proof -
  obtain n1 r n2 n3 where n: "set_nonblock ops u (net w) = (True, n1)" "zsock_sendto ops s (header b @ bytes) port n1 = (r, n2)"
    "acked ops u (be16 ((header b @ bytes) ! 2) ((header b @ bytes) ! 3)) n2 n3" "sent n3 = sent (net w) @ [header b @ bytes]"
    using assms(1,2) unfolding client_acks_def by blast
  have "acked ops u b n2 n3" using n(3) by (simp add: header_def)
  let ?w = "w\<lparr>async_addr := Some port, net := n2\<rparr>"
  have "snd (TransmitAsynchronous ops u (header b @ bytes) w) = ?w"
    using assms(2,3) n(1,2) by (auto simp: TransmitAsynchronous_def Let_def)
  moreover have "waitForAck ops u b ?w = Some (0, ?w\<lparr>net := n3\<rparr>)"
    using wait_loop_acked [OF \<open>acked ops u b n2 n3\<close>, of 0 ?w] by (simp add: waitForAck_def)
  ultimately show ?thesis using n(4) by fastforce
qed

definition addr_ok :: "udp_socket \<Rightarrow> u16 \<Rightarrow> 'n udp_world \<Rightarrow> bool" where
  "addr_ok u port w \<longleftrightarrow> async_addr w = None \<and> word_of_int (dstPort u) = port \<or> async_addr w = Some port"

lemma send_block_acked:
  assumes "client_acks ops s port sent" "sock u = s" "addr_ok u port w" "0 < length bytes" "length bytes \<le> 512"
  shows "\<exists>w1 n. send_block ops u b bytes (word_of_int (int (length bytes))) w = Some w1 \<and>
    waitForAck ops u b w1 = Some (0, w1\<lparr>net := n\<rparr>) \<and> addr_ok u port w1 \<and> sent n = sent (net w) @ [header b @ bytes]"
proof -
  have len: "unat (word_of_int (int (length bytes)) + 4 :: u32) = length bytes + 4" by (rule block_length(2) [OF assms(4,5)])
  have "take (length bytes + 4) (take 516 (header b @ bytes @ replicate 512 0)) = header b @ bytes"
    using assms(5) by (simp add: header_def eval_nat_numeral)
  moreover have "length (take 516 (header b @ bytes @ replicate 512 0)) = 516" using assms(5) by (simp add: header_def)
  ultimately have "send_block ops u b bytes (word_of_int (int (length bytes))) w =
      Some (snd (TransmitAsynchronous ops u (header b @ bytes) w))"
    using len assms(5) by (simp add: send_block_def Let_def del: take_append take_take)
  then show ?thesis using send_acked [OF assms(1,2), of w b bytes] assms(3) by (auto simp: addr_ok_def)
qed

lemma block_loop_sends:
  assumes fs: "serves_file fs files opened pos" and cl: "client_acks ops s port sent" "sock u = s" and L: "length content < 2 ^ 31"
    and c: "reads_file files opened content c" "k = 0 \<longrightarrow> pos (cf_file c) = 0" and w: "addr_ok u port w"
    and k: "k \<le> N" and N: "N = (length content + 511) div 512"
  shows "\<exists>f w'. block_loop fs ops u (int (length content)) (of_nat (Suc k)) (int (min (512 * k) (length content))) c w =
      Some (Some (of_nat (Suc N)), c\<lparr>cf_file := f\<rparr>, w') \<and> addr_ok u port w' \<and>
    sent (net w') = sent (net w) @ map (data_packet content) [k..<N]"
  using c w k
proof (induction "N - k" arbitrary: k c w)
  case 0
  then have "k = N" by simp
  then have "length content \<le> 512 * k" using N by simp
  then show ?case using 0 \<open>k = N\<close> by (subst block_loop.simps) (auto intro!: exI [of _ "cf_file c"])
next
  case (Suc d)
  let ?off = "512 * k" and ?bytes = "take 512 (drop (512 * k) content)"
  have k: "k < N" using Suc.hyps(2) by linarith
  then have off: "?off < length content" using N by linarith
  then have m: "0 < length ?bytes" "length ?bytes \<le> 512" by simp_all
  obtain f where rd: "cf_Read fs 512 (int ?off) c = (int (length ?bytes), ?bytes, c\<lparr>cf_file := f\<rparr>)"
      "reads_file files opened content (c\<lparr>cf_file := f\<rparr>)"
    using cf_Read_block [OF fs Suc.prems(1), of ?off] Suc.prems(2) off by fastforce
  obtain w1 n where w1: "send_block ops u (of_nat (Suc k)) ?bytes (word_of_int (int (length ?bytes))) w = Some w1"
      "waitForAck ops u (of_nat (Suc k)) w1 = Some (0, w1\<lparr>net := n\<rparr>)" "addr_ok u port w1"
      "sent n = sent (net w) @ [header (of_nat (Suc k)) @ ?bytes]"
    using send_block_acked [OF cl Suc.prems(3) m] by blast
  have next_off: "sint (word_of_int (int ?off) + word_of_int (int (length ?bytes)) :: u32) = int (min (512 * Suc k) (length content))"
  proof -
    have "?off + length ?bytes = min (512 * Suc k) (length content)" using off by simp
    then show ?thesis using next_offset [of ?off "length ?bytes"] L by simp
  qed
  have step: "block_loop fs ops u (int (length content)) (of_nat (Suc k)) (int (min ?off (length content))) c w =
      block_loop fs ops u (int (length content)) (of_nat (Suc (Suc k))) (int (min (512 * Suc k) (length content)))
        (c\<lparr>cf_file := f\<rparr>) (w1\<lparr>net := n\<rparr>)"
  proof -
    have "min ?off (length content) = ?off" using off by simp
    moreover have "(of_nat (Suc k) :: u16) + 1 = of_nat (Suc (Suc k))" by simp
    ultimately show ?thesis
      using off block_length(1) [OF m] rd(1) w1(1,2)
      by (subst block_loop.simps) (simp only: Let_def prod.case Option.bind_lunit next_off of_nat_less_iff if_True if_False
          refl simp_thms)
  qed
  have prems: "d = N - Suc k" "reads_file files opened content (c\<lparr>cf_file := f\<rparr>)"
    "Suc k = 0 \<longrightarrow> pos (cf_file (c\<lparr>cf_file := f\<rparr>)) = 0" "addr_ok u port (w1\<lparr>net := n\<rparr>)" "Suc k \<le> N"
    using Suc.hyps(2) w1(3) k rd(2) by (simp_all add: addr_ok_def)
  obtain f' w' where "block_loop fs ops u (int (length content)) (of_nat (Suc (Suc k))) (int (min (512 * Suc k) (length content)))
        (c\<lparr>cf_file := f\<rparr>) (w1\<lparr>net := n\<rparr>) = Some (Some (of_nat (Suc N)), c\<lparr>cf_file := f\<rparr>\<lparr>cf_file := f'\<rparr>, w')"
      "addr_ok u port w'" "sent (net w') = sent n @ map (data_packet content) [Suc k..<N]"
    using Suc.hyps(1) [of "Suc k" "c\<lparr>cf_file := f\<rparr>" "w1\<lparr>net := n\<rparr>"] prems by fastforce
  moreover have "[k..<N] = k # [Suc k..<N]" using k by (rule upt_conv_Cons)
  ultimately show ?case using step w1(4) by (auto simp: data_packet_def)
qed

lemma final_block_sends:
  assumes "client_acks ops s port sent" "sock u = s" "addr_ok u port w" "N = (length content + 511) div 512"
  shows "\<exists>w'. final_block ops u (int (length content)) (of_nat (Suc N)) w = Some w' \<and>
    sent (net w') = sent (net w) @ map (data_packet content) [N..<length content div 512 + 1]"
proof (cases "length content mod 512 = 0")
  case True
  define q where "q = length content div 512"
  have q: "length content = 512 * q" using True mod_mult_div_eq [of "length content" 512] by (simp add: q_def)
  have N: "N = length content div 512" "512 * N = length content" using assms(4) q by simp_all
  obtain w1 n where 1: "snd (TransmitAsynchronous ops u (header (of_nat (Suc N))) w) = w1"
    "waitForAck ops u (of_nat (Suc N)) w1 = Some (0, w1\<lparr>net := n\<rparr>)" "sent n = sent (net w) @ [header (of_nat (Suc N))]"
    using send_acked [OF assms(1,2), of w "of_nat (Suc N)" "[]"] assms(3) by (auto simp: addr_ok_def)
  have "data_packet content N = header (of_nat (Suc N))" using N by (simp add: data_packet_def)
  then show ?thesis using 1 True N(1) zmod_int [of "length content" 512] by (auto simp: final_block_def)
next
  case False
  define q r where "q = length content div 512" and "r = length content mod 512"
  have "length content = r + 512 * q" "0 < r" "r < 512" using False by (simp_all add: q_def r_def)
  then have "N = length content div 512 + 1" using assms(4) by simp
  then show ?thesis using False zmod_int [of "length content" 512] by (auto simp: final_block_def)
qed

lemma transfer_sends:
  assumes fs: "serves_file fs files opened pos" and cl: "client_acks ops s port sent" and so: "sockets_ok ops s sent"
    and L: "length content < 2 ^ 31"
    and c: "reads_file files opened content c" "pos (cf_file c) = 0"
    and w: "async_addr w = None \<or> async_addr w = Some port"
  shows "\<exists>c' w'. transfer fs ops True port c w = Some (c', w') \<and> sent (net w') = sent (net w) @ data_packets content"
proof -
  have "int (length content) < 2 ^ 31" using L by (metis of_nat_less_iff of_nat_numeral of_nat_power)
  then have size: "sint (word_of_int (GetFileSize fs c) :: u32) = int (length content)"
    using next_offset [of "length content" 0] L serves_file_open(2) [OF fs] c(1) by (simp add: GetFileSize_def reads_file_def)
  define n1 where "n1 = snd (zsock_socket ops (net w))"
  then have n1: "zsock_socket ops (net w) = (s, n1)" "sent n1 = sent (net w)"
    using so by (simp_all add: sockets_ok_def prod_eq_iff)
  define r n2 where "r = fst (zsock_bind ops s 0 n1)" and "n2 = snd (zsock_bind ops s 0 n1)"
  then have n2: "zsock_bind ops s 0 n1 = (r, n2)" "0 \<le> r" "sent n2 = sent n1"
    using so by (simp_all add: sockets_ok_def)
  define n3 where "n3 = (if k_uptime_get_32 ops n2 < 2000 then k_msleep ops (2000 - uint (k_uptime_get_32 ops n2)) n2 else n2)"
  have s: "0 \<le> s" "sent n3 = sent (net w)" using so n1 n2 by (auto simp: sockets_ok_def n3_def)
  define u where "u = \<lparr>sock = s, dstPort = uint port\<rparr>"
  define w0 where "w0 = w\<lparr>net := n3\<rparr>"
  have u: "udp_new ops True 0 port w = (u, w0)" "sock u = s" "addr_ok u port w0" "sent (net w0) = sent (net w)"
    using s n1(1) n2(1,2) w by (simp_all add: udp_new_def u_def w0_def n3_def addr_ok_def Let_def)
  define N where "N = (length content + 511) div 512"
  obtain f w1 where 1: "block_loop fs ops u (int (length content)) 1 0 c w0 = Some (Some (of_nat (Suc N)), c\<lparr>cf_file := f\<rparr>, w1)"
    "addr_ok u port w1" "sent (net w1) = sent (net w0) @ map (data_packet content) [0..<N]"
    using block_loop_sends [OF fs cl u(2) L c(1) _ u(3) _ N_def, of 0] c(2) by auto
  obtain w2 where 2: "final_block ops u (int (length content)) (of_nat (Suc N)) w1 = Some w2"
    "sent (net w2) = sent (net w1) @ map (data_packet content) [N..<length content div 512 + 1]"
    using final_block_sends [OF cl u(2) 1(2) N_def] by blast
  have "N \<le> length content div 512 + 1" unfolding N_def by linarith
  then have "map (data_packet content) [0..<N] @ map (data_packet content) [N..<length content div 512 + 1] = data_packets content"
    unfolding data_packets_def map_append [symmetric] by (metis add_0 le0 le_add_diff_inverse upt_add_eq_append)
  then have "sent (net w2) = sent (net w) @ data_packets content" using 1(3) 2(2) u(4) by simp
  then show ?thesis using size u(1,2) 1(1) 2(1) so
    by (auto simp: transfer_def Let_def udp_close_def sockets_ok_def)
qed

lemma data_packets_content:
  "concat (map (drop 4) (data_packets content)) = content \<and> (\<forall>p\<in>set (butlast (data_packets content)). length p = 516) \<and>
   length (last (data_packets content)) < 516"
proof -
  have h: "drop 4 (data_packet content j) = take 512 (drop (512 * j) content)" for j
    by (simp add: data_packet_def header_def)
  have "concat (map (\<lambda>j. take 512 (drop (512 * j) content)) [0..<k]) = take (512 * k) content" for k
  proof (induction k)
    case (Suc k)
    have "take (512 * Suc k) content = take (512 * k) content @ take 512 (drop (512 * k) content)"
      using take_add [of "512 * k" 512 content] by (simp add: add.commute)
    then show ?case using Suc by simp
  qed simp
  moreover have "length content \<le> 512 * (length content div 512 + 1)"
    using mod_mult_div_eq [of "length content" 512] mod_less_divisor [of 512 "length content"]
    by (simp add: distrib_left)
  ultimately have c: "concat (map (drop 4) (data_packets content)) = content"
    unfolding data_packets_def map_map comp_def h by simp
  have "butlast (data_packets content) = map (data_packet content) [0..<length content div 512]"
    by (simp add: data_packets_def)
  moreover have "length (data_packet content j) = 516" if "j < length content div 512" for j
  proof -
    have "512 * j + 512 \<le> length content" using that by linarith
    then show ?thesis by (simp add: data_packet_def header_def)
  qed
  moreover have "last (data_packets content) = data_packet content (length content div 512)" by (simp add: data_packets_def)
  moreover have "length (data_packet content (length content div 512)) < 516"
  proof -
    have "length content - 512 * (length content div 512) < 512" by linarith
    then show ?thesis by (simp add: data_packet_def header_def)
  qed
  ultimately show ?thesis using c by auto
qed

text \<open>A read request in octet mode.\<close>

definition read_request :: "u8 list \<Rightarrow> u8 list" where
  "read_request name = [hi8 RRQ, lo8 RRQ] @ name @ [0] @ octet_bytes @ [0]"

lemma strcmp_octet: "strcmp_eq (octet_bytes @ 0 # rest) netascii_bytes = Some False" "strcmp_eq (octet_bytes @ 0 # rest) octet_bytes = Some True"
  by (simp_all add: octet_bytes_def netascii_bytes_def)

lemma request_octet: "request_mode (octet_bytes @ 0 # rest) = Some OCTET"
  by (simp add: request_mode_def strcmp_octet)

lemma takeWhile_name: "0 \<notin> set name \<Longrightarrow> takeWhile (\<lambda>b. b \<noteq> 0) (name @ 0 # rest) = name" for name :: "u8 list"
  by (induction name) auto

lemma read_request_parts:
  assumes "0 \<notin> set name" "length name \<le> 500"
  shows "strnlen (drop 2 (read_request name @ rest)) maxFilenameLen = length name"
    "drop (2 + length name + 1) (read_request name @ rest) = octet_bytes @ 0 # rest"
    "c_string (drop 2 (read_request name @ rest)) = Some name"
proof -
  have d: "drop 2 (read_request name @ rest) = name @ 0 # octet_bytes @ 0 # rest" by (simp add: read_request_def)
  have "take maxFilenameLen (name @ 0 # octet_bytes @ 0 # rest) =
      name @ 0 # take (maxFilenameLen - Suc (length name)) (octet_bytes @ 0 # rest)"
    using assms(2) by (simp add: maxFilenameLen_def take_Cons')
  then show "strnlen (drop 2 (read_request name @ rest)) maxFilenameLen = length name"
    unfolding d strnlen_def using takeWhile_name [OF assms(1)] by simp
  show "drop (2 + length name + 1) (read_request name @ rest) = octet_bytes @ 0 # rest" by (simp add: read_request_def)
  show "c_string (drop 2 (read_request name @ rest)) = Some name"
    unfolding d c_string_def using takeWhile_name [OF assms(1)] by simp
qed

lemma request_not_tree:
  assumes "take 4 name \<noteq> tree_bytes"
  shows "take 4 (drop 2 (read_request name @ rest)) \<noteq> tree_bytes"
proof (cases "4 \<le> length name")
  case False
  then have "0 \<in> set (take 4 (name @ 0 # octet_bytes @ 0 # rest))" by (auto simp: take_Cons')
  moreover have "0 \<notin> set tree_bytes" by (simp add: tree_bytes_def)
  ultimately have "take 4 (name @ 0 # octet_bytes @ 0 # rest) \<noteq> tree_bytes" by metis
  then show ?thesis by (simp add: read_request_def)
qed (use assms in \<open>simp add: read_request_def\<close>)

subsection \<open>Properties\<close>

text \<open>
  C18: a read request in octet mode from a client that acknowledges every block returns. When the file system has a file
  with the requested name, the client has got exactly the packets of that file: their data is its content, all but
  the last carry 512 bytes and the last fewer; every block number is acknowledged before the
  next block is sent. When it has no such file, the client gets nothing. The destination of the program's transmissions must be free or this client.
\<close>

theorem tftp_sends_file:
  assumes "serves_file fs files opened pos" "\<forall>content. files (map (\<lambda>b. char_of (unat b)) name) = Some content \<longrightarrow> length content < 2 ^ 31"
    and "clientPort = drop_bit 8 sin_port OR push_bit 8 sin_port"
    and "client_acks ops s clientPort sent" "sockets_ok ops s sent"
    and "async_addr w = None \<or> async_addr w = Some clientPort"
    and "0 \<notin> set name" "length name \<le> 500" "take 4 name \<noteq> tree_bytes"
  shows "\<exists>f' w'. handleReadRequest fs ops True sin_port (read_request name @ rest) (f, w) = Some (f', w') \<and>
    sent (net w') = sent (net w) @
      (case files (map (\<lambda>b. char_of (unat b)) name) of None \<Rightarrow> [] | Some content \<Rightarrow> data_packets content) \<and>
    (\<forall>content. concat (map (drop 4) (data_packets content)) = content \<and>
       (\<forall>p\<in>set (butlast (data_packets content)). length p = 516) \<and> length (last (data_packets content)) < 516)"
proof -
  define path where "path = map (\<lambda>b. char_of (unat b) :: char) name"
  define c where "c = cf_open fs path (ucast FS_O_READ) f"
  have "\<exists>f' w'. handleReadRequest fs ops True sin_port (read_request name @ rest) (f, w) = Some (f', w') \<and>
      sent (net w') = sent (net w) @ (case files path of None \<Rightarrow> [] | Some content \<Rightarrow> data_packets content)"
  proof (cases "files path")
    case None
    then have "initStatus c < 0"
      using serves_file_absent [OF assms(1), of path f] by (cases "fs_open fs path FS_O_READ f") (simp add: c_def cf_open_def read_flag)
    then show ?thesis
      using None read_request_parts [OF assms(7,8), of rest] request_octet [of rest] request_not_tree [OF assms(9), of rest]
      by (simp add: handleReadRequest_def Let_def c_def path_def)
  next
    case (Some content)
    have L: "length content < 2 ^ 31" using assms(2) Some unfolding path_def by blast
    have c: "reads_file files opened content c" "pos (cf_file c) = 0"
      unfolding c_def using cf_open_reads [OF assms(1) Some] by blast+
    obtain c' w' where t: "transfer fs ops True clientPort c w = Some (c', w')" "sent (net w') = sent (net w) @ data_packets content"
      using transfer_sends [OF assms(1,4,5) L c assms(6)] by blast
    have "initStatus c = 0" using c(1) by (simp add: reads_file_def)
    then have "handleReadRequest fs ops True sin_port (read_request name @ rest) (f, w) = Some (cf_close fs c', w')"
      using t(1) read_request_parts [OF assms(7,8), of rest] request_octet [of rest] request_not_tree [OF assms(9), of rest] assms(3)
      by (simp add: handleReadRequest_def Let_def c_def path_def)
    then show ?thesis using t(2) Some by simp
  qed
  then show ?thesis using data_packets_content unfolding path_def by blast
qed

text \<open>A file system with two files and a client that answers every packet, for the witness.\<close>

definition example_files :: "u8 list \<Rightarrow> string \<rightharpoonup> u8 list" where
  "example_files content = [''f'' \<mapsto> content, ''g'' \<mapsto> [1]]"

definition example_file :: "u8 list \<Rightarrow> (u8, u8 list \<times> nat) fs_ops" where
  "example_file content = \<lparr>fs_open = \<lambda>path _ f. (case example_files content path of None \<Rightarrow> (-2, f) | Some c \<Rightarrow> (0, c, 0)),
     fs_close = \<lambda>f. (0, f), fs_write = \<lambda>bytes f. (-1, f),
     fs_read = \<lambda>n (c, p). (int (length (take n (drop p c))), take n (drop p c), c, p + length (take n (drop p c))),
     fs_seek = \<lambda>k (c, p). (0, c, nat k), fs_tell = \<lambda>(c, p). int p, fs_sync = \<lambda>f. (0, f),
     fs_stat = \<lambda>path f. (case example_files content path of None \<Rightarrow> (-2, 0) | Some c \<Rightarrow> (0, int (length c)))\<rparr>"

lemma example_file_serves: "serves_file (example_file content) (example_files content) fst snd"
  by (auto simp: serves_file_def example_file_def Let_def split: option.split)

definition example_client :: "(u8 list list \<times> u16) net_ops" where
  "example_client = \<lparr>zsock_socket = \<lambda>n. (3, n), zsock_bind = \<lambda>_ _ n. (0, n), zsock_close = \<lambda>_ n. n,
     zsock_getfl = \<lambda>_ n. (0, n), zsock_setfl = \<lambda>_ _ n. (0, n),
     zsock_sendto = \<lambda>_ data port n. (int (length data), fst n @ [data], be16 (data ! 2) (data ! 3)),
     zsock_recvfrom = \<lambda>_ _ n. (4, [hi8 ACK, lo8 ACK, hi8 (snd n), lo8 (snd n)], 0, n),
     zsock_set_timeo = \<lambda>_ _ _ n. (0, n), errno = \<lambda>_. EAGAIN, k_uptime_get_32 = \<lambda>_. 5000, k_msleep = \<lambda>_ n. n,
     O_NONBLOCK = 0x4000\<rparr>"

lemma example_client_ok: "client_acks example_client 3 port fst" "sockets_ok example_client 3 fst"
proof -
  have nb: "set_nonblock example_client u n = (True, n)" for u n
    by (simp add: set_nonblock_def example_client_def)
  have "acked example_client u b (x, b) (x, b)" for u b x
    by (rule acked.now [OF nb]) (simp add: example_client_def)
  then show "client_acks example_client 3 port fst"
    unfolding client_acks_def using nb by (fastforce simp: example_client_def)
  show "sockets_ok example_client 3 fst" by (simp add: sockets_ok_def example_client_def)
qed

theorem tftp_sends_file_witness:
  "(\<exists>f' w'. handleReadRequest (example_file [7, 8, 9]) example_client True 0x3930 (read_request [0x66] @ [0]) (([], 0),
      \<lparr>sync_addr = None, async_addr = None, net = ([], 0)\<rparr>) = Some (f', w') \<and> fst (net w') = [[0, 3, 0, 1, 7, 8, 9]]) \<and>
   (\<exists>f' w'. handleReadRequest (example_file [7, 8, 9]) example_client True 0x3930 (read_request [0x68] @ [0]) (([], 0),
      \<lparr>sync_addr = None, async_addr = None, net = ([], 0)\<rparr>) = Some (f', w') \<and> fst (net w') = [])"
proof -
  have p: "data_packets [7, 8, 9] = [[0, 3, 0, 1, 7, 8, 9]]"
    by (simp add: data_packets_def data_packet_def header_def hi8_def lo8_def DATA_def)
  have m: "take 4 [x] \<noteq> tree_bytes" for x by (simp add: tree_bytes_def)
  have n: "char_of (102 :: nat) = CHR ''f''" "char_of (104 :: nat) = CHR ''h''" by (simp_all add: char_of_def bit_iff_odd)
  have f: "example_files [7, 8, 9] ''f'' = Some [7, 8, 9]" "example_files [7, 8, 9] ''h'' = None" by (simp_all add: example_files_def)
  note t = tftp_sends_file [OF example_file_serves [of "[7, 8, 9]"] _ refl example_client_ok, where rest = "[0]" and f = "([], 0)"
      and sin_port = "0x3930" and w = "\<lparr>sync_addr = None, async_addr = None, net = ([], 0)\<rparr>"]
  show ?thesis using t [where name = "[0x66]"] t [where name = "[0x68]"] m [of "0x66"] m [of "0x68"] by (auto simp: n f p)
qed

text \<open>
  The wait for an acknowledgement never returns while nothing arrives. The receive of
  \<open>CUdpSocket\<close> reports an empty socket as zero bytes and not as an error, so the five retries
  are never counted.
\<close>

theorem tftp_silent_client_blocks:
  assumes "silent ops dataSock"
  shows "waitForAck ops dataSock blockNum w = None"
  unfolding waitForAck_def by (rule wait_loop_silent [OF assms])

theorem tftp_silent_client_blocks_witness:
  "waitForAck recording_net \<lparr>sock = 3, dstPort = 10\<rparr> 1 \<lparr>sync_addr = None, async_addr = None, net = []\<rparr> = None"
  by (rule tftp_silent_client_blocks) (simp add: silent_def recording_net_def set_nonblock_def)



end
