(* ===== verification/Module_Tasks.thy ===== *)
theory Module_Tasks
  imports Radio_System Sensing Tftp_Server File_Store
begin

text \<open>
  Tasks and tenants (\<open>lib/f_core/os/c_task.cpp\<close>, \<open>n_rtos.cpp\<close>, \<open>c_tenant.cpp\<close>), the tenants that move
  messages (\<open>include/f_core/net/application/c_udp_broadcast_tenant.h\<close>,
  \<open>include/f_core/os/tenants/c_datalogger_tenant.h\<close>) and the tasks of the modules.
\<close>

subsection \<open>Tasks\<close>

text \<open>
  A tenant is its four methods on the state \<open>'s\<close> of the program; \<open>None\<close> is a call that does not
  return. The kernel calls are parameters, an allocated stack is \<open>True\<close>.
\<close>

record 's tenant =
  Startup :: "'s \<Rightarrow> 's option"
  PostStartup :: "'s \<Rightarrow> 's option"
  Run :: "'s \<Rightarrow> 's option"
  Cleanup :: "'s \<Rightarrow> 's option"

record 's task =
  task_name :: string
  priority :: int
  stackSize :: nat
  sleepTimeMs :: int
  stack :: bool
  tenants :: "'s tenant list"

record 's kernel_ops =
  k_thread_stack_alloc :: "nat \<Rightarrow> 's \<Rightarrow> bool \<times> 's"
  k_thread_create :: "'s task \<Rightarrow> 's \<Rightarrow> 's"
  k_thread_abort :: "'s task \<Rightarrow> 's \<Rightarrow> 's"
  k_thread_stack_free :: "'s task \<Rightarrow> 's \<Rightarrow> 's"
  k_msleep_task :: "int \<Rightarrow> 's \<Rightarrow> 's"

definition task_new :: "string \<Rightarrow> int \<Rightarrow> nat \<Rightarrow> int \<Rightarrow> 's task" where
  "task_new nm prio sz ms = \<lparr>task_name = nm, priority = prio, stackSize = sz, sleepTimeMs = ms, stack = False, tenants = []\<rparr>"

definition AddTenant :: "'s tenant \<Rightarrow> 's task \<Rightarrow> 's task" where
  "AddTenant tenant t = t\<lparr>tenants := tenants t @ [tenant]\<rparr>"

definition task_Initialize :: "'s kernel_ops \<Rightarrow> 's task \<Rightarrow> 's \<Rightarrow> ('s task \<times> 's) option" where
  "task_Initialize ops t s =
     Option.bind (fold_opt Startup (tenants t) s) (\<lambda>s.
     Option.bind (fold_opt PostStartup (tenants t) s) (\<lambda>s.
       case k_thread_stack_alloc ops (stackSize t) s of
         (ok, s) \<Rightarrow> if \<not> ok then None else Some (t\<lparr>stack := True\<rparr>, k_thread_create ops t s)))"

definition task_Run :: "'s kernel_ops \<Rightarrow> 's task \<Rightarrow> 's \<Rightarrow> 's option" where
  "task_Run ops t s = map_option (k_msleep_task ops (sleepTimeMs t)) (fold_opt Run (tenants t) s)"

text \<open>The thread repeats turns for ever; after \<open>n\<close> turns:\<close>

fun task_turns :: "'s kernel_ops \<Rightarrow> 's task \<Rightarrow> nat \<Rightarrow> 's \<Rightarrow> 's option" where
  "task_turns ops t 0 s = Some s"
| "task_turns ops t (Suc n) s = Option.bind (task_Run ops t s) (task_turns ops t n)"

definition task_destroy :: "'s kernel_ops \<Rightarrow> 's task \<Rightarrow> 's \<Rightarrow> ('s task \<times> 's) option" where
  "task_destroy ops t s =
     map_option (\<lambda>s. let s = k_thread_abort ops t s in
        if stack t then (t\<lparr>stack := False\<rparr>, k_thread_stack_free ops t s) else (t, s))
       (fold_opt Cleanup (tenants t) s)"

definition AddTask :: "'s task \<Rightarrow> 's task list \<Rightarrow> 's task list" where
  "AddTask t tasks = tasks @ [t]"

fun StartRtos :: "'s kernel_ops \<Rightarrow> 's task list \<Rightarrow> 's \<Rightarrow> ('s task list \<times> 's) option" where
  "StartRtos ops [] s = Some ([], s)"
| "StartRtos ops (t # ts) s =
     Option.bind (task_Initialize ops t s) (\<lambda>(t, s). map_option (\<lambda>(ts, s). (t # ts, s)) (StartRtos ops ts s))"

fun StopRtos :: "'s kernel_ops \<Rightarrow> 's task list \<Rightarrow> 's \<Rightarrow> ('s task list \<times> 's) option" where
  "StopRtos ops [] s = Some ([], s)"
| "StopRtos ops (t # ts) s =
     Option.bind (task_destroy ops t s) (\<lambda>(t, s). map_option (\<lambda>(ts, s). (t # ts, s)) (StopRtos ops ts s))"

text \<open>A call that does not return ends the turn, and every later turn, of its task.\<close>

lemma task_Run_stuck:
  assumes "tenants t = before @ tenant # after" "\<And>s'. fold_opt Run before s = Some s' \<Longrightarrow> Run tenant s' = None"
  shows "task_turns ops t (Suc n) s = None"
proof -
  have "fold_opt Run (tenants t) s = None"
    unfolding assms(1) fold_opt_append using assms(2) by (cases "fold_opt Run before s") auto
  then show ?thesis by (simp add: task_Run_def)
qed

subsection \<open>Tenants that move messages\<close>

definition TransmitMessageSynchronous ::
  "('m \<Rightarrow> u8 list) \<Rightarrow> 'n net_ops \<Rightarrow> ('m, 'q) CMessagePort \<Rightarrow> 'm \<Rightarrow> udp_socket \<Rightarrow> 'n udp_world \<times> 'q \<Rightarrow> ('n udp_world \<times> 'q) option" where
  "TransmitMessageSynchronous to_bytes nops port zero u wq =
     (case wq of (w, q) \<Rightarrow>
      map_option (\<lambda>(ret, m, q). (if ret = 0 then snd (TransmitSynchronous nops u (to_bytes m) w) else w, q))
        (Receive port zero K_FOREVER q))"

definition TransmitMessageAsynchronous ::
  "('m \<Rightarrow> u8 list) \<Rightarrow> 'n net_ops \<Rightarrow> ('m, 'q) CMessagePort \<Rightarrow> 'm \<Rightarrow> udp_socket \<Rightarrow> 'n udp_world \<times> 'q \<Rightarrow> ('n udp_world \<times> 'q) option" where
  "TransmitMessageAsynchronous to_bytes nops port zero u wq =
     (case wq of (w, q) \<Rightarrow>
      map_option (\<lambda>(ret, m, q). (if ret = 0 then snd (TransmitAsynchronous nops u (to_bytes m) w) else w, q))
        (Receive port zero K_NO_WAIT q))"

definition broadcast_Run ::
  "('m \<Rightarrow> u8 list) \<Rightarrow> 'n net_ops \<Rightarrow> ('m, 'q) CMessagePort \<Rightarrow> 'm \<Rightarrow> udp_socket \<Rightarrow> 'n udp_world \<times> 'q \<Rightarrow> ('n udp_world \<times> 'q) option" where
  "broadcast_Run = TransmitMessageAsynchronous"

definition logger_Run ::
  "('c, 'f) fs_ops \<Rightarrow> ('m \<Rightarrow> 'c list) \<Rightarrow> ('m, 'q) CMessagePort \<Rightarrow> 'm \<Rightarrow> 'f datalogger \<times> 'q \<Rightarrow> ('f datalogger \<times> 'q) option" where
  "logger_Run fs to_bytes port zero dq =
     (case dq of (dl, q) \<Rightarrow>
      map_option (\<lambda>(ret, m, q). (if ret = 0 then snd (dl_write fs (to_bytes m) dl) else dl, q)) (Receive port zero K_FOREVER q))"

definition logger_Cleanup :: "('c, 'f) fs_ops \<Rightarrow> 'f datalogger \<Rightarrow> 'f datalogger" where
  "logger_Cleanup fs dl = snd (dl_close fs dl)"

subsection \<open>From the queue to the file\<close>

text \<open>
  What happens to a log queue: other threads offer messages with any timeout, and the logger takes
  its turns. A turn on an empty queue waits, so nothing changes; nor does an offer that waits for ever for room. A turn of the logger
  while an offer waits is the same as that turn before the offer. The offers that were accepted are
  collected.
\<close>

datatype 'm log_event = Offer 'm timeout | Turn

definition log_step ::
  "('c, 'f) fs_ops \<Rightarrow> ('m \<Rightarrow> 'c list) \<Rightarrow> ('m, 'q) CMessagePort \<Rightarrow> 'm \<Rightarrow> 'm log_event \<Rightarrow> 'm list \<times> 'f datalogger \<times> 'q \<Rightarrow>
     'm list \<times> 'f datalogger \<times> 'q" where
  "log_step fs to_bytes port zero e adq =
     (case adq of (accepted, dl, q) \<Rightarrow>
      case e of
        Offer m t \<Rightarrow> (case Send port m t q of
            None \<Rightarrow> (accepted, dl, q)
          | Some (ret, q) \<Rightarrow> (if ret = 0 then accepted @ [m] else accepted, dl, q))
      | Turn \<Rightarrow> (case logger_Run fs to_bytes port zero (dl, q) of
            None \<Rightarrow> (accepted, dl, q)
          | Some (dl, q) \<Rightarrow> (accepted, dl, q)))"

definition log_run ::
  "('c, 'f) fs_ops \<Rightarrow> ('m \<Rightarrow> 'c list) \<Rightarrow> ('m, 'q) CMessagePort \<Rightarrow> 'm \<Rightarrow> 'm log_event list \<Rightarrow> 'm list \<times> 'f datalogger \<times> 'q \<Rightarrow>
     'm list \<times> 'f datalogger \<times> 'q" where
  "log_run fs to_bytes port zero es adq = fold (log_step fs to_bytes port zero) es adq"

context waiting_port
begin

lemma logger_turn:
  assumes "queued q = m # ms" "behaves_as_file fs content pos" "dl_mode dl = Growing" "pos (dl_file dl) = length (content (dl_file dl))"
  shows "\<exists>dl' q'. logger_Run fs to_bytes port zero (dl, q) = Some (dl', q') \<and> queued q' = ms \<and> dl_mode dl' = Growing \<and>
    content (dl_file dl') = content (dl_file dl) @ to_bytes m \<and> pos (dl_file dl') = length (content (dl_file dl'))"
proof -
  obtain q' where q': "Receive port zero K_FOREVER q = Some (0, m, q')" "queued q' = ms" using receive_first [OF assms(1)] by blast
  obtain dl' where "dl_put fs (to_bytes m) dl = (int (length (to_bytes m)), dl')" "dl_mode dl' = dl_mode dl"
      "content (dl_file dl') = overwrite (pos (dl_file dl)) (to_bytes m) (content (dl_file dl))"
      "pos (dl_file dl') = pos (dl_file dl) + length (to_bytes m)"
    using dl_put_file [OF assms(2), of dl "to_bytes m"] assms(4) by auto
  then show ?thesis using q' assms(3,4) by (simp add: logger_Run_def dl_write_def overwrite_def)
qed

definition log_invariant ::
  "('m \<Rightarrow> 'c list) \<Rightarrow> ('f \<Rightarrow> 'c list) \<Rightarrow> ('f \<Rightarrow> nat) \<Rightarrow> 'm list \<times> 'f datalogger \<times> 'q \<Rightarrow> bool" where
  "log_invariant to_bytes content pos = (\<lambda>(accepted, dl, q).
     content (dl_file dl) @ concat (map to_bytes (queued q)) = concat (map (\<lambda>m. to_bytes (kept m)) accepted) \<and>
     length (queued q) \<le> capacity \<and> dl_mode dl = Growing \<and> pos (dl_file dl) = length (content (dl_file dl)))"

lemma log_step_invariant:
  assumes "behaves_as_file fs content pos" "log_invariant to_bytes content pos adq"
  shows "log_invariant to_bytes content pos (log_step fs to_bytes port zero e adq)"
proof -
  obtain accepted dl q where adq: "adq = (accepted, dl, q)" by (metis prod_cases3)
  show ?thesis
  proof (cases e)
    case (Offer m t)
    show ?thesis using send_any [where m = m and t = t and q = q] assms(2) Offer
      by (auto simp: adq log_step_def log_invariant_def split: if_splits option.splits prod.splits)
  next
    case Turn
    show ?thesis
    proof (cases "queued q")
      case Nil
      then show ?thesis using receive_waits assms(2) Turn by (simp add: adq log_step_def log_invariant_def logger_Run_def)
    next
      case (Cons m ms)
      obtain dl' q' where "logger_Run fs to_bytes port zero (dl, q) = Some (dl', q')" "queued q' = ms" "dl_mode dl' = Growing"
          "content (dl_file dl') = content (dl_file dl) @ to_bytes m" "pos (dl_file dl') = length (content (dl_file dl'))"
        using logger_turn [OF Cons assms(1), of dl to_bytes] assms(2) by (auto simp: adq log_invariant_def)
      then show ?thesis using Cons Turn assms(2) by (simp add: adq log_step_def log_invariant_def)
    qed
  qed
qed

lemma log_run_invariant:
  assumes "behaves_as_file fs content pos" "log_invariant to_bytes content pos adq"
  shows "log_invariant to_bytes content pos (log_run fs to_bytes port zero es adq)"
  using assms(2) unfolding log_run_def by (induction es arbitrary: adq) (simp_all add: log_step_invariant [OF assms(1)])

end

text \<open>On a queue of the kernel every element is the bytes of a message.\<close>

lemma log_step_bytes:
  assumes "\<And>m. length (to_bytes m) = sz" "set q \<subseteq> range to_bytes"
    "log_step fs to_bytes (CMsgqMessagePort (kernel_queue cap sz) to_bytes of_bytes) zero e (accepted, dl, q) = (accepted', dl', q')"
  shows "set q' \<subseteq> range to_bytes"
proof (cases e)
  case (Offer m t)
  have "take sz (to_bytes m) = to_bytes m" using assms(1) [of m] by simp
  then show ?thesis using assms Offer
    by (cases t) (auto simp: log_step_def CMsgqMessagePort_def msgq_Send_def kernel_queue_def Let_def split: if_splits)
next
  case Turn
  then show ?thesis using assms
    by (cases q) (auto simp: log_step_def logger_Run_def CMsgqMessagePort_def msgq_Receive_def kernel_queue_def Let_def split: if_splits)
qed

lemma log_run_bytes:
  assumes "\<And>m. length (to_bytes m) = sz"
  shows "set q \<subseteq> range to_bytes \<Longrightarrow>
    log_run fs to_bytes (CMsgqMessagePort (kernel_queue cap sz) to_bytes of_bytes) zero es (accepted, dl, q) = (accepted', dl', q') \<Longrightarrow>
    set q' \<subseteq> range to_bytes"
proof (induction es arbitrary: accepted dl q)
  case Nil
  then show ?case by (simp add: log_run_def)
next
  case (Cons e es)
  obtain a1 dl1 q1 where
    1: "log_step fs to_bytes (CMsgqMessagePort (kernel_queue cap sz) to_bytes of_bytes) zero e (accepted, dl, q) = (a1, dl1, q1)"
    by (metis prod_cases3)
  show ?case using Cons.IH [OF log_step_bytes [OF assms Cons.prems(1) 1], of a1 dl1] Cons.prems(2) 1 by (simp add: log_run_def)
qed

text \<open>
  C16: between its tenants and the file of a growing log nothing is lost, doubled or reordered: on the port of the modules,
  a queue of the kernel whose messages have the size of the type, after any interleaving of offers, with any timeouts, and turns
  of the logger, the bytes in the file and then those in the queue are
  exactly the bytes of the messages that were accepted, in their order, and the queue never exceeds its capacity.
\<close>

theorem log_keeps_accepted:
  assumes "\<forall>m. length (to_bytes m) = sz \<and> of_bytes (to_bytes m) = m" "behaves_as_file fs content pos"
    and "dl = dl_open fs filename Growing 0 f" "content (dl_file dl) = []" "pos (dl_file dl) = 0"
    and "log_run fs to_bytes (CMsgqMessagePort (kernel_queue cap sz) to_bytes of_bytes) zero es ([], dl, []) = (accepted, dl', q')"
  shows "content (dl_file dl') @ concat q' = concat (map to_bytes accepted) \<and> length q' \<le> cap"
proof -
  let ?seen = "seen to_bytes of_bytes zero"
  have port: "waiting_port (CMsgqMessagePort (kernel_queue cap sz) to_bytes of_bytes) (map ?seen) cap zero (\<lambda>m. ?seen (take sz (to_bytes m)))"
    by (rule kernel_queue_waiting) (use assms(1) in simp_all)
  have seen: "?seen (to_bytes m) = m" for m using assms(1) by (simp add: seen_def)
  have kept: "(\<lambda>m. ?seen (take sz (to_bytes m))) = id" using assms(1) seen by (simp add: fun_eq_iff)
  note port = port [unfolded kept]
  have "waiting_port.log_invariant (map ?seen) cap id to_bytes content pos ([], dl, [])"
    using assms(3-5) by (simp add: waiting_port.log_invariant_def [OF port] dl_open_def)
  from waiting_port.log_run_invariant [OF port assms(2) this, of es] assms(6)
  have inv: "content (dl_file dl') @ concat (map to_bytes (map ?seen q')) = concat (map to_bytes accepted)" "length q' \<le> cap"
    by (simp_all add: waiting_port.log_invariant_def [OF port])
  have "set q' \<subseteq> range to_bytes" using log_run_bytes [OF _ _ assms(6)] assms(1) by simp
  then have "map to_bytes (map ?seen q') = q'" by (induction q') (auto simp: seen)
  then show ?thesis using inv by simp
qed

text \<open>A file of bytes in memory, for the witness.\<close>

definition byte_file :: "(u8, u8 list \<times> nat) fs_ops" where
  "byte_file = \<lparr>fs_open = \<lambda>_ _ f. (0, f), fs_close = \<lambda>f. (0, f),
     fs_write = \<lambda>bytes (c, p). (int (length bytes), overwrite p bytes c, p + length bytes), fs_read = \<lambda>_ f. (0, [], f),
     fs_seek = \<lambda>k (c, p). (0, c, nat k), fs_tell = \<lambda>(c, p). int p, fs_sync = \<lambda>f. (0, f), fs_stat = \<lambda>_ _. (0, 0)\<rparr>"

lemma byte_file_ok: "behaves_as_file byte_file fst snd"
  by (simp add: behaves_as_file_def byte_file_def)

definition word_of :: "u8 list \<Rightarrow> u16" where
  "word_of bytes = be16 (bytes ! 0) (bytes ! 1)"

definition word_bytes :: "u16 \<Rightarrow> u8 list" where
  "word_bytes w = [hi8 w, lo8 w]"

theorem log_keeps_accepted_witness:
  "\<exists>dl' q'. log_run byte_file word_bytes (CMsgqMessagePort (kernel_queue 2 2) word_bytes word_of) 0
      [Offer 1 K_NO_WAIT, Turn, Turn, Offer 2 (K_MSEC 5), Offer 3 K_FOREVER, Offer 4 (K_MSEC 5), Offer 5 K_NO_WAIT, Offer 6 K_FOREVER, Turn]
      ([], dl_open byte_file ''log'' Growing 0 ([], 0), []) = ([1, 2, 3], dl', q') \<and>
    fst (dl_file dl') @ concat q' = [0, 1, 0, 2, 0, 3]"
proof -
  have w: "word_of (word_bytes m) = m" for m by (simp add: word_of_def word_bytes_def)
  have l: "length (word_bytes m) = 2" for m by (simp add: word_bytes_def)
  obtain dl' q' where r: "log_run byte_file word_bytes (CMsgqMessagePort (kernel_queue 2 2) word_bytes word_of) 0
      [Offer 1 K_NO_WAIT, Turn, Turn, Offer 2 (K_MSEC 5), Offer 3 K_FOREVER, Offer 4 (K_MSEC 5), Offer 5 K_NO_WAIT, Offer 6 K_FOREVER, Turn]
      ([], dl_open byte_file ''log'' Growing 0 ([], 0), []) = ([1, 2, 3], dl', q')"
    by (simp add: log_run_def log_step_def logger_Run_def CMsgqMessagePort_def msgq_Send_def msgq_Receive_def kernel_queue_def
        w l dl_open_def dl_write_def dl_put_def byte_file_def ENOMSG_def EAGAIN_def)
  have "\<forall>m. length (word_bytes m) = 2 \<and> word_of (word_bytes m) = m" by (simp add: w l)
  from log_keeps_accepted [OF this byte_file_ok refl _ _ r] r show ?thesis
    by (auto simp: dl_open_def byte_file_def word_bytes_def hi8_def lo8_def)
qed

subsection \<open>The power module\<close>

text \<open>
  The program of the power module: its tenants on one state. \<open>pm_data\<close> is the data of the two queues,
  what a sensing turn reads depends on the hardware \<open>pm_hw\<close>.
\<close>

record ('f, 'n, 'q, 'h) power_module =
  pm_world :: "'n udp_world"
  pm_files :: 'f
  pm_logger :: "'f datalogger"
  pm_broadcast :: 'q
  pm_log :: 'q
  pm_logData :: bool
  pm_hw :: 'h

record ('m, 'f, 'n, 'q, 'h) power_env =
  pe_net :: "'n net_ops"
  pe_fs :: "(u8, 'f) fs_ops"
  pe_port :: "('m, 'q) CMessagePort"
  pe_zero :: 'm
  pe_bytes :: "'m \<Rightarrow> u8 list"
  pe_sense :: "'h \<Rightarrow> ('m \<times> 'h) option"
  pe_broadcast_socket :: udp_socket
  pe_tftp_socket :: udp_socket
  pe_alert_socket :: udp_socket

definition idle_tenant :: "('s \<Rightarrow> 's option) \<Rightarrow> 's tenant" where
  "idle_tenant run = \<lparr>Startup = Some, PostStartup = Some, Run = run, Cleanup = Some\<rparr>"

definition power_broadcast_tenant :: "('m, 'f, 'n, 'q, 'h) power_env \<Rightarrow> ('f, 'n, 'q, 'h) power_module tenant" where
  "power_broadcast_tenant e = idle_tenant (\<lambda>s. map_option (\<lambda>(w, q). s\<lparr>pm_world := w, pm_broadcast := q\<rparr>)
     (broadcast_Run (pe_bytes e) (pe_net e) (pe_port e) (pe_zero e) (pe_broadcast_socket e) (pm_world s, pm_broadcast s)))"

definition power_tftp_tenant :: "('m, 'f, 'n, 'q, 'h) power_env \<Rightarrow> ('f, 'n, 'q, 'h) power_module tenant" where
  "power_tftp_tenant e = idle_tenant (\<lambda>s. map_option (\<lambda>(f, w). s\<lparr>pm_files := f, pm_world := w\<rparr>)
     (tftp_Run (pe_fs e) (pe_net e) True (pe_tftp_socket e) (pm_files s, pm_world s)))"

definition power_alert_tenant :: "('m, 'f, 'n, 'q, 'h) power_env \<Rightarrow> ('f, 'n, 'q, 'h) power_module tenant" where
  "power_alert_tenant e = idle_tenant (\<lambda>s. case alert_Run (pe_net e) (pe_alert_socket e) (pm_world s) of
     (alert, w) \<Rightarrow> Some (s\<lparr>pm_world := w,
       pm_logData := (case alert of None \<Rightarrow> pm_logData s | Some a \<Rightarrow> power_Notify a (pm_logData s))\<rparr>))"

text \<open>Both queues are given five milliseconds.\<close>

definition power_sensing_tenant :: "('m, 'f, 'n, 'q, 'h) power_env \<Rightarrow> ('f, 'n, 'q, 'h) power_module tenant" where
  "power_sensing_tenant e = idle_tenant (\<lambda>s.
     Option.bind (pe_sense e (pm_hw s)) (\<lambda>(data, h).
     Option.bind (Send (pe_port e) data (K_MSEC 5) (pm_broadcast s)) (\<lambda>(_, q).
       if pm_logData s then
         map_option (\<lambda>(_, l). s\<lparr>pm_hw := h, pm_broadcast := q, pm_log := l\<rparr>) (Send (pe_port e) data (K_MSEC 5) (pm_log s))
       else Some (s\<lparr>pm_hw := h, pm_broadcast := q\<rparr>))))"

definition power_logger_tenant :: "('m, 'f, 'n, 'q, 'h) power_env \<Rightarrow> ('f, 'n, 'q, 'h) power_module tenant" where
  "power_logger_tenant e = \<lparr>Startup = Some, PostStartup = Some,
     Run = \<lambda>s. map_option (\<lambda>(dl, l). s\<lparr>pm_logger := dl, pm_log := l\<rparr>)
       (logger_Run (pe_fs e) (pe_bytes e) (pe_port e) (pe_zero e) (pm_logger s, pm_log s)),
     Cleanup = \<lambda>s. Some (s\<lparr>pm_logger := logger_Cleanup (pe_fs e) (pm_logger s)\<rparr>)\<rparr>"

definition power_network_task :: "('m, 'f, 'n, 'q, 'h) power_env \<Rightarrow> ('f, 'n, 'q, 'h) power_module task" where
  "power_network_task e = AddTenant (power_alert_tenant e) (AddTenant (power_tftp_tenant e)
     (AddTenant (power_broadcast_tenant e) (task_new ''Networking Task'' 15 3072 0)))"

definition power_sensing_task :: "('m, 'f, 'n, 'q, 'h) power_env \<Rightarrow> ('f, 'n, 'q, 'h) power_module task" where
  "power_sensing_task e = AddTenant (power_sensing_tenant e) (task_new ''Sensing Task'' 15 1024 0)"

definition power_logging_task :: "('m, 'f, 'n, 'q, 'h) power_env \<Rightarrow> ('f, 'n, 'q, 'h) power_module task" where
  "power_logging_task e = AddTenant (power_logger_tenant e) (task_new ''Data Logging Task'' 15 1500 0)"

definition power_tasks :: "('m, 'f, 'n, 'q, 'h) power_env \<Rightarrow> ('f, 'n, 'q, 'h) power_module task list" where
  "power_tasks e = AddTask (power_logging_task e) (AddTask (power_sensing_task e) (AddTask (power_network_task e) []))"

definition power_main ::
  "('f, 'n, 'q, 'h) power_module kernel_ops \<Rightarrow> ('m, 'f, 'n, 'q, 'h) power_env \<Rightarrow> ('f, 'n, 'q, 'h) power_module \<Rightarrow>
     (('f, 'n, 'q, 'h) power_module task list \<times> ('f, 'n, 'q, 'h) power_module) option" where
  "power_main ops e s = StartRtos ops (power_tasks e) s"

text \<open>The radio module gives the names of its tenants in the order of their tasks; the LoRa ones are left out of a simulation.\<close>

definition radio_task_table :: "(string \<times> int \<times> nat \<times> int \<times> string list) list" where
  "radio_task_table =
     [(''Networking Task'', 14, 3072, 0, [''Sensor Module Listener Tenant'', ''Power Module Listener Tenant'', ''TFTP server'', ''Alert Tenant'']),
      (''LoRa Task'', 15, 2048, 0, [''LoRa Transmit Tenant'', ''LoRa Receive Tenant'']),
      (''Data Logging Task'', 15, 2048, 0, [''Data Logger Tenant'']),
      (''GNSS Task'', 15, 1024, 2000, [''GNSS Tenant''])]"

definition sensor_task_table :: "(string \<times> int \<times> nat \<times> int \<times> string list) list" where
  "sensor_task_table =
     [(''Networking Task'', 15, 3072, 0, [''Broadcast Tenant'', ''TFTP server'']),
      (''Sensing Task'', 15, 1024, 0, [''Sensing Tenant'']),
      (''Data Logging Task'', 15, 1300, 0, [''Data Logger Tenant''])]"

subsection \<open>A silent client\<close>

lemma silent_wait: "silent ops u \<Longrightarrow> waitForAck ops u b w = None"
  unfolding waitForAck_def by (rule wait_loop_silent)

lemma transfer_silent:
  assumes fs: "serves_file fs files opened pos" and L: "length content < 2 ^ 31"
    and c: "reads_file files opened content c" "pos (cf_file c) = 0" and quiet: "\<And>u. silent ops u"
  shows "transfer fs ops True port c w = None"
proof -
  have "int (length content) < 2 ^ 31" using L by (metis of_nat_less_iff of_nat_numeral of_nat_power)
  then have size: "sint (word_of_int (GetFileSize fs c) :: u32) = int (length content)"
    using next_offset [of "length content" 0] L serves_file_open(2) [OF fs] c(1) by (simp add: GetFileSize_def reads_file_def)
  have loop: "Option.bind (block_loop fs ops u (int (length content)) 1 0 c w) (\<lambda>(b, c, w). case b of
      None \<Rightarrow> Some (c, udp_close ops u w)
    | Some b \<Rightarrow> map_option (\<lambda>w. (c, udp_close ops u w)) (final_block ops u (int (length content)) b w)) = None" for u w
  proof (cases "content = []")
    case True
    then show ?thesis by (subst block_loop.simps) (simp add: final_block_def silent_wait [OF quiet])
  next
    case False
    let ?bytes = "take 512 content"
    obtain f where rd: "cf_Read fs 512 0 c = (int (length ?bytes), ?bytes, c\<lparr>cf_file := f\<rparr>)"
      using cf_Read_block [OF fs c(1), of 0] c(2) by auto
    have m: "0 < length ?bytes" "length ?bytes \<le> 512" using False by simp_all
    note bl = block_length [OF m]
    have "send_block ops u 1 ?bytes (word_of_int (int (length ?bytes))) w \<noteq> None"
      using bl(2) m(2) by (simp add: send_block_def header_def Let_def)
    then show ?thesis using rd bl(1) False
      by (subst block_loop.simps) (auto simp: Let_def silent_wait [OF quiet])
  qed
  obtain u w0 where "udp_new ops True 0 port w = (u, w0)" by fastforce
  then show ?thesis using size loop by (simp add: transfer_def Let_def)
qed

lemma read_request_silent:
  assumes "serves_file fs files opened pos" "length content < 2 ^ 31" "\<And>u. silent ops u"
    and "files (map (\<lambda>b. char_of (unat b)) name) = Some content"
    and "0 \<notin> set name" "length name \<le> 500" "take 4 name \<noteq> tree_bytes"
  shows "handleReadRequest fs ops True sin_port (read_request name @ rest) (f, w) = None"
proof -
  define c where "c = cf_open fs (map (\<lambda>b. char_of (unat b)) name) (ucast FS_O_READ) f"
  have c: "reads_file files opened content c" "pos (cf_file c) = 0"
    unfolding c_def using cf_open_reads [OF assms(1,4)] by blast+
  have "initStatus c = 0" using c(1) by (simp add: reads_file_def)
  then show ?thesis using transfer_silent [OF assms(1,2) c assms(3)] read_request_parts [OF assms(5,6), of rest]
      request_octet [of rest] request_not_tree [OF assms(7), of rest]
    by (simp add: handleReadRequest_def Let_def c_def)
qed

text \<open>
  C13: one client can stop the networking of the power module for good: when a turn of the TFTP server
  finds its read request for a file that exists and no acknowledgement ever arrives, the turn never returns, so the
  task ends no further turn, and its broadcasts and alerts are never served again.
\<close>

theorem silent_client_stops_network_task:
  assumes "serves_file (pe_fs e) files opened pos" "length content < 2 ^ 31" "\<And>u. silent (pe_net e) u"
    and "files (map (\<lambda>b. char_of (unat b)) name) = Some content"
    and "0 \<notin> set name" "length name \<le> 500" "take 4 name \<noteq> tree_bytes"
    and "Run (power_broadcast_tenant e) s = Some s1"
    and "bytes = read_request name @ rest" "length bytes \<le> 512"
    and "ReceiveAsynchronous (pe_net e) (pe_tftp_socket e) 512 (pm_world s1) = (int (length bytes), bytes, sin_port, w)"
  shows "task_turns ops (power_network_task e) (Suc n) s = None"
proof -
  let ?packet = "take 512 (bytes @ replicate 512 0)"
  have p: "?packet = read_request name @ rest @ replicate (512 - length bytes) 0" using assms(9,10) by simp
  have op: "be16 (?packet ! 0) (?packet ! 1) = RRQ" unfolding p by (simp add: read_request_def)
  have n: "0 < length bytes" using assms(9) by (simp add: read_request_def)
  have "Run (power_tftp_tenant e) s1 = None"
    using assms(11) n op p read_request_silent [OF assms(1-7), of sin_port "rest @ replicate (512 - length bytes) 0" "pm_files s1" w]
    by (simp add: power_tftp_tenant_def idle_tenant_def tftp_Run_def Let_def)
  then have "Run (power_tftp_tenant e) s' = None" if "fold_opt Run [power_broadcast_tenant e] s = Some s'" for s'
    using that assms(8) by simp
  moreover have "tenants (power_network_task e) = [power_broadcast_tenant e] @ power_tftp_tenant e # [power_alert_tenant e]"
    by (simp add: power_network_task_def AddTenant_def task_new_def)
  ultimately show ?thesis by (rule task_Run_stuck [rotated])
qed

text \<open>A network on which the same request for the file waits and no acknowledgement, for the witness.\<close>

definition request_net :: "u8 list \<Rightarrow> u8 list net_ops" where
  "request_net request = alert_net\<lparr>zsock_recvfrom :=
     \<lambda>_ len n. if len = 512 then (int (length request), request, 0x3930, n) else (-1, [], 0, n)\<rparr>"

theorem silent_client_stops_network_task_witness:
  "task_turns \<lparr>k_thread_stack_alloc = \<lambda>_ s. (True, s), k_thread_create = \<lambda>_ s. s, k_thread_abort = \<lambda>_ s. s,
       k_thread_stack_free = \<lambda>_ s. s, k_msleep_task = \<lambda>_ s. s\<rparr>
     (power_network_task \<lparr>pe_net = request_net (read_request [0x66]), pe_fs = example_file [7, 8, 9], pe_port = list_port 10 (0 :: nat),
        pe_zero = 0, pe_bytes = \<lambda>_. [], pe_sense = \<lambda>h. Some (0, h), pe_broadcast_socket = \<lparr>sock = 3, dstPort = 10\<rparr>,
        pe_tftp_socket = \<lparr>sock = 4, dstPort = 69\<rparr>, pe_alert_socket = \<lparr>sock = 5, dstPort = 11\<rparr>\<rparr>) 1
     \<lparr>pm_world = \<lparr>sync_addr = None, async_addr = None, net = []\<rparr>, pm_files = ([], 0), pm_logger = dl_open (example_file []) ''log'' Growing 0 ([], 0),
      pm_broadcast = [], pm_log = [], pm_logData = False, pm_hw = ()\<rparr> = None" (is "task_turns ?ops (power_network_task ?e) 1 ?s = None")
proof -
  let ?req = "read_request [0x66]"
  have fs: "serves_file (pe_fs ?e) (example_files [7, 8, 9]) fst snd" by (simp add: example_file_serves)
  have f: "example_files [7, 8, 9] (map (\<lambda>b. char_of (unat b)) [0x66 :: u8]) = Some [7, 8, 9]"
    by (simp add: example_files_def char_of_def bit_iff_odd)
  have q: "silent (pe_net ?e) u" for u
    by (simp add: silent_def request_net_def alert_net_def set_nonblock_def)
  have m: "take 4 [0x66] \<noteq> tree_bytes" by (simp add: tree_bytes_def)
  have b: "Run (power_broadcast_tenant ?e) ?s = Some ?s"
    by (simp add: power_broadcast_tenant_def idle_tenant_def broadcast_Run_def TransmitMessageAsynchronous_def list_port_def ENOMSG_def)
  have r: "ReceiveAsynchronous (pe_net ?e) (pe_tftp_socket ?e) 512 (pm_world ?s) = (int (length ?req), ?req, 0x3930, pm_world ?s)"
    by (simp add: ReceiveAsynchronous_def set_nonblock_def request_net_def alert_net_def)
  have l: "length ?req \<le> 512" by (simp add: read_request_def octet_bytes_def)
  show ?thesis
    using silent_client_stops_network_task [OF fs _ q f _ _ m b _ l r, of "[]" ?ops 0] by simp
qed

end
