(* ===== verification/Classic_Net.thy ===== *)
theory Classic_Net
  imports Sensing "HOL-Library.Char_ord"
begin

text \<open>
  Network helpers of the older core library (\<open>lib/launch_core_classic/net\<close>, \<open>os/time.c\<close>,
  \<open>utils/event_monitor.c\<close>, \<open>extension_boards.c\<close>). The socket, interface, modem and time calls of
  Zephyr are parameters on a state \<open>'n\<close>. An address is its number and a port is kept in the
  order of the host; a loop that may not end is a partial function, \<open>None\<close> is a loop that does not end.
\<close>

subsection \<open>UDP\<close>

record ('n, 'i) inet =
  net_addr_pton :: "string \<Rightarrow> int \<times> u32"
  inet_pton :: "string \<Rightarrow> int \<times> u32"
  net_if_get_default :: "'n \<Rightarrow> 'i option"
  net_if_lookup_by_dev :: "nat \<Rightarrow> 'n \<Rightarrow> 'i option"
  net_if_ipv4_addr_add :: "'i \<Rightarrow> u32 \<Rightarrow> 'n \<Rightarrow> bool \<times> 'n"
  net_if_ipv4_set_netmask :: "'i \<Rightarrow> u32 \<Rightarrow> 'n \<Rightarrow> 'n"
  net_if_set_promisc :: "'i \<Rightarrow> 'n \<Rightarrow> 'n"
  sk_socket :: "'n \<Rightarrow> int \<times> 'n"
  sk_bind :: "int \<Rightarrow> u32 \<times> u16 \<Rightarrow> 'n \<Rightarrow> int \<times> 'n"
  sk_close :: "int \<Rightarrow> 'n \<Rightarrow> int \<times> 'n"
  sk_rcvtimeo :: "int \<Rightarrow> int \<times> int \<Rightarrow> 'n \<Rightarrow> int \<times> 'n"
  sk_sendto :: "int \<Rightarrow> u8 list \<Rightarrow> u32 \<times> u16 \<Rightarrow> 'n \<Rightarrow> int \<times> 'n"
  sk_recvfrom :: "int \<Rightarrow> nat \<Rightarrow> 'n \<Rightarrow> int \<times> u8 list \<times> 'n"

definition INADDR_ANY :: u32 where "INADDR_ANY = 0"
definition CLASS_A_NETMASK :: string where "CLASS_A_NETMASK = ''255.0.0.0''"

definition l_init_udp_net_stack :: "('n, 'i) inet \<Rightarrow> 'i option \<Rightarrow> string \<Rightarrow> 'n \<Rightarrow> int \<times> 'n" where
  "l_init_udp_net_stack io net_interface ip_addr n =
     (case net_interface of
        None \<Rightarrow> (- ENODEV, n)
      | Some i \<Rightarrow>
          let (ret, addr) = net_addr_pton io ip_addr in
          if ret < 0 then (ret, n)
          else case net_if_ipv4_addr_add io i addr n of
            (ifaddr, n) \<Rightarrow>
              if \<not> ifaddr then (- ENODEV, n)
              else
                let (ret, subnet) = net_addr_pton io CLASS_A_NETMASK;
                    n = net_if_ipv4_set_netmask io i subnet n;
                    n = net_if_set_promisc io i n
                in (0, n))"

definition l_init_udp_net_stack_default :: "('n, 'i) inet \<Rightarrow> string \<Rightarrow> 'n \<Rightarrow> int \<times> 'n" where
  "l_init_udp_net_stack_default io ip_addr n = l_init_udp_net_stack io (net_if_get_default io n) ip_addr n"

definition l_init_udp_net_stack_by_device :: "('n, 'i) inet \<Rightarrow> nat \<Rightarrow> string \<Rightarrow> 'n \<Rightarrow> int \<times> 'n" where
  "l_init_udp_net_stack_by_device io d ip_addr n = l_init_udp_net_stack io (net_if_lookup_by_dev io d n) ip_addr n"

text \<open>\<open>ip\<close> is \<open>None\<close> for a null pointer.\<close>

definition l_init_udp_socket :: "('n, 'i) inet \<Rightarrow> string option \<Rightarrow> u16 \<Rightarrow> 'n \<Rightarrow> int \<times> 'n" where
  "l_init_udp_socket io ip port n =
     (case sk_socket io n of
        (sk, n) \<Rightarrow>
          if sk < 0 then (sk, n)
          else
            let (ret, s_addr) = (case ip of None \<Rightarrow> (1, INADDR_ANY) | Some ip \<Rightarrow> inet_pton io ip) in
            if ip \<noteq> None \<and> ret \<le> 0 then (ret, snd (sk_close io sk n))
            else case sk_bind io sk (s_addr, port) n of
              (ret, n) \<Rightarrow> if ret < 0 then (ret, snd (sk_close io sk n)) else (sk, n))"

definition l_deinit_udp_socket :: "('n, 'i) inet \<Rightarrow> int \<Rightarrow> 'n \<Rightarrow> int \<times> 'n" where
  "l_deinit_udp_socket io sk n = sk_close io sk n"

definition l_set_socket_rx_timeout :: "('n, 'i) inet \<Rightarrow> int \<Rightarrow> int \<Rightarrow> 'n \<Rightarrow> int \<times> 'n" where
  "l_set_socket_rx_timeout io sk timeout n =
     sk_rcvtimeo io sk (c_div timeout 1000, c_mod timeout 1000 * 100) n"

definition l_send_udp_broadcast :: "('n, 'i) inet \<Rightarrow> int \<Rightarrow> u8 list \<Rightarrow> u16 \<Rightarrow> 'n \<Rightarrow> int \<times> 'n" where
  "l_send_udp_broadcast io sk buff port n =
     (let (ret, s_addr) = net_addr_pton io ''255.255.255.255'' in
      if ret = 0 then sk_sendto io sk buff (s_addr, port) n else (ret, n))"

definition l_receive_udp :: "('n, 'i) inet \<Rightarrow> int \<Rightarrow> nat \<Rightarrow> 'n \<Rightarrow> int \<times> u8 list \<times> 'n" where
  "l_receive_udp io sk len n = sk_recvfrom io sk len n"

text \<open>
  The receive thread: \<open>rounds\<close> rounds of its endless loop. What a round leaves in the shared
  buffer is the state of \<open>buff\<close>.
\<close>

fun l_default_receive_round :: "('n, 'i) inet \<Rightarrow> nat \<Rightarrow> int list \<Rightarrow> u8 list \<times> 'n \<Rightarrow> u8 list \<times> 'n" where
  "l_default_receive_round io len [] bn = bn"
| "l_default_receive_round io len (s # ss) (buff, n) =
     (case l_receive_udp io s len n of
        (_, bytes, n) \<Rightarrow> l_default_receive_round io len ss (bytes @ drop (length bytes) buff, n))"

definition l_default_receive_thread :: "('n, 'i) inet \<Rightarrow> nat \<Rightarrow> int list \<Rightarrow> nat \<Rightarrow> u8 list \<times> 'n \<Rightarrow> u8 list \<times> 'n" where
  "l_default_receive_thread io rounds sockets len = (l_default_receive_round io len sockets ^^ rounds)"

text \<open>The map of handlers is Zephyr's: its two operations are parameters.\<close>

definition l_add_port_handler :: "(nat \<Rightarrow> 'p \<Rightarrow> 'm \<Rightarrow> int \<times> 'm) \<Rightarrow> u16 \<Rightarrow> 'p \<Rightarrow> 'm \<Rightarrow> int \<times> 'm" where
  "l_add_port_handler sys_hashmap_insert port handler m = sys_hashmap_insert (unat port) handler m"

definition l_remove_port_handler :: "(nat \<Rightarrow> 'm \<Rightarrow> bool \<times> 'm) \<Rightarrow> u16 \<Rightarrow> 'm \<Rightarrow> int \<times> 'm" where
  "l_remove_port_handler sys_hashmap_remove port m =
     (case sys_hashmap_remove (unat port) m of (ret, m) \<Rightarrow> (if ret then 1 else 0, m))"

text \<open>An invalid address gives 0, the number of a socket; a millisecond of the timeout is a tenth of one.\<close>

lemma invalid_address_is_socket_zero:
  assumes "sk_socket io n = (s, n')" "\<not> s < 0" "inet_pton io ip = (0, a)"
  shows "l_init_udp_socket io (Some ip) port n = (0, snd (sk_close io s n'))"
  using assms by (simp add: l_init_udp_socket_def)

lemma rx_timeout_microseconds:
  assumes "0 \<le> timeout"
  shows "l_set_socket_rx_timeout io sk timeout n = sk_rcvtimeo io sk (timeout div 1000, timeout mod 1000 * 100) n"
    and "timeout div 1000 * 1000000 + timeout mod 1000 * 100 = timeout * 1000 - 900 * (timeout mod 1000)"
proof -
  have "timeout = timeout div 1000 * 1000 + timeout mod 1000" by simp
  then show "timeout div 1000 * 1000000 + timeout mod 1000 * 100 = timeout * 1000 - 900 * (timeout mod 1000)" by linarith
next
  have "c_div timeout 1000 = timeout div 1000" "c_mod timeout 1000 = timeout mod 1000"
    using assms by (cases "timeout = 0"; simp add: c_div_def c_mod_def minus_mult_div_eq_mod [symmetric])+
  then show "l_set_socket_rx_timeout io sk timeout n = sk_rcvtimeo io sk (timeout div 1000, timeout mod 1000 * 100) n"
    by (simp add: l_set_socket_rx_timeout_def)
qed

subsection \<open>Address strings\<close>

text \<open>\<open>%d\<close> of a number that is not negative; \<open>snprintf\<close> writes 15 characters at most and returns the length.\<close>

fun dec :: "nat \<Rightarrow> string" where
  "dec k = (if k < 10 then [char_of (48 + k)] else dec (k div 10) @ [char_of (48 + k mod 10)])"

declare dec.simps [simp del]

definition MAX_IP_ADDRESS_STR_LEN :: nat where "MAX_IP_ADDRESS_STR_LEN = 16"

definition l_create_ip_str :: "string option \<Rightarrow> int \<Rightarrow> int \<Rightarrow> int \<Rightarrow> int \<Rightarrow> int \<times> string option" where
  "l_create_ip_str ip_str a b c d =
     (if ip_str = None then (-5, ip_str)
      else if a < 0 \<or> a > 255 then (-1, ip_str)
      else if b < 0 \<or> b > 255 then (-2, ip_str)
      else if c < 0 \<or> c > 255 then (-3, ip_str)
      else if d < 0 \<or> d > 255 then (-4, ip_str)
      else
        let s = dec (nat a) @ ''.'' @ dec (nat b) @ ''.'' @ dec (nat c) @ ''.'' @ dec (nat d)
        in (int (length s), Some (take (MAX_IP_ADDRESS_STR_LEN - 1) s)))"

text \<open>A reference reader: fields between dots, each a decimal number.\<close>

fun fields :: "string \<Rightarrow> string \<Rightarrow> string list" where
  "fields acc [] = [acc]"
| "fields acc (ch # cs) = (if ch = CHR ''.'' then acc # fields [] cs else fields (acc @ [ch]) cs)"

definition dec_value :: "string \<Rightarrow> nat" where
  "dec_value = foldl (\<lambda>k ch. 10 * k + (of_char ch - 48)) 0"

definition read_ip :: "string \<Rightarrow> nat list" where
  "read_ip s = map dec_value (fields [] s)"

lemma digit_value:
  assumes "k < 10"
  shows "of_char (char_of (48 + k :: nat) :: char) = 48 + k"
  using assms by (simp add: of_char_of)

lemma digit_no_dot:
  assumes "k < 10"
  shows "char_of (48 + k :: nat) \<noteq> CHR ''.''"
proof
  assume "char_of (48 + k) = CHR ''.''"
  then have "of_char (char_of (48 + k) :: char) = (of_char (CHR ''.'') :: nat)" by (rule arg_cong)
  then show False using digit_value [OF assms] by simp
qed

lemma dec_digits: "CHR ''.'' \<notin> set (dec k)"
proof (induction k rule: dec.induct)
  case (1 k)
  show ?case
  proof (cases "k < 10")
    case True
    then show ?thesis using digit_no_dot [of k] by (subst dec.simps) (simp only: if_True list.set insert_iff empty_iff simp_thms not_sym)
  next
    case False
    moreover have "k mod 10 < 10" by simp
    ultimately show ?thesis using "1.IH" not_sym [OF digit_no_dot [of "k mod 10"]]
      by (subst dec.simps) (simp only: if_False set_append list.set Un_iff insert_iff empty_iff simp_thms)
  qed
qed

lemma dec_value_dec [simp]: "dec_value (dec k) = k"
proof (induction k rule: dec.induct)
  case (1 k)
  have "k mod 10 < 10" by simp
  then show ?case using "1.IH" digit_value [of "k mod 10"] digit_value [of k]
    by (subst dec.simps) (auto simp: dec_value_def)
qed

lemma length_dec_octet: "k < 1000 \<Longrightarrow> 0 < length (dec k) \<and> length (dec k) \<le> 3"
  by (simp add: dec.simps [of k] dec.simps [of "k div 10"] dec.simps [of "k div 10 div 10"])

lemma fields_plain: "CHR ''.'' \<notin> set s \<Longrightarrow> fields acc (s @ rest) = fields (acc @ s) rest"
  by (induction s arbitrary: acc) auto

lemma fields_end: "CHR ''.'' \<notin> set s \<Longrightarrow> fields acc s = [acc @ s]"
  by (induction s arbitrary: acc) auto

text \<open>
  C36: four numbers from 0 to 255 give their dotted string, never truncated, with its length as the result,
  and reading it back gives the four numbers; otherwise the result names the first bad argument and the
  buffer is untouched.
\<close>

theorem ip_string_reads_back:
  "case l_create_ip_str (Some old) a b c d of (ret, s) \<Rightarrow>
     if \<forall>x \<in> {a, b, c, d}. 0 \<le> x \<and> x \<le> 255
     then \<exists>str. s = Some str \<and> ret = int (length str) \<and> length str < MAX_IP_ADDRESS_STR_LEN \<and> map int (read_ip str) = [a, b, c, d]
     else s = Some old \<and> (\<exists>i < 4. ret = - int i - 1 \<and> (\<forall>j < i. 0 \<le> [a, b, c, d] ! j \<and> [a, b, c, d] ! j \<le> 255) \<and>
       ([a, b, c, d] ! i < 0 \<or> 255 < [a, b, c, d] ! i))"
proof (cases "\<forall>x \<in> {a, b, c, d}. 0 \<le> x \<and> x \<le> 255")
  case True
  let ?s = "dec (nat a) @ ''.'' @ dec (nat b) @ ''.'' @ dec (nat c) @ ''.'' @ dec (nat d)"
  have dots: "CHR ''.'' \<notin> set (dec k)" for k by (rule dec_digits)
  have "fields [] ?s = [dec (nat a), dec (nat b), dec (nat c), dec (nat d)]"
    using dots by (simp add: fields_plain fields_end)
  then have r: "map int (read_ip ?s) = [a, b, c, d]" using True by (simp add: read_ip_def)
  have "length (dec (nat x)) \<le> 3" if "0 \<le> x" "x \<le> 255" for x
    using length_dec_octet [of "nat x"] that by linarith
  then have "length (dec (nat a)) \<le> 3" "length (dec (nat b)) \<le> 3" "length (dec (nat c)) \<le> 3" "length (dec (nat d)) \<le> 3"
    using True by simp_all
  then have "length ?s \<le> 15" by simp
  then have "take 15 ?s = ?s" by (rule take_all)
  then have "l_create_ip_str (Some old) a b c d = (int (length ?s), Some ?s)"
    using True by (simp add: l_create_ip_str_def MAX_IP_ADDRESS_STR_LEN_def Let_def del: take_append)
  then show ?thesis using True r \<open>length ?s \<le> 15\<close> by (simp add: MAX_IP_ADDRESS_STR_LEN_def)
next
  case False
  have ex: "(\<exists>i < 4. P i) \<longleftrightarrow> P 0 \<or> P 1 \<or> P 2 \<or> P (3 :: nat)" for P by (auto simp: eval_nat_numeral less_Suc_eq)
  show ?thesis using False by (auto simp: l_create_ip_str_def ex eval_nat_numeral less_Suc_eq)
qed

theorem ip_string_reads_back_witness:
  "\<exists>str. l_create_ip_str (Some []) 10 2 0 255 = (int (length str), Some str) \<and> map int (read_ip str) = [10, 2, 0, 255]"
  using ip_string_reads_back [where old = "[]" and a = 10 and b = 2 and c = 0 and d = 255] by (auto split: prod.splits)

subsection \<open>Events\<close>

text \<open>The socket is a static variable, -1 at first: \<open>sk\<close>.\<close>

definition LAUNCH_EVENT_NOTIFICATION_PORT :: u16 where "LAUNCH_EVENT_NOTIFICATION_PORT = 9999"

definition l_init_event_monitor :: "('n, 'i) inet \<Rightarrow> string \<Rightarrow> 'n \<Rightarrow> int \<times> int \<times> 'n" where
  "l_init_event_monitor io ip n =
     (case l_init_udp_socket io (Some ip) LAUNCH_EVENT_NOTIFICATION_PORT n of
        (sk, n) \<Rightarrow>
          if sk < 0 then (sk, sk, n)
          else case l_set_socket_rx_timeout io sk 1 n of (ret, n) \<Rightarrow> if ret < 0 then (ret, sk, n) else (sk, sk, n))"

definition l_get_event_udp :: "('n, 'i) inet \<Rightarrow> int \<Rightarrow> 'n \<Rightarrow> u8 \<times> 'n" where
  "l_get_event_udp io sk n =
     (if sk = -1 then (0, n)
      else case l_receive_udp io sk 1 n of
        (ret, bytes, n) \<Rightarrow> if ret = 1 then (case bytes of [] \<Rightarrow> 0 | b # _ \<Rightarrow> b, n) else (0, n))"

definition l_post_event_udp :: "('n, 'i) inet \<Rightarrow> int \<Rightarrow> u8 \<Rightarrow> 'n \<Rightarrow> u8 \<times> 'n" where
  "l_post_event_udp io sk event n =
     (if sk = -1 then (0, n)
      else case l_send_udp_broadcast io sk [event] LAUNCH_EVENT_NOTIFICATION_PORT n of (ret, n) \<Rightarrow> (word_of_int ret, n))"

text \<open>The result has no sign: a failed send of -1 gives 255, where one byte sent gives 1.\<close>

lemma failed_post_is_positive:
  assumes "sk \<noteq> -1" "l_send_udp_broadcast io sk [event] LAUNCH_EVENT_NOTIFICATION_PORT n = (-1, n')"
  shows "l_post_event_udp io sk event n = (255, n')"
  using assms by (simp add: l_post_event_udp_def)

subsection \<open>The modem\<close>

datatype lora_signal_bandwidth = BW_125_KHZ | BW_250_KHZ | BW_500_KHZ
datatype lora_datarate = SF_6 | SF_7 | SF_8 | SF_9 | SF_10 | SF_11 | SF_12
datatype lora_coding_rate = CR_4_5 | CR_4_6 | CR_4_7 | CR_4_8

record lora_modem_config =
  frequency :: u32
  bandwidth :: lora_signal_bandwidth
  datarate :: lora_datarate
  preamble_len :: u16
  coding_rate :: lora_coding_rate
  tx_power :: "8 word"
  iq_inverted :: bool
  public_network :: bool
  mode_tx :: bool

definition lora_config_start :: lora_modem_config where
  "lora_config_start = \<lparr>frequency = 915000000, bandwidth = BW_125_KHZ, datarate = SF_12, preamble_len = 8, coding_rate = CR_4_5,
     tx_power = 13, iq_inverted = False, public_network = False, mode_tx = True\<rparr>"

record 'h modem_ops =
  modem_config :: "lora_modem_config \<Rightarrow> 'h \<Rightarrow> int \<times> 'h"
  modem_send :: "u8 list \<Rightarrow> 'h \<Rightarrow> int \<times> 'h"

text \<open>The cached configuration is a static variable; every setting stores a field and sends it all.\<close>

definition configure_modem :: "'h modem_ops \<Rightarrow> lora_modem_config \<Rightarrow> 'h \<Rightarrow> int \<times> lora_modem_config \<times> 'h" where
  "configure_modem m config h = (case modem_config m config h of (ret, h) \<Rightarrow> (ret, config, h))"

definition l_lora_set_tx_rx :: "'h modem_ops \<Rightarrow> bool \<Rightarrow> lora_modem_config \<Rightarrow> 'h \<Rightarrow> int \<times> lora_modem_config \<times> 'h" where
  "l_lora_set_tx_rx m transmit config = configure_modem m (config\<lparr>mode_tx := transmit\<rparr>)"

definition l_lora_set_frequency :: "'h modem_ops \<Rightarrow> u32 \<Rightarrow> lora_modem_config \<Rightarrow> 'h \<Rightarrow> int \<times> lora_modem_config \<times> 'h" where
  "l_lora_set_frequency m v config = configure_modem m (config\<lparr>frequency := v\<rparr>)"

definition l_lora_set_bandwidth :: "'h modem_ops \<Rightarrow> lora_signal_bandwidth \<Rightarrow> lora_modem_config \<Rightarrow> 'h \<Rightarrow> int \<times> lora_modem_config \<times> 'h" where
  "l_lora_set_bandwidth m v config = configure_modem m (config\<lparr>bandwidth := v\<rparr>)"

definition l_lora_set_data_rate :: "'h modem_ops \<Rightarrow> lora_datarate \<Rightarrow> lora_modem_config \<Rightarrow> 'h \<Rightarrow> int \<times> lora_modem_config \<times> 'h" where
  "l_lora_set_data_rate m v config = configure_modem m (config\<lparr>datarate := v\<rparr>)"

text \<open>Despite its name this one sets the coding rate.\<close>

definition l_lora_set_spreading_factor :: "'h modem_ops \<Rightarrow> lora_coding_rate \<Rightarrow> lora_modem_config \<Rightarrow> 'h \<Rightarrow> int \<times> lora_modem_config \<times> 'h" where
  "l_lora_set_spreading_factor m v config = configure_modem m (config\<lparr>coding_rate := v\<rparr>)"

definition l_lora_set_preamble_len :: "'h modem_ops \<Rightarrow> u16 \<Rightarrow> lora_modem_config \<Rightarrow> 'h \<Rightarrow> int \<times> lora_modem_config \<times> 'h" where
  "l_lora_set_preamble_len m v config = configure_modem m (config\<lparr>preamble_len := v\<rparr>)"

definition l_lora_set_tx_power :: "'h modem_ops \<Rightarrow> 8 word \<Rightarrow> lora_modem_config \<Rightarrow> 'h \<Rightarrow> int \<times> lora_modem_config \<times> 'h" where
  "l_lora_set_tx_power m v config = configure_modem m (config\<lparr>tx_power := v\<rparr>)"

definition l_lora_tx :: "'h modem_ops \<Rightarrow> u8 list \<Rightarrow> lora_modem_config \<Rightarrow> 'h \<Rightarrow> int \<times> lora_modem_config \<times> 'h" where
  "l_lora_tx m buff config h =
     (case l_lora_set_tx_rx m True config h of
        (_, config, h) \<Rightarrow> case modem_send m buff h of
          (ret, h) \<Rightarrow> case l_lora_set_tx_rx m False config h of (_, config, h) \<Rightarrow> (ret, config, h))"

text \<open>It logs what was received and clears it.\<close>

definition l_lora_debug_recv_cb :: "u8 list \<Rightarrow> u16 \<Rightarrow> u8 list" where
  "l_lora_debug_recv_cb data sz = (if sz \<noteq> 0 then replicate (unat sz) 0 @ drop (unat sz) data else data)"

text \<open>A failure to switch to sending does not stop the packet from being sent, and the modem always ends receiving.\<close>

lemma l_lora_tx_ends_receiving:
  "l_lora_tx m buff config h = (ret, config', h') \<Longrightarrow> config' = config\<lparr>mode_tx := False\<rparr> \<and>
    (\<exists>h1. (ret, h1) = modem_send m buff (snd (modem_config m (config\<lparr>mode_tx := True\<rparr>) h)) \<and> h' = snd (modem_config m config' h1))"
  by (auto simp: l_lora_tx_def l_lora_set_tx_rx_def configure_modem_def split: prod.splits)

subsection \<open>TFTP client\<close>

definition L_TFTP_PORT :: string where "L_TFTP_PORT = ''69''"

record ('n, 'a) tftp_ops =
  getaddrinfo :: "string \<Rightarrow> string \<Rightarrow> 'n \<Rightarrow> int \<times> 'a \<times> 'n"
  tftp_put :: "'a \<Rightarrow> string \<Rightarrow> string \<Rightarrow> u8 list \<Rightarrow> 'n \<Rightarrow> int \<times> 'n"

text \<open>A client is the address of its server.\<close>

definition l_tftp_init :: "('n, 'a) tftp_ops \<Rightarrow> 'a \<Rightarrow> string \<Rightarrow> 'n \<Rightarrow> int \<times> 'a \<times> 'n" where
  "l_tftp_init t client server_host_name n =
     (case getaddrinfo t server_host_name L_TFTP_PORT n of
        (ret, remote_addr, n) \<Rightarrow> if ret \<noteq> 0 then (- ENOENT, client, n) else (0, remote_addr, n))"

definition l_tftp_put :: "('n, 'a) tftp_ops \<Rightarrow> 'a \<Rightarrow> string \<Rightarrow> u8 list \<Rightarrow> 'n \<Rightarrow> int \<times> 'n" where
  "l_tftp_put t client filename buff n = tftp_put t client filename ''octet'' buff n"

definition l_tftp_init_and_put :: "('n, 'a) tftp_ops \<Rightarrow> 'a \<Rightarrow> string \<Rightarrow> string \<Rightarrow> u8 list \<Rightarrow> 'n \<Rightarrow> int \<times> 'n" where
  "l_tftp_init_and_put t zero ip filename buff n =
     (case l_tftp_init t zero ip n of
        (ret, client, n) \<Rightarrow> if ret \<noteq> 0 then (ret, n) else l_tftp_put t client filename buff n)"

lemma tftp_unresolved:
  assumes "getaddrinfo t ip L_TFTP_PORT n = (ret, a, n')"
  shows "l_tftp_init_and_put t zero ip filename buff n = (if ret \<noteq> 0 then (- ENOENT, n') else tftp_put t a filename ''octet'' buff n')"
  using assms by (simp add: l_tftp_init_and_put_def l_tftp_init_def l_tftp_put_def ENOENT_def)

subsection \<open>Time of day\<close>

record time_state =
  time_of_day_ms :: u32
  uptime_during_init_ms :: u32

definition time_start :: time_state where
  "time_start = \<lparr>time_of_day_ms = 0, uptime_during_init_ms = 0\<rparr>"

text \<open>The parameter has the name of the variable: the assignment is to itself.\<close>

definition l_init_time :: "u32 \<Rightarrow> u32 \<Rightarrow> time_state \<Rightarrow> time_state" where
  "l_init_time parameter uptime ts = ts\<lparr>uptime_during_init_ms := uptime\<rparr>"

definition l_get_time_of_day_ms :: "u32 \<Rightarrow> time_state \<Rightarrow> u32" where
  "l_get_time_of_day_ms current_uptime_ms ts =
     (if uptime_during_init_ms ts = 0 then 0
      else time_of_day_ms ts + (current_uptime_ms - uptime_during_init_ms ts))"

text \<open>\<open>sntp_simple\<close> gives its result, the seconds and their fraction; the product with the fraction has 32 bits.\<close>

record 'n sntp_ops =
  sntp_simple :: "string \<Rightarrow> u64 \<Rightarrow> 'n \<Rightarrow> (int \<times> u64 \<times> u32) \<times> 'n"
  uptime_32 :: "'n \<Rightarrow> u32"

definition sntp_ms :: "u64 \<Rightarrow> u32 \<Rightarrow> u32" where
  "sntp_ms seconds fraction = ucast (seconds * 1000 + ucast (fraction * 1000) div 0x100000000)"

partial_function (option) l_sntp_client_thread ::
  "'n sntp_ops \<Rightarrow> string \<Rightarrow> u64 \<Rightarrow> time_state \<Rightarrow> 'n \<Rightarrow> (time_state \<times> 'n) option" where
  "l_sntp_client_thread ops server_ip timeout_ms ts n =
     (case sntp_simple ops server_ip timeout_ms n of
        ((ret, seconds, fraction), n) \<Rightarrow>
          if ret = 0 then Some (l_init_time (sntp_ms seconds fraction) (uptime_32 ops n) ts, n)
          else l_sntp_client_thread ops server_ip timeout_ms ts n)"

text \<open>The state after \<open>k\<close> questions to the server, and the answer to the next one.\<close>

definition asked :: "'n sntp_ops \<Rightarrow> string \<Rightarrow> u64 \<Rightarrow> nat \<Rightarrow> 'n \<Rightarrow> 'n" where
  "asked ops ip timeout k = ((\<lambda>n. snd (sntp_simple ops ip timeout n)) ^^ k)"

definition answered :: "'n sntp_ops \<Rightarrow> string \<Rightarrow> u64 \<Rightarrow> nat \<Rightarrow> 'n \<Rightarrow> bool" where
  "answered ops ip timeout k n = (fst (fst (sntp_simple ops ip timeout (asked ops ip timeout k n))) = 0)"

lemma asked_Suc: "asked ops ip timeout (Suc k) n = asked ops ip timeout k (snd (sntp_simple ops ip timeout n))"
  by (simp only: asked_def funpow_Suc_right comp_apply)

lemma answered_Suc: "answered ops ip timeout (Suc k) n = answered ops ip timeout k (snd (sntp_simple ops ip timeout n))"
  by (simp only: answered_def asked_Suc)

lemma answered_0: "answered ops ip timeout 0 n = (fst (fst (sntp_simple ops ip timeout n)) = 0)"
  by (simp add: answered_def asked_def)

lemma sntp_returns:
  "answered ops ip timeout k n \<Longrightarrow> \<forall>j < k. \<not> answered ops ip timeout j n \<Longrightarrow>
   l_sntp_client_thread ops ip timeout ts n =
     Some (ts\<lparr>uptime_during_init_ms := uptime_32 ops (asked ops ip timeout (Suc k) n)\<rparr>, asked ops ip timeout (Suc k) n)"
proof (induction k arbitrary: n)
  case 0
  then show ?case by (subst l_sntp_client_thread.simps) (auto simp: answered_0 asked_def l_init_time_def split: prod.splits)
next
  case (Suc k)
  have "\<forall>j < k. \<not> answered ops ip timeout j (snd (sntp_simple ops ip timeout n))"
    using Suc.prems(2) by (metis answered_Suc Suc_less_eq)
  moreover have "fst (fst (sntp_simple ops ip timeout n)) \<noteq> 0" using Suc.prems(2) by (metis answered_0 zero_less_Suc)
  ultimately show ?case using Suc.IH Suc.prems(1)
    by (subst l_sntp_client_thread.simps) (auto simp: answered_Suc asked_Suc split: prod.splits)
qed

lemma sntp_returned:
  assumes "l_sntp_client_thread ops ip timeout ts n = Some y"
  shows "\<exists>k. answered ops ip timeout k n"
proof (rule l_sntp_client_thread.raw_induct [of "\<lambda>ops ip timeout ts n y. \<exists>k. answered ops ip timeout k n", OF _ assms])
  fix thread and ops :: "'a sntp_ops" and ip timeout ts n y
  assume IH: "\<And>ops ip timeout ts n y. thread ops ip timeout ts n = Some y \<Longrightarrow> \<exists>k. answered ops ip timeout k n"
    and body: "(case sntp_simple ops ip timeout n of
        ((ret, seconds, fraction), n) \<Rightarrow>
          if ret = 0 then Some (l_init_time (sntp_ms seconds fraction) (uptime_32 ops n) ts, n)
          else thread ops ip timeout ts n) = Some y"
  show "\<exists>k. answered ops ip timeout k n"
  proof (cases "fst (fst (sntp_simple ops ip timeout n)) = 0")
    case True
    then show ?thesis by (metis answered_0)
  next
    case False
    then have "thread ops ip timeout ts (snd (sntp_simple ops ip timeout n)) = Some y"
      using body by (simp split: prod.splits)
    then show ?thesis using IH answered_Suc by metis
  qed
qed

text \<open>
  The client thread ends if and only if the server answers some request, and what the clock then shows does not
  depend on the server: it is the time since the answer, 0 at the answer. (The time received is lost in
  an assignment of a parameter to itself.)
\<close>

theorem sntp_time_is_uptime:
  "case l_sntp_client_thread ops ip timeout time_start n of
     None \<Rightarrow> \<nexists>k. answered ops ip timeout k n
   | Some (ts, n') \<Rightarrow>
       \<exists>k. answered ops ip timeout k n \<and> n' = asked ops ip timeout (Suc k) n \<and>
         l_get_time_of_day_ms now ts = (if uptime_32 ops n' = 0 then 0 else now - uptime_32 ops n')"
proof (cases "\<exists>k. answered ops ip timeout k n")
  case True
  then obtain k where "answered ops ip timeout k n" "\<forall>j < k. \<not> answered ops ip timeout j n"
    using exists_least_iff [of "\<lambda>k. answered ops ip timeout k n"] by blast
  then show ?thesis using sntp_returns [of ops ip timeout k n time_start]
    by (auto simp: l_get_time_of_day_ms_def time_start_def)
next
  case False
  then have "l_sntp_client_thread ops ip timeout time_start n = None" 
    by (cases "l_sntp_client_thread ops ip timeout time_start n") (auto dest: sntp_returned)
  then show ?thesis using False by simp
qed

subsection \<open>Extension boards\<close>

definition NO_EXTENSION_BOARD :: int where "NO_EXTENSION_BOARD = -1"
definition POTATO_EXTENSION_BOARD_ID :: int where "POTATO_EXTENSION_BOARD_ID = 1"

definition check_extension_board_id :: "u32 \<Rightarrow> int" where
  "check_extension_board_id received_byte =
     (if uint received_byte = POTATO_EXTENSION_BOARD_ID then POTATO_EXTENSION_BOARD_ID else NO_EXTENSION_BOARD)"

text \<open>
  Reading the clock is a call that changes the state. The two searches have the same loop, with
  \<open>hit\<close> for its test; nothing in them ever changes the byte received.
\<close>

partial_function (option) board_loop ::
  "('n \<Rightarrow> u32 \<times> 'n) \<Rightarrow> (u32 \<Rightarrow> bool) \<Rightarrow> u32 \<Rightarrow> u32 \<Rightarrow> u32 \<Rightarrow> u32 \<Rightarrow> 'n \<Rightarrow> (int \<times> 'n) option" where
  "board_loop clock hit timeout_ms start_time received_byte elapsed_time n =
     (if elapsed_time < timeout_ms then
        if hit received_byte then Some (sint received_byte, n)
        else if timeout_ms \<noteq> 0 then
          (case clock n of
             (current_time, n) \<Rightarrow> board_loop clock hit timeout_ms start_time received_byte (current_time - start_time) n)
        else board_loop clock hit timeout_ms start_time received_byte elapsed_time n
      else Some (-1, n))"

definition find_extension_board :: "('n \<Rightarrow> u32 \<times> 'n) \<Rightarrow> u32 \<Rightarrow> 'n \<Rightarrow> (int \<times> 'n) option" where
  "find_extension_board clock timeout_ms n =
     (case clock n of
        (start_time, n) \<Rightarrow> board_loop clock (\<lambda>b. check_extension_board_id b \<noteq> NO_EXTENSION_BOARD) timeout_ms start_time 0 0 n)"

definition initiate_arbitration :: "('n \<Rightarrow> u32 \<times> 'n) \<Rightarrow> u32 \<Rightarrow> 'n \<Rightarrow> (int \<times> 'n) option" where
  "initiate_arbitration clock timeout_ms n =
     (case clock n of (start_time, n) \<Rightarrow> board_loop clock (\<lambda>b. b \<noteq> 0) timeout_ms start_time 0 0 n)"

text \<open>Whatever the clock does, no board is ever found; a timeout of 0, which should mean none, ends the search at once.\<close>

lemma board_loop_finds_nothing:
  assumes "board_loop clock hit timeout_ms start_time b elapsed_time n = Some y" "\<not> hit b"
  shows "fst y = -1"
proof -
  have "\<not> hit b \<longrightarrow> fst y = -1"
  proof (rule board_loop.raw_induct [of "\<lambda>clock hit timeout start b elapsed n y. \<not> hit b \<longrightarrow> fst y = -1", OF _ assms(1)])
    fix loop and clock :: "'a \<Rightarrow> u32 \<times> 'a" and hit timeout_ms start_time b elapsed_time n y
    assume IH: "\<And>clock hit timeout_ms start_time b elapsed_time n y.
        loop clock hit timeout_ms start_time b elapsed_time n = Some y \<Longrightarrow> \<not> hit b \<longrightarrow> fst y = -1"
      and body: "(if elapsed_time < timeout_ms then
        if hit b then Some (sint b, n)
        else if timeout_ms \<noteq> 0 then
          (case clock n of (current_time, n) \<Rightarrow> loop clock hit timeout_ms start_time b (current_time - start_time) n)
        else loop clock hit timeout_ms start_time b elapsed_time n
      else Some (-1, n)) = Some y"
    show "\<not> hit b \<longrightarrow> fst y = -1"
    proof
      assume "\<not> hit b"
      obtain t n1 where c: "clock n = (t, n1)" by fastforce
      have "y = (-1, n) \<or> loop clock hit timeout_ms start_time b (t - start_time) n1 = Some y \<or>
          loop clock hit timeout_ms start_time b elapsed_time n = Some y"
        using body unfolding c prod.case using \<open>\<not> hit b\<close>
        by (cases "elapsed_time < timeout_ms"; cases "timeout_ms \<noteq> 0"; simp only: if_True if_False not_False_eq_True option.inject simp_thms)
      then show "fst y = -1"
      proof (elim disjE)
        assume "y = (-1, n)"
        then show ?thesis by (simp only: fst_conv)
      next
        assume "loop clock hit timeout_ms start_time b (t - start_time) n1 = Some y"
        then show ?thesis using IH \<open>\<not> hit b\<close> by metis
      next
        assume "loop clock hit timeout_ms start_time b elapsed_time n = Some y"
        then show ?thesis using IH \<open>\<not> hit b\<close> by metis
      qed
    qed
  qed
  then show ?thesis using assms(2) by simp
qed

lemma no_board_is_found:
  "find_extension_board clock timeout_ms n = Some (ret, n') \<Longrightarrow> ret = NO_EXTENSION_BOARD"
  "initiate_arbitration clock timeout_ms n = Some (ret', n'') \<Longrightarrow> ret' = -1"
  by (auto simp: find_extension_board_def initiate_arbitration_def check_extension_board_id_def NO_EXTENSION_BOARD_def
      POTATO_EXTENSION_BOARD_ID_def split: prod.splits dest!: board_loop_finds_nothing)

lemma zero_timeout_is_no_search: "find_extension_board clock 0 n = Some (NO_EXTENSION_BOARD, snd (clock n))"
  by (cases "clock n") (simp add: find_extension_board_def board_loop.simps [of clock _ 0] NO_EXTENSION_BOARD_def)

end
