(* ===== verification/Board_Devices.thy ===== *)
theory Board_Devices
  imports Openrocket Module_Tasks Classic_Net
begin

text \<open>
  The smaller devices: pins, the RS-485 transceiver and the IPv4 address of \<open>lib/f_core\<close>, the drivers
  \<open>simshunt\<close> and \<open>examplesensor\<close>, the event log of the OpenRocket replay, and the deployment module.
  The calls of Zephyr are parameters on a state \<open>'h\<close>.
\<close>

subsection \<open>Pins\<close>

record 'h pin_ops =
  pin_configure :: "bool \<Rightarrow> 'h \<Rightarrow> int \<times> 'h"
  pin_get :: "'h \<Rightarrow> int"
  pin_set :: "int \<Rightarrow> 'h \<Rightarrow> int \<times> 'h"
  pin_toggle :: "'h \<Rightarrow> int \<times> 'h"

definition gpio_new :: "'h pin_ops \<Rightarrow> bool \<Rightarrow> 'h \<Rightarrow> 'h" where
  "gpio_new io output h = (if output then snd (pin_configure io True h) else snd (pin_configure io False h))"

definition GetPin :: "'h pin_ops \<Rightarrow> 'h \<Rightarrow> int" where "GetPin io h = pin_get io h"

definition SetPin :: "'h pin_ops \<Rightarrow> int \<Rightarrow> 'h \<Rightarrow> int \<times> 'h" where "SetPin io v h = pin_set io v h"

definition TogglePin :: "'h pin_ops \<Rightarrow> 'h \<Rightarrow> int \<times> 'h" where "TogglePin io h = pin_toggle io h"

subsection \<open>RS-485\<close>

record 'h uart_ops =
  enable_set :: "int \<Rightarrow> 'h \<Rightarrow> int \<times> 'h"
  uart_poll_out :: "u8 \<Rightarrow> 'h \<Rightarrow> 'h"
  uart_poll_in :: "'h \<Rightarrow> int \<times> u8 \<times> 'h"

record rs485 =
  rxTimeoutMillis :: int
  txTimeoutMillis :: int

definition rs485_new :: rs485 where "rs485_new = \<lparr>rxTimeoutMillis = 0, txTimeoutMillis = 0\<rparr>"

definition rs485_setTxRx :: "'h uart_ops \<Rightarrow> bool \<Rightarrow> 'h \<Rightarrow> bool \<times> 'h" where
  "rs485_setTxRx io isTransmit h = (case enable_set io (of_bool isTransmit) h of (ret, h) \<Rightarrow> (ret = 0, h))"

definition rs485_TransmitSynchronous :: "'h uart_ops \<Rightarrow> u8 list \<Rightarrow> 'h \<Rightarrow> int \<times> 'h" where
  "rs485_TransmitSynchronous io data h =
     (case rs485_setTxRx io True h of (ok, h) \<Rightarrow> if \<not> ok then (-1, h) else (0, fold (uart_poll_out io) data h))"

text \<open>The bytes are what is written at the start of the buffer.\<close>

fun poll_bytes :: "'h uart_ops \<Rightarrow> nat \<Rightarrow> 'h \<Rightarrow> int \<times> u8 list \<times> 'h" where
  "poll_bytes io 0 h = (0, [], h)"
| "poll_bytes io (Suc n) h =
     (case uart_poll_in io h of
        (ret, b, h) \<Rightarrow> if ret < 0 then (ret, [], h) else (case poll_bytes io n h of (ret, bs, h) \<Rightarrow> (ret, b # bs, h)))"

definition rs485_ReceiveSynchronous :: "'h uart_ops \<Rightarrow> nat \<Rightarrow> 'h \<Rightarrow> int \<times> u8 list \<times> 'h" where
  "rs485_ReceiveSynchronous io len h =
     (case rs485_setTxRx io False h of (ok, h) \<Rightarrow> if \<not> ok then (-1, [], h) else poll_bytes io len h)"

text \<open>The asynchronous methods call \<open>k_oops\<close>, which ends the thread.\<close>

definition rs485_TransmitAsynchronous :: "u8 list \<Rightarrow> 'h \<Rightarrow> (int \<times> 'h) option" where
  "rs485_TransmitAsynchronous data h = None"

definition rs485_ReceiveAsynchronous :: "nat \<Rightarrow> 'h \<Rightarrow> (int \<times> 'h) option" where
  "rs485_ReceiveAsynchronous len h = None"

definition rs485_SetTxTimeout :: "int \<Rightarrow> rs485 \<Rightarrow> int \<times> rs485" where
  "rs485_SetTxTimeout t r = (0, r\<lparr>txTimeoutMillis := t\<rparr>)"

definition rs485_SetRxTimeout :: "int \<Rightarrow> rs485 \<Rightarrow> int \<times> rs485" where
  "rs485_SetRxTimeout t r = (0, r\<lparr>rxTimeoutMillis := t\<rparr>)"

text \<open>
  Documented behaviour of a UART: \<open>sent\<close> and \<open>waiting\<close> are the bytes on the line out and in. Polling for a byte
  does not wait.
\<close>

definition polled_uart :: "'h uart_ops \<Rightarrow> ('h \<Rightarrow> u8 list) \<Rightarrow> ('h \<Rightarrow> u8 list) \<Rightarrow> bool" where
  "polled_uart io sent waiting \<longleftrightarrow>
     (\<forall>v h. fst (enable_set io v h) = 0 \<and> sent (snd (enable_set io v h)) = sent h \<and> waiting (snd (enable_set io v h)) = waiting h) \<and>
     (\<forall>b h. sent (uart_poll_out io b h) = sent h @ [b] \<and> waiting (uart_poll_out io b h) = waiting h) \<and>
     (\<forall>h. sent (snd (snd (uart_poll_in io h))) = sent h \<and>
       (case waiting h of
          [] \<Rightarrow> fst (uart_poll_in io h) = -1 \<and> waiting (snd (snd (uart_poll_in io h))) = []
        | b # bs \<Rightarrow> fst (uart_poll_in io h) = 0 \<and> fst (snd (uart_poll_in io h)) = b \<and> waiting (snd (snd (uart_poll_in io h))) = bs))"

lemma poll_out_all:
  assumes "polled_uart io sent waiting"
  shows "sent (fold (uart_poll_out io) data h) = sent h @ data \<and> waiting (fold (uart_poll_out io) data h) = waiting h"
proof (induction data arbitrary: h)
  case (Cons b bs)
  then show ?case using assms by (simp add: polled_uart_def)
qed simp

text \<open>A receive takes what is there: it fails and loses the bytes it got if there are fewer than it wants.\<close>

lemma poll_bytes_takes:
  assumes "polled_uart io sent waiting"
  shows "\<exists>h'. poll_bytes io n h = (if n \<le> length (waiting h) then 0 else -1, take n (waiting h), h') \<and> waiting h' = drop n (waiting h)"
proof (induction n arbitrary: h)
  case (Suc n)
  obtain r b h1 where p: "uart_poll_in io h = (r, b, h1)" by (metis prod_cases3)
  have u: "case waiting h of [] \<Rightarrow> fst (uart_poll_in io h) = -1 \<and> waiting (snd (snd (uart_poll_in io h))) = []
        | b # bs \<Rightarrow> fst (uart_poll_in io h) = 0 \<and> fst (snd (uart_poll_in io h)) = b \<and> waiting (snd (snd (uart_poll_in io h))) = bs"
    using assms unfolding polled_uart_def by blast
  show ?case
  proof (cases "waiting h")
    case Nil
    then show ?thesis using u p by simp
  next
    case (Cons c cs)
    then have "r = 0" "b = c" "waiting h1 = cs" using u p by simp_all
    then show ?thesis using Suc.IH [of h1] p Cons by auto
  qed
qed simp

lemma rs485_transfers:
  assumes "polled_uart io sent waiting"
  shows "\<exists>h'. rs485_TransmitSynchronous io data h = (0, h') \<and> sent h' = sent h @ data \<and> waiting h' = waiting h"
    and "\<exists>h'. rs485_ReceiveSynchronous io n h = (if n \<le> length (waiting h) then 0 else -1, take n (waiting h), h') \<and> waiting h' = drop n (waiting h)"
proof -
  have e: "\<exists>h1. rs485_setTxRx io t h = (True, h1) \<and> sent h1 = sent h \<and> waiting h1 = waiting h" for t
    using assms by (auto simp: polled_uart_def rs485_setTxRx_def split: prod.splits) (metis fst_conv snd_conv)+
  show "\<exists>h'. rs485_TransmitSynchronous io data h = (0, h') \<and> sent h' = sent h @ data \<and> waiting h' = waiting h"
    using e [of True] poll_out_all [OF assms, of data] by (auto simp: rs485_TransmitSynchronous_def)
  show "\<exists>h'. rs485_ReceiveSynchronous io n h = (if n \<le> length (waiting h) then 0 else -1, take n (waiting h), h') \<and> waiting h' = drop n (waiting h)"
  proof -
    obtain h1 where "rs485_setTxRx io False h = (True, h1)" "waiting h1 = waiting h" using e by blast
    then show ?thesis using poll_bytes_takes [OF assms, of n h1] by (auto simp: rs485_ReceiveSynchronous_def)
  qed
qed

subsection \<open>IPv4 address\<close>

record ('n, 'i) if_ops =
  z_net_addr_pton :: "string \<Rightarrow> int \<times> u32"
  if_addr_add :: "'i \<Rightarrow> u32 \<Rightarrow> 'n \<Rightarrow> bool \<times> 'n"
  if_set_netmask_by_addr :: "'i \<Rightarrow> u32 \<Rightarrow> u32 \<Rightarrow> 'n \<Rightarrow> bool \<times> 'n"

record ipv4 =
  ip_string :: string
  ip_addr :: u32
  ip_err :: int

text \<open>A failed conversion gives the number it left; the result of \<open>initialize\<close> is dropped by the constructor.\<close>

definition ipv4_initialize :: "('n, 'i) if_ops \<Rightarrow> 'i \<Rightarrow> ipv4 \<times> 'n \<Rightarrow> int \<times> ipv4 \<times> 'n" where
  "ipv4_initialize io netIface x =
     (case x of (c, n) \<Rightarrow>
      let (err, addr) = z_net_addr_pton io (ip_string c);
          c = c\<lparr>ip_err := err, ip_addr := addr\<rparr>
      in if err < 0 then (err, c, n)
         else case if_addr_add io netIface addr n of
           (ifaddr, n) \<Rightarrow>
             if \<not> ifaddr then (- ENODEV, c, n)
             else
               let (err, subnet) = z_net_addr_pton io CLASS_A_NETMASK;
                   c = c\<lparr>ip_err := err\<rparr>
               in if err < 0 then (err, c, n)
                  else (0, c, snd (if_set_netmask_by_addr io netIface addr subnet n)))"

definition ipv4_new :: "('n, 'i) if_ops \<Rightarrow> string \<Rightarrow> 'i \<Rightarrow> 'n \<Rightarrow> ipv4 \<times> 'n" where
  "ipv4_new io ip net_iface n = snd (ipv4_initialize io net_iface (\<lparr>ip_string = ip, ip_addr = 0, ip_err = 0\<rparr>, n))"

definition GetIp :: "ipv4 \<Rightarrow> string" where "GetIp c = ip_string c"
definition GetAddr :: "ipv4 \<Rightarrow> u32" where "GetAddr c = ip_addr c"
definition GetErr :: "ipv4 \<Rightarrow> int" where "GetErr c = ip_err c"
definition IsInitialized :: "ipv4 \<Rightarrow> bool" where "IsInitialized c \<longleftrightarrow> ip_err c = 0"

text \<open>An interface that takes no more addresses goes unnoticed: the object is initialised, the interface has no such address.\<close>

lemma ipv4_without_address:
  assumes "z_net_addr_pton io ip = (0, a)" "if_addr_add io i a n = (False, n')"
  shows "IsInitialized (fst (ipv4_new io ip i n))" "fst (ipv4_initialize io i (\<lparr>ip_string = ip, ip_addr = 0, ip_err = 0\<rparr>, n)) = - ENODEV"
  using assms by (simp_all add: ipv4_new_def ipv4_initialize_def IsInitialized_def Let_def)

subsection \<open>Simulated shunt, example sensor\<close>

record 'a simshunt_config =
  simulated_voltage :: 'a
  simulated_current :: 'a

text \<open>The properties of the device tree are in thousandths.\<close>

definition simshunt_configure :: "int \<Rightarrow> int \<Rightarrow> 'a::field_char_0 simshunt_config" where
  "simshunt_configure mv ma = \<lparr>simulated_voltage = of_int mv / 1000, simulated_current = of_int ma / 1000\<rparr>"

definition simshunt_sample_fetch :: "sensor_channel \<Rightarrow> int" where
  "simshunt_sample_fetch chan =
     (if chan \<noteq> SENSOR_CHAN_ALL \<and> chan \<noteq> SENSOR_CHAN_VOLTAGE \<and> chan \<noteq> SENSOR_CHAN_POWER \<and> chan \<noteq> SENSOR_CHAN_CURRENT then - ENOTSUP
      else 0)"

definition simshunt_channel_get :: "('a \<Rightarrow> int \<times> sensor_value) \<Rightarrow> 'a::field simshunt_config \<Rightarrow> sensor_channel \<Rightarrow> int \<times> sensor_value option" where
  "simshunt_channel_get sensor_value_from_float config chan =
     (let put = (\<lambda>x. case sensor_value_from_float x of (ret, v) \<Rightarrow> (ret, Some v)) in
      if chan = SENSOR_CHAN_VOLTAGE then put (simulated_voltage config)
      else if chan = SENSOR_CHAN_CURRENT then put (simulated_current config)
      else if chan = SENSOR_CHAN_POWER then put (simulated_voltage config * simulated_current config)
      else (- ENOTSUP, None))"

definition simshunt_init :: int where "simshunt_init = 0"

text \<open>Every channel that can be fetched by name can be read, and no other.\<close>

lemma simshunt_channels:
  assumes "\<And>x. fst (f x) = 0" "chan \<noteq> SENSOR_CHAN_ALL"
  shows "fst (simshunt_channel_get f config chan) = simshunt_sample_fetch chan"
  using assms by (auto simp: simshunt_channel_get_def simshunt_sample_fetch_def Let_def split: prod.splits) (metis fst_conv)+

definition examplesensor_sample_fetch :: "'h pin_ops \<Rightarrow> 'h \<Rightarrow> int \<times> int" where
  "examplesensor_sample_fetch io h = (0, pin_get io h)"

text \<open>The proximity channel is told apart from the others; only \<open>val1\<close> is written.\<close>

definition examplesensor_channel_get :: "int \<Rightarrow> bool \<Rightarrow> sensor_value \<Rightarrow> int \<times> sensor_value" where
  "examplesensor_channel_get level is_prox v = (if \<not> is_prox then (- ENOTSUP, v) else (0, v\<lparr>val1 := level\<rparr>))"

definition examplesensor_init :: "'h pin_ops \<Rightarrow> bool \<Rightarrow> 'h \<Rightarrow> int \<times> 'h" where
  "examplesensor_init io port_ready h =
     (if \<not> port_ready then (- ENODEV, h)
      else case pin_configure io False h of (ret, h) \<Rightarrow> if ret < 0 then (ret, h) else (0, h))"

subsection \<open>Events of a replayed flight\<close>

text \<open>An event is the number of the enumeration.\<close>

definition event_names :: "string list" where
  "event_names = [''IGNITION'', ''LAUNCH'', ''LIFTOFF'', ''LAUNCHROD'', ''BURNOUT'', ''EJECTION_CHARGE'', ''APOGEE'',
     ''RECOVERY_DEVICE_DEPLOYMENT'', ''GROUND_HIT'', ''SIMULATION_END'']"

definition event_to_str :: "int \<Rightarrow> string" where
  "event_to_str e = (if e < 0 \<or> e > 9 then ''INVALID EVENT'' else event_names ! nat e)"

text \<open>A conversion of a floating point number to \<open>int\<close> drops the fraction.\<close>

definition c_truncate :: "rat \<Rightarrow> int" where
  "c_truncate x = (if 0 \<le> x then \<lfloor>x\<rfloor> else \<lceil>x\<rceil>)"

text \<open>What the thread does for its events: the sleep before each, and the line of the log.\<close>

fun event_loop :: "rat \<Rightarrow> (rat \<times> int) list \<Rightarrow> (int \<times> string \<times> rat) list" where
  "event_loop time [] = []"
| "event_loop time ((t, e) # es) = (c_truncate ((t - time) * 1000), event_to_str e, t) # event_loop t es"

text \<open>The number of events less one is unsigned: without events the loop runs off the table.\<close>

definition or_event_thread_handler :: "(rat \<times> int) list \<Rightarrow> (int \<times> string \<times> rat) list option" where
  "or_event_thread_handler or_events =
     (if or_events = [] then None else Some (event_loop 0 (take (length or_events - 1) or_events)))"

lemma event_loop_names: "map (\<lambda>(_, name, t). (name, t)) (event_loop time es) = map (\<lambda>(t, e). (event_to_str e, t)) es"
  by (induction time es rule: event_loop.induct) auto

lemma event_loop_times:
  "sorted_wrt (\<le>) (time # map fst es) \<Longrightarrow> \<forall>t \<in> set (time # map fst es). t * 1000 \<in> \<int> \<Longrightarrow> k < length es \<Longrightarrow>
   of_int (sum_list (map fst (take (Suc k) (event_loop time es)))) = (fst (es ! k) - time) * 1000"
proof (induction time es arbitrary: k rule: event_loop.induct)
  case (2 time t e es)
  have "(t - time) * 1000 \<in> \<int>" using "2.prems"(2) by (simp add: left_diff_distrib)
  then obtain z where z: "(t - time) * 1000 = of_int z" by (elim Ints_cases)
  then have "c_truncate ((t - time) * 1000) = z" by (simp add: c_truncate_def)
  then have w: "of_int (c_truncate ((t - time) * 1000)) = (t - time) * 1000" using z by simp
  show ?case
  proof (cases k)
    case 0
    then show ?thesis using w by simp
  next
    case (Suc j)
    then have "of_int (sum_list (map fst (take (Suc j) (event_loop t es)))) = (fst (es ! j) - t) * 1000"
      using "2.IH" [of j] "2.prems" by simp
    then show ?thesis using w Suc by (simp add: algebra_simps)
  qed
qed simp

text \<open>
  With times in whole milliseconds each event is logged at its time after the launch, and all are, but for the last, the
  end of the simulation.
\<close>

lemma events_logged_on_time:
  assumes "or_events \<noteq> []" "sorted_wrt (\<le>) (0 # map fst or_events)" "\<forall>t \<in> set (map fst or_events). t * 1000 \<in> \<int>"
  shows "\<exists>steps. or_event_thread_handler or_events = Some steps \<and>
    map (\<lambda>(_, name, t). (name, t)) steps = map (\<lambda>(t, e). (event_to_str e, t)) (butlast or_events) \<and>
    (\<forall>k < length or_events - 1. of_int (sum_list (map fst (take (Suc k) steps))) = fst (or_events ! k) * 1000)"
proof -
  let ?es = "butlast or_events"
  have "?es = take (length or_events - 1) or_events" by (simp add: butlast_conv_take)
  moreover have sub: "set ?es \<subseteq> set or_events" by (auto dest: in_set_butlastD)
  have "sorted_wrt (\<le>) (map fst ?es)" using assms(2) unfolding butlast_conv_take take_map [symmetric]
    by (intro sorted_wrt_take) simp
  then have "sorted_wrt (\<le>) (0 # map fst ?es)" "\<forall>t \<in> set (0 # map fst ?es). t * 1000 \<in> \<int>"
    using assms(2,3) sub by auto
  note times = event_loop_times [OF this]
  ultimately show ?thesis using assms(1) event_loop_names [of 0 ?es] times
    by (auto simp: or_event_thread_handler_def nth_butlast)
qed

subsection \<open>The deployment module\<close>

text \<open>The path of its log is found as in the sensor module; its one task has no tenants.\<close>

definition deployment_log_path :: "(char, 'f) fs_ops \<Rightarrow> 'f \<Rightarrow> string" where
  "deployment_log_path fs f = generateFlightLogPath fs f"

definition deployment_network_task :: "'s task" where
  "deployment_network_task = task_new ''Networking Task'' 15 1024 0"

definition deployment_tasks :: "'s task list" where
  "deployment_tasks = AddTask deployment_network_task []"

definition deployment_main :: "'s kernel_ops \<Rightarrow> 's \<Rightarrow> ('s task list \<times> 's) option" where
  "deployment_main k s = StartRtos k deployment_tasks s"

end
