(* ===== verification/Classic_Devices.thy ===== *)
theory Classic_Devices
  imports Sensing
begin

text \<open>
  Device helpers of the older core library (\<open>lib/launch_core_classic/dev\<close>, \<open>conversions.c\<close>): reading
  sensors as floats with an error mask, analogue channels, UART set-up. The calls of Zephyr are
  parameters; a float is an element of \<open>'a\<close>, \<open>err\<close> is the value that marks an error.
\<close>

subsection \<open>Sensors\<close>

text \<open>A channel into a local variable that holds \<open>v\<close>.\<close>

definition get_into :: "'h sensor_api \<Rightarrow> nat \<Rightarrow> sensor_channel \<Rightarrow> sensor_value \<Rightarrow> 'h \<Rightarrow> int \<times> sensor_value \<times> 'h" where
  "get_into api d chan v h =
     (case sensor_channel_get api d chan h of (r, vs, h) \<Rightarrow> (r, case vs of [] \<Rightarrow> v | v' # _ \<Rightarrow> v', h))"

fun l_update_sensors :: "'h sensor_api \<Rightarrow> nat list \<Rightarrow> 'h \<Rightarrow> int \<times> 'h" where
  "l_update_sensors api [] h = (0, h)"
| "l_update_sensors api (d # ds) h = l_update_sensors api ds (snd (sensor_sample_fetch api d h))"

fun l_update_sensors_safe :: "'h sensor_api \<Rightarrow> (nat \<times> bool) list \<Rightarrow> 'h \<Rightarrow> int \<times> 'h" where
  "l_update_sensors_safe api [] h = (0, h)"
| "l_update_sensors_safe api ((d, ready) # ds) h =
     l_update_sensors_safe api ds (if \<not> ready then h else snd (sensor_sample_fetch api d h))"

text \<open>The values are the caller's variables, in the order of the channels.\<close>

fun l_get_sensor_data :: "'h sensor_api \<Rightarrow> nat \<Rightarrow> (sensor_channel \<times> sensor_value) list \<Rightarrow> 'h \<Rightarrow> int \<times> sensor_value list \<times> 'h" where
  "l_get_sensor_data api d [] h = (0, [], h)"
| "l_get_sensor_data api d ((chan, v) # cs) h =
     (case get_into api d chan v h of
        (_, v, h) \<Rightarrow> case l_get_sensor_data api d cs h of (r, vs, h) \<Rightarrow> (r, v # vs, h))"

definition l_update_get_sensor_data :: "'h sensor_api \<Rightarrow> nat \<Rightarrow> (sensor_channel \<times> sensor_value) list \<Rightarrow> 'h \<Rightarrow> int \<times> sensor_value list \<times> 'h" where
  "l_update_get_sensor_data api d args h =
     (case l_get_sensor_data api d args (snd (l_update_sensors api [d] h)) of (_, vs, h) \<Rightarrow> (0, vs, h))"

text \<open>Three channels into three fields; bit \<open>i\<close> of the negated result marks a failure of channel \<open>i\<close>.\<close>

definition l_get_three ::
  "'h sensor_api \<Rightarrow> (sensor_value \<Rightarrow> 'a) \<Rightarrow> 'a \<Rightarrow> nat \<Rightarrow> sensor_channel \<times> sensor_channel \<times> sensor_channel \<Rightarrow> 'h \<Rightarrow>
     int \<times> ('a \<times> 'a \<times> 'a) \<times> 'h" where
  "l_get_three api to_float err d chans h =
     (case chans of (cx, cy, cz) \<Rightarrow>
      let (rx, x, h) = get_into api d cx zero_value h;
          (ry, y, h) = get_into api d cy zero_value h;
          (rz, z, h) = get_into api d cz zero_value h;
          ret = (if rx = 0 then 0 else 1) OR (if ry = 0 then 0 else 2) OR (if rz = 0 then 0 else 4)
      in (- ret, (if rx = 0 then to_float x else err, if ry = 0 then to_float y else err, if rz = 0 then to_float z else err), h))"

definition l_get_accelerometer_data_float :: "'h sensor_api \<Rightarrow> (sensor_value \<Rightarrow> 'a) \<Rightarrow> 'a \<Rightarrow> nat \<Rightarrow> 'h \<Rightarrow> int \<times> ('a \<times> 'a \<times> 'a) \<times> 'h" where
  "l_get_accelerometer_data_float api to_float err d = l_get_three api to_float err d accel_chans"

definition l_get_magnetometer_data_float :: "'h sensor_api \<Rightarrow> (sensor_value \<Rightarrow> 'a) \<Rightarrow> 'a \<Rightarrow> nat \<Rightarrow> 'h \<Rightarrow> int \<times> ('a \<times> 'a \<times> 'a) \<times> 'h" where
  "l_get_magnetometer_data_float api to_float err d = l_get_three api to_float err d magn_chans"

definition l_get_gyroscope_data_float :: "'h sensor_api \<Rightarrow> (sensor_value \<Rightarrow> 'a) \<Rightarrow> 'a \<Rightarrow> nat \<Rightarrow> 'h \<Rightarrow> int \<times> ('a \<times> 'a \<times> 'a) \<times> 'h" where
  "l_get_gyroscope_data_float api to_float err d = l_get_three api to_float err d gyro_chans"

definition l_get_shunt_data_float :: "'h sensor_api \<Rightarrow> (sensor_value \<Rightarrow> 'a) \<Rightarrow> 'a \<Rightarrow> nat \<Rightarrow> 'h \<Rightarrow> int \<times> ('a \<times> 'a \<times> 'a) \<times> 'h" where
  "l_get_shunt_data_float api to_float err d =
     l_get_three api to_float err d (SENSOR_CHAN_CURRENT, SENSOR_CHAN_VOLTAGE, SENSOR_CHAN_POWER)"

text \<open>
  The fields are pressure and temperature. One variable serves both channels, and a failure of the
  second marks the pressure and leaves the temperature as it was.
\<close>

definition l_get_barometer_data_float ::
  "'h sensor_api \<Rightarrow> (sensor_value \<Rightarrow> 'a) \<Rightarrow> 'a \<Rightarrow> nat \<Rightarrow> 'a \<times> 'a \<Rightarrow> 'h \<Rightarrow> int \<times> ('a \<times> 'a) \<times> 'h" where
  "l_get_barometer_data_float api to_float err d pt h =
     (case pt of (p, t) \<Rightarrow>
      let (rp, v, h) = get_into api d SENSOR_CHAN_PRESS zero_value h;
          p = (if rp = 0 then to_float v else err);
          (rt, v, h) = get_into api d SENSOR_CHAN_AMBIENT_TEMP v h;
          (p, t) = (if rt = 0 then (p, to_float v) else (err, t));
          ret = (if rp = 0 then 0 else 1) OR (if rt = 0 then 0 else 2)
      in (- ret, (p, t), h))"

definition l_get_temp_sensor_data_float :: "'h sensor_api \<Rightarrow> (sensor_value \<Rightarrow> 'a) \<Rightarrow> 'a \<Rightarrow> nat \<Rightarrow> 'h \<Rightarrow> int \<times> 'a \<times> 'h" where
  "l_get_temp_sensor_data_float api to_float err d h =
     (case get_into api d SENSOR_CHAN_AMBIENT_TEMP zero_value h of
        (r, v, h) \<Rightarrow> (if r = 0 then 0 else -1, if r = 0 then to_float v else err, h))"

text \<open>The mask tells exactly which channels failed.\<close>

lemma l_get_three_mask:
  assumes "l_get_three api to_float err d (cx, cy, cz) h = (ret, v, h')"
  shows "\<exists>rx x h1 ry y h2 rz z. get_into api d cx zero_value h = (rx, x, h1) \<and> get_into api d cy zero_value h1 = (ry, y, h2) \<and>
    get_into api d cz zero_value h2 = (rz, z, h') \<and>
    (bit (- ret) 0 \<longleftrightarrow> rx \<noteq> 0) \<and> (bit (- ret) 1 \<longleftrightarrow> ry \<noteq> 0) \<and> (bit (- ret) 2 \<longleftrightarrow> rz \<noteq> 0) \<and>
    v = (if rx \<noteq> 0 then err else to_float x, if ry \<noteq> 0 then err else to_float y, if rz \<noteq> 0 then err else to_float z) \<and>
    (ret = 0 \<longleftrightarrow> rx = 0 \<and> ry = 0 \<and> rz = 0)"
proof -
  obtain rx x h1 where 1: "get_into api d cx zero_value h = (rx, x, h1)" by (metis prod_cases3)
  obtain ry y h2 where 2: "get_into api d cy zero_value h1 = (ry, y, h2)" by (metis prod_cases3)
  obtain rz z h3 where 3: "get_into api d cz zero_value h2 = (rz, z, h3)" by (metis prod_cases3)
  have "bit (4 :: int) 2" "\<not> bit (4 :: int) 0" "\<not> bit (4 :: int) 1" "bit (2 :: int) 1" "\<not> bit (2 :: int) 0" "\<not> bit (2 :: int) 2"
    "bit (1 :: int) 0" "\<not> bit (1 :: int) 1" "\<not> bit (1 :: int) 2" by (simp_all add: bit_iff_odd)
  then show ?thesis using assms 1 2 3 by (auto simp: l_get_three_def Let_def bit_or_iff)
qed

lemma barometer_temperature_failure:
  assumes "get_into api d SENSOR_CHAN_PRESS zero_value h = (0, v, h1)" "get_into api d SENSOR_CHAN_AMBIENT_TEMP v h1 = (r, w, h2)" "r \<noteq> 0"
  shows "l_get_barometer_data_float api to_float err d (p, t) h = (-2, (err, t), h2)"
  using assms by (simp add: l_get_barometer_data_float_def)

subsection \<open>Analogue channels, UART, devices\<close>

record 'h adc_api =
  adc_is_ready_dt :: "'h \<Rightarrow> bool"
  adc_channel_setup_dt :: "nat \<Rightarrow> 'h \<Rightarrow> int \<times> 'h"
  adc_sequence_init_dt :: "nat \<Rightarrow> 'h \<Rightarrow> int \<times> 'h"
  adc_read_dt :: "nat \<Rightarrow> 'h \<Rightarrow> int \<times> u32 \<times> 'h"
  adc_raw_to_millivolts_dt :: "nat \<Rightarrow> int \<Rightarrow> int \<times> int"

text \<open>\<open>adc_is_ready_dt\<close> is a truth value: as a number it is never negative.\<close>

definition l_init_adc_channel :: "'h adc_api \<Rightarrow> nat \<Rightarrow> 'h \<Rightarrow> int \<times> 'h" where
  "l_init_adc_channel api chan h =
     (let ret = (if adc_is_ready_dt api h then 1 else 0) :: int in
      if ret \<ge> 0 then
        (case adc_channel_setup_dt api chan h of
           (ret, h) \<Rightarrow> if ret < 0 then (ret, h) else adc_sequence_init_dt api chan h)
      else (ret, h))"

definition l_init_adc_channels :: "'h adc_api \<Rightarrow> nat list \<Rightarrow> 'h \<Rightarrow> int \<times> 'h" where
  "l_init_adc_channels api chans h = (0, fold (\<lambda>c h. snd (l_init_adc_channel api c h)) chans h)"

text \<open>\<open>val\<close> is \<open>None\<close> where the caller's variable is left alone.\<close>

definition l_read_adc_mv :: "'h adc_api \<Rightarrow> bool \<Rightarrow> nat \<Rightarrow> 'h \<Rightarrow> int \<times> int option \<times> 'h" where
  "l_read_adc_mv api differential chan h =
     (case adc_read_dt api chan h of
        (ret, buffer, h) \<Rightarrow>
          if ret = 0 then
            let raw = (if differential then sint (ucast buffer :: u16) else sint buffer);
                (ret, val_mv) = adc_raw_to_millivolts_dt api chan raw
            in (ret, Some val_mv, h)
          else (ret, None, h))"

definition l_async_read_adc_mv :: "int" where
  "l_async_read_adc_mv = -1"

definition l_check_device :: "'h sensor_api \<Rightarrow> nat \<Rightarrow> int" where
  "l_check_device api d = (if \<not> device_is_ready api d then - ENODEV else 0)"

text \<open>\<open>uart_config_get\<close> gives a configuration, of which the flow control is set.\<close>

definition l_uart_init_rs485 :: "('h \<Rightarrow> int \<times> 'c) \<Rightarrow> ('c \<Rightarrow> 'c) \<Rightarrow> ('c \<Rightarrow> 'h \<Rightarrow> int \<times> 'h) \<Rightarrow> 'h \<Rightarrow> int \<times> 'h" where
  "l_uart_init_rs485 uart_config_get set_rs485 uart_configure h =
     (case uart_config_get h of (ret, config) \<Rightarrow> if ret < 0 then (ret, h) else uart_configure (set_rs485 config) h)"

text \<open>The altitude of a pressure and a temperature, over a field with \<open>log\<close> and \<open>pow\<close>.\<close>

definition l_altitude_conversion :: "('a \<Rightarrow> 'a) \<Rightarrow> ('a \<Rightarrow> 'a \<Rightarrow> 'a) \<Rightarrow> 'a::field \<Rightarrow> 'a \<Rightarrow> 'a" where
  "l_altitude_conversion logf pow pressure_kpa temperature_c =
     (let R = 831447 / 100000; g = 980665 / 100000; M = 289644 / 10000000; L = 65 / 10000; T0 = 28815 / 100; P0 = 101325;
          temp = temperature_c + 27315 / 100; press = pressure_kpa * 1000
      in R * T0 / (g * M) * logf (P0 / press * pow ((temp + L * (1 / 2)) / T0) (- g * M / (R * L))))"

text \<open>A channel that is not ready is set up all the same.\<close>

lemma l_init_adc_channel_never_checks:
  "l_init_adc_channel api chan h =
     (case adc_channel_setup_dt api chan h of (ret, h) \<Rightarrow> if ret < 0 then (ret, h) else adc_sequence_init_dt api chan h)"
  by (simp add: l_init_adc_channel_def)

end
