(* ===== verification/Grim_Boost.thy ===== *)
theory Grim_Boost
  imports Flight_Utils Classic_Devices
begin

text \<open>
  Boost detection and buzzer of the Grim Reefer payload
  (\<open>app/payload/.retired/app_grim_reefer/src\<close>, \<open>boost_detect.c\<close> and \<open>buzzer.c\<close>), as it is configured in
  \<open>config.h\<close>. The threads of the file are turns, taken when their timer expires; the kernel
  and the sensors are parameters on a state \<open>'h\<close>. A floating point number is an element of an ordered
  field, and the result of every operation is rounded: the roundings to \<open>float\<close> and \<open>double\<close> are parameters of
  which nothing is assumed.
\<close>

subsection \<open>Buzzer\<close>

datatype buzzer_cond =
  buzzer_cond_noflash | buzzer_cond_landed | buzzer_cond_launched | buzzer_cond_low_battery | buzzer_cond_missing_sensors | buzzer_cond_ok

fun cond_code :: "buzzer_cond \<Rightarrow> nat" where
  "cond_code buzzer_cond_noflash = 0"
| "cond_code buzzer_cond_landed = 1"
| "cond_code buzzer_cond_launched = 2"
| "cond_code buzzer_cond_low_battery = 3"
| "cond_code buzzer_cond_missing_sensors = 4"
| "cond_code buzzer_cond_ok = 5"

text \<open>Conditions compare as the numbers of the enumeration.\<close>

instantiation buzzer_cond :: linorder
begin

definition less_eq_buzzer_cond :: "buzzer_cond \<Rightarrow> buzzer_cond \<Rightarrow> bool" where
  "less_eq_buzzer_cond a b \<longleftrightarrow> cond_code a \<le> cond_code b"

definition less_buzzer_cond :: "buzzer_cond \<Rightarrow> buzzer_cond \<Rightarrow> bool" where
  "less_buzzer_cond a b \<longleftrightarrow> cond_code a < cond_code b"

instance
proof
  fix a b :: buzzer_cond
  show "a \<le> b \<Longrightarrow> b \<le> a \<Longrightarrow> a = b" by (cases a; cases b) (simp_all add: less_eq_buzzer_cond_def)
qed (auto simp: less_eq_buzzer_cond_def less_buzzer_cond_def)

end

definition BEEPCODE_LENGTH :: nat where "BEEPCODE_LENGTH = 16"
definition SILENCE_LENGTH :: nat where "SILENCE_LENGTH = 16"

fun beepcodes :: "buzzer_cond \<Rightarrow> u16" where
  "beepcodes buzzer_cond_noflash = 0b1010101010101010"
| "beepcodes buzzer_cond_landed = 0b1100110011001100"
| "beepcodes buzzer_cond_launched = 0b1110001110001110"
| "beepcodes buzzer_cond_low_battery = 0b1111000011110000"
| "beepcodes buzzer_cond_missing_sensors = 0b1111111100000000"
| "beepcodes buzzer_cond_ok = 0b1000000000000000"

record buzzer_state =
  bz_frame :: nat
  bz_cond :: buzzer_cond
  bz_code :: u16

definition buzzer_start :: buzzer_state where
  "buzzer_start = \<lparr>bz_frame = 0, bz_cond = buzzer_cond_ok, bz_code = beepcodes buzzer_cond_ok\<rparr>"

text \<open>A turn of the endless loop: \<open>incoming\<close> is what the queue gave; the result is the level of the pin.\<close>

definition buzzer_turn :: "buzzer_cond option \<Rightarrow> buzzer_state \<Rightarrow> int \<times> buzzer_state" where
  "buzzer_turn incoming b =
     (let b = (case incoming of
            None \<Rightarrow> b
          | Some c \<Rightarrow> if c < bz_cond b then \<lparr>bz_frame = 0, bz_cond = c, bz_code = beepcodes c\<rparr> else b);
          level = (if bz_frame b < BEEPCODE_LENGTH then uint (drop_bit (bz_frame b) (bz_code b) AND 1) else 0);
          frame = bz_frame b + 1;
          frame = (if frame = BEEPCODE_LENGTH + SILENCE_LENGTH then 0 else frame)
      in (level, b\<lparr>bz_frame := frame\<rparr>))"

fun buzzer_entry_point :: "buzzer_cond option list \<Rightarrow> buzzer_state \<Rightarrow> int list \<times> buzzer_state" where
  "buzzer_entry_point [] b = ([], b)"
| "buzzer_entry_point (m # ms) b =
     (case buzzer_turn m b of (l, b) \<Rightarrow> case buzzer_entry_point ms b of (ls, b) \<Rightarrow> (l # ls, b))"

text \<open>What should be heard: the most urgent condition so far, its code from the turn it came on, then silence.\<close>

definition urgent :: "buzzer_cond option list \<Rightarrow> buzzer_cond" where
  "urgent ms = foldl (\<lambda>c m. case m of None \<Rightarrow> c | Some c' \<Rightarrow> min c c') buzzer_cond_ok ms"

definition beep :: "buzzer_cond \<Rightarrow> nat \<Rightarrow> int" where
  "beep c k = (if k mod 32 < 16 \<and> bit (beepcodes c) (k mod 32) then 1 else 0)"

lemma urgent_snoc: "urgent (ms @ [m]) = (case m of None \<Rightarrow> urgent ms | Some c \<Rightarrow> min (urgent ms) c)"
  by (cases m) (simp_all add: urgent_def)

lemma buzzer_snoc:
  "buzzer_entry_point (ms @ [m]) b =
     (case buzzer_entry_point ms b of (ls, b) \<Rightarrow> case buzzer_turn m b of (l, b) \<Rightarrow> (ls @ [l], b))"
  by (induction ms arbitrary: b) (simp_all split: prod.splits)

text \<open>\<open>since ms\<close> is the number of turns before the last one that had the condition it has.\<close>

definition since :: "buzzer_cond option list \<Rightarrow> nat" where
  "since ms = length (takeWhile (\<lambda>i. urgent (take i ms) = urgent ms) (rev [1..<length ms]))"

lemma since_snoc:
  "since (ms @ [m]) = (if ms \<noteq> [] \<and> urgent (ms @ [m]) = urgent ms then Suc (since ms) else 0)"
proof (cases "ms \<noteq> [] \<and> urgent (ms @ [m]) = urgent ms")
  case True
  have "takeWhile (\<lambda>i. urgent (take i (ms @ [m])) = urgent ms) (rev [1..<length ms]) =
        takeWhile (\<lambda>i. urgent (take i ms) = urgent ms) (rev [1..<length ms])"
    by (rule takeWhile_cong) auto
  moreover have "[1..<length (ms @ [m])] = [1..<length ms] @ [length ms]" using True by (cases ms) simp_all
  ultimately show ?thesis using True by (simp add: since_def)
next
  case False
  then show ?thesis by (cases ms) (auto simp: since_def)
qed

lemma buzzer_level: "uint (drop_bit k (w :: u16) AND 1) = (if bit w k then 1 else 0)"
proof -
  have "drop_bit k w AND 1 = of_bool (bit w k)"
    by (rule bit_word_eqI) (auto simp: bit_simps bit_1_iff)
  then show ?thesis by simp
qed

text \<open>A condition \<open>c\<close> at frame \<open>k mod 32\<close> of its code plays it and goes on to the next frame.\<close>

lemma buzzer_frame:
  "(let level = (if k mod 32 < BEEPCODE_LENGTH then uint (drop_bit (k mod 32) (beepcodes c) AND 1) else 0);
        frame = k mod 32 + 1
    in (level, if frame = BEEPCODE_LENGTH + SILENCE_LENGTH then 0 else frame)) = (beep c k, Suc k mod 32)"
  by (simp add: Let_def beep_def BEEPCODE_LENGTH_def SILENCE_LENGTH_def buzzer_level mod_Suc)

lemma buzzer_turn_at:
  assumes "(case m of None \<Rightarrow> b | Some c \<Rightarrow> if c < bz_cond b then \<lparr>bz_frame = 0, bz_cond = c, bz_code = beepcodes c\<rparr> else b) =
    \<lparr>bz_frame = k mod 32, bz_cond = c, bz_code = beepcodes c\<rparr>"
  shows "buzzer_turn m b = (beep c k, \<lparr>bz_frame = Suc k mod 32, bz_cond = c, bz_code = beepcodes c\<rparr>)"
  unfolding buzzer_turn_def assms using buzzer_frame [of k c] by (auto simp: Let_def split: if_splits)

text \<open>
  The buzzer always plays the most urgent condition it was told so far: at every turn the level of the pin
  is the next bit of its 16 bit code, lowest first, counted from the turn at which the condition came on, followed by 16 turns
  of silence, over and over.
\<close>

theorem buzzer_plays_code:
  "case buzzer_entry_point ms buzzer_start of (ls, b) \<Rightarrow>
     ls = map (\<lambda>t. beep (urgent (take (Suc t) ms)) (since (take (Suc t) ms))) [0..<length ms] \<and>
     b = \<lparr>bz_frame = (if ms = [] then 0 else Suc (since ms) mod 32), bz_cond = urgent ms, bz_code = beepcodes (urgent ms)\<rparr>"
proof (induction ms rule: rev_induct)
  case Nil
  then show ?case by (simp add: buzzer_start_def urgent_def)
next
  case (snoc m ms)
  let ?c = "urgent (ms @ [m])" and ?k = "since (ms @ [m])"
  have c: "?c \<noteq> urgent ms \<Longrightarrow> m = Some ?c \<and> ?c < urgent ms" "m = Some c \<Longrightarrow> ?c = urgent ms \<Longrightarrow> \<not> c < urgent ms" for c
    by (auto simp: urgent_snoc min_def not_le split: option.splits if_splits)
  obtain ls b where b: "buzzer_entry_point ms buzzer_start = (ls, b)" by fastforce
  then have "b = \<lparr>bz_frame = (if ms = [] then 0 else Suc (since ms) mod 32), bz_cond = urgent ms, bz_code = beepcodes (urgent ms)\<rparr>"
    using snoc.IH by simp
  then have "(case m of None \<Rightarrow> b | Some c \<Rightarrow> if c < bz_cond b then \<lparr>bz_frame = 0, bz_cond = c, bz_code = beepcodes c\<rparr> else b) =
      \<lparr>bz_frame = ?k mod 32, bz_cond = ?c, bz_code = beepcodes ?c\<rparr>"
    using c by (cases "?c = urgent ms"; cases m) (auto simp: since_snoc)
  note t = buzzer_turn_at [OF this]
  have "map (\<lambda>t. beep (urgent (take (Suc t) (ms @ [m]))) (since (take (Suc t) (ms @ [m])))) [0..<length ms] =
      map (\<lambda>t. beep (urgent (take (Suc t) ms)) (since (take (Suc t) ms))) [0..<length ms]"
    by (rule map_cong) auto
  then show ?case using snoc.IH b t by (simp add: buzzer_snoc)
qed

subsection \<open>Ring buffers\<close>

text \<open>An array and the index of its oldest element: the element replaced, and the ring with the new one.\<close>

definition ring_swap :: "'a \<Rightarrow> 'a list \<times> nat \<Rightarrow> 'a \<times> 'a list \<times> nat" where
  "ring_swap v r = (case r of (xs, i) \<Rightarrow> (xs ! i, xs[i := v], (i + 1) mod length xs))"

definition ring_ok :: "'a list \<times> nat \<Rightarrow> bool" where
  "ring_ok r \<longleftrightarrow> snd r < length (fst r)"

definition ring_contents :: "'a list \<times> nat \<Rightarrow> 'a list" where
  "ring_contents r = rotate (snd r) (fst r)"

text \<open>A ring is the circular buffer of the newer library with its two fields in a pair.\<close>

lemma ring_swap_cbuf:
  assumes "ring_ok r"
  shows "cbuf_AddSample v \<lparr>oldest_index = snd r, underlying = fst r\<rparr> =
      Some \<lparr>oldest_index = snd (snd (ring_swap v r)), underlying = fst (snd (ring_swap v r))\<rparr>"
    and "cbuf_OldestSample \<lparr>oldest_index = snd r, underlying = fst r\<rparr> = Some (fst (ring_swap v r))"
  using assms by (simp_all add: cbuf_AddSample_def cbuf_OldestSample_def ring_swap_def ring_ok_def cbuf_Size_def arr_put_def arr_get_def
      split: prod.splits)

interpretation grim_ring: sliding_window "\<lambda>v r. Some (snd (ring_swap v r))" "\<lambda>r. Some (fst r ! snd r)" ring_contents ring_ok
proof
  fix r :: "'a list \<times> nat" and v assume ok: "ring_ok r"
  let ?b = "\<lparr>oldest_index = snd r, underlying = fst r\<rparr>"
  have b: "cbuf_ok ?b" "window ?b = ring_contents r" using ok by (simp_all add: cbuf_ok_def ring_ok_def window_def ring_contents_def)
  show "ring_contents r \<noteq> []" using ring.nonempty [OF b(1)] b(2) by simp
  show "\<exists>r'. Some (snd (ring_swap v r)) = Some r' \<and> ring_ok r' \<and> ring_contents r' = tl (ring_contents r) @ [v]"
    using ring.add_contents [OF b(1), of v] ring_swap_cbuf(1) [OF ok, of v] b(2)
    by (auto simp: cbuf_ok_def ring_ok_def window_def ring_contents_def)
  show "Some (fst r ! snd r) = Some (hd (ring_contents r))"
    using ring.oldest_contents [OF b(1)] ring_swap_cbuf(2) [OF ok, of v] b(2) by (cases r) (simp add: ring_swap_def)
qed

lemma ring_swap_ok:
  assumes "ring_ok r"
  shows "ring_ok (snd (ring_swap v r))" "ring_contents (snd (ring_swap v r)) = tl (ring_contents r) @ [v]"
    "fst (ring_swap v r) = hd (ring_contents r)" "length (fst (snd (ring_swap v r))) = length (fst r)"
  using grim_ring.add_contents [OF assms, of v] grim_ring.oldest_contents [OF assms]
  by (auto simp: ring_swap_def split: prod.splits)

subsection \<open>Boost detection\<close>

definition ACCEL_BUFFER_SIZE :: nat where "ACCEL_BUFFER_SIZE = 110"
definition ALTITUDE_BUFFER_SIZE :: nat where "ALTITUDE_BUFFER_SIZE = 500"

record 'a fast_data =
  fd_timestamp :: u32
  fd_acc :: "'a \<times> 'a \<times> 'a"
  fd_gyro :: "'a \<times> 'a \<times> 'a"
  fd_pressure :: 'a

record 'a altitude_data =
  ad_timestamp :: u32
  ad_pressure :: 'a
  ad_temperature :: 'a

definition zero_fast :: "'a::zero fast_data" where
  "zero_fast = \<lparr>fd_timestamp = 0, fd_acc = (0, 0, 0), fd_gyro = (0, 0, 0), fd_pressure = 0\<rparr>"

definition zero_altitude :: "'a::zero altitude_data" where
  "zero_altitude = \<lparr>ad_timestamp = 0, ad_pressure = 0, ad_temperature = 0\<rparr>"

text \<open>The variables of the file, \<open>flight_cancelled\<close>, the count of the battery thread, and which threads have ended.\<close>

record 'a boost =
  accel_ring :: "'a fast_data list \<times> nat"
  accel_running_sum :: 'a
  altitude_ring :: "'a altitude_data list \<times> nat"
  boost_detected :: bool
  flight_cancelled :: bool
  count_below :: nat
  accel_ended :: bool
  altitude_ended :: bool
  battery_ended :: bool

definition boost_start :: "'a::zero boost" where
  "boost_start = \<lparr>accel_ring = (replicate ACCEL_BUFFER_SIZE zero_fast, 0), accel_running_sum = 0,
     altitude_ring = (replicate ALTITUDE_BUFFER_SIZE zero_altitude, 0), boost_detected = False, flight_cancelled = False,
     count_below = 0, accel_ended = False, altitude_ended = False, battery_ended = False\<rparr>"

record ('h, 'a) grim_os =
  sensors :: "'h sensor_api"
  to_float :: "sensor_value \<Rightarrow> 'a"
  round_float :: "'a \<Rightarrow> 'a"
  round_double :: "'a \<Rightarrow> 'a"
  k_uptime_get :: "'h \<Rightarrow> u64"
  buzzer_put :: "buzzer_cond \<Rightarrow> 'h \<Rightarrow> int \<times> 'h"

text \<open>Two thresholds are cast to \<open>float\<close>, the third is a literal of type \<open>double\<close>.\<close>

definition ACCEL_VAL_THRESHOLD :: "('h, 'a::field) grim_os \<Rightarrow> 'a" where
  "ACCEL_VAL_THRESHOLD io = round_float io (round_double io (round_double io (981 / 100) * 5))"

definition ALTITUDE_VAL_THRESHOLD :: "('h, 'a::field) grim_os \<Rightarrow> 'a" where
  "ALTITUDE_VAL_THRESHOLD io = round_double io (1524 / 10)"

definition LOW_BATTERY_VOLTAGE :: "('h, 'a::field) grim_os \<Rightarrow> 'a" where
  "LOW_BATTERY_VOLTAGE io = round_float io (round_double io (41 / 10))"

text \<open>\<open>k_msgq_put\<close> on the buzzer's queue, with a timeout of 10 ms.\<close>

definition buzzer_tell :: "('h, 'a) grim_os \<Rightarrow> buzzer_cond \<Rightarrow> 'h \<Rightarrow> 'h" where
  "buzzer_tell io c h = snd (buzzer_put io c h)"

definition read_channel_to_float :: "('h, 'a) grim_os \<Rightarrow> nat \<Rightarrow> sensor_channel \<Rightarrow> 'h \<Rightarrow> int \<times> 'a \<times> 'h" where
  "read_channel_to_float io d chan h =
     (case get_into (sensors io) d chan zero_value h of (ret, v, h) \<Rightarrow> (ret, to_float io v, h))"

definition read_axes :: "('h, 'a) grim_os \<Rightarrow> nat \<Rightarrow> sensor_channel \<times> sensor_channel \<times> sensor_channel \<Rightarrow> 'h \<Rightarrow> ('a \<times> 'a \<times> 'a) \<times> 'h" where
  "read_axes io d chans h =
     (case chans of (cx, cy, cz) \<Rightarrow>
      let (_, x, h) = read_channel_to_float io d cx h;
          (_, y, h) = read_channel_to_float io d cy h;
          (_, z, h) = read_channel_to_float io d cz h
      in ((x, y, z), h))"

text \<open>\<open>l_altitude_conversion\<close>: pressure in hPa, the altitude in metres, all in \<open>double\<close>.\<close>

definition grim_altitude :: "('h, 'a) grim_os \<Rightarrow> ('a \<Rightarrow> 'a \<Rightarrow> 'a) \<Rightarrow> 'a::field \<Rightarrow> 'a \<Rightarrow> 'a" where
  "grim_altitude io pow pressure_kpa temperature_c =
     (let rd = round_double io;
          pressure = rd (pressure_kpa * 10);
          p = pow (rd (pressure / rd (101325 / 100))) (rd (190284 / 1000000));
          altitude = rd (rd (rd (1 - p) * rd (14536645 / 100)) * rd (3048 / 10000))
      in altitude)"

definition altitude_sample :: "('h, 'a) grim_os \<Rightarrow> nat \<Rightarrow> 'h \<Rightarrow> 'a altitude_data \<times> 'h" where
  "altitude_sample io d h =
     (let h = snd (sensor_sample_fetch (sensors io) d h);
          (_, press, h) = read_channel_to_float io d SENSOR_CHAN_PRESS h;
          (_, temp, h) = read_channel_to_float io d SENSOR_CHAN_AMBIENT_TEMP h
      in (\<lparr>ad_timestamp = ucast (k_uptime_get io h), ad_pressure = press, ad_temperature = temp\<rparr>, h))"

text \<open>A turn of the altitude thread, once its timer has expired; the device is the data of the timer.\<close>

definition altitude_turn ::
  "('h, 'a::linordered_field) grim_os \<Rightarrow> ('a \<Rightarrow> 'a \<Rightarrow> 'a) \<Rightarrow> nat option \<Rightarrow> 'a boost \<times> 'h \<Rightarrow> 'a boost \<times> 'h" where
  "altitude_turn io pow altimeter_dev bh =
     (case bh of (b, h) \<Rightarrow>
      if altitude_ended b then (b, h)
      else if boost_detected b \<or> flight_cancelled b then (b\<lparr>altitude_ended := True\<rparr>, h)
      else case altimeter_dev of
        None \<Rightarrow> (b, h)
      | Some d \<Rightarrow>
          let (data, h) = altitude_sample io d h;
              (oldest, ring) = ring_swap data (altitude_ring b);
              b = b\<lparr>altitude_ring := ring\<rparr>
          in if ad_timestamp oldest = 0 then (b, h)
             else
               let old_alt = grim_altitude io pow (ad_pressure oldest) (ad_temperature oldest);
                   alt = grim_altitude io pow (ad_pressure data) (ad_temperature data)
               in if \<bar>round_double io (alt - old_alt)\<bar> > ALTITUDE_VAL_THRESHOLD io then (b\<lparr>boost_detected := True, altitude_ended := True\<rparr>, h)
                  else (b, h))"

definition accel_sample :: "('h, 'a::zero) grim_os \<Rightarrow> nat \<Rightarrow> 'h \<Rightarrow> 'a fast_data \<times> 'h" where
  "accel_sample io d h =
     (let h = snd (sensor_sample_fetch (sensors io) d h);
          (acc, h) = read_axes io d accel_chans h;
          (gyro, h) = read_axes io d gyro_chans h
      in (\<lparr>fd_timestamp = ucast (k_uptime_get io h), fd_acc = acc, fd_gyro = gyro, fd_pressure = 0\<rparr>, h))"

text \<open>The axis that points up is \<open>accel_z\<close>.\<close>

definition up_axis :: "'a fast_data \<Rightarrow> 'a" where
  "up_axis d = snd (snd (fd_acc d))"

definition accel_turn :: "('h, 'a::linordered_field) grim_os \<Rightarrow> nat option \<Rightarrow> 'a boost \<times> 'h \<Rightarrow> 'a boost \<times> 'h" where
  "accel_turn io imu_dev bh =
     (case bh of (b, h) \<Rightarrow>
      if accel_ended b then (b, h)
      else if boost_detected b \<or> flight_cancelled b then (b\<lparr>accel_ended := True\<rparr>, h)
      else case imu_dev of
        None \<Rightarrow> (b, h)
      | Some d \<Rightarrow>
          let (data, h) = accel_sample io d h;
              (oldest, ring) = ring_swap data (accel_ring b);
              s = round_float io (accel_running_sum b - up_axis oldest);
              s = round_float io (s + up_axis data);
              b = b\<lparr>accel_ring := ring, accel_running_sum := s\<rparr>;
              avg = round_float io (s / of_nat ACCEL_BUFFER_SIZE)
          in if avg > ACCEL_VAL_THRESHOLD io then (b\<lparr>boost_detected := True, accel_ended := True\<rparr>, h) else (b, h))"

text \<open>The condition of this loop is tested before it waits for the timer.\<close>

definition battery_turn :: "('h, 'a::linordered_field) grim_os \<Rightarrow> nat \<Rightarrow> 'a boost \<times> 'h \<Rightarrow> 'a boost \<times> 'h" where
  "battery_turn io ina bh =
     (case bh of (b, h) \<Rightarrow>
      if battery_ended b then (b, h)
      else
        let h = snd (sensor_sample_fetch (sensors io) ina h);
            (_, voltage, h) = read_channel_to_float io ina SENSOR_CHAN_VOLTAGE h;
            b = (if voltage < LOW_BATTERY_VOLTAGE io then b\<lparr>count_below := count_below b + 1\<rparr> else b)
        in if count_below b > 4 then (b\<lparr>battery_ended := True\<rparr>, buzzer_tell io buzzer_cond_low_battery h)
           else (b\<lparr>battery_ended := flight_cancelled b \<or> boost_detected b\<rparr>, h))"

text \<open>The battery thread tests its condition when it begins.\<close>

definition battery_begin :: "'a boost \<Rightarrow> 'a boost" where
  "battery_begin b = b\<lparr>battery_ended := flight_cancelled b \<or> boost_detected b\<rparr>"

text \<open>The threads when they begin, with or without a cancel command before.\<close>

definition boost_begin :: "bool \<Rightarrow> 'a::zero boost" where
  "boost_begin cancelled = battery_begin (boost_start\<lparr>flight_cancelled := cancelled\<rparr>)"

definition get_boost_detected :: "'a boost \<Rightarrow> bool" where
  "get_boost_detected b = boost_detected b"

text \<open>\<open>cmd_nogo\<close> of \<open>cmds.c\<close>.\<close>

definition cmd_nogo :: "'a boost \<Rightarrow> 'a boost" where
  "cmd_nogo b = b\<lparr>flight_cancelled := True\<rparr>"

subsection \<open>The threads together\<close>

datatype boost_event = AccelTick "nat option" | AltitudeTick "nat option" | BatteryTick nat | NoGo

fun boost_step :: "('h, 'a::linordered_field) grim_os \<Rightarrow> ('a \<Rightarrow> 'a \<Rightarrow> 'a) \<Rightarrow> boost_event \<Rightarrow> 'a boost \<times> 'h \<Rightarrow> 'a boost \<times> 'h" where
  "boost_step io pow (AccelTick d) bh = accel_turn io d bh"
| "boost_step io pow (AltitudeTick d) bh = altitude_turn io pow d bh"
| "boost_step io pow (BatteryTick d) bh = battery_turn io d bh"
| "boost_step io pow NoGo bh = (cmd_nogo (fst bh), snd bh)"

text \<open>What every reachable state is like.\<close>

definition boost_wf :: "'a boost \<Rightarrow> bool" where
  "boost_wf b \<longleftrightarrow>
     ring_ok (accel_ring b) \<and> length (fst (accel_ring b)) = ACCEL_BUFFER_SIZE \<and>
     ring_ok (altitude_ring b) \<and> length (fst (altitude_ring b)) = ALTITUDE_BUFFER_SIZE \<and>
     (battery_ended b \<or> count_below b \<le> 4) \<and> (boost_detected b \<longrightarrow> accel_ended b \<or> altitude_ended b)"

lemma ring_swap_eq:
  assumes "ring_swap v r = (x, xs, i)" "ring_ok r"
  shows "ring_ok (xs, i)" "length xs = length (fst r)" "x = hd (ring_contents r)"
    "ring_contents (xs, i) = tl (ring_contents r) @ [v]"
  using ring_swap_ok [OF assms(2), of v] assms(1) by simp_all

lemma boost_start_wf: "boost_wf boost_start"
  by (simp add: boost_wf_def boost_start_def ring_ok_def ACCEL_BUFFER_SIZE_def ALTITUDE_BUFFER_SIZE_def)

lemma accel_turn_wf:
  assumes "boost_wf b"
  shows "boost_wf (fst (accel_turn io d (b, h)))"
  using assms by (auto simp: accel_turn_def boost_wf_def Let_def dest: ring_swap_eq(1,2) split: prod.splits option.splits if_splits)

lemma altitude_turn_wf:
  assumes "boost_wf b"
  shows "boost_wf (fst (altitude_turn io pow d (b, h)))"
  using assms by (auto simp: altitude_turn_def boost_wf_def Let_def dest: ring_swap_eq(1,2) split: prod.splits option.splits if_splits)

lemma battery_turn_wf:
  assumes "boost_wf b"
  shows "boost_wf (fst (battery_turn io d (b, h)))"
  using assms by (auto simp: battery_turn_def boost_wf_def Let_def split: prod.splits)

lemma boost_step_wf: "boost_wf (fst s) \<Longrightarrow> boost_wf (fst (boost_step io pow e s))"
  using accel_turn_wf [of "fst s" io _ "snd s"] altitude_turn_wf [of "fst s" io pow _ "snd s"] battery_turn_wf [of "fst s" io _ "snd s"]
  by (cases e) (simp_all add: cmd_nogo_def boost_wf_def)

subsection \<open>Readings\<close>

text \<open>The samples a thread takes one after the other, and the state of the hardware after \<open>n\<close> of them.\<close>

definition hw_after :: "('h \<Rightarrow> 's \<times> 'h) \<Rightarrow> nat \<Rightarrow> 'h \<Rightarrow> 'h" where
  "hw_after sample n = ((\<lambda>h. snd (sample h)) ^^ n)"

definition samples :: "('h \<Rightarrow> 's \<times> 'h) \<Rightarrow> nat \<Rightarrow> 'h \<Rightarrow> 's list" where
  "samples sample n h = map (\<lambda>i. fst (sample (hw_after sample i h))) [0..<n]"

lemma hw_after_Suc: "hw_after sample (Suc n) h = snd (sample (hw_after sample n h))"
  by (simp add: hw_after_def)

lemma samples_Suc: "samples sample (Suc n) h = samples sample n h @ [fst (sample (hw_after sample n h))]"
  by (simp add: samples_def)

lemma length_samples [simp]: "length (samples sample n h) = n"
  by (simp add: samples_def)

lemma take_samples: "k \<le> n \<Longrightarrow> take k (samples sample n h) = samples sample k h"
  by (simp add: samples_def take_map)

lemma samples_nth: "k < n \<Longrightarrow> samples sample n h ! k = fst (sample (hw_after sample k h))"
  by (simp add: samples_def)

text \<open>A ring that started with \<open>m\<close> equal elements, after the elements \<open>xs\<close>.\<close>

lemma ring_shift:
  assumes "ring_contents r = drop (length xs) (replicate m z @ xs)" "ring_ok r"
  shows "tl (ring_contents r) @ [v] = drop (length (xs @ [v])) (replicate m z @ xs @ [v])"
    and "hd (ring_contents r) = (replicate m z @ xs) ! length xs"
proof -
  have n: "ring_contents r \<noteq> []" using grim_ring.nonempty [OF assms(2)] by simp
  then have "0 < m" using assms(1) by auto
  then show "hd (ring_contents r) = (replicate m z @ xs) ! length xs" unfolding assms(1) by (subst hd_drop_conv_nth) simp_all
  show "tl (ring_contents r) @ [v] = drop (length (xs @ [v])) (replicate m z @ xs @ [v])"
  proof -
    have "tl (drop (length xs) (replicate m z @ xs)) = drop (Suc (length xs)) (replicate m z @ xs)" by (simp only: tl_drop drop_Suc)
    moreover have "drop (Suc (length xs)) ((replicate m z @ xs) @ [v]) = drop (Suc (length xs)) (replicate m z @ xs) @ [v]"
      using \<open>0 < m\<close> by (subst drop_append) simp
    ultimately show ?thesis unfolding assms(1) by simp
  qed
qed

text \<open>The readings the two threads take in a run: none when there is no device, and none once they have something to stop for.\<close>

definition accel_taken :: "('h, 'a::zero) grim_os \<Rightarrow> boost_event \<Rightarrow> 'a boost \<times> 'h \<Rightarrow> 'a fast_data list" where
  "accel_taken io e s =
     (case e of
        AccelTick (Some d) \<Rightarrow>
          if accel_ended (fst s) \<or> boost_detected (fst s) \<or> flight_cancelled (fst s) then [] else [fst (accel_sample io d (snd s))]
      | _ \<Rightarrow> [])"

definition altitude_taken :: "('h, 'a) grim_os \<Rightarrow> boost_event \<Rightarrow> 'a boost \<times> 'h \<Rightarrow> 'a altitude_data list" where
  "altitude_taken io e s =
     (case e of
        AltitudeTick (Some d) \<Rightarrow>
          if altitude_ended (fst s) \<or> boost_detected (fst s) \<or> flight_cancelled (fst s) then [] else [fst (altitude_sample io d (snd s))]
      | _ \<Rightarrow> [])"

fun readings ::
  "(boost_event \<Rightarrow> 's \<Rightarrow> 'r list) \<Rightarrow> (boost_event \<Rightarrow> 's \<Rightarrow> 's) \<Rightarrow> boost_event list \<Rightarrow> 's \<Rightarrow> 'r list" where
  "readings taken step [] s = []"
| "readings taken step (e # es) s = taken e s @ readings taken step es (step e s)"

lemma readings_snoc: "readings taken step (es @ [e]) s = readings taken step es s @ taken e (fold step es s)"
  by (induction es arbitrary: s) simp_all

text \<open>The running sum after \<open>k\<close> readings, with the rounding of every subtraction and addition; readings not yet taken are 0.\<close>

fun running_sum :: "('a \<Rightarrow> 'a) \<Rightarrow> 'a::linordered_field list \<Rightarrow> nat \<Rightarrow> 'a" where
  "running_sum rf rs 0 = 0"
| "running_sum rf rs (Suc k) = rf (rf (running_sum rf rs k - (if k < ACCEL_BUFFER_SIZE then 0 else rs ! (k - ACCEL_BUFFER_SIZE))) + rs ! k)"

lemma running_sum_append: "k \<le> length rs \<Longrightarrow> running_sum rf (rs @ rs') k = running_sum rf rs k"
  by (induction k) (auto simp: nth_append)

text \<open>Reading \<open>k\<close> shows a boost: the mean along the axis, or the altitude against the one of 500 readings before.\<close>

definition accel_high :: "('h, 'a::linordered_field) grim_os \<Rightarrow> 'a fast_data list \<Rightarrow> nat \<Rightarrow> bool" where
  "accel_high io ds k \<longleftrightarrow>
     round_float io (running_sum (round_float io) (map up_axis ds) (Suc k) / of_nat ACCEL_BUFFER_SIZE) > ACCEL_VAL_THRESHOLD io"

definition altitude_jump :: "('h, 'a::linordered_field) grim_os \<Rightarrow> ('a \<Rightarrow> 'a \<Rightarrow> 'a) \<Rightarrow> 'a altitude_data list \<Rightarrow> nat \<Rightarrow> bool" where
  "altitude_jump io pow ds k \<longleftrightarrow>
     ALTITUDE_BUFFER_SIZE \<le> k \<and>
     (let old = ds ! (k - ALTITUDE_BUFFER_SIZE); new = ds ! k in
      ad_timestamp old \<noteq> 0 \<and>
      \<bar>round_double io (grim_altitude io pow (ad_pressure new) (ad_temperature new) - grim_altitude io pow (ad_pressure old) (ad_temperature old))\<bar>
        > ALTITUDE_VAL_THRESHOLD io)"

lemma accel_high_append: "k < length ds \<Longrightarrow> accel_high io (ds @ ds') k = accel_high io ds k"
  by (simp add: accel_high_def running_sum_append del: running_sum.simps)

lemma altitude_jump_append: "k < length ds \<Longrightarrow> altitude_jump io pow (ds @ ds') k = altitude_jump io pow ds k"
  by (auto simp: altitude_jump_def nth_append Let_def)

lemma ex_less_snoc:
  assumes "\<And>k. k < length ds \<Longrightarrow> P (ds @ [v]) k = P ds k"
  shows "(\<exists>k < length (ds @ [v]). P (ds @ [v]) k) \<longleftrightarrow> (\<exists>k < length ds. P ds k) \<or> P (ds @ [v]) (length ds)"
  using assms by (auto simp: less_Suc_eq)

text \<open>What the state holds after the readings \<open>as\<close> and \<open>bs\<close>.\<close>

definition boost_holds ::
  "('h, 'a::linordered_field) grim_os \<Rightarrow> ('a \<Rightarrow> 'a \<Rightarrow> 'a) \<Rightarrow> 'a fast_data list \<Rightarrow> 'a altitude_data list \<Rightarrow> 'a boost \<Rightarrow> bool" where
  "boost_holds io pow as bs b \<longleftrightarrow>
     ring_contents (accel_ring b) = drop (length as) (replicate ACCEL_BUFFER_SIZE zero_fast @ as) \<and>
     accel_running_sum b = running_sum (round_float io) (map up_axis as) (length as) \<and>
     ring_contents (altitude_ring b) = drop (length bs) (replicate ALTITUDE_BUFFER_SIZE zero_altitude @ bs) \<and>
     boost_detected b = ((\<exists>k < length as. accel_high io as k) \<or> (\<exists>k < length bs. altitude_jump io pow bs k))"

lemma boost_holds_start: "boost_holds io pow [] [] (boost_begin cancelled)"
  by (simp add: boost_holds_def boost_begin_def battery_begin_def boost_start_def ring_contents_def)

lemma accel_turn_holds:
  assumes "boost_wf b" "boost_holds io pow as bs b"
  shows "boost_holds io pow (as @ accel_taken io (AccelTick d) (b, h)) bs (fst (accel_turn io d (b, h)))"
proof (cases "accel_ended b \<or> boost_detected b \<or> flight_cancelled b \<or> d = None")
  case True
  then show ?thesis using assms(2)
    by (auto simp: accel_taken_def accel_turn_def boost_holds_def split: option.splits)
next
  case False
  then obtain dev where d: "d = Some dev" and b: "\<not> accel_ended b" "\<not> boost_detected b" "\<not> flight_cancelled b" by blast
  obtain v h' where v: "accel_sample io dev h = (v, h')" by fastforce
  obtain x xs i where sw: "ring_swap v (accel_ring b) = (x, xs, i)" by (metis prod_cases3)
  have r: "ring_ok (accel_ring b)" using assms(1) by (simp add: boost_wf_def)
  have c: "ring_contents (accel_ring b) = drop (length as) (replicate ACCEL_BUFFER_SIZE zero_fast @ as)"
    and sum: "accel_running_sum b = running_sum (round_float io) (map up_axis as) (length as)"
    using assms(2) by (simp_all add: boost_holds_def)
  have c': "ring_contents (xs, i) = drop (Suc (length as)) (replicate ACCEL_BUFFER_SIZE zero_fast @ as @ [v])"
    using ring_swap_eq(4) [OF sw r] ring_shift(1) [OF c r] by simp
  have x: "up_axis x = (if length as < ACCEL_BUFFER_SIZE then 0 else map up_axis (as @ [v]) ! (length as - ACCEL_BUFFER_SIZE))"
    using ring_swap_eq(3) [OF sw r] ring_shift(2) [OF c r]
    by (auto simp: nth_append up_axis_def zero_fast_def ACCEL_BUFFER_SIZE_def)
  define s where "s = round_float io (round_float io (accel_running_sum b - up_axis x) + up_axis v)"
  have s: "s = running_sum (round_float io) (map up_axis (as @ [v])) (Suc (length as))"
    unfolding s_def sum running_sum.simps x by (simp add: running_sum_append nth_append)
  define high where "high \<longleftrightarrow> round_float io (s / of_nat ACCEL_BUFFER_SIZE) > ACCEL_VAL_THRESHOLD io"
  have high: "accel_high io (as @ [v]) (length as) \<longleftrightarrow> high" by (simp only: accel_high_def high_def s)
  have "fst (accel_turn io d (b, h)) =
      (let b = b\<lparr>accel_ring := (xs, i), accel_running_sum := s\<rparr> in if high then b\<lparr>boost_detected := True, accel_ended := True\<rparr> else b)"
    using b v sw by (simp add: accel_turn_def d Let_def s_def high_def)
  moreover have "accel_taken io (AccelTick d) (b, h) = [v]" using b v by (simp add: accel_taken_def d)
  moreover have "(\<exists>k < length (as @ [v]). accel_high io (as @ [v]) k) \<longleftrightarrow> (\<exists>k < length as. accel_high io as k) \<or> high"
    using ex_less_snoc [of as "accel_high io" v] accel_high_append high by metis
  ultimately show ?thesis using assms(2) b c' s by (simp add: boost_holds_def Let_def del: running_sum.simps)
qed

lemma altitude_turn_holds:
  assumes "boost_wf b" "boost_holds io pow as bs b"
  shows "boost_holds io pow as (bs @ altitude_taken io (AltitudeTick d) (b, h)) (fst (altitude_turn io pow d (b, h)))"
proof (cases "altitude_ended b \<or> boost_detected b \<or> flight_cancelled b \<or> d = None")
  case True
  then show ?thesis using assms(2)
    by (auto simp: altitude_taken_def altitude_turn_def boost_holds_def split: option.splits)
next
  case False
  then obtain dev where d: "d = Some dev" and b: "\<not> altitude_ended b" "\<not> boost_detected b" "\<not> flight_cancelled b" by blast
  obtain v h' where v: "altitude_sample io dev h = (v, h')" by fastforce
  obtain x xs i where sw: "ring_swap v (altitude_ring b) = (x, xs, i)" by (metis prod_cases3)
  have r: "ring_ok (altitude_ring b)" using assms(1) by (simp add: boost_wf_def)
  have c: "ring_contents (altitude_ring b) = drop (length bs) (replicate ALTITUDE_BUFFER_SIZE zero_altitude @ bs)"
    using assms(2) by (simp add: boost_holds_def)
  have c': "ring_contents (xs, i) = drop (Suc (length bs)) (replicate ALTITUDE_BUFFER_SIZE zero_altitude @ bs @ [v])"
    using ring_swap_eq(4) [OF sw r] ring_shift(1) [OF c r] by simp
  have x: "x = (if length bs < ALTITUDE_BUFFER_SIZE then zero_altitude else bs ! (length bs - ALTITUDE_BUFFER_SIZE))"
    using ring_swap_eq(3) [OF sw r] ring_shift(2) [OF c r] by (simp add: nth_append)
  define jump where "jump \<longleftrightarrow> ad_timestamp x \<noteq> 0 \<and>
      \<bar>round_double io (grim_altitude io pow (ad_pressure v) (ad_temperature v) - grim_altitude io pow (ad_pressure x) (ad_temperature x))\<bar>
        > ALTITUDE_VAL_THRESHOLD io"
  have jump: "altitude_jump io pow (bs @ [v]) (length bs) \<longleftrightarrow> jump"
  proof (cases "length bs < ALTITUDE_BUFFER_SIZE")
    case False
    moreover have "length bs - ALTITUDE_BUFFER_SIZE < length bs" using False by (simp add: ALTITUDE_BUFFER_SIZE_def)
    ultimately show ?thesis by (simp add: altitude_jump_def jump_def x Let_def nth_append)
  qed (simp add: altitude_jump_def jump_def x zero_altitude_def)
  have "fst (altitude_turn io pow d (b, h)) =
      (let b = b\<lparr>altitude_ring := (xs, i)\<rparr> in if jump then b\<lparr>boost_detected := True, altitude_ended := True\<rparr> else b)"
    using b v sw by (simp add: altitude_turn_def d Let_def jump_def)
  moreover have "altitude_taken io (AltitudeTick d) (b, h) = [v]" using b v by (simp add: altitude_taken_def d)
  moreover have "(\<exists>k < length (bs @ [v]). altitude_jump io pow (bs @ [v]) k) \<longleftrightarrow> (\<exists>k < length bs. altitude_jump io pow bs k) \<or> jump"
    using ex_less_snoc [of bs "altitude_jump io pow" v] altitude_jump_append jump by metis
  ultimately show ?thesis using assms(2) b c' by (simp add: boost_holds_def Let_def)
qed

lemma boost_step_holds:
  assumes "boost_wf (fst s)" "boost_holds io pow as bs (fst s)"
  shows "boost_holds io pow (as @ accel_taken io e s) (bs @ altitude_taken io e s) (fst (boost_step io pow e s))"
proof (cases e)
  case (AccelTick d)
  then show ?thesis using accel_turn_holds [OF assms, of d "snd s"] by (simp add: altitude_taken_def)
next
  case (AltitudeTick d)
  then show ?thesis using altitude_turn_holds [OF assms, of d "snd s"] by (simp add: accel_taken_def)
next
  case (BatteryTick d)
  then show ?thesis using assms(2)
    by (cases s) (auto simp: accel_taken_def altitude_taken_def battery_turn_def boost_holds_def Let_def split: prod.splits)
next
  case NoGo
  then show ?thesis using assms(2) by (simp add: accel_taken_def altitude_taken_def cmd_nogo_def boost_holds_def)
qed

lemma boost_run_holds:
  "boost_wf (fst (fold (boost_step io pow) es (boost_begin cancelled, h))) \<and>
   boost_holds io pow (readings (accel_taken io) (boost_step io pow) es (boost_begin cancelled, h))
     (readings (altitude_taken io) (boost_step io pow) es (boost_begin cancelled, h)) (fst (fold (boost_step io pow) es (boost_begin cancelled, h)))"
proof (induction es rule: rev_induct)
  case Nil
  have "boost_wf (boost_begin cancelled)" using boost_start_wf by (simp add: boost_begin_def battery_begin_def boost_wf_def boost_start_def)
  then show ?case using boost_holds_start [of io pow cancelled] by simp
next
  case (snoc e es)
  then show ?case unfolding readings_snoc fold_append comp_apply fold_simps
    by (blast intro: boost_step_wf boost_step_holds)
qed

subsection \<open>What the threads keep and what they detect\<close>

text \<open>
  C23: in every state the threads can reach, with any interleaving of their turns and the cancel command, both ring
  indices are in bounds, the buffers keep their sizes and hold the last 110 and the last 500 readings taken, oldest first
  (zeros before there were as many), the running sum is the one that the rounded subtractions and additions of the readings
  give, a battery thread that counted more than four low readings has ended, and a detected boost has ended the thread
  that detected it. The roundings are any functions.
\<close>

theorem boost_state_well_formed:
  "let s0 = (boost_begin cancelled, h);
       as = readings (accel_taken io) (boost_step io pow) es s0;
       bs = readings (altitude_taken io) (boost_step io pow) es s0;
       b = fst (fold (boost_step io pow) es s0)
   in boost_wf b \<and>
     ring_contents (accel_ring b) = drop (length as) (replicate ACCEL_BUFFER_SIZE zero_fast @ as) \<and>
     ring_contents (altitude_ring b) = drop (length bs) (replicate ALTITUDE_BUFFER_SIZE zero_altitude @ bs) \<and>
     accel_running_sum b = running_sum (round_float io) (map up_axis as) (length as)"
  using boost_run_holds [of io pow es cancelled h] by (simp add: boost_holds_def Let_def)

text \<open>
  C24: in any interleaving of the turns of the threads and the cancel command, the boost is detected exactly when some
  reading taken showed it: for the acceleration thread, the running sum of the rounded subtractions and additions up to that
  reading, divided by 110, exceeded 5 g; for the altitude thread, the altitude differed by more than 152.4 m from the
  altitude 500 readings before, unless that one is stamped 0. The roundings are any functions.
\<close>

theorem boost_detected_exact:
  "let s0 = (boost_begin cancelled, h);
      as = readings (accel_taken io) (boost_step io pow) es s0;
      bs = readings (altitude_taken io) (boost_step io pow) es s0
    in boost_detected (fst (fold (boost_step io pow) es s0)) \<longleftrightarrow>
      (\<exists>k < length as. accel_high io as k) \<or> (\<exists>k < length bs. altitude_jump io pow bs k)"
  using boost_run_holds [of io pow es cancelled h] by (simp add: boost_holds_def Let_def)

end
