(* ===== verification/Classic_Fs.thy ===== *)
theory Classic_Fs
  imports File_Store
begin

text \<open>
  The frame log of the older core library, \<open>lib/launch_core_classic/os/fs.c\<close>: a file of frames of
  one width that is written once or as a ring, and the counter of boots. The file system is a
  parameter as in \<open>File_Store\<close>; \<open>size_t\<close> and \<open>off_t\<close> have 32 bits, sizes 64.
\<close>

definition ENOTINIT :: int where "ENOTINIT = 200"
definition EALREADY :: int where "EALREADY = 120"

definition FS_O_RDWR :: u8 where "FS_O_RDWR = 0x03"

datatype l_fs_log_mode = SLOG_ONCE | SLOG_CIRC | SLOG_OTHER

record 'f l_fs_file =
  fname :: string
  width :: int
  log_mode :: l_fs_log_mode
  lsize :: u64
  initialized :: bool
  lfile :: 'f
  dirent_size :: u32
  vfs :: "u32 \<times> u32"
  wpos :: int

text \<open>\<open>L_FS_CREATE_FILE\<close>\<close>

definition l_fs_create_file :: "string \<Rightarrow> int \<Rightarrow> int \<Rightarrow> l_fs_log_mode \<Rightarrow> 'f \<Rightarrow> 'f l_fs_file" where
  "l_fs_create_file filename sample_width n_samples mode f =
     \<lparr>fname = filename, width = sample_width, log_mode = mode, lsize = word_of_int (sample_width * n_samples), initialized = False,
      lfile = f, dirent_size = 0, vfs = (0, 0), wpos = 0\<rparr>"

definition l_fs_init :: "('c, 'f) fs_ops \<Rightarrow> 'f l_fs_file \<Rightarrow> int \<times> 'f l_fs_file" where
  "l_fs_init fs p =
     (case fs_open fs (fname p) (FS_O_CREATE OR FS_O_RDWR) (lfile p) of
        (ret, f) \<Rightarrow>
          let p = p\<lparr>lfile := f\<rparr> in
          if ret < 0 then (ret, p)
          else if lsize p < word_of_int (width p) then (- EDOM, p)
          else (0, p\<lparr>initialized := True\<rparr>))"

definition l_fs_open :: "('c, 'f) fs_ops \<Rightarrow> 'f l_fs_file \<Rightarrow> int \<times> 'f l_fs_file" where
  "l_fs_open fs p = (case fs_open fs (fname p) FS_O_RDWR (lfile p) of (ret, f) \<Rightarrow> (ret, p\<lparr>lfile := f\<rparr>))"

definition l_fs_close :: "('c, 'f) fs_ops \<Rightarrow> 'f l_fs_file \<Rightarrow> int \<times> 'f l_fs_file" where
  "l_fs_close fs p = (case fs_close fs (lfile p) of (ret, f) \<Rightarrow> (ret, p\<lparr>lfile := f\<rparr>))"

text \<open>The result is a \<open>size_t\<close>, the flag is only set where the code sets it.\<close>

definition l_fs_put :: "('c, 'f) fs_ops \<Rightarrow> 'c list \<Rightarrow> int \<Rightarrow> 'f l_fs_file \<Rightarrow> u32 \<times> int \<times> 'f l_fs_file" where
  "l_fs_put fs src err_flag p =
     (case fs_seek fs (wpos p) (lfile p) of
        (ret, f) \<Rightarrow>
          if ret < 0 then (word_of_int ret, err_flag, p\<lparr>lfile := f\<rparr>)
          else case fs_write fs src f of
            (ret, f) \<Rightarrow>
              if ret < 0 then (word_of_int ret, err_flag, p\<lparr>lfile := f\<rparr>)
              else (word_of_int ret, err_flag, p\<lparr>lfile := f, wpos := fs_tell fs f\<rparr>))"

definition l_fs_write :: "('c, 'f) fs_ops \<Rightarrow> 'c list \<Rightarrow> int \<Rightarrow> 'f l_fs_file \<Rightarrow> u32 \<times> int \<times> 'f l_fs_file" where
  "l_fs_write fs src err_flag p =
     (if \<not> initialized p then (0, - ENOTINIT, p)
      else if (word_of_int (wpos p + width p) :: u64) > lsize p then
        let p = p\<lparr>lfile := snd (fs_sync fs (lfile p))\<rparr> in
        (case log_mode p of
           SLOG_ONCE \<Rightarrow> (0, - ENOSPC, p)
         | SLOG_CIRC \<Rightarrow> l_fs_put fs src err_flag (p\<lparr>wpos := 0\<rparr>)
         | SLOG_OTHER \<Rightarrow> l_fs_put fs src (- ENOTSUP) p)
      else l_fs_put fs src err_flag p)"

text \<open>The bytes are what is written at the start of the buffer.\<close>

definition l_fs_read :: "('c, 'f) fs_ops \<Rightarrow> int \<Rightarrow> 'f l_fs_file \<Rightarrow> u32 \<times> 'c list \<times> 'f l_fs_file" where
  "l_fs_read fs idx p =
     (if \<not> initialized p then (word_of_int (- ENOTINIT), [], p)
      else
        let frame_start = idx * width p; frame_end = frame_start + width p in
        if (word_of_int frame_end :: u64) > lsize p then (word_of_int (- EDOM), [], p)
        else case fs_seek fs frame_start (lfile p) of
          (ret, f) \<Rightarrow>
            if ret < 0 then (word_of_int ret, [], p\<lparr>lfile := f\<rparr>)
            else case fs_read fs (nat (width p)) f of (ret, bytes, f) \<Rightarrow> (word_of_int ret, bytes, p\<lparr>lfile := f\<rparr>))"

definition l_fs_stat :: "('c, 'f) fs_ops \<Rightarrow> 'f l_fs_file \<Rightarrow> int \<times> 'f l_fs_file" where
  "l_fs_stat fs p =
     (case fs_stat fs (fname p) (lfile p) of
        (ret, sz) \<Rightarrow> if ret < 0 then (ret, p) else (ret, p\<lparr>dirent_size := word_of_int sz\<rparr>))"

definition l_fs_file_size :: "('c, 'f) fs_ops \<Rightarrow> 'f l_fs_file \<Rightarrow> u32 \<times> 'f l_fs_file" where
  "l_fs_file_size fs p = (case l_fs_stat fs p of (ret, p) \<Rightarrow> if ret < 0 then (word_of_int ret, p) else (dirent_size p, p))"

text \<open>\<open>fs_statvfs\<close> gives its result, the free blocks and the size of a fragment.\<close>

definition l_fs_stat_vfs :: "(string \<Rightarrow> 'f \<Rightarrow> int \<times> u32 \<times> u32) \<Rightarrow> 'f l_fs_file \<Rightarrow> int \<times> 'f l_fs_file" where
  "l_fs_stat_vfs fs_statvfs p =
     (case fs_statvfs (fname p) (lfile p) of (ret, v) \<Rightarrow> if ret < 0 then (ret, p) else (ret, p\<lparr>vfs := v\<rparr>))"

definition l_fs_volume_free_space ::
  "('c, 'f) fs_ops \<Rightarrow> (string \<Rightarrow> 'f \<Rightarrow> int \<times> u32 \<times> u32) \<Rightarrow> 'f l_fs_file \<Rightarrow> u32 \<times> 'f l_fs_file" where
  "l_fs_volume_free_space fs fs_statvfs p =
     (case fs_sync fs (lfile p) of
        (ret, f) \<Rightarrow>
          let p = p\<lparr>lfile := f\<rparr> in
          if ret < 0 then (word_of_int ret, p)
          else case l_fs_stat_vfs fs_statvfs p of
            (ret, p) \<Rightarrow> if ret < 0 then (word_of_int ret, p) else (fst (vfs p) * snd (vfs p), p))"

definition l_fs_format :: "('p \<Rightarrow> 'f \<Rightarrow> int \<times> 'f) \<Rightarrow> 'p \<Rightarrow> 'f \<Rightarrow> int \<times> 'f" where
  "l_fs_format fs_mkfs partition_id f =
     (case fs_mkfs partition_id f of (ret, f) \<Rightarrow> if ret < 0 then (ret, f) else (0, f))"

subsection \<open>The counter of boots\<close>

definition le32 :: "u32 \<Rightarrow> u8 list" where
  "le32 w = [ucast w, ucast (drop_bit 8 w), ucast (drop_bit 16 w), ucast (drop_bit 24 w)]"

definition of_le32 :: "u8 list \<Rightarrow> u32" where
  "of_le32 bs = ucast (bs ! 0) OR push_bit 8 (ucast (bs ! 1)) OR push_bit 16 (ucast (bs ! 2)) OR push_bit 24 (ucast (bs ! 3))"

definition boot_count_fname :: string where "boot_count_fname = ''/lfs/.boot_count''"

text \<open>
  \<open>boot_count_checked\<close> is a static variable: the first component of the state. A short read leaves
  the other bytes of the counter.
\<close>

definition l_fs_boot_count_check :: "(u8, 'f) fs_ops \<Rightarrow> bool \<times> 'f \<Rightarrow> int \<times> bool \<times> 'f" where
  "l_fs_boot_count_check fs bf =
     (case bf of (checked, f) \<Rightarrow>
      if checked then (- EALREADY, True, f)
      else
        let create = fst (fs_stat fs boot_count_fname f) < 0;
            (ret, f) = fs_open fs boot_count_fname (if create then FS_O_RDWR OR FS_O_CREATE else FS_O_RDWR) f
        in if ret < 0 then (ret, True, f)
        else
          let (ret, f) = (if create then fs_write fs (le32 0) f else (0, f)) in
          if create \<and> ret < 0 then (ret, True, f)
          else case fs_read fs 4 f of
            (ret, bytes, f) \<Rightarrow>
              if ret < 0 then (ret, True, f)
              else
                let boot_count = of_le32 (bytes @ drop (length bytes) (le32 0)) + 1;
                    (ret, f) = fs_seek fs 0 f
                in if ret < 0 then (ret, True, f)
                else case fs_write fs (le32 boot_count) f of
                  (ret, f) \<Rightarrow>
                    if ret < 0 then (ret, True, f)
                    else case fs_close fs f of
                      (ret, f) \<Rightarrow> if ret < 0 then (ret, True, f) else (sint boot_count, True, f))"

subsection \<open>Files with random access\<close>

definition random_access :: "('c, 'f) fs_ops \<Rightarrow> ('f \<Rightarrow> 'c list) \<Rightarrow> ('f \<Rightarrow> nat) \<Rightarrow> bool" where
  "random_access fs content pos \<longleftrightarrow>
     behaves_as_file fs content pos \<and>
     (\<forall>k f. k \<le> length (content f) \<longrightarrow>
        0 \<le> fst (fs_seek fs (int k) f) \<and> content (snd (fs_seek fs (int k) f)) = content f \<and> pos (snd (fs_seek fs (int k) f)) = k) \<and>
     (\<forall>n f. \<exists>f'. fs_read fs n f = (int (length (take n (drop (pos f) (content f)))), take n (drop (pos f) (content f)), f') \<and>
        content f' = content f \<and> pos f' = pos f + length (take n (drop (pos f) (content f)))) \<and>
     (\<forall>f. content (snd (fs_sync fs f)) = content f)"

text \<open>The modes of this log are two of the data logger's.\<close>

definition as_log_mode :: "l_fs_log_mode \<Rightarrow> LogMode" where
  "as_log_mode m = (if m = SLOG_ONCE then FixedSize else Circular)"

definition l_fs_holds :: "('f \<Rightarrow> 'c list) \<Rightarrow> nat \<Rightarrow> nat \<Rightarrow> 'c list list \<Rightarrow> 'f l_fs_file \<Rightarrow> bool" where
  "l_fs_holds content w n frames p \<longleftrightarrow>
     initialized p \<and> width p = int w \<and> lsize p = word_of_int (int (w * n)) \<and>
     content (lfile p) = concat (kept (as_log_mode (log_mode p)) n frames) \<and>
     wpos p = int (w * next_pos (as_log_mode (log_mode p)) n (length frames))"

definition l_fs_result :: "l_fs_log_mode \<Rightarrow> nat \<Rightarrow> nat \<Rightarrow> nat \<Rightarrow> u32 \<times> int" where
  "l_fs_result mode w n m = (if mode = SLOG_ONCE \<and> n \<le> m then (0, - ENOSPC) else (of_nat w, 0))"

text \<open>Writes, each with a cleared flag.\<close>

fun l_fs_run :: "('c, 'f) fs_ops \<Rightarrow> 'c list list \<Rightarrow> 'f l_fs_file \<Rightarrow> (u32 \<times> int) list \<times> 'f l_fs_file" where
  "l_fs_run fs [] p = ([], p)"
| "l_fs_run fs (src # srcs) p =
     (case l_fs_write fs src 0 p of
        (ret, flag, p) \<Rightarrow> case l_fs_run fs srcs p of (rs, p) \<Rightarrow> ((ret, flag) # rs, p))"

lemma l_fs_run_append:
  "l_fs_run fs (ps @ qs) p = (case l_fs_run fs ps p of (rs, p) \<Rightarrow> case l_fs_run fs qs p of (rs', p) \<Rightarrow> (rs @ rs', p))"
  by (induction ps arbitrary: p) (simp_all split: prod.splits)

lemma l_fs_put_slot:
  assumes fs: "random_access fs content pos" and ss: "\<forall>s\<in>set ss. length s = w" "length src = w" "k \<le> length ss"
    and p: "content (lfile p) = concat ss" "wpos p = int (w * k)"
  shows "\<exists>f. l_fs_put fs src flag p = (of_nat w, flag, p\<lparr>lfile := f, wpos := int (w * Suc k)\<rparr>) \<and>
    content f = concat (if k < length ss then ss[k := src] else ss @ [src])"
proof -
  have l: "length (concat ss) = w * length ss" using ss(1) by (induction ss) auto
  then have "w * k \<le> length (content (lfile p))" using p(1) ss(3) by simp
  then obtain r1 f1 where f1: "fs_seek fs (wpos p) (lfile p) = (r1, f1)" "0 \<le> r1" "content f1 = concat ss" "pos f1 = w * k"
    using fs p unfolding random_access_def by (metis prod.collapse)
  have b: "behaves_as_file fs content pos" "pos f1 \<le> length (content f1)" using fs f1(3,4) l ss(3) by (simp_all add: random_access_def)
  obtain r2 f2 where f2: "fs_write fs src f1 = (r2, f2)" by fastforce
  have "fst (fs_write fs src f1) = int (length src) \<and> content (snd (fs_write fs src f1)) = overwrite (pos f1) src (content f1) \<and>
      pos (snd (fs_write fs src f1)) = pos f1 + length src" "fs_tell fs f2 = int (pos f2)"
    using b unfolding behaves_as_file_def by blast+
  then have w: "r2 = int w" "content f2 = overwrite (w * k) src (concat ss)" "fs_tell fs f2 = int (w * Suc k)"
    using f1(3,4) f2 ss(2) by simp_all
  then have "l_fs_put fs src flag p = (of_nat w, flag, p\<lparr>lfile := f2, wpos := int (w * Suc k)\<rparr>)"
    using f1(1,2) f2 by (simp add: l_fs_put_def)
  moreover have "content f2 = concat (if k < length ss then ss[k := src] else ss @ [src])"
    unfolding w(2) by (rule overwrite_slot [OF ss(1,3,2)])
  ultimately show ?thesis by (intro exI [of _ f2] conjI)
qed

lemma size_guard:
  assumes "w * n < 2 ^ 31" "0 < w" "0 < n" "j \<le> n"
  shows "(word_of_int (int (w * j) + int w) :: u64) > word_of_int (int (w * n)) \<longleftrightarrow> n \<le> j"
proof -
  have "w * j \<le> w * n" by (rule mult_le_mono2 [OF assms(4)])
  moreover have "w \<le> w * n" using assms(3) by (cases n) simp_all
  ultimately have "w * Suc j \<le> 2 * (w * n)" unfolding mult_Suc_right by linarith
  then have "w * Suc j < 2 * 2 ^ 31" "w * n < 2 * 2 ^ 31" using assms(1) by linarith+
  moreover have "(2 :: nat) * 2 ^ 31 < 2 ^ 64" by simp
  ultimately have b: "w * Suc j < 2 ^ 64" "w * n < 2 ^ 64" using less_trans by blast+
  have "(word_of_int (int (w * j) + int w) :: u64) = of_nat (w * Suc j)" by simp
  moreover have "(word_of_int (int (w * n)) :: u64) = of_nat (w * n)" by (simp only: of_int_of_nat_eq)
  moreover have "unat (of_nat (w * Suc j) :: u64) = w * Suc j" "unat (of_nat (w * n) :: u64) = w * n"
    using b by (simp_all only: unat_of_nat take_bit_nat_eq_self len_bit0 len_num1) simp_all
  ultimately have "(word_of_int (int (w * j) + int w) :: u64) > word_of_int (int (w * n)) \<longleftrightarrow> w * n < w * Suc j"
    by (simp only: word_less_nat_alt)
  moreover have "w * n < w * Suc j \<longleftrightarrow> n \<le> j" using assms(2) by (simp only: nat_mult_less_cancel_disj less_Suc_eq_le simp_thms)
  ultimately show ?thesis by (rule trans)
qed

lemma l_fs_write_step:
  assumes fs: "random_access fs content pos" and n: "0 < n" "0 < w" "w * n < 2 ^ 31"
    and lens: "\<forall>s\<in>set (frames @ [src]). length s = w" and m: "log_mode p \<noteq> SLOG_OTHER" and inv: "l_fs_holds content w n frames p"
  shows "\<exists>p'. l_fs_write fs src 0 p = (fst (l_fs_result (log_mode p) w n (length frames)), snd (l_fs_result (log_mode p) w n (length frames)), p') \<and>
    log_mode p' = log_mode p \<and> l_fs_holds content w n (frames @ [src]) p'"
proof -
  let ?mode = "as_log_mode (log_mode p)" and ?m = "length frames" and ?ss = "kept (as_log_mode (log_mode p)) n frames"
  have src: "length src = w" and ls: "\<forall>s\<in>set ?ss. length s = w" using lens set_kept [of ?mode n frames] by auto
  have p: "initialized p" "width p = int w" "lsize p = word_of_int (int (w * n))" "content (lfile p) = concat ?ss"
      "wpos p = int (w * next_pos ?mode n ?m)" using inv by (simp_all add: l_fs_holds_def)
  have "?mode \<noteq> Growing" by (simp add: as_log_mode_def)
  then have "next_pos ?mode n ?m \<le> n" using next_pos_le [OF n(1), of ?mode ?m] by (simp add: min_def split: if_splits)
  note guard = size_guard [OF n(3,2,1) this]
  let ?s = "p\<lparr>lfile := snd (fs_sync fs (lfile p))\<rparr>"
  have sync: "content (lfile ?s) = concat ?ss" using fs p(4) by (simp add: random_access_def)
  show ?thesis
  proof (cases "log_mode p = SLOG_ONCE")
    case True
    then have np: "next_pos ?mode n ?m = min n ?m" by (simp add: as_log_mode_def next_pos_def)
    show ?thesis
    proof (cases "?m < n")
      case True
      then have "l_fs_write fs src 0 p = l_fs_put fs src 0 p" using p(1,2,3,5) guard np by (simp add: l_fs_write_def)
      moreover obtain f where f: "l_fs_put fs src 0 p = (of_nat w, 0, p\<lparr>lfile := f, wpos := int (w * Suc ?m)\<rparr>)"
          "content f = concat (?ss @ [src])"
        using l_fs_put_slot [OF fs ls src, of ?m p 0] p(4,5) np True \<open>log_mode p = SLOG_ONCE\<close> by (auto simp: length_kept as_log_mode_def)
      moreover have "?ss @ [src] = kept ?mode n (frames @ [src])" "next_pos ?mode n (Suc ?m) = Suc ?m"
        using True \<open>log_mode p = SLOG_ONCE\<close> by (simp_all add: as_log_mode_def kept_def next_pos_def)
      ultimately show ?thesis using True p(1-3) by (simp add: l_fs_result_def l_fs_holds_def distrib_left)
    next
      case False
      then have "l_fs_write fs src 0 p = (0, - ENOSPC, ?s)"
        using p(1,2,3,5) guard np \<open>log_mode p = SLOG_ONCE\<close> by (simp add: l_fs_write_def Let_def)
      moreover have "kept ?mode n (frames @ [src]) = ?ss" "next_pos ?mode n (Suc ?m) = next_pos ?mode n ?m"
        using False \<open>log_mode p = SLOG_ONCE\<close> by (simp_all add: as_log_mode_def kept_def next_pos_def)
      ultimately show ?thesis using False p sync \<open>log_mode p = SLOG_ONCE\<close> by (simp add: l_fs_result_def l_fs_holds_def)
    qed
  next
    case False
    then have circ: "log_mode p = SLOG_CIRC" using m by (cases "log_mode p") simp_all
    then have mode: "?mode = Circular" by (simp add: as_log_mode_def)
    let ?k = "?m mod n"
    let ?p = "if n \<le> next_pos Circular n ?m then ?s\<lparr>wpos := 0\<rparr> else p"
    have "l_fs_write fs src 0 p = l_fs_put fs src 0 ?p"
      using p(1,2,3,5) guard circ mode by (simp add: l_fs_write_def Let_def)
    moreover have "content (lfile ?p) = concat ?ss" "wpos ?p = int (w * ?k)"
      using p(4,5) sync circular_slot [OF n(1), of ?m] mode by (simp_all split: if_splits)
    moreover have le: "?k \<le> length ?ss" "?k < length ?ss \<longleftrightarrow> n \<le> ?m"
      using n(1) mode mod_less_divisor [OF n(1), of ?m] by (cases "?m < n"; simp add: length_kept)+
    ultimately obtain f where f: "l_fs_write fs src 0 p = (of_nat w, 0, ?p\<lparr>lfile := f, wpos := int (w * Suc ?k)\<rparr>)"
        "content f = concat (if ?k < length ?ss then ?ss[?k := src] else ?ss @ [src])"
      using l_fs_put_slot [OF fs ls src le(1), of ?p 0] by auto
    have "content f = concat (kept ?mode n (frames @ [src]))"
      using f(2) le(2) kept_snoc [OF n(1), of frames src] mode by simp
    then show ?thesis using f(1) p(1-3) circ mode next_pos_circular [OF n(1), of ?m]
      by (simp add: l_fs_result_def l_fs_holds_def distrib_left)
  qed
qed

lemma l_fs_run_holds:
  assumes fs: "random_access fs content pos" and n: "0 < n" "0 < w" "w * n < 2 ^ 31"
    and m: "log_mode p \<noteq> SLOG_OTHER" and inv: "l_fs_holds content w n [] p" and lens: "\<forall>s\<in>set frames. length s = w"
  shows "\<exists>p'. l_fs_run fs frames p = (map (l_fs_result (log_mode p) w n) [0..<length frames], p') \<and>
    log_mode p' = log_mode p \<and> l_fs_holds content w n frames p'"
  using lens
proof (induction frames rule: rev_induct)
  case Nil
  then show ?case using inv by simp
next
  case (snoc src frames)
  then obtain p1 where 1: "l_fs_run fs frames p = (map (l_fs_result (log_mode p) w n) [0..<length frames], p1)"
    "log_mode p1 = log_mode p" "l_fs_holds content w n frames p1" by auto
  obtain p2 where "l_fs_write fs src 0 p1 = (fst (l_fs_result (log_mode p1) w n (length frames)), snd (l_fs_result (log_mode p1) w n (length frames)), p2)"
    "log_mode p2 = log_mode p1" "l_fs_holds content w n (frames @ [src]) p2"
    using l_fs_write_step [OF fs n snoc.prems _ 1(3)] 1(2) m by auto
  then show ?case using 1 by (simp add: l_fs_run_append)
qed

lemma l_fs_read_frame:
  assumes fs: "random_access fs content pos" and n: "0 < n" "0 < w" "w * n < 2 ^ 31"
    and ss: "content (lfile p) = concat ss" "\<forall>s\<in>set ss. length s = w" "i < length ss" "length ss \<le> n"
    and p: "initialized p" "width p = int w" "lsize p = word_of_int (int (w * n))"
  shows "\<exists>p'. l_fs_read fs (int i) p = (of_nat w, ss ! i, p')"
proof -
  have "\<not> (word_of_int (int (w * i) + int w) :: u64) > word_of_int (int (w * n))"
    using size_guard [OF n(3,2,1), of i] ss(3,4) by simp
  moreover have "int i * width p = int (w * i)" using p(2) by simp
  moreover have take_len: "length (concat (take k ss)) = w * k" if "k \<le> length ss" for k
    using that ss(2) by (induction k) (auto simp: take_Suc_conv_app_nth)
  moreover have c: "concat ss = concat (take i ss) @ ss ! i @ concat (drop (Suc i) ss)"
    using ss(3) by (metis append_take_drop_id concat.simps(2) concat_append Cons_nth_drop_Suc)
  moreover have len: "w * i \<le> length (content (lfile p))" using take_len [of i] ss(1,3) c by simp
  moreover obtain r f1 where f1: "fs_seek fs (int (w * i)) (lfile p) = (r, f1)" "0 \<le> r" "content f1 = concat ss" "pos f1 = w * i"
    using fs len ss(1) unfolding random_access_def by (metis prod.collapse)
  moreover have "take w (drop (w * i) (concat ss)) = ss ! i" using take_len [of i] c ss(2,3) by simp
  moreover have "length (ss ! i) = w" using ss(2,3) by simp
  ultimately have "take w (drop (pos f1) (content f1)) = ss ! i" "length (ss ! i) = w" by simp_all
  then obtain f2 where "fs_read fs w f1 = (int w, ss ! i, f2)" using fs unfolding random_access_def by metis
  then show ?thesis using f1(1,2) p \<open>\<not> _ > _\<close> \<open>int i * width p = _\<close> by (simp add: l_fs_read_def Let_def mult.commute)
qed

subsection \<open>Properties of the log\<close>

text \<open>
  C21: a log of \<open>n\<close> frames in a new file keeps what its mode promises: written once, the first \<open>n\<close>
  frames; as a ring, in slot \<open>i\<close> the last frame whose number is \<open>i\<close> modulo \<open>n\<close>. Every write that
  is kept returns the width, the surplus ones of a log written once return 0 and the flag \<open>-ENOSPC\<close>, and
  every kept frame is read back by its index.
\<close>

theorem l_fs_log_keeps:
  assumes "random_access fs content pos" "mode \<noteq> SLOG_OTHER" "0 < n" "0 < w" "w * n < 2 ^ 31" "\<forall>s\<in>set frames. length s = w"
    and "fs_open fs filename (FS_O_CREATE OR FS_O_RDWR) f0 = (0, f)" "content f = []"
    and "l_fs_init fs (l_fs_create_file filename (int w) (int n) mode f0) = (ret, p)"
  shows "\<exists>p'. ret = 0 \<and> l_fs_run fs frames p = (map (l_fs_result mode w n) [0..<length frames], p') \<and>
    content (lfile p') = concat (kept (as_log_mode mode) n frames) \<and>
    (\<forall>i < length (kept (as_log_mode mode) n frames). \<exists>p''. l_fs_read fs (int i) p' = (of_nat w, kept (as_log_mode mode) n frames ! i, p''))"
proof -
  have g: "\<not> (word_of_int (int (w * n)) :: u64) < word_of_int (int w)"
    using size_guard [OF assms(5,4,3), of 0] assms(3) by simp
  have m: "as_log_mode mode = FixedSize \<or> as_log_mode mode = Circular" by (simp add: as_log_mode_def)
  have p: "ret = 0" "log_mode p = mode" "l_fs_holds content w n [] p"
    using assms(7-9) g m by (auto simp: l_fs_init_def l_fs_create_file_def l_fs_holds_def kept_def next_pos_def Let_def)
  obtain p' where p': "l_fs_run fs frames p = (map (l_fs_result mode w n) [0..<length frames], p')" "log_mode p' = mode"
      "l_fs_holds content w n frames p'"
    using l_fs_run_holds [OF assms(1,3-5) _ p(3) assms(6)] assms(2) p(2) by auto
  let ?ss = "kept (as_log_mode mode) n frames"
  have ss: "content (lfile p') = concat ?ss" "\<forall>s\<in>set ?ss. length s = w" "length ?ss \<le> n"
    using p'(2,3) assms(6) set_kept [of "as_log_mode mode" n frames] m by (auto simp: l_fs_holds_def length_kept)
  have "\<exists>p''. l_fs_read fs (int i) p' = (of_nat w, ?ss ! i, p'')" if "i < length ?ss" for i
    using l_fs_read_frame [OF assms(1,3-5) ss(1,2) that ss(3)] p'(3) by (simp add: l_fs_holds_def)
  then show ?thesis using p(1) p'(1) ss(1) by blast
qed

text \<open>A file in memory with random access.\<close>

definition memory_disk :: "(nat, nat list \<times> nat) fs_ops" where
  "memory_disk = memory_file\<lparr>fs_open := \<lambda>_ _ f. (0, [], 0)\<rparr>"

lemma memory_disk_access: "random_access memory_disk fst snd"
  by (auto simp: random_access_def memory_disk_def memory_file_def behaves_as_file_def)

theorem l_fs_log_keeps_witness:
  "\<exists>p'. l_fs_run memory_disk [[1, 1], [2, 2], [3, 3]]
      (snd (l_fs_init memory_disk (l_fs_create_file ''log'' 2 2 SLOG_CIRC ([], 0)))) = ([(2, 0), (2, 0), (2, 0)], p') \<and>
    fst (lfile p') = [3, 3, 2, 2]"
proof -
  have k: "kept Circular 2 [[1, 1], [2, 2], [3, 3 :: nat]] = [[3, 3], [2, 2]]"
    by (simp add: kept_def last_in_slot_def numeral_2_eq_2)
  have r: "map (l_fs_result SLOG_CIRC 2 2) [0..<length [[1, 1], [2, 2], [3, 3 :: nat]]] = [(2, 0), (2, 0), (2, 0)]"
    by (simp add: l_fs_result_def)
  show ?thesis
    using l_fs_log_keeps [OF memory_disk_access, of SLOG_CIRC 2 2 "[[1, 1], [2, 2], [3, 3]]" "''log''" "([], 0)" "([], 0)" _
        "snd (l_fs_init memory_disk (l_fs_create_file ''log'' 2 2 SLOG_CIRC ([], 0)))"] k r
    by (auto simp: as_log_mode_def memory_disk_def prod_eq_iff)
qed

subsection \<open>Boots\<close>

lemma boot_le32_roundtrip: "of_le32 (le32 w) = w"
proof -
  have e: "of_le32 (le32 w) = ucast (ucast w :: u8) OR push_bit 8 (ucast (ucast (drop_bit 8 w) :: u8)) OR
      push_bit 16 (ucast (ucast (drop_bit 16 w) :: u8)) OR push_bit 24 (ucast (ucast (drop_bit 24 w) :: u8))"
    by (simp add: of_le32_def le32_def)
  show ?thesis unfolding e
  proof (rule bit_word_eqI)
    fix n assume n: "n < LENGTH(32)"
    consider "n < 8" | "8 \<le> n" "n < 16" | "16 \<le> n" "n < 24" | "24 \<le> n" by linarith
    then show "bit (ucast (ucast w :: u8) OR push_bit 8 (ucast (ucast (drop_bit 8 w) :: u8)) OR
      push_bit 16 (ucast (ucast (drop_bit 16 w) :: u8)) OR push_bit 24 (ucast (ucast (drop_bit 24 w) :: u8)) :: u32) n = bit w n"
      using n by cases (auto simp: bit_simps)
  qed
qed

lemma length_le32: "length (le32 w) = 4"
  by (simp add: le32_def)

text \<open>
  The documented behaviour of the calls on the file of the counter: \<open>present\<close> says whether it
  exists, opening starts at its beginning and creates it on demand.
\<close>

definition boot_file :: "(u8, 'f) fs_ops \<Rightarrow> ('f \<Rightarrow> u8 list) \<Rightarrow> ('f \<Rightarrow> nat) \<Rightarrow> ('f \<Rightarrow> bool) \<Rightarrow> bool" where
  "boot_file fs content pos present \<longleftrightarrow>
     random_access fs content pos \<and>
     (\<forall>f. (fst (fs_stat fs boot_count_fname f) < 0) = (\<not> present f)) \<and>
     (\<forall>f flags. present f \<or> flags = FS_O_RDWR OR FS_O_CREATE \<longrightarrow>
        (\<exists>f'. fs_open fs boot_count_fname flags f = (0, f') \<and> content f' = (if present f then content f else []) \<and> pos f' = 0 \<and> present f')) \<and>
     (\<forall>bytes f. present (snd (fs_write fs bytes f)) = present f) \<and>
     (\<forall>k f. present (snd (fs_seek fs k f)) = present f) \<and>
     (\<forall>n f. present (snd (snd (fs_read fs n f))) = present f) \<and>
     (\<forall>f. \<exists>f'. fs_close fs f = (0, f') \<and> content f' = content f \<and> present f' = present f)"

text \<open>
  A boot with \<open>m\<close> checks, which share the static variable, and boots with the number of checks of each: the
  static variable is false again when a boot begins. The results are listed boot by boot.
\<close>

fun boot_checks :: "(u8, 'f) fs_ops \<Rightarrow> nat \<Rightarrow> bool \<times> 'f \<Rightarrow> int list \<times> bool \<times> 'f" where
  "boot_checks fs 0 bf = ([], bf)"
| "boot_checks fs (Suc m) bf =
     (case l_fs_boot_count_check fs bf of (r, bf) \<Rightarrow> case boot_checks fs m bf of (rs, bf) \<Rightarrow> (r # rs, bf))"

fun boots :: "(u8, 'f) fs_ops \<Rightarrow> nat list \<Rightarrow> 'f \<Rightarrow> int list list \<times> 'f" where
  "boots fs [] f = ([], f)"
| "boots fs (m # ms) f =
     (case boot_checks fs m (False, f) of (rs, _, f) \<Rightarrow> case boots fs ms f of (rss, f) \<Rightarrow> (rs # rss, f))"

lemma boot_checks_again: "boot_checks fs m (True, f) = (replicate m (- EALREADY), True, f)"
  by (induction m) (simp_all add: l_fs_boot_count_check_def)

lemma boot_once:
  assumes fs: "boot_file fs content pos present" and c: "present f \<longrightarrow> content f = le32 k"
  shows "\<exists>f'. l_fs_boot_count_check fs (False, f) = (sint ((if present f then k else 0) + 1 :: u32), True, f') \<and>
    content f' = le32 ((if present f then k else 0) + 1) \<and> present f'"
proof -
  let ?k = "(if present f then k else 0) + 1 :: u32"
  let ?flags = "if present f then FS_O_RDWR else FS_O_RDWR OR FS_O_CREATE"
  have ra: "random_access fs content pos" "behaves_as_file fs content pos" using fs by (simp_all add: boot_file_def random_access_def)
  have st: "(fst (fs_stat fs boot_count_fname f) < 0) = (\<not> present f)" using fs by (simp add: boot_file_def)
  have op: "\<exists>f'. fs_open fs boot_count_fname flags g = (0, f') \<and> content f' = (if present g then content g else []) \<and> pos f' = 0 \<and> present f'"
    if "present g \<or> flags = FS_O_RDWR OR FS_O_CREATE" for g flags
    using fs that unfolding boot_file_def by (elim conjE) (drule spec, drule spec, erule mp)
  obtain f1 where f1: "fs_open fs boot_count_fname ?flags f = (0, f1)" "content f1 = (if present f then le32 k else [])" "pos f1 = 0" "present f1"
    using op [of f ?flags] c by (cases "present f") auto
  have wr: "\<exists>g'. fs_write fs bytes g = (int (length bytes), g') \<and> content g' = overwrite (pos g) bytes (content g) \<and>
      pos g' = pos g + length bytes \<and> present g' = present g" if "pos g \<le> length (content g)" for bytes g
  proof -
    have "present (snd (fs_write fs bytes g)) = present g" using fs by (simp add: boot_file_def)
    moreover have "fst (fs_write fs bytes g) = int (length bytes) \<and> content (snd (fs_write fs bytes g)) = overwrite (pos g) bytes (content g) \<and>
        pos (snd (fs_write fs bytes g)) = pos g + length bytes"
      using ra(2) that unfolding behaves_as_file_def by blast
    ultimately show ?thesis by (cases "fs_write fs bytes g") simp
  qed
  obtain f2 where f2: "(if present f then (0, f1) else fs_write fs (le32 0) f1) = (if present f then 0 else 4, f2)"
      "content f2 = (if present f then le32 k else le32 0)" "pos f2 = (if present f then 0 else 4)" "present f2"
  proof (cases "present f")
    case True
    then show ?thesis using f1 by (intro that [of f1]) simp_all
  next
    case False
    then show ?thesis using wr [of f1 "le32 0"] f1 that by (auto simp: length_le32 overwrite_def)
  qed
  obtain f3 where f3: "fs_read fs 4 f2 = (int (length (take 4 (drop (pos f2) (content f2)))), take 4 (drop (pos f2) (content f2)), f3)"
      "content f3 = content f2" "present f3"
  proof -
    obtain g where g: "fs_read fs 4 f2 = (int (length (take 4 (drop (pos f2) (content f2)))), take 4 (drop (pos f2) (content f2)), g)"
        "content g = content f2" using ra(1) unfolding random_access_def by blast
    have "present (snd (snd (fs_read fs 4 f2))) = present f2" using fs by (simp add: boot_file_def)
    then show thesis using that g f2(4) by simp
  qed
  have bytes: "take 4 (drop (pos f2) (content f2)) = (if present f then le32 k else [])"
    using f2(2,3) by (simp add: length_le32)
  obtain r f4 where f4: "fs_seek fs 0 f3 = (r, f4)" "0 \<le> r" "content f4 = content f2" "pos f4 = 0" "present f4"
  proof -
    have "0 \<le> fst (fs_seek fs (int 0) f3)" "content (snd (fs_seek fs (int 0) f3)) = content f3 \<and> pos (snd (fs_seek fs (int 0) f3)) = 0"
      using ra(1) unfolding random_access_def by blast+
    moreover have "present (snd (fs_seek fs 0 f3)) = present f3" using fs by (simp add: boot_file_def)
    ultimately show thesis using that [of "fst (fs_seek fs 0 f3)" "snd (fs_seek fs 0 f3)"] f3(2,3) by simp
  qed
  obtain f5 where f5: "fs_write fs (le32 ?k) f4 = (4, f5)" "content f5 = le32 ?k" "present f5"
    using wr [of f4 "le32 ?k"] f4(3-5) f2(2) by (auto simp: length_le32 overwrite_def)
  obtain f6 where f6: "fs_close fs f5 = (0, f6)" "content f6 = le32 ?k" "present f6"
  proof -
    have "\<exists>f'. fs_close fs f5 = (0, f') \<and> content f' = content f5 \<and> present f' = present f5" using fs by (simp add: boot_file_def)
    then show thesis using that f5(2,3) by auto
  qed
  have k: "of_le32 ((if present f then le32 k else []) @ drop (length (if present f then le32 k else [])) (le32 0)) + 1 = ?k"
    by (simp add: boot_le32_roundtrip length_le32)
  have "\<not> r < 0" using f4(2) by simp
  then have "l_fs_boot_count_check fs (False, f) = (sint ?k, True, f6)"
    using st f1(1) f2(1) f3(1) f4(1) f5(1) f6(1) k
    by (cases "present f") (simp_all add: l_fs_boot_count_check_def Let_def bytes del: boot_le32_roundtrip)
  then show ?thesis using f6(2,3) by blast
qed

lemma boots_from:
  assumes "boot_file fs content pos present" "present f \<longleftrightarrow> 0 < k" "present f \<longrightarrow> content f = le32 (of_nat k)"
    "\<forall>m \<in> set ms. 0 < m" "k + length ms < 2 ^ 31"
  shows "\<exists>f'. boots fs ms f = (map (\<lambda>i. int (k + Suc i) # replicate (ms ! i - 1) (- EALREADY)) [0..<length ms], f') \<and>
    (present f' \<longleftrightarrow> 0 < k + length ms) \<and> (present f' \<longrightarrow> content f' = le32 (of_nat (k + length ms)))"
  using assms(2-5)
proof (induction ms arbitrary: f k)
  case Nil
  then show ?case by simp
next
  case (Cons m ms)
  obtain m' where m: "m = Suc m'" using Cons.prems(3) by (cases m) auto
  have k: "(if present f then of_nat k else 0) + 1 = (of_nat (Suc k) :: u32)" using Cons.prems(1) by simp
  have s: "sint (of_nat (Suc k) :: u32) = int (Suc k)" using Cons.prems(4) by (intro sint_count) simp
  obtain f1 where f1: "l_fs_boot_count_check fs (False, f) = (int (Suc k), True, f1)" "content f1 = le32 (of_nat (Suc k))" "present f1"
    using boot_once [OF assms(1) Cons.prems(2)] unfolding k s by blast
  have b: "boot_checks fs m (False, f) = (int (Suc k) # replicate (m - 1) (- EALREADY), True, f1)"
    by (simp add: m f1(1) boot_checks_again)
  obtain f' where f': "boots fs ms f1 = (map (\<lambda>i. int (Suc k + Suc i) # replicate (ms ! i - 1) (- EALREADY)) [0..<length ms], f')"
      "present f' \<longleftrightarrow> 0 < Suc k + length ms" "present f' \<longrightarrow> content f' = le32 (of_nat (Suc k + length ms))"
    using Cons.IH [of f1 "Suc k"] f1(2,3) Cons.prems(3,4) by auto
  have "[0..<length (m # ms)] = 0 # map Suc [0..<length ms]" by (simp only: list.size(4) add_Suc_right add_0_right upt_conv_Cons [OF zero_less_Suc] map_Suc_upt One_nat_def)
  then have "map (\<lambda>i. int (k + Suc i) # replicate ((m # ms) ! i - 1) (- EALREADY)) [0..<length (m # ms)] =
      (int (Suc k) # replicate (m - 1) (- EALREADY)) # map (\<lambda>i. int (Suc k + Suc i) # replicate (ms ! i - 1) (- EALREADY)) [0..<length ms]"
    by (simp del: upt_Suc)
  then show ?case using b f' by simp
qed

text \<open>
  C22: the counter counts the boots: when its file does not exist at first, boot number \<open>n\<close> finds or creates it, its first check
  returns \<open>n\<close> and stores \<open>n\<close>; every further check in the same boot fails and touches nothing.
\<close>

theorem boot_count_counts:
  assumes "boot_file fs content pos present" "\<not> present f" "\<forall>m \<in> set ms. 0 < m" "length ms < 2 ^ 31"
  shows "\<exists>f'. boots fs ms f = (map (\<lambda>i. int (Suc i) # replicate (ms ! i - 1) (- EALREADY)) [0..<length ms], f') \<and>
    (ms \<noteq> [] \<longrightarrow> present f' \<and> content f' = le32 (of_nat (length ms)))"
  using boots_from [OF assms(1), of f 0 ms] assms(2-4) by auto

text \<open>A disk for this file (does it exist, its bytes, the position), for the witness.\<close>

definition boot_disk :: "(u8, bool \<times> u8 list \<times> nat) fs_ops" where
  "boot_disk = \<lparr>fs_open = \<lambda>_ flags (e, c, p).
       if e then (0, True, c, 0) else if flags = FS_O_RDWR OR FS_O_CREATE then (0, True, [], 0) else (-2, e, c, p),
     fs_close = \<lambda>f. (0, f),
     fs_write = \<lambda>bytes (e, c, p). (int (length bytes), e, overwrite p bytes c, p + length bytes),
     fs_read = \<lambda>n (e, c, p). let bytes = take n (drop p c) in (int (length bytes), bytes, e, c, p + length bytes),
     fs_seek = \<lambda>k (e, c, p). (0, e, c, nat k), fs_tell = \<lambda>(e, c, p). int p, fs_sync = \<lambda>f. (0, f),
     fs_stat = \<lambda>_ (e, c, p). (if e then 0 else -2, 0)\<rparr>"

lemma boot_disk_ok: "boot_file boot_disk (\<lambda>(e, c, p). c) (\<lambda>(e, c, p). p) (\<lambda>(e, c, p). e)"
  by (auto simp: boot_file_def random_access_def behaves_as_file_def boot_disk_def Let_def)

theorem boot_count_counts_witness: "\<exists>f'. boots boot_disk [1, 3, 2] (False, [], 0) = ([[1], [2, - 120, - 120], [3, - 120]], f')"
proof -
  have "[0..<3] = [0, 1, 2]" by (simp add: upt_rec)
  then show ?thesis using boot_count_counts [OF boot_disk_ok, of "(False, [], 0)" "[1, 3, 2]"]
    by (auto simp: EALREADY_def numeral_3_eq_3 simp del: upt_Suc)
qed

end
