(* ===== verification/Grim_Data.thy ===== *)
theory Grim_Data
  imports Grim_Boost Classic_Fs
begin

text \<open>
  Data of the Grim Reefer payload (\<open>data_reading.c\<close>, \<open>data_storage.c\<close>, \<open>cmds.c\<close>, the saved
  buffers of \<open>boost_detect.c\<close>): the threads that read, the thread that stores, the shell
  command that prints a file. A turn of a reading thread gives the message it puts in its queue; a round
  of the storage thread takes what the polled queues give, at most one message of each.
\<close>

subsection \<open>Reading\<close>

record adc_data =
  adc_timestamp :: u32
  adc_value :: "u32 list"

record 'a slow_data =
  sd_timestamp :: u32
  sd_humidity :: 'a
  sd_temperature :: 'a
  sd_grim :: "u16 \<times> u16"
  sd_load_cell :: "u16 \<times> u16"
  sd_bat :: "u16 \<times> u16"

text \<open>
  \<open>adc_sequence\<close> is the set-up and the read of the channel, given what the buffer holds;
  \<open>ina260_data\<close> is current and bus voltage in the data of a driver.
\<close>

record ('h, 'a) reader_os = "('h, 'a) grim_os" +
  adc_sequence :: "u32 \<Rightarrow> 'h \<Rightarrow> u32 \<times> 'h"
  ina260_data :: "nat \<Rightarrow> 'h \<Rightarrow> u16 \<times> u16"

record adc_reader =
  ar_reading :: u32
  ar_data :: adc_data
  ar_count :: nat

definition adc_reader_start :: "u32 \<Rightarrow> adc_reader" where
  "adc_reader_start reading = \<lparr>ar_reading = reading, ar_data = \<lparr>adc_timestamp = 0, adc_value = replicate 10 0\<rparr>, ar_count = 0\<rparr>"

definition adc_reading_turn :: "('h, 'a) reader_os \<Rightarrow> adc_reader \<times> 'h \<Rightarrow> adc_data option \<times> adc_reader \<times> 'h" where
  "adc_reading_turn io rh =
     (case rh of (r, h) \<Rightarrow>
      let (reading, h) = adc_sequence io (ar_reading r) h;
          data = (if ar_count r = 0 then (ar_data r)\<lparr>adc_timestamp := ucast (k_uptime_get io h)\<rparr> else ar_data r);
          data = data\<lparr>adc_value := (adc_value data)[ar_count r := reading]\<rparr>;
          count = ar_count r + 1
      in if count = 10 then (Some data, \<lparr>ar_reading = reading, ar_data = data, ar_count = 0\<rparr>, h)
         else (None, \<lparr>ar_reading = reading, ar_data = data, ar_count = count\<rparr>, h))"

definition fast_reading_turn :: "('h, 'a::zero) reader_os \<Rightarrow> nat \<Rightarrow> nat \<Rightarrow> 'a fast_data \<times> 'h \<Rightarrow> 'a fast_data \<times> 'h" where
  "fast_reading_turn io imu altim dh =
     (case dh of (data, h) \<Rightarrow>
      let ts = ucast (k_uptime_get io h);
          h = snd (sensor_sample_fetch (sensors io) imu h);
          h = snd (sensor_sample_fetch (sensors io) altim h);
          (acc, h) = read_axes (grim_os.truncate io) imu accel_chans h;
          (gyro, h) = read_axes (grim_os.truncate io) imu gyro_chans h;
          (_, press, h) = read_channel_to_float (grim_os.truncate io) altim SENSOR_CHAN_PRESS h
      in (\<lparr>fd_timestamp = ts, fd_acc = acc, fd_gyro = gyro, fd_pressure = press\<rparr>, h))"

definition slow_reading_turn :: "('h, 'a) reader_os \<Rightarrow> nat \<Rightarrow> nat \<Rightarrow> nat \<Rightarrow> nat \<Rightarrow> 'h \<Rightarrow> 'a slow_data \<times> 'h" where
  "slow_reading_turn io altim ina_adc ina_grim ina_bat h =
     (let ts = ucast (k_uptime_get io h);
          h = snd (sensor_sample_fetch (sensors io) ina_adc h);
          h = snd (sensor_sample_fetch (sensors io) ina_grim h);
          h = snd (sensor_sample_fetch (sensors io) ina_bat h);
          (_, humidity, h) = read_channel_to_float (grim_os.truncate io) altim SENSOR_CHAN_HUMIDITY h;
          (_, temperature, h) = read_channel_to_float (grim_os.truncate io) altim SENSOR_CHAN_AMBIENT_TEMP h
      in (\<lparr>sd_timestamp = ts, sd_humidity = humidity, sd_temperature = temperature, sd_grim = ina260_data io ina_grim h,
          sd_load_cell = ina260_data io ina_adc h, sd_bat = ina260_data io ina_bat h\<rparr>, h))"

text \<open>The analogue thread for \<open>n\<close> expiries of its timer: the messages, in order.\<close>

fun adc_reading_task :: "('h, 'a) reader_os \<Rightarrow> nat \<Rightarrow> adc_reader \<times> 'h \<Rightarrow> adc_data list \<times> adc_reader \<times> 'h" where
  "adc_reading_task io 0 rh = ([], rh)"
| "adc_reading_task io (Suc n) rh =
     (case adc_reading_task io n rh of
        (ms, rh) \<Rightarrow> case adc_reading_turn io rh of (m, rh) \<Rightarrow> (case m of None \<Rightarrow> ms | Some m \<Rightarrow> ms @ [m], rh))"

text \<open>A reading, with the time after it.\<close>

definition adc_sample :: "('h, 'a) reader_os \<Rightarrow> u32 \<times> 'h \<Rightarrow> (u32 \<times> u32) \<times> u32 \<times> 'h" where
  "adc_sample io bh =
     (case bh of (b, h) \<Rightarrow> case adc_sequence io b h of (reading, h) \<Rightarrow> ((reading, ucast (k_uptime_get io h)), reading, h))"

definition adc_block :: "(u32 \<times> u32) list \<Rightarrow> adc_data" where
  "adc_block rs = \<lparr>adc_timestamp = snd (hd rs), adc_value = map fst rs\<rparr>"

lemma take_upd: "m < length xs \<Longrightarrow> take (Suc m) (xs[m := v]) = take m xs @ [v]"
  by (simp add: take_Suc_conv_app_nth)

lemma adc_turn_step:
  assumes r: "length (adc_value (ar_data r)) = 10" "ar_count r = m" "m < 10"
    and v: "adc_sample io (ar_reading r, h) = ((reading, t), reading', h')"
  shows "\<exists>d. adc_reading_turn io (r, h) = (if m = 9 then Some d else None, \<lparr>ar_reading = reading', ar_data = d, ar_count = Suc m mod 10\<rparr>, h') \<and>
    length (adc_value d) = 10 \<and> take (Suc m) (adc_value d) = take m (adc_value (ar_data r)) @ [reading] \<and>
    adc_timestamp d = (if m = 0 then t else adc_timestamp (ar_data r))"
proof -
  let ?d0 = "if m = 0 then (ar_data r)\<lparr>adc_timestamp := t\<rparr> else ar_data r"
  let ?d = "?d0\<lparr>adc_value := (adc_value ?d0)[m := reading]\<rparr>"
  have "adc_sequence io (ar_reading r) h = (reading, h') \<and> t = ucast (k_uptime_get io h') \<and> reading' = reading"
    using v by (auto simp: adc_sample_def split: prod.splits)
  then have "adc_reading_turn io (r, h) = (if m = 9 then Some ?d else None, \<lparr>ar_reading = reading', ar_data = ?d, ar_count = Suc m mod 10\<rparr>, h')"
    using r by (auto simp: adc_reading_turn_def Let_def)
  moreover have "length (adc_value ?d) = 10" "adc_timestamp ?d = (if m = 0 then t else adc_timestamp (ar_data r))" using r by simp_all
  moreover have "take (Suc m) (adc_value ?d) = take m (adc_value (ar_data r)) @ [reading]"
    using r take_upd [of m "adc_value (ar_data r)" reading] by (cases "m = 0") simp_all
  ultimately show ?thesis by blast
qed

text \<open>What the task holds after \<open>n = 10 * q + m\<close> readings.\<close>

definition adc_holds :: "(u32 \<times> u32) list \<Rightarrow> nat \<Rightarrow> nat \<Rightarrow> adc_data list \<Rightarrow> adc_reader \<Rightarrow> bool" where
  "adc_holds rs q m ms r \<longleftrightarrow>
     length rs = 10 * q + m \<and> m < 10 \<and> ms = map (\<lambda>k. adc_block (take 10 (drop (10 * k) rs))) [0..<q] \<and> ar_count r = m \<and>
     length (adc_value (ar_data r)) = 10 \<and> take m (adc_value (ar_data r)) = map fst (drop (10 * q) rs) \<and>
     (m \<noteq> 0 \<longrightarrow> adc_timestamp (ar_data r) = snd (rs ! (10 * q)))"

lemma adc_holds_step:
  assumes inv: "adc_holds rs q m ms r" and v: "adc_sample io (ar_reading r, h) = ((reading, t), reading', h')"
  shows "\<exists>msg r'. adc_reading_turn io (r, h) = (msg, r', h') \<and> ar_reading r' = reading' \<and>
    adc_holds (rs @ [(reading, t)]) (if m = 9 then Suc q else q) (if m = 9 then 0 else Suc m) (case msg of None \<Rightarrow> ms | Some x \<Rightarrow> ms @ [x]) r'"
proof -
  have i: "length rs = 10 * q + m" "m < 10" "ms = map (\<lambda>k. adc_block (take 10 (drop (10 * k) rs))) [0..<q]" "ar_count r = m"
      "length (adc_value (ar_data r)) = 10" "take m (adc_value (ar_data r)) = map fst (drop (10 * q) rs)"
      "m \<noteq> 0 \<Longrightarrow> adc_timestamp (ar_data r) = snd (rs ! (10 * q))"
    using inv by (simp_all add: adc_holds_def)
  obtain d where d: "adc_reading_turn io (r, h) = (if m = 9 then Some d else None, \<lparr>ar_reading = reading', ar_data = d, ar_count = Suc m mod 10\<rparr>, h')"
      "length (adc_value d) = 10" "take (Suc m) (adc_value d) = take m (adc_value (ar_data r)) @ [reading]"
      "adc_timestamp d = (if m = 0 then t else adc_timestamp (ar_data r))"
    using adc_turn_step [OF i(5,4,2) v] by blast
  let ?rs = "rs @ [(reading, t)]"
  have old: "map (\<lambda>k. adc_block (take 10 (drop (10 * k) ?rs))) [0..<q] = ms" unfolding i(3) using i(1) by (intro map_cong) auto
  have vals: "take (Suc m) (adc_value d) = map fst (drop (10 * q) ?rs)" using d(3) i(1,6) by simp
  have ts: "adc_timestamp d = snd (?rs ! (10 * q))" using d(4) i(1,7) by (auto simp: nth_append)
  show ?thesis
  proof (cases "m = 9")
    case True
    have "adc_value d = map fst (drop (10 * q) ?rs)" using vals d(2) True by simp
    moreover have "hd (drop (10 * q) ?rs) = ?rs ! (10 * q)" using i(1) by (subst hd_drop_conv_nth) simp_all
    ultimately have "d = adc_block (take 10 (drop (10 * q) ?rs))"
      using ts i(1) True by (simp add: adc_block_def)
    then show ?thesis using True d(1,2) i(1) old by (simp add: adc_holds_def)
  next
    case False
    then show ?thesis using d(1,2) i(1,2) old vals ts by (simp add: adc_holds_def)
  qed
qed

lemma adc_task_holds:
  "\<exists>ms r h'. adc_reading_task io n (adc_reader_start b, h) = (ms, r, h') \<and> (ar_reading r, h') = hw_after (adc_sample io) n (b, h) \<and>
     adc_holds (samples (adc_sample io) n (b, h)) (n div 10) (n mod 10) ms r"
proof (induction n)
  case 0
  then show ?case by (simp add: adc_reader_start_def hw_after_def samples_def adc_holds_def)
next
  case (Suc n)
  then obtain ms r h' where r: "adc_reading_task io n (adc_reader_start b, h) = (ms, r, h')" "(ar_reading r, h') = hw_after (adc_sample io) n (b, h)"
    "adc_holds (samples (adc_sample io) n (b, h)) (n div 10) (n mod 10) ms r" by blast
  obtain reading t reading' h2 where v: "adc_sample io (ar_reading r, h') = ((reading, t), reading', h2)" by (metis prod.exhaust)
  obtain msg r' where s: "adc_reading_turn io (r, h') = (msg, r', h2)" "ar_reading r' = reading'"
      "adc_holds (samples (adc_sample io) n (b, h) @ [(reading, t)]) (if n mod 10 = 9 then Suc (n div 10) else n div 10)
         (if n mod 10 = 9 then 0 else Suc (n mod 10)) (case msg of None \<Rightarrow> ms | Some x \<Rightarrow> ms @ [x]) r'"
    using adc_holds_step [OF r(3) v] by blast
  have "Suc n div 10 = (if n mod 10 = 9 then Suc (n div 10) else n div 10)" "Suc n mod 10 = (if n mod 10 = 9 then 0 else Suc (n mod 10))"
    by (simp_all add: div_Suc mod_Suc)
  then show ?case using r(1) s v by (simp add: samples_Suc hw_after_Suc r(2) [symmetric])
qed

text \<open>
  In \<open>n\<close> expiries the analogue thread sends \<open>n div 10\<close> messages: each reading is in exactly one, ten in each, in order,
  stamped with the time of the first of the ten; readings that do not fill a message are not sent.
\<close>

theorem adc_messages:
  "fst (adc_reading_task io n (adc_reader_start b, h)) =
     map (\<lambda>k. adc_block (take 10 (drop (10 * k) (samples (adc_sample io) n (b, h))))) [0..<n div 10]"
  using adc_task_holds [of io n b h] by (auto simp: adc_holds_def)

subsection \<open>Storing\<close>

datatype control_event = BEGIN_STORAGE | FINISH_STORAGE

definition FAST_FILENAME :: string where "FAST_FILENAME = ''/lfs/fast.bin''"
definition SLOW_FILENAME :: string where "SLOW_FILENAME = ''/lfs/slow.bin''"
definition ADC_FILENAME :: string where "ADC_FILENAME = ''/lfs/adc.bin''"
definition PRELAUNCH_ACCEL_FILENAME :: string where "PRELAUNCH_ACCEL_FILENAME = ''/lfs/pre_imu.bin''"
definition PRELAUNCH_ALT_FILENAME :: string where "PRELAUNCH_ALT_FILENAME = ''/lfs/pre_altitude.bin''"

text \<open>The bytes of the messages are a parameter each.\<close>

record ('c, 'a) encodings =
  fast_bytes :: "'a fast_data \<Rightarrow> 'c list"
  slow_bytes :: "'a slow_data \<Rightarrow> 'c list"
  adc_bytes :: "adc_data \<Rightarrow> 'c list"
  altitude_bytes :: "'a altitude_data \<Rightarrow> 'c list"

record 'f storage =
  fast_file :: 'f
  slow_file :: 'f
  adc_file :: 'f
  last_event :: control_event

definition open_for_write :: "('c, 'f) fs_ops \<Rightarrow> string \<Rightarrow> 'f \<Rightarrow> int \<times> 'f" where
  "open_for_write fs filename f = fs_open fs filename (FS_O_WRITE OR FS_O_CREATE) f"

text \<open>\<open>OPEN_OR_FAIL\<close> three times: the flag is the event that is posted.\<close>

definition storage_open :: "('c, 'f) fs_ops \<Rightarrow> 'f storage \<Rightarrow> bool \<times> 'f storage" where
  "storage_open fs s =
     (case open_for_write fs FAST_FILENAME (fast_file s) of
        (ret, f) \<Rightarrow>
          let s = s\<lparr>fast_file := f\<rparr> in
          if ret < 0 then (False, s)
          else case open_for_write fs SLOW_FILENAME (slow_file s) of
            (ret, f) \<Rightarrow>
              let s = s\<lparr>slow_file := f\<rparr> in
              if ret < 0 then (False, s)
              else case open_for_write fs ADC_FILENAME (adc_file s) of
                (ret, f) \<Rightarrow> (\<not> ret < 0, s\<lparr>adc_file := f\<rparr>))"

definition store :: "('c, 'f) fs_ops \<Rightarrow> ('m \<Rightarrow> 'c list) \<Rightarrow> 'm option \<Rightarrow> 'f \<Rightarrow> 'f" where
  "store fs bytes m f = (case m of None \<Rightarrow> f | Some m \<Rightarrow> snd (fs_write fs (bytes m) f))"

text \<open>
  A round after \<open>k_poll\<close>; the flag says that the loop is left. The state of the control event is never
  reset, so later rounds read the queue again: then the variable keeps its value.
\<close>

type_synonym 'a round_input = "'a slow_data option \<times> adc_data option \<times> 'a fast_data option \<times> control_event option"

definition storage_round :: "('c, 'f) fs_ops \<Rightarrow> ('c, 'a) encodings \<Rightarrow> 'a round_input \<Rightarrow> 'f storage \<Rightarrow> bool \<times> 'f storage" where
  "storage_round fs enc inp s =
     (case inp of (slow, adc, fast, event) \<Rightarrow>
      let s = s\<lparr>slow_file := store fs (slow_bytes enc) slow (slow_file s)\<rparr>;
          s = s\<lparr>adc_file := store fs (adc_bytes enc) adc (adc_file s)\<rparr>;
          s = s\<lparr>fast_file := store fs (fast_bytes enc) fast (fast_file s)\<rparr>;
          s = (case event of None \<Rightarrow> s | Some e \<Rightarrow> s\<lparr>last_event := e\<rparr>)
      in (last_event s = FINISH_STORAGE, s))"

fun storage_rounds :: "('c, 'f) fs_ops \<Rightarrow> ('c, 'a) encodings \<Rightarrow> 'a round_input list \<Rightarrow> 'f storage \<Rightarrow> bool \<times> 'f storage" where
  "storage_rounds fs enc [] s = (False, s)"
| "storage_rounds fs enc (inp # inps) s =
     (case storage_round fs enc inp s of (end_loop, s) \<Rightarrow> if end_loop then (True, s) else storage_rounds fs enc inps s)"

definition storage_close :: "('c, 'f) fs_ops \<Rightarrow> 'f storage \<Rightarrow> 'f storage" where
  "storage_close fs s =
     (let s = s\<lparr>fast_file := snd (fs_close fs (fast_file s))\<rparr>;
          s = s\<lparr>slow_file := snd (fs_close fs (slow_file s))\<rparr>
      in s\<lparr>adc_file := snd (fs_close fs (adc_file s))\<rparr>)"

text \<open>The result is the event posted after the files are opened, \<open>None\<close> while the thread waits to begin.\<close>

definition storage_thread_entry_point ::
  "('c, 'f) fs_ops \<Rightarrow> ('c, 'a) encodings \<Rightarrow> control_event list \<Rightarrow> 'a round_input list \<Rightarrow> 'f storage \<Rightarrow> bool option \<times> 'f storage" where
  "storage_thread_entry_point fs enc controls inputs s =
     (if BEGIN_STORAGE \<notin> set controls then (None, s)
      else case storage_open fs (s\<lparr>last_event := BEGIN_STORAGE\<rparr>) of
        (opened, s) \<Rightarrow>
          if \<not> opened then (Some False, s)
          else case storage_rounds fs enc inputs s of
            (ended, s) \<Rightarrow> (Some True, if ended then storage_close fs s else s))"

text \<open>\<open>k_event_wait\<close> gives which of the two events was posted.\<close>

definition start_data_storage_thread :: "(control_event \<Rightarrow> 'h \<Rightarrow> 'h) \<Rightarrow> ('h \<Rightarrow> bool \<times> 'h) \<Rightarrow> 'h \<Rightarrow> int \<times> 'h" where
  "start_data_storage_thread control_put setup_finished h =
     (case setup_finished (control_put BEGIN_STORAGE h) of (success, h) \<Rightarrow> (if \<not> success then -1 else 0, h))"

definition finish_data_storage :: "(control_event \<Rightarrow> 'h \<Rightarrow> 'h) \<Rightarrow> (int \<Rightarrow> 'h \<Rightarrow> 'h) \<Rightarrow> 'h \<Rightarrow> 'h" where
  "finish_data_storage control_put k_msleep h = k_msleep 1000 (control_put FINISH_STORAGE h)"

definition save_full_buffer :: "('c, 'f) fs_ops \<Rightarrow> 'c list \<Rightarrow> string \<Rightarrow> 'f \<Rightarrow> 'f" where
  "save_full_buffer fs data filename f =
     (case open_for_write fs filename f of
        (ret, f) \<Rightarrow> if ret < 0 then f else snd (fs_close fs (snd (fs_write fs data f))))"

text \<open>The arrays as they are, from index 0, each into its file.\<close>

definition save_boost_data :: "('c, 'f) fs_ops \<Rightarrow> ('c, 'a) encodings \<Rightarrow> 'a boost \<Rightarrow> 'f \<Rightarrow> 'f" where
  "save_boost_data fs enc b f =
     (let f = save_full_buffer fs (concat (map (fast_bytes enc) (fst (accel_ring b)))) PRELAUNCH_ACCEL_FILENAME f
      in save_full_buffer fs (concat (map (altitude_bytes enc) (fst (altitude_ring b)))) PRELAUNCH_ALT_FILENAME f)"

text \<open>The rounds up to the first that ends the loop.\<close>

fun until_finish :: "'a round_input list \<Rightarrow> 'a round_input list" where
  "until_finish [] = []"
| "until_finish (inp # inps) = (if snd (snd (snd inp)) = Some FINISH_STORAGE then [inp] else inp # until_finish inps)"

definition stored :: "('m \<Rightarrow> 'c list) \<Rightarrow> 'm option list \<Rightarrow> 'c list" where
  "stored bytes ms = concat (map (\<lambda>m. case m of None \<Rightarrow> [] | Some m \<Rightarrow> bytes m) ms)"

lemma stored_Cons: "stored bytes (m # ms) = (case m of None \<Rightarrow> [] | Some m \<Rightarrow> bytes m) @ stored bytes ms"
  by (simp add: stored_def)

text \<open>A file that was opened at its start holding \<open>old\<close> and has had \<open>bytes\<close> written.\<close>

definition written :: "('f \<Rightarrow> 'c list) \<Rightarrow> ('f \<Rightarrow> nat) \<Rightarrow> 'c list \<Rightarrow> 'c list \<Rightarrow> 'f \<Rightarrow> bool" where
  "written content pos old bytes f \<longleftrightarrow> pos f = length bytes \<and> content f = bytes @ drop (length bytes) old"

lemma store_written:
  assumes "behaves_as_file fs content pos" "written content pos old bs f"
  shows "written content pos old (bs @ (case m of None \<Rightarrow> [] | Some m \<Rightarrow> bytes m)) (store fs bytes m f)"
proof (cases m)
  case (Some x)
  have p: "pos f = length bs" "content f = bs @ drop (length bs) old" using assms(2) by (simp_all add: written_def)
  then have "pos f \<le> length (content f)" by simp
  then have "content (snd (fs_write fs (bytes x) f)) = overwrite (pos f) (bytes x) (content f)" "pos (snd (fs_write fs (bytes x) f)) = pos f + length (bytes x)"
    using assms(1) unfolding behaves_as_file_def by blast+
  then show ?thesis using p Some by (simp add: store_def written_def overwrite_def add.commute)
qed (use assms(2) in \<open>simp add: store_def\<close>)

text \<open>Documented behaviour of the file system: opening for writing without truncation, at the start, and closing.\<close>

definition storage_fs :: "('c, 'f) fs_ops \<Rightarrow> ('f \<Rightarrow> 'c list) \<Rightarrow> ('f \<Rightarrow> nat) \<Rightarrow> bool" where
  "storage_fs fs content pos \<longleftrightarrow>
     behaves_as_file fs content pos \<and>
     (\<forall>name flags f. fst (fs_open fs name flags f) = 0 \<and> content (snd (fs_open fs name flags f)) = content f \<and> pos (snd (fs_open fs name flags f)) = 0) \<and>
     (\<forall>f. content (snd (fs_close fs f)) = content f)"

definition storage_holds ::
  "('f \<Rightarrow> 'c list) \<Rightarrow> ('f \<Rightarrow> nat) \<Rightarrow> 'f storage \<Rightarrow> 'c list \<times> 'c list \<times> 'c list \<Rightarrow> 'f storage \<Rightarrow> bool" where
  "storage_holds content pos s0 bs s \<longleftrightarrow>
     (case bs of (slow, adc, fast) \<Rightarrow>
        written content pos (content (slow_file s0)) slow (slow_file s) \<and> written content pos (content (adc_file s0)) adc (adc_file s) \<and>
        written content pos (content (fast_file s0)) fast (fast_file s))"

lemma storage_open_holds:
  assumes "storage_fs fs content pos"
  shows "\<exists>s'. storage_open fs (s\<lparr>last_event := BEGIN_STORAGE\<rparr>) = (True, s') \<and> storage_holds content pos s ([], [], []) s' \<and> last_event s' = BEGIN_STORAGE"
proof -
  have "\<exists>f'. open_for_write fs name f = (0, f') \<and> content f' = content f \<and> pos f' = 0" for name f
    using assms unfolding storage_fs_def open_for_write_def by (metis prod.collapse)
  then obtain f1 f2 f3 where "open_for_write fs FAST_FILENAME (fast_file s) = (0, f1)" "content f1 = content (fast_file s)" "pos f1 = 0"
      "open_for_write fs SLOW_FILENAME (slow_file s) = (0, f2)" "content f2 = content (slow_file s)" "pos f2 = 0"
      "open_for_write fs ADC_FILENAME (adc_file s) = (0, f3)" "content f3 = content (adc_file s)" "pos f3 = 0" by metis
  then show ?thesis by (simp add: storage_open_def Let_def storage_holds_def written_def)
qed

lemma storage_rounds_hold:
  assumes "storage_fs fs content pos" "storage_holds content pos s0 (slow, adc, fast) s" "last_event s = BEGIN_STORAGE"
  shows "case storage_rounds fs enc inputs s of (ended, s') \<Rightarrow>
    ended = (\<exists>inp \<in> set inputs. snd (snd (snd inp)) = Some FINISH_STORAGE) \<and>
    storage_holds content pos s0
      (slow @ stored (slow_bytes enc) (map fst (until_finish inputs)), adc @ stored (adc_bytes enc) (map (\<lambda>i. fst (snd i)) (until_finish inputs)),
       fast @ stored (fast_bytes enc) (map (\<lambda>i. fst (snd (snd i))) (until_finish inputs))) s'"
  using assms(2,3)
proof (induction inputs arbitrary: slow adc fast s)
  case Nil
  then show ?case by (simp add: stored_def)
next
  case (Cons inp inputs)
  obtain sl ad fa ev where inp: "inp = (sl, ad, fa, ev)" by (metis prod_cases4)
  obtain e s1 where r: "storage_round fs enc inp s = (e, s1)" by fastforce
  have b: "behaves_as_file fs content pos" using assms(1) by (simp add: storage_fs_def)
  have h: "storage_holds content pos s0 (slow @ stored (slow_bytes enc) [sl], adc @ stored (adc_bytes enc) [ad], fast @ stored (fast_bytes enc) [fa]) s1"
    using r Cons.prems(1) store_written [OF b, where m = sl] store_written [OF b, where m = ad] store_written [OF b, where m = fa]
    by (auto simp: inp storage_round_def Let_def storage_holds_def stored_def split: option.splits)
  have e: "e \<longleftrightarrow> ev = Some FINISH_STORAGE" "\<not> e \<Longrightarrow> last_event s1 = BEGIN_STORAGE"
    using r Cons.prems(2) by (auto simp: inp storage_round_def Let_def split: option.splits) (metis control_event.exhaust)
  show ?case
  proof (cases e)
    case True
    then show ?thesis using r h e(1) inp by simp
  next
    case False
    then show ?thesis using r Cons.IH [OF h e(2)] e(1) inp by (auto simp: stored_Cons stored_def split: prod.splits)
  qed
qed

text \<open>
  C25: once told to begin, on a file system with room, the storage thread writes into the three files exactly the messages it was
  given, in order, each file its own, up to the round in which it is told to finish, messages of that
  round included; then the files are closed. What an older and longer file held past the new end is still there.
\<close>

theorem storage_keeps_messages:
  assumes "storage_fs fs content pos" "BEGIN_STORAGE \<in> set controls"
  shows "case storage_thread_entry_point fs enc controls inputs s of (posted, s') \<Rightarrow>
    let slow = stored (slow_bytes enc) (map fst (until_finish inputs));
        adc = stored (adc_bytes enc) (map (\<lambda>i. fst (snd i)) (until_finish inputs));
        fast = stored (fast_bytes enc) (map (\<lambda>i. fst (snd (snd i))) (until_finish inputs))
    in posted = Some True \<and> content (slow_file s') = slow @ drop (length slow) (content (slow_file s)) \<and>
       content (adc_file s') = adc @ drop (length adc) (content (adc_file s)) \<and>
       content (fast_file s') = fast @ drop (length fast) (content (fast_file s))"
proof -
  obtain s1 where s1: "storage_open fs (s\<lparr>last_event := BEGIN_STORAGE\<rparr>) = (True, s1)" "storage_holds content pos s ([], [], []) s1"
      "last_event s1 = BEGIN_STORAGE" using storage_open_holds [OF assms(1), of s] by blast
  obtain ended s2 where s2: "storage_rounds fs enc inputs s1 = (ended, s2)" by fastforce
  have "content (snd (fs_close fs f)) = content f" for f using assms(1) by (simp add: storage_fs_def)
  then show ?thesis using storage_rounds_hold [OF assms(1) s1(2,3), where enc = enc and inputs = inputs] s1(1) s2 assms(2)
    by (simp add: storage_thread_entry_point_def storage_holds_def written_def storage_close_def Let_def)
qed

definition grim_disk :: "(nat, nat list \<times> nat) fs_ops" where
  "grim_disk = memory_file\<lparr>fs_open := \<lambda>_ _ (c, _). (0, c, 0)\<rparr>"

lemma grim_disk_ok: "storage_fs grim_disk fst snd"
  by (auto simp: storage_fs_def grim_disk_def memory_file_def behaves_as_file_def)

definition number_encodings :: "(nat, rat) encodings" where
  "number_encodings = \<lparr>fast_bytes = \<lambda>d. [unat (fd_timestamp d)], slow_bytes = \<lambda>d. [unat (sd_timestamp d)],
     adc_bytes = \<lambda>d. [unat (adc_timestamp d)], altitude_bytes = \<lambda>d. [unat (ad_timestamp d)]\<rparr>"

theorem storage_keeps_messages_witness:
  "fst (adc_file (snd (storage_thread_entry_point grim_disk number_encodings [BEGIN_STORAGE]
      [(None, Some \<lparr>adc_timestamp = 5, adc_value = []\<rparr>, None, None), (None, Some \<lparr>adc_timestamp = 6, adc_value = []\<rparr>, None, Some FINISH_STORAGE),
       (None, Some \<lparr>adc_timestamp = 7, adc_value = []\<rparr>, None, None)]
      \<lparr>fast_file = ([], 0), slow_file = ([], 0), adc_file = ([1, 2, 3], 0), last_event = BEGIN_STORAGE\<rparr>))) = [5, 6, 3]"
  using storage_keeps_messages [OF grim_disk_ok, where controls = "[BEGIN_STORAGE]" and enc = number_encodings and
      inputs = "[(None, Some \<lparr>adc_timestamp = 5, adc_value = []\<rparr>, None, None), (None, Some \<lparr>adc_timestamp = 6, adc_value = []\<rparr>, None, Some FINISH_STORAGE),
       (None, Some \<lparr>adc_timestamp = 7, adc_value = []\<rparr>, None, None)]" and
      s = "\<lparr>fast_file = ([], 0), slow_file = ([], 0), adc_file = ([1, 2, 3], 0), last_event = BEGIN_STORAGE\<rparr>"]
  by (simp add: stored_def number_encodings_def split: prod.splits)

subsection \<open>Printing a file\<close>

definition B64_PER_LINE :: nat where "B64_PER_LINE = 72"

text \<open>
  \<open>base64_encode\<close> gives a result and the text it leaves in the buffer. The lines printed are in
  order; an error leaves the file open.
\<close>

partial_function (option) dump_loop ::
  "('c, 'f) fs_ops \<Rightarrow> ('c list \<Rightarrow> int \<times> string) \<Rightarrow> string list \<Rightarrow> 'f \<Rightarrow> (int \<times> string list \<times> 'f) option" where
  "dump_loop fs base64_encode printed f =
     (case fs_read fs B64_PER_LINE f of
        (read, bytes, f) \<Rightarrow>
          if read < 0 then Some (-1, printed, f)
          else case base64_encode bytes of
            (ret, line) \<Rightarrow>
              if ret < 0 then Some (ret, printed, f)
              else if read = int B64_PER_LINE then dump_loop fs base64_encode (printed @ [line]) f
              else Some (0, printed @ [line], snd (fs_close fs f)))"

definition dump_base64 :: "('c, 'f) fs_ops \<Rightarrow> ('c list \<Rightarrow> int \<times> string) \<Rightarrow> string \<Rightarrow> 'f \<Rightarrow> (int \<times> string list \<times> 'f) option" where
  "dump_base64 fs base64_encode filename f =
     (case fs_open fs filename FS_O_READ f of (ret, f) \<Rightarrow> if ret < 0 then Some (ret, [], f) else dump_loop fs base64_encode [] f)"

definition SEPARATOR :: string where "SEPARATOR = ''********''"

text \<open>The files to dump, one after the other, with a separator between; \<open>argv\<close> are the words of the command.\<close>

fun dump_files :: "('c, 'f) fs_ops \<Rightarrow> ('c list \<Rightarrow> int \<times> string) \<Rightarrow> string list \<Rightarrow> 'f \<Rightarrow> (string list \<times> 'f) option" where
  "dump_files fs enc [] f = Some ([], f)"
| "dump_files fs enc (name # names) f =
     Option.bind (dump_base64 fs enc name f) (\<lambda>(_, lines, f).
       if names = [] then Some (lines, f)
       else map_option (\<lambda>(more, f). (lines @ [SEPARATOR] @ more, f)) (dump_files fs enc names f))"

definition all_files :: "string list" where
  "all_files = [SLOW_FILENAME, FAST_FILENAME, ADC_FILENAME, PRELAUNCH_ACCEL_FILENAME, PRELAUNCH_ALT_FILENAME]"

definition cmd_dump_file :: "('c, 'f) fs_ops \<Rightarrow> ('c list \<Rightarrow> int \<times> string) \<Rightarrow> string list \<Rightarrow> 'f \<Rightarrow> (int \<times> string list \<times> 'f) option" where
  "cmd_dump_file fs enc argv f =
     (if length argv < 1 then Some (-1, [''usage: grim dump filename: dump specific file'', ''usage: grim dump: dump all files''], f)
      else if length argv = 1 then map_option (\<lambda>(lines, f). (0, lines, f)) (dump_files fs enc all_files f)
      else map_option (\<lambda>(_, lines, f). (0, lines, f)) (dump_base64 fs enc (argv ! 1) f))"

text \<open>The lines of a file: pieces of 72 bytes and a last piece that is shorter, perhaps empty.\<close>

fun pieces :: "'c list \<Rightarrow> 'c list list" where
  "pieces xs = (if length xs < 72 then [xs] else take 72 xs # pieces (drop 72 xs))"

declare pieces.simps [simp del]

lemma concat_pieces: "concat (pieces xs) = xs"
proof (induction xs rule: pieces.induct)
  case (1 xs)
  then show ?case by (subst pieces.simps) (simp split: if_splits)
qed

lemma dump_loop_pieces:
  assumes fs: "random_access fs content pos" and enc: "\<And>bytes. 0 \<le> fst (enc bytes)"
  shows "pos f \<le> length (content f) \<Longrightarrow>
    \<exists>f'. dump_loop fs enc printed f = Some (0, printed @ map (\<lambda>p. snd (enc p)) (pieces (drop (pos f) (content f))), snd (fs_close fs f')) \<and>
      content f' = content f"
proof (induction "length (content f) - pos f" arbitrary: f printed rule: less_induct)
  case less
  let ?rest = "drop (pos f) (content f)"
  obtain f1 where f1: "fs_read fs B64_PER_LINE f = (int (length (take 72 ?rest)), take 72 ?rest, f1)" "content f1 = content f"
      "pos f1 = pos f + length (take 72 ?rest)"
    using fs unfolding random_access_def B64_PER_LINE_def by (metis (mono_tags, lifting))
  have e: "enc bytes = (r, line) \<Longrightarrow> \<not> r < 0" for bytes r line using enc [of bytes] by simp
  show ?case
  proof (cases "length ?rest < 72")
    case True
    then have "dump_loop fs enc printed f = Some (0, printed @ [snd (enc ?rest)], snd (fs_close fs f1))"
      using f1(1) e by (subst dump_loop.simps) (auto simp: B64_PER_LINE_def dest: e split: prod.splits)
    then show ?thesis using True f1(2) by (subst pieces.simps) auto
  next
    case False
    then have p: "pos f1 = pos f + 72" "pos f1 \<le> length (content f1)" "length (content f1) - pos f1 < length (content f) - pos f"
      using f1(2,3) by simp_all
    have "dump_loop fs enc printed f = dump_loop fs enc (printed @ [snd (enc (take 72 ?rest))]) f1"
      using f1(1) e False by (subst dump_loop.simps) (auto simp: B64_PER_LINE_def dest: e split: prod.splits)
    moreover have "pieces ?rest = take 72 ?rest # pieces (drop (pos f1) (content f1))"
      using False p(1) f1(2) by (subst pieces.simps) (simp add: add.commute)
    ultimately show ?thesis using less.hyps [OF p(3,2), where printed = "printed @ [snd (enc (take 72 ?rest))]"] f1(2) by auto
  qed
qed

text \<open>
  Dumping a file always ends; it prints the encoding of every piece of 72 bytes of the file and of the rest, which
  together are the file, and the file keeps its content.
\<close>

theorem dump_prints_file:
  assumes "random_access fs content pos" "\<And>bytes. 0 \<le> fst (enc bytes)" "fs_open fs filename FS_O_READ f0 = (0, f)" "pos f = 0"
  shows "\<exists>f'. dump_base64 fs enc filename f0 = Some (0, map (\<lambda>p. snd (enc p)) (pieces (content f)), snd (fs_close fs f')) \<and>
    concat (pieces (content f)) = content f \<and> content f' = content f"
  using dump_loop_pieces [OF assms(1,2), where f = f and printed = "[]"] assms(3,4) by (simp add: dump_base64_def concat_pieces)

theorem dump_prints_file_witness:
  "\<exists>f'. dump_base64 memory_file (\<lambda>bytes. (0, replicate (length bytes) (CHR ''x''))) ''a.bin'' ([1, 2, 3], 0) = Some (0, [''xxx''], f')"
proof -
  have ra: "random_access memory_file fst snd"
    by (auto simp: random_access_def memory_file_def behaves_as_file_def)
  have "pieces [1, 2, 3 :: nat] = [[1, 2, 3]]" by (simp add: pieces.simps)
  then show ?thesis
    using dump_prints_file [OF ra, where enc = "\<lambda>bytes. (0, replicate (length bytes) (CHR ''x''))" and filename = "''a.bin''"
        and ?f0.0 = "([1, 2, 3], 0)" and f = "([1, 2, 3], 0)"]
    by (auto simp: memory_file_def)
qed

end
