(* ===== verification/Grim_Main.thy ===== *)
theory Grim_Main
  imports Grim_Data
begin

text \<open>
  \<open>main.c\<close> of the Grim Reefer payload: pins and devices, the three states of the flight, the main loop.
  The state machine framework of Zephyr is a parameter: four functions on the world, whose documented
  behaviour is \<open>smf_documented\<close>. The world is the framework's context, the variables of
  the program and the hardware \<open>'h\<close> with the kernel and the file system.
\<close>

subsection \<open>Pins and devices\<close>

datatype gpio = led1 | led2 | ldo_enable | cam_enable | buzzer

datatype grim_device = flash_dev | lsm6dsl_dev | bme280_dev | ina_bat_dev | ina_ldo_dev | ina_grim_dev | adc_chan0 | debug_serial_dev

datatype grim_timer =
  altitude_boost_detect_timer | accel_boost_detect_timer | battery_timer | adc_timer | fast_timer | slow_timer | flight_duration_timer | camera_extra_timer

datatype grim_event = BEGIN_BOOST_DETECT_EVENT | BEGIN_READING_EVENT

text \<open>Times are in microseconds. A timer runs once if its period is 0.\<close>

record ('h, 'a) main_os = "('h, 'a) reader_os" +
  gpio_ready :: "gpio \<Rightarrow> 'h \<Rightarrow> bool"
  gpio_configure :: "gpio \<Rightarrow> 'h \<Rightarrow> int \<times> 'h"
  gpio_set :: "gpio \<Rightarrow> int \<Rightarrow> 'h \<Rightarrow> 'h"
  dev_ready :: "grim_device \<Rightarrow> 'h \<Rightarrow> bool"
  adc_setup :: "'h \<Rightarrow> int \<times> 'h"
  k_timer_user_data_set :: "grim_timer \<Rightarrow> grim_device list \<Rightarrow> 'h \<Rightarrow> 'h"
  k_timer_start :: "grim_timer \<Rightarrow> nat \<Rightarrow> nat \<Rightarrow> 'h \<Rightarrow> 'h"
  k_timer_stop :: "grim_timer \<Rightarrow> 'h \<Rightarrow> 'h"
  k_timer_status_get :: "grim_timer \<Rightarrow> 'h \<Rightarrow> nat \<times> 'h"
  k_event_set :: "grim_event \<Rightarrow> 'h \<Rightarrow> 'h"
  begin_buzzer_thread :: "gpio \<Rightarrow> 'h \<Rightarrow> 'h"
  control_put :: "control_event \<Rightarrow> 'h \<Rightarrow> 'h"
  setup_finished :: "'h \<Rightarrow> bool \<times> 'h"

text \<open>\<open>CHECK_GPIO_OUTPUT\<close> on pins in order: \<open>None\<close> goes on.\<close>

fun check_gpio_outputs :: "('h, 'a) main_os \<Rightarrow> gpio list \<Rightarrow> 'h \<Rightarrow> int option \<times> 'h" where
  "check_gpio_outputs io [] h = (None, h)"
| "check_gpio_outputs io (g # gs) h =
     (if \<not> gpio_ready io g h then (Some (- ENODEV), h)
      else case gpio_configure io g h of (ret, h) \<Rightarrow> if ret < 0 then (Some (- ENODEV), h) else check_gpio_outputs io gs h)"

definition gpio_init :: "('h, 'a) main_os \<Rightarrow> 'h \<Rightarrow> int \<times> 'h" where
  "gpio_init io h =
     (case check_gpio_outputs io [led1, led2, ldo_enable, cam_enable, buzzer] h of
        (Some ret, h) \<Rightarrow> (ret, h)
      | (None, h) \<Rightarrow> (0, gpio_set io buzzer 0 (gpio_set io cam_enable 0 (gpio_set io ldo_enable 1 (gpio_set io led2 0 (gpio_set io led1 0 h))))))"

definition sensor_init :: "('h, 'a) main_os \<Rightarrow> 'h \<Rightarrow> int \<times> 'h" where
  "sensor_init io h =
     (if \<not> dev_ready io flash_dev h then (- EIO, h)
      else if \<not> dev_ready io lsm6dsl_dev h then (- ENODEV, h)
      else if \<not> dev_ready io bme280_dev h then (- ENODEV, h)
      else if \<not> dev_ready io ina_bat_dev h then (- ENODEV, h)
      else if \<not> dev_ready io ina_ldo_dev h then (- ENODEV, h)
      else if \<not> dev_ready io ina_grim_dev h then (- ENODEV, h)
      else if \<not> dev_ready io adc_chan0 h then (- ENODEV, h)
      else case adc_setup io h of
        (ret, h) \<Rightarrow> if ret < 0 then (- ENODEV, h) else if \<not> dev_ready io debug_serial_dev h then (- ENODEV, h) else (0, h))"

text \<open>A missing flash is told apart from a missing sensor, and success means that all were ready.\<close>

lemma sensor_init_result:
  "fst (sensor_init io h) = (if \<not> dev_ready io flash_dev h then - EIO
     else if dev_ready io lsm6dsl_dev h \<and> dev_ready io bme280_dev h \<and> dev_ready io ina_bat_dev h \<and> dev_ready io ina_ldo_dev h \<and>
       dev_ready io ina_grim_dev h \<and> dev_ready io adc_chan0 h \<and> 0 \<le> fst (adc_setup io h) \<and> dev_ready io debug_serial_dev (snd (adc_setup io h))
     then 0 else - ENODEV)"
  by (cases "adc_setup io h") (simp add: sensor_init_def not_le)

subsection \<open>The states\<close>

datatype flight_state = PAD_STATE | FLIGHT_STATE | LANDED_STATE

record ('c, 'h, 'a) grim_world =
  ctx :: 'c
  boost_vars :: "'a boost"
  flight_over :: bool
  gh :: 'h

text \<open>The calls of the framework, and those that let other threads run: sleeping and waiting for a timer.\<close>

record 'w smf =
  smf_set_initial :: "flight_state \<Rightarrow> 'w \<Rightarrow> 'w"
  smf_set_state :: "flight_state \<Rightarrow> 'w \<Rightarrow> 'w"
  smf_set_terminate :: "int \<Rightarrow> 'w \<Rightarrow> 'w"
  smf_run_state :: "'w \<Rightarrow> int \<times> 'w"
  k_msleep :: "int \<Rightarrow> 'w \<Rightarrow> 'w"
  k_timer_status_sync :: "grim_timer \<Rightarrow> 'w \<Rightarrow> 'w"

definition TOTAL_FLIGHT_TIME :: nat where "TOTAL_FLIGHT_TIME = 20000000"
definition CAMERA_EXTRA_TIME :: nat where "CAMERA_EXTRA_TIME = 5000000"
definition FAST_DATA_DELAY :: nat where "FAST_DATA_DELAY = 2000"
definition ALTIM_DATA_DELAY :: nat where "ALTIM_DATA_DELAY = 10000"
definition ADC_DATA_DELAY :: nat where "ADC_DATA_DELAY = 101"
definition SLOW_DATA_DELAY :: nat where "SLOW_DATA_DELAY = 1000000"

definition start_boost_detect :: "('h, 'a) main_os \<Rightarrow> grim_device \<Rightarrow> grim_device \<Rightarrow> grim_device \<Rightarrow> 'h \<Rightarrow> 'h" where
  "start_boost_detect io imu altimeter battery_ina h =
     (let h = k_timer_user_data_set io accel_boost_detect_timer [imu] h;
          h = k_timer_user_data_set io altitude_boost_detect_timer [altimeter] h;
          h = k_timer_user_data_set io battery_timer [battery_ina] h;
          h = k_timer_start io accel_boost_detect_timer FAST_DATA_DELAY FAST_DATA_DELAY h;
          h = k_timer_start io altitude_boost_detect_timer ALTIM_DATA_DELAY ALTIM_DATA_DELAY h;
          h = k_timer_start io battery_timer 1000000 1000000 h
      in k_event_set io BEGIN_BOOST_DETECT_EVENT h)"

definition stop_boost_detect :: "('h, 'a) main_os \<Rightarrow> 'h \<Rightarrow> 'h" where
  "stop_boost_detect io h =
     k_timer_stop io battery_timer (k_timer_stop io accel_boost_detect_timer (k_timer_stop io altitude_boost_detect_timer h))"

text \<open>The devices of the record \<open>data_devices\<close>, in the order of its fields.\<close>

definition data_devices :: "grim_device list" where
  "data_devices = [lsm6dsl_dev, bme280_dev, bme280_dev, ina_bat_dev, ina_grim_dev, ina_ldo_dev, adc_chan0]"

definition start_data_reading :: "('h, 'a) main_os \<Rightarrow> grim_device list \<Rightarrow> 'h \<Rightarrow> 'h" where
  "start_data_reading io devs h =
     (let h = k_timer_user_data_set io adc_timer devs h;
          h = k_timer_user_data_set io fast_timer devs h;
          h = k_timer_user_data_set io slow_timer devs h;
          h = k_timer_start io adc_timer ADC_DATA_DELAY ADC_DATA_DELAY h;
          h = k_timer_start io fast_timer FAST_DATA_DELAY FAST_DATA_DELAY h;
          h = k_timer_start io slow_timer SLOW_DATA_DELAY SLOW_DATA_DELAY h
      in k_event_set io BEGIN_READING_EVENT h)"

definition on_hw :: "('h \<Rightarrow> 'h) \<Rightarrow> ('c, 'h, 'a) grim_world \<Rightarrow> ('c, 'h, 'a) grim_world" where
  "on_hw f w = w\<lparr>gh := f (gh w)\<rparr>"

definition stop_data_reading :: "('h, 'a) main_os \<Rightarrow> ('c, 'h, 'a) grim_world smf \<Rightarrow> ('c, 'h, 'a) grim_world \<Rightarrow> ('c, 'h, 'a) grim_world" where
  "stop_data_reading io smf w =
     (let w = w\<lparr>flight_over := True\<rparr>;
          w = k_msleep smf 1000 w
      in on_hw (\<lambda>h. k_timer_stop io slow_timer (k_timer_stop io fast_timer (k_timer_stop io adc_timer h))) w)"

definition pad_state_entry :: "('h, 'a) main_os \<Rightarrow> ('c, 'h, 'a) grim_world \<Rightarrow> ('c, 'h, 'a) grim_world" where
  "pad_state_entry io w = on_hw (start_boost_detect io lsm6dsl_dev bme280_dev ina_bat_dev) w"

definition pad_state_run :: "('c, 'h, 'a) grim_world smf \<Rightarrow> ('c, 'h, 'a) grim_world \<Rightarrow> ('c, 'h, 'a) grim_world" where
  "pad_state_run smf w = (if get_boost_detected (boost_vars w) then smf_set_state smf FLIGHT_STATE w else w)"

definition pad_state_exit :: "('h, 'a) main_os \<Rightarrow> ('c, 'h, 'a) grim_world \<Rightarrow> ('c, 'h, 'a) grim_world" where
  "pad_state_exit io w = on_hw (stop_boost_detect io) w"

definition flight_state_entry ::
  "('h, 'a) main_os \<Rightarrow> ('b, 'h) fs_ops \<Rightarrow> ('b, 'a) encodings \<Rightarrow> ('c, 'h, 'a) grim_world \<Rightarrow> ('c, 'h, 'a) grim_world" where
  "flight_state_entry io fs enc w =
     (let w = on_hw (gpio_set io ldo_enable 1) w;
          w = on_hw (gpio_set io cam_enable 1) w;
          w = on_hw (buzzer_tell (grim_os.truncate io) buzzer_cond_launched) w;
          w = on_hw (k_timer_start io flight_duration_timer TOTAL_FLIGHT_TIME 0) w;
          w = on_hw (start_data_reading io data_devices) w
      in on_hw (save_boost_data fs enc (boost_vars w)) w)"

definition flight_state_run :: "('c, 'h, 'a) grim_world smf \<Rightarrow> ('c, 'h, 'a) grim_world \<Rightarrow> ('c, 'h, 'a) grim_world" where
  "flight_state_run smf w = smf_set_state smf LANDED_STATE (k_timer_status_sync smf flight_duration_timer w)"

definition flight_state_exit :: "('h, 'a) main_os \<Rightarrow> ('c, 'h, 'a) grim_world smf \<Rightarrow> ('c, 'h, 'a) grim_world \<Rightarrow> ('c, 'h, 'a) grim_world" where
  "flight_state_exit io smf w = stop_data_reading io smf (w\<lparr>flight_over := True\<rparr>)"

definition landed_state_entry :: "('h, 'a) main_os \<Rightarrow> ('c, 'h, 'a) grim_world smf \<Rightarrow> ('c, 'h, 'a) grim_world \<Rightarrow> ('c, 'h, 'a) grim_world" where
  "landed_state_entry io smf w =
     (let w = on_hw (k_timer_start io camera_extra_timer CAMERA_EXTRA_TIME 0) w;
          w = finish_data_storage (\<lambda>e. on_hw (control_put io e)) (k_msleep smf) w
      in on_hw (buzzer_tell (grim_os.truncate io) buzzer_cond_landed) w)"

definition landed_state_run :: "('h, 'a) main_os \<Rightarrow> ('c, 'h, 'a) grim_world smf \<Rightarrow> ('c, 'h, 'a) grim_world \<Rightarrow> ('c, 'h, 'a) grim_world" where
  "landed_state_run io smf w =
     (case k_timer_status_get io camera_extra_timer (gh w) of
        (n, h) \<Rightarrow> let w = w\<lparr>gh := h\<rparr> in if n > 0 then smf_set_terminate smf 1 w else w)"

text \<open>\<open>flight_states\<close>: entry, run and exit of each state.\<close>

fun state_entry where
  "state_entry io smf fs enc PAD_STATE w = pad_state_entry io w"
| "state_entry io smf fs enc FLIGHT_STATE w = flight_state_entry io fs enc w"
| "state_entry io smf fs enc LANDED_STATE w = landed_state_entry io smf w"

fun state_run where
  "state_run io smf PAD_STATE w = pad_state_run smf w"
| "state_run io smf FLIGHT_STATE w = flight_state_run smf w"
| "state_run io smf LANDED_STATE w = landed_state_run io smf w"

fun state_exit where
  "state_exit io smf PAD_STATE w = pad_state_exit io w"
| "state_exit io smf FLIGHT_STATE w = flight_state_exit io smf w"
| "state_exit io smf LANDED_STATE w = w"

subsection \<open>The main loop\<close>

definition main_turn :: "('c, 'h, 'a) grim_world smf \<Rightarrow> ('c, 'h, 'a) grim_world \<Rightarrow> int \<times> ('c, 'h, 'a) grim_world" where
  "main_turn smf w =
     (let w = (if flight_cancelled (boost_vars w) then smf_set_terminate smf 1 w else w)
      in smf_run_state smf w)"

partial_function (option) main_loop :: "('c, 'h, 'a) grim_world smf \<Rightarrow> ('c, 'h, 'a) grim_world \<Rightarrow> ('c, 'h, 'a) grim_world option" where
  "main_loop smf w =
     (case main_turn smf w of (ret, w) \<Rightarrow> if ret \<noteq> 0 then Some w else main_loop smf (k_msleep smf 1 w))"

text \<open>Everything before the state machine.\<close>

definition grim_setup :: "('h, 'a) main_os \<Rightarrow> 'h \<Rightarrow> 'h" where
  "grim_setup io h =
     (let tell = buzzer_tell (grim_os.truncate io);
          (ret, h) = gpio_init io h;
          h = (if ret \<noteq> 0 then tell buzzer_cond_missing_sensors h else h);
          (ret, h) = sensor_init io h;
          h = (if ret = - EIO then tell buzzer_cond_noflash h else if ret = - ENODEV then tell buzzer_cond_missing_sensors h else h);
          h = begin_buzzer_thread io led1 h;
          (ret, h) = start_data_storage_thread (control_put io) (setup_finished io) h
      in if ret \<noteq> 0 then tell buzzer_cond_noflash h else h)"

definition grim_main :: "('h, 'a) main_os \<Rightarrow> ('c, 'h, 'a) grim_world smf \<Rightarrow> ('c, 'h, 'a) grim_world \<Rightarrow> (int \<times> ('c, 'h, 'a) grim_world) option" where
  "grim_main io smf w =
     (let w = on_hw (grim_setup io) w;
          w = smf_set_initial smf PAD_STATE w
      in map_option (\<lambda>w. (0, on_hw (gpio_set io cam_enable 0) w)) (main_loop smf w))"

subsection \<open>Order of the flight\<close>

text \<open>
  The documented behaviour of the framework, for the table of states above: \<open>cur\<close> and \<open>term\<close> read the
  current state and the value of termination from the context. A change of state runs the exit and the entry at once,
  a terminated machine runs nothing. Threads that run while this one sleeps do not touch context and \<open>flight_over\<close>.
\<close>

definition smf_documented ::
  "('h, 'a) main_os \<Rightarrow> ('b, 'h) fs_ops \<Rightarrow> ('b, 'a) encodings \<Rightarrow> ('c, 'h, 'a) grim_world smf \<Rightarrow> ('c \<Rightarrow> flight_state) \<Rightarrow> ('c \<Rightarrow> int) \<Rightarrow> bool" where
  "smf_documented io fs enc smf cur term \<longleftrightarrow>
     (\<forall>s w. \<exists>c. cur c = s \<and> term c = 0 \<and> smf_set_initial smf s w = state_entry io smf fs enc s (w\<lparr>ctx := c\<rparr>)) \<and>
     (\<forall>s w. \<exists>c. cur c = s \<and> term c = term (ctx (state_exit io smf (cur (ctx w)) w)) \<and>
        smf_set_state smf s w = state_entry io smf fs enc s ((state_exit io smf (cur (ctx w)) w)\<lparr>ctx := c\<rparr>)) \<and>
     (\<forall>v w. \<exists>c. cur c = cur (ctx w) \<and> term c = v \<and> smf_set_terminate smf v w = w\<lparr>ctx := c\<rparr>) \<and>
     (\<forall>w. smf_run_state smf w =
        (if term (ctx w) \<noteq> 0 then (term (ctx w), w)
         else (term (ctx (state_run io smf (cur (ctx w)) w)), state_run io smf (cur (ctx w)) w))) \<and>
     (\<forall>ms w. ctx (k_msleep smf ms w) = ctx w \<and> flight_over (k_msleep smf ms w) = flight_over w) \<and>
     (\<forall>t w. ctx (k_timer_status_sync smf t w) = ctx w \<and> flight_over (k_timer_status_sync smf t w) = flight_over w)"

lemma smf_laws:
  assumes "smf_documented io fs enc smf cur term"
  shows smf_initial: "\<exists>c. cur c = s \<and> term c = 0 \<and> smf_set_initial smf s w = state_entry io smf fs enc s (w\<lparr>ctx := c\<rparr>)"
    and smf_change: "\<exists>c. cur c = s \<and> term c = term (ctx (state_exit io smf (cur (ctx w)) w)) \<and>
        smf_set_state smf s w = state_entry io smf fs enc s ((state_exit io smf (cur (ctx w)) w)\<lparr>ctx := c\<rparr>)"
    and smf_terminate: "\<exists>c. cur c = cur (ctx w) \<and> term c = v \<and> smf_set_terminate smf v w = w\<lparr>ctx := c\<rparr>"
    and smf_run: "smf_run_state smf w =
        (if term (ctx w) \<noteq> 0 then (term (ctx w), w)
         else (term (ctx (state_run io smf (cur (ctx w)) w)), state_run io smf (cur (ctx w)) w))"
    and smf_sleep: "ctx (k_msleep smf ms w) = ctx w" "flight_over (k_msleep smf ms w) = flight_over w"
    and smf_wait: "ctx (k_timer_status_sync smf t w) = ctx w" "flight_over (k_timer_status_sync smf t w) = flight_over w"
  using assms unfolding smf_documented_def by blast+

lemma on_hw_simps [simp]: "ctx (on_hw f w) = ctx w" "flight_over (on_hw f w) = flight_over w" "boost_vars (on_hw f w) = boost_vars w"
  by (simp_all add: on_hw_def)

text \<open>What entering and leaving a state does to context and \<open>flight_over\<close>.\<close>

lemma entry_effect:
  assumes "smf_documented io fs enc smf cur term"
  shows "ctx (state_entry io smf fs enc s w) = ctx w" "flight_over (state_entry io smf fs enc s w) = flight_over w"
  by (cases s; simp add: pad_state_entry_def flight_state_entry_def landed_state_entry_def finish_data_storage_def Let_def
      smf_sleep [OF assms])+

lemma exit_effect:
  assumes "smf_documented io fs enc smf cur term"
  shows "ctx (state_exit io smf s w) = ctx w" "flight_over (state_exit io smf s w) \<longleftrightarrow> flight_over w \<or> s = FLIGHT_STATE"
  by (cases s; simp add: pad_state_exit_def flight_state_exit_def stop_data_reading_def Let_def smf_sleep [OF assms])+

lemma change_effect:
  assumes "smf_documented io fs enc smf cur term"
  shows "cur (ctx (smf_set_state smf s w)) = s" "term (ctx (smf_set_state smf s w)) = term (ctx w)"
    "flight_over (smf_set_state smf s w) \<longleftrightarrow> flight_over w \<or> cur (ctx w) = FLIGHT_STATE"
proof -
  obtain c where "cur c = s" "term c = term (ctx (state_exit io smf (cur (ctx w)) w))"
      "smf_set_state smf s w = state_entry io smf fs enc s ((state_exit io smf (cur (ctx w)) w)\<lparr>ctx := c\<rparr>)"
    using smf_change [OF assms] by blast
  then show "cur (ctx (smf_set_state smf s w)) = s" "term (ctx (smf_set_state smf s w)) = term (ctx w)"
    "flight_over (smf_set_state smf s w) \<longleftrightarrow> flight_over w \<or> cur (ctx w) = FLIGHT_STATE"
    by (simp_all add: entry_effect [OF assms] exit_effect [OF assms])
qed

text \<open>A round of the main loop that goes on.\<close>

inductive grim_step :: "('c, 'h, 'a) grim_world smf \<Rightarrow> ('c, 'h, 'a) grim_world \<Rightarrow> ('c, 'h, 'a) grim_world \<Rightarrow> bool" for smf where
  turn: "main_turn smf w = (0, w') \<Longrightarrow> grim_step smf w (k_msleep smf 1 w')"

inductive_cases grim_stepE: "grim_step smf w w'"

text \<open>The states the flight can be in next.\<close>

fun flight_next :: "flight_state \<Rightarrow> bool \<Rightarrow> flight_state" where
  "flight_next PAD_STATE boost = (if boost then FLIGHT_STATE else PAD_STATE)"
| "flight_next FLIGHT_STATE boost = LANDED_STATE"
| "flight_next LANDED_STATE boost = LANDED_STATE"

lemma grim_step_effect:
  assumes smf: "smf_documented io fs enc smf cur term" and step: "grim_step smf w w'"
  shows "\<not> flight_cancelled (boost_vars w)" "cur (ctx w') = flight_next (cur (ctx w)) (boost_detected (boost_vars w))"
    "flight_over w' \<longleftrightarrow> flight_over w \<or> cur (ctx w) = FLIGHT_STATE"
proof -
  obtain w1 where w1: "main_turn smf w = (0, w1)" "w' = k_msleep smf 1 w1" using step by (rule grim_stepE)
  show nc: "\<not> flight_cancelled (boost_vars w)"
  proof
    assume "flight_cancelled (boost_vars w)"
    moreover obtain c where "term c = 1" "smf_set_terminate smf 1 w = w\<lparr>ctx := c\<rparr>" using smf_terminate [OF smf] by blast
    ultimately show False using w1(1) by (simp add: main_turn_def smf_run [OF smf])
  qed
  then have r: "smf_run_state smf w = (0, w1)" using w1(1) by (simp add: main_turn_def)
  then have t: "term (ctx w) = 0" and w1': "w1 = state_run io smf (cur (ctx w)) w" "term (ctx w1) = 0"
    by (auto simp: smf_run [OF smf] split: if_splits)
  have "cur (ctx w1) = flight_next (cur (ctx w)) (boost_detected (boost_vars w)) \<and> (flight_over w1 \<longleftrightarrow> flight_over w \<or> cur (ctx w) = FLIGHT_STATE)"
  proof (cases "cur (ctx w)")
    case PAD_STATE
    then show ?thesis using w1' by (simp add: pad_state_run_def get_boost_detected_def change_effect [OF smf])
  next
    case FLIGHT_STATE
    then show ?thesis using w1' by (simp add: flight_state_run_def change_effect [OF smf] smf_wait [OF smf])
  next
    case LANDED_STATE
    obtain n h where n: "k_timer_status_get io camera_extra_timer (gh w) = (n, h)" by fastforce
    obtain c where c: "term c = 1" "smf_set_terminate smf 1 (w\<lparr>gh := h\<rparr>) = w\<lparr>gh := h\<rparr>\<lparr>ctx := c\<rparr>"
      using smf_terminate [OF smf] by blast
    have "n = 0" using w1' LANDED_STATE n c by (auto simp: landed_state_run_def Let_def split: if_splits)
    then show ?thesis using w1'(1) LANDED_STATE n by (simp add: landed_state_run_def)
  qed
  then show "cur (ctx w') = flight_next (cur (ctx w)) (boost_detected (boost_vars w))" "flight_over w' \<longleftrightarrow> flight_over w \<or> cur (ctx w) = FLIGHT_STATE"
    using w1(2) by (simp_all add: smf_sleep [OF smf])
qed

lemma grim_start_effect:
  assumes "smf_documented io fs enc smf cur term"
  shows "cur (ctx (smf_set_initial smf PAD_STATE w)) = PAD_STATE" "flight_over (smf_set_initial smf PAD_STATE w) = flight_over w"
proof -
  obtain c where "cur c = PAD_STATE" "smf_set_initial smf PAD_STATE w = state_entry io smf fs enc PAD_STATE (w\<lparr>ctx := c\<rparr>)"
    using smf_initial [OF assms] by blast
  then show "cur (ctx (smf_set_initial smf PAD_STATE w)) = PAD_STATE" "flight_over (smf_set_initial smf PAD_STATE w) = flight_over w"
    by (simp_all add: entry_effect [OF assms] del: state_entry.simps)
qed

lemma grim_over_iff_landed:
  assumes smf: "smf_documented io fs enc smf cur term"
    and "(grim_step smf)\<^sup>*\<^sup>* (smf_set_initial smf PAD_STATE w) w'" "\<not> flight_over w"
  shows "flight_over w' \<longleftrightarrow> cur (ctx w') = LANDED_STATE"
  using assms(2)
proof (induction rule: rtranclp_induct)
  case base
  then show ?case using assms(3) by (simp add: grim_start_effect [OF smf])
next
  case (step w1 w2)
  then show ?case using grim_step_effect(2,3) [OF smf step.hyps(2)] by (cases "cur (ctx w1)") (auto split: if_splits)
qed

text \<open>How a round ends the loop.\<close>

lemma main_turn_ends:
  assumes smf: "smf_documented io fs enc smf cur term" and turn: "main_turn smf w = (ret, w')" "ret \<noteq> 0" "term (ctx w) = 0"
  shows "cur (ctx w') = cur (ctx w) \<and> flight_over w' = flight_over w \<and>
    (flight_cancelled (boost_vars w) \<and> (\<exists>c. w' = w\<lparr>ctx := c\<rparr>) \<or>
     cur (ctx w) = LANDED_STATE \<and> 0 < fst (k_timer_status_get io camera_extra_timer (gh w)))"
proof (cases "flight_cancelled (boost_vars w)")
  case True
  obtain c where c: "cur c = cur (ctx w)" "term c = 1" "smf_set_terminate smf 1 w = w\<lparr>ctx := c\<rparr>" using smf_terminate [OF smf] by blast
  then have "w' = w\<lparr>ctx := c\<rparr>" using turn(1) True by (simp add: main_turn_def smf_run [OF smf])
  then show ?thesis using True c(1) by auto
next
  case False
  then have r: "w' = state_run io smf (cur (ctx w)) w" "term (ctx w') = ret"
    using turn by (auto simp: main_turn_def smf_run [OF smf])
  then have "cur (ctx w) = LANDED_STATE"
    using turn(2,3) by (cases "cur (ctx w)")
      (auto simp: pad_state_run_def flight_state_run_def change_effect [OF smf] smf_wait [OF smf] split: if_splits)
  moreover obtain n h where n: "k_timer_status_get io camera_extra_timer (gh w) = (n, h)" by fastforce
  moreover obtain c where "cur c = cur (ctx w)" "smf_set_terminate smf 1 (w\<lparr>gh := h\<rparr>) = w\<lparr>gh := h\<rparr>\<lparr>ctx := c\<rparr>"
    using smf_terminate [OF smf, of "w\<lparr>gh := h\<rparr>" 1] by auto
  ultimately show ?thesis using r turn(2,3) by (auto simp: landed_state_run_def Let_def split: if_splits)
qed

lemma grim_step_term:
  assumes smf: "smf_documented io fs enc smf cur term" and "grim_step smf w w'"
  shows "term (ctx w') = 0"
proof -
  obtain w1 where w1: "main_turn smf w = (0, w1)" "w' = k_msleep smf 1 w1" using assms(2) by (rule grim_stepE)
  then have "\<exists>v. smf_run_state smf v = (0, w1)" unfolding main_turn_def Let_def by blast
  then have "term (ctx w1) = 0" by (auto simp: smf_run [OF smf] split: if_splits)
  then show ?thesis using w1(2) by (simp add: smf_sleep [OF smf])
qed

lemma main_loop_ends:
  fixes smf :: "('c, 'h, 'a) grim_world smf"
  assumes smf: "smf_documented io fs enc smf cur term" and loop: "main_loop smf w = Some w'" and "term (ctx w) = 0"
  shows "\<exists>w1. (grim_step smf)\<^sup>*\<^sup>* w w1 \<and> term (ctx w1) = 0 \<and> (\<exists>ret. ret \<noteq> 0 \<and> main_turn smf w1 = (ret, w'))"
proof -
  have "smf_documented io fs enc smf cur term \<longrightarrow> term (ctx w) = 0 \<longrightarrow>
      (\<exists>w1. (grim_step smf)\<^sup>*\<^sup>* w w1 \<and> term (ctx w1) = 0 \<and> (\<exists>ret. ret \<noteq> 0 \<and> main_turn smf w1 = (ret, w')))"
  proof (rule main_loop.raw_induct [of "\<lambda>smf w w'. smf_documented io fs enc smf cur term \<longrightarrow> term (ctx w) = 0 \<longrightarrow>
      (\<exists>w1. (grim_step smf)\<^sup>*\<^sup>* w w1 \<and> term (ctx w1) = 0 \<and> (\<exists>ret. ret \<noteq> 0 \<and> main_turn smf w1 = (ret, w')))", OF _ loop], intro impI)
    fix lp and smf :: "('c, 'h, 'a) grim_world smf" and w w'
    assume IH: "\<And>smf w w'. lp smf w = Some w' \<Longrightarrow> smf_documented io fs enc smf cur term \<longrightarrow> term (ctx w) = 0 \<longrightarrow>
        (\<exists>w1. (grim_step smf)\<^sup>*\<^sup>* w w1 \<and> term (ctx w1) = 0 \<and> (\<exists>ret. ret \<noteq> 0 \<and> main_turn smf w1 = (ret, w')))"
      and body: "(case main_turn smf w of (ret, w) \<Rightarrow> if ret \<noteq> 0 then Some w else lp smf (k_msleep smf 1 w)) = Some w'"
      and doc: "smf_documented io fs enc smf cur term" and t: "term (ctx w) = 0"
    obtain ret w2 where w2: "main_turn smf w = (ret, w2)" by fastforce
    show "\<exists>w1. (grim_step smf)\<^sup>*\<^sup>* w w1 \<and> term (ctx w1) = 0 \<and> (\<exists>ret. ret \<noteq> 0 \<and> main_turn smf w1 = (ret, w'))"
    proof (cases "ret = 0")
      case True
      then have st: "grim_step smf w (k_msleep smf 1 w2)" using w2 by (auto intro: grim_step.turn)
      have "lp smf (k_msleep smf 1 w2) = Some w'" using body w2 True by simp
      then obtain w1 where "(grim_step smf)\<^sup>*\<^sup>* (k_msleep smf 1 w2) w1" "term (ctx w1) = 0" "\<exists>ret. ret \<noteq> 0 \<and> main_turn smf w1 = (ret, w')"
        using IH doc grim_step_term [OF doc st] by blast
      then show ?thesis using converse_rtranclp_into_rtranclp [of "grim_step smf", OF st] by blast
    next
      case False
      then show ?thesis using body w2 t by auto
    qed
  qed
  then show ?thesis using assms(1,3) by blast
qed

text \<open>
  The flight program ends in two ways only. Either it is landed and the camera timer has run out, or the flight was
  cancelled: then it stops in the state it is in, without leaving it, so a cancel between launch and the first round in
  flight ends the program with the readers running and the files never closed. Whenever it ends,
  the reading threads have been stopped exactly if it is landed, and the cameras are off last.
\<close>

theorem grim_flight_ends:
  assumes "smf_documented io fs enc smf cur term" "\<not> flight_over w" "grim_main io smf w = Some (ret, w')"
  shows "ret = 0 \<and> (\<exists>w1 w2. (grim_step smf)\<^sup>*\<^sup>* (smf_set_initial smf PAD_STATE (on_hw (grim_setup io) w)) w1 \<and>
    w' = on_hw (gpio_set io cam_enable 0) w2 \<and> cur (ctx w') = cur (ctx w1) \<and> (flight_over w' \<longleftrightarrow> cur (ctx w') = LANDED_STATE) \<and>
    (flight_cancelled (boost_vars w1) \<and> (\<exists>c. w2 = w1\<lparr>ctx := c\<rparr>) \<or>
     cur (ctx w1) = LANDED_STATE \<and> 0 < fst (k_timer_status_get io camera_extra_timer (gh w1))))"
proof -
  let ?w0 = "smf_set_initial smf PAD_STATE (on_hw (grim_setup io) w)"
  obtain w2 where w2: "main_loop smf ?w0 = Some w2" "ret = 0" "w' = on_hw (gpio_set io cam_enable 0) w2"
    using assms(3) by (auto simp: grim_main_def Let_def)
  have "term (ctx ?w0) = 0"
  proof -
    obtain c where "term c = 0" "?w0 = state_entry io smf fs enc PAD_STATE ((on_hw (grim_setup io) w)\<lparr>ctx := c\<rparr>)"
      using smf_initial [OF assms(1)] by blast
    then show ?thesis by (simp add: entry_effect [OF assms(1)] del: state_entry.simps)
  qed
  then obtain w1 r where w1: "(grim_step smf)\<^sup>*\<^sup>* ?w0 w1" "term (ctx w1) = 0" "r \<noteq> 0" "main_turn smf w1 = (r, w2)"
    using main_loop_ends [OF assms(1) w2(1)] by blast
  have "flight_over w1 \<longleftrightarrow> cur (ctx w1) = LANDED_STATE"
    using grim_over_iff_landed [OF assms(1) w1(1)] assms(2) by simp
  then show ?thesis using main_turn_ends [OF assms(1) w1(4,3,2)] w1(1) w2(2,3)
    by (intro conjI exI [of _ w1] exI [of _ w2]) auto
qed

text \<open>A framework and a kernel for the witness, in which the flight is cancelled while the program sleeps.\<close>

definition demo_io :: "(unit, rat) main_os" where
  "demo_io = \<lparr>sensors = \<lparr>device_is_ready = \<lambda>_. True, sensor_sample_fetch = \<lambda>_ h. (0, h), sensor_channel_get = \<lambda>_ _ h. (0, [zero_value], h),
       sensor_attr_set = \<lambda>_ _ _ h. (0, h)\<rparr>,
     to_float = \<lambda>_. 0, round_float = \<lambda>x. x, round_double = \<lambda>x. x, k_uptime_get = \<lambda>_. 1, buzzer_put = \<lambda>_ h. (0, h), adc_sequence = \<lambda>b h. (b, h), ina260_data = \<lambda>_ _. (0, 0),
     gpio_ready = \<lambda>_ _. True, gpio_configure = \<lambda>_ h. (0, h), gpio_set = \<lambda>_ _ h. h, dev_ready = \<lambda>_ _. True, adc_setup = \<lambda>h. (0, h),
     k_timer_user_data_set = \<lambda>_ _ h. h, k_timer_start = \<lambda>_ _ _ h. h, k_timer_stop = \<lambda>_ h. h, k_timer_status_get = \<lambda>_ h. (0, h),
     k_event_set = \<lambda>_ h. h, begin_buzzer_thread = \<lambda>_ h. h, control_put = \<lambda>_ h. h, setup_finished = \<lambda>h. (True, h)\<rparr>"

definition demo_fs :: "(nat, unit) fs_ops" where
  "demo_fs = \<lparr>fs_open = \<lambda>_ _ f. (0, f), fs_close = \<lambda>f. (0, f), fs_write = \<lambda>b f. (0, f), fs_read = \<lambda>_ f. (0, [], f), fs_seek = \<lambda>_ f. (0, f),
     fs_tell = \<lambda>_. 0, fs_sync = \<lambda>f. (0, f), fs_stat = \<lambda>_ _. (0, 0)\<rparr>"

definition demo_base :: "(flight_state \<times> int, unit, rat) grim_world smf" where
  "demo_base = \<lparr>smf_set_initial = \<lambda>_ w. w, smf_set_state = \<lambda>_ w. w, smf_set_terminate = \<lambda>v w. w\<lparr>ctx := (fst (ctx w), v)\<rparr>,
     smf_run_state = \<lambda>w. (0, w), k_msleep = \<lambda>_ w. w\<lparr>boost_vars := cmd_nogo (boost_vars w)\<rparr>, k_timer_status_sync = \<lambda>_ w. w\<rparr>"

definition demo_states :: "(flight_state \<times> int, unit, rat) grim_world smf" where
  "demo_states = demo_base\<lparr>smf_set_initial := \<lambda>s w. state_entry demo_io demo_base demo_fs number_encodings s (w\<lparr>ctx := (s, 0)\<rparr>),
     smf_set_state := \<lambda>s w. state_entry demo_io demo_base demo_fs number_encodings s
       ((state_exit demo_io demo_base (fst (ctx w)) w)\<lparr>ctx := (s, snd (ctx w))\<rparr>)\<rparr>"

definition demo_smf :: "(flight_state \<times> int, unit, rat) grim_world smf" where
  "demo_smf = demo_states\<lparr>smf_run_state := \<lambda>w.
     if snd (ctx w) \<noteq> 0 then (snd (ctx w), w)
     else (snd (ctx (state_run demo_io demo_states (fst (ctx w)) w)), state_run demo_io demo_states (fst (ctx w)) w)\<rparr>"

lemma demo_same:
  "k_msleep demo_smf = k_msleep demo_base" "k_timer_status_sync demo_smf = k_timer_status_sync demo_states"
  "smf_set_state demo_smf = smf_set_state demo_states" "smf_set_terminate demo_smf = smf_set_terminate demo_states"
  by (simp_all add: demo_smf_def demo_states_def)

lemma demo_handlers:
  "state_entry demo_io demo_smf fs enc s w = state_entry demo_io demo_base fs enc s w"
  "state_exit demo_io demo_smf s w = state_exit demo_io demo_base s w"
  "state_run demo_io demo_smf s w = state_run demo_io demo_states s w"
proof -
  show "state_entry demo_io demo_smf fs enc s w = state_entry demo_io demo_base fs enc s w"
    by (cases s) (simp_all only: state_entry.simps landed_state_entry_def demo_same)
  show "state_exit demo_io demo_smf s w = state_exit demo_io demo_base s w"
    by (cases s) (simp_all only: state_exit.simps flight_state_exit_def stop_data_reading_def demo_same)
  show "state_run demo_io demo_smf s w = state_run demo_io demo_states s w"
    by (cases s) (simp_all only: state_run.simps pad_state_run_def flight_state_run_def landed_state_run_def demo_same)
qed

lemma demo_exit_ctx: "ctx (state_exit demo_io demo_base s w) = ctx w"
  by (cases s) (simp_all add: pad_state_exit_def flight_state_exit_def stop_data_reading_def Let_def demo_base_def)

lemma demo_documented: "smf_documented demo_io demo_fs number_encodings demo_smf fst snd"
  unfolding smf_documented_def demo_handlers
proof (intro conjI allI)
  fix s :: flight_state and v ms :: int and t and w :: "(flight_state \<times> int, unit, rat) grim_world"
  show "\<exists>c. fst c = s \<and> snd c = 0 \<and> smf_set_initial demo_smf s w = state_entry demo_io demo_base demo_fs number_encodings s (w\<lparr>ctx := c\<rparr>)"
    by (rule exI [of _ "(s, 0)"]) (simp add: demo_smf_def demo_states_def del: state_entry.simps)
  show "\<exists>c. fst c = s \<and> snd c = snd (ctx (state_exit demo_io demo_base (fst (ctx w)) w)) \<and>
      smf_set_state demo_smf s w = state_entry demo_io demo_base demo_fs number_encodings s ((state_exit demo_io demo_base (fst (ctx w)) w)\<lparr>ctx := c\<rparr>)"
    by (rule exI [of _ "(s, snd (ctx w))"]) (simp add: demo_smf_def demo_states_def demo_exit_ctx del: state_entry.simps state_exit.simps)
  show "\<exists>c. fst c = fst (ctx w) \<and> snd c = v \<and> smf_set_terminate demo_smf v w = w\<lparr>ctx := c\<rparr>"
    by (rule exI [of _ "(fst (ctx w), v)"]) (simp add: demo_smf_def demo_states_def demo_base_def)
  show "smf_run_state demo_smf w = (if snd (ctx w) \<noteq> 0 then (snd (ctx w), w)
      else (snd (ctx (state_run demo_io demo_states (fst (ctx w)) w)), state_run demo_io demo_states (fst (ctx w)) w))"
    by (simp add: demo_smf_def del: state_run.simps)
  show "ctx (k_msleep demo_smf ms w) = ctx w" "flight_over (k_msleep demo_smf ms w) = flight_over w"
    by (simp_all add: demo_same demo_base_def)
  show "ctx (k_timer_status_sync demo_smf t w) = ctx w" "flight_over (k_timer_status_sync demo_smf t w) = flight_over w"
    by (simp_all add: demo_smf_def demo_states_def demo_base_def)
qed

definition demo_world :: "(flight_state \<times> int, unit, rat) grim_world" where
  "demo_world = \<lparr>ctx = (PAD_STATE, 0), boost_vars = boost_start\<lparr>boost_detected := True\<rparr>, flight_over = False, gh = ()\<rparr>"

lemma on_hw_unit: "on_hw f w = w" for w :: "('c, unit, 'a) grim_world"
  by (simp add: on_hw_def)

lemma demo_vars: "boost_detected (boost_vars demo_world)" "\<not> flight_cancelled (boost_vars demo_world)" "ctx demo_world = (PAD_STATE, 0)"
    "\<not> flight_over demo_world"
  by (simp_all add: demo_world_def boost_start_def)

lemma demo_start: "smf_set_initial demo_smf PAD_STATE (on_hw (grim_setup demo_io) demo_world) = demo_world"
proof -
  have "demo_world\<lparr>ctx := (PAD_STATE, 0)\<rparr> = demo_world" by (simp add: demo_world_def)
  then show ?thesis by (simp add: demo_smf_def demo_states_def pad_state_entry_def on_hw_unit)
qed

lemma demo_launch:
  "main_turn demo_smf demo_world = (0, demo_world\<lparr>ctx := (FLIGHT_STATE, 0)\<rparr>)"
  by (simp add: main_turn_def demo_smf_def demo_states_def demo_vars pad_state_run_def get_boost_detected_def
      flight_state_entry_def pad_state_exit_def on_hw_unit Let_def)

lemma demo_cancel:
  "main_turn demo_smf (k_msleep demo_smf 1 (demo_world\<lparr>ctx := (FLIGHT_STATE, 0)\<rparr>)) =
     (1, demo_world\<lparr>ctx := (FLIGHT_STATE, 1), boost_vars := cmd_nogo (boost_vars demo_world)\<rparr>)"
  by (simp add: main_turn_def demo_smf_def demo_states_def demo_base_def cmd_nogo_def)

text \<open>The program ends in flight, with nothing told to finish.\<close>

theorem grim_flight_ends_witness:
  "\<exists>w'. grim_main demo_io demo_smf demo_world = Some (0, w') \<and> fst (ctx w') = FLIGHT_STATE \<and> \<not> flight_over w'"
proof -
  let ?w = "demo_world\<lparr>ctx := (FLIGHT_STATE, 1), boost_vars := cmd_nogo (boost_vars demo_world)\<rparr>"
  have "main_loop demo_smf demo_world = Some ?w"
    by (subst main_loop.simps, subst main_loop.simps) (simp add: demo_launch demo_cancel)
  then have m: "grim_main demo_io demo_smf demo_world = Some (0, on_hw (gpio_set demo_io cam_enable 0) ?w)"
    by (simp add: grim_main_def demo_start)
  from grim_flight_ends [OF demo_documented demo_vars(4) m] m show ?thesis by (auto simp: on_hw_unit demo_vars)
qed

end
