(* ===== verification/Potato.thy ===== *)
theory Potato
  imports Grim_Data
begin

text \<open>
  The Potato extension board (\<open>app/other/.retired/app_potato/src\<close>): a thread that reads an analogue
  channel, one that logs the readings into the frame log of the older core library, and its shell
  commands. The numbers of \<open>printf\<close> are a parameter.
\<close>

subsection \<open>Telemetry\<close>

record potato_adc_telemetry =
  pt_timestamp :: u32
  pt_data :: "u8 list"

text \<open>\<open>ASSIGN_V32_TO_ADCDATA\<close> keeps the three low bytes.\<close>

definition assign_v32_to_adcdata :: "u32 \<Rightarrow> u8 list" where
  "assign_v32_to_adcdata v32 = [ucast (v32 AND 0xff), ucast (drop_bit 8 v32 AND 0xff), ucast (drop_bit 16 v32 AND 0xff)]"

record 'h potato_os =
  pt_uptime :: "'h \<Rightarrow> u64"
  pt_adc_read :: "u32 \<Rightarrow> 'h \<Rightarrow> int \<times> u32 \<times> 'h"
  pt_queue_put :: "potato_adc_telemetry \<Rightarrow> 'h \<Rightarrow> 'h"
  pt_msleep :: "int \<Rightarrow> 'h \<Rightarrow> 'h"

text \<open>A turn of the endless loop: the message put in the queue, the packet, the buffer; a failed read goes on at once, without sleeping.\<close>

definition adc_read_turn ::
  "'h potato_os \<Rightarrow> potato_adc_telemetry \<times> u32 \<times> 'h \<Rightarrow> potato_adc_telemetry option \<times> potato_adc_telemetry \<times> u32 \<times> 'h" where
  "adc_read_turn io st =
     (case st of (adc_data, reading, h) \<Rightarrow>
      let adc_data = adc_data\<lparr>pt_timestamp := ucast (pt_uptime io h)\<rparr> in
      case pt_adc_read io reading h of
        (err, reading, h) \<Rightarrow>
          if err < 0 then (None, adc_data, reading, h)
          else
            let adc_data = adc_data\<lparr>pt_data := assign_v32_to_adcdata reading\<rparr>
            in (Some adc_data, adc_data, reading, pt_msleep io 10 (pt_queue_put io adc_data h)))"

text \<open>A reading of 24 bits is recovered from its bytes.\<close>

definition adcdata_value :: "u8 list \<Rightarrow> u32" where
  "adcdata_value bs = ucast (bs ! 0) OR push_bit 8 (ucast (bs ! 1)) OR push_bit 16 (ucast (bs ! 2))"

lemma adcdata_roundtrip: "adcdata_value (assign_v32_to_adcdata v) = v AND mask 24"
proof -
  have e: "adcdata_value (assign_v32_to_adcdata v) = ucast (ucast (v AND 0xff) :: u8) OR
      push_bit 8 (ucast (ucast (drop_bit 8 v AND 0xff) :: u8)) OR push_bit 16 (ucast (ucast (drop_bit 16 v AND 0xff) :: u8))"
    by (simp add: adcdata_value_def assign_v32_to_adcdata_def)
  have ff: "(0xff :: u32) = mask 8" by (simp add: mask_eq_exp_minus_1)
  show ?thesis unfolding e ff
  proof (rule bit_word_eqI)
    fix n assume n: "n < LENGTH(32)"
    consider "n < 8" | "8 \<le> n" "n < 16" | "16 \<le> n" "n < 24" | "24 \<le> n" by linarith
    then show "bit (ucast (ucast (v AND mask 8) :: u8) OR push_bit 8 (ucast (ucast (drop_bit 8 v AND mask 8) :: u8)) OR
        push_bit 16 (ucast (ucast (drop_bit 16 v AND mask 8) :: u8)) :: u32) n = bit (v AND mask 24) n"
      using n by cases (auto simp: bit_simps)
  qed
qed

subsection \<open>Logging\<close>

definition PACKET_SIZE :: nat where "PACKET_SIZE = 7"
definition ADC_SAMPLE_COUNT :: nat where "ADC_SAMPLE_COUNT = 128000000 div PACKET_SIZE"
definition MAX_FILE_LEN :: nat where "MAX_FILE_LEN = 16"

text \<open>\<open>snprintf\<close> of \<open>/lfs/%02d/adc\<close> into 16 bytes; \<open>num\<close> prints the number of the boot.\<close>

definition potato_dir_name :: "(u32 \<Rightarrow> string) \<Rightarrow> u32 \<Rightarrow> string" where
  "potato_dir_name num boot_count = take (MAX_FILE_LEN - 1) (''/lfs/'' @ num boot_count)"

definition potato_file_name :: "(u32 \<Rightarrow> string) \<Rightarrow> u32 \<Rightarrow> string" where
  "potato_file_name num boot_count = take (MAX_FILE_LEN - 1) (''/lfs/'' @ num boot_count @ ''/adc'')"

text \<open>
  The loop over what the queue gives, \<open>None\<close> for a second without a message. \<open>err\<close> is never
  cleared. The flag says that the loop has ended.
\<close>

fun adc_logging_loop :: "('c, 'f) fs_ops \<Rightarrow> (potato_adc_telemetry \<Rightarrow> 'c list) \<Rightarrow> potato_adc_telemetry option list \<Rightarrow> int \<Rightarrow> 'f l_fs_file \<Rightarrow> bool \<times> 'f l_fs_file" where
  "adc_logging_loop fs bytes [] err p = (False, p)"
| "adc_logging_loop fs bytes (None # ms) err p = adc_logging_loop fs bytes ms err p"
| "adc_logging_loop fs bytes (Some m # ms) err p =
     (case l_fs_write fs (bytes m) err p of
        (_, err, p) \<Rightarrow> if err = - ENOSPC then (True, p) else adc_logging_loop fs bytes ms err p)"

text \<open>\<open>fs_mkdir\<close> is a parameter on the file system; the thread waits until the boot count is known.\<close>

definition adc_logging_task ::
  "('c, 'f) fs_ops \<Rightarrow> (string \<Rightarrow> 'f \<Rightarrow> 'f) \<Rightarrow> (u32 \<Rightarrow> string) \<Rightarrow> (potato_adc_telemetry \<Rightarrow> 'c list) \<Rightarrow> u32 \<Rightarrow>
     potato_adc_telemetry option list \<Rightarrow> 'f \<Rightarrow> (bool \<times> 'f l_fs_file) option" where
  "adc_logging_task fs fs_mkdir num bytes boot_count ms f =
     (if boot_count = -1 then None
      else
        let f = fs_mkdir (potato_dir_name num boot_count) f;
            p = l_fs_create_file (potato_file_name num boot_count) (int PACKET_SIZE) (int ADC_SAMPLE_COUNT) SLOG_ONCE f;
            p = snd (l_fs_init fs p);
            (ended, p) = adc_logging_loop fs bytes ms 0 p
        in Some (ended, if ended then snd (l_fs_close fs p) else p))"

text \<open>\<open>main\<close>, \<open>cmd_go\<close> and the dump command.\<close>

definition potato_main :: "(u8, 'f) fs_ops \<Rightarrow> bool \<times> 'f \<Rightarrow> u32 \<times> bool \<times> 'f" where
  "potato_main fs bf = (case l_fs_boot_count_check fs bf of (ret, bf) \<Rightarrow> (word_of_int ret, bf))"

definition cmd_go :: "bool \<Rightarrow> bool" where "cmd_go detected = True"

definition potato_dump_file :: "('c, 'f) fs_ops \<Rightarrow> ('c list \<Rightarrow> int \<times> string) \<Rightarrow> string list \<Rightarrow> 'f \<Rightarrow> (int \<times> string list \<times> 'f) option" where
  "potato_dump_file fs enc argv f =
     (if length argv < 1 then Some (-1, [''usage: grim dump filename: dump specific file'', ''usage: grim dump: dump all files''], f)
      else if length argv = 1 then Some (0, [''Potoato cant print all speciy a pasth''], f)
      else map_option (\<lambda>(_, lines, f). (0, lines, f)) (dump_base64 fs enc (argv ! 1) f))"

text \<open>The messages, and the writes they make as a run of the frame log.\<close>

definition messages :: "'m option list \<Rightarrow> 'm list" where
  "messages ms = concat (map (\<lambda>m. case m of None \<Rightarrow> [] | Some m \<Rightarrow> [m]) ms)"

lemma messages_simps [simp]: "messages [] = []" "messages (None # ms) = messages ms" "messages (Some m # ms) = m # messages ms"
  by (simp_all add: messages_def)

lemma adc_logging_loop_holds:
  assumes fs: "random_access fs content pos" and n: "0 < n" "0 < w" "w * n < 2 ^ 31" and lens: "\<And>m. length (bytes m) = w"
  shows "log_mode p = SLOG_ONCE \<Longrightarrow> l_fs_holds content w n frames p \<Longrightarrow> (\<forall>s\<in>set frames. length s = w) \<Longrightarrow>
    case adc_logging_loop fs bytes ms 0 p of (ended, p') \<Rightarrow>
      log_mode p' = SLOG_ONCE \<and> (ended \<longleftrightarrow> n < length frames + length (messages ms) \<and> messages ms \<noteq> []) \<and>
      content (lfile p') = concat (take n (frames @ map bytes (messages ms)))"
proof (induction ms arbitrary: frames p)
  case Nil
  then show ?case by (simp add: l_fs_holds_def as_log_mode_def kept_def)
next
  case (Cons m ms)
  show ?case
  proof (cases m)
    case None
    then show ?thesis using Cons.IH [OF Cons.prems] by simp
  next
    case (Some x)
    have "\<forall>s\<in>set (frames @ [bytes x]). length s = w" using Cons.prems(3) lens by simp
    then obtain p1 where p1: "l_fs_write fs (bytes x) 0 p = (fst (l_fs_result SLOG_ONCE w n (length frames)), snd (l_fs_result SLOG_ONCE w n (length frames)), p1)"
        "log_mode p1 = SLOG_ONCE" "l_fs_holds content w n (frames @ [bytes x]) p1"
      using l_fs_write_step [OF fs n _ _ Cons.prems(2), of "bytes x"] Cons.prems(1) by auto
    show ?thesis
    proof (cases "n \<le> length frames")
      case True
      then have "adc_logging_loop fs bytes (m # ms) 0 p = (True, p1)" using p1(1) Some by (simp add: l_fs_result_def)
      moreover have "content (lfile p1) = concat (take n frames)" using p1(2,3) True by (simp add: l_fs_holds_def as_log_mode_def kept_def)
      ultimately show ?thesis using True Some p1(2) by simp
    next
      case False
      then have "adc_logging_loop fs bytes (m # ms) 0 p = adc_logging_loop fs bytes ms 0 p1"
        using p1(1) Some by (simp add: l_fs_result_def ENOSPC_def)
      moreover have "n < length (frames @ [bytes x]) + length (messages ms) \<and> messages ms \<noteq> [] \<longleftrightarrow> n < length frames + length (messages (m # ms)) \<and> messages (m # ms) \<noteq> []"
        using False Some by (cases "messages ms") auto
      ultimately show ?thesis using Cons.IH [OF p1(2,3) \<open>\<forall>s\<in>set (frames @ [bytes x]). length s = w\<close>] Some by simp
    qed
  qed
qed

text \<open>
  The log of the board holds its first 18285714 readings, in order, 7 bytes each, and logging ends with the first reading
  that has no room, which is lost.
\<close>

theorem potato_log_complete:
  assumes "random_access fs content pos" "\<And>m. length (bytes m) = PACKET_SIZE" "boot_count \<noteq> -1"
    and "fs_open fs (potato_file_name num boot_count) (FS_O_CREATE OR FS_O_RDWR) (fs_mkdir (potato_dir_name num boot_count) f) = (0, f')"
    and "content f' = []"
    and "\<And>f. content (snd (fs_close fs f)) = content f"
  shows "\<exists>ended p. adc_logging_task fs fs_mkdir num bytes boot_count ms f = Some (ended, p) \<and>
    content (lfile p) = concat (map bytes (take ADC_SAMPLE_COUNT (messages ms))) \<and> (ended \<longleftrightarrow> ADC_SAMPLE_COUNT < length (messages ms))"
proof -
  let ?p = "l_fs_create_file (potato_file_name num boot_count) (int PACKET_SIZE) (int ADC_SAMPLE_COUNT) SLOG_ONCE (fs_mkdir (potato_dir_name num boot_count) f)"
  have c: "0 < ADC_SAMPLE_COUNT" "0 < PACKET_SIZE" "PACKET_SIZE * ADC_SAMPLE_COUNT < 2 ^ 31"
    by (simp_all add: ADC_SAMPLE_COUNT_def PACKET_SIZE_def)
  have "fs_open fs (fname ?p) (FS_O_CREATE OR FS_O_RDWR) (lfile ?p) = (0, f')" "content f' = []"
    using assms(4,5) by (simp_all add: l_fs_create_file_def)
  then have "log_mode (snd (l_fs_init fs ?p)) = SLOG_ONCE \<and> l_fs_holds content PACKET_SIZE ADC_SAMPLE_COUNT [] (snd (l_fs_init fs ?p))"
    by (simp add: l_fs_init_def l_fs_create_file_def l_fs_holds_def as_log_mode_def kept_def next_pos_def Let_def ADC_SAMPLE_COUNT_def PACKET_SIZE_def)
  then have h: "log_mode (snd (l_fs_init fs ?p)) = SLOG_ONCE" "l_fs_holds content PACKET_SIZE ADC_SAMPLE_COUNT [] (snd (l_fs_init fs ?p))"
    by simp_all
  obtain ended p where l: "adc_logging_loop fs bytes ms 0 (snd (l_fs_init fs ?p)) = (ended, p)" by fastforce
  have r: "content (lfile p) = concat (take ADC_SAMPLE_COUNT (map bytes (messages ms)))"
      "ended \<longleftrightarrow> ADC_SAMPLE_COUNT < length (messages ms) \<and> messages ms \<noteq> []"
    using adc_logging_loop_holds [OF assms(1) c, of bytes, OF assms(2) h, of ms] l by simp_all
  moreover have "content (lfile (snd (l_fs_close fs p))) = content (lfile p)"
    using assms(6) [of "lfile p"]
    by (cases "fs_close fs (lfile p)") (simp add: l_fs_close_def)
  moreover have "ADC_SAMPLE_COUNT < length (messages ms) \<Longrightarrow> messages ms \<noteq> []" by auto
  ultimately show ?thesis using l assms(3) by (auto simp: adc_logging_task_def Let_def take_map)
qed

theorem potato_log_complete_witness:
  "\<exists>p. adc_logging_task memory_disk (\<lambda>_ f. f) (\<lambda>_. ''03'') (\<lambda>m. replicate 7 (unat (pt_timestamp m))) 3
      [None, Some \<lparr>pt_timestamp = 5, pt_data = [1, 2, 3]\<rparr>, None] ([], 0) = Some (False, p) \<and> fst (lfile p) = replicate 7 5"
proof -
  have l: "length (replicate 7 (unat (pt_timestamp m))) = PACKET_SIZE" for m :: potato_adc_telemetry by (simp add: PACKET_SIZE_def)
  have o: "fs_open memory_disk (potato_file_name (\<lambda>_. ''03'') 3) (FS_O_CREATE OR FS_O_RDWR) ([], 0) = (0, [], 0)"
      "\<And>f. fst (snd (fs_close memory_disk f)) = fst f"
    by (auto simp: memory_disk_def memory_file_def)
  show ?thesis
    using potato_log_complete [OF memory_disk_access, where bytes = "\<lambda>m. replicate 7 (unat (pt_timestamp m))" and boot_count = 3
        and num = "\<lambda>_. ''03''" and fs_mkdir = "\<lambda>_ f. f" and f = "([], 0)" and f' = "([], 0)"
        and ms = "[None, Some \<lparr>pt_timestamp = 5, pt_data = [1, 2, 3]\<rparr>, None]", OF l _ o(1) _ o(2)]
    by (auto simp: ADC_SAMPLE_COUNT_def PACKET_SIZE_def)
qed

end
