(* ===== verification/Sample_Flight.thy ===== *)
theory Sample_Flight
  imports Flight_Utils Phase_Controller
begin

text \<open>
  \<open>app/samples/phase_detection\<close>: a flight with seven events, watched by an inertial unit and a
  barometer, each in a thread of its own, and the main program, which waits for the events in turn.
  The threads, the main program and the timers of the controller interleave: a step of the model is
  a test of an event with the submission it guards. Scalars are an ordered field; \<open>pow\<close>,
  \<open>sqrt\<close> and the conversion \<open>%.2f\<close> are parameters. A thread whose wait does not return stays
  where it is.
\<close>

subsection \<open>Configuration: \<open>flight.h\<close>\<close>

definition ev_PadReady :: nat where "ev_PadReady = 0"
definition ev_Boost :: nat where "ev_Boost = 1"
definition ev_Coast :: nat where "ev_Coast = 2"
definition ev_Noseover :: nat where "ev_Noseover = 3"
definition ev_MainChute :: nat where "ev_MainChute = 4"
definition ev_GroundHit :: nat where "ev_GroundHit = 5"
definition ev_CamerasOff :: nat where "ev_CamerasOff = 6"

lemmas ev_defs = ev_PadReady_def ev_Boost_def ev_Coast_def ev_Noseover_def ev_MainChute_def ev_GroundHit_def ev_CamerasOff_def

definition src_IMU1 :: nat where "src_IMU1 = 0"
definition src_Barom1 :: nat where "src_Barom1 = 1"
definition src_NoseoverLockout :: nat where "src_NoseoverLockout = 2"
definition src_Boost2CoastTimer :: nat where "src_Boost2CoastTimer = 3"
definition src_Noseover2MainTimer :: nat where "src_Noseover2MainTimer = 4"
definition src_FullFlightTimer :: nat where "src_FullFlightTimer = 5"
definition src_ExtraCameraTimer :: nat where "src_ExtraCameraTimer = 6"

lemmas src_defs = src_IMU1_def src_Barom1_def src_NoseoverLockout_def src_Boost2CoastTimer_def
  src_Noseover2MainTimer_def src_FullFlightTimer_def src_ExtraCameraTimer_def

definition sample_timer_events :: "TimerEvent list" where
  "sample_timer_events =
     [\<lparr>te_start = ev_Boost, te_event = ev_Coast, te_time = 3000, te_source = src_Boost2CoastTimer\<rparr>,
      \<lparr>te_start = ev_Boost, te_event = ev_Noseover, te_time = 10000, te_source = src_NoseoverLockout\<rparr>,
      \<lparr>te_start = ev_Noseover, te_event = ev_MainChute, te_time = 175000, te_source = src_Noseover2MainTimer\<rparr>,
      \<lparr>te_start = ev_Boost, te_event = ev_GroundHit, te_time = 350000, te_source = src_FullFlightTimer\<rparr>,
      \<lparr>te_start = ev_GroundHit, te_event = ev_CamerasOff, te_time = 2000, te_source = src_ExtraCameraTimer\<rparr>]"

definition sample_deciders :: "(bool list \<Rightarrow> bool) list" where
  "sample_deciders =
     [\<lambda>states. states ! src_IMU1 \<and> states ! src_Barom1,
      \<lambda>states. states ! src_IMU1 \<or> states ! src_Barom1,
      \<lambda>states. states ! src_Boost2CoastTimer \<or> states ! src_IMU1,
      \<lambda>states. states ! src_NoseoverLockout \<and> states ! src_Barom1,
      \<lambda>states. states ! src_Barom1 \<or> states ! src_Noseover2MainTimer,
      \<lambda>states. states ! src_Barom1 \<or> states ! src_FullFlightTimer,
      \<lambda>states. states ! src_ExtraCameraTimer]"

definition sample_source_names :: "string list" where
  "sample_source_names = [''IMU 1 (LSM6DSL)'', ''Barom 1 (BME280)'', ''Noseover Lockout'', ''Boost2Coast Timer'',
     ''Noseover2Main Timer'', ''Full Flight Timer'', ''ExtraCamera Timer'']"

definition sample_event_names :: "string list" where
  "sample_event_names = [''PadReady'', ''Boost'', ''Coast'', ''Noseover'', ''MainChute'', ''GroundHit'', ''CamerasOff'']"

definition sample_config :: "(char, 'f) fs_ops \<Rightarrow> 'f pc_config" where
  "sample_config fs =
     \<lparr>sourceNames = sample_source_names, eventNames = sample_event_names,
      timerEvents = sample_timer_events, deciders = sample_deciders, flight_log = Some fs\<rparr>"

text \<open>What \<open>k_event_wait\<close> returns once one of the events it waits for is posted.\<close>

definition posted_events :: "u32 \<Rightarrow> u32 \<Rightarrow> u32" where
  "posted_events pending wanted = pending AND wanted"

subsection \<open>The thread of the inertial unit\<close>

record 'a imu_detectors =
  boost_detector :: "'a debouncer"
  coast_detector :: "'a debouncer"

definition imu_detectors_new :: "'a::linordered_field imu_detectors" where
  "imu_detectors_new = \<lparr>boost_detector = db_new 250 50, coast_detector = db_new 250 35\<rparr>"

datatype 'a imu_thread =
  Imu_ready "'a imu_detectors" | Imu_wait "'a imu_detectors" | Imu_loop "'a imu_detectors" | Imu_end

text \<open>
  The readings are what the sensor object holds after its update; a failed update only prints an error.
\<close>

definition imu_measure ::
  "('a::linordered_field \<Rightarrow> 'a) \<Rightarrow> 'f pc_config \<Rightarrow> int \<times> int \<Rightarrow> u32 \<Rightarrow> 'a \<times> 'a \<times> 'a \<Rightarrow> 'a imu_detectors \<Rightarrow> 'f pc_state \<Rightarrow>
     ('a imu_detectors \<times> 'f pc_state) option" where
  "imu_measure sqroot cfg now timestamp xyz d st =
     (case xyz of (x, y, z) \<Rightarrow>
      let mag = sqroot (x * x + y * y + z * z) in do {
        boost \<leftarrow> HasEventOccured ev_Boost st;
        if \<not> boost then
          let d = d\<lparr>boost_detector := db_Feed Over timestamp mag (boost_detector d),
                    coast_detector := db_Feed Under timestamp mag (coast_detector d)\<rparr> in do {
          st \<leftarrow> submit_if (db_Passed (boost_detector d)) cfg now src_IMU1 ev_Boost st;
          Some (d, st) }
        else do {
          coast \<leftarrow> HasEventOccured ev_Coast st;
          if \<not> coast then
            let d = d\<lparr>coast_detector := db_Feed Under timestamp mag (coast_detector d)\<rparr> in do {
            st \<leftarrow> submit_if (db_Passed (coast_detector d)) cfg now src_IMU1 ev_Coast st;
            Some (d, st) }
          else Some (d, st) } })"

definition imu_turn ::
  "('a::linordered_field \<Rightarrow> 'a) \<Rightarrow> 'f pc_config \<Rightarrow> int \<times> int \<Rightarrow> u32 \<Rightarrow> 'a \<times> 'a \<times> 'a \<Rightarrow> 'a imu_thread \<Rightarrow> 'f pc_state \<Rightarrow>
     ('a imu_thread \<times> 'f pc_state) option" where
  "imu_turn sqroot cfg now timestamp xyz t st =
     (case t of
        Imu_ready d \<Rightarrow> do {
          st \<leftarrow> SubmitEvent cfg now src_IMU1 ev_PadReady st;
          Some (Imu_wait d, st) }
      | Imu_wait d \<Rightarrow> Some (if WaitUntilEvent posted_events ev_PadReady st then Imu_loop d else t, st)
      | Imu_loop d \<Rightarrow> do {
          ground \<leftarrow> HasEventOccured ev_GroundHit st;
          if ground then Some (Imu_end, st)
          else do {
            (d, st) \<leftarrow> imu_measure sqroot cfg now timestamp xyz d st;
            Some (Imu_loop d, st) } }
      | Imu_end \<Rightarrow> Some (t, st))"

subsection \<open>The thread of the barometer\<close>

datatype 'a Line = Line (line_m: 'a) (line_b: 'a)

definition window_size :: nat where "window_size = 10"

definition bad_line :: "'a::linordered_field Line" where "bad_line = Line 0 0"

definition find_line :: "'a::linordered_field LinearFitSample rolling_sum \<Rightarrow> 'a Line" where
  "find_line summer =
     (let N = of_nat window_size; E = rs_Sum summer; denom = N * lxx E - lx E * lx E in
      if denom = 0 then bad_line
      else let m = (N * lxy E - lx E * ly E) / denom;
               b = (ly E - m * lx E) / N in Line m b)"

definition rrc3_altitude_conversion_to_feet :: "('a \<Rightarrow> 'a \<Rightarrow> 'a) \<Rightarrow> 'a::linordered_field \<Rightarrow> 'a" where
  "rrc3_altitude_conversion_to_feet pow P_sta_kpa =
     (let P_sta_mbar = P_sta_kpa * 10 in
      (1 - pow (P_sta_mbar / (101325 / 100)) (190284 / 1000000)) * (14536645 / 100))"

text \<open>What lives as long as the thread, and what lives for one turn of its loop.\<close>

record 'a barom_locals =
  velocity_summer :: "'a LinearFitSample rolling_sum"
  ground_level_avger :: "'a rolling_sum"
  boost_debouncer :: "'a debouncer"
  noseover_debouncer :: "'a debouncer"
  mainheight_debouncer :: "'a debouncer"
  no_vel_debouncer :: "'a debouncer"
  max_feet_agl :: 'a

record 'a barom_turn_vars =
  time_ms :: u32
  velocity_ft_s :: 'a
  feet :: 'a
  feet_agl :: 'a

datatype 'a barom_thread =
  Barom_ready | Barom_wait | Barom_loop "'a barom_locals"
| Barom_boost "'a barom_locals" "'a barom_turn_vars" | Barom_noseover "'a barom_locals" "'a barom_turn_vars"
| Barom_main "'a barom_locals" "'a barom_turn_vars" | Barom_ground "'a barom_locals" "'a barom_turn_vars"
| Barom_end

definition barom_locals_new :: "('a \<Rightarrow> 'a \<Rightarrow> 'a) \<Rightarrow> 'a::linordered_field \<Rightarrow> 'a barom_locals option" where
  "barom_locals_new pow init_press_kpa = do {
     let init_feet_asl = rrc3_altitude_conversion_to_feet pow init_press_kpa;
     v \<leftarrow> rs_new window_size (fit_sample 0 0);
     g \<leftarrow> rs_new 100 init_feet_asl;
     Some \<lparr>velocity_summer = v, ground_level_avger = g,
       boost_debouncer = db_new 2000 5, noseover_debouncer = db_new 500 0,
       mainheight_debouncer = db_new 500 500, no_vel_debouncer = db_new 10000 10, max_feet_agl = 0\<rparr> }"

text \<open>From the top of the loop to the first test; \<open>continue\<close> goes back to the top.\<close>

definition barom_measure ::
  "('a \<Rightarrow> 'a \<Rightarrow> 'a) \<Rightarrow> u32 \<Rightarrow> 'a::linordered_field \<Rightarrow> 'a barom_locals \<Rightarrow> 'a barom_thread option" where
  "barom_measure pow time press_kpa d =
     (let time_s = of_int (uint time) / 1000; ft = rrc3_altitude_conversion_to_feet pow press_kpa in do {
        v \<leftarrow> rs_Feed (fit_sample time_s ft) (velocity_summer d);
        let d = d\<lparr>velocity_summer := v\<rparr>;
        let line = find_line v;
        if line = bad_line then Some (Barom_loop d)
        else
          let agl = ft - ma_Avg 100 (ground_level_avger d);
              d = (if agl > max_feet_agl d then d\<lparr>max_feet_agl := agl\<rparr> else d) in
          Some (Barom_boost d \<lparr>time_ms = time, velocity_ft_s = line_m line, feet = ft, feet_agl = agl\<rparr>) })"

text \<open>A line that \<open>snprintf\<close> prints to a buffer of 256 characters and writes to the flight log.\<close>

definition print_to_log :: "'f pc_config \<Rightarrow> int \<Rightarrow> string \<Rightarrow> 'f pc_state \<Rightarrow> 'f pc_state option" where
  "print_to_log cfg now s st =
     (case flight_log cfg of
        None \<Rightarrow> Some st
      | Some fs \<Rightarrow> do {
          let print_buf = snprintf_buf 256 s;
          (_, f) \<leftarrow> fl_Write fs now print_buf (length s) (log_file st);
          Some (st\<lparr>log_file := f\<rparr>) })"

definition noseover_message :: "('a \<Rightarrow> string) \<Rightarrow> 'a barom_turn_vars \<Rightarrow> string" where
  "noseover_message fmt v =
     ''Noseover occured at barometeric altitude of '' @ fmt (feet_agl v) @ '' ft agl ('' @ fmt (feet v) @ '' ft asl)''"

definition barom_check_boost ::
  "'f pc_config \<Rightarrow> int \<times> int \<Rightarrow> 'a::linordered_field barom_locals \<Rightarrow> 'a barom_turn_vars \<Rightarrow> 'f pc_state \<Rightarrow>
     ('a barom_thread \<times> 'f pc_state) option" where
  "barom_check_boost cfg now d v st = do {
     boost \<leftarrow> HasEventOccured ev_Boost st;
     if \<not> boost then do {
       g \<leftarrow> rs_Feed (feet v) (ground_level_avger d);
       let d = d\<lparr>ground_level_avger := g, boost_debouncer := db_Feed Over (time_ms v) (velocity_ft_s v) (boost_debouncer d)\<rparr>;
       st \<leftarrow> submit_if (db_Passed (boost_debouncer d)) cfg now src_Barom1 ev_Boost st;
       Some (Barom_noseover d v, st) }
     else Some (Barom_noseover d v, st) }"

definition barom_check_noseover ::
  "('a \<Rightarrow> string) \<Rightarrow> 'f pc_config \<Rightarrow> int \<times> int \<Rightarrow> int \<Rightarrow> 'a::linordered_field barom_locals \<Rightarrow> 'a barom_turn_vars \<Rightarrow>
     'f pc_state \<Rightarrow> ('a barom_thread \<times> 'f pc_state) option" where
  "barom_check_noseover fmt cfg now print_now d v st = do {
     noseover \<leftarrow> HasEventOccured ev_Noseover st;
     if \<not> noseover then do {
       let d = d\<lparr>noseover_debouncer := db_Feed Under (time_ms v) (velocity_ft_s v) (noseover_debouncer d)\<rparr>;
       boost \<leftarrow> HasEventOccured ev_Boost st;
       if boost \<and> db_Passed (noseover_debouncer d) then do {
         st \<leftarrow> SubmitEvent cfg now src_Barom1 ev_Noseover st;
         st \<leftarrow> print_to_log cfg print_now (noseover_message fmt v) st;
         Some (Barom_main d v, st) }
       else Some (Barom_main d v, st) }
     else Some (Barom_main d v, st) }"

definition barom_check_main ::
  "'f pc_config \<Rightarrow> int \<times> int \<Rightarrow> 'a::linordered_field barom_locals \<Rightarrow> 'a barom_turn_vars \<Rightarrow> 'f pc_state \<Rightarrow>
     ('a barom_thread \<times> 'f pc_state) option" where
  "barom_check_main cfg now d v st = do {
     main_chute \<leftarrow> HasEventOccured ev_MainChute st;
     if \<not> main_chute then do {
       let d = d\<lparr>mainheight_debouncer := db_Feed Under (time_ms v) (feet_agl v) (mainheight_debouncer d)\<rparr>;
       noseover \<leftarrow> HasEventOccured ev_Noseover st;
       st \<leftarrow> submit_if (noseover \<and> db_Passed (mainheight_debouncer d)) cfg now src_Barom1 ev_MainChute st;
       Some (Barom_ground d v, st) }
     else Some (Barom_ground d v, st) }"

definition barom_check_ground ::
  "'f pc_config \<Rightarrow> int \<times> int \<Rightarrow> 'a::linordered_field barom_locals \<Rightarrow> 'a barom_turn_vars \<Rightarrow> 'f pc_state \<Rightarrow>
     ('a barom_thread \<times> 'f pc_state) option" where
  "barom_check_ground cfg now d v st = do {
     ground \<leftarrow> HasEventOccured ev_GroundHit st;
     if \<not> ground then do {
       let d = d\<lparr>no_vel_debouncer := db_Feed Under (time_ms v) \<bar>velocity_ft_s v\<bar> (no_vel_debouncer d)\<rparr>;
       boost \<leftarrow> HasEventOccured ev_Boost st;
       st \<leftarrow> submit_if (boost \<and> db_Passed (no_vel_debouncer d)) cfg now src_Barom1 ev_GroundHit st;
       Some (Barom_loop d, st) }
     else Some (Barom_loop d, st) }"

definition max_altitude_message :: "('a \<Rightarrow> string) \<Rightarrow> 'a barom_locals \<Rightarrow> string" where
  "max_altitude_message fmt d = ''Maximum barometric altitude of '' @ fmt (max_feet_agl d) @ '' ft agl''"

definition barom_turn ::
  "('a \<Rightarrow> 'a \<Rightarrow> 'a) \<Rightarrow> ('a \<Rightarrow> string) \<Rightarrow> 'f pc_config \<Rightarrow> int \<times> int \<Rightarrow> int \<Rightarrow> u32 \<Rightarrow> 'a::linordered_field \<Rightarrow>
     'a barom_thread \<Rightarrow> 'f pc_state \<Rightarrow> ('a barom_thread \<times> 'f pc_state) option" where
  "barom_turn pow fmt cfg now print_now time press_kpa t st =
     (case t of
        Barom_ready \<Rightarrow> do {
          st \<leftarrow> SubmitEvent cfg now src_Barom1 ev_PadReady st;
          Some (Barom_wait, st) }
      | Barom_wait \<Rightarrow>
          if WaitUntilEvent posted_events ev_PadReady st then do {
            d \<leftarrow> barom_locals_new pow press_kpa;
            Some (Barom_loop d, st) }
          else Some (t, st)
      | Barom_loop d \<Rightarrow> do {
          ground \<leftarrow> HasEventOccured ev_GroundHit st;
          if ground then do {
            st \<leftarrow> print_to_log cfg print_now (max_altitude_message fmt d) st;
            Some (Barom_end, st) }
          else do {
            t \<leftarrow> barom_measure pow time press_kpa d;
            Some (t, st) } }
      | Barom_boost d v \<Rightarrow> barom_check_boost cfg now d v st
      | Barom_noseover d v \<Rightarrow> barom_check_noseover fmt cfg now print_now d v st
      | Barom_main d v \<Rightarrow> barom_check_main cfg now d v st
      | Barom_ground d v \<Rightarrow> barom_check_ground cfg now d v st
      | Barom_end \<Rightarrow> Some (t, st))"

subsection \<open>The main program\<close>

text \<open>\<open>Main_wait e\<close> waits for the event \<open>e\<close>; the timers have a period in milliseconds or are stopped.\<close>

datatype main_thread = Main_start | Main_wait nat | Main_end int

record ('a, 'f) sample =
  ctl :: "'f pc_state"
  imu_thr :: "'a imu_thread"
  barom_thr :: "'a barom_thread"
  main_thr :: main_thread
  imu_timer :: "int option"
  barom_timer :: "int option"

definition sample_boot :: "(char, 'f) fs_ops \<Rightarrow> int \<Rightarrow> 'f \<Rightarrow> ('a::linordered_field, 'f) sample option" where
  "sample_boot fs now f = do {
     f \<leftarrow> fl_open fs now ''/lfs/flight_log.txt'' now f;
     st \<leftarrow> pc_new (sample_config fs) now f;
     Some \<lparr>ctl = st, imu_thr = Imu_ready imu_detectors_new, barom_thr = Barom_ready, main_thr = Main_start,
       imu_timer = None, barom_timer = None\<rparr> }"

text \<open>What the main program does after each of its waits, before the next one.\<close>

definition main_after :: "nat \<Rightarrow> ('a, 'f) sample \<Rightarrow> ('a, 'f) sample" where
  "main_after event s =
     (if event = ev_PadReady then s\<lparr>imu_timer := Some 1, barom_timer := Some 10\<rparr>
      else if event = ev_Coast then s\<lparr>imu_timer := Some 10\<rparr>
      else if event = ev_GroundHit then s\<lparr>imu_timer := None, barom_timer := None\<rparr>
      else s)"

definition main_waits :: "nat list" where
  "main_waits = [ev_PadReady, ev_Boost, ev_Coast, ev_Noseover, ev_MainChute, ev_GroundHit, ev_CamerasOff]"

definition main_turn :: "(char, 'f) fs_ops \<Rightarrow> ('a, 'f) sample \<Rightarrow> ('a, 'f) sample" where
  "main_turn fs s =
     (case main_thr s of
        Main_start \<Rightarrow> s\<lparr>imu_timer := None, barom_timer := None, main_thr := Main_wait 0\<rparr>
      | Main_wait k \<Rightarrow>
          if WaitUntilEvent posted_events (main_waits ! k) (ctl s) then
            let s = main_after (main_waits ! k) s in
            if Suc k < length main_waits then s\<lparr>main_thr := Main_wait (Suc k)\<rparr>
            else (case fl_Sync fs (log_file (ctl s)) of
                    (_, f) \<Rightarrow> s\<lparr>ctl := (ctl s)\<lparr>log_file := f\<rparr>, main_thr := Main_end 0\<rparr>)
          else s
      | Main_end _ \<Rightarrow> s)"

subsection \<open>Steps\<close>

inductive sample_step ::
  "('a \<Rightarrow> 'a) \<Rightarrow> ('a \<Rightarrow> 'a \<Rightarrow> 'a) \<Rightarrow> ('a \<Rightarrow> string) \<Rightarrow> (char, 'f) fs_ops \<Rightarrow>
     ('a::linordered_field, 'f) sample \<Rightarrow> ('a, 'f) sample \<Rightarrow> bool"
  for sqroot pow fmt fs where
  imu: "imu_turn sqroot (sample_config fs) now timestamp xyz (imu_thr s) (ctl s) = Some (t, st) \<Longrightarrow>
     sample_step sqroot pow fmt fs s (s\<lparr>imu_thr := t, ctl := st\<rparr>)"
| barom: "barom_turn pow fmt (sample_config fs) now print_now time press_kpa (barom_thr s) (ctl s) = Some (t, st) \<Longrightarrow>
     sample_step sqroot pow fmt fs s (s\<lparr>barom_thr := t, ctl := st\<rparr>)"
| main: "sample_step sqroot pow fmt fs s (main_turn fs s)"
| timer: "i < length (timers (ctl s)) \<Longrightarrow> timers (ctl s) ! i \<Longrightarrow>
     timer_expiry_cb (sample_config fs) now i (ctl s) = Some st \<Longrightarrow>
     sample_step sqroot pow fmt fs s (s\<lparr>ctl := st\<rparr>)"

inductive sample_reachable ::
  "('a \<Rightarrow> 'a) \<Rightarrow> ('a \<Rightarrow> 'a \<Rightarrow> 'a) \<Rightarrow> ('a \<Rightarrow> string) \<Rightarrow> (char, 'f) fs_ops \<Rightarrow>
     ('a::linordered_field, 'f) sample \<Rightarrow> bool"
  for sqroot pow fmt fs where
  boot: "sample_boot fs now f = Some s \<Longrightarrow> sample_reachable sqroot pow fmt fs s"
| step: "sample_reachable sqroot pow fmt fs s \<Longrightarrow> sample_step sqroot pow fmt fs s s' \<Longrightarrow>
     sample_reachable sqroot pow fmt fs s'"

subsection \<open>What a submission does to the flight\<close>

lemma sample_config_ok: "pc_wf (sample_config fs)" "monotone_deciders (sample_config fs)" "names_fit (sample_config fs)"
proof -
  show "pc_wf (sample_config fs)"
    by (simp add: pc_wf_def sample_config_def sample_deciders_def sample_timer_events_def sample_event_names_def
        sample_source_names_def ev_defs src_defs)
  show "monotone_deciders (sample_config fs)"
    by (auto simp: monotone_deciders_def sample_config_def sample_deciders_def src_defs nth_list_update)
  show "names_fit (sample_config fs)"
    by (simp add: names_fit_def sample_config_def sample_event_names_def sample_source_names_def)
qed

lemma sample_config_sizes [simp]:
  "length (eventNames (sample_config fs)) = 7" "length (sourceNames (sample_config fs)) = 7"
  "length (timerEvents (sample_config fs)) = 5" "length (deciders (sample_config fs)) = 7"
  by (simp_all add: sample_config_def sample_timer_events_def sample_deciders_def sample_event_names_def sample_source_names_def)

lemma sample_config_fields [simp]:
  "timerEvents (sample_config fs) = sample_timer_events" "flight_log (sample_config fs) = Some fs"
  "deciders (sample_config fs) = sample_deciders"
  by (simp_all add: sample_config_def)

lemma length_sample_lists [simp]: "length sample_timer_events = 5" "length sample_deciders = 7"
  by (simp_all add: sample_timer_events_def sample_deciders_def)

text \<open>The event that comes before an event.\<close>

definition comes_after :: "nat \<Rightarrow> nat" where
  "comes_after e = [ev_PadReady, ev_PadReady, ev_Boost, ev_Boost, ev_Noseover, ev_Boost, ev_GroundHit] ! e"

definition sample_order :: "'f pc_state \<Rightarrow> bool" where
  "sample_order st \<longleftrightarrow> (\<forall>e<7. eventStates st ! e \<longrightarrow> eventStates st ! comes_after e)"

definition sample_inv :: "(char, 'f) fs_ops \<Rightarrow> 'f pc_state \<Rightarrow> bool" where
  "sample_inv fs st \<longleftrightarrow> pc_inv (sample_config fs) st \<and> sample_order st"

text \<open>From \<open>st\<close> to \<open>st'\<close> at most the votes in \<open>vs\<close> are new, and no vote and no event is taken back.\<close>

definition votes :: "(nat \<times> nat) set \<Rightarrow> 'f pc_state \<Rightarrow> 'f pc_state \<Rightarrow> bool" where
  "votes vs st st' \<longleftrightarrow>
     (\<forall>e<7. eventStates st ! e \<longrightarrow> eventStates st' ! e) \<and>
     (\<forall>e<7. \<forall>s<7. sourceStates st' ! e ! s \<longrightarrow> sourceStates st ! e ! s \<or> (s, e) \<in> vs)"

lemma votes_refl [simp]: "votes vs st st" by (simp add: votes_def)

lemma votes_event: "votes vs st st' \<Longrightarrow> e < 7 \<Longrightarrow> eventStates st ! e \<Longrightarrow> eventStates st' ! e"
  by (simp add: votes_def)

lemma comes_after_less: "e < 7 \<Longrightarrow> comes_after e < 7"
  by (auto simp: comes_after_def ev_defs nth_Cons less_Suc_eq numeral_eq_Suc split: nat.splits)

lemma sample_order_submitted:
  assumes "pc_shape (sample_config fs) st" "sample_order st" "event < 7" "event = ev_PadReady \<or> eventStates st ! comes_after event"
  shows "sample_order (submitted (sample_config fs) source event st)"
  unfolding sample_order_def
proof (intro allI impI)
  fix e assume e: "e < 7" and occ: "eventStates (submitted (sample_config fs) source event st) ! e"
  have ev: "eventStates (submitted (sample_config fs) source event st) ! e' \<longleftrightarrow> eventStates st ! e' \<or> e' = event \<and>
      (deciders (sample_config fs) ! event) ((sourceStates st ! event)[source := True])" if "e' < 7" for e'
    using submitted_event [OF assms(1), of event e' source] assms(3) that by simp
  have "eventStates st ! comes_after e \<or> e = ev_PadReady \<and> comes_after e = e"
    using occ ev [OF e] assms(2,4) e by (auto simp: sample_order_def comes_after_def ev_defs)
  then show "eventStates (submitted (sample_config fs) source event st) ! comes_after e"
    using ev [OF comes_after_less [OF e]] occ by auto
qed

lemma submitted_votes:
  assumes "pc_shape (sample_config fs) st" "event < 7" "source < 7" "(source, event) \<in> vs"
  shows "votes vs st (submitted (sample_config fs) source event st)"
  using submitted_event [OF assms(1), of event _ source] submitted_source [OF assms(1), of event source] assms(2-)
  by (simp add: votes_def)

lemma sample_inv_log [simp]: "sample_inv fs (st\<lparr>log_file := f\<rparr>) = sample_inv fs st"
  by (simp add: sample_inv_def sample_order_def pc_inv_def)

lemma votes_log [simp]: "votes vs st (st'\<lparr>log_file := f\<rparr>) = votes vs st st'" "votes vs (st\<lparr>log_file := f\<rparr>) st' = votes vs st st'"
  by (simp_all add: votes_def)

lemma SubmitEvent_sample:
  assumes inv: "sample_inv fs st" and ev: "event < 7" "source < 7" "event = ev_PadReady \<or> eventStates st ! comes_after event"
    and sub: "SubmitEvent (sample_config fs) now source event st = Some st'"
  shows "sample_inv fs st' \<and> votes {(source, event)} st st'"
proof -
  have shape: "pc_shape (sample_config fs) st" using inv by (simp add: sample_inv_def pc_inv_def)
  obtain f where st': "st' = submitted (sample_config fs) source event st\<lparr>log_file := f\<rparr>"
    using SubmitEvent_effect [OF shape _ _ _ sub] ev by auto
  have "pc_inv (sample_config fs) st'"
    by (rule pc_inv_step [OF sample_config_ok(1,2) _ pc_step.submit [OF _ _ sub]]) (use inv ev in \<open>simp_all add: sample_inv_def\<close>)
  moreover have "sample_order st'"
    using sample_order_submitted [OF shape _ ev(1,3)] inv st' by (simp add: sample_inv_def sample_order_def)
  ultimately show ?thesis using submitted_votes [OF shape ev(1,2)] st' by (simp add: sample_inv_def)
qed

lemma submit_if_sample:
  assumes "sample_inv fs st" "event < 7" "source < 7" "cond \<Longrightarrow> event = ev_PadReady \<or> eventStates st ! comes_after event"
    "submit_if cond (sample_config fs) now source event st = Some st'"
  shows "sample_inv fs st' \<and> votes {(source, event)} st st'"
  using SubmitEvent_sample [OF assms(1-3)] assms by (auto simp: submit_if_def split: if_splits)

lemma timer_sample:
  assumes inv: "sample_inv fs st" and i: "i < length (timers st)" "timers st ! i"
    and cb: "timer_expiry_cb (sample_config fs) now i st = Some st'"
  shows "sample_inv fs st' \<and> votes {(te_source (sample_timer_events ! i), te_event (sample_timer_events ! i))} st st'"
proof -
  let ?te = "sample_timer_events ! i" and ?st = "st\<lparr>timers := (timers st)[i := False]\<rparr>"
  have shape: "pc_shape (sample_config fs) st" "pc_shape (sample_config fs) ?st"
    using inv by (simp_all add: sample_inv_def pc_inv_def pc_shape_def)
  have i5: "i < 5" using i(1) shape(1) by (simp add: pc_shape_def)
  have te: "te_event ?te < 7" "te_source ?te < 7" "te_start ?te = comes_after (te_event ?te)" "te_event ?te \<noteq> ev_PadReady"
    using i5 by (auto simp: sample_timer_events_def comes_after_def ev_defs src_defs nth_Cons less_Suc_eq numeral_eq_Suc
        split: nat.splits)
  have "timers_served (sample_config fs) st" using inv by (simp add: sample_inv_def pc_inv_def)
  then have start: "eventStates st ! comes_after (te_event ?te)"
    using i i5 by (simp add: timers_served_def Let_def flip: te(3))
  obtain f where st': "st' = submitted (sample_config fs) (te_source ?te) (te_event ?te) ?st\<lparr>log_file := f\<rparr>"
    using expire_effect [OF sample_config_ok(1) shape(1) _ cb] i5 by auto
  have "sample_order ?st" using inv by (simp add: sample_inv_def sample_order_def)
  then have "sample_order st'"
    using sample_order_submitted [OF shape(2) _ te(1)] start st' by (simp add: sample_order_def)
  moreover have "pc_inv (sample_config fs) st'"
    using pc_inv_step [OF sample_config_ok(1,2) _ pc_step.expire [OF i cb]] inv by (simp add: sample_inv_def)
  moreover have "votes {(te_source ?te, te_event ?te)} ?st st'"
    using submitted_votes [OF shape(2) te(1,2)] st' by simp
  ultimately show ?thesis by (simp add: sample_inv_def votes_def)
qed

lemma HasEventOccured_sample: "sample_inv fs st \<Longrightarrow> e < 7 \<Longrightarrow> HasEventOccured e st = Some (eventStates st ! e)"
  by (simp add: HasEventOccured_def sample_inv_def pc_inv_def pc_shape_def)

lemma WaitUntilEvent_sample:
  assumes "sample_inv fs st" "e < 7"
  shows "WaitUntilEvent posted_events e st \<longleftrightarrow> eventStates st ! e"
proof -
  have "confirmed (sample_config fs) st" using assms(1) by (simp add: sample_inv_def pc_inv_def)
  then have "eventStates st ! e \<longleftrightarrow> bit (osEvents st) e" using assms(2) unfolding confirmed_def sample_config_sizes by blast
  then show ?thesis by (simp add: WaitUntilEvent_def posted_events_def Let_def and_exp_eq_0_iff_not_bit)
qed

lemma votes_mono: "votes vs st st' \<Longrightarrow> vs \<subseteq> vs' \<Longrightarrow> votes vs' st st'"
  by (auto simp: votes_def)

subsection \<open>The turns keep the order\<close>

definition imu_ok :: "'a imu_thread \<Rightarrow> 'f pc_state \<Rightarrow> bool" where
  "imu_ok t st \<longleftrightarrow>
     (case t of Imu_loop _ \<Rightarrow> eventStates st ! ev_PadReady | Imu_end \<Rightarrow> eventStates st ! ev_GroundHit | _ \<Rightarrow> True)"

definition locals_ok :: "'a::linordered_field barom_locals \<Rightarrow> bool" where
  "locals_ok d \<longleftrightarrow> rs_ok (velocity_summer d) \<and> rs_ok (ground_level_avger d)"

definition barom_ok :: "'a::linordered_field barom_thread \<Rightarrow> 'f pc_state \<Rightarrow> bool" where
  "barom_ok t st \<longleftrightarrow>
     (case t of
        Barom_ready \<Rightarrow> True | Barom_wait \<Rightarrow> True | Barom_end \<Rightarrow> eventStates st ! ev_GroundHit
      | Barom_loop d \<Rightarrow> eventStates st ! ev_PadReady \<and> locals_ok d
      | Barom_boost d _ \<Rightarrow> eventStates st ! ev_PadReady \<and> locals_ok d
      | Barom_noseover d _ \<Rightarrow> eventStates st ! ev_PadReady \<and> locals_ok d
      | Barom_main d _ \<Rightarrow> eventStates st ! ev_PadReady \<and> locals_ok d
      | Barom_ground d _ \<Rightarrow> eventStates st ! ev_PadReady \<and> locals_ok d)"

lemma ev_less [simp]: "ev_PadReady < 7" "ev_Boost < 7" "ev_Coast < 7" "ev_Noseover < 7" "ev_MainChute < 7"
  "ev_GroundHit < 7" "ev_CamerasOff < 7" "src_IMU1 < 7" "src_Barom1 < 7"
  by (simp_all add: ev_defs src_defs)

lemma after [simp]: "comes_after ev_Boost = ev_PadReady" "comes_after ev_Coast = ev_Boost" "comes_after ev_Noseover = ev_Boost"
  "comes_after ev_MainChute = ev_Noseover" "comes_after ev_GroundHit = ev_Boost" "comes_after ev_CamerasOff = ev_GroundHit"
  by (simp_all add: comes_after_def ev_defs)

lemma imu_ok_votes: "imu_ok t st \<Longrightarrow> votes vs st st' \<Longrightarrow> imu_ok t st'"
  by (auto simp: imu_ok_def votes_event split: imu_thread.splits)

lemma barom_ok_votes: "barom_ok t st \<Longrightarrow> votes vs st st' \<Longrightarrow> barom_ok t st'"
  by (auto simp: barom_ok_def votes_event split: barom_thread.splits)

lemma imu_measure_ok:
  assumes run: "imu_measure sqroot (sample_config fs) now timestamp xyz d st = Some (d', st')"
    and inv: "sample_inv fs st" and pad: "eventStates st ! ev_PadReady"
  shows "sample_inv fs st' \<and> votes ({src_IMU1} \<times> UNIV) st st'"
proof -
  obtain x y z where xyz: "xyz = (x, y, z)" by (cases xyz)
  have ev: "HasEventOccured ev_Boost st = Some (eventStates st ! ev_Boost)" "HasEventOccured ev_Coast st = Some (eventStates st ! ev_Coast)"
    using HasEventOccured_sample [OF inv] by simp_all
  consider "st' = st" | c event where "submit_if c (sample_config fs) now src_IMU1 event st = Some st'" "event < 7"
      "eventStates st ! comes_after event"
    using run pad by (auto simp: imu_measure_def xyz ev Let_def split: if_splits Option.bind_splits)
  then show ?thesis
  proof cases
    case 1 then show ?thesis using inv by simp
  next
    case 2
    then show ?thesis using submit_if_sample [OF inv 2(2) _ _ 2(1)] by (auto elim!: votes_mono)
  qed
qed

lemma imu_turn_ok:
  assumes run: "imu_turn sqroot (sample_config fs) now timestamp xyz t st = Some (t', st')"
    and inv: "sample_inv fs st" and ok: "imu_ok t st"
  shows "sample_inv fs st' \<and> votes ({src_IMU1} \<times> UNIV) st st' \<and> imu_ok t' st'"
proof (cases t)
  case (Imu_ready d)
  then have "SubmitEvent (sample_config fs) now src_IMU1 ev_PadReady st = Some st'" "t' = Imu_wait d"
    using run by (auto simp: imu_turn_def split: Option.bind_splits)
  then show ?thesis
    using SubmitEvent_sample [OF inv ev_less(1,8) disjI1 [OF refl], of now st'] by (auto simp: imu_ok_def elim!: votes_mono)
next
  case (Imu_wait d)
  then show ?thesis using run inv by (auto simp: imu_turn_def imu_ok_def WaitUntilEvent_sample [OF inv])
next
  case (Imu_loop d)
  have pad: "eventStates st ! ev_PadReady" using ok Imu_loop by (simp add: imu_ok_def)
  show ?thesis
  proof (cases "eventStates st ! ev_GroundHit")
    case True
    then show ?thesis using run inv Imu_loop by (auto simp: imu_turn_def imu_ok_def HasEventOccured_sample [OF inv])
  next
    case False
    then obtain d' where m: "imu_measure sqroot (sample_config fs) now timestamp xyz d st = Some (d', st')" "t' = Imu_loop d'"
      using run Imu_loop by (auto simp: imu_turn_def HasEventOccured_sample [OF inv] split: Option.bind_splits)
    then show ?thesis using imu_measure_ok [OF m(1) inv pad] pad by (auto simp: imu_ok_def votes_event)
  qed
next
  case Imu_end
  then show ?thesis using run inv ok by (simp add: imu_turn_def)
qed

lemma print_to_log_ok:
  "print_to_log (sample_config fs) now msg st = Some st' \<Longrightarrow> \<exists>f. st' = st\<lparr>log_file := f\<rparr>"
  by (auto simp: print_to_log_def Let_def split: Option.bind_splits)

lemma rs_new_ok: "0 < n \<Longrightarrow> \<exists>rs. rs_new n v = Some rs \<and> rs_ok rs"
  using rs_Fill_ok [of "\<lparr>total = 0, buf = cbuf_new n v\<rparr>" v] cbuf_new_ok [of n v] by (auto simp: rs_new_def)

lemma rs_Feed_keeps: "rs_Feed v rs = Some rs' \<Longrightarrow> rs_ok rs \<Longrightarrow> rs_ok rs'"
  using rs_Feed_ok [of rs v] by auto

lemma locals_new_ok:
  fixes p :: "'a::linordered_field"
  shows "\<exists>d. barom_locals_new pow p = Some d \<and> locals_ok d"
  using rs_new_ok [of window_size "fit_sample 0 0 :: 'a LinearFitSample"] rs_new_ok [of 100 "rrc3_altitude_conversion_to_feet pow p"]
  by (auto simp: barom_locals_new_def locals_ok_def Let_def window_size_def)

lemma barom_measure_ok:
  assumes "locals_ok d" "eventStates st ! ev_PadReady"
  shows "\<exists>t. barom_measure pow time p d = Some t \<and> barom_ok t st"
  using rs_Feed_ok [of "velocity_summer d" "fit_sample (of_int (uint time) / 1000) (rrc3_altitude_conversion_to_feet pow p)"] assms
  by (auto simp: barom_measure_def locals_ok_def barom_ok_def Let_def)

text \<open>Every check goes on with the next, and submits at most one vote of the barometer.\<close>

lemma barom_submit:
  assumes "submit_if c (sample_config fs) now src_Barom1 event st = Some st'" "sample_inv fs st" "event < 7"
    "c \<Longrightarrow> event = ev_PadReady \<or> eventStates st ! comes_after event"
  shows "sample_inv fs st' \<and> votes ({src_Barom1} \<times> UNIV) st st'"
  using submit_if_sample [OF assms(2,3) _ assms(4,1)] by (auto elim!: votes_mono)

lemma barom_check_boost_ok:
  assumes run: "barom_check_boost (sample_config fs) now d v st = Some (t', st')"
    and inv: "sample_inv fs st" and pad: "eventStates st ! ev_PadReady" and ok: "locals_ok d"
  shows "sample_inv fs st' \<and> votes ({src_Barom1} \<times> UNIV) st st' \<and> barom_ok t' st'"
proof (cases "eventStates st ! ev_Boost")
  case True
  then show ?thesis
    using run inv ok pad by (auto simp: barom_check_boost_def HasEventOccured_sample [OF inv] barom_ok_def)
next
  case False
  obtain d' c where t': "t' = Barom_noseover d' v" "locals_ok d'"
    and sub: "submit_if c (sample_config fs) now src_Barom1 ev_Boost st = Some st'"
    using run ok False
    by (auto simp: barom_check_boost_def HasEventOccured_sample [OF inv] Let_def locals_ok_def dest: rs_Feed_keeps
        split: Option.bind_splits)
  show ?thesis using barom_submit [OF sub inv] pad t' by (auto simp: barom_ok_def votes_event)
qed

lemma barom_check_noseover_ok:
  assumes run: "barom_check_noseover fmt (sample_config fs) now print_now d v st = Some (t', st')"
    and inv: "sample_inv fs st" and pad: "eventStates st ! ev_PadReady" and ok: "locals_ok d"
  shows "sample_inv fs st' \<and> votes ({src_Barom1} \<times> UNIV) st st' \<and> barom_ok t' st'"
proof -
  obtain d' c st1 f where t': "t' = Barom_main d' v" "locals_ok d'"
    and sub: "submit_if c (sample_config fs) now src_Barom1 ev_Noseover st = Some st1" "c \<Longrightarrow> eventStates st ! ev_Boost"
    and st': "st' = st1\<lparr>log_file := f\<rparr>"
  proof (cases "eventStates st ! ev_Noseover")
    case True
    then have "t' = Barom_main d v" "st' = st\<lparr>log_file := log_file st\<rparr>"
      using run by (auto simp: barom_check_noseover_def HasEventOccured_sample [OF inv])
    then show ?thesis using that [of d False st "log_file st"] ok by (simp add: submit_if_def)
  next
    case False
    define d' where "d' = d\<lparr>noseover_debouncer := db_Feed Under (time_ms v) (velocity_ft_s v) (noseover_debouncer d)\<rparr>"
    have d': "locals_ok d'" using ok by (simp add: d'_def locals_ok_def)
    show ?thesis
    proof (cases "eventStates st ! ev_Boost \<and> db_Passed (noseover_debouncer d')")
      case True
      then obtain st1 where "SubmitEvent (sample_config fs) now src_Barom1 ev_Noseover st = Some st1"
          "print_to_log (sample_config fs) print_now (noseover_message fmt v) st1 = Some st'" "t' = Barom_main d' v"
        using run False by (auto simp: barom_check_noseover_def HasEventOccured_sample [OF inv] Let_def d'_def split: Option.bind_splits)
      moreover obtain f where "st' = st1\<lparr>log_file := f\<rparr>" using print_to_log_ok [OF calculation(2)] by blast
      ultimately show ?thesis using that [of d' True st1 f] d' True by (simp add: submit_if_def)
    next
      case no: False
      then have "t' = Barom_main d' v" "st' = st\<lparr>log_file := log_file st\<rparr>"
        using run False by (auto simp: barom_check_noseover_def HasEventOccured_sample [OF inv] Let_def d'_def)
      then show ?thesis using that [of d' False st "log_file st"] d' by (simp add: submit_if_def)
    qed
  qed
  have "sample_inv fs st1 \<and> votes ({src_Barom1} \<times> UNIV) st st1" by (rule barom_submit [OF sub(1) inv]) (use sub(2) in simp_all)
  then show ?thesis using st' t' pad by (auto simp: barom_ok_def votes_event)
qed

lemma barom_check_main_ok:
  assumes run: "barom_check_main (sample_config fs) now d v st = Some (t', st')"
    and inv: "sample_inv fs st" and pad: "eventStates st ! ev_PadReady" and ok: "locals_ok d"
  shows "sample_inv fs st' \<and> votes ({src_Barom1} \<times> UNIV) st st' \<and> barom_ok t' st'"
proof (cases "eventStates st ! ev_MainChute")
  case True
  then show ?thesis
    using run inv ok pad by (auto simp: barom_check_main_def HasEventOccured_sample [OF inv] barom_ok_def)
next
  case False
  obtain d' c where t': "t' = Barom_ground d' v" "locals_ok d'"
    and sub: "submit_if (eventStates st ! ev_Noseover \<and> c) (sample_config fs) now src_Barom1 ev_MainChute st = Some st'"
    using run ok False
    by (auto simp: barom_check_main_def HasEventOccured_sample [OF inv] Let_def locals_ok_def split: Option.bind_splits)
  show ?thesis using barom_submit [OF sub inv] pad t' by (auto simp: barom_ok_def votes_event)
qed

lemma barom_check_ground_ok:
  assumes run: "barom_check_ground (sample_config fs) now d v st = Some (t', st')"
    and inv: "sample_inv fs st" and pad: "eventStates st ! ev_PadReady" and ok: "locals_ok d"
  shows "sample_inv fs st' \<and> votes ({src_Barom1} \<times> UNIV) st st' \<and> barom_ok t' st'"
proof (cases "eventStates st ! ev_GroundHit")
  case True
  then show ?thesis
    using run inv ok pad by (auto simp: barom_check_ground_def HasEventOccured_sample [OF inv] barom_ok_def)
next
  case False
  obtain d' c where t': "t' = Barom_loop d'" "locals_ok d'"
    and sub: "submit_if (eventStates st ! ev_Boost \<and> c) (sample_config fs) now src_Barom1 ev_GroundHit st = Some st'"
    using run ok False
    by (auto simp: barom_check_ground_def HasEventOccured_sample [OF inv] Let_def locals_ok_def split: Option.bind_splits)
  show ?thesis using barom_submit [OF sub inv] pad t' by (auto simp: barom_ok_def votes_event)
qed

lemma barom_turn_ok:
  assumes run: "barom_turn pow fmt (sample_config fs) now print_now time p t st = Some (t', st')"
    and inv: "sample_inv fs st" and ok: "barom_ok t st"
  shows "sample_inv fs st' \<and> votes ({src_Barom1} \<times> UNIV) st st' \<and> barom_ok t' st'"
proof (cases t)
  case Barom_ready
  then have "submit_if True (sample_config fs) now src_Barom1 ev_PadReady st = Some st'" "t' = Barom_wait"
    using run by (auto simp: barom_turn_def submit_if_def split: Option.bind_splits)
  then show ?thesis using barom_submit [OF _ inv] by (auto simp: barom_ok_def)
next
  case Barom_wait
  then show ?thesis
    using run inv locals_new_ok [of pow p]
    by (auto simp: barom_turn_def barom_ok_def WaitUntilEvent_sample [OF inv] split: if_splits)
next
  case (Barom_loop d)
  have d: "eventStates st ! ev_PadReady" "locals_ok d" using ok Barom_loop by (simp_all add: barom_ok_def)
  show ?thesis
  proof (cases "eventStates st ! ev_GroundHit")
    case True
    then obtain f where "st' = st\<lparr>log_file := f\<rparr>" "t' = Barom_end"
      using run Barom_loop print_to_log_ok
      by (fastforce simp: barom_turn_def HasEventOccured_sample [OF inv] split: Option.bind_splits)
    then show ?thesis using inv True by (simp add: barom_ok_def)
  next
    case False
    then show ?thesis
      using run Barom_loop inv barom_measure_ok [OF d(2,1), of pow time p]
      by (auto simp: barom_turn_def HasEventOccured_sample [OF inv])
  qed
next
  case (Barom_boost d v)
  then show ?thesis using barom_check_boost_ok [OF _ inv, of now d v t' st'] run ok by (simp add: barom_turn_def barom_ok_def)
next
  case (Barom_noseover d v)
  then show ?thesis using barom_check_noseover_ok [OF _ inv, of fmt now print_now d v t' st'] run ok by (simp add: barom_turn_def barom_ok_def)
next
  case (Barom_main d v)
  then show ?thesis using barom_check_main_ok [OF _ inv, of now d v t' st'] run ok by (simp add: barom_turn_def barom_ok_def)
next
  case (Barom_ground d v)
  then show ?thesis using barom_check_ground_ok [OF _ inv, of now d v t' st'] run ok by (simp add: barom_turn_def barom_ok_def)
next
  case Barom_end
  then show ?thesis using run inv ok by (simp add: barom_turn_def)
qed

subsection \<open>The whole program\<close>

lemma main_waits_nth [simp]: "length main_waits = 7" "k < 7 \<Longrightarrow> main_waits ! k = k"
  by (auto simp: main_waits_def ev_defs nth_Cons less_Suc_eq numeral_eq_Suc split: nat.splits)

text \<open>The periods of the two timers while the main program waits for the event \<open>k\<close>.\<close>

definition imu_period :: "nat \<Rightarrow> int option" where
  "imu_period k = (if k < 1 \<or> 5 < k then None else if k < 3 then Some 1 else Some 10)"

definition barom_period :: "nat \<Rightarrow> int option" where
  "barom_period k = (if k < 1 \<or> 5 < k then None else Some 10)"

definition main_ok :: "('a, 'f) sample \<Rightarrow> bool" where
  "main_ok s \<longleftrightarrow>
     (case main_thr s of
        Main_start \<Rightarrow> imu_timer s = None \<and> barom_timer s = None
      | Main_wait k \<Rightarrow> k < 7 \<and> (\<forall>e<k. eventStates (ctl s) ! e) \<and> imu_timer s = imu_period k \<and> barom_timer s = barom_period k
      | Main_end r \<Rightarrow> r = 0 \<and> (\<forall>e<7. eventStates (ctl s) ! e) \<and> imu_timer s = None \<and> barom_timer s = None)"

definition sample_ok :: "(char, 'f) fs_ops \<Rightarrow> ('a::linordered_field, 'f) sample \<Rightarrow> bool" where
  "sample_ok fs s \<longleftrightarrow> sample_inv fs (ctl s) \<and> imu_ok (imu_thr s) (ctl s) \<and> barom_ok (barom_thr s) (ctl s) \<and> main_ok s"

lemma main_after_fields [simp]: "ctl (main_after k s) = ctl s" "imu_thr (main_after k s) = imu_thr s"
  "barom_thr (main_after k s) = barom_thr s" "main_thr (main_after k s) = main_thr s"
  by (simp_all add: main_after_def)

lemma main_turn_threads [simp]: "imu_thr (main_turn fs s) = imu_thr s" "barom_thr (main_turn fs s) = barom_thr s"
  by (simp_all add: main_turn_def Let_def split: main_thread.split prod.split)

lemma main_turn_log: "\<exists>f. ctl (main_turn fs s) = ctl s\<lparr>log_file := f\<rparr>"
proof -
  have "ctl (main_turn fs s) = ctl s \<or> (\<exists>f. ctl (main_turn fs s) = ctl s\<lparr>log_file := f\<rparr>)"
    by (simp add: main_turn_def Let_def split: main_thread.split prod.split) blast
  moreover have "ctl s = ctl s\<lparr>log_file := log_file (ctl s)\<rparr>" by simp
  ultimately show ?thesis by metis
qed

lemma main_turn_inv: "sample_inv fs (ctl (main_turn fs s)) = sample_inv fs (ctl s)" "votes {} (ctl s) (ctl (main_turn fs s))"
proof -
  obtain f where "ctl (main_turn fs s) = ctl s\<lparr>log_file := f\<rparr>" using main_turn_log [of fs s] by (elim exE)
  then show "sample_inv fs (ctl (main_turn fs s)) = sample_inv fs (ctl s)" "votes {} (ctl s) (ctl (main_turn fs s))"
    by simp_all
qed

lemma main_turn_ok:
  assumes ok: "main_ok s" and inv: "sample_inv fs (ctl s)"
  shows "main_ok (main_turn fs s)"
proof (cases "main_thr s")
  case Main_start
  then show ?thesis by (simp add: main_turn_def main_ok_def imu_period_def barom_period_def)
next
  case (Main_wait k)
  have k: "k < 7" "\<forall>e<k. eventStates (ctl s) ! e" "imu_timer s = imu_period k" "barom_timer s = barom_period k"
    using ok Main_wait by (simp_all add: main_ok_def)
  show ?thesis
  proof (cases "eventStates (ctl s) ! k")
    case True
    then have all: "\<forall>e<Suc k. eventStates (ctl s) ! e" using k(2) by (auto simp: less_Suc_eq)
    have after: "imu_timer (main_after k s) = imu_period (Suc k)" "barom_timer (main_after k s) = barom_period (Suc k)"
      using k by (simp_all add: main_after_def ev_defs imu_period_def barom_period_def)
    note wait = WaitUntilEvent_sample [OF inv k(1)]
    show ?thesis
    proof (cases "Suc k < 7")
      case False
      then have k6: "Suc k = 7" using k(1) by simp
      then have "imu_period (Suc k) = None" "barom_period (Suc k) = None" by (simp_all add: imu_period_def barom_period_def)
      then show ?thesis
        using Main_wait k(1) True all after wait False
        by (simp add: main_turn_def main_ok_def k6 split: prod.splits)
    qed (use Main_wait k(1) True all after wait in \<open>simp add: main_turn_def main_ok_def\<close>)
  next
    case False
    then show ?thesis using Main_wait ok k(1) WaitUntilEvent_sample [OF inv k(1)] by (simp add: main_turn_def)
  qed
next
  case (Main_end r)
  then show ?thesis using ok by (simp add: main_turn_def)
qed

lemma main_ok_votes:
  assumes "main_ok s" "votes vs (ctl s) (ctl s')" "main_thr s' = main_thr s" "imu_timer s' = imu_timer s" "barom_timer s' = barom_timer s"
  shows "main_ok s'"
  using assms by (auto simp: main_ok_def votes_def split: main_thread.splits)

text \<open>A step of one part keeps what holds of the others.\<close>

lemma sample_ok_votes:
  assumes "sample_ok fs s" and v: "votes vs (ctl s) (ctl s')" and "sample_inv fs (ctl s')" and "main_ok s'"
    and "imu_thr s' = imu_thr s \<or> imu_ok (imu_thr s') (ctl s')" and "barom_thr s' = barom_thr s \<or> barom_ok (barom_thr s') (ctl s')"
  shows "sample_ok fs s' \<and> votes UNIV (ctl s) (ctl s')"
proof -
  have "imu_ok (imu_thr s) (ctl s')" "barom_ok (barom_thr s) (ctl s')"
    using assms(1) by (auto simp: sample_ok_def intro: imu_ok_votes [OF _ v] barom_ok_votes [OF _ v])
  then show ?thesis using assms(3-) votes_mono [OF v subset_UNIV] unfolding sample_ok_def by metis
qed

lemma sample_step_ok:
  assumes step: "sample_step sqroot pow fmt fs s s'" and ok: "sample_ok fs s"
  shows "sample_ok fs s' \<and> votes UNIV (ctl s) (ctl s')"
  using step
proof (cases rule: sample_step.cases)
  case (imu now timestamp xyz t st)
  have t: "sample_inv fs st \<and> votes ({src_IMU1} \<times> UNIV) (ctl s) st \<and> imu_ok t st"
    using imu_turn_ok [OF imu(2)] ok by (simp add: sample_ok_def)
  then have votes_t: "votes ({src_IMU1} \<times> UNIV) (ctl s) (ctl s')" using imu(1) by simp
  have "main_ok s'" using ok by (intro main_ok_votes [OF _ votes_t]) (simp_all add: imu(1) sample_ok_def)
  then show ?thesis by (intro sample_ok_votes [OF ok votes_t]) (use t imu(1) in simp_all)
next
  case (barom now print_now time press_kpa t st)
  have t: "sample_inv fs st \<and> votes ({src_Barom1} \<times> UNIV) (ctl s) st \<and> barom_ok t st"
    using barom_turn_ok [OF barom(2)] ok by (simp add: sample_ok_def)
  then have votes_t: "votes ({src_Barom1} \<times> UNIV) (ctl s) (ctl s')" using barom(1) by simp
  have "main_ok s'" using ok by (intro main_ok_votes [OF _ votes_t]) (simp_all add: barom(1) sample_ok_def)
  then show ?thesis by (intro sample_ok_votes [OF ok votes_t]) (use t barom(1) in simp_all)
next
  case main
  have "sample_inv fs (ctl s)" "main_ok s" using ok by (simp_all add: sample_ok_def)
  then have "sample_inv fs (ctl s')" "main_ok s'" using main main_turn_inv(1) [of fs s] main_turn_ok [of s fs] by simp_all
  then show ?thesis
    using main main_turn_inv(2) [of s fs] by (intro sample_ok_votes [OF ok, of "{}"]) simp_all
next
  case (timer i now st)
  have t: "sample_inv fs st \<and> votes {(te_source (sample_timer_events ! i), te_event (sample_timer_events ! i))} (ctl s) st"
    using timer_sample [OF _ timer(2,3,4)] ok by (simp add: sample_ok_def)
  then have votes_t: "votes {(te_source (sample_timer_events ! i), te_event (sample_timer_events ! i))} (ctl s) (ctl s')"
    using timer(1) by simp
  have "main_ok s'" using ok by (intro main_ok_votes [OF _ votes_t]) (simp_all add: timer(1) sample_ok_def)
  then show ?thesis by (intro sample_ok_votes [OF ok votes_t]) (use t timer(1) in simp_all)
qed

lemma sample_boot_ok:
  assumes "sample_boot fs now f = Some s"
  shows "sample_ok fs s"
proof -
  obtain f' st where st: "pc_new (sample_config fs) now f' = Some st"
    and s: "s = \<lparr>ctl = st, imu_thr = Imu_ready imu_detectors_new, barom_thr = Barom_ready, main_thr = Main_start,
       imu_timer = None, barom_timer = None\<rparr>"
    using assms by (auto simp: sample_boot_def split: Option.bind_splits)
  have "eventStates st = replicate 7 False"
    using st by (auto simp: pc_new_def Let_def split: option.splits)
  then have "sample_order st" by (simp add: sample_order_def)
  then show ?thesis
    using s pc_inv_init [OF st sample_config_ok(1)]
    by (simp add: sample_ok_def sample_inv_def imu_ok_def barom_ok_def main_ok_def)
qed

lemma sample_reachable_ok: "sample_reachable sqroot pow fmt fs s \<Longrightarrow> sample_ok fs s"
  by (induction rule: sample_reachable.induct) (auto dest: sample_boot_ok sample_step_ok)

subsection \<open>Every turn returns\<close>

text \<open>The log prints up to ten digits of the uptime.\<close>

definition clock_ok :: "int \<times> int \<Rightarrow> bool" where
  "clock_ok now \<longleftrightarrow> 0 \<le> fst now \<and> fst now < 10 ^ 10 \<and> 0 \<le> snd now \<and> snd now < 10 ^ 10"

lemma Submit_sample_total:
  assumes "sample_inv fs st" "event < 7" "source < 7" "clock_ok now"
  shows "\<exists>st'. SubmitEvent (sample_config fs) now source event st = Some st'"
  using SubmitEvent_total [OF sample_config_ok(1,3), of fs st event source now] assms
  by (simp add: sample_inv_def pc_inv_def clock_ok_def)

lemma submit_if_sample_total:
  assumes "sample_inv fs st" "event < 7" "source < 7" "clock_ok now"
  shows "submit_if c (sample_config fs) now source event st \<noteq> None"
  using Submit_sample_total [OF assms] by (auto simp: submit_if_def)

definition writes_succeed :: "(char, 'f) fs_ops \<Rightarrow> bool" where
  "writes_succeed fs \<longleftrightarrow> (\<forall>bytes f. 0 \<le> fst (fs_write fs bytes f))"

lemma print_to_log_total:
  assumes "0 \<le> now" "now < 10 ^ 10"
  shows "length msg \<le> 256 \<Longrightarrow> print_to_log (sample_config fs) now msg st \<noteq> None"
    "\<not> length msg \<le> 256 \<Longrightarrow> writes_succeed fs \<Longrightarrow> print_to_log (sample_config fs) now msg st = None"
proof -
  have ret: "writes_succeed fs \<Longrightarrow> fs_write fs bytes f = (r, f') \<Longrightarrow> \<not> r < 0" for bytes f r f'
    unfolding writes_succeed_def by (metis fst_conv leD)
  have "length (snprintf_buf 256 msg) = 256" by (auto simp: snprintf_buf_def)
  then show "length msg \<le> 256 \<Longrightarrow> print_to_log (sample_config fs) now msg st \<noteq> None"
    "\<not> length msg \<le> 256 \<Longrightarrow> writes_succeed fs \<Longrightarrow> print_to_log (sample_config fs) now msg st = None"
    using timestamp_bytes [OF assms(1,2), of fs "log_file st"] ret
    by (auto simp: print_to_log_def Let_def fl_Write_def from_buf_def split: prod.splits)
qed

text \<open>
  The line a turn of the barometer's thread prints to its buffer of 256 characters, if it prints one, and the altitudes on it.
\<close>

definition printed_line :: "('a::linordered_field \<Rightarrow> string) \<Rightarrow> 'a barom_thread \<Rightarrow> 'f pc_state \<Rightarrow> string option" where
  "printed_line fmt t st =
     (case t of
        Barom_loop d \<Rightarrow> if eventStates st ! ev_GroundHit then Some (max_altitude_message fmt d) else None
      | Barom_noseover d v \<Rightarrow>
          if \<not> eventStates st ! ev_Noseover \<and> eventStates st ! ev_Boost \<and>
             db_Passed (db_Feed Under (time_ms v) (velocity_ft_s v) (noseover_debouncer d))
          then Some (noseover_message fmt v) else None
      | _ \<Rightarrow> None)"

definition line_fits :: "('a::linordered_field \<Rightarrow> string) \<Rightarrow> 'a barom_thread \<Rightarrow> 'f pc_state \<Rightarrow> bool" where
  "line_fits fmt t st \<longleftrightarrow> (case printed_line fmt t st of None \<Rightarrow> True | Some line \<Rightarrow> length line \<le> 256)"

definition altitudes :: "'a barom_thread \<Rightarrow> 'a list" where
  "altitudes t = (case t of Barom_loop d \<Rightarrow> [max_feet_agl d] | Barom_noseover d v \<Rightarrow> [feet_agl v, feet v] | _ \<Rightarrow> [])"

text \<open>
  The documented behaviour of \<open>%.2f\<close>: a number below \<open>10^d\<close> is printed with a sign, the digits before the point, of which rounding
  may add one, the point and two digits.
\<close>

definition prints_two_decimals :: "('a::linordered_field \<Rightarrow> string) \<Rightarrow> bool" where
  "prints_two_decimals fmt \<longleftrightarrow> (\<forall>x d. 0 < d \<and> \<bar>x\<bar> < 10 ^ d \<longrightarrow> length (fmt x) \<le> d + 5)"

lemma altitudes_fit:
  assumes "prints_two_decimals fmt" "\<forall>x \<in> set (altitudes t). \<bar>x\<bar> < 10 ^ 92"
  shows "line_fits fmt t st"
proof -
  have "length (fmt x) \<le> 97" if "x \<in> set (altitudes t)" for x
    using assms(1) [unfolded prints_two_decimals_def, rule_format, of 92 x] assms(2) that by simp
  then have "list_all (\<lambda>x. length (fmt x) \<le> 97) (altitudes t)" by (simp add: list_all_iff)
  then show ?thesis
    by (cases t) (auto simp: altitudes_def line_fits_def printed_line_def noseover_message_def max_altitude_message_def)
qed

lemma imu_turn_total:
  assumes inv: "sample_inv fs st" and now: "clock_ok now"
  shows "\<exists>r. imu_turn sqroot (sample_config fs) now timestamp xyz t st = Some r"
proof -
  obtain x y z where xyz: "xyz = (x, y, z)" by (cases xyz)
  note occ = HasEventOccured_sample [OF inv] and sub = submit_if_sample_total [OF inv _ _ now]
  have m: "imu_measure sqroot (sample_config fs) now timestamp xyz d st \<noteq> None" for d
    unfolding imu_measure_def xyz prod.case Let_def occ [OF ev_less(2)] occ [OF ev_less(3)] Option.bind_lunit
    by (auto simp: sub [OF ev_less(2,8)] sub [OF ev_less(3,8)] split: Option.bind_splits)
  have pad: "SubmitEvent (sample_config fs) now src_IMU1 ev_PadReady st \<noteq> None"
    using Submit_sample_total [OF inv ev_less(1,8) now] by auto
  have "imu_turn sqroot (sample_config fs) now timestamp xyz t st \<noteq> None"
    by (cases t) (auto simp: imu_turn_def occ m pad split: Option.bind_splits)
  then show ?thesis by (cases "imu_turn sqroot (sample_config fs) now timestamp xyz t st") simp_all
qed

lemma barom_turn_total:
  fixes p :: "'a::linordered_field"
  assumes inv: "sample_inv fs st" and ok: "barom_ok t st" and now: "clock_ok now" "clock_ok print_now"
  shows "line_fits fmt t st \<Longrightarrow> barom_turn pow fmt (sample_config fs) now (fst print_now) time p t st \<noteq> None"
    "\<not> line_fits fmt t st \<Longrightarrow> writes_succeed fs \<Longrightarrow> barom_turn pow fmt (sample_config fs) now (fst print_now) time p t st = None"
proof -
  note occ = HasEventOccured_sample [OF inv] and sub = submit_if_sample_total [OF inv _ ev_less(9) now(1)]
  have "0 \<le> fst print_now" "fst print_now < 10 ^ 10" using now(2) by (simp_all add: clock_ok_def)
  note print = print_to_log_total [OF this, where fs = fs]
  note submit = Submit_sample_total [OF inv _ ev_less(9) now(1)]
  note fits = line_fits_def printed_line_def
  have "if line_fits fmt t st then barom_turn pow fmt (sample_config fs) now (fst print_now) time p t st \<noteq> None
    else writes_succeed fs \<longrightarrow> barom_turn pow fmt (sample_config fs) now (fst print_now) time p t st = None"
  proof (cases t)
    case Barom_ready
    then show ?thesis using submit [OF ev_less(1)] by (auto simp: barom_turn_def fits)
  next
    case Barom_wait
    then show ?thesis using locals_new_ok [of pow p] by (auto simp: barom_turn_def fits)
  next
    case (Barom_loop d)
    then have "eventStates st ! ev_PadReady" "locals_ok d" using ok by (simp_all add: barom_ok_def)
    then have "\<exists>t'. barom_measure pow time p d = Some t'" using barom_measure_ok by blast
    then show ?thesis using Barom_loop print [of "max_altitude_message fmt d" st]
      by (auto simp: barom_turn_def occ fits split: Option.bind_splits)
  next
    case (Barom_boost d v)
    then have "rs_ok (ground_level_avger d)" using ok by (simp add: barom_ok_def locals_ok_def)
    then have "\<exists>g. rs_Feed (feet v) (ground_level_avger d) = Some g" using rs_Feed_ok by blast
    then show ?thesis
      using Barom_boost by (auto simp: barom_turn_def barom_check_boost_def occ fits sub [OF ev_less(2)] split: Option.bind_splits)
  next
    case (Barom_noseover d v)
    obtain st1 where "SubmitEvent (sample_config fs) now src_Barom1 ev_Noseover st = Some st1" using submit [OF ev_less(4)] by blast
    then show ?thesis
      using Barom_noseover print [of "noseover_message fmt v" st1]
      by (auto simp: barom_turn_def barom_check_noseover_def occ Let_def fits split: Option.bind_splits)
  next
    case (Barom_main d v)
    then show ?thesis
      by (auto simp: barom_turn_def barom_check_main_def occ sub [OF ev_less(5)] Let_def fits split: Option.bind_splits)
  next
    case (Barom_ground d v)
    then show ?thesis
      by (auto simp: barom_turn_def barom_check_ground_def occ sub [OF ev_less(6)] Let_def fits split: Option.bind_splits)
  qed (simp add: barom_turn_def fits)
  then show "line_fits fmt t st \<Longrightarrow> barom_turn pow fmt (sample_config fs) now (fst print_now) time p t st \<noteq> None"
    "\<not> line_fits fmt t st \<Longrightarrow> writes_succeed fs \<Longrightarrow> barom_turn pow fmt (sample_config fs) now (fst print_now) time p t st = None"
    by simp_all
qed

lemma timer_total:
  assumes inv: "sample_inv fs st" and "i < 5" "clock_ok now"
  shows "\<exists>st'. timer_expiry_cb (sample_config fs) now i st = Some st'"
proof -
  let ?te = "sample_timer_events ! i" and ?st = "st\<lparr>timers := (timers st)[i := False]\<rparr>"
  have "te_event ?te < 7" "te_source ?te < 7"
    using assms(2) by (auto simp: sample_timer_events_def ev_defs src_defs nth_Cons less_Suc_eq numeral_eq_Suc split: nat.splits)
  moreover have "pc_shape (sample_config fs) ?st" using inv by (simp add: sample_inv_def pc_inv_def pc_shape_def)
  ultimately show ?thesis
    using SubmitEvent_total [OF sample_config_ok(1,3), of fs ?st "te_event ?te" "te_source ?te" now] assms(2,3)
    by (simp add: timer_expiry_cb_def clock_ok_def)
qed

subsection \<open>How the main program ends\<close>

lemma main_turn_next:
  assumes "main_thr s = Main_wait k" "k < 7" "sample_inv fs (ctl s)" "eventStates (ctl s) ! k"
  shows "main_thr (main_turn fs s) = (if Suc k < 7 then Main_wait (Suc k) else Main_end 0)"
  using assms WaitUntilEvent_sample [OF assms(3,2)] by (simp add: main_turn_def Let_def split: prod.splits)

lemma main_turn_events [simp]: "eventStates (ctl (main_turn fs s)) = eventStates (ctl s)"
  using main_turn_log [of fs s] by auto

lemma main_from:
  assumes "sample_inv fs (ctl s)" "\<forall>e<7. eventStates (ctl s) ! e" "main_thr s = Main_wait k" "k < 7"
  shows "\<exists>n. main_thr ((main_turn fs ^^ n) s) = Main_end 0"
  using assms
proof (induction "7 - k" arbitrary: k s)
  case (Suc d)
  have nxt: "main_thr (main_turn fs s) = (if Suc k < 7 then Main_wait (Suc k) else Main_end 0)"
    by (rule main_turn_next) (use Suc.prems in auto)
  show ?case
  proof (cases "Suc k < 7")
    case True
    have "\<exists>n. main_thr ((main_turn fs ^^ n) (main_turn fs s)) = Main_end 0"
      by (rule Suc.hyps(1) [of "Suc k"]) (use Suc.hyps(2) Suc.prems True nxt main_turn_inv(1) [of fs s] in auto)
    then obtain n where "main_thr ((main_turn fs ^^ Suc n) s) = Main_end 0" by (auto simp: funpow_swap1)
    then show ?thesis by blast
  next
    case False
    then have "main_thr ((main_turn fs ^^ 1) s) = Main_end 0" using nxt by simp
    then show ?thesis by blast
  qed
qed simp

lemma main_run_ok:
  assumes "main_ok s" "sample_inv fs (ctl s)"
  shows "main_ok ((main_turn fs ^^ n) s) \<and> sample_inv fs (ctl ((main_turn fs ^^ n) s)) \<and>
    eventStates (ctl ((main_turn fs ^^ n) s)) = eventStates (ctl s)"
proof (induction n)
  case (Suc n)
  then show ?case
    using main_turn_ok [of "(main_turn fs ^^ n) s" fs] main_turn_inv(1) [of fs "(main_turn fs ^^ n) s"] by simp
qed (use assms in simp)

subsection \<open>Events and votes\<close>

text \<open>Which votes make an event occur.\<close>

lemma occurs_iff:
  assumes inv: "sample_inv fs st"
  shows "eventStates st ! ev_PadReady \<longleftrightarrow> sourceStates st ! ev_PadReady ! src_IMU1 \<and> sourceStates st ! ev_PadReady ! src_Barom1"
    "eventStates st ! ev_Boost \<longleftrightarrow> sourceStates st ! ev_Boost ! src_IMU1 \<or> sourceStates st ! ev_Boost ! src_Barom1"
    "eventStates st ! ev_Noseover \<longleftrightarrow>
      sourceStates st ! ev_Noseover ! src_NoseoverLockout \<and> sourceStates st ! ev_Noseover ! src_Barom1"
    "eventStates st ! ev_GroundHit \<longleftrightarrow>
      sourceStates st ! ev_GroundHit ! src_Barom1 \<or> sourceStates st ! ev_GroundHit ! src_FullFlightTimer"
proof -
  have "confirmed (sample_config fs) st" using inv by (simp add: sample_inv_def pc_inv_def)
  then have c: "eventStates st ! e \<longleftrightarrow> (sample_deciders ! e) (sourceStates st ! e) \<and> True \<in> set (sourceStates st ! e)" if "e < 7" for e
    using that unfolding confirmed_def sample_config_sizes sample_config_fields by blast
  have len: "length (sourceStates st ! e) = 7" if "e < 7" for e
    using inv that by (simp add: sample_inv_def pc_inv_def pc_shape_def)
  have mem: "sourceStates st ! e ! s \<Longrightarrow> True \<in> set (sourceStates st ! e)" if "e < 7" "s < 7" for e s
    using nth_mem [of s "sourceStates st ! e"] len [OF that(1)] that(2) by auto
  show "eventStates st ! ev_PadReady \<longleftrightarrow> sourceStates st ! ev_PadReady ! src_IMU1 \<and> sourceStates st ! ev_PadReady ! src_Barom1"
    using c [of ev_PadReady] mem [of ev_PadReady src_Barom1] by (auto simp: sample_deciders_def ev_defs src_defs)
  show "eventStates st ! ev_Boost \<longleftrightarrow> sourceStates st ! ev_Boost ! src_IMU1 \<or> sourceStates st ! ev_Boost ! src_Barom1"
    using c [of ev_Boost] mem [of ev_Boost src_Barom1] mem [of ev_Boost src_IMU1]
    by (auto simp: sample_deciders_def ev_defs src_defs)
  show "eventStates st ! ev_Noseover \<longleftrightarrow>
      sourceStates st ! ev_Noseover ! src_NoseoverLockout \<and> sourceStates st ! ev_Noseover ! src_Barom1"
    using c [of ev_Noseover] mem [of ev_Noseover src_Barom1] by (auto simp: sample_deciders_def ev_defs src_defs)
  show "eventStates st ! ev_GroundHit \<longleftrightarrow>
      sourceStates st ! ev_GroundHit ! src_Barom1 \<or> sourceStates st ! ev_GroundHit ! src_FullFlightTimer"
    using c [of ev_GroundHit] mem [of ev_GroundHit src_Barom1] mem [of ev_GroundHit src_FullFlightTimer]
    by (auto simp: sample_deciders_def ev_defs src_defs)
qed

text \<open>A flight in which the barometer stops before it has voted for noseover stays so.\<close>

definition noseover_lost :: "('a, 'f) sample \<Rightarrow> bool" where
  "noseover_lost s \<longleftrightarrow> barom_thr s = Barom_end \<and> \<not> sourceStates (ctl s) ! ev_Noseover ! src_Barom1"

lemma votes_not:
  assumes "votes vs st st'" "(src_Barom1, ev_Noseover) \<notin> vs" "\<not> sourceStates st ! ev_Noseover ! src_Barom1"
  shows "\<not> sourceStates st' ! ev_Noseover ! src_Barom1"
proof -
  have "\<forall>s<7. sourceStates st' ! ev_Noseover ! s \<longrightarrow> sourceStates st ! ev_Noseover ! s \<or> (s, ev_Noseover) \<in> vs"
    using assms(1) unfolding votes_def by simp
  then have "sourceStates st' ! ev_Noseover ! src_Barom1 \<longrightarrow>
      sourceStates st ! ev_Noseover ! src_Barom1 \<or> (src_Barom1, ev_Noseover) \<in> vs"
    using ev_less(9) by blast
  then show ?thesis using assms(2,3) by blast
qed

lemma noseover_lost_step:
  assumes step: "sample_step sqroot pow fmt fs s s'" and ok: "sample_ok fs s" and lost: "noseover_lost s"
  shows "noseover_lost s'"
proof -
  have inv: "sample_inv fs (ctl s)" and b: "barom_thr s = Barom_end" "\<not> sourceStates (ctl s) ! ev_Noseover ! src_Barom1"
    using ok lost by (simp_all add: sample_ok_def noseover_lost_def)
  show ?thesis
    using step
  proof (cases rule: sample_step.cases)
    case (imu now timestamp xyz t st)
    have "votes ({src_IMU1} \<times> UNIV) (ctl s) st" using imu_turn_ok [OF imu(2) inv] ok by (simp add: sample_ok_def)
    from votes_not [OF this _ b(2)] show ?thesis using imu(1) b by (simp add: noseover_lost_def src_defs)
  next
    case (barom now print_now time press_kpa t st)
    then show ?thesis using b by (simp add: barom_turn_def noseover_lost_def)
  next
    case main
    then show ?thesis using b votes_not [OF main_turn_inv(2) [of s fs] _ b(2)] by (simp add: noseover_lost_def)
  next
    case (timer i now st)
    have "i < 5" using timer(2) inv by (simp add: sample_inv_def pc_inv_def pc_shape_def)
    then have "te_source (sample_timer_events ! i) \<noteq> src_Barom1"
      by (auto simp: sample_timer_events_def src_defs nth_Cons less_Suc_eq numeral_eq_Suc split: nat.splits)
    moreover have "votes {(te_source (sample_timer_events ! i), te_event (sample_timer_events ! i))} (ctl s) st"
      using timer_sample [OF inv timer(2,3,4)] by simp
    ultimately show ?thesis using votes_not [OF _ _ b(2)] timer(1) b by (auto simp: noseover_lost_def)
  qed
qed

lemma noseover_lost_run:
  assumes "(sample_step sqroot pow fmt fs)\<^sup>*\<^sup>* s s'" "sample_ok fs s" "noseover_lost s"
  shows "sample_ok fs s' \<and> noseover_lost s'"
  using assms
proof (induction rule: rtranclp_induct)
  case (step s' s'')
  then have "sample_ok fs s'" "noseover_lost s'" by simp_all
  then show ?case using sample_step_ok [OF step.hyps(2)] noseover_lost_step [OF step.hyps(2)] by simp
qed simp

subsection \<open>A flight that its timer ends\<close>

text \<open>The votes of a state, without the log; what a submission adds to them.\<close>

definition voted :: "'f pc_state \<Rightarrow> (nat \<times> nat) set \<Rightarrow> bool" where
  "voted st vs \<longleftrightarrow> (\<forall>e<7. \<forall>s<7. sourceStates st ! e ! s \<longleftrightarrow> (s, e) \<in> vs)"

lemma sample_inv_shape: "sample_inv fs st \<Longrightarrow> pc_shape (sample_config fs) st"
  by (simp add: sample_inv_def pc_inv_def)

lemma voted_submit:
  assumes shape: "pc_shape (sample_config fs) st" and "voted st vs" "event < 7" "source < 7"
    "SubmitEvent (sample_config fs) now source event st = Some st'"
  shows "voted st' (insert (source, event) vs)"
proof -
  obtain f where "st' = submitted (sample_config fs) source event st\<lparr>log_file := f\<rparr>"
    using SubmitEvent_effect [OF shape _ _ _ assms(5)] assms(3,4) by auto
  then show ?thesis
    using submitted_source [OF shape, of event source] assms(2-4) by (auto simp: voted_def)
qed

lemma voted_nth: "voted st vs \<Longrightarrow> e < 7 \<Longrightarrow> s < 7 \<Longrightarrow> sourceStates st ! e ! s \<longleftrightarrow> (s, e) \<in> vs"
  by (simp add: voted_def)

lemma memory_log_line: "fl_Write_msg memory_log 0 msg f \<noteq> None"
  using timestamp_bytes [of 0 memory_log f]
  by (auto simp: fl_Write_msg_def fl_Write_at_def fl_Write_def from_buf_def memory_log_def)

text \<open>The example: readings of a steady 60 m/s^2, a barometer that never gets to its first measurement, and a printer of two decimals.\<close>

definition two_decimals :: "rat \<Rightarrow> string" where
  "two_decimals x =
     (let n = nat (round (100 * \<bar>x\<bar>))
      in (if x < 0 then ''-'' else []) @ dec (n div 100) @ ''.'' @ dec (n div 10 mod 10) @ dec (n mod 10))"

lemma two_decimals_ok: "prints_two_decimals two_decimals"
  unfolding prints_two_decimals_def
proof (intro allI impI, elim conjE)
  fix x :: rat and d :: nat
  assume d: "0 < d" "\<bar>x\<bar> < 10 ^ d"
  define n where "n = nat (round (100 * \<bar>x\<bar>))"
  have "round (100 * \<bar>x\<bar>) \<le> round (of_int (100 * 10 ^ d) :: rat)" by (rule round_mono) (use d(2) in simp)
  then have "round (100 * \<bar>x\<bar>) \<le> 100 * 10 ^ d" by (simp only: round_of_int)
  then have "int n \<le> int (100 * 10 ^ d)" by (simp add: n_def)
  then have "n \<le> 100 * 10 ^ d" by (simp only: of_nat_le_iff)
  then have "n div 100 \<le> 100 * 10 ^ d div 100" by (rule div_le_mono)
  moreover have "(0 :: nat) < 10 ^ d" by simp
  ultimately have "n div 100 < 10 ^ Suc d" unfolding power_Suc by linarith
  then have "length (dec (n div 100)) \<le> Suc d" using length_dec [of "Suc d"] by blast
  moreover have "length (dec (n div 10 mod 10)) \<le> 1" "length (dec (n mod 10)) \<le> 1" by (simp_all add: length_dec del: One_nat_def)
  ultimately show "length (two_decimals x) \<le> d + 5" by (simp add: two_decimals_def Let_def flip: n_def)
qed

abbreviation example_step :: "(rat, string) sample \<Rightarrow> (rat, string) sample \<Rightarrow> bool" where
  "example_step \<equiv> sample_step (\<lambda>_. 60) (\<lambda>_ _. 0) two_decimals memory_log"

abbreviation example_reached :: "(rat, string) sample \<Rightarrow> bool" where
  "example_reached \<equiv> sample_reachable (\<lambda>_. 60) (\<lambda>_ _. 0) two_decimals memory_log"

lemma sample_example_imu:
  assumes "example_reached s"
  shows "\<exists>t st. imu_turn (\<lambda>_. 60) (sample_config memory_log) (0, 0) timestamp (60, 0, 0) (imu_thr s) (ctl s) = Some (t, st) \<and>
    example_reached (s\<lparr>imu_thr := t, ctl := st\<rparr>)"
proof -
  have "sample_inv memory_log (ctl s)" using sample_reachable_ok [OF assms] by (simp add: sample_ok_def)
  then obtain t st where "imu_turn (\<lambda>_. 60) (sample_config memory_log) (0, 0) timestamp (60, 0, 0) (imu_thr s) (ctl s) = Some (t, st)"
    using imu_turn_total [of memory_log "ctl s" "(0, 0)"] by (fastforce simp: clock_ok_def)
  then show ?thesis using sample_reachable.step [OF assms sample_step.imu] by blast
qed

lemma sample_example_barom:
  assumes "example_reached s" "\<forall>x \<in> set (altitudes (barom_thr s)). \<bar>x\<bar> < 10 ^ 92"
  shows "\<exists>t st. barom_turn (\<lambda>_ _. 0) two_decimals (sample_config memory_log) (0, 0) 0 0 0 (barom_thr s) (ctl s) = Some (t, st) \<and>
    example_reached (s\<lparr>barom_thr := t, ctl := st\<rparr>)"
proof -
  have "sample_inv memory_log (ctl s)" "barom_ok (barom_thr s) (ctl s)"
    using sample_reachable_ok [OF assms(1)] by (simp_all add: sample_ok_def)
  then obtain t st where "barom_turn (\<lambda>_ _. 0) two_decimals (sample_config memory_log) (0, 0) 0 0 0 (barom_thr s) (ctl s) = Some (t, st)"
    using barom_turn_total(1) [where fs = memory_log and st = "ctl s" and t = "barom_thr s" and now = "(0, 0)" and print_now = "(0, 0)"
        and pow = "\<lambda>_ _. 0" and fmt = two_decimals and time = 0 and p = 0]
      altitudes_fit [OF two_decimals_ok assms(2)] by (fastforce simp: clock_ok_def)
  then show ?thesis using sample_reachable.step [OF assms(1) sample_step.barom] by blast
qed

lemma sample_example_boots: "\<exists>s :: (rat, string) sample. sample_boot memory_log 0 [] = Some s"
proof -
  have "fs_open memory_log name flags f = (0, f)" for name flags f by (simp add: memory_log_def)
  then have "sample_boot memory_log 0 [] \<noteq> (None :: (rat, string) sample option)"
    by (simp add: sample_boot_def fl_open_def pc_new_def Let_def memory_log_line split: Option.bind_splits)
  then show ?thesis by blast
qed

lemma sample_example_ready:
  "\<exists>s d b. example_reached s \<and> imu_thr s = Imu_loop d \<and> d = imu_detectors_new \<and> barom_thr s = Barom_loop b \<and> max_feet_agl b = 0 \<and>
    voted (ctl s) {(src_IMU1, ev_PadReady), (src_Barom1, ev_PadReady)} \<and> main_thr s = Main_start"
proof -
  obtain s0 :: "(rat, string) sample" where boot: "sample_boot memory_log 0 [] = Some s0"
    using sample_example_boots by blast
  have r0: "example_reached s0" by (rule sample_reachable.boot [OF boot])
  have t0: "imu_thr s0 = Imu_ready imu_detectors_new" "barom_thr s0 = Barom_ready" "main_thr s0 = Main_start" "voted (ctl s0) {}"
    using boot by (auto simp: sample_boot_def pc_new_def Let_def voted_def split: Option.bind_splits option.splits)
  have i0: "sample_inv memory_log (ctl s0)" using sample_reachable_ok [OF r0] by (simp add: sample_ok_def)
  obtain st1 where 1: "SubmitEvent (sample_config memory_log) (0, 0) src_IMU1 ev_PadReady (ctl s0) = Some st1"
    and r1: "example_reached (s0\<lparr>imu_thr := Imu_wait imu_detectors_new, ctl := st1\<rparr>)"
    using sample_example_imu [OF r0] t0(1) by (auto simp: imu_turn_def split: Option.bind_splits)
  define s1 where "s1 = s0\<lparr>imu_thr := Imu_wait imu_detectors_new, ctl := st1\<rparr>"
  have v1: "voted st1 {(src_IMU1, ev_PadReady)}" using voted_submit [OF sample_inv_shape [OF i0] t0(4) _ _ 1] by simp
  have r1: "example_reached s1" using r1 by (simp add: s1_def)
  have i1: "sample_inv memory_log st1" using sample_reachable_ok [OF r1] by (simp add: sample_ok_def s1_def)
  obtain st2 where 2: "SubmitEvent (sample_config memory_log) (0, 0) src_Barom1 ev_PadReady st1 = Some st2"
    and r2: "example_reached (s1\<lparr>barom_thr := Barom_wait, ctl := st2\<rparr>)"
    using sample_example_barom [OF r1] t0(2) by (auto simp: s1_def altitudes_def barom_turn_def split: Option.bind_splits)
  define s2 where "s2 = s1\<lparr>barom_thr := Barom_wait, ctl := st2\<rparr>"
  have v2: "voted st2 {(src_IMU1, ev_PadReady), (src_Barom1, ev_PadReady)}"
    using voted_submit [OF sample_inv_shape [OF i1] v1 _ _ 2] by (simp add: insert_commute)
  have r2: "example_reached s2" using r2 by (simp add: s2_def)
  have i2: "sample_inv memory_log st2" using sample_reachable_ok [OF r2] by (simp add: sample_ok_def s2_def)
  have "eventStates st2 ! ev_PadReady" using occurs_iff(1) [OF i2] v2 by (simp add: voted_nth)
  then have w: "WaitUntilEvent posted_events ev_PadReady st2" using WaitUntilEvent_sample [OF i2] by simp
  have r3: "example_reached (s2\<lparr>imu_thr := Imu_loop imu_detectors_new, ctl := st2\<rparr>)"
    using sample_example_imu [OF r2] w by (simp add: s2_def s1_def imu_turn_def)
  define s3 where "s3 = s2\<lparr>imu_thr := Imu_loop imu_detectors_new, ctl := st2\<rparr>"
  have r3: "example_reached s3" using r3 by (simp add: s3_def)
  obtain b where "example_reached (s3\<lparr>barom_thr := Barom_loop b, ctl := st2\<rparr>)" "max_feet_agl b = 0"
    using sample_example_barom [OF r3] w
    by (auto simp: s3_def s2_def altitudes_def barom_turn_def barom_locals_new_def Let_def split: Option.bind_splits)
  then show ?thesis
    using v2 t0(3) by (intro exI [of _ "s3\<lparr>barom_thr := Barom_loop b, ctl := st2\<rparr>"]) (simp add: s3_def s2_def s1_def)
qed

lemma imu_measure_before_boost:
  assumes "sample_inv fs st" "\<not> eventStates st ! ev_Boost"
    "imu_measure sqroot (sample_config fs) now timestamp (x, y, z) d st = Some (d', st')"
  shows "boost_detector d' = db_Feed Over timestamp (sqroot (x * x + y * y + z * z)) (boost_detector d) \<and>
    submit_if (db_Passed (boost_detector d')) (sample_config fs) now src_IMU1 ev_Boost st = Some st'"
  using assms by (auto simp: imu_measure_def Let_def HasEventOccured_sample split: Option.bind_splits)

lemma imu_turn_flying:
  assumes "sample_inv fs st" "\<not> eventStates st ! ev_GroundHit"
    "imu_turn sqroot (sample_config fs) now timestamp xyz (Imu_loop d) st = Some (t, st')"
  shows "\<exists>d'. t = Imu_loop d' \<and> imu_measure sqroot (sample_config fs) now timestamp xyz d st = Some (d', st')"
  using assms by (auto simp: imu_turn_def HasEventOccured_sample split: Option.bind_splits)

lemma sample_example_boost:
  "\<exists>s b. example_reached s \<and> barom_thr s = Barom_loop b \<and> max_feet_agl b = 0 \<and> main_thr s = Main_start \<and>
    voted (ctl s) {(src_IMU1, ev_Boost), (src_IMU1, ev_PadReady), (src_Barom1, ev_PadReady)}"
proof -
  let ?vs = "{(src_IMU1, ev_PadReady), (src_Barom1, ev_PadReady)}"
  obtain s b where s: "example_reached s" "imu_thr s = Imu_loop imu_detectors_new" "barom_thr s = Barom_loop b"
      "voted (ctl s) ?vs" "main_thr s = Main_start" "max_feet_agl b = 0"
    using sample_example_ready by blast
  have quiet: "\<not> eventStates st ! ev_Boost" "\<not> eventStates st ! ev_GroundHit"
    if "sample_inv memory_log st" "voted st ?vs" for st :: "string pc_state"
    using occurs_iff(2,4) [OF that(1)] that(2) by (simp_all add: voted_nth ev_defs src_defs)
  have inv: "sample_inv memory_log (ctl s)" using sample_reachable_ok [OF s(1)] by (simp add: sample_ok_def)
  obtain t1 st1 where 1: "imu_turn (\<lambda>_. 60) (sample_config memory_log) (0, 0) 0 (60, 0, 0) (imu_thr s) (ctl s) = Some (t1, st1)"
      "example_reached (s\<lparr>imu_thr := t1, ctl := st1\<rparr>)"
    using sample_example_imu [OF s(1), of 0] by blast
  obtain d1 where d1: "t1 = Imu_loop d1"
      "imu_measure (\<lambda>_. 60) (sample_config memory_log) (0, 0) 0 (60, 0, 0) imu_detectors_new (ctl s) = Some (d1, st1)"
    using imu_turn_flying [OF inv quiet(2) [OF inv s(4)] 1(1) [unfolded s(2)]] by blast
  note m1 = imu_measure_before_boost [OF inv quiet(1) [OF inv s(4)] d1(2)]
  have b1: "boost_detector d1 = \<lparr>duration = 250, target_value = 50, firstTimePassed = 0, lastTimePassed = 0\<rparr>"
    using m1 by (simp add: imu_detectors_new_def db_Feed_def db_new_def passesOne_def)
  have st1: "st1 = ctl s" using m1 by (simp add: b1 db_Passed_def submit_if_def NOT_PASSED_def)
  define s1 where "s1 = s\<lparr>imu_thr := t1, ctl := st1\<rparr>"
  have s1: "example_reached s1" "imu_thr s1 = Imu_loop d1" "ctl s1 = ctl s" using 1(2) d1(1) st1 by (simp_all add: s1_def)
  obtain t2 st2 where 2: "imu_turn (\<lambda>_. 60) (sample_config memory_log) (0, 0) 251 (60, 0, 0) (imu_thr s1) (ctl s1) = Some (t2, st2)"
      "example_reached (s1\<lparr>imu_thr := t2, ctl := st2\<rparr>)"
    using sample_example_imu [OF s1(1), of 251] by blast
  obtain d2 where d2: "imu_measure (\<lambda>_. 60) (sample_config memory_log) (0, 0) 251 (60, 0, 0) d1 (ctl s) = Some (d2, st2)"
    using imu_turn_flying [OF inv quiet(2) [OF inv s(4)] 2(1) [unfolded s1]] by blast
  note m2 = imu_measure_before_boost [OF inv quiet(1) [OF inv s(4)] d2]
  have "db_Passed (boost_detector d2)"
    using m2 by (simp add: b1 db_Feed_def passesOne_def db_Passed_def NOT_PASSED_def word_less_def)
  then have "SubmitEvent (sample_config memory_log) (0, 0) src_IMU1 ev_Boost (ctl s) = Some st2"
    using conjunct2 [OF m2] by (simp add: submit_if_def)
  from voted_submit [OF sample_inv_shape [OF inv] s(4) _ _ this] show ?thesis
    using 2(2) s(3,5,6) by (intro exI [of _ "s1\<lparr>imu_thr := t2, ctl := st2\<rparr>"] exI [of _ b]) (simp add: s1_def)
qed

lemma sample_example_landing:
  "\<exists>s b. example_reached s \<and> barom_thr s = Barom_loop b \<and> max_feet_agl b = 0 \<and> eventStates (ctl s) ! ev_GroundHit \<and>
    voted (ctl s) {(src_FullFlightTimer, ev_GroundHit), (src_IMU1, ev_Boost), (src_IMU1, ev_PadReady), (src_Barom1, ev_PadReady)}"
proof -
  let ?vs = "{(src_IMU1, ev_Boost), (src_IMU1, ev_PadReady), (src_Barom1, ev_PadReady)}"
  obtain s b where s: "example_reached s" "barom_thr s = Barom_loop b" "max_feet_agl b = 0" "voted (ctl s) ?vs" using sample_example_boost by blast
  have inv: "sample_inv memory_log (ctl s)" using sample_reachable_ok [OF s(1)] by (simp add: sample_ok_def)
  have "eventStates (ctl s) ! ev_Boost" using occurs_iff(2) [OF inv] s(4) by (simp add: voted_nth)
  moreover have te: "te_start (sample_timer_events ! 3) = ev_Boost" "te_event (sample_timer_events ! 3) = ev_GroundHit"
    "te_source (sample_timer_events ! 3) = src_FullFlightTimer"
    by (simp_all add: sample_timer_events_def)
  moreover have "\<not> sourceStates (ctl s) ! ev_GroundHit ! src_FullFlightTimer"
    using s(4) by (simp add: voted_nth ev_defs src_defs)
  moreover have "eventStates (ctl s) ! te_start (sample_timer_events ! 3) \<longrightarrow> timers (ctl s) ! 3 \<or>
      sourceStates (ctl s) ! te_event (sample_timer_events ! 3) ! te_source (sample_timer_events ! 3)"
    using inv unfolding sample_inv_def pc_inv_def timers_served_def Let_def by (auto dest: spec [of _ 3])
  ultimately have run: "timers (ctl s) ! 3" by simp
  have len: "3 < length (timers (ctl s))" using inv by (simp add: sample_inv_def pc_inv_def pc_shape_def)
  obtain st where cb: "timer_expiry_cb (sample_config memory_log) (0, 0) 3 (ctl s) = Some st"
    using timer_total [OF inv, of 3 "(0, 0)"] by (auto simp: clock_ok_def)
  define s1 where "s1 = s\<lparr>ctl := st\<rparr>"
  have r1: "example_reached s1" using sample_reachable.step [OF s(1) sample_step.timer [OF len run cb]] by (simp add: s1_def)
  have i1: "sample_inv memory_log st" using timer_sample [OF inv len run cb] by simp
  let ?st = "(ctl s)\<lparr>timers := (timers (ctl s))[3 := False]\<rparr>"
  have "voted ?st ?vs" using s(4) by (simp add: voted_def)
  moreover have "pc_shape (sample_config memory_log) ?st" using sample_inv_shape [OF inv] by (simp add: pc_shape_def)
  moreover have "SubmitEvent (sample_config memory_log) (0, 0) src_FullFlightTimer ev_GroundHit ?st = Some st"
    using cb te by (simp add: timer_expiry_cb_def)
  ultimately have v1: "voted st (insert (src_FullFlightTimer, ev_GroundHit) ?vs)"
    using voted_submit [of memory_log ?st ?vs ev_GroundHit src_FullFlightTimer "(0, 0)" st] by (simp add: src_defs)
  then have ground: "eventStates st ! ev_GroundHit" using occurs_iff(4) [OF i1] by (simp add: voted_nth src_defs)
  show ?thesis using r1 i1 s(2,3) ground v1 by (intro exI [of _ s1] exI [of _ b]) (simp add: s1_def)
qed

lemma sample_example_lost: "\<exists>s. example_reached s \<and> noseover_lost s \<and> eventStates (ctl s) ! ev_GroundHit"
proof -
  obtain s b where s: "example_reached s" "barom_thr s = Barom_loop b" "max_feet_agl b = 0" "eventStates (ctl s) ! ev_GroundHit"
      "voted (ctl s) {(src_FullFlightTimer, ev_GroundHit), (src_IMU1, ev_Boost), (src_IMU1, ev_PadReady), (src_Barom1, ev_PadReady)}"
    using sample_example_landing by blast
  have inv: "sample_inv memory_log (ctl s)" using sample_reachable_ok [OF s(1)] by (simp add: sample_ok_def)
  obtain t2 st2 where 2: "barom_turn (\<lambda>_ _. 0) two_decimals (sample_config memory_log) (0, 0) 0 0 0 (barom_thr s) (ctl s) = Some (t2, st2)"
      "example_reached (s\<lparr>barom_thr := t2, ctl := st2\<rparr>)"
    using sample_example_barom [OF s(1)] s(2,3) by (auto simp: altitudes_def)
  have t2: "t2 = Barom_end" and "\<exists>f. st2 = ctl s\<lparr>log_file := f\<rparr>"
    using 2(1) s(2,4) print_to_log_ok
    by (auto simp: barom_turn_def HasEventOccured_sample [OF inv] split: Option.bind_splits)
  then obtain f where st2: "st2 = ctl s\<lparr>log_file := f\<rparr>" by blast
  show ?thesis
    using 2(2) t2 st2 s(4,5)
    by (intro exI [of _ "s\<lparr>barom_thr := t2, ctl := st2\<rparr>"]) (simp add: noseover_lost_def voted_nth ev_defs src_defs)
qed

subsection \<open>Lines, and votes that stay\<close>

text \<open>The line has the slope of \<open>FindSlope\<close>; readings of altitude zero give the line that stands for none.\<close>

lemma find_line_slope:
  "find_line d = (case FindSlope window_size d of None \<Rightarrow> bad_line
     | Some m \<Rightarrow> Line m ((ly (rs_Sum d) - m * lx (rs_Sum d)) / of_nat window_size))"
  by (simp add: find_line_def FindSlope_def Let_def)

lemma find_line_at_zero: "ly (rs_Sum d) = 0 \<Longrightarrow> lxy (rs_Sum d) = 0 \<Longrightarrow> find_line d = bad_line"
  by (simp add: find_line_def bad_line_def Let_def)

text \<open>A vote of the barometer before the lockout is over counts when the lockout expires.\<close>

lemma lockout_counts_earlier_vote:
  assumes inv: "sample_inv fs st" and run: "1 < length (timers st)" "timers st ! 1"
    and cb: "timer_expiry_cb (sample_config fs) now 1 st = Some st'"
    and vote: "sourceStates st ! ev_Noseover ! src_Barom1"
  shows "eventStates st' ! ev_Noseover"
proof -
  let ?st = "st\<lparr>timers := (timers st)[1 := False]\<rparr>"
  have shape: "pc_shape (sample_config fs) st" "pc_shape (sample_config fs) ?st"
    using sample_inv_shape [OF inv] by (simp_all add: pc_shape_def)
  have te: "te_event (sample_timer_events ! 1) = ev_Noseover" "te_source (sample_timer_events ! 1) = src_NoseoverLockout"
    by (simp_all add: sample_timer_events_def)
  obtain f where st': "st' = submitted (sample_config fs) src_NoseoverLockout ev_Noseover ?st\<lparr>log_file := f\<rparr>"
    using expire_effect [OF sample_config_ok(1) shape(1) _ cb] te by auto
  have "sourceStates st' ! ev_Noseover ! src_NoseoverLockout" "sourceStates st' ! ev_Noseover ! src_Barom1"
    using submitted_source [OF shape(2), of ev_Noseover src_NoseoverLockout ev_Noseover] vote st'
    by (simp_all add: src_defs)
  then show ?thesis using occurs_iff(3) [of fs st'] timer_sample [OF inv run cb] by simp
qed

subsection \<open>Properties\<close>

text \<open>
  C4: however the threads, the timers and the main program interleave, the events occur in the order
  of a flight; noseover needs both the lockout timer and the barometer; and the main program has
  passed a wait only if all events up to it have occurred, with the timers of the two threads at
  1 ms and 10 ms before coast, both at 10 ms until it has seen the landing, and stopped otherwise.
\<close>

theorem sample_flight_in_order:
  assumes "sample_reachable sqroot pow fmt fs s"
  shows "(eventStates (ctl s) ! ev_Boost \<longrightarrow> eventStates (ctl s) ! ev_PadReady) \<and>
    (eventStates (ctl s) ! ev_Coast \<longrightarrow> eventStates (ctl s) ! ev_Boost) \<and>
    (eventStates (ctl s) ! ev_Noseover \<longrightarrow> eventStates (ctl s) ! ev_Boost \<and>
       sourceStates (ctl s) ! ev_Noseover ! src_NoseoverLockout \<and> sourceStates (ctl s) ! ev_Noseover ! src_Barom1) \<and>
    (eventStates (ctl s) ! ev_MainChute \<longrightarrow> eventStates (ctl s) ! ev_Noseover) \<and>
    (eventStates (ctl s) ! ev_GroundHit \<longrightarrow> eventStates (ctl s) ! ev_Boost) \<and>
    (eventStates (ctl s) ! ev_CamerasOff \<longrightarrow> eventStates (ctl s) ! ev_GroundHit) \<and>
    (\<forall>k. main_thr s = Main_wait k \<longrightarrow> (\<forall>e<k. eventStates (ctl s) ! e) \<and>
       imu_timer s = (if k = 1 \<or> k = 2 then Some 1 else if 3 \<le> k \<and> k \<le> 5 then Some 10 else None) \<and>
       barom_timer s = (if 1 \<le> k \<and> k \<le> 5 then Some 10 else None))"
proof -
  have ok: "sample_inv fs (ctl s)" "main_ok s" using sample_reachable_ok [OF assms] by (simp_all add: sample_ok_def)
  then have before: "eventStates (ctl s) ! e \<longrightarrow> eventStates (ctl s) ! comes_after e" if "e < 7" for e
    using that by (simp add: sample_inv_def sample_order_def)
  have main: "(\<forall>e<k. eventStates (ctl s) ! e) \<and>
       imu_timer s = (if k = 1 \<or> k = 2 then Some 1 else if 3 \<le> k \<and> k \<le> 5 then Some 10 else None) \<and>
       barom_timer s = (if 1 \<le> k \<and> k \<le> 5 then Some 10 else None)" if "main_thr s = Main_wait k" for k
    using ok(2) that by (auto simp: main_ok_def imu_period_def barom_period_def)
  show ?thesis
    using before [OF ev_less(2)] before [OF ev_less(3)] before [OF ev_less(4)] before [OF ev_less(5)] before [OF ev_less(6)]
      before [OF ev_less(7)] occurs_iff(3) [OF ok(1)] main
    unfolding after by blast
qed

theorem sample_flight_in_order_witness:
  "\<exists>s. example_reached s \<and> eventStates (ctl s) ! ev_GroundHit \<and> eventStates (ctl s) ! ev_Boost \<and> eventStates (ctl s) ! ev_PadReady"
proof -
  obtain s where s: "example_reached s" "eventStates (ctl s) ! ev_GroundHit" using sample_example_lost by blast
  show ?thesis using sample_flight_in_order [OF s(1)] s by blast
qed

text \<open>
  C5: once the barometer's thread has ended without a vote for noseover, which the timer for the whole
  flight brings about when it expires first, noseover never occurs: the main program stays in one of
  its first four waits for good, the timers of the threads are not stopped and the log is never synced.
\<close>

theorem sample_flight_hangs:
  assumes "sample_reachable sqroot pow fmt fs s" "barom_thr s = Barom_end"
    "\<not> sourceStates (ctl s) ! ev_Noseover ! src_Barom1" "(sample_step sqroot pow fmt fs)\<^sup>*\<^sup>* s s'"
  shows "\<not> eventStates (ctl s') ! ev_Noseover \<and> (main_thr s' = Main_start \<or> (\<exists>k\<le>3. main_thr s' = Main_wait k))"
proof -
  have "sample_ok fs s'" "noseover_lost s'"
    using noseover_lost_run [OF assms(4) sample_reachable_ok [OF assms(1)]] assms(2,3) by (simp_all add: noseover_lost_def)
  then have no: "\<not> eventStates (ctl s') ! ev_Noseover" and main: "main_ok s'"
    using occurs_iff(3) [of fs "ctl s'"] by (auto simp: sample_ok_def noseover_lost_def)
  have "k \<le> 3" if "main_thr s' = Main_wait k" for k
    using main no that unfolding ev_Noseover_def by (intro leI notI) (simp add: main_ok_def)
  moreover have "main_thr s' \<noteq> Main_end r" for r using main no by (auto simp: main_ok_def)
  ultimately show ?thesis using no by (cases "main_thr s'") auto
qed

theorem sample_flight_hangs_witness:
  "\<exists>s. example_reached s \<and> eventStates (ctl s) ! ev_GroundHit \<and>
    (main_thr (main_turn memory_log s) = Main_start \<or> (\<exists>k\<le>3. main_thr (main_turn memory_log s) = Main_wait k))"
proof -
  obtain s where s: "example_reached s" "noseover_lost s" "eventStates (ctl s) ! ev_GroundHit" using sample_example_lost by blast
  have "example_step\<^sup>*\<^sup>* s (main_turn memory_log s)" by (rule r_into_rtranclp, rule sample_step.main)
  with s show ?thesis using sample_flight_hangs [OF s(1), of "main_turn memory_log s"] by (auto simp: noseover_lost_def)
qed

text \<open>
  C14: in every interleaving, whenever the logged uptimes are below \<open>10^10\<close> ms, the turns of the thread of the inertial unit
  and the timer callbacks return without an access past an array or buffer, and a turn of the barometer's thread does so
  when the line it prints, if any, has at most 256 characters: with a longer line it reads past the buffer, if the file system
  accepts what is written. With the documented lengths of \<open>%.2f\<close> the line fits whenever the altitudes on it are below \<open>10^92\<close> feet.
\<close>

theorem sample_turns_return:
  assumes "sample_reachable sqroot pow fmt fs s" "clock_ok now" "clock_ok print_now"
  shows "imu_turn sqroot (sample_config fs) now timestamp xyz (imu_thr s) (ctl s) \<noteq> None \<and>
    (if line_fits fmt (barom_thr s) (ctl s)
     then barom_turn pow fmt (sample_config fs) now (fst print_now) time press_kpa (barom_thr s) (ctl s) \<noteq> None
     else writes_succeed fs \<longrightarrow> barom_turn pow fmt (sample_config fs) now (fst print_now) time press_kpa (barom_thr s) (ctl s) = None) \<and>
    (prints_two_decimals fmt \<and> (\<forall>x \<in> set (altitudes (barom_thr s)). \<bar>x\<bar> < 10 ^ 92) \<longrightarrow> line_fits fmt (barom_thr s) (ctl s)) \<and>
    (i < 5 \<longrightarrow> timer_expiry_cb (sample_config fs) now i (ctl s) \<noteq> None)"
proof -
  have ok: "sample_inv fs (ctl s)" "barom_ok (barom_thr s) (ctl s)"
    using sample_reachable_ok [OF assms(1)] by (simp_all add: sample_ok_def)
  have "imu_turn sqroot (sample_config fs) now timestamp xyz (imu_thr s) (ctl s) \<noteq> None"
    using imu_turn_total [OF ok(1) assms(2), of sqroot timestamp xyz "imu_thr s"] by (elim exE) simp
  moreover have "i < 5 \<longrightarrow> timer_expiry_cb (sample_config fs) now i (ctl s) \<noteq> None"
    using timer_total [OF ok(1) _ assms(2), of i] by auto
  moreover note barom_turn_total [OF ok assms(2,3), where pow = pow and fmt = fmt and time = time and p = press_kpa]
    altitudes_fit [of fmt "barom_thr s" "ctl s"]
  ultimately show ?thesis by simp
qed

theorem sample_turns_return_witness:
  "\<exists>s. example_reached s \<and> printed_line two_decimals (barom_thr s) (ctl s) = Some ''Maximum barometric altitude of 0.00 ft agl'' \<and>
    prints_two_decimals two_decimals \<and>
    barom_turn (\<lambda>_ _. 0) two_decimals (sample_config memory_log) (5, 6) 7 8 0 (barom_thr s) (ctl s) \<noteq> None"
proof -
  obtain s b where s: "example_reached s" "barom_thr s = Barom_loop b" "max_feet_agl b = 0" "eventStates (ctl s) ! ev_GroundHit"
    using sample_example_landing by blast
  have zero: "two_decimals 0 = ''0.00''" by code_simp
  have "printed_line two_decimals (barom_thr s) (ctl s) = Some ''Maximum barometric altitude of 0.00 ft agl''"
    using s(2-4) by (simp add: printed_line_def max_altitude_message_def zero)
  moreover have "\<forall>x \<in> set (altitudes (barom_thr s)). \<bar>x\<bar> < 10 ^ 92" using s(2,3) by (simp add: altitudes_def)
  ultimately show ?thesis
    using sample_turns_return [OF s(1), of "(5, 6)" "(7, 7)" 0 "(0, 0, 0)" 8 0 0] s(1) two_decimals_ok
    by (intro exI [of _ s]) (simp add: clock_ok_def split: if_splits)
qed

text \<open>
  C15: the main program, run on from any reachable state without the other parts, ends and syncs the
  log exactly when all seven events have occurred.
\<close>

theorem sample_main_ends:
  assumes "sample_reachable sqroot pow fmt fs s"
  shows "(\<exists>n. main_thr ((main_turn fs ^^ n) s) = Main_end 0) \<longleftrightarrow> (\<forall>e<7. eventStates (ctl s) ! e)"
proof
  have ok: "sample_inv fs (ctl s)" "main_ok s" using sample_reachable_ok [OF assms] by (simp_all add: sample_ok_def)
  show "\<forall>e<7. eventStates (ctl s) ! e" if fin: "\<exists>n. main_thr ((main_turn fs ^^ n) s) = Main_end 0"
  proof -
    obtain n where "main_thr ((main_turn fs ^^ n) s) = Main_end 0" using fin by blast
    then have "\<forall>e<7. eventStates (ctl ((main_turn fs ^^ n) s)) ! e"
      using conjunct1 [OF main_run_ok [OF ok(2,1), of n]] by (simp add: main_ok_def)
    then show ?thesis using main_run_ok [OF ok(2,1), of n] by simp
  qed
  show "\<exists>n. main_thr ((main_turn fs ^^ n) s) = Main_end 0" if all: "\<forall>e<7. eventStates (ctl s) ! e"
  proof (cases "main_thr s")
    case Main_start
    then have "main_thr (main_turn fs s) = Main_wait 0" by (simp add: main_turn_def)
    moreover have "sample_inv fs (ctl (main_turn fs s))" using main_turn_inv(1) [of fs s] ok(1) by simp
    ultimately obtain n where "main_thr ((main_turn fs ^^ n) (main_turn fs s)) = Main_end 0"
      using main_from [of fs "main_turn fs s" 0] all by auto
    then have "main_thr ((main_turn fs ^^ Suc n) s) = Main_end 0" by (simp add: funpow_swap1)
    then show ?thesis by blast
  next
    case (Main_wait k)
    then show ?thesis using main_from [OF ok(1) all] ok(2) by (simp add: main_ok_def)
  next
    case (Main_end r)
    then have "main_thr ((main_turn fs ^^ 0) s) = Main_end 0" using ok(2) by (simp add: main_ok_def)
    then show ?thesis by blast
  qed
qed

theorem sample_main_ends_witness:
  "\<exists>s. example_reached s \<and> \<not> (\<exists>n. main_thr ((main_turn memory_log ^^ n) s) = Main_end 0)"
proof -
  obtain s where s: "example_reached s" "noseover_lost s" using sample_example_lost by blast
  have "sample_inv memory_log (ctl s)" using sample_reachable_ok [OF s(1)] by (simp add: sample_ok_def)
  then have "\<not> eventStates (ctl s) ! ev_Noseover" using occurs_iff(3) s(2) by (auto simp: noseover_lost_def)
  then show ?thesis using sample_main_ends [OF s(1)] s(1) ev_less(4) by blast
qed

end
