(* ===== verification/Bme280.thy ===== *)
theory Bme280
  imports Bus Complex_Main "HOL-Library.Monad_Syntax"
begin

text \<open>
  The driver of the BME280 and BMP280 the Grim Reefer payload flies with,
  \<open>app_grim_reefer/extra/bme280.c\<close>: Zephyr's driver without its wait before a measurement is read.
  The bus and the registers of \<open>bme280.h\<close> are not in the repository and are parameters. C integers
  are \<open>int\<close> with the width of every operation written out; \<open>drop_bit\<close> is the arithmetic shift right.
  A loop that does not end and a failed assertion are \<open>None\<close>.
\<close>

subsection \<open>Parameters\<close>

record 'b bme280_bus_io =
  io_check :: "'b \<Rightarrow> int \<times> 'b"
  io_read :: "u8 \<Rightarrow> nat \<Rightarrow> 'b \<Rightarrow> int \<times> u8 list \<times> 'b"
  io_write :: "u8 \<Rightarrow> u8 \<Rightarrow> 'b \<Rightarrow> int \<times> 'b"

text \<open>The constants of \<open>bme280.h\<close>; some of them depend on the configuration.\<close>

record bme280_regs =
  BME280_REG_PRESS_MSB :: u8
  BME280_REG_COMP_START :: u8
  BME280_REG_HUM_COMP_PART1 :: u8
  BME280_REG_HUM_COMP_PART2 :: u8
  BME280_REG_ID :: u8
  BME280_REG_CONFIG :: u8
  BME280_REG_CTRL_MEAS :: u8
  BME280_REG_CTRL_HUM :: u8
  BME280_REG_STATUS :: u8
  BME280_REG_RESET :: u8
  BMP280_CHIP_ID_SAMPLE_1 :: u8
  BMP280_CHIP_ID_MP :: u8
  BME280_CHIP_ID :: u8
  BME280_STATUS_MEASURING :: u8
  BME280_STATUS_IM_UPDATE :: u8
  BME280_CMD_SOFT_RESET :: u8
  BME280_CTRL_MEAS_VAL :: u8
  BME280_CTRL_MEAS_OFF_VAL :: u8
  BME280_CONFIG_VAL :: u8
  BME280_HUMIDITY_OVER :: u8

subsection \<open>Data\<close>

record bme280_data =
  dig_t1 :: u16
  dig_t2 :: "16 word"
  dig_t3 :: "16 word"
  dig_p1 :: u16
  dig_p2 :: "16 word"
  dig_p3 :: "16 word"
  dig_p4 :: "16 word"
  dig_p5 :: "16 word"
  dig_p6 :: "16 word"
  dig_p7 :: "16 word"
  dig_p8 :: "16 word"
  dig_p9 :: "16 word"
  dig_h1 :: u8
  dig_h2 :: "16 word"
  dig_h3 :: u8
  dig_h4 :: "16 word"
  dig_h5 :: "16 word"
  dig_h6 :: "8 word"
  comp_temp :: int
  comp_press :: u32
  comp_humidity :: u32
  t_fine :: int
  chip_id :: u8

subsection \<open>Compensation\<close>

definition bme280_compensate_temp :: "bme280_data \<Rightarrow> int \<Rightarrow> bme280_data" where
  "bme280_compensate_temp data adc_temp =
     (let t1 = uint (dig_t1 data); t2 = sint (dig_t2 data); t3 = sint (dig_t3 data);
          v1 = drop_bit 11 (to_i32 (to_i32 (drop_bit 3 adc_temp - to_i32 (push_bit 1 t1)) * t2));
          v2 = drop_bit 14 (to_i32 (drop_bit 12 (to_i32 (to_i32 (drop_bit 4 adc_temp - t1) *
                  to_i32 (drop_bit 4 adc_temp - t1))) * t3));
          fine = to_i32 (v1 + v2) in
      data\<lparr>t_fine := fine, comp_temp := drop_bit 8 (to_i32 (to_i32 (fine * 5) + 128))\<rparr>)"

definition bme280_compensate_press :: "bme280_data \<Rightarrow> int \<Rightarrow> bme280_data" where
  "bme280_compensate_press data adc_press =
     (let v1 = t_fine data - 128000;
          v2 = to_i64 (to_i64 (v1 * v1) * sint (dig_p6 data));
          v2 = to_i64 (v2 + to_i64 (push_bit 17 (to_i64 (v1 * sint (dig_p5 data)))));
          v2 = to_i64 (v2 + push_bit 35 (sint (dig_p4 data)));
          v1 = to_i64 (drop_bit 8 (to_i64 (to_i64 (v1 * v1) * sint (dig_p3 data))) +
                 to_i64 (push_bit 12 (to_i64 (v1 * sint (dig_p2 data)))));
          v1 = drop_bit 33 (to_i64 (to_i64 (push_bit 47 1 + v1) * uint (dig_p1 data))) in
      if v1 = 0 then data\<lparr>comp_press := 0\<rparr>
      else
        let p = to_i32 (1048576 - adc_press);
            p = to_i64 (c_div (to_i64 (to_i64 (to_i64 (push_bit 31 p) - v2) * 3125)) v1);
            v1 = drop_bit 25 (to_i64 (to_i64 (sint (dig_p9 data) * drop_bit 13 p) * drop_bit 13 p));
            v2 = drop_bit 19 (to_i64 (sint (dig_p8 data) * p));
            p = to_i64 (drop_bit 8 (to_i64 (to_i64 (p + v1) + v2)) + push_bit 4 (sint (dig_p7 data))) in
        data\<lparr>comp_press := word_of_int p\<rparr>)"

definition bme280_compensate_humidity :: "bme280_data \<Rightarrow> int \<Rightarrow> bme280_data" where
  "bme280_compensate_humidity data adc_humidity =
     (let h = to_i32 (t_fine data - 76800);
          h1 = uint (dig_h1 data); h2 = sint (dig_h2 data); h3 = uint (dig_h3 data);
          h4 = sint (dig_h4 data); h5 = sint (dig_h5 data); h6 = sint (dig_h6 data);
          a = drop_bit 15 (to_i32 (to_i32 (to_i32 (to_i32 (push_bit 14 adc_humidity) - to_i32 (push_bit 20 h4)) -
                to_i32 (h5 * h)) + 16384));
          b = drop_bit 10 (to_i32 (h * h6));
          c = to_i32 (drop_bit 11 (to_i32 (h * h3)) + 32768);
          d = to_i32 (drop_bit 10 (to_i32 (b * c)) + 2097152);
          e = drop_bit 14 (to_i32 (to_i32 (d * h2) + 8192));
          h = to_i32 (a * e);
          h = to_i32 (h - drop_bit 4 (to_i32 (drop_bit 7 (to_i32 (drop_bit 15 h * drop_bit 15 h)) * h1)));
          h = (if h > 419430400 then 419430400 else h) in
      data\<lparr>comp_humidity := word_of_int (drop_bit 12 h)\<rparr>)"

subsection \<open>Measuring\<close>

partial_function (option) bme280_wait_until_ready ::
  "'b bme280_bus_io \<Rightarrow> bme280_regs \<Rightarrow> 'b \<Rightarrow> (int \<times> 'b) option" where
  "bme280_wait_until_ready bus_io regs b =
     (case io_read bus_io (BME280_REG_STATUS regs) 1 b of (ret, status, b) \<Rightarrow>
      if ret < 0 then Some (ret, b)
      else if status ! 0 AND (BME280_STATUS_MEASURING regs OR BME280_STATUS_IM_UPDATE regs) \<noteq> 0
        then bme280_wait_until_ready bus_io regs b
      else Some (0, b))"

definition adc20 :: "u8 list \<Rightarrow> nat \<Rightarrow> int" where
  "adc20 bs i = push_bit 12 (uint (bs ! i)) OR push_bit 4 (uint (bs ! (i + 1))) OR drop_bit 4 (uint (bs ! (i + 2)))"

text \<open>
  \<open>suspended\<close> is the power state where the build manages it, \<open>forced\<close> the mode of the build: every
  measurement is then started by a write.
\<close>

definition bme280_sample_fetch ::
  "'b bme280_bus_io \<Rightarrow> bme280_regs \<Rightarrow> bool \<Rightarrow> bool \<Rightarrow> sensor_channel \<Rightarrow> bme280_data \<Rightarrow> 'b \<Rightarrow>
     (int \<times> bme280_data \<times> 'b) option" where
  "bme280_sample_fetch bus_io regs forced suspended chan data b =
     (if chan \<noteq> SENSOR_CHAN_ALL then None
      else if suspended then Some (- EIO, data, b)
      else case (if forced then io_write bus_io (BME280_REG_CTRL_MEAS regs) (BME280_CTRL_MEAS_VAL regs) b else (0, b)) of
        (ret, b) \<Rightarrow>
        if ret < 0 then Some (ret, data, b)
        else let sz = (if chip_id data = BME280_CHIP_ID regs then 8 else 6) in
          case io_read bus_io (BME280_REG_PRESS_MSB regs) sz b of (ret, buf, b) \<Rightarrow>
          if ret < 0 then Some (ret, data, b)
          else
            let adc_press = adc20 buf 0; adc_temp = adc20 buf 3;
                data = bme280_compensate_temp data adc_temp;
                data = bme280_compensate_press data adc_press in
            if chip_id data = BME280_CHIP_ID regs then
              let adc_humidity = push_bit 8 (uint (buf ! 6)) OR uint (buf ! 7) in
              Some (0, bme280_compensate_humidity data adc_humidity, b)
            else Some (0, data, b))"

definition bme280_channel_get ::
  "bme280_regs \<Rightarrow> bme280_data \<Rightarrow> sensor_channel \<Rightarrow> sensor_value \<Rightarrow> int \<times> sensor_value" where
  "bme280_channel_get regs data chan val =
     (case chan of
        SENSOR_CHAN_AMBIENT_TEMP \<Rightarrow>
          (0, \<lparr>val1 = c_div (comp_temp data) 100, val2 = to_i32 (c_mod (comp_temp data) 100 * 10000)\<rparr>)
      | SENSOR_CHAN_PRESS \<Rightarrow>
          let p = uint (comp_press data) in
          (0, \<lparr>val1 = drop_bit 8 p div 1000,
               val2 = to_i32 (to_u32 (drop_bit 8 p mod 1000 * 1000 + drop_bit 8 (to_u32 ((p AND 0xff) * 1000))))\<rparr>)
      | SENSOR_CHAN_HUMIDITY \<Rightarrow>
          if chip_id data \<noteq> BME280_CHIP_ID regs then (- ENOTSUP, val)
          else let h = uint (comp_humidity data) in
            (0, \<lparr>val1 = drop_bit 10 h, val2 = to_i32 (drop_bit 10 (to_u32 (to_u32 ((h AND 0x3ff) * 1000) * 1000)))\<rparr>)
      | _ \<Rightarrow> (- ENOTSUP, val))"

subsection \<open>Initialisation\<close>

text \<open>The two bytes of a word of the sensor, low byte first.\<close>

definition sys_le16 :: "u8 list \<Rightarrow> nat \<Rightarrow> 16 word" where
  "sys_le16 bs k = push_bit 8 (ucast (bs ! (2 * k + 1))) OR ucast (bs ! (2 * k))"

definition bme280_read_compensation ::
  "'b bme280_bus_io \<Rightarrow> bme280_regs \<Rightarrow> bme280_data \<Rightarrow> 'b \<Rightarrow> int \<times> bme280_data \<times> 'b" where
  "bme280_read_compensation bus_io regs data b =
     (case io_read bus_io (BME280_REG_COMP_START regs) 24 b of (err, buf, b) \<Rightarrow>
      if err < 0 then (err, data, b)
      else
        let data = data\<lparr>dig_t1 := sys_le16 buf 0, dig_t2 := sys_le16 buf 1, dig_t3 := sys_le16 buf 2,
              dig_p1 := sys_le16 buf 3, dig_p2 := sys_le16 buf 4, dig_p3 := sys_le16 buf 5, dig_p4 := sys_le16 buf 6,
              dig_p5 := sys_le16 buf 7, dig_p6 := sys_le16 buf 8, dig_p7 := sys_le16 buf 9, dig_p8 := sys_le16 buf 10,
              dig_p9 := sys_le16 buf 11\<rparr> in
        if chip_id data = BME280_CHIP_ID regs then
          (case io_read bus_io (BME280_REG_HUM_COMP_PART1 regs) 1 b of (err, h1, b) \<Rightarrow>
           if err < 0 then (err, data, b)
           else let data = data\<lparr>dig_h1 := h1 ! 0\<rparr> in
             case io_read bus_io (BME280_REG_HUM_COMP_PART2 regs) 7 b of (err, hbuf, b) \<Rightarrow>
             if err < 0 then (err, data, b)
             else (0, data\<lparr>dig_h2 := push_bit 8 (ucast (hbuf ! 1)) OR ucast (hbuf ! 0),
                   dig_h3 := hbuf ! 2,
                   dig_h4 := push_bit 4 (ucast (hbuf ! 3)) OR ucast (hbuf ! 4 AND 0x0F),
                   dig_h5 := ucast (drop_bit 4 (hbuf ! 4) AND 0x0F) OR push_bit 4 (ucast (hbuf ! 5)),
                   dig_h6 := hbuf ! 6\<rparr>, b))
        else (0, data, b))"

text \<open>The settings: \<open>CTRL_HUM\<close> only on a chip that measures humidity.\<close>

definition bme280_write_settings ::
  "'b bme280_bus_io \<Rightarrow> bme280_regs \<Rightarrow> bme280_data \<Rightarrow> 'b \<Rightarrow> int \<times> 'b" where
  "bme280_write_settings bus_io regs data b =
     (case (if chip_id data = BME280_CHIP_ID regs
            then io_write bus_io (BME280_REG_CTRL_HUM regs) (BME280_HUMIDITY_OVER regs) b else (0, b)) of (err, b) \<Rightarrow>
      if err < 0 then (err, b)
      else case io_write bus_io (BME280_REG_CTRL_MEAS regs) (BME280_CTRL_MEAS_VAL regs) b of (err, b) \<Rightarrow>
      if err < 0 then (err, b)
      else case io_write bus_io (BME280_REG_CONFIG regs) (BME280_CONFIG_VAL regs) b of (err, b) \<Rightarrow>
      if err < 0 then (err, b) else (0, b))"

text \<open>A failed soft reset is only reported.\<close>

definition bme280_chip_init ::
  "'b bme280_bus_io \<Rightarrow> bme280_regs \<Rightarrow> bme280_data \<Rightarrow> 'b \<Rightarrow> (int \<times> bme280_data \<times> 'b) option" where
  "bme280_chip_init bus_io regs data b =
     (case io_check bus_io b of (err, b) \<Rightarrow>
      if err < 0 then Some (err, data, b)
      else case io_read bus_io (BME280_REG_ID regs) 1 b of (err, cid, b) \<Rightarrow>
      if err < 0 then Some (err, data, b)
      else let data = data\<lparr>chip_id := cid ! 0\<rparr> in
      if chip_id data \<notin> {BME280_CHIP_ID regs, BMP280_CHIP_ID_MP regs, BMP280_CHIP_ID_SAMPLE_1 regs}
      then Some (- ENOTSUP, data, b)
      else case io_write bus_io (BME280_REG_RESET regs) (BME280_CMD_SOFT_RESET regs) b of (_, b) \<Rightarrow> do {
        (err, b) \<leftarrow> bme280_wait_until_ready bus_io regs b;
        if err < 0 then Some (err, data, b)
        else case bme280_read_compensation bus_io regs data b of (err, data, b) \<Rightarrow>
          if err < 0 then Some (err, data, b)
          else case bme280_write_settings bus_io regs data b of (err, b) \<Rightarrow> Some (err, data, b) })"

datatype pm_device_action = PM_DEVICE_ACTION_RESUME | PM_DEVICE_ACTION_SUSPEND | PM_DEVICE_ACTION_OTHER

definition bme280_pm_action ::
  "'b bme280_bus_io \<Rightarrow> bme280_regs \<Rightarrow> pm_device_action \<Rightarrow> bme280_data \<Rightarrow> 'b \<Rightarrow> (int \<times> bme280_data \<times> 'b) option" where
  "bme280_pm_action bus_io regs action data b =
     (case action of
        PM_DEVICE_ACTION_RESUME \<Rightarrow> bme280_chip_init bus_io regs data b
      | PM_DEVICE_ACTION_SUSPEND \<Rightarrow>
          (case io_write bus_io (BME280_REG_CTRL_MEAS regs) (BME280_CTRL_MEAS_OFF_VAL regs) b of
             (ret, b) \<Rightarrow> Some (ret, data, b))
      | PM_DEVICE_ACTION_OTHER \<Rightarrow> Some (- ENOTSUP, data, b))"

subsection \<open>The temperature and the formula of the datasheet\<close>

text \<open>The floating point formula of the datasheet, in degrees.\<close>

definition datasheet_temp :: "bme280_data \<Rightarrow> int \<Rightarrow> real" where
  "datasheet_temp data adc =
     (let t1 = of_int (uint (dig_t1 data)); t2 = of_int (sint (dig_t2 data)); t3 = of_int (sint (dig_t3 data));
          var1 = (of_int adc / 16384 - t1 / 1024) * t2;
          var2 = (of_int adc / 131072 - t1 / 8192) * (of_int adc / 131072 - t1 / 8192) * t3 in
      (var1 + var2) / 5120)"

lemma div_near:
  fixes x n :: int
  assumes "0 < n"
  shows "0 \<le> real_of_int x / real_of_int n - real_of_int (x div n)" "real_of_int x / real_of_int n - real_of_int (x div n) \<le> 1"
proof -
  have "real_of_int (x div n) = of_int \<lfloor>real_of_int x / real_of_int n\<rfloor>" by (simp add: floor_divide_of_int_eq)
  then show "0 \<le> real_of_int x / real_of_int n - real_of_int (x div n)"
    "real_of_int x / real_of_int n - real_of_int (x div n) \<le> 1" by linarith+
qed

lemma sint16_bounds: "- 32768 \<le> sint (w :: 16 word)" "sint (w :: 16 word) \<le> 32767"
  using sint_ge [of w] sint_lt [of w] by simp_all

lemma uint16_bounds: "0 \<le> uint (w :: 16 word)" "uint (w :: 16 word) \<le> 65535"
  using uint_lt2p [of w] by simp_all

text \<open>The first summand: the error of the shift of the reading and of the final shift.\<close>

lemma temp_var1_near:
  fixes a t1 t2 :: int
  assumes "\<bar>t2\<bar> \<le> 32768"
  shows "\<bar>(real_of_int a / 16384 - real_of_int t1 / 1024) * real_of_int t2 - real_of_int ((a div 8 - 2 * t1) * t2 div 2048)\<bar> \<le> 15"
proof -
  define e where "e = real_of_int a / 8 - real_of_int (a div 8)"
  have "a \<le> 8 * (a div 8) + 7" by presburger
  then have e: "0 \<le> e" "e \<le> 7 / 8" using div_near [of 8 a] unfolding e_def by linarith+
  define d where "d = real_of_int ((a div 8 - 2 * t1) * t2) / 2048 - real_of_int ((a div 8 - 2 * t1) * t2 div 2048)"
  have d: "0 \<le> d" "d \<le> 1" using div_near [of 2048 "(a div 8 - 2 * t1) * t2"] by (simp_all add: d_def)
  have eq: "(real_of_int a / 16384 - real_of_int t1 / 1024) * real_of_int t2 - real_of_int ((a div 8 - 2 * t1) * t2 div 2048) =
      e * real_of_int t2 / 2048 + d"
    by (simp add: e_def d_def field_simps)
  have "\<bar>e * real_of_int t2\<bar> \<le> 7 / 8 * 32768"
    unfolding abs_mult using e assms by (intro mult_mono) auto
  then show ?thesis unfolding eq using d by linarith
qed

lemma temp_square_near:
  fixes a t1 :: int
  assumes "\<bar>a div 16 - t1\<bar> < 32768"
  shows "\<bar>(real_of_int a / 16 - real_of_int t1) * (real_of_int a / 16 - real_of_int t1) / 4096 -
    real_of_int ((a div 16 - t1) * (a div 16 - t1) div 4096)\<bar> \<le> 17"
proof -
  define D where "D = real_of_int (a div 16 - t1)"
  define e where "e = real_of_int a / 16 - real_of_int (a div 16)"
  have e: "0 \<le> e" "e \<le> 1" using div_near [of 16 a] by (simp_all add: e_def)
  define d where "d = real_of_int ((a div 16 - t1) * (a div 16 - t1)) / 4096 - real_of_int ((a div 16 - t1) * (a div 16 - t1) div 4096)"
  have d: "0 \<le> d" "d \<le> 1" using div_near [of 4096 "(a div 16 - t1) * (a div 16 - t1)"] by (simp_all add: d_def)
  have "\<bar>a div 16 - t1\<bar> \<le> 32767" using assms by linarith
  then have D: "\<bar>D\<bar> \<le> 32767" unfolding D_def by linarith
  have eq: "(real_of_int a / 16 - real_of_int t1) * (real_of_int a / 16 - real_of_int t1) / 4096 -
      real_of_int ((a div 16 - t1) * (a div 16 - t1) div 4096) = e * (2 * D + e) / 4096 + d"
    by (simp add: e_def d_def D_def field_simps)
  have "\<bar>e * (2 * D + e)\<bar> \<le> 1 * 65535"
    unfolding abs_mult using e D by (intro mult_mono) linarith+
  then show ?thesis unfolding eq using d by linarith
qed

lemma temp_var2_near:
  fixes a t1 t3 :: int
  assumes "\<bar>a div 16 - t1\<bar> < 32768" "\<bar>t3\<bar> \<le> 8192"
  shows "\<bar>(real_of_int a / 131072 - real_of_int t1 / 8192) * (real_of_int a / 131072 - real_of_int t1 / 8192) * real_of_int t3 -
    real_of_int ((a div 16 - t1) * (a div 16 - t1) div 4096 * t3 div 16384)\<bar> \<le> 19 / 2"
proof -
  define q where "q = (a div 16 - t1) * (a div 16 - t1) div 4096"
  define e where "e = (real_of_int a / 16 - real_of_int t1) * (real_of_int a / 16 - real_of_int t1) / 4096 - real_of_int q"
  have e: "\<bar>e\<bar> \<le> 17" using temp_square_near [OF assms(1)] by (simp add: e_def q_def)
  define d where "d = real_of_int (q * t3) / 16384 - real_of_int (q * t3 div 16384)"
  have d: "0 \<le> d" "d \<le> 1" using div_near [of 16384 "q * t3"] by (simp_all add: d_def)
  have eq: "(real_of_int a / 131072 - real_of_int t1 / 8192) * (real_of_int a / 131072 - real_of_int t1 / 8192) * real_of_int t3 -
      real_of_int (q * t3 div 16384) = e * real_of_int t3 / 16384 + d"
    by (simp add: e_def d_def field_simps)
  have "\<bar>e * real_of_int t3\<bar> \<le> 17 * 8192"
    unfolding abs_mult using e assms(2) by (intro mult_mono) auto
  then show ?thesis unfolding q_def [symmetric] eq using d by linarith
qed

text \<open>Calibration and readings for which no operation overflows; it covers about 160 degrees around zero.\<close>

definition temp_in_range :: "bme280_data \<Rightarrow> int \<Rightarrow> bool" where
  "temp_in_range data adc \<longleftrightarrow>
     0 \<le> adc \<and> adc < 2 ^ 20 \<and> \<bar>adc div 16 - uint (dig_t1 data)\<bar> < 32768 \<and> \<bar>sint (dig_t3 data)\<bar> \<le> 8192"

lemma compensate_temp_value:
  assumes "temp_in_range data adc"
  defines "t1 \<equiv> uint (dig_t1 data)" and "t2 \<equiv> sint (dig_t2 data)" and "t3 \<equiv> sint (dig_t3 data)"
  defines "fine \<equiv> (adc div 8 - 2 * t1) * t2 div 2048 + (adc div 16 - t1) * (adc div 16 - t1) div 4096 * t3 div 16384"
  shows "t_fine (bme280_compensate_temp data adc) = fine"
    and "comp_temp (bme280_compensate_temp data adc) = (fine * 5 + 128) div 256"
proof -
  have t1: "0 \<le> t1" "t1 \<le> 65535" using uint16_bounds unfolding t1_def by blast+
  have t2: "- 32768 \<le> t2" "t2 \<le> 32767" using sint16_bounds unfolding t2_def by blast+
  have t3: "\<bar>t3\<bar> \<le> 8192" and adc: "0 \<le> adc" "adc < 1048576" and D: "\<bar>adc div 16 - t1\<bar> < 32768"
    using assms(1) by (simp_all add: temp_in_range_def t1_def t3_def)
  have div: "drop_bit 3 adc = adc div 8" "drop_bit 4 adc = adc div 16" "drop_bit 11 x = x div 2048" "drop_bit 12 x = x div 4096"
    "drop_bit 14 x = x div 16384" "drop_bit 8 x = x div 256" "push_bit 1 t1 = 2 * t1" for x
    by (simp_all add: drop_bit_eq_div push_bit_eq_mult)
  define A where "A = adc div 8 - 2 * t1"
  have "0 \<le> adc div 8 - 2 * (adc div 16)" "adc div 8 - 2 * (adc div 16) \<le> 1" by presburger+
  then have A: "\<bar>A\<bar> \<le> 65535" using D unfolding A_def by linarith
  define D where "D = adc div 16 - t1"
  have D': "\<bar>D\<bar> \<le> 32767" using D by (simp add: D_def)
  have At: "\<bar>A * t2\<bar> \<le> 65535 * 32768" unfolding abs_mult using A t2 by (intro mult_mono) auto
  have DD: "0 \<le> D * D" "D * D \<le> 32767 * 32767"
  proof -
    have "\<bar>D\<bar> * \<bar>D\<bar> \<le> 32767 * 32767" using D' by (intro mult_mono) auto
    then show "0 \<le> D * D" "D * D \<le> 32767 * 32767" unfolding abs_mult_self_eq by simp_all
  qed
  define q where "q = D * D div 4096"
  have q: "0 \<le> q" "q \<le> 262128" using DD unfolding q_def by linarith+
  have qt: "\<bar>q * t3\<bar> \<le> 262128 * 8192" unfolding abs_mult using q t3 by (intro mult_mono) auto
  have v1: "- 1048576 \<le> A * t2 div 2048" "A * t2 div 2048 \<le> 1048560" using At by linarith+
  have v2: "- 131072 \<le> q * t3 div 16384" "q * t3 div 16384 \<le> 131072" using qt by linarith+
  define w1 where "w1 = A * t2 div 2048"
  define w2 where "w2 = q * t3 div 16384"
  have w: "- 1048576 \<le> w1" "w1 \<le> 1048560" "- 131072 \<le> w2" "w2 \<le> 131072" using v1 v2 by (simp_all only: w1_def w2_def)
  have fits: "to_i32 (2 * t1) = 2 * t1" "to_i32 A = A" "to_i32 (A * t2) = A * t2" "to_i32 D = D" "to_i32 (D * D) = D * D"
    "to_i32 (q * t3) = q * t3" "to_i32 (w1 + w2) = w1 + w2"
    by (rule to_i32_fits; use t1 A At D' DD qt w in linarith)+
  have "- 1179648 \<le> w1 + w2" "w1 + w2 \<le> 1179632" using w by linarith+
  then have scaled: "to_i32 ((w1 + w2) * 5) = (w1 + w2) * 5" "to_i32 ((w1 + w2) * 5 + 128) = (w1 + w2) * 5 + 128"
    by (simp_all add: to_i32_fits)
  have fine: "fine = w1 + w2" by (simp only: fine_def A_def D_def q_def w1_def w2_def)
  show "t_fine (bme280_compensate_temp data adc) = fine"
    unfolding bme280_compensate_temp_def Let_def t1_def [symmetric] t2_def [symmetric] t3_def [symmetric] div
      A_def [symmetric] D_def [symmetric] fits fine w1_def [symmetric] q_def [symmetric] w2_def [symmetric] scaled by simp
  show "comp_temp (bme280_compensate_temp data adc) = (fine * 5 + 128) div 256"
    unfolding bme280_compensate_temp_def Let_def t1_def [symmetric] t2_def [symmetric] t3_def [symmetric] div
      A_def [symmetric] D_def [symmetric] fits fine w1_def [symmetric] q_def [symmetric] w2_def [symmetric] scaled by simp
qed

lemma compensate_temp_near:
  assumes "temp_in_range data adc"
  shows "\<bar>real_of_int (comp_temp (bme280_compensate_temp data adc)) / 100 - datasheet_temp data adc\<bar> < 1 / 100"
proof -
  define t1 t2 t3 where t: "t1 = uint (dig_t1 data)" "t2 = sint (dig_t2 data)" "t3 = sint (dig_t3 data)"
  define v1 where "v1 = (adc div 8 - 2 * t1) * t2 div 2048"
  define v2 where "v2 = (adc div 16 - t1) * (adc div 16 - t1) div 4096 * t3 div 16384"
  define r1 where "r1 = (real_of_int adc / 16384 - real_of_int t1 / 1024) * real_of_int t2"
  define r2 where "r2 = (real_of_int adc / 131072 - real_of_int t1 / 8192) * (real_of_int adc / 131072 - real_of_int t1 / 8192) * real_of_int t3"
  have n256: "0 < (256 :: int)" by simp
  have "\<bar>t2\<bar> \<le> 32768" using sint16_bounds [of "dig_t2 data"] by (simp add: t abs_le_iff)
  from temp_var1_near [OF this, of adc t1] have n1: "\<bar>r1 - real_of_int v1\<bar> \<le> 15" by (simp add: r1_def v1_def)
  have "\<bar>adc div 16 - t1\<bar> < 32768" "\<bar>t3\<bar> \<le> 8192" using assms by (simp_all add: temp_in_range_def t)
  from temp_var2_near [OF this] have n2: "\<bar>r2 - real_of_int v2\<bar> \<le> 19 / 2" by (simp add: r2_def v2_def)
  have comp: "comp_temp (bme280_compensate_temp data adc) = ((v1 + v2) * 5 + 128) div 256"
    unfolding v1_def v2_def t by (rule compensate_temp_value(2) [OF assms])
  have T: "datasheet_temp data adc = (r1 + r2) / 5120" by (simp add: datasheet_temp_def Let_def r1_def r2_def t)
  define c where "c = real_of_int (((v1 + v2) * 5 + 128) div 256)"
  have "real_of_int ((v1 + v2) * 5 + 128) / 256 = (real_of_int v1 + real_of_int v2) * 5 / 256 + 1 / 2"
    by (simp add: field_simps)
  then have "\<bar>c - (real_of_int v1 + real_of_int v2) * 5 / 256\<bar> \<le> 1 / 2"
    using div_near [OF n256, of "(v1 + v2) * 5 + 128"] unfolding c_def [symmetric] by linarith
  then have "c \<le> (real_of_int v1 + real_of_int v2) * 5 / 256 + 1 / 2" "(real_of_int v1 + real_of_int v2) * 5 / 256 \<le> c + 1 / 2"
    unfolding abs_le_iff by linarith+
  moreover have "r1 \<le> real_of_int v1 + 15" "real_of_int v1 \<le> r1 + 15" "r2 \<le> real_of_int v2 + 19 / 2" "real_of_int v2 \<le> r2 + 19 / 2"
    using n1 n2 unfolding abs_le_iff by linarith+
  ultimately have "\<bar>c - (r1 + r2) * 5 / 256\<bar> < 1" unfolding abs_less_iff by (simp add: field_simps)
  moreover have eq: "c / 100 - (r1 + r2) / 5120 = (c - (r1 + r2) * 5 / 256) / 100" by (simp add: field_simps)
  ultimately show ?thesis unfolding T comp c_def [symmetric] eq abs_divide by simp
qed

subsection \<open>Readings\<close>

lemma adc20_bounds: "0 \<le> adc20 bs i" "adc20 bs i < 2 ^ 20"
proof -
  have b: "0 \<le> uint (bs ! j)" "uint (bs ! j) < 256" for j using uint_lt2p [of "bs ! j"] by simp_all
  have n: "0 \<le> push_bit 12 (uint (bs ! i))" "0 \<le> push_bit 4 (uint (bs ! (i + 1)))" "0 \<le> drop_bit 4 (uint (bs ! (i + 2)))"
    using b [of i] b [of "i + 1"] b [of "i + 2"] by (simp_all add: push_bit_eq_mult drop_bit_eq_div pos_imp_zdiv_nonneg_iff)
  have m: "push_bit 12 (uint (bs ! i)) < 2 ^ 20" "push_bit 4 (uint (bs ! (i + 1))) < 2 ^ 20" "drop_bit 4 (uint (bs ! (i + 2))) < 2 ^ 20"
    using b [of i] b [of "i + 1"] b [of "i + 2"] by (simp_all add: push_bit_eq_mult drop_bit_eq_div)
  show "adc20 bs i < 2 ^ 20" unfolding adc20_def by (rule OR_upper [OF n(1) m(1) OR_upper [OF n(2) m(2,3)]])
  show "0 \<le> adc20 bs i" unfolding adc20_def or_nonnegative_int_iff using n by blast
qed

text \<open>A reading in millionths of its unit.\<close>

definition micro :: "sensor_value \<Rightarrow> int" where "micro v = val1 v * 1000000 + val2 v"

lemma temp_reading:
  assumes "bme280_channel_get regs data SENSOR_CHAN_AMBIENT_TEMP val = (rc, v)"
  shows "rc = 0 \<and> micro v = comp_temp data * 10000"
proof -
  have m: "\<bar>c_mod (comp_temp data) 100\<bar> \<le> 99"
  proof -
    have "c_mod (comp_temp data) 100 = sgn (comp_temp data) * (\<bar>comp_temp data\<bar> mod 100)"
      by (simp add: c_mod_def c_div_def sgn_if minus_mult_div_eq_mod [symmetric])
    moreover have "0 \<le> \<bar>comp_temp data\<bar> mod 100" "\<bar>comp_temp data\<bar> mod 100 \<le> 99" by simp_all
    ultimately show ?thesis by (simp only: abs_mult abs_sgn_eq) simp
  qed
  then have "to_i32 (c_mod (comp_temp data) 100 * 10000) = c_mod (comp_temp data) 100 * 10000"
    by (intro to_i32_fits) linarith+
  moreover have "100 * c_div (comp_temp data) 100 + c_mod (comp_temp data) 100 = comp_temp data" by (rule c_div_mod)
  ultimately show ?thesis using assms by (auto simp: bme280_channel_get_def micro_def)
qed

lemma to_u32_fits: "0 \<le> x \<Longrightarrow> x < 4294967296 \<Longrightarrow> to_u32 x = x"
  by (simp add: to_u32_def take_bit_int_eq_self)

lemma press_reading:
  assumes "bme280_channel_get regs data SENSOR_CHAN_PRESS val = (rc, v)"
  shows "rc = 0 \<and> micro v = uint (comp_press data) * 1000 div 256"
proof -
  define p where "p = uint (comp_press data)"
  have p: "0 \<le> p" "p < 4294967296" using uint_lt2p [of "comp_press data"] by (simp_all add: p_def)
  define q where "q = p div 256"
  define r where "r = p mod 256"
  have pq: "p = 256 * q + r" "0 \<le> r" "r \<le> 255" by (simp_all add: q_def r_def)
  have low: "p AND 0xff = r" using take_bit_eq_mask [of 8 p] take_bit_eq_mod [of 8 p] by (simp add: r_def mask_eq_exp_minus_1)
  have d: "drop_bit 8 x = x div 256" for x :: int by (simp add: drop_bit_eq_div)
  have r1: "to_u32 (r * 1000) = r * 1000" using pq by (intro to_u32_fits) linarith+
  have q1: "0 \<le> q mod 1000" "q mod 1000 \<le> 999" by simp_all
  have r2: "0 \<le> r * 1000 div 256" "r * 1000 div 256 \<le> 996" using pq by linarith+
  have r3: "to_u32 (q mod 1000 * 1000 + r * 1000 div 256) = q mod 1000 * 1000 + r * 1000 div 256"
    using q1 r2 by (intro to_u32_fits) linarith+
  have r4: "to_i32 (q mod 1000 * 1000 + r * 1000 div 256) = q mod 1000 * 1000 + r * 1000 div 256"
    using q1 r2 by (intro to_i32_fits) linarith+
  have v: "rc = 0" "v = \<lparr>val1 = q div 1000, val2 = q mod 1000 * 1000 + r * 1000 div 256\<rparr>"
    using assms unfolding bme280_channel_get_def sensor_channel.case Let_def p_def [symmetric] low d q_def [symmetric] r1 r3 r4
    by simp_all
  have "q div 1000 * 1000000 + q mod 1000 * 1000 = q * 1000" by presburger
  moreover have "p * 1000 = r * 1000 + 256 * (q * 1000)" unfolding pq(1) by simp
  then have "p * 1000 div 256 = q * 1000 + r * 1000 div 256" by (simp only: div_mult_self2)
  ultimately show ?thesis unfolding p_def [symmetric] micro_def v(2) using v(1) by (simp only: sensor_value.simps) linarith
qed

lemma humidity_reading:
  assumes "bme280_channel_get regs data SENSOR_CHAN_HUMIDITY val = (rc, v)" "chip_id data = BME280_CHIP_ID regs"
  shows "rc = 0 \<and> micro v = uint (comp_humidity data) * 1000000 div 1024"
proof -
  define h where "h = uint (comp_humidity data)"
  define q where "q = h div 1024"
  define r where "r = h mod 1024"
  have hq: "h = 1024 * q + r" "0 \<le> r" "r \<le> 1023" by (simp_all add: q_def r_def)
  have low: "h AND 0x3ff = r" using take_bit_eq_mask [of 10 h] take_bit_eq_mod [of 10 h] by (simp add: r_def mask_eq_exp_minus_1)
  have d: "drop_bit 10 x = x div 1024" for x :: int by (simp add: drop_bit_eq_div)
  have r1: "to_u32 (r * 1000) = r * 1000" "to_u32 (r * 1000 * 1000) = r * 1000 * 1000"
    using hq by (intro to_u32_fits; linarith)+
  have r2: "to_i32 (r * 1000 * 1000 div 1024) = r * 1000 * 1000 div 1024" using hq by (intro to_i32_fits) linarith+
  have v: "rc = 0" "v = \<lparr>val1 = q, val2 = r * 1000 * 1000 div 1024\<rparr>"
    using assms unfolding bme280_channel_get_def sensor_channel.case Let_def h_def [symmetric] low d q_def [symmetric] r1 r2
    by simp_all
  have "h * 1000000 = r * 1000 * 1000 + 1024 * (q * 1000000)" unfolding hq(1) by simp
  then have "h * 1000000 div 1024 = q * 1000000 + r * 1000 * 1000 div 1024" by (simp only: div_mult_self2)
  then show ?thesis unfolding h_def [symmetric] micro_def v(2) using v(1) by (simp only: sensor_value.simps)
qed

lemma press_keeps [simp]: "comp_temp (bme280_compensate_press data adc) = comp_temp data"
  "chip_id (bme280_compensate_press data adc) = chip_id data" "t_fine (bme280_compensate_press data adc) = t_fine data"
  by (simp_all add: bme280_compensate_press_def Let_def)

lemma humidity_keeps [simp]: "comp_temp (bme280_compensate_humidity data adc) = comp_temp data"
  "chip_id (bme280_compensate_humidity data adc) = chip_id data" "comp_press (bme280_compensate_humidity data adc) = comp_press data"
  by (simp_all add: bme280_compensate_humidity_def Let_def)

subsection \<open>Where the driver departs from the datasheet\<close>

text \<open>The calibration words of 12 bits are signed; the driver never stores a negative one.\<close>

lemma h5_never_negative:
  "0 \<le> sint (ucast (drop_bit 4 (x :: u8) AND 0x0F) OR push_bit 4 (ucast (y :: u8)) :: 16 word)"
proof (rule ccontr)
  let ?w = "ucast (drop_bit 4 x AND 0x0F) OR push_bit 4 (ucast y) :: 16 word"
  assume "\<not> 0 \<le> sint ?w"
  then have "bit ?w (LENGTH(16) - Suc 0)" unfolding bit_last_iff by simp
  then show False by (auto simp: bit_simps dest: bit_imp_le_length)
qed

subsection \<open>Waiting\<close>

text \<open>A bus whose status register reads \<open>s 0\<close>, \<open>s 1\<close> and so on; its state counts the reads.\<close>

definition status_bus :: "(nat \<Rightarrow> u8) \<Rightarrow> nat bme280_bus_io" where
  "status_bus s = \<lparr>io_check = (\<lambda>b. (0, b)), io_read = (\<lambda>reg n b. (0, replicate n (s b), Suc b)), io_write = (\<lambda>reg v b. (0, b))\<rparr>"

definition busy :: "bme280_regs \<Rightarrow> u8 \<Rightarrow> bool" where
  "busy regs w \<longleftrightarrow> w AND (BME280_STATUS_MEASURING regs OR BME280_STATUS_IM_UPDATE regs) \<noteq> 0"

lemma wait_step:
  "bme280_wait_until_ready (status_bus s) regs b =
    (if busy regs (s b) then bme280_wait_until_ready (status_bus s) regs (Suc b) else Some (0, Suc b))"
  by (subst bme280_wait_until_ready.simps) (simp add: status_bus_def busy_def)

lemma wait_returns:
  "\<not> busy regs (s (b + k)) \<Longrightarrow> \<exists>j. bme280_wait_until_ready (status_bus s) regs b = Some (0, j)"
proof (induction k arbitrary: b)
  case (Suc k)
  then show ?case using wait_step [of s regs b] Suc.IH [of "Suc b"] by auto
qed (simp add: wait_step)

lemma wait_never:
  assumes "\<forall>k. busy regs (s (b + k))"
  shows "bme280_wait_until_ready (status_bus s) regs b = None"
proof (rule ccontr)
  assume "bme280_wait_until_ready (status_bus s) regs b \<noteq> None"
  then obtain r where r: "bme280_wait_until_ready (status_bus s) regs b = Some r" by blast
  have "bio = status_bus s \<longrightarrow> rg = regs \<longrightarrow> b \<le> b0 \<longrightarrow> False" if "bme280_wait_until_ready bio rg b0 = Some r" for bio rg b0
  proof (rule bme280_wait_until_ready.raw_induct [of "\<lambda>bio rg b0 r. bio = status_bus s \<longrightarrow> rg = regs \<longrightarrow> b \<le> b0 \<longrightarrow> False", OF _ that])
    fix f :: "nat bme280_bus_io \<Rightarrow> bme280_regs \<Rightarrow> nat \<Rightarrow> (int \<times> nat) option" and bio rg b0 r
    assume IH: "\<And>bio rg b0 r. f bio rg b0 = Some r \<Longrightarrow> bio = status_bus s \<longrightarrow> rg = regs \<longrightarrow> b \<le> b0 \<longrightarrow> False"
      and run: "(case io_read bio (BME280_REG_STATUS rg) 1 b0 of (ret, status, b) \<Rightarrow>
        if ret < 0 then Some (ret, b)
        else if status ! 0 AND (BME280_STATUS_MEASURING rg OR BME280_STATUS_IM_UPDATE rg) \<noteq> 0 then f bio rg b
        else Some (0, b)) = Some r"
    show "bio = status_bus s \<longrightarrow> rg = regs \<longrightarrow> b \<le> b0 \<longrightarrow> False"
    proof (intro impI)
      assume eq: "bio = status_bus s" "rg = regs" "b \<le> b0"
      then have "busy regs (s b0)" using assms by (metis le_add_diff_inverse)
      have "io_read (status_bus s) (BME280_REG_STATUS regs) 1 b0 = (0, [s b0], Suc b0)" by (simp add: status_bus_def)
      then have fr: "f (status_bus s) regs (Suc b0) = Some r" using run \<open>busy regs (s b0)\<close> by (simp add: eq busy_def)
      show False using IH [OF fr] eq(3) by simp
    qed
  qed
  then show False using r by blast
qed

subsection \<open>Initialisation on a working bus\<close>

text \<open>A bus that writes without an error and keeps a log of it, and reads the bytes \<open>f\<close> gives for a register.\<close>

definition logging_bus :: "(u8 \<Rightarrow> u8 list) \<Rightarrow> (u8 \<times> u8) list bme280_bus_io" where
  "logging_bus f = \<lparr>io_check = (\<lambda>b. (0, b)), io_read = (\<lambda>reg n b. (0, f reg, b)), io_write = (\<lambda>reg v b. (0, b @ [(reg, v)]))\<rparr>"

lemma wait_logging:
  "\<not> busy regs (f (BME280_REG_STATUS regs) ! 0) \<Longrightarrow> bme280_wait_until_ready (logging_bus f) regs b = Some (0, b)"
  by (subst bme280_wait_until_ready.simps) (simp add: logging_bus_def busy_def)

lemma compensation_logging:
  "\<exists>data'. bme280_read_compensation (logging_bus f) regs data b = (0, data', b) \<and> chip_id data' = chip_id data \<and>
    dig_t1 data' = sys_le16 (f (BME280_REG_COMP_START regs)) 0"
  by (simp add: bme280_read_compensation_def logging_bus_def Let_def)

lemma logging_simps [simp]:
  "io_check (logging_bus f) b = (0, b)" "io_read (logging_bus f) reg n b = (0, f reg, b)"
  "io_write (logging_bus f) reg v b = (0, b @ [(reg, v)])"
  by (simp_all add: logging_bus_def)

subsection \<open>Properties\<close>

text \<open>
  C31: a measurement is within a hundredth of a degree of the formula of the datasheet. When the read of
  the sensor gives \<open>buf\<close> and the calibration and the reading are in the range in which no operation
  overflows, the fetch succeeds and the temperature channel then reads, in millionths of a degree,
  a value that differs by less than \<open>10000\<close> from the datasheet's formula on the raw reading.
\<close>

theorem bme280_temperature:
  assumes "io_read bus_io (BME280_REG_PRESS_MSB regs) (if chip_id data = BME280_CHIP_ID regs then 8 else 6) b = (ret, buf, b')"
    and "0 \<le> ret" and "temp_in_range data (adc20 buf 3)"
  shows "\<exists>data' v. bme280_sample_fetch bus_io regs False False SENSOR_CHAN_ALL data b = Some (0, data', b') \<and>
    bme280_channel_get regs data' SENSOR_CHAN_AMBIENT_TEMP val = (0, v) \<and>
    \<bar>real_of_int (micro v) - datasheet_temp data (adc20 buf 3) * 1000000\<bar> < 10000"
proof -
  define data1 where "data1 = bme280_compensate_press (bme280_compensate_temp data (adc20 buf 3)) (adc20 buf 0)"
  define data' where "data' = (if chip_id data1 = BME280_CHIP_ID regs
    then bme280_compensate_humidity data1 (push_bit 8 (uint (buf ! 6)) OR uint (buf ! 7)) else data1)"
  have fetch: "bme280_sample_fetch bus_io regs False False SENSOR_CHAN_ALL data b = Some (0, data', b')"
    using assms(1,2) by (simp add: bme280_sample_fetch_def Let_def data'_def data1_def)
  have temp: "comp_temp data' = comp_temp (bme280_compensate_temp data (adc20 buf 3))"
    by (simp add: data'_def data1_def)
  obtain rc v where get: "bme280_channel_get regs data' SENSOR_CHAN_AMBIENT_TEMP val = (rc, v)" by fastforce
  have v: "rc = 0" "micro v = comp_temp data' * 10000" using temp_reading [OF get] by simp_all
  have "\<bar>real_of_int (comp_temp data') / 100 - datasheet_temp data (adc20 buf 3)\<bar> < 1 / 100"
    using compensate_temp_near [OF assms(3)] temp by simp
  then have "\<bar>real_of_int (micro v) - datasheet_temp data (adc20 buf 3) * 1000000\<bar> < 10000"
  proof -
    have "real_of_int (micro v) - datasheet_temp data (adc20 buf 3) * 1000000 =
        (real_of_int (comp_temp data') / 100 - datasheet_temp data (adc20 buf 3)) * 1000000"
      unfolding v(2) by (simp add: field_simps)
    then show ?thesis using \<open>\<bar>real_of_int (comp_temp data') / 100 - datasheet_temp data (adc20 buf 3)\<bar> < 1 / 100\<close>
      by (simp only: abs_mult) simp
  qed
  then show ?thesis using fetch get v(1) by blast
qed

text \<open>The example of the datasheet: calibration 27504, 26435, -1000 and the reading 519888.\<close>

definition example_bme280 :: bme280_data where
  "example_bme280 = \<lparr>dig_t1 = 27504, dig_t2 = 26435, dig_t3 = - 1000, dig_p1 = 36477, dig_p2 = - 10685, dig_p3 = 3024,
     dig_p4 = 2855, dig_p5 = 140, dig_p6 = - 7, dig_p7 = 15500, dig_p8 = - 14600, dig_p9 = 6000,
     dig_h1 = 75, dig_h2 = 370, dig_h3 = 0, dig_h4 = 313, dig_h5 = 50, dig_h6 = 30,
     comp_temp = 0, comp_press = 0, comp_humidity = 0, t_fine = 0, chip_id = 0x58\<rparr>"

text \<open>A humidity below zero, which the datasheet sets to zero, is stored as a large positive one.\<close>

lemma humidity_below_zero:
  "comp_humidity (bme280_compensate_humidity (example_bme280\<lparr>t_fine := 128422\<rparr>) 20000) = 4294966172"
  by code_simp

definition example_bme280_regs :: bme280_regs where
  "example_bme280_regs = \<lparr>BME280_REG_PRESS_MSB = 0xF7, BME280_REG_COMP_START = 0x88, BME280_REG_HUM_COMP_PART1 = 0xA1,
     BME280_REG_HUM_COMP_PART2 = 0xE1, BME280_REG_ID = 0xD0, BME280_REG_CONFIG = 0xF5, BME280_REG_CTRL_MEAS = 0xF4,
     BME280_REG_CTRL_HUM = 0xF2, BME280_REG_STATUS = 0xF3, BME280_REG_RESET = 0xE0, BMP280_CHIP_ID_SAMPLE_1 = 0x57,
     BMP280_CHIP_ID_MP = 0x58, BME280_CHIP_ID = 0x60, BME280_STATUS_MEASURING = 8, BME280_STATUS_IM_UPDATE = 1,
     BME280_CMD_SOFT_RESET = 0xB6, BME280_CTRL_MEAS_VAL = 0x57, BME280_CTRL_MEAS_OFF_VAL = 0x54,
     BME280_CONFIG_VAL = 0, BME280_HUMIDITY_OVER = 1\<rparr>"

lemma example_temp: "comp_temp (bme280_compensate_temp example_bme280 519888) = 2508"
  using compensate_temp_value(2) [of example_bme280 519888] by (simp add: temp_in_range_def example_bme280_def)

theorem bme280_temperature_witness:
  "\<exists>data' v. bme280_sample_fetch (logging_bus (\<lambda>_. [0x65, 0x5A, 0xC0, 0x7E, 0xED, 0x00])) example_bme280_regs
      False False SENSOR_CHAN_ALL example_bme280 [] = Some (0, data', []) \<and>
    bme280_channel_get example_bme280_regs data' SENSOR_CHAN_AMBIENT_TEMP \<lparr>val1 = 0, val2 = 0\<rparr> = (0, v) \<and>
    \<bar>real_of_int (micro v) - datasheet_temp example_bme280 519888 * 1000000\<bar> < 10000"
proof -
  have adc: "adc20 [0x65, 0x5A, 0xC0, 0x7E, 0xED, 0x00] 3 = 519888" by (simp add: adc20_def push_bit_eq_mult drop_bit_eq_div)
  have "temp_in_range example_bme280 519888" by (simp add: temp_in_range_def example_bme280_def)
  then show ?thesis
    using bme280_temperature [of "logging_bus (\<lambda>_. [0x65, 0x5A, 0xC0, 0x7E, 0xED, 0x00])" example_bme280_regs example_bme280 "[]" 0
        "[0x65, 0x5A, 0xC0, 0x7E, 0xED, 0x00]" "[]" "\<lparr>val1 = 0, val2 = 0\<rparr>"]
    by (simp add: adc)
qed

text \<open>
  The channels give away nothing of the compensated values: in millionths of its unit a reading is the
  temperature times ten thousand, the pressure over 256 in pascal rounded down, and the humidity over 1024
  rounded down, which a chip without humidity refuses.
\<close>

theorem bme280_channels_exact:
  "micro (snd (bme280_channel_get regs data SENSOR_CHAN_AMBIENT_TEMP val)) = comp_temp data * 10000 \<and>
   micro (snd (bme280_channel_get regs data SENSOR_CHAN_PRESS val)) = uint (comp_press data) * 1000 div 256 \<and>
   (if chip_id data = BME280_CHIP_ID regs
    then micro (snd (bme280_channel_get regs data SENSOR_CHAN_HUMIDITY val)) = uint (comp_humidity data) * 1000000 div 1024
    else bme280_channel_get regs data SENSOR_CHAN_HUMIDITY val = (- ENOTSUP, val))"
  using temp_reading [of regs data val, OF prod.collapse [symmetric]] press_reading [of regs data val, OF prod.collapse [symmetric]]
    humidity_reading [of regs data val, OF prod.collapse [symmetric]]
  by (simp add: bme280_channel_get_def [of _ _ SENSOR_CHAN_HUMIDITY])

text \<open>
  Initialisation on a working bus. A chip with an unknown identity is refused before anything is
  written; otherwise the driver resets it, waits, reads the calibration and writes the settings, those for
  humidity first and only if the chip measures it, and nothing else.
\<close>

theorem bme280_init_settings:
  assumes "\<not> busy regs (f (BME280_REG_STATUS regs) ! 0)"
  shows "\<exists>data'. bme280_chip_init (logging_bus f) regs data [] =
    (if f (BME280_REG_ID regs) ! 0 \<in> {BME280_CHIP_ID regs, BMP280_CHIP_ID_MP regs, BMP280_CHIP_ID_SAMPLE_1 regs}
     then Some (0, data', (BME280_REG_RESET regs, BME280_CMD_SOFT_RESET regs) #
       (if f (BME280_REG_ID regs) ! 0 = BME280_CHIP_ID regs then [(BME280_REG_CTRL_HUM regs, BME280_HUMIDITY_OVER regs)] else []) @
       [(BME280_REG_CTRL_MEAS regs, BME280_CTRL_MEAS_VAL regs), (BME280_REG_CONFIG regs, BME280_CONFIG_VAL regs)])
     else Some (- ENOTSUP, data', [])) \<and> chip_id data' = f (BME280_REG_ID regs) ! 0"
proof -
  let ?id = "f (BME280_REG_ID regs) ! 0" and ?w = "[(BME280_REG_RESET regs, BME280_CMD_SOFT_RESET regs)]"
  obtain data' where comp: "bme280_read_compensation (logging_bus f) regs (data\<lparr>chip_id := ?id\<rparr>) ?w = (0, data', ?w)"
    and id: "chip_id data' = ?id"
    using compensation_logging [of f regs "data\<lparr>chip_id := ?id\<rparr>" ?w] by auto
  show ?thesis
  proof (cases "?id \<in> {BME280_CHIP_ID regs, BMP280_CHIP_ID_MP regs, BMP280_CHIP_ID_SAMPLE_1 regs}")
    case True
    then show ?thesis
      using comp id by (intro exI [of _ data']) (auto simp: bme280_chip_init_def Let_def wait_logging [of regs f, OF assms] bme280_write_settings_def)
  next
    case False
    then show ?thesis by (intro exI [of _ "data\<lparr>chip_id := ?id\<rparr>"]) (auto simp: bme280_chip_init_def Let_def)
  qed
qed

theorem bme280_init_settings_witness:
  "\<exists>data'. bme280_chip_init (logging_bus (\<lambda>_. replicate 24 0x60)) (example_bme280_regs\<lparr>BME280_STATUS_MEASURING := 0\<rparr>) example_bme280 [] =
    Some (0, data', [(0xE0, 0xB6), (0xF2, 1), (0xF4, 0x57), (0xF5, 0)]) \<and> chip_id data' = 0x60"
proof -
  have "\<not> busy (example_bme280_regs\<lparr>BME280_STATUS_MEASURING := 0\<rparr>) (replicate 24 0x60 ! 0)"
    by (simp add: busy_def example_bme280_regs_def)
  then show ?thesis
    using bme280_init_settings [of "example_bme280_regs\<lparr>BME280_STATUS_MEASURING := 0\<rparr>" "\<lambda>_. replicate 24 0x60" example_bme280]
    by (simp add: example_bme280_regs_def)
qed

text \<open>
  The wait of the initialisation has no bound: it returns exactly when some later read of the status
  register shows the chip idle.
\<close>

theorem bme280_wait_ends:
  "bme280_wait_until_ready (status_bus s) regs b \<noteq> None \<longleftrightarrow> (\<exists>k. \<not> busy regs (s (b + k)))"
proof
  show "bme280_wait_until_ready (status_bus s) regs b \<noteq> None" if "\<exists>k. \<not> busy regs (s (b + k))"
    using that wait_returns by fastforce
  show "\<exists>k. \<not> busy regs (s (b + k))" if "bme280_wait_until_ready (status_bus s) regs b \<noteq> None"
  proof (rule ccontr)
    assume "\<nexists>k. \<not> busy regs (s (b + k))"
    then have "\<forall>k. busy regs (s (b + k))" by simp
    then show False using that wait_never [of regs s b] by simp
  qed
qed

end
