(* ===== verification/Samples.thy ===== *)
theory Samples
  imports Message_Port Classic_Fs
begin

text \<open>
  Two programs of \<open>app/samples\<close> that put the library together: \<open>datalogger\<close> writes one series of
  packets to a log of each mode, and \<open>message_passing\<close> runs a publisher and a receiver around a message
  queue.
\<close>

subsection \<open>The data logger sample\<close>

definition logged_packet :: "nat \<Rightarrow> u8 list" where "logged_packet i = [of_nat i, of_nat (100 - i)]"

definition write_all :: "(u8, 'f) fs_ops \<Rightarrow> nat \<Rightarrow> 'f datalogger \<times> 'f datalogger \<times> 'f datalogger \<Rightarrow>
    'f datalogger \<times> 'f datalogger \<times> 'f datalogger" where
  "write_all fs i loggers =
     (case loggers of (expand_logger, fill_logger, wrap_logger) \<Rightarrow>
      (snd (dl_write fs (logged_packet i) expand_logger), snd (dl_write fs (logged_packet i) fill_logger),
       snd (dl_write fs (logged_packet i) wrap_logger)))"

text \<open>Each logger has its own file.\<close>

definition datalogger_main :: "(u8, 'f) fs_ops \<Rightarrow> 'f \<Rightarrow> 'f \<Rightarrow> 'f \<Rightarrow> 'f \<times> 'f \<times> 'f" where
  "datalogger_main fs f1 f2 f3 =
     (case fold (write_all fs) [0..<100]
        (dl_open fs ''/lfs/expand.bin'' Growing 0 f1, dl_open fs ''/lfs/fill.bin'' FixedSize 10 f2,
         dl_open fs ''/lfs/wrap.bin'' Circular 10 f3) of
        (expand_logger, fill_logger, wrap_logger) \<Rightarrow>
        (dl_file (snd (dl_close fs expand_logger)), dl_file (snd (dl_close fs fill_logger)), dl_file (snd (dl_close fs wrap_logger))))"

lemma write_all_run:
  "fold (write_all fs) is (e, fl, w) =
    (snd (dl_run fs (map logged_packet is) e), snd (dl_run fs (map logged_packet is) fl), snd (dl_run fs (map logged_packet is) w))"
  by (induction "is" arbitrary: e fl w) (simp_all add: write_all_def split: prod.splits)

text \<open>A new file and what its logger leaves in it.\<close>

definition new_file :: "(u8, 'f) fs_ops \<Rightarrow> ('f \<Rightarrow> u8 list) \<Rightarrow> ('f \<Rightarrow> nat) \<Rightarrow> 'f \<Rightarrow> bool" where
  "new_file fs content pos f \<longleftrightarrow>
     (\<forall>name flags. content (snd (fs_open fs name flags f)) = [] \<and> pos (snd (fs_open fs name flags f)) = 0)"

lemma logger_leaves:
  assumes fs: "behaves_as_file fs content pos" "\<forall>f. content (snd (fs_close fs f)) = content f"
    and new: "new_file fs content pos f" and mode: "mode = Growing \<or> 0 < n"
  shows "content (dl_file (snd (dl_close fs (snd (dl_run fs (map logged_packet is) (dl_open fs name mode n f)))))) =
    concat (kept mode n (map logged_packet is))"
proof -
  let ?dl = "dl_open fs name mode n f"
  have "content (dl_file ?dl) = []" "pos (dl_file ?dl) = 0" "dl_mode ?dl = mode" "num_packets ?dl = n"
    using new by (simp_all add: dl_open_def new_file_def)
  moreover have "\<forall>p\<in>set (map logged_packet is). length p = 2" by (auto simp: logged_packet_def)
  ultimately have "dl_holds content pos 2 (map logged_packet is) (snd (dl_run fs (map logged_packet is) ?dl)) \<and>
      dl_mode (snd (dl_run fs (map logged_packet is) ?dl)) = mode \<and> num_packets (snd (dl_run fs (map logged_packet is) ?dl)) = n"
    using dl_run_holds [OF fs(1), of ?dl 2 "map logged_packet is"] mode by auto
  then show ?thesis using fs(2) by (simp add: dl_holds_def dl_close_def case_prod_beta)
qed

lemma last_ten:
  "kept Circular 10 (map logged_packet [0..<100]) = map logged_packet [90..<100]"
proof (rule nth_equalityI)
  fix i assume "i < length (kept Circular 10 (map logged_packet [0..<100]))"
  then have i: "i < 10" by (simp add: kept_def)
  then have "(99 - i) div 10 = 9" by (intro div_nat_eqI) simp_all
  then have "kept Circular 10 (map logged_packet [0..<100]) ! i = logged_packet (90 + i)"
    using i by (simp add: kept_def last_in_slot_def add.commute)
  moreover have "map logged_packet [90..<100] ! i = logged_packet (90 + i)" using i by (intro nth_map_upt) simp
  ultimately show "kept Circular 10 (map logged_packet [0..<100]) ! i = map logged_packet [90..<100] ! i" by (rule trans [OF _ sym])
qed (simp add: kept_def)

text \<open>
  The sample leaves all hundred packets in the growing log, the first ten in the one of fixed size and
  the last ten, in order, in the circular one.
\<close>

theorem datalogger_sample_files:
  assumes "behaves_as_file fs content pos" "\<forall>f. content (snd (fs_close fs f)) = content f"
    and "new_file fs content pos f1" "new_file fs content pos f2" "new_file fs content pos f3"
    and "datalogger_main fs f1 f2 f3 = (expand, fill, wrap)"
  shows "content expand = concat (map logged_packet [0..<100]) \<and> content fill = concat (map logged_packet [0..<10]) \<and>
    content wrap = concat (map logged_packet [90..<100])"
proof -
  note leaves = logger_leaves [OF assms(1,2), of _ _ _ "[0..<100]"]
  have "take 10 (map logged_packet [0..<100]) = map logged_packet [0..<10]" by (simp add: take_map)
  then have k: "kept FixedSize 10 (map logged_packet [0..<100]) = map logged_packet [0..<10]"
    "kept Growing 0 (map logged_packet [0..<100]) = map logged_packet [0..<100]"
    by (simp_all add: kept_def)
  show ?thesis
    using assms(6) leaves [OF assms(3), of Growing 0 "''/lfs/expand.bin''"] leaves [OF assms(4), of FixedSize 10 "''/lfs/fill.bin''"]
      leaves [OF assms(5), of Circular 10 "''/lfs/wrap.bin''"]
    by (auto simp: datalogger_main_def write_all_run k last_ten)
qed

definition memory_bytes :: "(u8, u8 list \<times> nat) fs_ops" where
  "memory_bytes = \<lparr>fs_open = \<lambda>_ _ f. (0, f), fs_close = \<lambda>f. (0, f),
     fs_write = \<lambda>bytes f. (int (length bytes), overwrite (snd f) bytes (fst f), snd f + length bytes),
     fs_read = \<lambda>n f. (0, [], f), fs_seek = \<lambda>k f. (0, fst f, nat k), fs_tell = \<lambda>f. int (snd f), fs_sync = \<lambda>f. (0, f),
     fs_stat = \<lambda>_ f. (0, int (length (fst f)))\<rparr>"

theorem datalogger_sample_files_witness:
  "\<exists>expand fill wrap. datalogger_main memory_bytes ([], 0) ([], 0) ([], 0) = (expand, fill, wrap) \<and>
    fst wrap = concat (map logged_packet [90..<100])"
proof -
  have fs: "behaves_as_file memory_bytes fst snd" by (simp add: behaves_as_file_def memory_bytes_def)
  have cl: "\<forall>f. fst (snd (fs_close memory_bytes f)) = fst f" by (simp add: memory_bytes_def)
  have new: "new_file memory_bytes fst snd ([], 0)" by (simp add: new_file_def memory_bytes_def)
  obtain e fl w where "datalogger_main memory_bytes ([], 0) ([], 0) ([], 0) = (e, fl, w)"
    by (cases "datalogger_main memory_bytes ([], 0) ([], 0) ([], 0)") auto
  then show ?thesis using datalogger_sample_files [OF fs cl new new new] by blast
qed

subsection \<open>The message passing sample\<close>

record Message =
  msg_count :: u32
  msg_text :: "u8 list"

text \<open>An object of \<open>Message\<close> has 36 bytes, a \<open>bool\<close> one.\<close>

definition Message_bytes :: "Message \<Rightarrow> u8 list" where
  "Message_bytes m = le32 (msg_count m) @ take 32 (msg_text m @ replicate 32 0)"

definition Message_of :: "u8 list \<Rightarrow> Message" where
  "Message_of bs = \<lparr>msg_count = of_le32 (take 4 bs), msg_text = drop 4 bs\<rparr>"

definition no_message :: Message where "no_message = \<lparr>msg_count = 0, msg_text = replicate 32 0\<rparr>"

definition hello :: "u8 list" where "hello = map (\<lambda>c. of_nat (of_char c)) ''Hello, World!'' @ replicate 19 0"

definition publisher_Startup :: "Message \<Rightarrow> Message" where
  "publisher_Startup m = m\<lparr>msg_count := 0, msg_text := hello\<rparr>"

text \<open>\<open>None\<close> is the undefined overflow of the count, or an access past the message.\<close>

definition publisher_Run :: "(Message, 'q) CMessagePort \<Rightarrow> Message \<times> 'q \<Rightarrow> (Message \<times> 'q) option" where
  "publisher_Run messagePort mq =
     (case mq of (m, q) \<Rightarrow>
      if sint (msg_count m) = 2147483647 then None
      else
        let m = m\<lparr>msg_count := msg_count m + 1\<rparr> in
        map_option (\<lambda>(_, q). (m, q)) (Send messagePort m K_NO_WAIT q))"

text \<open>The receiver: what is left to receive, the two queues, and the messages it has logged.\<close>

definition receiver_Run :: "(Message, 'q) CMessagePort \<Rightarrow> (bool, 'p) CMessagePort \<Rightarrow> int \<times> 'q \<times> 'p \<times> Message list \<Rightarrow>
    (int \<times> 'q \<times> 'p \<times> Message list) option" where
  "receiver_Run messagePort completedPort r =
     (case r of (messageCountToReceive, q, p, logged) \<Rightarrow>
      if messageCountToReceive = 0 then
        map_option (\<lambda>(_, p). (messageCountToReceive, q, p, logged)) (Send completedPort True K_NO_WAIT p)
      else
        map_option (\<lambda>(_, message, q). (messageCountToReceive - 1, q, p, logged @ [message]))
          (Receive messagePort no_message K_NO_WAIT q))"

text \<open>A run is a list of turns of the two tasks and of the loop in \<open>main\<close>, until \<open>main\<close> stops the tasks.\<close>

datatype messaging_step = Publisher_turn | Receiver_turn | Main_turn

record ('q, 'p) messaging =
  publisher :: Message
  to_receive :: int
  messageQueue :: 'q
  completedQueue :: 'p
  logged :: "Message list"
  stopped :: bool

definition messaging_step :: "(Message, 'q) CMessagePort \<Rightarrow> (bool, 'p) CMessagePort \<Rightarrow> messaging_step \<Rightarrow> ('q, 'p) messaging \<Rightarrow>
    ('q, 'p) messaging option" where
  "messaging_step messagePort completedPort step s =
     (if stopped s then Some s
      else case step of
        Publisher_turn \<Rightarrow>
          map_option (\<lambda>(m, q). s\<lparr>publisher := m, messageQueue := q\<rparr>) (publisher_Run messagePort (publisher s, messageQueue s))
      | Receiver_turn \<Rightarrow>
          map_option (\<lambda>(n, q, p, l). s\<lparr>to_receive := n, messageQueue := q, completedQueue := p, logged := l\<rparr>)
            (receiver_Run messagePort completedPort (to_receive s, messageQueue s, completedQueue s, logged s))
      | Main_turn \<Rightarrow>
          (case Receive completedPort False K_FOREVER (completedQueue s) of
             None \<Rightarrow> Some s
           | Some (_, completed, p) \<Rightarrow> Some (s\<lparr>completedQueue := p, stopped := completed\<rparr>)))"

fun messaging_run :: "(Message, 'q) CMessagePort \<Rightarrow> (bool, 'p) CMessagePort \<Rightarrow> messaging_step list \<Rightarrow> ('q, 'p) messaging \<Rightarrow>
    ('q, 'p) messaging option" where
  "messaging_run messagePort completedPort [] s = Some s"
| "messaging_run messagePort completedPort (step # steps) s =
     (case messaging_step messagePort completedPort step s of
        None \<Rightarrow> None
      | Some s \<Rightarrow> messaging_run messagePort completedPort steps s)"

lemma messaging_run_append:
  "messaging_run messagePort completedPort (xs @ ys) s =
    (case messaging_run messagePort completedPort xs s of None \<Rightarrow> None | Some s \<Rightarrow> messaging_run messagePort completedPort ys s)"
  by (induction xs arbitrary: s) (auto split: option.splits)

lemma stopped_stays: "stopped s \<Longrightarrow> messaging_run messagePort completedPort steps s = Some s"
  by (induction steps) (simp_all add: messaging_step_def)

definition messaging_start :: "'q \<Rightarrow> 'p \<Rightarrow> ('q, 'p) messaging" where
  "messaging_start q p = \<lparr>publisher = publisher_Startup \<lparr>msg_count = 0, msg_text = replicate 32 0\<rparr>, to_receive = 10,
     messageQueue = q, completedQueue = p, logged = [], stopped = False\<rparr>"

definition message_port_36 :: "(Message, u8 list list) CMessagePort" where
  "message_port_36 = CMsgqMessagePort (kernel_queue 10 36) Message_bytes Message_of"

definition completed_port_1 :: "(bool, u8 list list) CMessagePort" where
  "completed_port_1 = CMsgqMessagePort (kernel_queue 1 1) (\<lambda>b. [of_bool b]) (\<lambda>bs. hd bs \<noteq> 0)"

text \<open>The port of integers that \<open>main\<close> makes on the queue of messages first, and its destructor.\<close>

definition stackAllocatedMessagePortCheck :: "u8 list list \<Rightarrow> u8 list list option" where
  "stackAllocatedMessagePortCheck q =
     map_option (\<lambda>(_, q). msgq_destroy (kernel_queue 10 36) q)
       (Send (CMsgqMessagePort (kernel_queue 10 36) le32 of_le32) 10 K_FOREVER q)"

text \<open>
  What the program does, told without ports and bytes: the number of the last message published, the messages in
  the queue, for each turn of the receiver the message it heard or none, whether it has reported to \<open>main\<close>, and whether \<open>main\<close> has ended.
\<close>

record exchange =
  published :: nat
  in_queue :: "nat list"
  heard :: "nat option list"
  reported :: bool
  over :: bool

definition exchange_start :: exchange where
  "exchange_start = \<lparr>published = 0, in_queue = [], heard = [], reported = False, over = False\<rparr>"

definition exchange_step :: "nat \<Rightarrow> messaging_step \<Rightarrow> exchange \<Rightarrow> exchange" where
  "exchange_step room step x =
     (if over x then x
      else case step of
        Publisher_turn \<Rightarrow>
          let c = Suc (published x) in
          x\<lparr>published := c, in_queue := if length (in_queue x) < room then in_queue x @ [c] else in_queue x\<rparr>
      | Receiver_turn \<Rightarrow>
          if length (heard x) = 10 then x\<lparr>reported := True\<rparr>
          else (case in_queue x of
                  [] \<Rightarrow> x\<lparr>heard := heard x @ [None]\<rparr>
                | c # cs \<Rightarrow> x\<lparr>in_queue := cs, heard := heard x @ [Some c]\<rparr>)
      | Main_turn \<Rightarrow> if reported x then x\<lparr>over := True\<rparr> else x)"

definition exchange_run :: "nat \<Rightarrow> messaging_step list \<Rightarrow> exchange" where
  "exchange_run room steps = fold (exchange_step room) steps exchange_start"

definition heard_counts :: "nat option list \<Rightarrow> nat list" where
  "heard_counts ms = map the (filter (\<lambda>m. m \<noteq> None) ms)"

lemma heard_counts_snoc [simp]:
  "heard_counts (ms @ [None]) = heard_counts ms" "heard_counts (ms @ [Some c]) = heard_counts ms @ [c]"
  by (simp_all add: heard_counts_def)

definition published_message :: "nat \<Rightarrow> Message" where
  "published_message c = \<lparr>msg_count = of_nat c, msg_text = hello\<rparr>"

definition log_entry :: "nat option \<Rightarrow> Message" where
  "log_entry m = (case m of None \<Rightarrow> no_message | Some c \<Rightarrow> published_message c)"

text \<open>The messages heard and those in the queue are in the order they were published in, each once; the receiver takes ten turns.\<close>

definition exchange_ok :: "exchange \<Rightarrow> bool" where
  "exchange_ok x \<longleftrightarrow>
     sorted_wrt (<) (heard_counts (heard x) @ in_queue x) \<and> (\<forall>c \<in> set (heard_counts (heard x) @ in_queue x). 0 < c \<and> c \<le> published x) \<and>
     length (heard x) \<le> 10 \<and> (reported x \<longrightarrow> length (heard x) = 10) \<and> (over x \<longrightarrow> reported x)"

lemma exchange_step_ok: "exchange_ok x \<Longrightarrow> exchange_ok (exchange_step room step x)"
  by (cases step) (auto simp: exchange_ok_def exchange_step_def Let_def sorted_wrt_append le_Suc_eq less_Suc_eq_le split: list.split)

lemma exchange_run_ok: "exchange_ok (exchange_run room steps)"
proof -
  have "exchange_ok x \<Longrightarrow> exchange_ok (fold (exchange_step room) steps x)" for x
    by (induction steps arbitrary: x) (simp_all add: exchange_step_ok)
  moreover have "exchange_ok exchange_start" by (simp add: exchange_start_def exchange_ok_def heard_counts_def)
  ultimately show ?thesis unfolding exchange_run_def by blast
qed

lemma exchange_published: "published (exchange_step room step x) \<le> published x + count_list [step] Publisher_turn"
  by (cases step) (auto simp: exchange_step_def Let_def split: list.split)

lemma exchange_run_published: "published (exchange_run room steps) \<le> count_list steps Publisher_turn"
proof -
  have "published (fold (exchange_step room) steps x) \<le> published x + count_list steps Publisher_turn" for x
  proof (induction steps arbitrary: x)
    case (Cons step steps)
    show ?case using le_trans [OF Cons [of "exchange_step room step x"]] exchange_published [of room step x] by (auto split: if_splits)
  qed simp
  from this [of exchange_start] show ?thesis by (simp add: exchange_run_def exchange_start_def)
qed

text \<open>Eleven turns of the receiver and one of \<open>main\<close> end it.\<close>

lemma exchange_turns:
  "exchange_ok x \<Longrightarrow> \<not> over x \<Longrightarrow> 10 \<le> length (heard x) + k \<Longrightarrow>
    reported (fold (exchange_step room) (replicate (Suc k) Receiver_turn) x) \<and> \<not> over (fold (exchange_step room) (replicate (Suc k) Receiver_turn) x)"
proof (induction k arbitrary: x)
  case 0
  then show ?case by (simp add: exchange_step_def exchange_ok_def)
next
  case (Suc k)
  have "\<not> over (exchange_step room Receiver_turn x)" "10 \<le> length (heard (exchange_step room Receiver_turn x)) + k"
    using Suc.prems by (auto simp: exchange_step_def split: list.split)
  then show ?case using Suc.IH [OF exchange_step_ok [OF Suc.prems(1)]] by simp
qed

lemma exchange_ends: "over (exchange_run room (steps @ replicate 11 Receiver_turn @ [Main_turn]))"
proof (cases "over (exchange_run room steps)")
  case True
  have "over x \<Longrightarrow> fold (exchange_step room) more x = x" for more x by (induction more) (simp_all add: exchange_step_def)
  then have "exchange_run room (steps @ more) = exchange_run room steps" for more using True by (simp add: exchange_run_def)
  then show ?thesis using True by metis
next
  case False
  have "Suc 10 = 11" by simp
  from exchange_turns [OF exchange_run_ok [of room steps] False, of 10 room, unfolded this] show ?thesis
    by (simp add: exchange_run_def exchange_step_def)
qed

locale messaging_ports =
  messages: message_port port queued capacity no_message kept +
  completed: message_port finish flags one False same
  for port :: "(Message, 'q) CMessagePort" and queued capacity kept
    and finish :: "(bool, 'p) CMessagePort" and flags one same +
  assumes keeps_message: "kept (published_message c) = published_message c"
    and keeps_flag: "same b = b"
    and room_for_flag: "0 < one"
begin

definition follows :: "('q, 'p) messaging \<Rightarrow> exchange \<Rightarrow> bool" where
  "follows s x \<longleftrightarrow>
     publisher s = published_message (published x) \<and> queued (messageQueue s) = map published_message (in_queue x) \<and>
     logged s = map log_entry (heard x) \<and> to_receive s = 10 - int (length (heard x)) \<and>
     set (flags (completedQueue s)) \<subseteq> {True} \<and> (\<not> over x \<longrightarrow> (flags (completedQueue s) \<noteq> [] \<longleftrightarrow> reported x)) \<and> stopped s = over x"

lemma publisher_turn:
  assumes "follows s x" "\<not> over x" "Suc (published x) < 2 ^ 31"
  shows "\<exists>s'. messaging_step port finish Publisher_turn s = Some s' \<and> follows s' (exchange_step capacity Publisher_turn x)"
proof -
  have p: "publisher s = published_message (published x)" using assms(1) by (simp add: follows_def)
  then have m: "(publisher s)\<lparr>msg_count := msg_count (publisher s) + 1\<rparr> = published_message (Suc (published x))"
    by (simp add: published_message_def add.commute)
  have "sint (msg_count (publisher s)) = int (published x)" using p assms(3) by (simp add: published_message_def sint_count)
  then have no: "sint (msg_count (publisher s)) \<noteq> 2147483647" using assms(3) by simp
  obtain ret q where q: "Send port (published_message (Suc (published x))) K_NO_WAIT (messageQueue s) = Some (ret, q)"
      "if length (queued (messageQueue s)) < capacity
       then ret = 0 \<and> queued q = queued (messageQueue s) @ [kept (published_message (Suc (published x)))] else ret = - ENOMSG \<and> q = messageQueue s"
    using messages.send_no_wait by blast
  have "messaging_step port finish Publisher_turn s = Some (s\<lparr>publisher := published_message (Suc (published x)), messageQueue := q\<rparr>)"
    using assms(1,2) no q(1) m by (simp add: messaging_step_def publisher_Run_def Let_def follows_def)
  then show ?thesis
    using assms(1,2) q(2) by (auto simp: follows_def exchange_step_def Let_def keeps_message split: if_splits)
qed

lemma receiver_turn:
  assumes "follows s x" "exchange_ok x" "\<not> over x"
  shows "\<exists>s'. messaging_step port finish Receiver_turn s = Some s' \<and> follows s' (exchange_step capacity Receiver_turn x)"
proof (cases "length (heard x) = 10")
  case True
  obtain ret p where p: "Send finish True K_NO_WAIT (completedQueue s) = Some (ret, p)"
      "flags p = flags (completedQueue s) @ [True] \<or> p = completedQueue s \<and> flags p \<noteq> []"
    using completed.send_no_wait [of True "completedQueue s"] room_for_flag
    by (cases "flags (completedQueue s)") (auto simp: keeps_flag split: if_splits)
  have "messaging_step port finish Receiver_turn s =
      Some (s\<lparr>to_receive := 0, messageQueue := messageQueue s, completedQueue := p, logged := logged s\<rparr>)"
    using assms True p(1) by (simp add: messaging_step_def receiver_Run_def follows_def)
  then show ?thesis using assms True p(2) by (auto simp: follows_def exchange_step_def)
next
  case False
  obtain ret m q where q: "Receive port no_message K_NO_WAIT (messageQueue s) = Some (ret, m, q)"
      "case queued (messageQueue s) of [] \<Rightarrow> ret < 0 \<and> m = no_message \<and> q = messageQueue s | m' # ms \<Rightarrow> ret = 0 \<and> m = m' \<and> queued q = ms"
    using messages.receive_no_wait [of K_NO_WAIT "messageQueue s"] by blast
  have "to_receive s \<noteq> 0" using assms False by (simp add: follows_def exchange_ok_def)
  then have "messaging_step port finish Receiver_turn s =
      Some (s\<lparr>to_receive := to_receive s - 1, messageQueue := q, completedQueue := completedQueue s, logged := logged s @ [m]\<rparr>)"
    using assms q(1) by (simp add: messaging_step_def receiver_Run_def follows_def)
  then show ?thesis using assms False q(2)
    by (cases "in_queue x") (auto simp: follows_def exchange_step_def log_entry_def)
qed

lemma main_turn_follows:
  assumes "follows s x" "\<not> over x"
  shows "\<exists>s'. messaging_step port finish Main_turn s = Some s' \<and> follows s' (exchange_step capacity Main_turn x)"
proof (cases "flags (completedQueue s)")
  case Nil
  then show ?thesis using assms completed.receive_waits [OF Nil] by (auto simp: messaging_step_def exchange_step_def follows_def)
next
  case (Cons b bs)
  then obtain p where "Receive finish False K_FOREVER (completedQueue s) = Some (0, b, p)" "flags p = bs"
    using completed.receive_first [OF Cons] by blast
  then show ?thesis using assms Cons by (auto simp: messaging_step_def follows_def exchange_step_def)
qed

lemma step_follows:
  assumes "follows s x" "exchange_ok x" "published x + count_list [step] Publisher_turn < 2 ^ 31"
  shows "\<exists>s'. messaging_step port finish step s = Some s' \<and> follows s' (exchange_step capacity step x)"
proof (cases "over x")
  case True
  then show ?thesis using assms(1) by (simp add: messaging_step_def exchange_step_def follows_def)
next
  case False
  then show ?thesis
    using publisher_turn [OF assms(1)] receiver_turn [OF assms(1,2)] main_turn_follows [OF assms(1)] assms(3) by (cases step) auto
qed

lemma run_follows:
  assumes "follows s x" "exchange_ok x" "published x + count_list steps Publisher_turn < 2 ^ 31"
  shows "\<exists>s'. messaging_run port finish steps s = Some s' \<and> follows s' (fold (exchange_step capacity) steps x)"
  using assms
proof (induction steps arbitrary: s x)
  case (Cons step steps)
  have n: "published x + count_list [step] Publisher_turn + count_list steps Publisher_turn < 2 ^ 31"
    using Cons.prems(3) by (auto split: if_splits)
  then obtain s1 where s1: "messaging_step port finish step s = Some s1" "follows s1 (exchange_step capacity step x)"
    using step_follows [OF Cons.prems(1,2), of step] by auto
  then show ?case
    using Cons.IH [OF s1(2) exchange_step_ok [OF Cons.prems(2)]] exchange_published [of capacity step x] n by auto
qed auto

end

lemma length_Message_bytes: "length (Message_bytes m) = 36"
  by (simp add: Message_bytes_def length_le32)

lemma no_message_bytes: "Message_of (Message_bytes no_message) = no_message"
  by (simp add: Message_of_def Message_bytes_def no_message_def length_le32 boot_le32_roundtrip)

interpretation sample_ports: messaging_ports message_port_36 "map (seen Message_bytes Message_of no_message)" 10
  "\<lambda>m. seen Message_bytes Message_of no_message (take 36 (Message_bytes m))"
  completed_port_1 "map (seen (\<lambda>b. [of_bool b]) (\<lambda>bs. hd bs \<noteq> 0) False)" 1
  "\<lambda>b. seen (\<lambda>b. [of_bool b]) (\<lambda>bs. hd bs \<noteq> 0) False (take 1 [of_bool b])"
proof (intro messaging_ports.intro messaging_ports_axioms.intro)
  show "message_port message_port_36 (map (seen Message_bytes Message_of no_message)) 10 no_message
      (\<lambda>m. seen Message_bytes Message_of no_message (take 36 (Message_bytes m)))"
    unfolding message_port_36_def by (rule kernel_queue_port) (simp_all add: length_Message_bytes no_message_bytes)
  show "message_port completed_port_1 (map (seen (\<lambda>b. [of_bool b]) (\<lambda>bs. hd bs \<noteq> 0) False)) 1 False
      (\<lambda>b. seen (\<lambda>b. [of_bool b]) (\<lambda>bs. hd bs \<noteq> 0) False (take 1 [of_bool b]))"
    unfolding completed_port_1_def by (rule kernel_queue_port) simp_all
qed (simp_all add: seen_def length_Message_bytes Message_of_def Message_bytes_def published_message_def hello_def length_le32 boot_le32_roundtrip)

lemma purged: "msgq_destroy (kernel_queue n sz) q = []"
  by (simp add: msgq_destroy_def kernel_queue_def)

lemma messaging_starts: "sample_ports.follows (messaging_start [] []) exchange_start"
  by (simp add: sample_ports.follows_def messaging_start_def publisher_Startup_def published_message_def exchange_start_def)

lemma messaging_follows:
  assumes "count_list steps Publisher_turn < 2 ^ 31"
  shows "\<exists>s. messaging_run message_port_36 completed_port_1 steps (messaging_start [] []) = Some s \<and>
    sample_ports.follows s (exchange_run 10 steps)"
  using sample_ports.run_follows [OF messaging_starts, of steps] exchange_run_ok [of 10 "[]"] assms
  by (simp add: exchange_run_def) (simp add: exchange_start_def)

text \<open>
  C34: from the queue that the purge at the end of \<open>main\<close>'s first call leaves, whatever that call put there, and in every order of the turns
  with fewer than \<open>2^31\<close> of the publisher, the program does exactly what \<open>exchange_run\<close> tells: a message is dropped
  only while ten wait; each turn of the receiver, up to ten, logs the next message with its number and the text that was published, or, when none waits, the
  message of zeros, which counts as well; the program stops when \<open>main\<close> has taken the report of a turn after those ten. So what the receiver
  hears is in the order of publication and each message at most once, and eleven turns of the receiver and one of \<open>main\<close> end the program.
\<close>

theorem message_sample_in_order:
  assumes "count_list steps Publisher_turn < 2 ^ 31"
  shows "\<exists>s. messaging_run message_port_36 completed_port_1 steps (messaging_start (msgq_destroy (kernel_queue 10 36) q) []) = Some s \<and>
    logged s = map log_entry (heard (exchange_run 10 steps)) \<and> publisher s = published_message (published (exchange_run 10 steps)) \<and>
    (stopped s \<longleftrightarrow> over (exchange_run 10 steps)) \<and> (stopped s \<longrightarrow> length (logged s) = 10) \<and>
    sorted_wrt (<) (heard_counts (heard (exchange_run 10 steps))) \<and>
    set (heard_counts (heard (exchange_run 10 steps))) \<subseteq> {1..count_list steps Publisher_turn} \<and>
    over (exchange_run 10 (steps @ replicate 11 Receiver_turn @ [Main_turn]))"
proof -
  obtain s where s: "messaging_run message_port_36 completed_port_1 steps (messaging_start [] []) = Some s"
      "sample_ports.follows s (exchange_run 10 steps)"
    using messaging_follows [OF assms] by blast
  have ok: "exchange_ok (exchange_run 10 steps)" "published (exchange_run 10 steps) \<le> count_list steps Publisher_turn"
    by (rule exchange_run_ok exchange_run_published)+
  have "sorted_wrt (<) (heard_counts (heard (exchange_run 10 steps)))" using ok(1) by (simp add: exchange_ok_def sorted_wrt_append)
  moreover have "set (heard_counts (heard (exchange_run 10 steps))) \<subseteq> {1..count_list steps Publisher_turn}"
  proof
    fix c assume "c \<in> set (heard_counts (heard (exchange_run 10 steps)))"
    then have "0 < c \<and> c \<le> published (exchange_run 10 steps)" using ok(1) unfolding exchange_ok_def by simp
    then show "c \<in> {1..count_list steps Publisher_turn}" using ok(2) by simp
  qed
  moreover have "stopped s \<longrightarrow> length (logged s) = 10" using s(2) ok(1) by (simp add: sample_ports.follows_def exchange_ok_def)
  moreover have "logged s = map log_entry (heard (exchange_run 10 steps)) \<and> publisher s = published_message (published (exchange_run 10 steps)) \<and>
      (stopped s \<longleftrightarrow> over (exchange_run 10 steps))"
    using s(2) by (simp add: sample_ports.follows_def)
  ultimately show ?thesis using s(1) exchange_ends [of 10 steps] unfolding purged by blast
qed

theorem message_sample_in_order_witness:
  "\<exists>s. messaging_run message_port_36 completed_port_1 [Publisher_turn, Publisher_turn, Receiver_turn, Receiver_turn, Receiver_turn, Main_turn]
      (messaging_start (msgq_destroy (kernel_queue 10 36) [[7]]) []) = Some s \<and>
    logged s = [\<lparr>msg_count = 1, msg_text = hello\<rparr>, \<lparr>msg_count = 2, msg_text = hello\<rparr>, no_message] \<and> \<not> stopped s"
proof -
  have "heard (exchange_run 10 [Publisher_turn, Publisher_turn, Receiver_turn, Receiver_turn, Receiver_turn, Main_turn]) = [Some 1, Some 2, None]"
    "\<not> over (exchange_run 10 [Publisher_turn, Publisher_turn, Receiver_turn, Receiver_turn, Receiver_turn, Main_turn])"
    by (simp_all add: exchange_run_def exchange_start_def exchange_step_def)
  then show ?thesis
    using message_sample_in_order [of "[Publisher_turn, Publisher_turn, Receiver_turn, Receiver_turn, Receiver_turn, Main_turn]" "[[7]]"]
    by (auto simp: log_entry_def published_message_def)
qed

text \<open>The receiver counts its turns: it can end without one message of the publisher.\<close>

lemma message_sample_hears_nothing:
  "\<exists>s. messaging_run message_port_36 completed_port_1 (replicate 11 Receiver_turn @ [Main_turn]) (messaging_start [] []) = Some s \<and>
    stopped s \<and> logged s = replicate 10 no_message"
proof -
  let ?x = "exchange_run 10 (replicate 11 Receiver_turn @ [Main_turn])"
  have "count_list (replicate 11 Receiver_turn @ [Main_turn]) Publisher_turn = 0" by (simp add: numeral_eq_Suc)
  moreover have "heard ?x = replicate 10 None" "over ?x"
    by (simp_all add: exchange_run_def exchange_start_def exchange_step_def numeral_eq_Suc)
  ultimately show ?thesis
    using messaging_follows [of "replicate 11 Receiver_turn @ [Main_turn]"]
    by (auto simp: sample_ports.follows_def log_entry_def)
qed

text \<open>The queue's messages are longer than the integer that is sent to it.\<close>

lemma stack_port_reads_past: "stackAllocatedMessagePortCheck q = None"
  by (simp add: stackAllocatedMessagePortCheck_def CMsgqMessagePort_def msgq_Send_def kernel_queue_def length_le32)

end
