(* ===== verification/Sample_Littlefs.thy ===== *)
theory Sample_Littlefs
  imports Complex_Main Classic_Fs
begin

text \<open>
  The program \<open>app/samples/littlefs\<close>: it counts boots in a file of each of two littlefs volumes, and
  writes a test pattern to a third one and reads it back.
\<close>

subsection \<open>The program\<close>

text \<open>
  The calls of the sample: those of \<open>fs_ops\<close>, and truncating, mounting at a mount point, the blocks,
  free blocks and fragment size of a volume, and the name and kind (is it a file) of a directory entry.
\<close>

record 'f lfs_ops =
  files :: "(u8, 'f) fs_ops"
  fs_truncate :: "nat \<Rightarrow> 'f \<Rightarrow> int \<times> 'f"
  fs_mount :: "string \<Rightarrow> 'f \<Rightarrow> int \<times> 'f"
  fs_statvfs :: "string \<Rightarrow> 'f \<Rightarrow> int \<times> u32 \<times> u32 \<times> u32"
  fs_dirent :: "string \<Rightarrow> 'f \<Rightarrow> string \<times> bool"

datatype printed_size = Ud u32 | KiB rat | MiB rat

text \<open>What the sample logs; \<open>Stack_bytes\<close> is a string that goes on into bytes nobody wrote.\<close>

datatype lfs_report =
  Failed int
| Boot_count int
| Pattern "u8 list"
| Stack_bytes
| Tell int
| Stat string string int
| Volume string u32 u32 u32 printed_size printed_size

definition print_size :: "u32 \<Rightarrow> printed_size" where
  "print_size sz =
     (if sz < 1024 then Ud sz
      else if sz < 1024 * 1024 then KiB (of_nat (unat sz) / 1024)
      else MiB (of_nat (unat sz) / (1024 * 1024)))"

definition print_tell :: "'f lfs_ops \<Rightarrow> 'f \<Rightarrow> lfs_report list" where
  "print_tell fs f = [Tell (fs_tell (files fs) f)]"

definition print_stat :: "'f lfs_ops \<Rightarrow> string \<Rightarrow> 'f \<Rightarrow> lfs_report list" where
  "print_stat fs path f =
     (case fs_stat (files fs) path f of
        (ret, sz) \<Rightarrow>
          if ret < 0 then [Failed ret]
          else case fs_dirent fs path f of (name, is_file) \<Rightarrow> [Stat name (if is_file then ''file'' else ''directory'') sz])"

definition print_statvfs :: "'f lfs_ops \<Rightarrow> string \<Rightarrow> 'f \<Rightarrow> lfs_report list" where
  "print_statvfs fs path f =
     (case fs_statvfs fs path f of
        (ret, f_blocks, f_bfree, f_frsize) \<Rightarrow>
          if ret < 0 then [Failed ret]
          else [Volume path f_blocks f_bfree f_frsize (print_size (f_blocks * f_frsize)) (print_size (f_bfree * f_frsize))])"

text \<open>The reports that do not depend on how full the volumes are.\<close>

definition is_result :: "lfs_report \<Rightarrow> bool" where
  "is_result r = (case r of Boot_count _ \<Rightarrow> True | Pattern _ \<Rightarrow> True | Stack_bytes \<Rightarrow> True | _ \<Rightarrow> False)"

text \<open>The flash areas: opening, erasing \<open>size\<close> bytes from an offset, closing, and their sizes.\<close>

record 'f flash_ops =
  flash_area_open :: "u8 \<Rightarrow> 'f \<Rightarrow> int \<times> 'f"
  flash_area_erase :: "u8 \<Rightarrow> nat \<Rightarrow> nat \<Rightarrow> 'f \<Rightarrow> int \<times> 'f"
  flash_area_close :: "u8 \<Rightarrow> 'f \<Rightarrow> 'f"
  fa_size :: "u8 \<Rightarrow> nat"

definition clear_flash_area :: "'f flash_ops \<Rightarrow> u8 \<Rightarrow> 'f \<Rightarrow> int \<times> 'f" where
  "clear_flash_area fl fa_id f =
     (case flash_area_open fl fa_id f of
        (ret, f) \<Rightarrow>
          if ret < 0 then (ret, f)
          else case flash_area_erase fl fa_id 0 (fa_size fl fa_id) f of
            (ret, f) \<Rightarrow> if ret < 0 then (ret, f) else (ret, flash_area_close fl fa_id f))"

text \<open>
  From the open file to the label \<open>exit\<close>. A short read leaves the other bytes of \<open>count\<close>, which starts
  at -1. \<open>None\<close> is the undefined overflow of \<open>count++\<close>.
\<close>

definition increment_open :: "'f lfs_ops \<Rightarrow> 'f \<Rightarrow> (lfs_report list \<times> 'f) option" where
  "increment_open fs f =
     (case fs_read (files fs) 4 f of
        (ret, bytes, f) \<Rightarrow>
          if ret < 0 then Some ([Failed ret], f)
          else
            let count = of_le32 (bytes @ drop (length bytes) (le32 (-1))) in
            if sint count = 2147483647 then None
            else
              let count = count + 1; (ret, f) = fs_seek (files fs) 0 f in
              if ret < 0 then Some ([Boot_count (sint count), Failed ret], f)
              else case fs_write (files fs) (le32 count) f of
                (ret, f) \<Rightarrow> Some (Boot_count (sint count) # (if ret < 0 then [Failed ret] else []), f))"

definition increment_int32 :: "'f lfs_ops \<Rightarrow> string \<Rightarrow> 'f \<Rightarrow> (lfs_report list \<times> 'f) option" where
  "increment_int32 fs path f =
     (case fs_open (files fs) path (FS_O_CREATE OR FS_O_RDWR) f of
        (ret, f) \<Rightarrow>
          if ret < 0 then Some ([Failed ret], f)
          else case increment_open fs f of
            None \<Rightarrow> None
          | Some (out, f) \<Rightarrow>
              (case fs_close (files fs) f of (ret, f) \<Rightarrow> Some (out @ (if ret < 0 then [Failed ret] else []), f)))"

text \<open>The pattern with the NUL of the literal.\<close>

definition test_pattern :: "u8 list" where
  "test_pattern = map (\<lambda>c. of_nat (of_char c)) ''Flash testing pattern 1'' @ [0]"

definition write_test_pattern :: "'f lfs_ops \<Rightarrow> string \<Rightarrow> 'f \<Rightarrow> lfs_report list \<times> 'f" where
  "write_test_pattern fs path f =
     (case fs_open (files fs) path (FS_O_CREATE OR FS_O_RDWR) f of
        (ret, f) \<Rightarrow>
          if ret < 0 then ([Failed ret], f)
          else
            let f = snd (fs_truncate fs (length test_pattern) f);
                f = snd (fs_write (files fs) test_pattern f);
                out = print_tell fs f @ print_statvfs fs path f;
                f = snd (fs_truncate fs (2 * length test_pattern) f);
                out = out @ print_tell fs f @ print_stat fs path f @ print_statvfs fs path f
            in (out, snd (fs_close (files fs) f)))"

definition read_test_pattern :: "'f lfs_ops \<Rightarrow> string \<Rightarrow> 'f \<Rightarrow> lfs_report list \<times> 'f" where
  "read_test_pattern fs path f =
     (case fs_open (files fs) path (FS_O_CREATE OR FS_O_RDWR) f of
        (ret, f) \<Rightarrow>
          if ret < 0 then ([Failed ret], f)
          else case fs_read (files fs) 256 f of
            (ret, bytes, f) \<Rightarrow>
              (if ret < 0 then [Failed ret] else if 0 \<in> set bytes then [Pattern (takeWhile (\<lambda>b. b \<noteq> 0) bytes)] else [Stack_bytes],
               snd (fs_close (files fs) f)))"

definition fname_1 :: string where "fname_1 = ''/lfs1/boot_count''"
definition fname_2 :: string where "fname_2 = ''/lfs2/boot_count''"
definition fname_3 :: string where "fname_3 = ''/lfs3/test_pattern''"

text \<open>\<open>main\<close> up to the loop: does it get there, what it logs, and the file system.\<close>

definition lfs_volumes :: "'f lfs_ops \<Rightarrow> 'f \<Rightarrow> (lfs_report list \<times> 'f) option" where
  "lfs_volumes fs f =
     (case increment_int32 fs fname_1 f of
        None \<Rightarrow> None
      | Some (out1, f) \<Rightarrow>
          let out1 = out1 @ print_stat fs fname_1 f @ print_statvfs fs fname_1 f;
              (ret, f) = fs_mount fs ''/lfs2'' f
          in case (if ret < 0 then Some ([Failed ret], f) else increment_int32 fs fname_2 f) of
            None \<Rightarrow> None
          | Some (out2, f) \<Rightarrow>
              (case fs_mount fs ''/lfs3'' f of
                 (ret, f) \<Rightarrow>
                   if ret < 0 then Some (out1 @ out2 @ [Failed ret], f)
                   else case write_test_pattern fs fname_3 f of
                     (out3, f) \<Rightarrow> case read_test_pattern fs fname_3 f of
                       (out4, f) \<Rightarrow> Some (out1 @ out2 @ out3 @ out4, f)))"

definition littlefs_main :: "'f lfs_ops \<Rightarrow> bool \<Rightarrow> int \<Rightarrow> bool \<Rightarrow> 'f \<Rightarrow> (bool \<times> lfs_report list \<times> 'f) option" where
  "littlefs_main fs led_ready led_configured flash_ready f =
     (if \<not> led_ready \<or> led_configured < 0 \<or> \<not> flash_ready then Some (False, [], f)
      else map_option (\<lambda>(out, f). (True, out, f)) (lfs_volumes fs f))"

text \<open>The loop: the LED and the time, one turn.\<close>

definition blink :: "bool \<times> nat \<Rightarrow> bool \<times> nat" where "blink s = (\<not> fst s, snd s + 100)"

subsection \<open>What the file systems promise\<close>

text \<open>
  The documented behaviour of the calls, over what is on the volumes: the bytes of each file (none when
  there is no such file, which opening creates), the open file and the position in it, and the volumes
  that are mounted. A file is on the volume that its name starts with.
\<close>

record volumes =
  stored :: "string \<Rightarrow> u8 list"
  opened :: string
  offset :: nat
  mounts :: "string set"

definition littlefs :: "'f lfs_ops \<Rightarrow> ('f \<Rightarrow> 'f) \<Rightarrow> ('f \<Rightarrow> volumes) \<Rightarrow> bool" where
  "littlefs fs reset view \<longleftrightarrow>
     (\<forall>f name. take 5 name \<in> mounts (view f) \<longrightarrow>
        (\<exists>f'. fs_open (files fs) name (FS_O_CREATE OR FS_O_RDWR) f = (0, f') \<and> view f' = (view f)\<lparr>opened := name, offset := 0\<rparr>)) \<and>
     (\<forall>f n. let bytes = take n (drop (offset (view f)) (stored (view f) (opened (view f)))) in
        \<exists>f'. fs_read (files fs) n f = (int (length bytes), bytes, f') \<and> view f' = (view f)\<lparr>offset := offset (view f) + length bytes\<rparr>) \<and>
     (\<forall>f bytes. offset (view f) \<le> length (stored (view f) (opened (view f))) \<longrightarrow>
        (\<exists>f'. fs_write (files fs) bytes f = (int (length bytes), f') \<and>
          view f' = (view f)\<lparr>stored := (stored (view f))(opened (view f) := overwrite (offset (view f)) bytes (stored (view f) (opened (view f)))),
            offset := offset (view f) + length bytes\<rparr>)) \<and>
     (\<forall>f. \<exists>f'. fs_seek (files fs) 0 f = (0, f') \<and> view f' = (view f)\<lparr>offset := 0\<rparr>) \<and>
     (\<forall>f. \<exists>f'. fs_close (files fs) f = (0, f') \<and> view f' = view f) \<and>
     (\<forall>f n. \<exists>f'. fs_truncate fs n f = (0, f') \<and>
        view f' = (view f)\<lparr>stored := (stored (view f))(opened (view f) :=
          take n (stored (view f) (opened (view f))) @ replicate (n - length (stored (view f) (opened (view f)))) 0)\<rparr>) \<and>
     (\<forall>f vol. \<exists>f'. fs_mount fs vol f = (0, f') \<and> view f' = (view f)\<lparr>mounts := insert vol (mounts (view f))\<rparr>) \<and>
     (\<forall>f. view (reset f) = (view f)\<lparr>mounts := {''/lfs1''}\<rparr>)"

lemma littlefs_calls:
  assumes "littlefs fs reset view"
  shows "take 5 name \<in> mounts (view f) \<Longrightarrow>
      \<exists>f'. fs_open (files fs) name (FS_O_CREATE OR FS_O_RDWR) f = (0, f') \<and> view f' = (view f)\<lparr>opened := name, offset := 0\<rparr>"
    and "\<exists>f'. fs_read (files fs) n f = (int (length (take n (drop (offset (view f)) (stored (view f) (opened (view f)))))),
        take n (drop (offset (view f)) (stored (view f) (opened (view f)))), f') \<and>
      view f' = (view f)\<lparr>offset := offset (view f) + length (take n (drop (offset (view f)) (stored (view f) (opened (view f)))))\<rparr>"
    and "offset (view f) \<le> length (stored (view f) (opened (view f))) \<Longrightarrow>
      \<exists>f'. fs_write (files fs) bytes f = (int (length bytes), f') \<and>
        view f' = (view f)\<lparr>stored := (stored (view f))(opened (view f) := overwrite (offset (view f)) bytes (stored (view f) (opened (view f)))),
          offset := offset (view f) + length bytes\<rparr>"
    and "\<exists>f'. fs_seek (files fs) 0 f = (0, f') \<and> view f' = (view f)\<lparr>offset := 0\<rparr>"
    and "\<exists>f'. fs_close (files fs) f = (0, f') \<and> view f' = view f"
    and "\<exists>f'. fs_truncate fs n f = (0, f') \<and>
      view f' = (view f)\<lparr>stored := (stored (view f))(opened (view f) :=
        take n (stored (view f) (opened (view f))) @ replicate (n - length (stored (view f) (opened (view f)))) 0)\<rparr>"
    and "\<exists>f'. fs_mount fs vol f = (0, f') \<and> view f' = (view f)\<lparr>mounts := insert vol (mounts (view f))\<rparr>"
    and "view (reset f) = (view f)\<lparr>mounts := {''/lfs1''}\<rparr>"
  using assms unfolding littlefs_def Let_def by blast+

text \<open>The count in a file, and a boot's effect on it.\<close>

definition boots_in :: "u8 list \<Rightarrow> u32" where
  "boots_in c = of_le32 (take 4 c @ drop (length (take 4 c)) (le32 (-1)))"

lemma increment_counts:
  assumes fs: "littlefs fs reset view" and m: "take 5 name \<in> mounts (view f)"
    and s: "sint (boots_in (stored (view f) name)) \<noteq> 2147483647"
  shows "\<exists>f'. increment_int32 fs name f = Some ([Boot_count (sint (boots_in (stored (view f) name) + 1))], f') \<and>
    stored (view f') = (stored (view f))(name := le32 (boots_in (stored (view f) name) + 1) @ drop 4 (stored (view f) name)) \<and>
    mounts (view f') = mounts (view f)"
proof -
  let ?c = "stored (view f) name"
  let ?n = "boots_in ?c"
  note calls = littlefs_calls [OF fs]
  obtain f1 where f1: "fs_open (files fs) name (FS_O_CREATE OR FS_O_RDWR) f = (0, f1)" "view f1 = (view f)\<lparr>opened := name, offset := 0\<rparr>"
    using calls(1) [OF m] by blast
  obtain f2 where f2: "fs_read (files fs) 4 f1 = (int (length (take 4 ?c)), take 4 ?c, f2)"
      "view f2 = (view f)\<lparr>opened := name, offset := length (take 4 ?c)\<rparr>"
    using calls(2) [of 4 f1] f1(2) by auto
  obtain f3 where f3: "fs_seek (files fs) 0 f2 = (0, f3)" "view f3 = (view f)\<lparr>opened := name, offset := 0\<rparr>"
    using calls(4) [of f2] f2(2) by auto
  obtain f4 where f4: "fs_write (files fs) (le32 (?n + 1)) f3 = (4, f4)"
      "view f4 = (view f)\<lparr>opened := name, stored := (stored (view f))(name := le32 (?n + 1) @ drop 4 ?c), offset := 4\<rparr>"
    using calls(3) [of f3 "le32 (?n + 1)"] f3(2) by (auto simp: overwrite_def length_le32)
  obtain f5 where f5: "fs_close (files fs) f4 = (0, f5)" "view f5 = view f4" using calls(5) [of f4] by blast
  have "increment_open fs f1 = Some ([Boot_count (sint (?n + 1))], f4)"
    using f2(1) f3(1) f4(1) s by (simp add: increment_open_def boots_in_def Let_def)
  then show ?thesis using f1(1) f5 f4(2) by (simp add: increment_int32_def)
qed

lemma no_results_printed:
  "filter is_result (print_tell fs f) = []" "filter is_result (print_stat fs name f) = []" "filter is_result (print_statvfs fs name f) = []"
  by (simp_all add: print_tell_def print_stat_def print_statvfs_def is_result_def split: prod.splits)

text \<open>The file then holds the pattern and the bytes that the second truncation adds, whatever it held before.\<close>

lemma pattern_is_read_back:
  assumes fs: "littlefs fs reset view" and m: "take 5 name \<in> mounts (view f)"
  shows "\<exists>out f' f''. write_test_pattern fs name f = (out, f') \<and> filter is_result out = [] \<and>
    read_test_pattern fs name f' = ([Pattern (butlast test_pattern)], f'') \<and>
    stored (view f'') = (stored (view f))(name := test_pattern @ replicate 24 0) \<and> mounts (view f'') = mounts (view f)"
proof -
  let ?v = "(view f)\<lparr>opened := name\<rparr>"
  let ?put = "\<lambda>c. (stored (view f))(name := c)"
  have len: "length test_pattern = 24" by (simp add: test_pattern_def)
  note calls = littlefs_calls [OF fs]
  obtain f1 where f1: "fs_open (files fs) name (FS_O_CREATE OR FS_O_RDWR) f = (0, f1)" "view f1 = ?v\<lparr>offset := 0\<rparr>"
    using calls(1) [OF m] by auto
  obtain f2 where f2: "fs_truncate fs 24 f1 = (0, f2)"
      "view f2 = ?v\<lparr>offset := 0, stored := ?put (take 24 (stored (view f) name) @ replicate (24 - length (stored (view f) name)) 0)\<rparr>"
    using calls(6) [of 24 f1] f1(2) by auto
  have "length (take 24 (stored (view f) name) @ replicate (24 - length (stored (view f) name)) (0 :: u8)) = 24" by simp
  then have over: "overwrite 0 test_pattern (take 24 (stored (view f) name) @ replicate (24 - length (stored (view f) name)) 0) = test_pattern"
    by (simp add: overwrite_def len)
  obtain f3 where f3: "fs_write (files fs) test_pattern f2 = (24, f3)" "view f3 = ?v\<lparr>offset := 24, stored := ?put test_pattern\<rparr>"
    using calls(3) [of f2 test_pattern] f2(2) by (auto simp: over len)
  obtain f4 where f4: "fs_truncate fs 48 f3 = (0, f4)" "view f4 = ?v\<lparr>offset := 24, stored := ?put (test_pattern @ replicate 24 0)\<rparr>"
    using calls(6) [of 48 f3] f3(2) by (auto simp: len)
  obtain f5 where f5: "fs_close (files fs) f4 = (0, f5)" "view f5 = view f4" using calls(5) [of f4] by blast
  have m5: "take 5 name \<in> mounts (view f5)" using m f5(2) f4(2) by simp
  obtain f6 where f6: "fs_open (files fs) name (FS_O_CREATE OR FS_O_RDWR) f5 = (0, f6)"
      "view f6 = ?v\<lparr>offset := 0, stored := ?put (test_pattern @ replicate 24 0)\<rparr>"
    using calls(1) [OF m5] f5(2) f4(2) by auto
  obtain f7 where f7: "fs_read (files fs) 256 f6 = (48, test_pattern @ replicate 24 0, f7)"
      "view f7 = ?v\<lparr>offset := 48, stored := ?put (test_pattern @ replicate 24 0)\<rparr>"
    using calls(2) [of 256 f6] f6(2) by (auto simp: len)
  obtain f8 where f8: "fs_close (files fs) f7 = (0, f8)" "view f8 = view f7" using calls(5) [of f7] by blast
  have str: "0 \<in> set (test_pattern @ replicate 24 0)"
    "takeWhile (\<lambda>b. b \<noteq> 0) (test_pattern @ replicate 24 0) = butlast test_pattern"
    by (simp_all add: test_pattern_def)
  have "write_test_pattern fs name f = (print_tell fs f3 @ print_statvfs fs name f3 @
      print_tell fs f4 @ print_stat fs name f4 @ print_statvfs fs name f4, f5)"
    using f1(1) f2(1) f3(1) f4(1) f5(1) by (simp add: write_test_pattern_def Let_def len)
  moreover have "read_test_pattern fs name f5 = ([Pattern (butlast test_pattern)], f8)"
    using f6(1) f7(1) f8(1) str by (simp add: read_test_pattern_def)
  ultimately show ?thesis using f7(2) f8(2) by (auto simp: no_results_printed)
qed

lemma file_names:
  "take 5 fname_1 = ''/lfs1''" "take 5 fname_2 = ''/lfs2''" "take 5 fname_3 = ''/lfs3''"
  "fname_1 \<noteq> fname_2" "fname_1 \<noteq> fname_3" "fname_2 \<noteq> fname_3"
  by (simp_all add: fname_1_def fname_2_def fname_3_def)

lemma volumes_run:
  assumes fs: "littlefs fs reset view" and m: "mounts (view f) = {''/lfs1''}"
    and s: "sint (boots_in (stored (view f) fname_1)) \<noteq> 2147483647" "sint (boots_in (stored (view f) fname_2)) \<noteq> 2147483647"
  shows "\<exists>out f'. lfs_volumes fs f = Some (out, f') \<and>
    filter is_result out = [Boot_count (sint (boots_in (stored (view f) fname_1) + 1)),
      Boot_count (sint (boots_in (stored (view f) fname_2) + 1)), Pattern (butlast test_pattern)] \<and>
    stored (view f') = (stored (view f))(
      fname_1 := le32 (boots_in (stored (view f) fname_1) + 1) @ drop 4 (stored (view f) fname_1),
      fname_2 := le32 (boots_in (stored (view f) fname_2) + 1) @ drop 4 (stored (view f) fname_2),
      fname_3 := test_pattern @ replicate 24 0)"
proof -
  note calls = littlefs_calls [OF fs] and count = increment_counts [OF fs]
  have m1: "take 5 fname_1 \<in> mounts (view f)" by (simp add: m file_names)
  obtain f1 where f1: "increment_int32 fs fname_1 f = Some ([Boot_count (sint (boots_in (stored (view f) fname_1) + 1))], f1)"
      "stored (view f1) = (stored (view f))(fname_1 :=
        le32 (boots_in (stored (view f) fname_1) + 1) @ drop 4 (stored (view f) fname_1))"
      "mounts (view f1) = {''/lfs1''}"
    using count [OF m1 s(1)] unfolding m by blast
  obtain f2 where f2: "fs_mount fs ''/lfs2'' f1 = (0, f2)" "stored (view f2) = stored (view f1)" "mounts (view f2) = {''/lfs2'', ''/lfs1''}"
    using calls(7) [of "''/lfs2''" f1] f1(3) by (elim exE conjE) simp
  have s2: "stored (view f2) fname_2 = stored (view f) fname_2" using f2(2) f1(2) file_names(4) by simp
  have m2: "take 5 fname_2 \<in> mounts (view f2)" by (simp add: f2(3) file_names)
  obtain f3 where f3: "increment_int32 fs fname_2 f2 = Some ([Boot_count (sint (boots_in (stored (view f) fname_2) + 1))], f3)"
      "stored (view f3) = (stored (view f1))(fname_2 :=
        le32 (boots_in (stored (view f) fname_2) + 1) @ drop 4 (stored (view f) fname_2))"
      "mounts (view f3) = {''/lfs2'', ''/lfs1''}"
    using count [OF m2 s(2) [folded s2]] unfolding s2 unfolding f2(2,3) by blast
  obtain f4 where f4: "fs_mount fs ''/lfs3'' f3 = (0, f4)" "stored (view f4) = stored (view f3)" "''/lfs3'' \<in> mounts (view f4)"
    using calls(7) [of "''/lfs3''" f3] by (elim exE conjE) simp
  have m3: "take 5 fname_3 \<in> mounts (view f4)" using f4(3) by (simp add: file_names)
  obtain out f5 f6 where f5: "write_test_pattern fs fname_3 f4 = (out, f5)" "filter is_result out = []"
      "read_test_pattern fs fname_3 f5 = ([Pattern (butlast test_pattern)], f6)"
      "stored (view f6) = (stored (view f4))(fname_3 := test_pattern @ replicate 24 0)"
    using pattern_is_read_back [OF fs m3] by blast
  show ?thesis using f1 f2(1) f3 f4(1,2) f5
    by (simp add: lfs_volumes_def Let_def no_results_printed is_result_def)
qed

text \<open>Boots of the sample on a machine that is ready, with what each reports of its results.\<close>

fun lfs_boots :: "'f lfs_ops \<Rightarrow> ('f \<Rightarrow> 'f) \<Rightarrow> nat \<Rightarrow> 'f \<Rightarrow> (lfs_report list list \<times> 'f) option" where
  "lfs_boots fs reset 0 f = Some ([], f)"
| "lfs_boots fs reset (Suc n) f =
     (case lfs_boots fs reset n f of
        None \<Rightarrow> None
      | Some (outs, f) \<Rightarrow>
          (case littlefs_main fs True 0 True (reset f) of
             None \<Rightarrow> None
           | Some (_, out, f) \<Rightarrow> Some (outs @ [filter is_result out], f)))"

lemma boots_in_empty: "boots_in [] = - 1" and boots_in_le32: "boots_in (le32 w) = w"
  by (simp_all add: boots_in_def boot_le32_roundtrip length_le32)

lemma below_last_count:
  assumes "w + 1 = (of_nat n :: u32)" "n < 2 ^ 31"
  shows "sint w \<noteq> 2147483647"
proof
  assume "sint w = 2147483647"
  then have "w = 2147483647" by (intro signed_word_eqI) simp
  then have "sint (of_nat n :: u32) = sint (2147483648 :: u32)" using assms(1) by simp
  then have "int n = - 2147483648" unfolding sint_count [OF assms(2)] by simp
  then show False by simp
qed

text \<open>
  C35: the sample counts its boots in both files from 0, and every boot reads the pattern back, whatever
  the file of the pattern held before the first one.
\<close>

theorem littlefs_sample_counts:
  assumes "littlefs fs reset view" "n < 2 ^ 31"
    and "stored (view f) fname_1 = []" "stored (view f) fname_2 = []"
  shows "\<exists>f'. lfs_boots fs reset n f =
      Some (map (\<lambda>k. [Boot_count (int k), Boot_count (int k), Pattern (butlast test_pattern)]) [0..<n], f') \<and>
    (0 < n \<longrightarrow> stored (view f') = (stored (view f))(fname_1 := le32 (of_nat (n - 1)),
      fname_2 := le32 (of_nat (n - 1)), fname_3 := test_pattern @ replicate 24 0))"
  using assms(2)
proof (induction n)
  case 0
  then show ?case by simp
next
  case (Suc n)
  from Suc.IH Suc.prems obtain f1 where f1: "lfs_boots fs reset n f =
        Some (map (\<lambda>k. [Boot_count (int k), Boot_count (int k), Pattern (butlast test_pattern)]) [0..<n], f1)"
      "0 < n \<longrightarrow> stored (view f1) = (stored (view f))(fname_1 := le32 (of_nat (n - 1)),
        fname_2 := le32 (of_nat (n - 1)), fname_3 := test_pattern @ replicate 24 0)"
    by (meson Suc_lessD)
  have zero: "n = 0 \<longrightarrow> f1 = f" using f1(1) by auto
  let ?g = "reset f1"
  have g: "view ?g = (view f1)\<lparr>mounts := {''/lfs1''}\<rparr>" by (rule littlefs_calls(8) [OF assms(1)])
  have c: "boots_in (stored (view ?g) fname_1) + 1 = of_nat n" "boots_in (stored (view ?g) fname_2) + 1 = of_nat n"
    "drop 4 (stored (view ?g) fname_1) = []" "drop 4 (stored (view ?g) fname_2) = []"
    using f1(2) zero g assms(3,4) by (cases n; simp add: file_names boots_in_empty boots_in_le32 length_le32)+
  have sn: "sint (of_nat n :: u32) = int n" using Suc.prems by (intro sint_count) simp
  have ok: "sint (boots_in (stored (view ?g) fname_1)) \<noteq> 2147483647" "sint (boots_in (stored (view ?g) fname_2)) \<noteq> 2147483647"
    using below_last_count [OF c(1)] below_last_count [OF c(2)] Suc.prems by simp_all
  obtain out f2 where f2: "lfs_volumes fs ?g = Some (out, f2)"
      "filter is_result out = [Boot_count (int n), Boot_count (int n), Pattern (butlast test_pattern)]"
      "stored (view f2) = (stored (view f1))(fname_1 := le32 (of_nat n), fname_2 := le32 (of_nat n), fname_3 := test_pattern @ replicate 24 0)"
    using volumes_run [OF assms(1) _ ok] g unfolding c sn by auto
  have "stored (view f2) = (stored (view f))(fname_1 := le32 (of_nat n), fname_2 := le32 (of_nat n), fname_3 := test_pattern @ replicate 24 0)"
    using f2(3) f1(2) zero by (cases n) (auto simp: fun_eq_iff)
  then show ?case using f1(1) f2(1,2) by (simp add: littlefs_main_def fun_upd_def)
qed

text \<open>Three volumes in memory, for the witness.\<close>

definition memory_volumes :: "volumes lfs_ops" where
  "memory_volumes = \<lparr>files = \<lparr>fs_open = \<lambda>name _ v. if take 5 name \<in> mounts v then (0, v\<lparr>opened := name, offset := 0\<rparr>) else (-2, v),
       fs_close = \<lambda>v. (0, v),
       fs_write = \<lambda>bytes v. (int (length bytes),
         v\<lparr>stored := (stored v)(opened v := overwrite (offset v) bytes (stored v (opened v))), offset := offset v + length bytes\<rparr>),
       fs_read = \<lambda>n v. let bytes = take n (drop (offset v) (stored v (opened v))) in
         (int (length bytes), bytes, v\<lparr>offset := offset v + length bytes\<rparr>),
       fs_seek = \<lambda>k v. (0, v\<lparr>offset := nat k\<rparr>), fs_tell = \<lambda>v. int (offset v), fs_sync = \<lambda>v. (0, v),
       fs_stat = \<lambda>name v. (0, int (length (stored v name)))\<rparr>,
     fs_truncate = \<lambda>n v. (0, v\<lparr>stored := (stored v)(opened v :=
       take n (stored v (opened v)) @ replicate (n - length (stored v (opened v))) 0)\<rparr>),
     fs_mount = \<lambda>vol v. (0, v\<lparr>mounts := insert vol (mounts v)\<rparr>),
     fs_statvfs = \<lambda>_ _. (0, 4096, 4000, 4096), fs_dirent = \<lambda>name _. (drop 6 name, True)\<rparr>"

lemma memory_volumes_ok: "littlefs memory_volumes (\<lambda>v. v\<lparr>mounts := {''/lfs1''}\<rparr>) (\<lambda>v. v)"
  by (auto simp: littlefs_def memory_volumes_def Let_def)

theorem littlefs_sample_counts_witness:
  "\<exists>v. lfs_boots memory_volumes (\<lambda>v. v\<lparr>mounts := {''/lfs1''}\<rparr>) 2
      \<lparr>stored = (\<lambda>_. [])(fname_3 := replicate 100 7), opened = [], offset = 0, mounts = {}\<rparr> =
    Some ([[Boot_count 0, Boot_count 0, Pattern (butlast test_pattern)], [Boot_count 1, Boot_count 1, Pattern (butlast test_pattern)]], v)"
proof -
  let ?v = "\<lparr>stored = (\<lambda>_. [])(fname_3 := replicate 100 7), opened = [], offset = 0, mounts = {}\<rparr>"
  have "stored ?v fname_1 = []" "stored ?v fname_2 = []" by (simp_all add: file_names)
  from littlefs_sample_counts [OF memory_volumes_ok _ this, of 2] show ?thesis by (auto simp: upt_rec)
qed

end
