(* ===== verification/Debouncer_Tests.thy ===== *)
theory Debouncer_Tests
  imports Complex_Main Flight_Utils
begin

text \<open>
  The tests of the debouncer (\<open>app/tests/utils/main.cpp\<close>). They name the type of the time before that of
  the value, the other way round than the template, so they test an instance whose time is a float and
  whose \<open>NOT_PASSED\<close>, all ones cast to a float, is -1. Floats are exact here.
\<close>

subsection \<open>The instance\<close>

record 'a float_debouncer =
  fduration :: rat
  ftarget_value :: 'a
  ffirstTimePassed :: rat
  flastTimePassed :: rat

definition FNOT_PASSED :: rat where "FNOT_PASSED = of_int (sint (NOT 0 :: 32 word))"

definition fdb_new :: "rat \<Rightarrow> 'a \<Rightarrow> 'a float_debouncer" where
  "fdb_new dur tgt = \<lparr>fduration = dur, ftarget_value = tgt, ffirstTimePassed = FNOT_PASSED, flastTimePassed = FNOT_PASSED\<rparr>"

definition fdb_Feed :: "ThresholdDirection \<Rightarrow> rat \<Rightarrow> 'a::linorder \<Rightarrow> 'a float_debouncer \<Rightarrow> 'a float_debouncer" where
  "fdb_Feed direction t new_value db =
     (if (case direction of Over \<Rightarrow> new_value > ftarget_value db | Under \<Rightarrow> new_value < ftarget_value db) then
        let db = db\<lparr>flastTimePassed := t\<rparr> in
        if ffirstTimePassed db = FNOT_PASSED then db\<lparr>ffirstTimePassed := t\<rparr> else db
      else db\<lparr>ffirstTimePassed := FNOT_PASSED, flastTimePassed := FNOT_PASSED\<rparr>)"

definition fdb_Passed :: "'a float_debouncer \<Rightarrow> bool" where
  "fdb_Passed db =
     (if ffirstTimePassed db = FNOT_PASSED \<or> flastTimePassed db = FNOT_PASSED then False
      else flastTimePassed db - ffirstTimePassed db > fduration db)"

lemma FNOT_PASSED: "FNOT_PASSED = - 1"
  by (simp add: FNOT_PASSED_def)

subsection \<open>The tests\<close>

text \<open>A test feeds one sample after another and says what \<open>Passed\<close> must give then; the values are unsigned integers.\<close>

fun zasserts :: "(rat \<times> u32 \<times> bool) list \<Rightarrow> u32 float_debouncer \<Rightarrow> bool" where
  "zasserts [] db \<longleftrightarrow> True"
| "zasserts ((t, v, expected) # samples) db \<longleftrightarrow>
     (let db = fdb_Feed Over t v db in fdb_Passed db = expected \<and> zasserts samples db)"

definition test_working_good :: bool where
  "test_working_good \<longleftrightarrow>
     (let db = fdb_new 100 10 in
      \<not> fdb_Passed db \<and> zasserts [(0, 5, False), (100, 15, False), (150, 15, False), (201, 15, True)] db)"

definition test_working_zig_zag :: bool where
  "test_working_zig_zag \<longleftrightarrow>
     (let db = fdb_new 100 10 in
      \<not> fdb_Passed db \<and> zasserts [(0, 5, False), (100, 15, False), (150, 5, False), (100, 15, False)] db)"

definition test_flight :: "rat \<Rightarrow> rat" where "test_flight t = - 2 * t * t + 6 * t"

text \<open>The turns of the loop with \<open>t\<close> the multiples of a thousandth below 2.\<close>

definition flight_turn :: "nat \<Rightarrow> bool \<times> rat float_debouncer \<Rightarrow> bool \<times> rat float_debouncer" where
  "flight_turn k r =
     (case r of (ok, db) \<Rightarrow>
      let t = of_nat k / 1000; timeOver = 1 / 4; epsilon = 1 / 1000;
          db = fdb_Feed Over t (test_flight t) db
      in (ok \<and> (t < 1 + timeOver \<longrightarrow> \<not> fdb_Passed db) \<and> (t > 1 + timeOver + epsilon \<longrightarrow> fdb_Passed db), db))"

definition test_simulated_flight :: bool where
  "test_simulated_flight \<longleftrightarrow> fst (fold flight_turn [0..<2000] (True, fdb_new (1 / 4) 4))"

lemma flight_high: "test_flight (of_nat k / 1000) > 4 \<longleftrightarrow> 1000 < k \<and> k < 2000"
proof -
  have "test_flight (of_nat k / 1000) - 4 = 2 * ((of_nat k - 1000) * (2000 - of_nat k)) / 1000000"
    by (simp add: test_flight_def field_simps)
  then have "test_flight (of_nat k / 1000) > 4 \<longleftrightarrow> 0 < (of_nat k - 1000) * (2000 - of_nat k :: rat)" by linarith
  also have "\<dots> \<longleftrightarrow> 1000 < k \<and> k < 2000"
    unfolding zero_less_mult_iff by auto
  finally show ?thesis .
qed

text \<open>The debouncer after \<open>n\<close> turns.\<close>

definition flown :: "nat \<Rightarrow> rat float_debouncer" where
  "flown n = (if n \<le> 1001 then fdb_new (1 / 4) 4
     else (fdb_new (1 / 4) 4)\<lparr>ffirstTimePassed := 1001 / 1000, flastTimePassed := of_nat (n - 1) / 1000\<rparr>)"

lemma flight_step:
  assumes "n < 2000"
  shows "flight_turn n (True, flown n) = (True, flown (Suc n))"
proof -
  have first: "4 < test_flight (1001 / 1000)" by (simp add: test_flight_def)
  have over: "4 < test_flight (rat_of_nat n / 1000) \<longleftrightarrow> 1000 < n" using flight_high [of n] assms by simp
  consider "n \<le> 1000" | "n = 1001" | "1001 < n" by linarith
  then show ?thesis
    by cases (auto simp: over first flight_turn_def flown_def fdb_Feed_def fdb_Passed_def fdb_new_def FNOT_PASSED Let_def field_simps)
qed

lemma flight_turns: "n \<le> 2000 \<Longrightarrow> fold flight_turn [0..<n] (True, fdb_new (1 / 4) 4) = (True, flown n)"
  by (induction n) (simp_all add: flight_step, simp add: flown_def)

lemma debouncer_tests_pass: "test_working_good \<and> test_working_zig_zag \<and> test_simulated_flight"
proof (intro conjI)
  show test_working_good
    by (simp add: test_working_good_def fdb_Feed_def fdb_Passed_def fdb_new_def FNOT_PASSED Let_def)
  show test_working_zig_zag
    by (simp add: test_working_zig_zag_def fdb_Feed_def fdb_Passed_def fdb_new_def FNOT_PASSED Let_def)
  show test_simulated_flight by (simp only: test_simulated_flight_def flight_turns order_refl fst_conv)
qed

end
