(* ===== verification/Small_Samples.thy ===== *)
theory Small_Samples
  imports Gnss_Tenant Module_Tasks
begin

text \<open>
  Shorter programs of \<open>app/samples\<close>: \<open>tenants_and_tasks\<close>, \<open>soft_timer\<close>, \<open>sensor\<close>,
  \<open>openrocket_sensors\<close>, \<open>shield_mcp3561r\<close>, \<open>tftp_server\<close> and \<open>udp_bcast\<close>, on the models of what they call.
\<close>

subsection \<open>Tenants and tasks\<close>

text \<open>What is printed, and the integer in \<open>main\<close> that both counters point to.\<close>

record greeting =
  printed :: "string list"
  shared_count :: int

definition CHelloTenant :: "string \<Rightarrow> greeting tenant" where
  "CHelloTenant name =
     \<lparr>Startup = Some, PostStartup = Some, Run = \<lambda>s. Some (s\<lparr>printed := printed s @ [''Hello, '' @ name]\<rparr>), Cleanup = Some\<rparr>"

definition CPrintCount :: "string \<Rightarrow> greeting tenant" where
  "CPrintCount name =
     \<lparr>Startup = \<lambda>s. Some (s\<lparr>shared_count := 0\<rparr>), PostStartup = Some,
      Run = \<lambda>s. if shared_count s = 2147483647 then None
        else Some (s\<lparr>shared_count := shared_count s + 1, printed := printed s @ [name @ '': '' @ show_int (shared_count s + 1)]\<rparr>),
      Cleanup = Some\<rparr>"

definition printTask :: "greeting task" where
  "printTask = AddTenant (CHelloTenant ''Launch'') (AddTenant (CHelloTenant ''World'') (task_new ''Print Task'' 15 512 1000))"

definition counterTask :: "greeting task" where
  "counterTask = AddTenant (CPrintCount ''Counter 2'') (AddTenant (CPrintCount ''Counter 1'') (task_new ''Counter Task'' 15 512 80))"

text \<open>While \<open>main\<close> sleeps the two threads take turns, \<open>True\<close> is one of the counters.\<close>

definition tenants_main :: "greeting kernel_ops \<Rightarrow> bool list \<Rightarrow> greeting \<Rightarrow> (greeting task list \<times> greeting) option" where
  "tenants_main ops turns s =
     Option.bind (StartRtos ops (AddTask counterTask (AddTask printTask [])) s) (\<lambda>(ts, s).
     Option.bind (fold_opt (\<lambda>counters s. task_Run ops (if counters then counterTask else printTask) s) turns s)
       (StopRtos ops ts))"

text \<open>Kernel calls that leave the program's data alone.\<close>

definition kernel_only :: "'s kernel_ops \<Rightarrow> bool" where
  "kernel_only ops \<longleftrightarrow>
     (\<forall>n s. k_thread_stack_alloc ops n s = (True, s)) \<and> (\<forall>t s. k_thread_create ops t s = s) \<and> (\<forall>t s. k_thread_abort ops t s = s) \<and>
     (\<forall>t s. k_thread_stack_free ops t s = s) \<and> (\<forall>n s. k_msleep_task ops n s = s)"

lemmas tenants_defs = printTask_def counterTask_def AddTenant_def AddTask_def task_new_def CHelloTenant_def CPrintCount_def

text \<open>Both counters count in the one integer: whatever the order of the turns, it is twice their number.\<close>

lemma tenants_turns:
  assumes "kernel_only ops" "shared_count s = 2 * int n" "2 * int (n + count_list turns True) < 2147483648"
  shows "\<exists>s'. fold_opt (\<lambda>counters s. task_Run ops (if counters then counterTask else printTask) s) turns s = Some s' \<and>
    shared_count s' = 2 * int (n + count_list turns True)"
  using assms(2,3)
proof (induction turns arbitrary: s n)
  case Nil
  then show ?case by simp
next
  case (Cons counters turns)
  have msleep: "k_msleep_task ops k s' = s'" for k s' using assms(1) by (simp add: kernel_only_def)
  show ?case
  proof (cases counters)
    case True
    then obtain s1 where "task_Run ops counterTask s = Some s1" "shared_count s1 = 2 * int (Suc n)"
      using Cons.prems msleep by (auto simp: task_Run_def tenants_defs)
    then show ?thesis using Cons.IH [of s1 "Suc n"] Cons.prems(2) True by auto
  next
    case False
    then obtain s1 where "task_Run ops printTask s = Some s1" "shared_count s1 = 2 * int n"
      using Cons.prems msleep by (auto simp: task_Run_def tenants_defs)
    then show ?thesis using Cons.IH [of s1 n] Cons.prems(2) False by auto
  qed
qed

lemma tenants_main_counts:
  assumes "kernel_only ops" "2 * int (count_list turns True) < 2147483648"
  shows "\<exists>ts s'. tenants_main ops turns s = Some (ts, s') \<and> shared_count s' = 2 * int (count_list turns True)"
proof -
  let ?s = "s\<lparr>shared_count := 0\<rparr>"
  let ?ts = "[printTask\<lparr>stack := True\<rparr>, counterTask\<lparr>stack := True\<rparr>]"
  have start: "StartRtos ops (AddTask counterTask (AddTask printTask [])) s = Some (?ts, ?s)"
    using assms(1) by (simp add: kernel_only_def task_Initialize_def tenants_defs)
  obtain s' where s': "fold_opt (\<lambda>counters s. task_Run ops (if counters then counterTask else printTask) s) turns ?s = Some s'"
      "shared_count s' = 2 * int (count_list turns True)"
    using tenants_turns [OF assms(1), of ?s 0 turns] assms(2) by auto
  have "\<exists>ts. StopRtos ops ?ts s' = Some (ts, s')"
    using assms(1) by (simp add: kernel_only_def task_destroy_def tenants_defs)
  then show ?thesis using start s' by (auto simp: tenants_main_def)
qed

subsection \<open>The soft timer\<close>

text \<open>
  \<open>interruptCount\<close> is what the expiry function has counted, \<open>sleep\<close> lets time pass for the timer. \<open>None\<close>
  is a wait that does not end.
\<close>

partial_function (option) wait_interrupts :: "('t \<Rightarrow> nat) \<Rightarrow> (nat \<Rightarrow> 't \<Rightarrow> 't) \<Rightarrow> 't CSoftTimer \<Rightarrow> 't CSoftTimer option" where
  "wait_interrupts interruptCount sleep s =
     (if interruptCount (timer s) < 5 then wait_interrupts interruptCount sleep (s\<lparr>timer := sleep 80 (timer s)\<rparr>) else Some s)"

definition soft_timer_main :: "('t, 'u) timer_ops \<Rightarrow> ('t \<Rightarrow> nat) \<Rightarrow> (nat \<Rightarrow> 't \<Rightarrow> 't) \<Rightarrow> 't \<Rightarrow> 't CSoftTimer option" where
  "soft_timer_main tops interruptCount sleep t =
     Option.bind (wait_interrupts interruptCount sleep (StartTimer tops 100 (timer_new t))) (\<lambda>s.
     map_option (StopTimer tops) (BlockUntilExpired tops (StartTimer tops 1000 s)))"

text \<open>The documented timer: the time since it was started, its period, and the calls of its expiry function.\<close>

definition periodic_timer :: "('t, 'u) timer_ops \<Rightarrow> ('t \<Rightarrow> nat) \<Rightarrow> (nat \<Rightarrow> 't \<Rightarrow> 't) \<Rightarrow> ('t \<Rightarrow> nat \<times> nat) \<Rightarrow> bool" where
  "periodic_timer tops interruptCount sleep elapsed \<longleftrightarrow>
     (\<forall>ms t. 0 < ms \<longrightarrow> elapsed (k_timer_start tops ms ms t) = (0, nat ms) \<and> interruptCount (k_timer_start tops ms ms t) = interruptCount t) \<and>
     (\<forall>ms t e p. elapsed t = (e, p) \<longrightarrow> 0 < p \<longrightarrow> elapsed (sleep ms t) = (e + ms, p) \<and>
        interruptCount (sleep ms t) = interruptCount t + (e + ms) div p - e div p) \<and>
     (\<forall>t e p. elapsed t = (e, p) \<longrightarrow> 0 < p \<longrightarrow> k_timer_status_sync tops t \<noteq> None)"

lemma wait_interrupts_ends:
  assumes "periodic_timer tops interruptCount sleep elapsed" "elapsed (timer s) = (80 * n, 100)"
    "interruptCount (timer s) = 80 * n div 100" "n \<le> 7"
  shows "\<exists>s'. wait_interrupts interruptCount sleep s = Some s' \<and> elapsed (timer s') = (560, 100) \<and> interruptCount (timer s') = 5"
  using assms(2-4)
proof (induction "7 - n" arbitrary: n s)
  case 0
  then show ?case by (subst wait_interrupts.simps) simp
next
  case (Suc d)
  let ?t = "sleep 80 (timer s)"
  have "elapsed ?t = (80 * n + 80, 100) \<and> interruptCount ?t = interruptCount (timer s) + (80 * n + 80) div 100 - 80 * n div 100"
    using assms(1) Suc.prems(1) unfolding periodic_timer_def by (metis zero_less_numeral)
  then have t: "elapsed ?t = (80 * Suc n, 100)" "interruptCount ?t = 80 * Suc n div 100"
    using Suc.prems(2) by (simp_all add: add.commute)
  have "n < 7" using Suc.hyps(2) by simp
  then have less: "interruptCount (timer s) < 5" using Suc.prems(2) by linarith
  have "7 - Suc n = d" using Suc.hyps(2) by simp
  then show ?case
    using Suc.hyps(1) [of "Suc n" "s\<lparr>timer := ?t\<rparr>"] t less \<open>n < 7\<close> by (subst wait_interrupts.simps) simp
qed

lemma soft_timer_main_returns:
  assumes "periodic_timer tops interruptCount sleep elapsed" "interruptCount t = 0"
  shows "soft_timer_main tops interruptCount sleep t \<noteq> None"
proof -
  let ?s = "StartTimer tops 100 (timer_new t)"
  have "elapsed (timer ?s) = (80 * 0, 100)" "interruptCount (timer ?s) = 80 * 0 div 100"
    using assms by (simp_all add: periodic_timer_def StartTimer_def timer_new_def)
  from wait_interrupts_ends [OF assms(1) this] obtain s where s: "wait_interrupts interruptCount sleep ?s = Some s" by auto
  have "elapsed (timer (StartTimer tops 1000 s)) = (0, 1000)" using assms(1) by (simp add: periodic_timer_def StartTimer_def)
  then have "k_timer_status_sync tops (timer (StartTimer tops 1000 s)) \<noteq> None"
    using assms(1) unfolding periodic_timer_def by (metis zero_less_numeral)
  then show ?thesis using s by (simp add: soft_timer_main_def BlockUntilExpired_def)
qed

subsection \<open>A magnetometer in a thread\<close>

text \<open>The values printed, when there are any.\<close>

definition read_mag :: "'h sensor_api \<Rightarrow> nat \<Rightarrow> 'h \<Rightarrow> int \<times> sensor_value list \<times> 'h" where
  "read_mag api mag h =
     (case sensor_sample_fetch api mag h of
        (ret, h) \<Rightarrow>
          if ret < 0 then (ret, [], h)
          else case sensor_channel_get api mag SENSOR_CHAN_MAGN_XYZ h of
            (ret, val, h) \<Rightarrow> if ret < 0 then (ret, [], h) else (0, val, h))"

text \<open>At most \<open>n\<close> turns of the thread: has it ended, and what it has printed.\<close>

fun read_mag_thread :: "'h sensor_api \<Rightarrow> nat \<Rightarrow> (int \<Rightarrow> 'h \<Rightarrow> 'h) \<Rightarrow> nat \<Rightarrow> 'h \<Rightarrow> bool \<times> sensor_value list list \<times> 'h" where
  "read_mag_thread api mag msleep 0 h = (False, [], h)"
| "read_mag_thread api mag msleep (Suc n) h =
     (case read_mag api mag h of
        (ret, val, h) \<Rightarrow>
          if ret < 0 then (True, [], h)
          else case read_mag_thread api mag msleep n (msleep 100 h) of (ended, out, h) \<Rightarrow> (ended, val # out, h))"

definition sensor_main :: "bool \<Rightarrow> int \<Rightarrow> 'h sensor_api \<Rightarrow> nat \<Rightarrow> bool" where
  "sensor_main led_ready led_configured api mag \<longleftrightarrow> led_ready \<and> \<not> led_configured < 0 \<and> device_is_ready api mag"

text \<open>The thread prints once in every turn, and ends for good at the first reading that fails.\<close>

lemma read_mag_thread_prints:
  "read_mag_thread api mag msleep n h = (ended, out, h') \<Longrightarrow> length out \<le> n \<and> (ended \<longleftrightarrow> length out < n)"
  by (induction n arbitrary: h out) (auto split: prod.splits if_splits)

subsection \<open>The simulated sensors\<close>

record simulated =
  imu_accelerometer :: vector_sensor
  imu_gyroscope :: vector_sensor
  barometer :: CBarometer
  magnetometer :: vector_sensor
  shunt :: CShunt

text \<open>The results of the updates are ignored.\<close>

definition simulated_update :: "'h sensor_api \<Rightarrow> simulated \<Rightarrow> 'h \<Rightarrow> simulated \<times> 'h" where
  "simulated_update api s h =
     (case vector_UpdateSensorValue api SENSOR_CHAN_ACCEL_XYZ (imu_accelerometer s) h of
        (_, a, h) \<Rightarrow> case vector_UpdateSensorValue api SENSOR_CHAN_GYRO_XYZ (imu_gyroscope s) h of
        (_, g, h) \<Rightarrow> case barometer_UpdateSensorValue api (barometer s) h of
        (_, b, h) \<Rightarrow> case vector_UpdateSensorValue api SENSOR_CHAN_MAGN_XYZ (magnetometer s) h of
        (_, m, h) \<Rightarrow> case shunt_UpdateSensorValue api (shunt s) h of
        (_, v, h) \<Rightarrow> (\<lparr>imu_accelerometer = a, imu_gyroscope = g, barometer = b, magnetometer = m, shunt = v\<rparr>, h))"

text \<open>The values in the order of the prints; \<open>None\<close> is the \<open>k_oops\<close> of a channel that a class does not have.\<close>

definition simulated_values :: "(sensor_value \<Rightarrow> 'a) \<Rightarrow> simulated \<Rightarrow> 'a list option" where
  "simulated_values to_double s =
     map_option (map to_double) (those
       [vector_GetSensorValue accel_chans SENSOR_CHAN_ACCEL_X (imu_accelerometer s),
        vector_GetSensorValue accel_chans SENSOR_CHAN_ACCEL_Y (imu_accelerometer s),
        vector_GetSensorValue accel_chans SENSOR_CHAN_ACCEL_Z (imu_accelerometer s),
        vector_GetSensorValue gyro_chans SENSOR_CHAN_GYRO_X (imu_gyroscope s),
        vector_GetSensorValue gyro_chans SENSOR_CHAN_GYRO_Y (imu_gyroscope s),
        vector_GetSensorValue gyro_chans SENSOR_CHAN_GYRO_Z (imu_gyroscope s),
        vector_GetSensorValue magn_chans SENSOR_CHAN_MAGN_X (magnetometer s),
        vector_GetSensorValue magn_chans SENSOR_CHAN_MAGN_Y (magnetometer s),
        vector_GetSensorValue magn_chans SENSOR_CHAN_MAGN_Z (magnetometer s),
        barometer_GetSensorValue SENSOR_CHAN_AMBIENT_TEMP (barometer s),
        barometer_GetSensorValue SENSOR_CHAN_PRESS (barometer s),
        shunt_GetSensorValue SENSOR_CHAN_CURRENT (shunt s),
        shunt_GetSensorValue SENSOR_CHAN_VOLTAGE (shunt s)])"

definition simulated_turn :: "(sensor_value \<Rightarrow> 'a) \<Rightarrow> 'h sensor_api \<Rightarrow> (int \<Rightarrow> 'h \<Rightarrow> 'h) \<Rightarrow> simulated \<Rightarrow> 'h \<Rightarrow> ('a list \<times> simulated \<times> 'h) option" where
  "simulated_turn to_double api msleep s h =
     (case simulated_update api s h of (s, h) \<Rightarrow> map_option (\<lambda>vs. (vs, s, msleep 1000 h)) (simulated_values to_double s))"

lemma simulated_turn_prints: "\<exists>vs s' h'. simulated_turn to_double api msleep s h = Some (vs, s', h') \<and> length vs = 13"
  by (simp add: simulated_turn_def simulated_values_def vector_GetSensorValue_def accel_chans_def gyro_chans_def magn_chans_def
      barometer_GetSensorValue_def shunt_GetSensorValue_def split: prod.splits)

subsection \<open>The analogue shield\<close>

text \<open>
  A turn of the loop: the result of preparing the sequence is only printed, a read that fails goes back to
  the top of the loop. \<open>raw\<close> keeps its value when nothing is written.
\<close>

record 'h adc_ops =
  adc_sequence_init :: "'h \<Rightarrow> int \<times> 'h"
  adc_read :: "u32 \<Rightarrow> 'h \<Rightarrow> int \<times> u32 \<times> 'h"
  toggle_led :: "'h \<Rightarrow> 'h"
  adc_msleep :: "int \<Rightarrow> 'h \<Rightarrow> 'h"

definition shield_turn :: "'h adc_ops \<Rightarrow> u32 \<times> 'h \<Rightarrow> (int \<times> 'a::field_char_0) option \<times> u32 \<times> 'h" where
  "shield_turn io bh =
     (case bh of (raw, h) \<Rightarrow>
      case adc_sequence_init io h of (_, h) \<Rightarrow>
      case adc_read io raw h of (err, raw, h) \<Rightarrow>
        if err < 0 then (None, raw, h)
        else (Some (sint raw, 24 / 10 * of_int (sint raw) / of_int 0x7fffff), raw, adc_msleep io 100 (toggle_led io h)))"

definition shield_main :: "'h adc_ops \<Rightarrow> bool \<Rightarrow> ('h \<Rightarrow> int \<times> 'h) \<Rightarrow> 'h \<Rightarrow> bool \<times> 'h" where
  "shield_main io adc_ready channel_setup h =
     (if \<not> adc_ready then (False, h) else case channel_setup h of (err, h) \<Rightarrow> (\<not> err < 0, h))"

text \<open>While reads fail the loop does not sleep.\<close>

lemma shield_turn_busy:
  assumes "\<And>h. uptime (snd (adc_sequence_init io h)) = uptime h" "\<And>raw h. uptime (snd (snd (adc_read io raw h))) = uptime h"
    and "\<And>raw h. fst (adc_read io raw h) < 0"
  shows "uptime (snd (snd (shield_turn io (raw, h)))) = uptime h"
  using assms(1) [of h] assms(2) [of raw "snd (adc_sequence_init io h)"] assms(3) [of raw "snd (adc_sequence_init io h)"]
  by (auto simp: shield_turn_def split: prod.splits)

subsection \<open>The file for the TFTP server\<close>

definition hello_file :: string where "hello_file = ''Hello, world!''"

definition tftp_sample_setup :: "(char, 'f) fs_ops \<Rightarrow> 'f \<Rightarrow> (int, 'f cfile) sum" where
  "tftp_sample_setup fs f =
     (let file = cf_open fs ''/lfs/test.txt'' (ucast (FS_O_READ OR FS_O_WRITE OR FS_O_CREATE)) f in
      if initStatus file < 0 then Inl (- 1) else Inr (snd (cf_Write fs (take 13 hello_file) file)))"

lemma tftp_sample_writes:
  assumes "behaves_as_file fs content pos" "fs_open fs ''/lfs/test.txt'' (FS_O_READ OR FS_O_WRITE OR FS_O_CREATE) f = (0, f')"
    and "pos f' \<le> length (content f')"
  shows "\<exists>file. tftp_sample_setup fs f = Inr file \<and> content (cf_file file) = overwrite (pos f') hello_file (content f')"
proof -
  have flags: "(FS_O_READ OR FS_O_WRITE OR FS_O_CREATE) = (0x13 :: u8)" "ucast FS_O_WRITE = (2 :: u32)"
    by (simp_all add: FS_O_READ_def FS_O_WRITE_def FS_O_CREATE_def)
  have "content (snd (fs_write fs hello_file f')) = overwrite (pos f') hello_file (content f')"
    using assms(1,3) by (simp add: behaves_as_file_def)
  moreover have "take 13 hello_file = hello_file" by (simp add: hello_file_def)
  ultimately show ?thesis
    using assms(2) unfolding flags by (auto simp: tftp_sample_setup_def Let_def cf_open_def cf_Write_def flags split: prod.splits)
qed

subsection \<open>The UDP broadcast\<close>

text \<open>A message is an array of 15 characters, a place of the queue has 32.\<close>

definition broadcastStr :: "u8 list" where "broadcastStr = map (\<lambda>c. of_nat (of_char c)) ''Hello, Launch!'' @ [0]"

definition char_array_port :: "(u8 list, u8 list list) CMessagePort" where
  "char_array_port = CMsgqMessagePort (kernel_queue 10 32) (take 15) (\<lambda>bs. bs)"

definition udp_bcast_turn :: "'n net_ops \<Rightarrow> udp_socket \<Rightarrow> 'n udp_world \<times> u8 list list \<Rightarrow> ('n udp_world \<times> u8 list list) option" where
  "udp_bcast_turn nops u wq =
     (case wq of (w, q) \<Rightarrow>
      Option.bind (Send char_array_port broadcastStr K_FOREVER q) (\<lambda>(_, q).
        TransmitMessageAsynchronous (take 15) nops char_array_port (replicate 15 0) u (w, q)))"

lemma udp_bcast_reads_past: "udp_bcast_turn nops u wq = None"
proof -
  have "Send char_array_port broadcastStr K_FOREVER q = None" for q
    by (simp add: char_array_port_def CMsgqMessagePort_def msgq_Send_def kernel_queue_def min_less_iff_disj)
  then show ?thesis by (simp add: udp_bcast_turn_def split: prod.splits)
qed

end
