(* ===== verification/Spec2Isabelle.thy ===== *)
theory Spec2Isabelle
  imports Horus_Channel Mcp356x Ms5611 Ina260 Adxl375 Openrocket_Sensors Detection_Handler Board_Devices Grim_Main Potato Sample_Flight Bme280 Samples Sample_Littlefs Debouncer_Tests Small_Samples
begin

text \<open>
  A model of the software of the RIT Launch Initiative backplane flight computers, and the theorems
  that make it correct. Every definition is a translation of the code under src/; the manifest
  names the lines of each.

  The program. Three modules are stacked on a backplane and talk over UDP. The sensor module reads
  its sensors, detects the phases of the flight and logs both; the power module measures the rails;
  the radio module gathers what the others broadcast, forwards it over LoRa to the ground station and
  follows the pad, flight and landed states. Each module is a set of tenants (objects with a turn
  that a task calls again and again) over a library, f_core, and drivers of the Zephyr system.

  The theories, from the bottom up.

  Flight_Prelude: words, byte lists, little and big endian fields, the error numbers, and the option
  monad in which None is a run that never ends or leaves the defined behaviour of C++.

  Golay, Golay_Codec (lib/f_core/radio/protocols/horus/golay.c): the syndrome of a 23 bit word, the
  two tables and their generation, encoding and decoding. They show that the tables are exactly the
  tables of the code, that every code word with at most three wrong bits decodes to the word that was
  encoded, and that the decoder returns a nearest code word.

  Bit_Stream, Horus_Mix, Horus_L2, Horus, Horus_Channel (horus.c): the bit buffers, interleaver and
  scrambler, CRC, the frame with its parity section, the encoder, the decoder and the v2 wrappers, on
  byte buffers with each access checked. They show that encoding stays in its buffers, that decoding
  inverts it on every channel that damages at most three bits of each code word, that bursts are
  spread over the code words, and that the CRC is CCITT.

  Bus, Mcp356x, Ms5611, Ina260, Adxl375 (src/drivers): an I2C or SPI bus is a function of the model's
  arguments with a state of its own; the drivers are sequences of transfers whose errors are values.
  They show what reaches the registers of the device on success, which failures stop a driver and
  with which error, that the compensation of the barometer is exact when the signed shift of its second
  coefficient is defined, and undefined otherwise, and that the state of the drivers keeps its invariants. The locale register_access states
  what a device with registers promises.

  Openrocket, Openrocket_Sensors (drivers/sensor/openrocket): replay of a simulated flight. Scalars
  are exact rationals. They show that the search for the surrounding packets ends and is in bounds.
  The locale or_sensor is the shared contract of the four devices.

  Flight_Utils (include/f_core/utils): circular buffer, rolling sum, linear fit, debouncer. The locales
  sliding_window and summed_window state what a window of the last N samples promises and are
  interpreted on the code's buffers.

  Flight_Log, File_Store (lib/f_core/os): the flight log, CFile and the data logger over a file system
  that is a parameter. They show what each line of the log holds, when it is lost, and that the data
  logger appends packets or reports an error.

  Phase_Controller, Detection_Handler, Sensing: the controller that confirms the events of a flight
  from several sources with timers, the handler that turns readings into votes of the sources, and the
  turn of the tenant that feeds it. They show that the events of a flight are confirmed in order and
  once, by a vote of enough sources, that no timer of the configuration is lost, which votes a reading of each sensor casts, and that
  every turn of the tenant finishes, gives the detection what its sensors show and changes nothing after landing.

  Udp_Socket, Tftp_Server, Hash_Map, Radio_Module (lib/f_core, app/backplane/radio_module): sockets,
  file transfer, the map of port data and the state machine with the two LoRa tenants. They show which
  address a socket really sends to, that a transfer of the file that was asked for to a client that acknowledges sends the file block
  by block, that a silent client blocks the server for ever, what the map holds after any operations and when one blocks, and that the radio module does not leave
  the pad state unless a boost alert reaches it.

  Message_Port, Gnss_Tenant, Radio_System, Module_Tasks (include/f_core/messaging, utils/c_soft_timer.h,
  os/tenants, lib/f_core/os/c_task.cpp, n_rtos.cpp, app/backplane): message ports over kernel queues, the
  position tenant, the listeners, the radio module as a system of its tenants around one queue, tasks,
  and the power module with all its tenants. The locale message_port is the contract of a port: a bounded
  first-in first-out queue; it is interpreted on the queues of both builds of the radio module; waiting_port
  adds a send that waits for a bounded time. They show that the transmitter never meets a packet it must stop for, what the queue of the ground station
  does to a packet, that a log loses nothing it accepted, and that one silent client stops a task.

  Classic_Fs, Classic_Devices, Classic_Net (lib/launch_core_classic): the older core library in C, a log of
  frames of one width and the counter of boots, reading sensors and analogue channels, sockets, address
  strings, events, the time of day, the modem, extension boards. They show that the log is one of the
  two logs of the data logger, that boots are counted, that address strings are exact, and what the
  clock shows after a server has answered.

  Grim_Boost, Grim_Data, Grim_Main (app/payload/.retired/app_grim_reefer/src): a payload with a flight of
  its own, three threads that watch for the boost, a buzzer, three that read and one that stores, and the
  state machine of its main program, whose framework is a parameter with its documented behaviour. Its ring buffers are
  an instance of the locale sliding_window. They show that its states stay well formed in every interleaving, exactly when a
  boost is detected, what the buzzer plays, how readings become messages and that every message the
  storing thread is given is stored, and how the program can end.

  Board_Devices, Potato (lib/f_core/device, net, drivers/sensor, app/backplane/deployment_module,
  app/other/.retired/app_potato): pins, the RS-485 transceiver, IPv4 addresses, the simulated shunt and the
  example sensor, the log of the events of a replayed flight, the deployment module, and an extension
  board that logs an analogue channel. They show what a receive over RS-485 does with too few bytes, when the events are
  logged, and which readings the board's log holds.

  Sample_Flight (app/samples/phase_detection): a whole program around the phase controller, two sensing threads,
  the main program and the timers as interleaved steps. It shows that the events come in order in every
  interleaving, which turns return, when the main program ends, and how a flight can leave it waiting for good.

  Bme280 (app/payload/.retired/app_grim_reefer/extra/bme280.c): the payload's copy of a barometer driver, with the
  compensation in the integers of the code. It shows that the temperature is the one of the datasheet to a hundredth
  of a degree, what the channels report, what the initialisation writes and when its wait ends.

  Samples, Sample_Littlefs (app/samples/datalogger, message_passing, littlefs): three more programs around the
  library, the messages through two interpretations of the locale message_port. They show what the three logs hold,
  exactly which messages are logged, that they are in order and each at most once, and when the program ends, that boots are counted on two volumes, and
  that a test pattern is read back whatever its file held.

  Debouncer_Tests (app/tests/utils): the tests of the debouncer on the instance of the template that they name; they pass.

  Small_Samples (the shorter programs of app/samples): tasks and tenants, a timer, sensors, an analogue shield, a
  file for the TFTP server and a broadcast, on the models of what they call. They show that two counters share their
  integer, that the wait for the timer ends, that the sensor thread prints until its first failure, and which sample
  reads past its message.

  State and effects. A C structure or a class is a record or a datatype with its fields; objects of
  which there is one are threaded through the definitions. A run of the system is a list of steps
  (calls of threads, expiries of timers, received packets), each taken without interruption, so that
  interleaving is the order of that list. Machine integers are words where the width matters, and
  integers with the wrap-around written out elsewhere. Errors are negative integers, as in the code,
  or a sum where the code throws nothing and stops.

  Parameters. Zephyr (buses, sensors, sockets, modem, GPIO, clock, sleeping), the file system, libc's
  pow, log and random numbers, and generated port numbers are arguments of the definitions. What the
  code relies on is a named hypothesis of the theorem that needs it, and a witness shows that it can
  hold. Logging is left out.

  Bounds. Loops over data are structural. Loops that wait for the world are partial functions in the
  option monad, and None is a run that does not return; a theorem that a call returns says that its
  value is Some. The flight log is stated for less than 10 ^ 10 ms of uptime, over a hundred days, the
  width of its buffer; a file sent over TFTP has less than 2 ^ 31 bytes, the width of the offset, and
  a name of at most 500 bytes, the size of the request; a packet of the modem has 254 bytes of data; a frame log of the older library has less than 2 ^ 31
  bytes, the width of its offsets, and boots are counted below 2 ^ 31.
  Floating point. Grim_Boost rounds the result of every operation with functions that are parameters, so its theorems hold
  for the drifting running sum of the code. The circular buffer, the rolling sum and the linear fit use the operations of the
  scalar type without a law of them. Elsewhere scalars are an ordered field or rationals and rounding is not modelled. The
  lemmas that need exact sums (rolling_sum_correct, the slope of a line) hold for such scalars only, not for double.

  Not modelled. golay23_count_errors, which names an undeclared variable, and the SPI functions of the
  ADXL375, which do not compile; the UDP receive tenant, a template that is never used and does not
  compile; callbacks that only print; the samples that only blink, the round trip of one Horus packet,
  the LoRa broadcast, and a sample of the older library that does not compile; the Python tools, boards
  and device trees. The manifest lists every part with the reason.
\<close>

end
